(* ===== verification/Prelude.thy ===== *)
theory Prelude
  imports Main
begin

text \<open>
  Shared vocabulary of the development: instants and stored timestamps, the Go string
  functions the sources call, and the generic list lemmas of the component proofs.

  A Go string is a byte sequence, as a HOL \<open>string\<close> is (a \<open>char\<close> is one byte), so
  \<open>length\<close> is Go's \<open>len\<close>. A \<open>time\<close> is a Go \<open>time.Time\<close> in UTC, in nanoseconds.
  A \<open>stamp\<close> is the RFC 3339 text a column holds, in whole seconds: every writer formats
  \<open>time.Now().UTC()\<close> with \<open>time.RFC3339\<close>, which drops the fraction, and for that
  fixed-width layout the text order SQLite compares by is the order of the seconds.
\<close>

named_theorems model_simps \<open>equations that evaluate the operations of the model\<close>
named_theorems frame_simps \<open>what an operation leaves unchanged\<close>
named_theorems inv_intros \<open>preservation of the component invariants\<close>

type_synonym time = int
type_synonym stamp = int
type_synonym duration = int

definition nanosecond :: duration where "nanosecond = 1"
definition second :: duration where "second = 1000000000"
definition minute :: duration where "minute = 60 * second"
definition hour :: duration where "hour = 60 * minute"

lemmas duration_units = nanosecond_def second_def minute_def hour_def

text \<open>\<open>t.UTC().Format(time.RFC3339)\<close> and \<open>time.Parse(time.RFC3339, s)\<close>.\<close>

definition rfc3339 :: "time \<Rightarrow> stamp" where
  "rfc3339 t = t div second"

definition of_stamp :: "stamp \<Rightarrow> time" where
  "of_stamp s = s * second"

lemma rfc3339_of_stamp [simp]: "rfc3339 (of_stamp s) = s"
  by (simp add: rfc3339_def of_stamp_def second_def)

lemma of_stamp_le: "of_stamp (rfc3339 t) \<le> t"
  by (simp add: rfc3339_def of_stamp_def second_def)

lemma of_stamp_gt: "t < of_stamp (rfc3339 t) + second"
  by (simp add: rfc3339_def of_stamp_def second_def)

lemma rfc3339_mono: "s \<le> t \<Longrightarrow> rfc3339 s \<le> rfc3339 t"
  by (simp add: rfc3339_def second_def zdiv_mono1)

lemma rfc3339_add_seconds: "rfc3339 (t + k * second) = rfc3339 t + k"
  by (simp add: rfc3339_def second_def)

lemma of_stamp_diff: "of_stamp a - of_stamp b = of_stamp (a - b)"
  by (simp add: of_stamp_def left_diff_distrib)

lemma of_stamp_le_0 [simp]: "of_stamp a \<le> 0 \<longleftrightarrow> a \<le> 0"
  by (simp add: of_stamp_def second_def)

lemma of_stamp_mono_iff [simp]: "of_stamp a < of_stamp b \<longleftrightarrow> a < b"
  by (simp add: of_stamp_def second_def)

text \<open>
  \<open>t.Sub(u)\<close> saturates at the bounds of \<open>time.Duration\<close>, an \<open>int64\<close>, and negating the least
  \<open>int64\<close> gives itself. \<open>zero_time\<close> is Go's zero \<open>time.Time\<close>, 1 January of year 1.
\<close>

definition min_duration :: duration where "min_duration = - (2 ^ 63)"
definition max_duration :: duration where "max_duration = 2 ^ 63 - 1"

definition time_sub :: "time \<Rightarrow> time \<Rightarrow> duration" where
  "time_sub t u = max min_duration (min max_duration (t - u))"

definition neg_duration :: "duration \<Rightarrow> duration" where
  "neg_duration d = (if d = min_duration then min_duration else - d)"

definition zero_time :: time where
  "zero_time = - 62135596800 * second"

section \<open>Go's strings package\<close>

definition has_prefix :: "string \<Rightarrow> string \<Rightarrow> bool" where
  "has_prefix s p \<longleftrightarrow> take (length p) s = p"

definition has_suffix :: "string \<Rightarrow> string \<Rightarrow> bool" where
  "has_suffix s p \<longleftrightarrow> length p \<le> length s \<and> drop (length s - length p) s = p"

definition trim_prefix :: "string \<Rightarrow> string \<Rightarrow> string" where
  "trim_prefix s p = (if has_prefix s p then drop (length p) s else s)"

definition trim_suffix :: "string \<Rightarrow> string \<Rightarrow> string" where
  "trim_suffix s p = (if has_suffix s p then take (length s - length p) s else s)"

text \<open>\<open>strings.Index\<close>: the first position, \<open>None\<close> for -1.\<close>

fun str_index :: "string \<Rightarrow> string \<Rightarrow> nat option" where
  "str_index [] p = (if p = [] then Some 0 else None)"
| "str_index (c # s) p =
     (if has_prefix (c # s) p then Some 0 else map_option Suc (str_index s p))"

definition str_contains :: "string \<Rightarrow> string \<Rightarrow> bool" where
  "str_contains s p \<longleftrightarrow> str_index s p \<noteq> None"

text \<open>\<open>strings.Split(s, sep)\<close> for a one-byte separator; never the empty list.\<close>

fun split_char :: "char \<Rightarrow> string \<Rightarrow> string list" where
  "split_char c [] = [[]]"
| "split_char c (x # xs) =
     (if x = c then [] # split_char c xs
      else (case split_char c xs of [] \<Rightarrow> [[x]] | y # ys \<Rightarrow> (x # y) # ys))"

text \<open>\<open>strings.SplitN(s, sep, n)\<close> for a one-byte separator and \<open>n > 0\<close>.\<close>

fun splitn_char :: "nat \<Rightarrow> char \<Rightarrow> string \<Rightarrow> string list" where
  "splitn_char 0 c s = []"
| "splitn_char (Suc 0) c s = [s]"
| "splitn_char (Suc (Suc n)) c s =
     (if c \<in> set s
      then takeWhile (\<lambda>x. x \<noteq> c) s # splitn_char (Suc n) c (tl (dropWhile (\<lambda>x. x \<noteq> c) s))
      else [s])"

text \<open>\<open>strings.Join\<close>.\<close>

fun str_join :: "string \<Rightarrow> string list \<Rightarrow> string" where
  "str_join sep [] = []"
| "str_join sep [x] = x"
| "str_join sep (x # y # ys) = x @ sep @ str_join sep (y # ys)"

text \<open>\<open>strings.TrimRight\<close> and \<open>strings.TrimLeft\<close> with a cutset of ASCII bytes.\<close>

definition trim_left_set :: "char list \<Rightarrow> string \<Rightarrow> string" where
  "trim_left_set cs s = dropWhile (\<lambda>x. x \<in> set cs) s"

definition trim_right_set :: "char list \<Rightarrow> string \<Rightarrow> string" where
  "trim_right_set cs s = rev (dropWhile (\<lambda>x. x \<in> set cs) (rev s))"

text \<open>
  \<open>strings.TrimSpace\<close> cuts the runes of Unicode's White\_Space, listed here by their UTF-8
  bytes. A rune at the front is decoded from its own bytes, and one at the back from the
  last rune start, so both ends are a comparison with these byte strings.
\<close>

definition space_runes :: "string list" where
  "space_runes =
     [[CHR 0x09], [CHR 0x0A], [CHR 0x0B], [CHR 0x0C], [CHR 0x0D], [CHR 0x20],
      [CHR 0xC2, CHR 0x85], [CHR 0xC2, CHR 0xA0], [CHR 0xE1, CHR 0x9A, CHR 0x80],
      [CHR 0xE2, CHR 0x80, CHR 0x80], [CHR 0xE2, CHR 0x80, CHR 0x81],
      [CHR 0xE2, CHR 0x80, CHR 0x82], [CHR 0xE2, CHR 0x80, CHR 0x83],
      [CHR 0xE2, CHR 0x80, CHR 0x84], [CHR 0xE2, CHR 0x80, CHR 0x85],
      [CHR 0xE2, CHR 0x80, CHR 0x86], [CHR 0xE2, CHR 0x80, CHR 0x87],
      [CHR 0xE2, CHR 0x80, CHR 0x88], [CHR 0xE2, CHR 0x80, CHR 0x89],
      [CHR 0xE2, CHR 0x80, CHR 0x8A], [CHR 0xE2, CHR 0x80, CHR 0xA8],
      [CHR 0xE2, CHR 0x80, CHR 0xA9], [CHR 0xE2, CHR 0x80, CHR 0xAF],
      [CHR 0xE2, CHR 0x81, CHR 0x9F], [CHR 0xE3, CHR 0x80, CHR 0x80]]"

fun trim_front :: "nat \<Rightarrow> string list \<Rightarrow> string \<Rightarrow> string" where
  "trim_front 0 rs s = s"
| "trim_front (Suc n) rs s =
     (case find (\<lambda>r. has_prefix s r) rs of
        None \<Rightarrow> s
      | Some r \<Rightarrow> trim_front n rs (drop (length r) s))"

definition trim_space :: "string \<Rightarrow> string" where
  "trim_space s =
     (let l = trim_front (length s) space_runes s
      in rev (trim_front (length l) (map rev space_runes) (rev l)))"

text \<open>\<open>strings.ToLower\<close> on ASCII bytes; the other bytes are kept as they are.\<close>

definition lower_char :: "char \<Rightarrow> char" where
  "lower_char c =
     (let n = of_char c :: nat in if 65 \<le> n \<and> n \<le> 90 then char_of (n + 32) else c)"

definition to_lower :: "string \<Rightarrow> string" where
  "to_lower s = map lower_char s"

text \<open>\<open>strings.ReplaceAll\<close> of one byte by one byte.\<close>

definition replace_char :: "char \<Rightarrow> char \<Rightarrow> string \<Rightarrow> string" where
  "replace_char a b s = map (\<lambda>x. if x = a then b else x) s"

text \<open>\<open>strconv.Itoa\<close>, \<open>strconv.FormatInt(n, 10)\<close> and the verb \<open>%d\<close>.\<close>

definition digit :: "nat \<Rightarrow> char" where
  "digit n = char_of (48 + n mod 10)"

function nat_digits :: "nat \<Rightarrow> string" where
  "nat_digits n = (if n < 10 then [digit n] else nat_digits (n div 10) @ [digit n])"
  by pat_completeness auto
termination
  by (relation "measure id") auto

declare nat_digits.simps [simp del]

definition itoa :: "int \<Rightarrow> string" where
  "itoa i = (if i < 0 then CHR ''-'' # nat_digits (nat (- i)) else nat_digits (nat i))"

definition is_digit :: "char \<Rightarrow> bool" where
  "is_digit c \<longleftrightarrow> (let n = of_char c :: nat in 48 \<le> n \<and> n \<le> 57)"

text \<open>\<open>hex.EncodeToString\<close>.\<close>

definition hex_encode :: "string \<Rightarrow> string" where
  "hex_encode s = concat (map (\<lambda>c. let n = of_char c :: nat in
     [''0123456789abcdef'' ! (n div 16), ''0123456789abcdef'' ! (n mod 16)]) s)"

section \<open>Lemmas on the string functions\<close>

lemma has_prefix_append [simp]: "has_prefix (p @ s) p"
  by (simp add: has_prefix_def)

lemma has_prefix_Nil [simp]: "has_prefix s []"
  by (simp add: has_prefix_def)

lemma has_prefix_iff: "has_prefix s p \<longleftrightarrow> (\<exists>t. s = p @ t)"
  by (metis append_eq_conv_conj append_take_drop_id has_prefix_def)

lemma str_contains_iff: "str_contains s p \<longleftrightarrow> (\<exists>a b. s = a @ p @ b)"
proof (induction s)
  case Nil
  then show ?case by (auto simp: str_contains_def)
next
  case (Cons c s)
  have "str_contains (c # s) p \<longleftrightarrow> has_prefix (c # s) p \<or> str_contains s p"
    by (auto simp: str_contains_def)
  also have "\<dots> \<longleftrightarrow> (\<exists>b. c # s = p @ b) \<or> (\<exists>a b. s = a @ p @ b)"
    by (simp add: has_prefix_iff Cons.IH)
  also have "\<dots> \<longleftrightarrow> (\<exists>a b. c # s = a @ p @ b)"
    by (metis append_Cons append_Nil list.exhaust list.inject)
  finally show ?case .
qed

lemma split_char_not_Nil [simp]: "split_char c s \<noteq> []"
  by (induction s) (auto split: list.splits)

lemma split_char_no_sep: "x \<in> set (split_char c s) \<Longrightarrow> c \<notin> set x"
  by (induction s arbitrary: x) (fastforce split: list.splits if_splits)+

lemma str_join_split_char [simp]: "str_join [c] (split_char c s) = s"
proof (induction s)
  case Nil
  then show ?case by simp
next
  case (Cons x s)
  obtain y ys where y: "split_char c s = y # ys"
    by (cases "split_char c s") auto
  with Cons.IH have "str_join [c] (y # ys) = s" by simp
  with y show ?case by (cases ys) auto
qed

lemma split_char_append:
  "c \<notin> set a \<Longrightarrow> split_char c (a @ c # s) = a # split_char c s"
  by (induction a) auto

lemma split_char_no [simp]: "c \<notin> set a \<Longrightarrow> split_char c a = [a]"
  by (induction a) auto

lemma split_char_join:
  "xs \<noteq> [] \<Longrightarrow> \<forall>x \<in> set xs. c \<notin> set x \<Longrightarrow> split_char c (str_join [c] xs) = xs"
  by (induction "[c]" xs rule: str_join.induct) (auto simp: split_char_append)

lemma splitn_char_append:
  "c \<notin> set a \<Longrightarrow>
     splitn_char (Suc (Suc n)) c (a @ c # s) = a # splitn_char (Suc n) c s"
proof -
  assume a: "c \<notin> set a"
  then have w: "\<And>x. x \<in> set a \<Longrightarrow> x \<noteq> c" by auto
  have "takeWhile (\<lambda>x. x \<noteq> c) (a @ c # s) = a"
    using w by (simp add: takeWhile_append2)
  moreover have "dropWhile (\<lambda>x. x \<noteq> c) (a @ c # s) = c # s"
    using w by (simp add: dropWhile_append2)
  ultimately show ?thesis by simp
qed

lemma splitn_char_no [simp]: "c \<notin> set a \<Longrightarrow> splitn_char (Suc n) c a = [a]"
  by (cases n) auto

lemma nat_digits_not_Nil [simp]: "nat_digits n \<noteq> []"
  by (subst nat_digits.simps) simp

text \<open>Decimal numerals are digits and determine their number.\<close>

lemma nat_digits_digit: "c \<in> set (nat_digits n) \<Longrightarrow> is_digit c"
proof (induction n rule: nat_digits.induct)
  case (1 n)
  have "n mod 10 < 10" by simp
  then have d: "is_digit (digit m)" for m by (simp add: is_digit_def digit_def)
  show ?case
  proof (cases "n < 10")
    case True
    then have "nat_digits n = [digit n]" by (subst nat_digits.simps) simp
    with 1(2) d show ?thesis by simp
  next
    case False
    then have "nat_digits n = nat_digits (n div 10) @ [digit n]" by (subst nat_digits.simps) simp
    with 1 False d show ?thesis by auto
  qed
qed

lemma is_digit_minus [simp]: "\<not> is_digit CHR ''-''"
  by (simp add: is_digit_def)

lemma nat_digits_inj: "nat_digits m = nat_digits n \<Longrightarrow> m = n"
proof (induction m arbitrary: n rule: nat_digits.induct)
  case (1 m)
  have split: "nat_digits k = (if k < 10 then [] else nat_digits (k div 10)) @ [digit k]" for k
    by (subst nat_digits.simps) simp
  have e: "(if m < 10 then [] else nat_digits (m div 10)) = (if n < 10 then [] else nat_digits (n div 10))" "digit m = digit n"
    using 1(2) unfolding split [of m] split [of n] by simp_all
  have "m mod 10 < 10" "n mod 10 < 10" by simp_all
  then have "(48 + m mod 10) mod 256 = 48 + m mod 10" "(48 + n mod 10) mod 256 = 48 + n mod 10" by simp_all
  then have r: "m mod 10 = n mod 10" using arg_cong [OF e(2), of "of_char :: char \<Rightarrow> nat"] by (simp add: digit_def)
  show ?case
  proof (cases "m < 10")
    case True
    then have "n < 10" using e(1) nat_digits_not_Nil [symmetric] by (auto split: if_splits)
    with True r show ?thesis by simp
  next
    case False
    then have "\<not> n < 10" using e(1) by (auto split: if_splits)
    then have "m div 10 = n div 10" using e(1) False 1(1) by simp
    with r show ?thesis by (metis div_mult_mod_eq)
  qed
qed

lemma itoa_inj: "itoa i = itoa j \<Longrightarrow> i = j"
proof -
  have no: "CHR ''-'' # s \<noteq> nat_digits n" for s n
    using nat_digits_digit [of "CHR ''-''" n] by (metis list.set_intros(1) is_digit_minus)
  assume "itoa i = itoa j"
  then show "i = j" using no no [symmetric] by (auto simp: itoa_def split: if_splits dest!: nat_digits_inj)
qed

text \<open>The only element with a property is the one \<open>find\<close> gives.\<close>

lemma find_unique:
  assumes "P r" "r \<in> set rs" "\<And>q. q \<in> set rs \<Longrightarrow> P q \<Longrightarrow> q = r"
  shows "find P rs = Some r"
proof (cases "find P rs")
  case None
  with assms(1,2) show ?thesis by (simp add: find_None_iff)
next
  case (Some q)
  then have "P q" "q \<in> set rs" by (auto simp: find_Some_iff)
  with assms(3) Some show ?thesis by simp
qed

end
