(* ===== verification/Sql.thy ===== *)
theory Sql
  imports Prelude
begin

text \<open>
  The part of SQLite the services rely on: one pooled connection (storage.Open sets
  \<open>MaxOpenConns\<close> to 1) whose statements may fail, tables with \<open>AUTOINCREMENT\<close> keys
  and the row counts of \<open>UPDATE\<close> and \<open>DELETE\<close>.

  Every statement may fail (locked database, cancelled context, a constraint on a table
  the component does not own). \<open>faults\<close> lists what happens to the statements to come:
  \<open>Some e\<close> lets the next one fail with \<open>e\<close>, \<open>None\<close> lets it succeed, and an empty list
  means no further failures. \<open>last_rowid\<close> is the connection's \<open>last_insert_rowid()\<close>.
  Each component's database is a record that extends \<open>conn\<close> with its tables.
\<close>

record conn =
  faults :: "string option list"
  last_rowid :: int

definition stmt :: "'a conn_scheme \<Rightarrow> string option \<times> 'a conn_scheme" where
  "stmt c = (case faults c of [] \<Rightarrow> (None, c) | f # fs \<Rightarrow> (f, c\<lparr>faults := fs\<rparr>))"

record 'r sql_table =
  rows :: "'r list"
  rowseq :: int

definition empty_table :: "'r sql_table" where
  "empty_table = \<lparr>rows = [], rowseq = 0\<rparr>"

definition next_rowid :: "'r sql_table \<Rightarrow> int" where
  "next_rowid t = rowseq t + 1"

definition insert_row :: "(int \<Rightarrow> 'r) \<Rightarrow> 'r sql_table \<Rightarrow> 'r sql_table" where
  "insert_row f t = t\<lparr>rows := rows t @ [f (next_rowid t)], rowseq := next_rowid t\<rparr>"

definition update_rows :: "('r \<Rightarrow> bool) \<Rightarrow> ('r \<Rightarrow> 'r) \<Rightarrow> 'r sql_table \<Rightarrow> 'r sql_table" where
  "update_rows P f t = t\<lparr>rows := map (\<lambda>r. if P r then f r else r) (rows t)\<rparr>"

definition delete_rows :: "('r \<Rightarrow> bool) \<Rightarrow> 'r sql_table \<Rightarrow> 'r sql_table" where
  "delete_rows P t = t\<lparr>rows := filter (\<lambda>r. \<not> P r) (rows t)\<rparr>"

definition affected :: "('r \<Rightarrow> bool) \<Rightarrow> 'r sql_table \<Rightarrow> nat" where
  "affected P t = length (filter P (rows t))"

definition query_row :: "('r \<Rightarrow> bool) \<Rightarrow> 'r sql_table \<Rightarrow> 'r option" where
  "query_row P t = find P (rows t)"

text \<open>
  \<open>ORDER BY key ASC\<close> and \<open>DESC\<close>: SQLite leaves the order of equal keys open; the model
  keeps them in scan order.
\<close>

definition order_asc :: "('r \<Rightarrow> 'k::linorder) \<Rightarrow> 'r list \<Rightarrow> 'r list" where
  "order_asc k rs = sort_key k rs"

definition order_desc :: "('r \<Rightarrow> int) \<Rightarrow> 'r list \<Rightarrow> 'r list" where
  "order_desc k rs = sort_key (\<lambda>r. - k r) rs"

text \<open>
  The shape of the services' methods. \<open>exec err c k\<close> issues a statement and returns its
  error or goes on with \<open>k\<close>; \<open>exec_quiet\<close> is \<open>_, _ = db.Exec(...)\<close>, which goes on either
  way and only then applies the statement's effect; \<open>and_then\<close> is a call followed by
  \<open>if err != nil { return err }\<close>.
\<close>

definition exec ::
  "(string \<Rightarrow> 'e) \<Rightarrow> 'a conn_scheme \<Rightarrow> ('a conn_scheme \<Rightarrow> ('e + 'r) \<times> 'a conn_scheme)
    \<Rightarrow> ('e + 'r) \<times> 'a conn_scheme" where
  "exec err c k = (case stmt c of (Some e, c') \<Rightarrow> (Inl (err e), c') | (None, c') \<Rightarrow> k c')"

definition exec_quiet ::
  "'a conn_scheme \<Rightarrow> ('a conn_scheme \<Rightarrow> 'a conn_scheme) \<Rightarrow> 'a conn_scheme" where
  "exec_quiet c f = (case stmt c of (Some e, c') \<Rightarrow> c' | (None, c') \<Rightarrow> f c')"

definition and_then ::
  "('e + 'a) \<times> 's \<Rightarrow> ('a \<Rightarrow> 's \<Rightarrow> ('e + 'b) \<times> 's) \<Rightarrow> ('e + 'b) \<times> 's" where
  "and_then m k = (case m of (Inl e, s) \<Rightarrow> (Inl e, s) | (Inr a, s) \<Rightarrow> k a s)"

text \<open>A postcondition of a call, over its result and the state it leaves.\<close>

definition post :: "('r \<Rightarrow> 's \<Rightarrow> bool) \<Rightarrow> 'r \<times> 's \<Rightarrow> bool" where
  "post Q m = (case m of (r, s) \<Rightarrow> Q r s)"

section \<open>Statements\<close>

lemma stmt_cases:
  obtains (ok) c' where "stmt c = (None, c')" | (fail) e c' where "stmt c = (Some e, c')"
  by (cases "stmt c"; cases "fst (stmt c)") auto

lemma stmt_no_faults [simp]: "faults c = [] \<Longrightarrow> stmt c = (None, c)"
  by (simp add: stmt_def)

lemma stmt_truncate:
  "stmt c = (x, c') \<Longrightarrow>
     \<exists>fs. c' = c\<lparr>faults := fs\<rparr> \<and> (faults c = [] \<longrightarrow> fs = [] \<and> x = None)"
  by (auto simp: stmt_def split: list.splits intro: exI [of _ "faults c"])

lemma stmt_last_rowid [frame_simps]: "stmt c = (x, c') \<Longrightarrow> last_rowid c' = last_rowid c"
  by (auto simp: stmt_def split: list.splits)

lemma stmt_more [frame_simps]: "stmt c = (x, c') \<Longrightarrow> conn.more c' = conn.more c"
  by (auto simp: stmt_def split: list.splits)

lemma exec_no_faults [simp]: "faults c = [] \<Longrightarrow> exec err c k = k c"
  by (simp add: exec_def)

lemma exec_quiet_no_faults [simp]: "faults c = [] \<Longrightarrow> exec_quiet c f = f c"
  by (simp add: exec_quiet_def)

lemma and_then_simps [simp]:
  "and_then (Inl e, s) k = (Inl e, s)" "and_then (Inr a, s) k = k a s"
  by (simp_all add: and_then_def)

lemma post_pair [simp]: "post Q (r, s) = Q r s"
  by (simp add: post_def)

lemma postD: "post Q m \<Longrightarrow> m = (r, s) \<Longrightarrow> Q r s"
  by simp

lemma post_snd: "post (\<lambda>r s. Q s) m \<longleftrightarrow> Q (snd m)"
  by (simp add: post_def split: prod.splits)

lemma post_mono: "post Q m \<Longrightarrow> (\<And>r s. Q r s \<Longrightarrow> R r s) \<Longrightarrow> post R m"
  by (simp add: post_def split: prod.splits)

lemma post_exec:
  assumes "\<And>e fs. faults c \<noteq> [] \<Longrightarrow> Q (Inl (err e)) (c\<lparr>faults := fs\<rparr>)"
    and "\<And>fs. (faults c = [] \<Longrightarrow> fs = []) \<Longrightarrow> post Q (k (c\<lparr>faults := fs\<rparr>))"
  shows "post Q (exec err c k)"
proof (cases "stmt c")
  case (Pair x c')
  then obtain fs where "c' = c\<lparr>faults := fs\<rparr>" "faults c = [] \<longrightarrow> fs = [] \<and> x = None"
    by (auto dest: stmt_truncate)
  with Pair assms show ?thesis by (cases x) (auto simp: exec_def)
qed

lemma post_and_then:
  "post (\<lambda>r s. case r of Inl e \<Rightarrow> Q (Inl e) s | Inr a \<Rightarrow> post Q (k a s)) m \<Longrightarrow>
   post Q (and_then m k)"
  by (cases m; cases "fst m") (auto simp: and_then_def)

lemma exec_quiet_post:
  assumes "\<And>fs. (faults c = [] \<Longrightarrow> fs = []) \<Longrightarrow> Q (c\<lparr>faults := fs\<rparr>)"
    and "\<And>fs. (faults c = [] \<Longrightarrow> fs = []) \<Longrightarrow> Q (f (c\<lparr>faults := fs\<rparr>))"
  shows "Q (exec_quiet c f)"
proof (cases "stmt c")
  case (Pair x c')
  then obtain fs where "c' = c\<lparr>faults := fs\<rparr>" "faults c = [] \<longrightarrow> fs = [] \<and> x = None"
    by (auto dest: stmt_truncate)
  with Pair assms show ?thesis by (cases x) (auto simp: exec_quiet_def)
qed

section \<open>Tables\<close>

text \<open>Keys are positive, increasing in insertion order and never above the sequence counter.\<close>

definition wf_table :: "('r \<Rightarrow> int) \<Rightarrow> 'r sql_table \<Rightarrow> bool" where
  "wf_table key t \<longleftrightarrow>
     0 \<le> rowseq t \<and> sorted_wrt (<) (map key (rows t)) \<and>
     (\<forall>r \<in> set (rows t). 0 < key r \<and> key r \<le> rowseq t)"

lemma wf_empty_table [simp]: "wf_table key empty_table"
  by (simp add: wf_table_def empty_table_def)

lemma rows_insert_row [simp]: "rows (insert_row f t) = rows t @ [f (next_rowid t)]"
  by (simp add: insert_row_def)

lemma rows_update_rows [simp]:
  "rows (update_rows P f t) = map (\<lambda>r. if P r then f r else r) (rows t)"
  by (simp add: update_rows_def)

lemma rows_delete_rows [simp]: "rows (delete_rows P t) = filter (\<lambda>r. \<not> P r) (rows t)"
  by (simp add: delete_rows_def)

lemma update_rows_none:
  assumes "affected P t = 0"
  shows "update_rows P f t = t"
proof -
  from assms have "map (\<lambda>r. if P r then f r else r) (rows t) = rows t"
    by (auto simp: affected_def filter_empty_conv intro: map_idI)
  then show ?thesis by (simp add: update_rows_def)
qed

lemma rowseq_simps [simp]:
  "rowseq (insert_row g t) = next_rowid t"
  "rowseq (update_rows P f t) = rowseq t"
  "rowseq (delete_rows P t) = rowseq t"
  by (simp_all add: insert_row_def update_rows_def delete_rows_def)

lemma wf_insert_row [inv_intros]:
  "wf_table key t \<Longrightarrow> key (f (next_rowid t)) = next_rowid t \<Longrightarrow> wf_table key (insert_row f t)"
  by (fastforce simp: wf_table_def insert_row_def next_rowid_def sorted_wrt_append)

lemma wf_update_rows [inv_intros]:
  assumes "wf_table key t" and k: "\<And>r. P r \<Longrightarrow> key (f r) = key r"
  shows "wf_table key (update_rows P f t)"
proof -
  have keys: "key (if P r then f r else r) = key r" for r
    using k by simp
  have m: "map key (rows (update_rows P f t)) = map key (rows t)"
    by (simp add: update_rows_def o_def keys)
  have "\<forall>r \<in> set (rows (update_rows P f t)). 0 < key r \<and> key r \<le> rowseq t"
  proof
    fix r assume "r \<in> set (rows (update_rows P f t))"
    then obtain s where s: "s \<in> set (rows t)" and r: "r = (if P s then f s else s)"
      by auto
    from s assms(1) show "0 < key r \<and> key r \<le> rowseq t"
      unfolding r keys by (simp add: wf_table_def)
  qed
  with m assms(1) show ?thesis
    by (simp add: wf_table_def del: rows_update_rows map_map)
qed

lemma wf_delete_rows [inv_intros]: "wf_table key t \<Longrightarrow> wf_table key (delete_rows P t)"
  by (auto simp: wf_table_def sorted_wrt_map sorted_wrt_filter)

lemma wf_table_distinct: "wf_table key t \<Longrightarrow> distinct (map key (rows t))"
  by (simp add: wf_table_def strict_sorted_iff)

lemma order_asc_wf: "wf_table key t \<Longrightarrow> order_asc key (filter P (rows t)) = filter P (rows t)"
proof -
  assume "wf_table key t"
  then have "sorted (map key (filter P (rows t)))"
    by (auto simp: wf_table_def strict_sorted_iff sorted_filter)
  then show ?thesis by (simp add: order_asc_def sorted_sort_id sort_key_id_if_sorted)
qed

lemma set_order [simp]: "set (order_asc k xs) = set xs" "set (order_desc d xs) = set xs"
  by (simp_all add: order_asc_def order_desc_def)

lemma query_row_SomeD: "query_row P t = Some r \<Longrightarrow> r \<in> set (rows t) \<and> P r"
  by (auto simp: query_row_def find_Some_iff)

lemma query_row_None: "query_row P t = None \<longleftrightarrow> (\<forall>r \<in> set (rows t). \<not> P r)"
  by (auto simp: query_row_def find_None_iff)

lemma affected_0_iff: "affected P t = 0 \<longleftrightarrow> (\<forall>r \<in> set (rows t). \<not> P r)"
  by (auto simp: affected_def filter_empty_conv)

lemma affected_pos: "r \<in> set (rows t) \<Longrightarrow> P r \<Longrightarrow> affected P t \<noteq> 0"
  by (auto simp: affected_0_iff)

lemma wf_table_unique:
  "wf_table key t \<Longrightarrow> r \<in> set (rows t) \<Longrightarrow> s \<in> set (rows t) \<Longrightarrow> key r = key s \<Longrightarrow> r = s"
  by (frule wf_table_distinct) (auto simp: distinct_map inj_on_def)

text \<open>A row found by its key is the row with that key.\<close>

lemma query_row_key:
  assumes "wf_table key t" and "r \<in> set (rows t)" and "P r" and "\<And>s. P s \<Longrightarrow> key s = key r"
  shows "query_row P t = Some r"
proof (cases "query_row P t")
  case None
  with assms(2,3) show ?thesis by (auto simp: query_row_None)
next
  case (Some s)
  then have s: "s \<in> set (rows t)" "P s"
    by (auto dest: query_row_SomeD)
  from assms(1) s(1) assms(2) assms(4) [OF s(2)] have "s = r"
    by (rule wf_table_unique)
  with Some show ?thesis by simp
qed

lemma wf_table_filter_key:
  "wf_table key t \<Longrightarrow> r \<in> set (rows t) \<Longrightarrow> filter (\<lambda>s. key s = key r) (rows t) = [r]"
proof -
  have "distinct (map key xs) \<Longrightarrow> r \<in> set xs \<Longrightarrow> filter (\<lambda>s. key s = key r) xs = [r]" for xs
    by (induction xs) (auto simp: filter_empty_conv rev_image_eqI)
  then show "wf_table key t \<Longrightarrow> r \<in> set (rows t) \<Longrightarrow> filter (\<lambda>s. key s = key r) (rows t) = [r]"
    by (simp add: wf_table_distinct)
qed

lemma fresh_rowid: "wf_table key t \<Longrightarrow> r \<in> set (rows t) \<Longrightarrow> key r \<noteq> next_rowid t"
  by (fastforce simp: wf_table_def next_rowid_def)

lemma next_rowid_pos: "wf_table key t \<Longrightarrow> 0 < next_rowid t"
  by (simp add: wf_table_def next_rowid_def)

lemma query_inserted:
  assumes "wf_table key t" and "key (f (next_rowid t)) = next_rowid t" and "P (f (next_rowid t))"
    and "\<And>s. P s \<Longrightarrow> key s = next_rowid t"
  shows "query_row P (insert_row f t) = Some (f (next_rowid t))"
  using assms by (intro query_row_key [where key = key] wf_insert_row) auto

text \<open>A table read as a map from a unique key.\<close>

definition lookup :: "('r \<Rightarrow> 'k) \<Rightarrow> 'k \<Rightarrow> 'r sql_table \<Rightarrow> 'r option" where
  "lookup key k t = query_row (\<lambda>r. key r = k) t"

lemma lookup_empty [simp]: "lookup key k empty_table = None"
  by (simp add: lookup_def query_row_def empty_table_def)

lemma lookup_SomeD: "lookup key k t = Some r \<Longrightarrow> r \<in> set (rows t) \<and> key r = k"
  by (auto simp: lookup_def dest: query_row_SomeD)

lemma lookup_None: "lookup key k t = None \<longleftrightarrow> k \<notin> key ` set (rows t)"
  by (auto simp: lookup_def query_row_None)

lemma lookup_insert:
  "lookup key k (insert_row f t) =
     (case lookup key k t of Some r \<Rightarrow> Some r
      | None \<Rightarrow> if key (f (next_rowid t)) = k then Some (f (next_rowid t)) else None)"
proof -
  have "find P (xs @ [x]) = (case find P xs of Some r \<Rightarrow> Some r | None \<Rightarrow> if P x then Some x else None)"
    for P :: "'a \<Rightarrow> bool" and xs x
    by (induction xs) auto
  then show ?thesis by (simp add: lookup_def query_row_def)
qed

lemma lookup_update:
  assumes "\<And>r. P r \<Longrightarrow> key (f r) = key r"
  shows "lookup key k (update_rows P f t) = map_option (\<lambda>r. if P r then f r else r) (lookup key k t)"
proof -
  have "find (\<lambda>r. key r = k) (map (\<lambda>r. if P r then f r else r) xs) =
      map_option (\<lambda>r. if P r then f r else r) (find (\<lambda>r. key r = k) xs)" for xs
    using assms by (induction xs) auto
  then show ?thesis by (simp add: lookup_def query_row_def)
qed

lemma lookup_delete:
  assumes "distinct (map key (rows t))"
  shows "lookup key k (delete_rows D t) =
    (case lookup key k t of Some r \<Rightarrow> if D r then None else Some r | None \<Rightarrow> None)"
proof -
  have "distinct (map key xs) \<Longrightarrow> find (\<lambda>r. key r = k) (filter (\<lambda>r. \<not> D r) xs) =
      (case find (\<lambda>r. key r = k) xs of Some r \<Rightarrow> if D r then None else Some r | None \<Rightarrow> None)" for xs
  proof (induction xs)
    case (Cons a xs)
    show ?case
    proof (cases "key a = k")
      case True
      with Cons.prems have "\<forall>x \<in> set xs. key x \<noteq> k" by (auto simp: image_iff)
      then have "find (\<lambda>r. key r = k) (filter (\<lambda>r. \<not> D r) xs) = None"
        by (auto simp: find_None_iff)
      with True show ?thesis by simp
    next
      case False
      with Cons show ?thesis by simp
    qed
  qed simp
  with assms show ?thesis by (simp add: lookup_def query_row_def)
qed

lemma distinct_insert:
  "distinct (map key (rows t)) \<Longrightarrow> lookup key (key (f (next_rowid t))) t = None \<Longrightarrow>
   distinct (map key (rows (insert_row f t)))"
  by (auto simp: lookup_None)

lemma distinct_update:
  assumes "\<And>r. P r \<Longrightarrow> key (f r) = key r" and "distinct (map key (rows t))"
  shows "distinct (map key (rows (update_rows P f t)))"
proof -
  have "map key (rows (update_rows P f t)) = map key (rows t)" using assms(1) by simp
  with assms(2) show ?thesis by (simp only:)
qed

lemma distinct_delete: "distinct (map key (rows t)) \<Longrightarrow> distinct (map key (rows (delete_rows D t)))"
  by (simp add: distinct_map_filter)

text \<open>Every row of a table lives on in a later version of it, related by \<open>R\<close>.\<close>

definition rows_follow :: "('r \<Rightarrow> 'r \<Rightarrow> bool) \<Rightarrow> 'r sql_table \<Rightarrow> 'r sql_table \<Rightarrow> bool" where
  "rows_follow R t t' \<longleftrightarrow> (\<forall>r \<in> set (rows t). \<exists>r' \<in> set (rows t'). R r r')"

lemma rows_followE:
  assumes "rows_follow R t t'" and "r \<in> set (rows t)"
  obtains r' where "r' \<in> set (rows t')" "R r r'"
  using assms unfolding rows_follow_def by blast

lemma rows_follow_refl: "(\<And>r. R r r) \<Longrightarrow> rows_follow R t t"
  by (auto simp: rows_follow_def)

lemma rows_follow_trans:
  assumes "rows_follow R a b" and "rows_follow R b c" and "\<And>x y z. R x y \<Longrightarrow> R y z \<Longrightarrow> R x z"
  shows "rows_follow R a c"
  unfolding rows_follow_def
proof
  fix r assume "r \<in> set (rows a)"
  with assms(1) obtain s where s: "s \<in> set (rows b)" "R r s" by (rule rows_followE)
  from assms(2) s(1) obtain u where u: "u \<in> set (rows c)" "R s u" by (rule rows_followE)
  from s(2) u assms(3) show "\<exists>u \<in> set (rows c). R r u" by blast
qed

lemma rows_follow_insert: "(\<And>r. R r r) \<Longrightarrow> rows_follow R t (insert_row f t)"
  by (auto simp: rows_follow_def)

lemma rows_follow_update:
  assumes "\<And>r. R r r" and "\<And>r. P r \<Longrightarrow> R r (f r)"
  shows "rows_follow R t (update_rows P f t)"
  unfolding rows_follow_def
proof
  fix r assume "r \<in> set (rows t)"
  then have "(if P r then f r else r) \<in> set (rows (update_rows P f t))" by auto
  moreover have "R r (if P r then f r else r)" using assms by simp
  ultimately show "\<exists>r' \<in> set (rows (update_rows P f t)). R r r'" by blast
qed

section \<open>Multi-tenancy\<close>

text \<open>
  What the services promise to tenants: the rows a tenant sees are changed by its own
  operations only. \<open>tstep t c\<close> runs command \<open>c\<close> on behalf of tenant \<open>t\<close>; \<open>view u\<close> is what
  tenant \<open>u\<close> sees. The contract is stated for one command, its consequence for any
  interleaving of commands.
\<close>

locale tenant_isolation =
  fixes tstep :: "int \<Rightarrow> 'c \<Rightarrow> 'db \<Rightarrow> 'db"
    and view :: "int \<Rightarrow> 'db \<Rightarrow> 'v"
    and invar :: "'db \<Rightarrow> bool"
  assumes invar_step: "invar db \<Longrightarrow> invar (tstep t c db)"
    and view_step: "invar db \<Longrightarrow> t \<noteq> u \<Longrightarrow> view u (tstep t c db) = view u db"
begin

fun trun :: "(int \<times> 'c) list \<Rightarrow> 'db \<Rightarrow> 'db" where
  "trun [] db = db"
| "trun ((t, c) # cs) db = trun cs (tstep t c db)"

lemma invar_run: "invar db \<Longrightarrow> invar (trun cs db)"
  by (induction cs db rule: trun.induct) (auto intro: invar_step)

lemma view_run:
  "invar db \<Longrightarrow> \<forall>(t, c) \<in> set cs. t \<noteq> u \<Longrightarrow> view u (trun cs db) = view u db"
  by (induction cs db rule: trun.induct) (auto simp: invar_step view_step)

lemma trun_append: "trun (cs @ ds) db = trun ds (trun cs db)"
  by (induction cs db rule: trun.induct) auto

end

text \<open>The rows of one tenant, and how the table operations act on them.\<close>

definition tenant_rows :: "('r \<Rightarrow> int) \<Rightarrow> int \<Rightarrow> 'r sql_table \<Rightarrow> 'r list" where
  "tenant_rows ten u t = filter (\<lambda>r. ten r = u) (rows t)"

lemma tenant_rows_insert [simp]:
  "tenant_rows ten u (insert_row f t) =
     tenant_rows ten u t @ (if ten (f (next_rowid t)) = u then [f (next_rowid t)] else [])"
  by (simp add: tenant_rows_def)

lemma tenant_rows_update_other:
  assumes "\<And>r. P r \<Longrightarrow> ten r \<noteq> u \<and> ten (f r) \<noteq> u"
  shows "tenant_rows ten u (update_rows P f t) = tenant_rows ten u t"
proof -
  have "filter (\<lambda>r. ten r = u) (map (\<lambda>r. if P r then f r else r) rs) =
      filter (\<lambda>r. ten r = u) rs" for rs
    using assms by (induction rs) auto
  then show ?thesis by (simp add: tenant_rows_def)
qed

lemma tenant_rows_delete_other:
  assumes "\<And>r. P r \<Longrightarrow> ten r \<noteq> u"
  shows "tenant_rows ten u (delete_rows P t) = tenant_rows ten u t"
proof -
  have "filter (\<lambda>r. ten r = u) (filter (\<lambda>r. \<not> P r) rs) = filter (\<lambda>r. ten r = u) rs" for rs
    using assms by (induction rs) auto
  then show ?thesis by (simp add: tenant_rows_def)
qed

end
