(* ===== verification/ChangeReq.thy ===== *)
theory ChangeReq
  imports Sql
begin

text \<open>
  The approval workflow of \<open>internal/changereq/changereq.go\<close>: change requests, their
  state machine, the event log, and the service's operations over the two tables
  \<open>change_requests\<close> and \<open>change_request_events\<close>.

  Every operation takes the instants its \<open>time.Now()\<close> calls return and the database, and
  returns an error or a value together with the database it leaves. The JSON text of the
  \<open>variables\<close> column stands for the map it encodes. \<open>transitionFrom\<close> takes the request the
  caller read earlier, so a stale snapshot is an ordinary argument: what is proved about it
  holds for every interleaving of concurrent callers.
\<close>

section \<open>Data\<close>

type_synonym Kind = string
type_synonym Status = string

definition KindPush :: Kind where "KindPush = ''push''"
definition KindRollback :: Kind where "KindRollback = ''rollback''"

definition StatusDraft :: Status where "StatusDraft = ''draft''"
definition StatusSubmitted :: Status where "StatusSubmitted = ''submitted''"
definition StatusApproved :: Status where "StatusApproved = ''approved''"
definition StatusRejected :: Status where "StatusRejected = ''rejected''"
definition StatusApplied :: Status where "StatusApplied = ''applied''"
definition StatusFailed :: Status where "StatusFailed = ''failed''"
definition StatusCancelled :: Status where "StatusCancelled = ''cancelled''"

lemmas status_defs = StatusDraft_def StatusSubmitted_def StatusApproved_def StatusRejected_def
  StatusApplied_def StatusFailed_def StatusCancelled_def
lemmas kind_defs = KindPush_def KindRollback_def

record ChangeRequest =
  cr_ID :: int
  cr_TenantID :: int
  cr_Kind :: Kind
  cr_Title :: string
  cr_Description :: string
  cr_RequesterID :: int
  cr_ReviewerID :: "int option"
  cr_Status :: Status
  cr_DecisionReason :: string
  cr_PushJobID :: "int option"
  cr_Variables :: "(string \<times> string) list"
  cr_DeviceID :: "int option"
  cr_Artifact :: string
  cr_TargetSHA :: string
  cr_Payload :: string
  cr_Result :: string
  cr_CreatedAt :: time
  cr_UpdatedAt :: time
  cr_SubmittedAt :: "time option"
  cr_DecidedAt :: "time option"
  cr_AppliedAt :: "time option"

record Event =
  e_ID :: int
  e_ChangeRequestID :: int
  e_ActorUserID :: "int option"
  e_FromStatus :: string
  e_ToStatus :: string
  e_Note :: string
  e_CreatedAt :: time

datatype cr_error =
    ErrNotFound
  | ErrInvalidInput string
  | ErrInvalidTransition
  | ErrSelfApproval
  | ErrTerminal
  | ErrDB string

text \<open>The rows of the two tables; an \<open>option\<close> is a column that may be \<open>NULL\<close>.\<close>

record request_row =
  rq_id :: int
  rq_tenant :: int
  rq_kind :: string
  rq_title :: string
  rq_description :: "string option"
  rq_requester :: int
  rq_reviewer :: "int option"
  rq_status :: string
  rq_decision_reason :: "string option"
  rq_push_job :: "int option"
  rq_variables :: "(string \<times> string) list option"
  rq_device :: "int option"
  rq_artifact :: "string option"
  rq_target_sha :: "string option"
  rq_payload :: "string option"
  rq_result :: "string option"
  rq_created_at :: stamp
  rq_updated_at :: stamp
  rq_submitted_at :: "stamp option"
  rq_decided_at :: "stamp option"
  rq_applied_at :: "stamp option"

record event_row =
  ev_id :: int
  ev_request :: int
  ev_actor :: "int option"
  ev_from :: "string option"
  ev_to :: string
  ev_note :: "string option"
  ev_created_at :: stamp

record change_db = conn +
  change_requests :: "request_row sql_table"
  change_events :: "event_row sql_table"

section \<open>The state machine\<close>

definition allowedTransitions :: "Status \<Rightarrow> (Status \<Rightarrow> bool) option" where
  "allowedTransitions s =
     (if s = StatusDraft then Some (\<lambda>t. t = StatusSubmitted \<or> t = StatusCancelled)
      else if s = StatusSubmitted then
        Some (\<lambda>t. t = StatusApproved \<or> t = StatusRejected \<or> t = StatusCancelled)
      else if s = StatusApproved then
        Some (\<lambda>t. t = StatusApplied \<or> t = StatusFailed \<or> t = StatusCancelled)
      else None)"

definition IsTerminal :: "Status \<Rightarrow> bool" where
  "IsTerminal s \<longleftrightarrow>
     s = StatusApplied \<or> s = StatusRejected \<or> s = StatusFailed \<or> s = StatusCancelled"

definition canTransition :: "Status \<Rightarrow> Status \<Rightarrow> bool" where
  "canTransition from to =
     (if to = '''' then False
      else (case allowedTransitions from of None \<Rightarrow> False | Some allowed \<Rightarrow> allowed to))"

definition CanApply :: "ChangeRequest \<Rightarrow> bool" where
  "CanApply cr \<longleftrightarrow> cr_Status cr = StatusApproved"

section \<open>Rows and values\<close>

definition nullableStr :: "string \<Rightarrow> string option" where
  "nullableStr s = (if s = '''' then None else Some s)"

definition nullableInt :: "int option \<Rightarrow> int option" where
  "nullableInt p = (case p of None \<Rightarrow> None | Some i \<Rightarrow> Some i)"

definition nullableJSON :: "(string \<times> string) list \<Rightarrow> (string \<times> string) list option" where
  "nullableJSON m = (if length m = 0 then None else Some m)"

text \<open>\<open>COALESCE(column, '')\<close>.\<close>

definition coalesce :: "string option \<Rightarrow> string" where
  "coalesce c = (case c of None \<Rightarrow> '''' | Some s \<Rightarrow> s)"

definition scanRequest :: "request_row \<Rightarrow> ChangeRequest" where
  "scanRequest r = \<lparr>
     cr_ID = rq_id r, cr_TenantID = rq_tenant r, cr_Kind = rq_kind r, cr_Title = rq_title r,
     cr_Description = coalesce (rq_description r), cr_RequesterID = rq_requester r,
     cr_ReviewerID = rq_reviewer r, cr_Status = rq_status r,
     cr_DecisionReason = coalesce (rq_decision_reason r), cr_PushJobID = rq_push_job r,
     cr_Variables = (case rq_variables r of None \<Rightarrow> [] | Some m \<Rightarrow> m),
     cr_DeviceID = rq_device r, cr_Artifact = coalesce (rq_artifact r),
     cr_TargetSHA = coalesce (rq_target_sha r), cr_Payload = coalesce (rq_payload r),
     cr_Result = coalesce (rq_result r),
     cr_CreatedAt = of_stamp (rq_created_at r), cr_UpdatedAt = of_stamp (rq_updated_at r),
     cr_SubmittedAt = map_option of_stamp (rq_submitted_at r),
     cr_DecidedAt = map_option of_stamp (rq_decided_at r),
     cr_AppliedAt = map_option of_stamp (rq_applied_at r)\<rparr>"

definition scanEvent :: "event_row \<Rightarrow> Event" where
  "scanEvent r = \<lparr>e_ID = ev_id r, e_ChangeRequestID = ev_request r, e_ActorUserID = ev_actor r,
     e_FromStatus = coalesce (ev_from r), e_ToStatus = ev_to r, e_Note = coalesce (ev_note r),
     e_CreatedAt = of_stamp (ev_created_at r)\<rparr>"

section \<open>Operations\<close>

definition recordEvent ::
  "int \<Rightarrow> int \<Rightarrow> string \<Rightarrow> string \<Rightarrow> string \<Rightarrow> time \<Rightarrow> change_db \<Rightarrow> (cr_error + unit) \<times> change_db"
  where
  "recordEvent crID actorID from to note now db =
     (let actor = (if 0 < actorID then Some actorID else None);
          fromV = (if from \<noteq> '''' then Some from else None);
          noteV = (if note \<noteq> '''' then Some note else None)
      in exec ErrDB db (\<lambda>db.
           (Inr (),
            db\<lparr>change_events := insert_row (\<lambda>i. \<lparr>ev_id = i, ev_request = crID, ev_actor = actor,
                  ev_from = fromV, ev_to = to, ev_note = noteV, ev_created_at = rfc3339 now\<rparr>)
                  (change_events db),
               last_rowid := next_rowid (change_events db)\<rparr>)))"

text \<open>The checks of \<open>Create\<close>, on the request with its title already trimmed. The quotes of \<open>%q\<close> are
  written out for a kind without characters to escape.\<close>

definition create_checks :: "ChangeRequest \<Rightarrow> cr_error option" where
  "create_checks cr =
     (if cr_TenantID cr \<le> 0 then Some (ErrInvalidInput ''tenant_id required'')
      else if cr_Title cr = '''' then Some (ErrInvalidInput ''title required'')
      else if cr_RequesterID cr \<le> 0 then Some (ErrInvalidInput ''requester required'')
      else if cr_Kind cr = KindPush then
        (case cr_PushJobID cr of
           None \<Rightarrow> Some (ErrInvalidInput ''push_job_id required for kind=push'')
         | Some p \<Rightarrow> if p \<le> 0 then Some (ErrInvalidInput ''push_job_id required for kind=push'')
                    else None)
      else if cr_Kind cr = KindRollback then
        (if (case cr_DeviceID cr of None \<Rightarrow> True | Some d \<Rightarrow> d \<le> 0) \<or>
            trim_space (cr_Artifact cr) = '''' \<or> trim_space (cr_TargetSHA cr) = '''' \<or>
            trim_space (cr_Payload cr) = ''''
         then Some (ErrInvalidInput
           ''device_id, artifact, target_sha and payload required for kind=rollback'')
         else None)
      else Some (ErrInvalidInput (''unknown kind '' @ [CHR 0x22] @ cr_Kind cr @ [CHR 0x22])))"

definition Create_cr ::
  "ChangeRequest \<Rightarrow> time \<Rightarrow> time \<Rightarrow> change_db \<Rightarrow> (cr_error + ChangeRequest) \<times> change_db" where
  "Create_cr cr0 now now2 db =
     (let cr1 = cr0\<lparr>cr_Title := trim_space (cr_Title cr0)\<rparr>
      in case create_checks cr1 of
           Some e \<Rightarrow> (Inl e, db)
         | None \<Rightarrow>
             (let cr = cr1\<lparr>cr_Status := StatusDraft, cr_CreatedAt := now, cr_UpdatedAt := now\<rparr>
              in exec ErrDB db (\<lambda>db.
                   let i = next_rowid (change_requests db);
                       db = db\<lparr>change_requests := insert_row (\<lambda>i.
                              \<lparr>rq_id = i, rq_tenant = cr_TenantID cr, rq_kind = cr_Kind cr,
                               rq_title = cr_Title cr,
                               rq_description = nullableStr (cr_Description cr),
                               rq_requester = cr_RequesterID cr, rq_reviewer = None,
                               rq_status = cr_Status cr, rq_decision_reason = None,
                               rq_push_job = nullableInt (cr_PushJobID cr),
                               rq_variables = nullableJSON (cr_Variables cr),
                               rq_device = nullableInt (cr_DeviceID cr),
                               rq_artifact = nullableStr (cr_Artifact cr),
                               rq_target_sha = nullableStr (cr_TargetSHA cr),
                               rq_payload = nullableStr (cr_Payload cr), rq_result = None,
                               rq_created_at = rfc3339 now, rq_updated_at = rfc3339 now,
                               rq_submitted_at = None, rq_decided_at = None,
                               rq_applied_at = None\<rparr>) (change_requests db),
                             last_rowid := i\<rparr>
                   in and_then
                        (recordEvent i (cr_RequesterID cr) '''' StatusDraft ''created'' now2 db)
                        (\<lambda>_ db. (Inr (cr\<lparr>cr_ID := i\<rparr>), db)))))"

definition Get_cr :: "int \<Rightarrow> int \<Rightarrow> change_db \<Rightarrow> (cr_error + ChangeRequest) \<times> change_db" where
  "Get_cr tenantID i db = exec ErrDB db (\<lambda>db.
     case query_row (\<lambda>r. rq_tenant r = tenantID \<and> rq_id r = i) (change_requests db) of
       None \<Rightarrow> (Inl ErrNotFound, db)
     | Some r \<Rightarrow> (Inr (scanRequest r), db))"

definition List_cr ::
  "int \<Rightarrow> Status \<Rightarrow> int \<Rightarrow> change_db \<Rightarrow> (cr_error + ChangeRequest list) \<times> change_db" where
  "List_cr tenantID status limit db =
     (let limit = (if limit \<le> 0 \<or> 500 < limit then 100 else limit);
          P = (\<lambda>r. rq_tenant r = tenantID \<and> (status = '''' \<or> rq_status r = status))
      in exec ErrDB db (\<lambda>db.
           (Inr (map scanRequest
              (take (nat limit) (order_desc rq_id (filter P (rows (change_requests db)))))), db)))"

definition Events :: "int \<Rightarrow> change_db \<Rightarrow> (cr_error + Event list) \<times> change_db" where
  "Events crID db = exec ErrDB db (\<lambda>db.
     (Inr (map scanEvent
        (order_asc ev_id (filter (\<lambda>e. ev_request e = crID) (rows (change_events db))))), db))"

text \<open>The assignments of the \<open>UPDATE\<close> statement \<open>transitionFrom\<close> assembles.\<close>

definition transition_set ::
  "Status \<Rightarrow> stamp \<Rightarrow> string \<Rightarrow> int option \<Rightarrow> request_row \<Rightarrow> request_row" where
  "transition_set to now note reviewerID r0 =
     (let r = r0\<lparr>rq_status := to, rq_updated_at := now\<rparr>
      in if to = StatusSubmitted then r\<lparr>rq_submitted_at := Some now\<rparr>
         else if to = StatusApproved \<or> to = StatusRejected then
           (let r = r\<lparr>rq_decided_at := Some now\<rparr>;
                r = (if note \<noteq> '''' then r\<lparr>rq_decision_reason := Some note\<rparr> else r)
            in case reviewerID of None \<Rightarrow> r | Some v \<Rightarrow> r\<lparr>rq_reviewer := Some v\<rparr>)
         else if to = StatusApplied \<or> to = StatusFailed then r\<lparr>rq_applied_at := Some now\<rparr>
         else r)"

text \<open>Its \<open>WHERE\<close> clause: the row of the snapshot, still in the status that was read.\<close>

definition snap_row :: "ChangeRequest \<Rightarrow> request_row \<Rightarrow> bool" where
  "snap_row cr r \<longleftrightarrow>
     rq_tenant r = cr_TenantID cr \<and> rq_id r = cr_ID cr \<and> rq_status r = cr_Status cr"

definition transitionFrom ::
  "ChangeRequest \<Rightarrow> int \<Rightarrow> Status \<Rightarrow> string \<Rightarrow> int option \<Rightarrow> time \<Rightarrow> time \<Rightarrow> change_db
    \<Rightarrow> (cr_error + ChangeRequest) \<times> change_db" where
  "transitionFrom cr actorID to note reviewerID now now2 db =
     (if IsTerminal (cr_Status cr) then (Inl ErrTerminal, db)
      else if \<not> canTransition (cr_Status cr) to then (Inl ErrInvalidTransition, db)
      else exec ErrDB db (\<lambda>db.
        let n = affected (snap_row cr) (change_requests db);
            db = db\<lparr>change_requests := update_rows (snap_row cr)
              (transition_set to (rfc3339 now) note reviewerID) (change_requests db)\<rparr>
        in if n = 0 then (Inl ErrInvalidTransition, db)
           else and_then (recordEvent (cr_ID cr) actorID (cr_Status cr) to note now2 db)
                  (\<lambda>_ db. Get_cr (cr_TenantID cr) (cr_ID cr) db)))"

definition transition ::
  "int \<Rightarrow> int \<Rightarrow> int \<Rightarrow> Status \<Rightarrow> string \<Rightarrow> time \<Rightarrow> time \<Rightarrow> change_db
    \<Rightarrow> (cr_error + ChangeRequest) \<times> change_db" where
  "transition tenantID i actorID to note now now2 db =
     and_then (Get_cr tenantID i db) (\<lambda>cr db. transitionFrom cr actorID to note None now now2 db)"

definition Submit where
  "Submit tenantID i actorID now now2 db =
     transition tenantID i actorID StatusSubmitted '''' now now2 db"

definition Approve ::
  "int \<Rightarrow> int \<Rightarrow> int \<Rightarrow> string \<Rightarrow> bool \<Rightarrow> time \<Rightarrow> time \<Rightarrow> change_db
    \<Rightarrow> (cr_error + ChangeRequest) \<times> change_db" where
  "Approve tenantID i reviewerID reason allowSelf now now2 db =
     and_then (Get_cr tenantID i db) (\<lambda>cr db.
       if \<not> allowSelf \<and> cr_RequesterID cr = reviewerID then (Inl ErrSelfApproval, db)
       else transitionFrom cr reviewerID StatusApproved reason (Some reviewerID) now now2 db)"

definition Reject ::
  "int \<Rightarrow> int \<Rightarrow> int \<Rightarrow> string \<Rightarrow> time \<Rightarrow> time \<Rightarrow> change_db
    \<Rightarrow> (cr_error + ChangeRequest) \<times> change_db" where
  "Reject tenantID i reviewerID reason now now2 db =
     and_then (Get_cr tenantID i db) (\<lambda>cr db.
       transitionFrom cr reviewerID StatusRejected reason (Some reviewerID) now now2 db)"

definition Cancel where
  "Cancel tenantID i actorID reason now now2 db =
     transition tenantID i actorID StatusCancelled reason now now2 db"

definition set_result :: "int \<Rightarrow> int \<Rightarrow> string \<Rightarrow> change_db \<Rightarrow> change_db" where
  "set_result tenantID i result db = db\<lparr>change_requests :=
     update_rows (\<lambda>r. rq_tenant r = tenantID \<and> rq_id r = i) (\<lambda>r. r\<lparr>rq_result := Some result\<rparr>)
       (change_requests db)\<rparr>"

definition MarkApplied ::
  "int \<Rightarrow> int \<Rightarrow> string \<Rightarrow> time \<Rightarrow> time \<Rightarrow> change_db \<Rightarrow> (cr_error + ChangeRequest) \<times> change_db" where
  "MarkApplied tenantID i result now now2 db =
     and_then (transition tenantID i 0 StatusApplied ''apply succeeded'' now now2 db) (\<lambda>cr db.
       if result \<noteq> '''' then
         (Inr (cr\<lparr>cr_Result := result\<rparr>), exec_quiet db (set_result tenantID i result))
       else (Inr cr, db))"

definition MarkFailed ::
  "int \<Rightarrow> int \<Rightarrow> string \<Rightarrow> time \<Rightarrow> time \<Rightarrow> change_db \<Rightarrow> (cr_error + ChangeRequest) \<times> change_db" where
  "MarkFailed tenantID i reason now now2 db =
     and_then (transition tenantID i 0 StatusFailed ''apply failed'' now now2 db) (\<lambda>cr db.
       if reason \<noteq> '''' then
         (Inr (cr\<lparr>cr_Result := reason\<rparr>), exec_quiet db (set_result tenantID i reason))
       else (Inr cr, db))"

section \<open>Rows\<close>

lemma transition_set_simps [simp]:
  "rq_id (transition_set to now note rv r) = rq_id r"
  "rq_tenant (transition_set to now note rv r) = rq_tenant r"
  "rq_requester (transition_set to now note rv r) = rq_requester r"
  "rq_kind (transition_set to now note rv r) = rq_kind r"
  "rq_payload (transition_set to now note rv r) = rq_payload r"
  "rq_title (transition_set to now note rv r) = rq_title r"
  "rq_push_job (transition_set to now note rv r) = rq_push_job r"
  "rq_device (transition_set to now note rv r) = rq_device r"
  "rq_artifact (transition_set to now note rv r) = rq_artifact r"
  "rq_target_sha (transition_set to now note rv r) = rq_target_sha r"
  "rq_status (transition_set to now note rv r) = to"
  by (simp_all add: transition_set_def Let_def split: option.splits)

lemma transition_set_stamps:
  "rq_submitted_at (transition_set to now note rv r) =
     (if to = StatusSubmitted then Some now else rq_submitted_at r)"
  "rq_decided_at (transition_set to now note rv r) =
     (if to = StatusApproved \<or> to = StatusRejected then Some now else rq_decided_at r)"
  "rq_reviewer (transition_set to now note rv r) =
     (if (to = StatusApproved \<or> to = StatusRejected) \<and> rv \<noteq> None then rv else rq_reviewer r)"
  "rq_applied_at (transition_set to now note rv r) =
     (if to = StatusApplied \<or> to = StatusFailed then Some now else rq_applied_at r)"
  by (auto simp: transition_set_def Let_def status_defs split: option.splits)

lemma scanRequest_simps [simp]:
  "cr_ID (scanRequest r) = rq_id r"
  "cr_TenantID (scanRequest r) = rq_tenant r"
  "cr_RequesterID (scanRequest r) = rq_requester r"
  "cr_Status (scanRequest r) = rq_status r"
  "cr_Kind (scanRequest r) = rq_kind r"
  by (simp_all add: scanRequest_def)

lemma status_distinct [simp]:
  "StatusDraft \<noteq> StatusSubmitted" "StatusDraft \<noteq> StatusApproved" "StatusDraft \<noteq> StatusRejected"
  "StatusDraft \<noteq> StatusApplied" "StatusDraft \<noteq> StatusFailed" "StatusDraft \<noteq> StatusCancelled"
  "StatusSubmitted \<noteq> StatusApproved" "StatusSubmitted \<noteq> StatusRejected"
  "StatusSubmitted \<noteq> StatusApplied" "StatusSubmitted \<noteq> StatusFailed"
  "StatusSubmitted \<noteq> StatusCancelled" "StatusApproved \<noteq> StatusRejected"
  "StatusApproved \<noteq> StatusApplied" "StatusApproved \<noteq> StatusFailed"
  "StatusApproved \<noteq> StatusCancelled" "StatusRejected \<noteq> StatusApplied"
  "StatusRejected \<noteq> StatusFailed" "StatusRejected \<noteq> StatusCancelled"
  "StatusApplied \<noteq> StatusFailed" "StatusApplied \<noteq> StatusCancelled"
  "StatusFailed \<noteq> StatusCancelled"
  by (simp_all add: status_defs)

lemmas status_distinct_sym [simp] = status_distinct [symmetric]

lemma status_nonempty [simp]:
  "StatusDraft \<noteq> []" "StatusSubmitted \<noteq> []" "StatusApproved \<noteq> []" "StatusRejected \<noteq> []"
  "StatusApplied \<noteq> []" "StatusFailed \<noteq> []" "StatusCancelled \<noteq> []"
  by (simp_all add: status_defs)

lemma canTransition_iff:
  "canTransition a b \<longleftrightarrow>
     a = StatusDraft \<and> (b = StatusSubmitted \<or> b = StatusCancelled) \<or>
     a = StatusSubmitted \<and> (b = StatusApproved \<or> b = StatusRejected \<or> b = StatusCancelled) \<or>
     a = StatusApproved \<and> (b = StatusApplied \<or> b = StatusFailed \<or> b = StatusCancelled)"
  by (auto simp: canTransition_def allowedTransitions_def status_nonempty [symmetric])

lemma canTransition_Nil [simp]: "\<not> canTransition [] b"
  by (simp add: canTransition_iff status_nonempty [symmetric])

lemma terminal_stuck: "IsTerminal a \<Longrightarrow> \<not> canTransition a b"
  by (auto simp: canTransition_iff IsTerminal_def)

lemma terminal_iff_stuck:
  "s \<in> {StatusDraft, StatusSubmitted, StatusApproved, StatusRejected, StatusApplied,
        StatusFailed, StatusCancelled} \<Longrightarrow>
   IsTerminal s \<longleftrightarrow> (\<forall>t. \<not> canTransition s t)"
  by (auto simp: canTransition_iff IsTerminal_def)

text \<open>
  What a row promises. \<open>selfok\<close> says whether a requester's own approval is allowed
  (\<open>allowSelf\<close>, the administrator's privilege).
\<close>

definition request_ok :: "bool \<Rightarrow> request_row \<Rightarrow> bool" where
  "request_ok selfok r \<longleftrightarrow>
     rq_status r \<in> {StatusDraft, StatusSubmitted, StatusApproved, StatusRejected, StatusApplied,
        StatusFailed, StatusCancelled} \<and>
     0 < rq_tenant r \<and> rq_title r \<noteq> '''' \<and>
     (rq_kind r = KindPush \<and> (\<exists>p. rq_push_job r = Some p \<and> 0 < p) \<or>
      rq_kind r = KindRollback \<and> (\<exists>d. rq_device r = Some d \<and> 0 < d) \<and>
        rq_artifact r \<noteq> None \<and> rq_target_sha r \<noteq> None \<and> rq_payload r \<noteq> None) \<and>
     (rq_status r \<notin> {StatusDraft, StatusCancelled} \<longrightarrow> rq_submitted_at r \<noteq> None) \<and>
     (rq_status r \<in> {StatusApproved, StatusRejected, StatusApplied, StatusFailed} \<longrightarrow>
        rq_decided_at r \<noteq> None \<and> rq_reviewer r \<noteq> None) \<and>
     (rq_status r \<in> {StatusApproved, StatusApplied, StatusFailed} \<longrightarrow>
        selfok \<or> rq_reviewer r \<noteq> Some (rq_requester r)) \<and>
     (rq_applied_at r \<noteq> None \<longleftrightarrow> rq_status r \<in> {StatusApplied, StatusFailed})"

lemma request_ok_reviewed:
  assumes "request_ok a r" and "rq_status r = StatusApproved \<or> rq_status r = StatusApplied \<or>
    rq_status r = StatusFailed"
  shows "\<exists>v. rq_reviewer r = Some v \<and> rq_decided_at r \<noteq> None \<and> rq_submitted_at r \<noteq> None \<and>
    (a \<or> v \<noteq> rq_requester r)"
proof -
  have "rq_decided_at r \<noteq> None \<and> rq_reviewer r \<noteq> None \<and> rq_submitted_at r \<noteq> None \<and>
      (a \<or> rq_reviewer r \<noteq> Some (rq_requester r))"
    using assms by (elim disjE) (simp_all add: request_ok_def)
  then show ?thesis by auto
qed

lemma request_ok_transition [inv_intros]:
  assumes "request_ok a r" and "canTransition (rq_status r) to"
    and "to \<in> {StatusApproved, StatusRejected} \<Longrightarrow> rv \<noteq> None"
    and "to = StatusApproved \<Longrightarrow> a \<or> rv \<noteq> Some (rq_requester r)"
  shows "request_ok a (transition_set to now note rv r)"
  using assms unfolding canTransition_iff
  by (elim disjE conjE) (simp_all add: request_ok_def transition_set_stamps)

lemma trim_space_Nil [simp]: "trim_space [] = []"
  by (simp add: trim_space_def)

lemma create_checks_None:
  "create_checks cr = None \<Longrightarrow>
     0 < cr_TenantID cr \<and> cr_Title cr \<noteq> '''' \<and> 0 < cr_RequesterID cr \<and>
     (cr_Kind cr = KindPush \<and> (\<exists>p. cr_PushJobID cr = Some p \<and> 0 < p) \<or>
      cr_Kind cr = KindRollback \<and> (\<exists>d. cr_DeviceID cr = Some d \<and> 0 < d) \<and>
        trim_space (cr_Artifact cr) \<noteq> '''' \<and> trim_space (cr_TargetSHA cr) \<noteq> '''' \<and>
        trim_space (cr_Payload cr) \<noteq> '''')"
  by (auto simp: create_checks_def kind_defs split: if_splits option.splits)

section \<open>Invariant of the two tables\<close>

definition event_ok :: "event_row \<Rightarrow> bool" where
  "event_ok e \<longleftrightarrow> (case ev_from e of
     None \<Rightarrow> ev_to e = StatusDraft
   | Some f \<Rightarrow> canTransition f (ev_to e))"

definition cr_inv :: "bool \<Rightarrow> change_db \<Rightarrow> bool" where
  "cr_inv a db \<longleftrightarrow>
     wf_table rq_id (change_requests db) \<and> wf_table ev_id (change_events db) \<and>
     (\<forall>r \<in> set (rows (change_requests db)). request_ok a r) \<and>
     (\<forall>e \<in> set (rows (change_events db)). event_ok e \<and>
        (\<exists>r \<in> set (rows (change_requests db)). rq_id r = ev_request e))"

text \<open>A request the service has read: its identity and requester never change afterwards.\<close>

definition snapshot_of :: "ChangeRequest \<Rightarrow> change_db \<Rightarrow> bool" where
  "snapshot_of cr db \<longleftrightarrow> (\<exists>r \<in> set (rows (change_requests db)).
     rq_id r = cr_ID cr \<and> rq_tenant r = cr_TenantID cr \<and> rq_requester r = cr_RequesterID cr)"

text \<open>An event for request \<open>i\<close> appended to the log.\<close>

definition logs :: "int \<Rightarrow> string option \<Rightarrow> string \<Rightarrow> event_row sql_table \<Rightarrow> event_row sql_table \<Rightarrow> bool"
  where
  "logs i f to t t' \<longleftrightarrow> (\<exists>e. t' = insert_row e t \<and>
     (\<forall>k. ev_id (e k) = k \<and> ev_request (e k) = i \<and> ev_from (e k) = f \<and> ev_to (e k) = to))"

lemma recordEvent_post:
  "post (\<lambda>x s. change_requests s = change_requests db \<and> (faults db = [] \<longrightarrow> faults s = []) \<and>
      (change_events s = change_events db \<and> faults db \<noteq> [] \<or>
       logs i (nullableStr from) to (change_events db) (change_events s)))
    (recordEvent i actor from to note now db)"
  unfolding recordEvent_def Let_def
  by (rule post_exec) (auto simp: logs_def nullableStr_def intro!: exI)

lemma Get_cr_post:
  "post (\<lambda>x s. (\<exists>fs. s = db\<lparr>faults := fs\<rparr> \<and> (faults db = [] \<longrightarrow> fs = [])) \<and>
      (\<forall>cr. x = Inr cr \<longrightarrow> (\<exists>r \<in> set (rows (change_requests db)). cr = scanRequest r \<and>
         rq_tenant r = t \<and> rq_id r = i)))
    (Get_cr t i db)"
  unfolding Get_cr_def
  by (rule post_exec) (auto split: option.splits dest: query_row_SomeD)

text \<open>
  What \<open>transitionFrom\<close> does to the tables: nothing, or the move of one row, with or
  without its event (the event's insertion is a statement of its own and may fail).
\<close>

lemma transitionFrom_post:
  assumes kept: "\<And>e fs. (faults db = [] \<Longrightarrow> fs = []) \<Longrightarrow> Q (Inl e) (db\<lparr>faults := fs\<rparr>)"
    and moved: "\<And>x s r. r \<in> set (rows (change_requests db)) \<Longrightarrow> snap_row cr r \<Longrightarrow>
      canTransition (cr_Status cr) to \<Longrightarrow>
      change_requests s = update_rows (snap_row cr) (transition_set to (rfc3339 now) note rv)
        (change_requests db) \<Longrightarrow>
      change_events s = change_events db \<and> faults db \<noteq> [] \<or>
        logs (cr_ID cr) (Some (cr_Status cr)) to (change_events db) (change_events s) \<Longrightarrow>
      (faults db = [] \<Longrightarrow> faults s = []) \<Longrightarrow> Q x s"
  shows "post Q (transitionFrom cr actor to note rv now now2 db)"
proof (cases "IsTerminal (cr_Status cr) \<or> \<not> canTransition (cr_Status cr) to")
  case True
  then show ?thesis
    using kept [where fs = "faults db"] by (auto simp: transitionFrom_def)
next
  case False
  let ?n = "affected (snap_row cr) (change_requests db)"
  let ?db = "\<lambda>fs. db\<lparr>faults := fs, change_requests := update_rows (snap_row cr)
    (transition_set to (rfc3339 now) note rv) (change_requests db)\<rparr>"
  have ne: "nullableStr (cr_Status cr) = Some (cr_Status cr)"
    using False by (auto simp: canTransition_iff nullableStr_def)
  have "post Q (if ?n = 0 then (Inl ErrInvalidTransition, ?db fs)
      else and_then (recordEvent (cr_ID cr) actor (cr_Status cr) to note now2 (?db fs))
        (\<lambda>_ db. Get_cr (cr_TenantID cr) (cr_ID cr) db))" if fs: "faults db = [] \<Longrightarrow> fs = []" for fs
  proof (cases "?n = 0")
    case True
    then show ?thesis using kept fs by (simp add: update_rows_none)
  next
    case n: False
    then obtain r where r: "r \<in> set (rows (change_requests db))" "snap_row cr r"
      by (auto simp: affected_0_iff)
    have move: "Q x s" if "change_requests s = change_requests (?db fs)"
      "change_events s = change_events db \<and> faults db \<noteq> [] \<or>
       logs (cr_ID cr) (Some (cr_Status cr)) to (change_events db) (change_events s)"
      "faults db = [] \<Longrightarrow> faults s = []" for x s
      using moved [OF r] False that by simp
    have "post Q (and_then (recordEvent (cr_ID cr) actor (cr_Status cr) to note now2 (?db fs))
        (\<lambda>_ db. Get_cr (cr_TenantID cr) (cr_ID cr) db))"
      by (rule post_and_then, rule post_mono [OF recordEvent_post])
        (use fs in \<open>auto simp: ne intro!: move post_mono [OF Get_cr_post] split: sum.splits\<close>)
    with n show ?thesis by simp
  qed
  then show ?thesis
    using False kept by (auto simp: transitionFrom_def Let_def intro!: post_exec)
qed

section \<open>Concurrent callers\<close>

text \<open>
  The system: the database and the requests callers have read so far. A caller's \<open>Get\<close> and
  its \<open>transitionFrom\<close> are separate steps, other callers' steps may come in between, and a
  snapshot may be used any number of times later. \<open>selfok\<close> is the \<open>allowSelf\<close> the
  approvals of the run pass.
\<close>

type_synonym cr_sys = "change_db \<times> ChangeRequest list"

inductive cr_step :: "bool \<Rightarrow> cr_sys \<Rightarrow> cr_sys \<Rightarrow> bool" for selfok where
  st_create: "cr_step selfok (db, S) (snd (Create_cr cr now now2 db), S)"
| st_read: "Get_cr t i db = (Inr cr, db') \<Longrightarrow> cr_step selfok (db, S) (db', cr # S)"
| st_read_fails: "Get_cr t i db = (Inl e, db') \<Longrightarrow> cr_step selfok (db, S) (db', S)"
| st_approve: "cr \<in> set S \<Longrightarrow> \<not> (\<not> selfok \<and> cr_RequesterID cr = v) \<Longrightarrow>
    cr_step selfok (db, S)
      (snd (transitionFrom cr v StatusApproved reason (Some v) now now2 db), S)"
| st_reject: "cr \<in> set S \<Longrightarrow>
    cr_step selfok (db, S)
      (snd (transitionFrom cr v StatusRejected reason (Some v) now now2 db), S)"
| st_move: "cr \<in> set S \<Longrightarrow>
    to \<in> {StatusSubmitted, StatusCancelled, StatusApplied, StatusFailed} \<Longrightarrow>
    cr_step selfok (db, S) (snd (transitionFrom cr actor to note None now now2 db), S)"
| st_result: "cr_step selfok (db, S) (exec_quiet db (set_result t i result), S)"

definition sys_inv :: "bool \<Rightarrow> cr_sys \<Rightarrow> bool" where
  "sys_inv a c \<longleftrightarrow> cr_inv a (fst c) \<and> (\<forall>cr \<in> set (snd c). snapshot_of cr (fst c))"

lemma cr_inv_faults [simp]: "cr_inv a (db\<lparr>faults := fs\<rparr>) = cr_inv a db"
  by (simp add: cr_inv_def)

lemma snapshot_of_faults [simp]: "snapshot_of cr (db\<lparr>faults := fs\<rparr>) = snapshot_of cr db"
  by (simp add: snapshot_of_def)

lemma snap_row_unique:
  assumes "cr_inv a db" and "r \<in> set (rows (change_requests db))" and "snap_row cr r"
    and "s \<in> set (rows (change_requests db))" and "rq_id s = cr_ID cr"
  shows "s = r"
  using assms by (auto simp: cr_inv_def snap_row_def intro: wf_table_unique)

lemma logs_wf:
  "logs i f to t t' \<Longrightarrow> wf_table ev_id t \<Longrightarrow> wf_table ev_id t'"
  by (auto simp: logs_def intro!: wf_insert_row)

lemma logs_in:
  "logs i f to t t' \<Longrightarrow> e \<in> set (rows t') \<Longrightarrow>
     e \<in> set (rows t) \<or> ev_request e = i \<and> ev_from e = f \<and> ev_to e = to"
  by (auto simp: logs_def)

text \<open>The rows keep their identity in every operation, and their status only moves forward.\<close>

definition status_rank :: "Status \<Rightarrow> nat" where
  "status_rank s =
     (if s = StatusDraft then 0 else if s = StatusSubmitted then 1
      else if s = StatusApproved then 2 else 3)"

lemma canTransition_rank: "canTransition a b \<Longrightarrow> status_rank a < status_rank b"
  by (auto simp: canTransition_iff status_rank_def)

lemma terminal_rank: "IsTerminal a \<Longrightarrow> \<not> status_rank a < status_rank b"
  by (auto simp: IsTerminal_def status_rank_def)

definition same_requests :: "change_db \<Rightarrow> change_db \<Rightarrow> bool" where
  "same_requests db s \<longleftrightarrow>
     (\<forall>r \<in> set (rows (change_requests db)). \<exists>r' \<in> set (rows (change_requests s)).
        rq_id r' = rq_id r \<and> rq_tenant r' = rq_tenant r \<and> rq_requester r' = rq_requester r \<and>
        (rq_status r' = rq_status r \<or> status_rank (rq_status r) < status_rank (rq_status r')))"

lemma same_requests_refl [simp]: "same_requests db (db\<lparr>faults := fs\<rparr>)"
  by (auto simp: same_requests_def)

lemma same_requestsD:
  assumes "same_requests db s" and "r \<in> set (rows (change_requests db))"
  obtains r' where "r' \<in> set (rows (change_requests s))" "rq_id r' = rq_id r"
    "rq_status r' = rq_status r \<or> status_rank (rq_status r) < status_rank (rq_status r')"
  using assms unfolding same_requests_def by blast

lemma same_requests_snapshot:
  "same_requests db s \<Longrightarrow> snapshot_of cr db \<Longrightarrow> snapshot_of cr s"
  unfolding same_requests_def snapshot_of_def by metis

lemma same_requests_trans:
  "same_requests a b \<Longrightarrow> same_requests b c \<Longrightarrow> same_requests a c"
  unfolding same_requests_def
proof
  fix r
  assume ab: "\<forall>r \<in> set (rows (change_requests a)). \<exists>r' \<in> set (rows (change_requests b)).
      rq_id r' = rq_id r \<and> rq_tenant r' = rq_tenant r \<and> rq_requester r' = rq_requester r \<and>
      (rq_status r' = rq_status r \<or> status_rank (rq_status r) < status_rank (rq_status r'))"
    and bc: "\<forall>r \<in> set (rows (change_requests b)). \<exists>r' \<in> set (rows (change_requests c)).
      rq_id r' = rq_id r \<and> rq_tenant r' = rq_tenant r \<and> rq_requester r' = rq_requester r \<and>
      (rq_status r' = rq_status r \<or> status_rank (rq_status r) < status_rank (rq_status r'))"
    and r: "r \<in> set (rows (change_requests a))"
  from ab r obtain s where s: "s \<in> set (rows (change_requests b))" "rq_id s = rq_id r"
    "rq_tenant s = rq_tenant r" "rq_requester s = rq_requester r"
    "rq_status s = rq_status r \<or> status_rank (rq_status r) < status_rank (rq_status s)"
    by blast
  from bc s(1) obtain u where u: "u \<in> set (rows (change_requests c))" "rq_id u = rq_id s"
    "rq_tenant u = rq_tenant s" "rq_requester u = rq_requester s"
    "rq_status u = rq_status s \<or> status_rank (rq_status s) < status_rank (rq_status u)"
    by blast
  show "\<exists>r' \<in> set (rows (change_requests c)).
      rq_id r' = rq_id r \<and> rq_tenant r' = rq_tenant r \<and> rq_requester r' = rq_requester r \<and>
      (rq_status r' = rq_status r \<or> status_rank (rq_status r) < status_rank (rq_status r'))"
    using s u by (intro bexI [OF _ u(1)]) auto
qed

lemma same_requests_update:
  assumes "change_requests s = update_rows P f (change_requests db)"
    and "\<And>r. r \<in> set (rows (change_requests db)) \<Longrightarrow> P r \<Longrightarrow> rq_id (f r) = rq_id r \<and>
      rq_tenant (f r) = rq_tenant r \<and> rq_requester (f r) = rq_requester r \<and>
      (rq_status (f r) = rq_status r \<or> status_rank (rq_status r) < status_rank (rq_status (f r)))"
  shows "same_requests db s"
  unfolding same_requests_def assms(1)
proof
  fix r assume r: "r \<in> set (rows (change_requests db))"
  show "\<exists>r' \<in> set (rows (update_rows P f (change_requests db))).
      rq_id r' = rq_id r \<and> rq_tenant r' = rq_tenant r \<and> rq_requester r' = rq_requester r \<and>
      (rq_status r' = rq_status r \<or> status_rank (rq_status r) < status_rank (rq_status r'))"
    using r assms(2) [OF r] by (intro bexI [of _ "if P r then f r else r"]) auto
qed

lemma transitionFrom_same:
  "post (\<lambda>x s. same_requests db s) (transitionFrom cr actor to note rv now now2 db)"
  by (rule transitionFrom_post)
    (auto intro!: same_requests_update simp: snap_row_def dest: canTransition_rank)

lemma transitionFrom_inv:
  assumes inv: "cr_inv a db" and snap: "snapshot_of cr db"
    and rv: "to \<in> {StatusApproved, StatusRejected} \<Longrightarrow> rv \<noteq> None"
    and self: "to = StatusApproved \<Longrightarrow> a \<or> rv \<noteq> Some (cr_RequesterID cr)"
  shows "post (\<lambda>x s. cr_inv a s) (transitionFrom cr actor to note rv now now2 db)"
proof (rule transitionFrom_post)
  fix x and s :: change_db and r
  assume r: "r \<in> set (rows (change_requests db))" "snap_row cr r"
    and can: "canTransition (cr_Status cr) to"
    and req: "change_requests s = update_rows (snap_row cr)
      (transition_set to (rfc3339 now) note rv) (change_requests db)"
    and ev: "change_events s = change_events db \<and> faults db \<noteq> [] \<or>
      logs (cr_ID cr) (Some (cr_Status cr)) to (change_events db) (change_events s)"
  have reqr: "rq_requester r = cr_RequesterID cr"
    using snap r snap_row_unique [OF inv r] by (auto simp: snapshot_of_def)
  have ok: "request_ok a q" if "q \<in> set (rows (change_requests s))" for q
  proof -
    from that obtain p where p: "p \<in> set (rows (change_requests db))"
      "q = (if snap_row cr p then transition_set to (rfc3339 now) note rv p else p)"
      by (auto simp: req)
    moreover have "p = r" if "snap_row cr p"
      using snap_row_unique [OF inv r p(1)] that by (simp add: snap_row_def)
    ultimately show ?thesis
      using inv can rv self reqr r(2)
      by (auto simp: cr_inv_def snap_row_def intro!: request_ok_transition)
  qed
  have same: "\<exists>q \<in> set (rows (change_requests s)). rq_id q = i"
    if "p \<in> set (rows (change_requests db))" "rq_id p = i" for p i
    using that unfolding req
    by (intro bexI [of _ "if snap_row cr p then transition_set to (rfc3339 now) note rv p else p"])
      auto
  have evs: "event_ok e \<and> (\<exists>q \<in> set (rows (change_requests s)). rq_id q = ev_request e)"
    if "e \<in> set (rows (change_events s))" for e
  proof (cases "e \<in> set (rows (change_events db))")
    case True
    then show ?thesis using inv same by (auto simp: cr_inv_def)
  next
    case False
    then have "ev_request e = cr_ID cr \<and> ev_from e = Some (cr_Status cr) \<and> ev_to e = to"
      using that ev logs_in by metis
    then show ?thesis using can r same by (auto simp: event_ok_def snap_row_def)
  qed
  show "cr_inv a s"
    unfolding cr_inv_def
  proof (intro conjI)
    show "wf_table rq_id (change_requests s)"
      using inv by (auto simp: req cr_inv_def intro!: wf_update_rows)
    show "wf_table ev_id (change_events s)"
      using inv ev by (auto simp: cr_inv_def intro: logs_wf)
  qed (use ok evs in auto)
qed (simp add: inv)

lemma nullableStr_Nil [simp]: "nullableStr [] = None"
  by (simp add: nullableStr_def)

lemma Create_cr_post:
  assumes kept: "\<And>e fs. (faults db = [] \<Longrightarrow> fs = []) \<Longrightarrow> Q (Inl e) (db\<lparr>faults := fs\<rparr>)"
    and created: "\<And>x s f. create_checks (cr\<lparr>cr_Title := trim_space (cr_Title cr)\<rparr>) = None \<Longrightarrow>
      (\<forall>k a. rq_id (f k) = k \<and> rq_tenant (f k) = cr_TenantID cr \<and> rq_status (f k) = StatusDraft \<and>
         request_ok a (f k)) \<Longrightarrow>
      change_requests s = insert_row f (change_requests db) \<Longrightarrow>
      change_events s = change_events db \<and> faults db \<noteq> [] \<or>
        logs (next_rowid (change_requests db)) None StatusDraft (change_events db)
          (change_events s) \<Longrightarrow>
      (faults db = [] \<Longrightarrow> faults s = []) \<Longrightarrow> Q x s"
  shows "post Q (Create_cr cr now now2 db)"
proof (cases "create_checks (cr\<lparr>cr_Title := trim_space (cr_Title cr)\<rparr>)")
  case (Some e)
  then show ?thesis
    using kept [where fs = "faults db"] by (simp add: Create_cr_def Let_def)
next
  case None
  note checks = create_checks_None [OF None]
  have ok: "request_ok a \<lparr>rq_id = k, rq_tenant = cr_TenantID cr, rq_kind = cr_Kind cr,
      rq_title = trim_space (cr_Title cr), rq_description = d, rq_requester = cr_RequesterID cr,
      rq_reviewer = None, rq_status = StatusDraft, rq_decision_reason = None,
      rq_push_job = nullableInt (cr_PushJobID cr), rq_variables = v,
      rq_device = nullableInt (cr_DeviceID cr), rq_artifact = nullableStr (cr_Artifact cr),
      rq_target_sha = nullableStr (cr_TargetSHA cr), rq_payload = nullableStr (cr_Payload cr),
      rq_result = None, rq_created_at = t, rq_updated_at = t, rq_submitted_at = None,
      rq_decided_at = None, rq_applied_at = None\<rparr>" for a k d v t
    using checks by (auto simp: request_ok_def nullableInt_def nullableStr_def)
  show ?thesis
    unfolding Create_cr_def Let_def None option.case
    by (intro post_exec post_and_then post_mono [OF recordEvent_post])
      (auto split: sum.splits intro!: kept created [OF None] simp: ok)
qed

lemma Create_cr_same: "post (\<lambda>x s. same_requests db s) (Create_cr cr now now2 db)"
  by (rule Create_cr_post) (auto simp: same_requests_def)

lemma Create_cr_inv:
  assumes inv: "cr_inv a db"
  shows "post (\<lambda>x s. cr_inv a s) (Create_cr cr now now2 db)"
proof (rule Create_cr_post)
  fix x and s :: change_db and f
  assume f: "\<forall>k a. rq_id (f k) = k \<and> rq_tenant (f k) = cr_TenantID cr \<and>
      rq_status (f k) = StatusDraft \<and> request_ok a (f k)"
    and req: "change_requests s = insert_row f (change_requests db)"
    and ev: "change_events s = change_events db \<and> faults db \<noteq> [] \<or>
      logs (next_rowid (change_requests db)) None StatusDraft (change_events db) (change_events s)"
  have evs: "event_ok e \<and> (\<exists>q \<in> set (rows (change_requests s)). rq_id q = ev_request e)"
    if "e \<in> set (rows (change_events s))" for e
  proof (cases "e \<in> set (rows (change_events db))")
    case True
    then show ?thesis using inv by (auto simp: cr_inv_def req)
  next
    case False
    then have "ev_request e = next_rowid (change_requests db) \<and> ev_from e = None \<and>
        ev_to e = StatusDraft"
      using that ev logs_in by metis
    then show ?thesis using f by (auto simp: event_ok_def req)
  qed
  show "cr_inv a s"
    unfolding cr_inv_def
  proof (intro conjI)
    show "wf_table rq_id (change_requests s)"
      using inv f by (auto simp: req cr_inv_def intro!: wf_insert_row)
    show "wf_table ev_id (change_events s)"
      using inv ev by (auto simp: cr_inv_def intro: logs_wf)
    show "\<forall>r \<in> set (rows (change_requests s)). request_ok a r"
      using inv f by (auto simp: req cr_inv_def)
  qed (use evs in auto)
qed (simp add: inv)

lemma set_result_same: "same_requests db (set_result t i x db)"
  by (rule same_requests_update [where P = "\<lambda>r. rq_tenant r = t \<and> rq_id r = i"
        and f = "\<lambda>r. r\<lparr>rq_result := Some x\<rparr>"]) (auto simp: set_result_def)

lemma request_ok_result [simp]: "request_ok a (r\<lparr>rq_result := x\<rparr>) = request_ok a r"
  by (simp add: request_ok_def)

lemma set_result_inv:
  assumes inv: "cr_inv a db"
  shows "cr_inv a (set_result t i x db)"
  unfolding cr_inv_def
proof (intro conjI)
  let ?s = "set_result t i x db"
  show "wf_table rq_id (change_requests ?s)"
    using inv by (auto simp: cr_inv_def set_result_def intro!: wf_update_rows)
  show "wf_table ev_id (change_events ?s)"
    using inv by (simp add: cr_inv_def set_result_def)
  show "\<forall>r \<in> set (rows (change_requests ?s)). request_ok a r"
    using inv by (auto simp: cr_inv_def set_result_def)
  show "\<forall>e \<in> set (rows (change_events ?s)). event_ok e \<and>
      (\<exists>r \<in> set (rows (change_requests ?s)). rq_id r = ev_request e)"
  proof
    fix e assume "e \<in> set (rows (change_events ?s))"
    then have e: "e \<in> set (rows (change_events db))" by (simp add: set_result_def)
    with inv obtain p where "p \<in> set (rows (change_requests db))" "rq_id p = ev_request e"
      by (auto simp: cr_inv_def)
    with set_result_same [of db t i x] obtain q where
      "q \<in> set (rows (change_requests ?s))" "rq_id q = ev_request e"
      unfolding same_requests_def by metis
    with e inv show "event_ok e \<and> (\<exists>r \<in> set (rows (change_requests ?s)). rq_id r = ev_request e)"
      by (auto simp: cr_inv_def)
  qed
qed

lemma set_result_quiet:
  "cr_inv a db \<Longrightarrow> cr_inv a (exec_quiet db (set_result t i x))"
  "same_requests db (exec_quiet db (set_result t i x))"
proof -
  show "cr_inv a db \<Longrightarrow> cr_inv a (exec_quiet db (set_result t i x))"
    by (rule exec_quiet_post [where Q = "cr_inv a"]) (simp_all add: set_result_inv)
  have "same_requests db (set_result t i x (db\<lparr>faults := fs\<rparr>))" for fs
    using same_requests_refl set_result_same by (rule same_requests_trans)
  then show "same_requests db (exec_quiet db (set_result t i x))"
    by (intro exec_quiet_post [where Q = "same_requests db"]) simp_all
qed

lemma Get_cr_step:
  assumes "Get_cr t i db = (x, db')"
  shows "cr_inv a db' = cr_inv a db" and "same_requests db db'"
    and "x = Inr cr \<Longrightarrow> snapshot_of cr db'"
proof -
  from postD [OF Get_cr_post assms] obtain fs where "db' = db\<lparr>faults := fs\<rparr>"
    and "\<forall>cr. x = Inr cr \<longrightarrow> (\<exists>r \<in> set (rows (change_requests db)). cr = scanRequest r \<and>
         rq_tenant r = t \<and> rq_id r = i)"
    by auto
  then show "cr_inv a db' = cr_inv a db" "same_requests db db'"
    "x = Inr cr \<Longrightarrow> snapshot_of cr db'"
    by (auto simp: snapshot_of_def)
qed

lemmas snap_create = same_requests_snapshot [OF Create_cr_same [unfolded post_snd]]
lemmas snap_move = same_requests_snapshot [OF transitionFrom_same [unfolded post_snd]]
lemmas snap_result = same_requests_snapshot [OF set_result_quiet(2)]

lemma cr_step_same:
  assumes "cr_step a c c'"
  shows "same_requests (fst c) (fst c')"
  using assms
  by (cases rule: cr_step.cases)
    (auto simp: set_result_quiet transitionFrom_same [unfolded post_snd]
      Create_cr_same [unfolded post_snd] intro: Get_cr_step(2))

lemma cr_step_inv: "cr_step a c c' \<Longrightarrow> sys_inv a c \<Longrightarrow> sys_inv a c'"
proof (induction rule: cr_step.induct)
  case (st_read t i db cr db' S)
  then show ?case
    using Get_cr_step [OF st_read(1)] same_requests_snapshot by (auto simp: sys_inv_def)
next
  case (st_read_fails t i db e db' S)
  then show ?case
    using Get_cr_step [OF st_read_fails(1)] same_requests_snapshot by (auto simp: sys_inv_def)
qed (auto simp: sys_inv_def intro!: transitionFrom_inv [unfolded post_snd]
      Create_cr_inv [unfolded post_snd] set_result_quiet(1)
      intro: snap_create snap_move snap_result)

lemma cr_steps_same: "(cr_step a)\<^sup>*\<^sup>* c c' \<Longrightarrow> same_requests (fst c) (fst c')"
proof (induction rule: rtranclp_induct)
  case base
  show ?case by (auto simp: same_requests_def)
next
  case (step c' c'')
  from step(3) cr_step_same [OF step(2)] show ?case by (rule same_requests_trans)
qed

lemma cr_steps_inv: "(cr_step a)\<^sup>*\<^sup>* c c' \<Longrightarrow> sys_inv a c \<Longrightarrow> sys_inv a c'"
  by (induction rule: rtranclp_induct) (auto intro: cr_step_inv)

definition empty_change_db :: change_db where
  "empty_change_db = \<lparr>faults = [], last_rowid = 0, change_requests = empty_table,
     change_events = empty_table\<rparr>"

lemma sys_inv_init [simp]: "sys_inv a (db\<lparr>change_requests := empty_table, change_events := empty_table\<rparr>, [])"
  by (simp add: sys_inv_def cr_inv_def empty_table_def wf_table_def)

text \<open>Every operation of the service is a run of the system.\<close>

lemma and_then_Get_run:
  assumes "\<And>cr db S. cr \<in> set S \<Longrightarrow> (cr_step a)\<^sup>*\<^sup>* (db, S) (snd (k cr db), S)"
  shows "\<exists>S'. (cr_step a)\<^sup>*\<^sup>* (db, S) (snd (and_then (Get_cr t i db) k), S')"
proof (cases "Get_cr t i db")
  case (Pair x db')
  show ?thesis
  proof (cases x)
    case (Inl e)
    with Pair have "cr_step a (db, S) (db', S)" by (auto intro: st_read_fails)
    with Pair Inl show ?thesis by auto
  next
    case (Inr cr)
    with Pair have "cr_step a (db, S) (db', cr # S)" by (auto intro: st_read)
    also have "(cr_step a)\<^sup>*\<^sup>* (db', cr # S) (snd (k cr db'), cr # S)"
      by (rule assms) simp
    finally show ?thesis using Pair Inr by auto
  qed
qed

lemma transition_run:
  assumes "to \<in> {StatusSubmitted, StatusCancelled, StatusApplied, StatusFailed}"
  shows "\<exists>S'. (cr_step a)\<^sup>*\<^sup>* (db, S) (snd (transition t i actor to note now now2 db), S')"
  unfolding transition_def
  using assms by (intro and_then_Get_run r_into_rtranclp st_move)

lemma mark_run:
  assumes "to \<in> {StatusApplied, StatusFailed}"
  shows "\<exists>S'. (cr_step a)\<^sup>*\<^sup>* (db, S)
    (snd (and_then (transition t i 0 to note now now2 db) (\<lambda>cr db.
       if res \<noteq> [] then (Inr (cr\<lparr>cr_Result := res\<rparr>), exec_quiet db (set_result t i res))
       else (Inr cr, db))), S')"
proof -
  obtain S' where run: "(cr_step a)\<^sup>*\<^sup>* (db, S) (snd (transition t i 0 to note now now2 db), S')"
    using transition_run [of to] assms by fast
  obtain x db' where x: "transition t i 0 to note now now2 db = (x, db')" by fastforce
  have "(cr_step a) (db', S') (exec_quiet db' (set_result t i res), S')"
    by (rule st_result)
  with run x show ?thesis
    by (cases x) (auto intro: rtranclp.rtrancl_into_rtrancl)
qed

section \<open>The event log\<close>

text \<open>
  The transitions the log records for a request, and what it is for them to be a run of the
  state machine from creation to status \<open>t\<close>.
\<close>

definition history :: "change_db \<Rightarrow> int \<Rightarrow> (string option \<times> string) list" where
  "history db i =
     map (\<lambda>e. (ev_from e, ev_to e)) (filter (\<lambda>e. ev_request e = i) (rows (change_events db)))"

definition step_ok :: "string option \<Rightarrow> string \<Rightarrow> bool" where
  "step_ok s t \<longleftrightarrow> (case s of None \<Rightarrow> t = StatusDraft | Some a \<Rightarrow> canTransition a t)"

fun chain :: "string option \<Rightarrow> (string option \<times> string) list \<Rightarrow> string option \<Rightarrow> bool" where
  "chain s [] t \<longleftrightarrow> s = t"
| "chain s ((f, u) # h) t \<longleftrightarrow> f = s \<and> step_ok s u \<and> chain (Some u) h t"

lemma chain_snoc: "chain s h t \<Longrightarrow> step_ok t u \<Longrightarrow> chain s (h @ [(t, u)]) (Some u)"
  by (induction s h t rule: chain.induct) auto

definition log_inv :: "change_db \<Rightarrow> bool" where
  "log_inv db \<longleftrightarrow> cr_inv True db \<and> faults db = [] \<and>
     (\<forall>r \<in> set (rows (change_requests db)). chain None (history db (rq_id r)) (Some (rq_status r)))"

lemma history_logs:
  assumes "logs i f to (change_events db) (change_events s)"
  shows "history s j = history db j @ (if j = i then [(f, to)] else [])"
  using assms by (auto simp: history_def logs_def)

lemma history_fresh:
  assumes "cr_inv a db"
  shows "history db (next_rowid (change_requests db)) = []"
  using assms fresh_rowid [of rq_id]
  by (fastforce simp: history_def cr_inv_def filter_empty_conv)

lemma transitionFrom_log:
  assumes log: "log_inv db" and snap: "snapshot_of cr db"
    and rv: "to \<in> {StatusApproved, StatusRejected} \<Longrightarrow> rv \<noteq> None"
  shows "post (\<lambda>x s. log_inv s) (transitionFrom cr actor to note rv now now2 db)"
proof -
  have inv: "cr_inv True db" and nf: "faults db = []" using log by (auto simp: log_inv_def)
  have "post (\<lambda>x s. cr_inv True s \<longrightarrow> log_inv s) (transitionFrom cr actor to note rv now now2 db)"
  proof (rule transitionFrom_post)
    fix x and s :: change_db and r
    assume r: "r \<in> set (rows (change_requests db))" "snap_row cr r"
      and can: "canTransition (cr_Status cr) to"
      and req: "change_requests s = update_rows (snap_row cr)
        (transition_set to (rfc3339 now) note rv) (change_requests db)"
      and ev: "change_events s = change_events db \<and> faults db \<noteq> [] \<or>
        logs (cr_ID cr) (Some (cr_Status cr)) to (change_events db) (change_events s)"
      and fs: "faults db = [] \<Longrightarrow> faults s = []"
    have h: "history s j = history db j @ (if j = cr_ID cr then [(Some (cr_Status cr), to)] else [])"
      for j using ev nf by (intro history_logs) simp
    have "chain None (history s (rq_id q)) (Some (rq_status q))"
      if "q \<in> set (rows (change_requests s))" for q
    proof -
      from that obtain p where p: "p \<in> set (rows (change_requests db))"
        "q = (if snap_row cr p then transition_set to (rfc3339 now) note rv p else p)"
        by (auto simp: req)
      then have c: "chain None (history db (rq_id p)) (Some (rq_status p))"
        using log by (auto simp: log_inv_def)
      show ?thesis
      proof (cases "rq_id p = cr_ID cr")
        case True
        then have "snap_row cr p" using snap_row_unique [OF inv r p(1)] r(2) by simp
        then show ?thesis
          using c can p(2) h chain_snoc [OF c, of to] True by (auto simp: snap_row_def step_ok_def)
      next
        case False
        then show ?thesis using c p(2) h by (auto simp: snap_row_def)
      qed
    qed
    then show "cr_inv True s \<longrightarrow> log_inv s" using fs nf by (simp add: log_inv_def)
  qed (use log in \<open>auto simp: log_inv_def history_def\<close>)
  moreover have "post (\<lambda>x s. cr_inv True s) (transitionFrom cr actor to note rv now now2 db)"
    using transitionFrom_inv [OF inv snap rv] by simp
  ultimately show ?thesis by (simp add: post_def split: prod.splits)
qed

lemma Create_cr_log:
  assumes log: "log_inv db"
  shows "post (\<lambda>x s. log_inv s) (Create_cr cr now now2 db)"
proof -
  have inv: "cr_inv True db" and nf: "faults db = []" using log by (auto simp: log_inv_def)
  have "post (\<lambda>x s. cr_inv True s \<longrightarrow> log_inv s) (Create_cr cr now now2 db)"
  proof (rule Create_cr_post)
    fix x and s :: change_db and f
    assume f: "\<forall>k a. rq_id (f k) = k \<and> rq_tenant (f k) = cr_TenantID cr \<and>
        rq_status (f k) = StatusDraft \<and> request_ok a (f k)"
      and req: "change_requests s = insert_row f (change_requests db)"
      and ev: "change_events s = change_events db \<and> faults db \<noteq> [] \<or>
        logs (next_rowid (change_requests db)) None StatusDraft (change_events db) (change_events s)"
      and fs: "faults db = [] \<Longrightarrow> faults s = []"
    have h: "history s j = history db j @
        (if j = next_rowid (change_requests db) then [(None, StatusDraft)] else [])"
      for j using ev nf by (intro history_logs) simp
    have "chain None (history s (rq_id q)) (Some (rq_status q))"
      if "q \<in> set (rows (change_requests s))" for q
      using that log f inv fresh_rowid [of rq_id "change_requests db"]
      by (auto simp: h req log_inv_def cr_inv_def step_ok_def history_fresh [OF inv])
    then show "cr_inv True s \<longrightarrow> log_inv s" using fs nf by (simp add: log_inv_def)
  qed (use log in \<open>auto simp: log_inv_def history_def\<close>)
  moreover have "post (\<lambda>x s. cr_inv True s) (Create_cr cr now now2 db)"
    by (rule Create_cr_inv [OF inv])
  ultimately show ?thesis by (simp add: post_def split: prod.splits)
qed

lemma set_result_log: "log_inv db \<Longrightarrow> log_inv (set_result t i x db)"
  using set_result_inv [of True db t i x]
  by (auto simp: log_inv_def set_result_def history_def)

section \<open>Commands\<close>

text \<open>The service's mutating operations, as the API calls them for a tenant.\<close>

datatype cr_cmd =
    CCreate ChangeRequest
  | CSubmit int int
  | CApprove int int string bool
  | CReject int int string
  | CCancel int int string
  | CMarkApplied int string
  | CMarkFailed int string

fun cr_do :: "int \<Rightarrow> cr_cmd \<times> time \<times> time \<Rightarrow> change_db \<Rightarrow> change_db" where
  "cr_do t (CCreate cr, now, now2) db = snd (Create_cr (cr\<lparr>cr_TenantID := t\<rparr>) now now2 db)"
| "cr_do t (CSubmit i a, now, now2) db = snd (Submit t i a now now2 db)"
| "cr_do t (CApprove i v why selfok, now, now2) db = snd (Approve t i v why selfok now now2 db)"
| "cr_do t (CReject i v why, now, now2) db = snd (Reject t i v why now now2 db)"
| "cr_do t (CCancel i a why, now, now2) db = snd (Cancel t i a why now now2 db)"
| "cr_do t (CMarkApplied i res, now, now2) db = snd (MarkApplied t i res now now2 db)"
| "cr_do t (CMarkFailed i res, now, now2) db = snd (MarkFailed t i res now now2 db)"

definition cr_selfok :: "cr_cmd \<Rightarrow> bool" where
  "cr_selfok c = (case c of CApprove i v why s \<Rightarrow> s | _ \<Rightarrow> False)"

lemma cr_do_run:
  assumes "cr_selfok c \<longrightarrow> a"
  shows "\<exists>S'. (cr_step a)\<^sup>*\<^sup>* (db, S) (cr_do t (c, now, now2) db, S')"
proof (cases c)
  case (CCreate cr)
  then show ?thesis by (auto intro: st_create)
next
  case (CApprove i v why s)
  with assms show ?thesis
    unfolding CApprove cr_do.simps Approve_def
    by (intro and_then_Get_run) (auto simp: cr_selfok_def intro!: r_into_rtranclp st_approve)
next
  case (CReject i v why)
  then show ?thesis
    unfolding CReject cr_do.simps Reject_def
    by (intro and_then_Get_run) (auto intro!: r_into_rtranclp st_reject)
qed (simp_all add: Submit_def Cancel_def MarkApplied_def MarkFailed_def transition_run mark_run)

text \<open>What a tenant sees: its requests and their events.\<close>

definition cr_view :: "int \<Rightarrow> change_db \<Rightarrow> request_row list \<times> event_row list" where
  "cr_view u db =
     (tenant_rows rq_tenant u (change_requests db),
      filter (\<lambda>e. ev_request e \<in> rq_id ` set (tenant_rows rq_tenant u (change_requests db)))
        (rows (change_events db)))"

lemma cr_view_faults [simp]: "cr_view u (db\<lparr>faults := fs\<rparr>) = cr_view u db"
  by (simp add: cr_view_def)

lemma cr_view_logs:
  assumes "tenant_rows rq_tenant u (change_requests s) = tenant_rows rq_tenant u (change_requests db)"
    and "i \<notin> rq_id ` set (tenant_rows rq_tenant u (change_requests db))"
    and "change_events s = change_events db \<or> logs i f to (change_events db) (change_events s)"
  shows "cr_view u s = cr_view u db"
  using assms by (auto simp: cr_view_def logs_def)

lemma transitionFrom_view:
  assumes inv: "cr_inv a db" and t: "cr_TenantID cr \<noteq> u"
  shows "post (\<lambda>x s. cr_view u s = cr_view u db)
    (transitionFrom cr actor to note rv now now2 db)"
proof (rule transitionFrom_post)
  fix x and s :: change_db and r
  assume r: "r \<in> set (rows (change_requests db))" "snap_row cr r"
    and req: "change_requests s = update_rows (snap_row cr)
      (transition_set to (rfc3339 now) note rv) (change_requests db)"
    and ev: "change_events s = change_events db \<and> faults db \<noteq> [] \<or>
      logs (cr_ID cr) (Some (cr_Status cr)) to (change_events db) (change_events s)"
  have "tenant_rows rq_tenant u (change_requests s) = tenant_rows rq_tenant u (change_requests db)"
    unfolding req by (rule tenant_rows_update_other) (use t in \<open>auto simp: snap_row_def\<close>)
  moreover have "cr_ID cr \<notin> rq_id ` set (tenant_rows rq_tenant u (change_requests db))"
    using snap_row_unique [OF inv r] r(2) t by (auto simp: tenant_rows_def snap_row_def)
  ultimately show "cr_view u s = cr_view u db"
    using ev by (intro cr_view_logs [where i = "cr_ID cr"]) auto
qed simp

lemma Create_cr_view:
  assumes inv: "cr_inv a db" and t: "cr_TenantID cr \<noteq> u"
  shows "post (\<lambda>x s. cr_view u s = cr_view u db) (Create_cr cr now now2 db)"
proof (rule Create_cr_post)
  fix x and s :: change_db and f
  assume f: "\<forall>k a. rq_id (f k) = k \<and> rq_tenant (f k) = cr_TenantID cr \<and>
      rq_status (f k) = StatusDraft \<and> request_ok a (f k)"
    and req: "change_requests s = insert_row f (change_requests db)"
    and ev: "change_events s = change_events db \<and> faults db \<noteq> [] \<or>
      logs (next_rowid (change_requests db)) None StatusDraft (change_events db) (change_events s)"
  have "next_rowid (change_requests db) \<notin> rq_id ` set (tenant_rows rq_tenant u (change_requests db))"
    using inv fresh_rowid by (fastforce simp: tenant_rows_def cr_inv_def)
  then show "cr_view u s = cr_view u db"
    using ev f t by (intro cr_view_logs [where i = "next_rowid (change_requests db)"])
      (auto simp: req)
qed simp

lemma set_result_view:
  "t \<noteq> u \<Longrightarrow> cr_view u (exec_quiet db (set_result t i x)) = cr_view u db"
proof (rule exec_quiet_post [where Q = "\<lambda>s. cr_view u s = cr_view u db"])
  fix fs assume t: "t \<noteq> u"
  have "tenant_rows rq_tenant u (change_requests (set_result t i x (db\<lparr>faults := fs\<rparr>))) =
      tenant_rows rq_tenant u (change_requests db)"
    unfolding set_result_def using t by (auto intro!: tenant_rows_update_other)
  then show "cr_view u (set_result t i x (db\<lparr>faults := fs\<rparr>)) = cr_view u db"
    by (simp add: cr_view_def set_result_def)
qed simp

lemma and_then_Get_view:
  assumes inv: "cr_inv a db" and "t \<noteq> u"
    and k: "\<And>cr db. cr_inv a db \<Longrightarrow> cr_TenantID cr \<noteq> u \<Longrightarrow>
      post (\<lambda>x s. cr_view u s = cr_view u db) (k cr db)"
  shows "post (\<lambda>x s. cr_view u s = cr_view u db) (and_then (Get_cr t i db) k)"
  by (rule post_and_then, rule post_mono [OF Get_cr_post])
    (use assms in \<open>auto split: sum.splits intro!: post_mono [OF k]\<close>)

lemma transition_view:
  "cr_inv a db \<Longrightarrow> t \<noteq> u \<Longrightarrow>
   post (\<lambda>x s. cr_view u s = cr_view u db) (transition t i actor to note now now2 db)"
  unfolding transition_def by (intro and_then_Get_view transitionFrom_view)

lemma mark_view:
  assumes "cr_inv a db" and "t \<noteq> u"
  shows "post (\<lambda>x s. cr_view u s = cr_view u db)
    (and_then (transition t i 0 to note now now2 db) (\<lambda>cr db.
       if res \<noteq> [] then (Inr (cr\<lparr>cr_Result := res\<rparr>), exec_quiet db (set_result t i res))
       else (Inr cr, db)))"
  by (rule post_and_then, rule post_mono [OF transition_view [OF assms]])
    (auto split: sum.splits simp: set_result_view assms(2))

lemma cr_do_view:
  assumes "cr_inv True db" and "t \<noteq> u"
  shows "cr_view u (cr_do t c db) = cr_view u db"
proof -
  obtain k now now2 where c: "c = (k, now, now2)" by (cases c)
  show ?thesis
    using assms Create_cr_view [unfolded post_snd] transition_view [unfolded post_snd]
      mark_view [unfolded post_snd]
    by (cases k)
      (auto simp: c Submit_def Cancel_def MarkApplied_def MarkFailed_def Approve_def Reject_def
        intro!: and_then_Get_view [unfolded post_snd] transitionFrom_view [unfolded post_snd]
          transitionFrom_view)
qed

lemma cr_do_inv: "cr_inv True db \<Longrightarrow> cr_inv True (cr_do t c db)"
proof -
  assume inv: "cr_inv True db"
  obtain k now now2 where c: "c = (k, now, now2)" by (cases c)
  obtain S where "(cr_step True)\<^sup>*\<^sup>* (db, []) (cr_do t c db, S)"
    unfolding c using cr_do_run [of k True] by blast
  from cr_steps_inv [OF this] inv show ?thesis by (simp add: sys_inv_def)
qed

interpretation crt: tenant_isolation cr_do cr_view "cr_inv True"
  by unfold_locales (auto intro: cr_do_inv cr_do_view)

section \<open>Runs of commands\<close>

fun cr_run :: "(int \<times> cr_cmd \<times> time \<times> time) list \<Rightarrow> change_db \<Rightarrow> change_db" where
  "cr_run [] db = db"
| "cr_run ((t, c) # cs) db = cr_run cs (cr_do t c db)"

lemma cr_run_trun: "cr_run cs db = crt.trun cs db"
  by (induction cs db rule: cr_run.induct) auto

lemma snapshot_of_scan: "r \<in> set (rows (change_requests db)) \<Longrightarrow> snapshot_of (scanRequest r) db"
  by (auto simp: snapshot_of_def)

lemma log_inv_faults: "log_inv db \<Longrightarrow> log_inv (db\<lparr>faults := []\<rparr>)"
  by (simp add: log_inv_def history_def)

lemma Get_log:
  assumes "log_inv db"
    and "\<And>cr db. log_inv db \<Longrightarrow> snapshot_of cr db \<Longrightarrow> post (\<lambda>x s. log_inv s) (k cr db)"
  shows "post (\<lambda>x s. log_inv s) (and_then (Get_cr t i db) k)"
proof -
  have nf: "faults db = []" using assms(1) by (simp add: log_inv_def)
  show ?thesis
    by (rule post_and_then, rule post_mono [OF Get_cr_post])
      (use nf assms(1) in \<open>auto split: sum.splits simp: log_inv_faults
        intro!: assms(2) intro: snapshot_of_scan\<close>)
qed

lemma transition_log:
  "log_inv db \<Longrightarrow> to \<in> {StatusSubmitted, StatusCancelled, StatusApplied, StatusFailed} \<Longrightarrow>
   post (\<lambda>x s. log_inv s) (transition t i actor to note now now2 db)"
  unfolding transition_def by (intro Get_log transitionFrom_log) auto

lemma mark_log:
  assumes "log_inv db" and "to \<in> {StatusApplied, StatusFailed}"
  shows "post (\<lambda>x s. log_inv s)
    (and_then (transition t i 0 to note now now2 db) (\<lambda>cr db.
       if res \<noteq> [] then (Inr (cr\<lparr>cr_Result := res\<rparr>), exec_quiet db (set_result t i res))
       else (Inr cr, db)))"
proof (rule post_and_then, rule post_mono [OF transition_log [OF assms(1)]])
  show "to \<in> {StatusSubmitted, StatusCancelled, StatusApplied, StatusFailed}"
    using assms(2) by auto
next
  fix r s assume s: "log_inv s"
  then have "log_inv (exec_quiet s (set_result t i res))"
    by (simp add: set_result_log log_inv_def [of s])
  with s show "case r of Inl e \<Rightarrow> log_inv s | Inr a \<Rightarrow> post (\<lambda>x s. log_inv s)
      (if res \<noteq> [] then (Inr (a\<lparr>cr_Result := res\<rparr>), exec_quiet s (set_result t i res))
       else (Inr a, s))"
    by (auto split: sum.splits)
qed

lemma cr_do_log:
  assumes "log_inv db"
  shows "log_inv (cr_do t c db)"
proof -
  obtain k now now2 where c: "c = (k, now, now2)" by (cases c)
  show ?thesis
    unfolding c using assms Create_cr_log [unfolded post_snd] transition_log [unfolded post_snd]
      mark_log [unfolded post_snd]
    by (cases k)
      (auto simp: Submit_def Cancel_def MarkApplied_def MarkFailed_def Approve_def Reject_def
        intro!: Get_log [unfolded post_snd] transitionFrom_log [unfolded post_snd] transitionFrom_log)
qed

lemma cr_run_log: "log_inv db \<Longrightarrow> log_inv (cr_run cs db)"
  by (induction cs db rule: cr_run.induct) (auto intro: cr_do_log)

lemma log_inv_init [simp]: "log_inv empty_change_db"
  by (simp add: log_inv_def cr_inv_def empty_change_db_def empty_table_def wf_table_def)

lemma Events_ok:
  assumes "cr_inv a db" and "faults db = []"
  shows "Events i db = (Inr (map scanEvent
    (filter (\<lambda>e. ev_request e = i) (rows (change_events db)))), db)"
  using assms by (simp add: Events_def order_asc_wf cr_inv_def)

lemma cr_run_steps:
  "\<forall>(t, c, now, now2) \<in> set cs. cr_selfok c \<longrightarrow> a \<Longrightarrow>
     \<exists>S'. (cr_step a)\<^sup>*\<^sup>* (db, S) (cr_run cs db, S')"
proof (induction cs db arbitrary: S rule: cr_run.induct)
  case (1 db)
  then show ?case by auto
next
  case (2 t c cs db)
  obtain k now now2 where c: "c = (k, now, now2)" by (cases c)
  with 2(2) have "cr_selfok k \<longrightarrow> a" by auto
  then obtain S1 where s1: "(cr_step a)\<^sup>*\<^sup>* (db, S) (cr_do t c db, S1)"
    unfolding c using cr_do_run by blast
  from 2(1) [of S1] 2(2) obtain S2 where
    "(cr_step a)\<^sup>*\<^sup>* (cr_do t c db, S1) (cr_run cs (cr_do t c db), S2)"
    by auto
  with s1 have "(cr_step a)\<^sup>*\<^sup>* (db, S) (cr_run cs (cr_do t c db), S2)" by (rule rtranclp_trans)
  then show ?case by auto
qed

text \<open>A push proposed by user 7, approved by user 8 and applied.\<close>

definition demo_request :: ChangeRequest where
  "demo_request = \<lparr>cr_ID = 0, cr_TenantID = 1, cr_Kind = KindPush, cr_Title = ''banner'',
     cr_Description = '''', cr_RequesterID = 7, cr_ReviewerID = None, cr_Status = '''',
     cr_DecisionReason = '''', cr_PushJobID = Some 3, cr_Variables = [], cr_DeviceID = None,
     cr_Artifact = '''', cr_TargetSHA = '''', cr_Payload = '''', cr_Result = '''',
     cr_CreatedAt = 0, cr_UpdatedAt = 0, cr_SubmittedAt = None, cr_DecidedAt = None,
     cr_AppliedAt = None\<rparr>"

definition demo_run :: "(int \<times> cr_cmd \<times> time \<times> time) list" where
  "demo_run = [(1, CCreate demo_request, 0, 0), (1, CSubmit 1 7, second, second),
     (1, CApprove 1 8 ''ok'' False, 2 * second, 2 * second), (1, CMarkApplied 1 ''done'', 3 * second, 3 * second)]"

lemma demo_result:
  "rows (change_requests (cr_run demo_run empty_change_db)) =
     [\<lparr>rq_id = 1, rq_tenant = 1, rq_kind = ''push'', rq_title = ''banner'', rq_description = None,
       rq_requester = 7, rq_reviewer = Some 8, rq_status = ''applied'',
       rq_decision_reason = Some ''ok'', rq_push_job = Some 3, rq_variables = None,
       rq_device = None, rq_artifact = None, rq_target_sha = None, rq_payload = None,
       rq_result = Some ''done'', rq_created_at = 0, rq_updated_at = 3, rq_submitted_at = Some 1,
       rq_decided_at = Some 2, rq_applied_at = Some 3\<rparr>]"
  by code_simp


lemma demo_steps: "\<exists>S. (cr_step False)\<^sup>*\<^sup>* (empty_change_db, []) (cr_run demo_run empty_change_db, S)"
  by (rule cr_run_steps) (simp add: demo_run_def cr_selfok_def)

section \<open>Properties\<close>

lemma sys_inv_empty: "sys_inv a (empty_change_db, [])"
  by (simp add: sys_inv_def cr_inv_def empty_change_db_def empty_table_def wf_table_def)

text \<open>C1: Four eyes. In every interleaving of concurrent callers, starting from empty tables, a
  request that is approved, applied or failed has a recorded reviewer and decision time, and
  unless self-approval was allowed the reviewer is not the requester.\<close>

theorem applied_only_after_review:
  assumes "(cr_step selfok)\<^sup>*\<^sup>* (empty_change_db, []) (db, S)"
    and "r \<in> set (rows (change_requests db))"
    and "rq_status r \<in> {StatusApproved, StatusApplied, StatusFailed}"
  shows "\<exists>v. rq_reviewer r = Some v \<and> rq_decided_at r \<noteq> None \<and> rq_submitted_at r \<noteq> None \<and>
    (selfok \<or> v \<noteq> rq_requester r)"
proof -
  have "request_ok selfok r"
    using cr_steps_inv [OF assms(1) sys_inv_empty] assms(2) by (simp add: sys_inv_def cr_inv_def)
  from request_ok_reviewed [OF this] assms(3) show ?thesis by blast
qed

theorem applied_only_after_review_witness:
  "\<exists>r v. r \<in> set (rows (change_requests (cr_run demo_run empty_change_db))) \<and>
     rq_status r = StatusApplied \<and> rq_reviewer r = Some v \<and> v \<noteq> rq_requester r"
proof -
  obtain S where run:
    "(cr_step False)\<^sup>*\<^sup>* (empty_change_db, []) (cr_run demo_run empty_change_db, S)"
    using demo_steps by blast
  obtain r where r: "r \<in> set (rows (change_requests (cr_run demo_run empty_change_db)))"
    "rq_status r = StatusApplied"
    by (simp add: demo_result status_defs)
  then show ?thesis
    using applied_only_after_review [OF run r(1)] by auto
qed

text \<open>C2: Terminal states are final. Whatever concurrent callers do, with whatever stale
  snapshots, the one row with a terminal request's id keeps its status.\<close>

theorem terminal_final:
  assumes "sys_inv a (db, S)" and "(cr_step a)\<^sup>*\<^sup>* (db, S) (db', S')"
    and "r \<in> set (rows (change_requests db))" and "IsTerminal (rq_status r)"
  shows "map rq_status (filter (\<lambda>r'. rq_id r' = rq_id r) (rows (change_requests db'))) = [rq_status r]"
proof -
  have wf: "wf_table rq_id (change_requests db')"
    using cr_steps_inv [OF assms(2,1)] by (simp add: sys_inv_def cr_inv_def)
  obtain q where q: "q \<in> set (rows (change_requests db'))" "rq_id q = rq_id r"
    "rq_status q = rq_status r"
    using cr_steps_same [OF assms(2)] assms(3) terminal_rank [OF assms(4)]
    unfolding same_requests_def by fastforce
  then show ?thesis using wf_table_filter_key [OF wf q(1)] by simp
qed

theorem terminal_final_witness:
  "map rq_status (filter (\<lambda>r. rq_id r = 1) (rows (change_requests
     (cr_do 1 (CCancel 1 7 ''too late'', 9, 9) (cr_run demo_run empty_change_db))))) = [''applied'']"
proof -
  obtain S where run:
    "(cr_step False)\<^sup>*\<^sup>* (empty_change_db, []) (cr_run demo_run empty_change_db, S)"
    using demo_steps by blast
  have "\<exists>S'. (cr_step False)\<^sup>*\<^sup>* (cr_run demo_run empty_change_db, S)
      (cr_do 1 (CCancel 1 7 ''too late'', 9, 9) (cr_run demo_run empty_change_db), S')"
    by (rule cr_do_run) (simp add: cr_selfok_def)
  then obtain S' where more: "(cr_step False)\<^sup>*\<^sup>* (cr_run demo_run empty_change_db, S)
      (cr_do 1 (CCancel 1 7 ''too late'', 9, 9) (cr_run demo_run empty_change_db), S')"
    by blast
  obtain r where r: "r \<in> set (rows (change_requests (cr_run demo_run empty_change_db)))"
    "rq_status r = ''applied''" "rq_id r = 1"
    by (simp add: demo_result)
  then show ?thesis
    using terminal_final [OF cr_steps_inv [OF run sys_inv_empty] more r(1)]
    by (simp add: IsTerminal_def status_defs)
qed

lemma transitionFrom_stale:
  "\<forall>r \<in> set (rows (change_requests db)). \<not> snap_row cr r \<Longrightarrow>
     post (\<lambda>x s. \<exists>e fs. x = Inl e \<and> s = db\<lparr>faults := fs\<rparr>)
       (transitionFrom cr actor to note rv now now2 db)"
  by (rule transitionFrom_post) auto

lemma transitionFrom_advances:
  "post (\<lambda>x s. (\<exists>e. x = Inl e) \<or> (\<exists>r \<in> set (rows (change_requests s)). rq_id r = cr_ID cr \<and>
      status_rank (cr_Status cr) < status_rank (rq_status r)))
    (transitionFrom cr actor to note rv now now2 db)"
proof (rule transitionFrom_post)
  fix x and s :: change_db and r
  assume r: "r \<in> set (rows (change_requests db))" "snap_row cr r"
    and can: "canTransition (cr_Status cr) to"
    and req: "change_requests s = update_rows (snap_row cr)
      (transition_set to (rfc3339 now) note rv) (change_requests db)"
  have "transition_set to (rfc3339 now) note rv r \<in> set (rows (change_requests s))"
    using r by (force simp: req)
  then show "(\<exists>e. x = Inl e) \<or> (\<exists>r \<in> set (rows (change_requests s)). rq_id r = cr_ID cr \<and>
      status_rank (cr_Status cr) < status_rank (rq_status r))"
    using canTransition_rank [OF can] r(2) by (intro disjI2 bexI) (auto simp: snap_row_def)
qed simp

text \<open>C3: One winner. Once a transition from a snapshot has succeeded, every later transition
  from the same snapshot fails and changes no table, however many steps of other callers
  come in between: the optimistic lock on the status column is enough.\<close>

theorem one_winner:
  assumes "transitionFrom cr actor to note rv now now2 db = (Inr cr1, db1)"
    and "sys_inv a (db1, S)" and "(cr_step a)\<^sup>*\<^sup>* (db1, S) (db2, S2)"
  shows "\<exists>e fs. transitionFrom cr actor' to' note' rv' now' now2' db2 = (Inl e, db2\<lparr>faults := fs\<rparr>)"
proof -
  have wf: "wf_table rq_id (change_requests db2)"
    using cr_steps_inv [OF assms(3,2)] by (simp add: sys_inv_def cr_inv_def)
  obtain r where r: "r \<in> set (rows (change_requests db1))" "rq_id r = cr_ID cr"
    "status_rank (cr_Status cr) < status_rank (rq_status r)"
    using postD [OF transitionFrom_advances assms(1)] by auto
  have "same_requests db1 db2" using cr_steps_same [OF assms(3)] by simp
  then obtain q where q: "q \<in> set (rows (change_requests db2))" "rq_id q = rq_id r"
    "rq_status q = rq_status r \<or> status_rank (rq_status r) < status_rank (rq_status q)"
    by (rule same_requestsD [OF _ r(1)])
  from q(3) r(3) have "rq_status q \<noteq> cr_Status cr" by (elim disjE) auto
  then have "\<forall>p \<in> set (rows (change_requests db2)). \<not> snap_row cr p"
    using wf_table_unique [OF wf _ q(1)] q(2) r(2) by (auto simp: snap_row_def)
  from transitionFrom_stale [OF this, of actor' to' note' rv' now' now2'] show ?thesis
    by (cases "transitionFrom cr actor' to' note' rv' now' now2' db2") simp
qed

definition demo_submitted :: change_db where
  "demo_submitted = cr_run (take 2 demo_run) empty_change_db"

definition demo_snapshot :: ChangeRequest where
  "demo_snapshot = scanRequest (hd (rows (change_requests demo_submitted)))"

lemma demo_submitted_read: "Get_cr 1 1 demo_submitted = (Inr demo_snapshot, demo_submitted)"
  by code_simp

lemma demo_approve_ok:
  "isl (fst (transitionFrom demo_snapshot 8 StatusApproved ''ok'' (Some 8) 0 0 demo_submitted)) = False"
  by code_simp

theorem one_winner_witness:
  "\<exists>e fs. transitionFrom demo_snapshot 9 StatusRejected ''no'' (Some 9) 0 0
     (snd (transitionFrom demo_snapshot 8 StatusApproved ''ok'' (Some 8) 0 0 demo_submitted)) =
     (Inl e, (snd (transitionFrom demo_snapshot 8 StatusApproved ''ok'' (Some 8) 0 0 demo_submitted))
       \<lparr>faults := fs\<rparr>)"
proof -
  let ?w = "transitionFrom demo_snapshot 8 StatusApproved ''ok'' (Some 8) 0 0 demo_submitted"
  obtain S where "(cr_step False)\<^sup>*\<^sup>* (empty_change_db, []) (demo_submitted, S)"
    using cr_run_steps [of "take 2 demo_run" False empty_change_db "[]"]
    by (auto simp: demo_run_def cr_selfok_def demo_submitted_def)
  then have "sys_inv False (demo_submitted, S)"
    by (rule cr_steps_inv [OF _ sys_inv_empty])
  then have "sys_inv False (demo_submitted, demo_snapshot # S)"
    by (rule cr_step_inv [OF st_read [OF demo_submitted_read]])
  moreover have "cr_RequesterID demo_snapshot = 7"
    by code_simp
  then have "cr_step False (demo_submitted, demo_snapshot # S) (snd ?w, demo_snapshot # S)"
    by (intro st_approve) auto
  ultimately have inv: "sys_inv False (snd ?w, demo_snapshot # S)"
    by (rule cr_step_inv [rotated])
  obtain cr1 where "fst ?w = Inr cr1"
    using demo_approve_ok by (cases "fst ?w") auto
  then have "?w = (Inr cr1, snd ?w)" by (metis prod.collapse)
  from one_winner [OF this inv rtranclp.rtrancl_refl] show ?thesis .
qed

text \<open>The transitions of an event list, as \<open>Events\<close> returns it.\<close>

definition event_path :: "Event list \<Rightarrow> (string option \<times> string) list" where
  "event_path es = map (\<lambda>e. (nullableStr (e_FromStatus e), e_ToStatus e)) es"

lemma event_path_history:
  assumes "cr_inv a db"
  shows "event_path (map scanEvent (filter (\<lambda>e. ev_request e = i) (rows (change_events db)))) =
    history db i"
proof -
  have "nullableStr (coalesce (ev_from e)) = ev_from e" if "e \<in> set (rows (change_events db))" for e
  proof -
    from assms that have "event_ok e" by (simp add: cr_inv_def)
    then show ?thesis
      by (cases "ev_from e") (auto simp: event_ok_def nullableStr_def coalesce_def)
  qed
  then show ?thesis by (simp add: event_path_def history_def scanEvent_def)
qed

text \<open>C4: The event log is the history. After any sequence of the service's commands without
  database failures, the events returned for a request form a run of the state machine
  from its creation to the status the request has now.\<close>

theorem events_replay_to_status:
  assumes "db = cr_run cs empty_change_db"
    and "Get_cr t i db = (Inr cr, db1)" and "Events i db = (Inr es, db2)"
  shows "chain None (event_path es) (Some (cr_Status cr))"
proof -
  have log: "log_inv db"
    unfolding assms(1) by (rule cr_run_log) simp
  then have inv: "cr_inv True db" and nf: "faults db = []"
    by (simp_all add: log_inv_def)
  obtain r where "r \<in> set (rows (change_requests db))" "cr = scanRequest r" "rq_id r = i"
    using postD [OF Get_cr_post assms(2)] by auto
  with log have "chain None (history db i) (Some (cr_Status cr))"
    by (auto simp: log_inv_def)
  moreover have "es = map scanEvent (filter (\<lambda>e. ev_request e = i) (rows (change_events db)))"
    using assms(3) Events_ok [OF inv nf, of i] by auto
  ultimately show ?thesis by (simp add: event_path_history [OF inv])
qed

theorem events_replay_to_status_witness:
  "\<exists>es cr db1 db2. Events 1 (cr_run demo_run empty_change_db) = (Inr es, db2) \<and>
     Get_cr 1 1 (cr_run demo_run empty_change_db) = (Inr cr, db1) \<and> cr_Status cr = ''applied'' \<and>
     length es = 4 \<and> chain None (event_path es) (Some ''applied'')"
proof -
  let ?db = "cr_run demo_run empty_change_db"
  have "isl (fst (Get_cr 1 1 ?db)) = False \<and> cr_Status (projr (fst (Get_cr 1 1 ?db))) = ''applied''"
    by code_simp
  then obtain cr where cr: "Get_cr 1 1 ?db = (Inr cr, snd (Get_cr 1 1 ?db))"
    "cr_Status cr = ''applied''"
    by (cases "fst (Get_cr 1 1 ?db)") (auto, metis prod.collapse)
  have "isl (fst (Events 1 ?db)) = False \<and> length (projr (fst (Events 1 ?db))) = 4"
    by code_simp
  then obtain es where es: "Events 1 ?db = (Inr es, snd (Events 1 ?db))" "length es = 4"
    by (cases "fst (Events 1 ?db)") (auto, metis prod.collapse)
  from events_replay_to_status [OF refl cr(1) es(1)] cr es show ?thesis by metis
qed

text \<open>
  Two behaviours worth knowing. A draft may also be cancelled, although the package comment
  lists \<open>submitted\<close> as its only successor. And the status update and the event are two
  statements outside a transaction: when the second fails, the caller gets an error, the
  request has moved, and its log has no trace of it.
\<close>

lemma draft_may_be_cancelled: "canTransition StatusDraft StatusCancelled"
  by (simp add: canTransition_iff)

lemma moved_without_event:
  "let db = (cr_run (take 1 demo_run) empty_change_db)\<lparr>faults := [None, None, Some ''disk full'']\<rparr>;
       (x, s) = Submit 1 1 7 0 0 db
   in isl x \<and> map rq_status (rows (change_requests s)) = [''submitted''] \<and>
      history s 1 = [(None, ''draft'')]"
  by code_simp

end
