(* ===== verification/PollerJobs.thy ===== *)
theory PollerJobs
  imports Sql "HOL-Library.Product_Lexorder" "HOL-Library.List_Lexorder"
begin

text \<open>
  The remote-poller protocol's persistence: the job queue of \<open>internal/poller/jobs.go\<close>, the
  poller registry of \<open>poller.go\<close> and the wire adapter of \<open>wire.go\<close>, whose interface to
  the queue (\<open>wireJobs\<close>) is a locale interpreted on the queue's own operations.

  The queue's multi-statement operations are composed of statements that are definitions of
  their own, so that the step relation at the end lets other callers in between them.
  bcrypt is a parameter (\<open>genhash\<close>, which may fail, and \<open>cmphash\<close>), and so are the random
  bytes a call draws.
\<close>

section \<open>Data\<close>

type_synonym JobStatus = string
type_synonym JobType = string

definition JobQueued :: JobStatus where "JobQueued = ''queued''"
definition JobClaimed :: JobStatus where "JobClaimed = ''claimed''"
definition JobRunning :: JobStatus where "JobRunning = ''running''"
definition JobDone :: JobStatus where "JobDone = ''done''"
definition JobFailed :: JobStatus where "JobFailed = ''failed''"
definition JobCancelled :: JobStatus where "JobCancelled = ''cancelled''"

definition JobTypeBackup :: JobType where "JobTypeBackup = ''backup''"
definition JobTypeProbe :: JobType where "JobTypeProbe = ''probe''"
definition JobTypeCustom :: JobType where "JobTypeCustom = ''custom''"

lemmas job_status_defs = JobQueued_def JobClaimed_def JobRunning_def JobDone_def JobFailed_def
  JobCancelled_def
lemmas job_type_defs = JobTypeBackup_def JobTypeProbe_def JobTypeCustom_def

record Job =
  j_ID :: int
  j_TenantID :: int
  j_PollerID :: "int option"
  j_IdempotencyKey :: string
  j_DeviceID :: int
  j_JobType :: JobType
  j_Payload :: string
  j_Status :: JobStatus
  j_ClaimedAt :: "time option"
  j_CompletedAt :: "time option"
  j_Result :: string
  j_Error :: string
  j_CreatedAt :: time
  j_ExpiresAt :: "time option"

record Poller =
  p_ID :: int
  p_TenantID :: int
  p_Zone :: string
  p_Name :: string
  p_LastSeen :: "time option"
  p_CreatedAt :: time

datatype pj_error = NoRows | PollerErr string | PollerDB string

record job_row =
  jb_id :: int
  jb_tenant :: int
  jb_poller :: "int option"
  jb_key :: string
  jb_device :: int
  jb_type :: string
  jb_payload :: "string option"
  jb_status :: string
  jb_claimed_at :: "stamp option"
  jb_completed_at :: "stamp option"
  jb_result :: "string option"
  jb_error :: "string option"
  jb_created_at :: stamp
  jb_expires_at :: "stamp option"

record poller_row =
  pl_id :: int
  pl_tenant :: int
  pl_zone :: string
  pl_name :: string
  pl_hash :: string
  pl_last_seen :: "stamp option"
  pl_created_at :: stamp

record poller_db = conn +
  poller_jobs :: "job_row sql_table"
  pollers :: "poller_row sql_table"

section \<open>The job queue\<close>

definition ifnull :: "string option \<Rightarrow> string" where
  "ifnull c = (case c of None \<Rightarrow> '''' | Some s \<Rightarrow> s)"

definition nullIfEmptyJob :: "string \<Rightarrow> string option" where
  "nullIfEmptyJob s = (if s = '''' then None else Some s)"

text \<open>The stamps of the columns always parse, so the error returns of \<open>scanJob\<close> are not reached.\<close>

definition scanJob :: "job_row \<Rightarrow> Job" where
  "scanJob r = \<lparr>j_ID = jb_id r, j_TenantID = jb_tenant r, j_PollerID = jb_poller r,
     j_IdempotencyKey = jb_key r, j_DeviceID = jb_device r, j_JobType = jb_type r,
     j_Payload = ifnull (jb_payload r), j_Status = jb_status r,
     j_ClaimedAt = map_option of_stamp (jb_claimed_at r),
     j_CompletedAt = map_option of_stamp (jb_completed_at r),
     j_Result = ifnull (jb_result r), j_Error = ifnull (jb_error r),
     j_CreatedAt = of_stamp (jb_created_at r),
     j_ExpiresAt = map_option of_stamp (jb_expires_at r)\<rparr>"

definition Get_job :: "int \<Rightarrow> int \<Rightarrow> poller_db \<Rightarrow> (pj_error + Job) \<times> poller_db" where
  "Get_job tenantID i db = exec PollerDB db (\<lambda>db.
     case query_row (\<lambda>r. jb_tenant r = tenantID \<and> jb_id r = i) (poller_jobs db) of
       None \<Rightarrow> (Inl NoRows, db)
     | Some r \<Rightarrow> (Inr (scanJob r), db))"

definition GetByKey :: "string \<Rightarrow> poller_db \<Rightarrow> (pj_error + Job) \<times> poller_db" where
  "GetByKey k db = exec PollerDB db (\<lambda>db.
     case query_row (\<lambda>r. jb_key r = k) (poller_jobs db) of
       None \<Rightarrow> (Inl NoRows, db)
     | Some r \<Rightarrow> (Inr (scanJob r), db))"

definition ListByTenant :: "int \<Rightarrow> int \<Rightarrow> poller_db \<Rightarrow> (pj_error + Job list) \<times> poller_db" where
  "ListByTenant tenantID limit db =
     (let limit = (if limit \<le> 0 \<or> 500 < limit then 100 else limit)
      in exec PollerDB db (\<lambda>db.
           (Inr (map scanJob (take (nat limit) (order_desc jb_created_at
              (filter (\<lambda>r. jb_tenant r = tenantID) (rows (poller_jobs db)))))), db)))"

text \<open>
  The insertion with \<open>ON CONFLICT(idempotency_key) DO NOTHING\<close>. The schema's \<open>CHECK\<close> on the
  type fails the statement. \<open>last_insert_rowid()\<close> moves only when a row is inserted.
\<close>

definition insert_job ::
  "int \<Rightarrow> int \<Rightarrow> string \<Rightarrow> JobType \<Rightarrow> string \<Rightarrow> stamp \<Rightarrow> stamp option \<Rightarrow> poller_db
    \<Rightarrow> (pj_error + int) \<times> poller_db" where
  "insert_job tenantID deviceID k jobType payload created expires db = exec PollerDB db (\<lambda>db.
     if jobType \<notin> {JobTypeBackup, JobTypeProbe, JobTypeCustom} then
       (Inl (PollerDB ''CHECK constraint failed: job_type''), db)
     else if query_row (\<lambda>r. jb_key r = k) (poller_jobs db) \<noteq> None then (Inr (last_rowid db), db)
     else (Inr (next_rowid (poller_jobs db)), db\<lparr>poller_jobs := insert_row (\<lambda>i.
         \<lparr>jb_id = i, jb_tenant = tenantID, jb_poller = None, jb_key = k, jb_device = deviceID,
          jb_type = jobType, jb_payload = Some payload, jb_status = JobQueued,
          jb_claimed_at = None, jb_completed_at = None, jb_result = None, jb_error = None,
          jb_created_at = created, jb_expires_at = expires\<rparr>) (poller_jobs db),
         last_rowid := next_rowid (poller_jobs db)\<rparr>))"

definition Enqueue ::
  "int \<Rightarrow> int \<Rightarrow> JobType \<Rightarrow> string \<Rightarrow> string \<Rightarrow> duration \<Rightarrow> string option \<Rightarrow> time \<Rightarrow> poller_db
    \<Rightarrow> (pj_error + Job) \<times> poller_db" where
  "Enqueue tenantID deviceID jobType0 payloadJSON key0 ttl rnd now db =
     (if tenantID \<le> 0 \<or> deviceID \<le> 0 then
        (Inl (PollerErr ''tenant_id and device_id required''), db)
      else let jobType = (if jobType0 = '''' then JobTypeBackup else jobType0)
      in case (if key0 = '''' then map_option hex_encode rnd else Some key0) of
           None \<Rightarrow> (Inl (PollerErr ''generate idempotency key''), db)
         | Some k \<Rightarrow>
             (let expiresAt = (if 0 < ttl then Some (rfc3339 (now + ttl)) else None)
              in and_then
                   (insert_job tenantID deviceID k jobType payloadJSON (rfc3339 now) expiresAt db)
                   (\<lambda>i db. if i = 0 then GetByKey k db else Get_job tenantID i db)))"

definition computeNewExpiresAt :: "stamp \<Rightarrow> stamp \<Rightarrow> time \<Rightarrow> stamp option" where
  "computeNewExpiresAt createdAt expiresAt claimedAt =
     (let ttl = of_stamp expiresAt - of_stamp createdAt
      in if ttl \<le> 0 then None else Some (rfc3339 (claimedAt + ttl)))"

definition claim_select ::
  "int \<Rightarrow> JobType list \<Rightarrow> poller_db \<Rightarrow> (pj_error + job_row) \<times> poller_db" where
  "claim_select tenantID types db = exec PollerDB db (\<lambda>db.
     case order_asc jb_created_at (filter (\<lambda>r. jb_tenant r = tenantID \<and> jb_status r = JobQueued \<and>
            jb_type r \<in> set types) (rows (poller_jobs db))) of
       [] \<Rightarrow> (Inl NoRows, db)
     | r # rs \<Rightarrow> (Inr r, db))"

text \<open>The subquery \<open>EXISTS (SELECT 1 FROM pollers ...)\<close> and the \<open>WHERE\<close> clause around it.\<close>

definition poller_known :: "poller_row sql_table \<Rightarrow> int \<Rightarrow> int \<Rightarrow> bool" where
  "poller_known ps t p \<longleftrightarrow> (\<exists>q \<in> set (rows ps). pl_id q = p \<and> pl_tenant q = t)"

definition claimable :: "int \<Rightarrow> int \<Rightarrow> int \<Rightarrow> poller_row sql_table \<Rightarrow> job_row \<Rightarrow> bool" where
  "claimable tenantID pollerID jobID ps r \<longleftrightarrow>
     jb_id r = jobID \<and> jb_tenant r = tenantID \<and> jb_status r = JobQueued \<and>
     poller_known ps tenantID pollerID"

definition claim_update ::
  "int \<Rightarrow> int \<Rightarrow> int \<Rightarrow> stamp \<Rightarrow> stamp option \<Rightarrow> poller_db \<Rightarrow> (pj_error + unit) \<times> poller_db" where
  "claim_update tenantID pollerID jobID claimedAt expires db = exec PollerDB db (\<lambda>db.
     let P = claimable tenantID pollerID jobID (pollers db);
         n = affected P (poller_jobs db);
         db = db\<lparr>poller_jobs := update_rows P (\<lambda>r. r\<lparr>jb_status := JobClaimed,
           jb_poller := Some pollerID, jb_claimed_at := Some claimedAt, jb_expires_at := expires\<rparr>)
           (poller_jobs db)\<rparr>
     in if n = 0 then (Inl NoRows, db) else (Inr (), db))"

definition Claim ::
  "int \<Rightarrow> int \<Rightarrow> JobType list \<Rightarrow> time \<Rightarrow> poller_db \<Rightarrow> (pj_error + Job) \<times> poller_db" where
  "Claim tenantID pollerID supportedTypes now db =
     (let types = (if length supportedTypes = 0
                   then [JobTypeBackup, JobTypeProbe, JobTypeCustom] else supportedTypes)
      in and_then (claim_select tenantID types db) (\<lambda>job db.
           let newExpiresAt = (case jb_expires_at job of
                 None \<Rightarrow> None
               | Some e \<Rightarrow> computeNewExpiresAt (jb_created_at job) e now)
           in and_then (claim_update tenantID pollerID (jb_id job) (rfc3339 now) newExpiresAt db)
                (\<lambda>_ db. Get_job tenantID (jb_id job) db)))"

definition finish_set :: "bool \<Rightarrow> string \<Rightarrow> string \<Rightarrow> stamp \<Rightarrow> job_row \<Rightarrow> job_row" where
  "finish_set success resultJSON errMsg now r =
     r\<lparr>jb_status := (if success then JobDone else JobFailed),
       jb_result := nullIfEmptyJob resultJSON, jb_error := nullIfEmptyJob errMsg,
       jb_completed_at := Some now\<rparr>"

definition Complete ::
  "int \<Rightarrow> int \<Rightarrow> bool \<Rightarrow> string \<Rightarrow> string \<Rightarrow> time \<Rightarrow> poller_db \<Rightarrow> (pj_error + unit) \<times> poller_db" where
  "Complete tenantID jobID success resultJSON errMsg now db = exec PollerDB db (\<lambda>db.
     (Inr (), db\<lparr>poller_jobs := update_rows
        (\<lambda>r. jb_tenant r = tenantID \<and> jb_id r = jobID \<and> jb_status r \<in> {JobClaimed, JobRunning})
        (finish_set success resultJSON errMsg (rfc3339 now)) (poller_jobs db)\<rparr>))"

definition owned_by :: "int \<Rightarrow> int \<Rightarrow> int \<Rightarrow> job_row \<Rightarrow> bool" where
  "owned_by tenantID pollerID jobID r \<longleftrightarrow>
     jb_tenant r = tenantID \<and> jb_id r = jobID \<and> jb_poller r = Some pollerID \<and>
     jb_status r \<in> {JobClaimed, JobRunning}"

definition CompleteClaimedBy ::
  "int \<Rightarrow> int \<Rightarrow> int \<Rightarrow> bool \<Rightarrow> string \<Rightarrow> string \<Rightarrow> time \<Rightarrow> poller_db
    \<Rightarrow> (pj_error + unit) \<times> poller_db" where
  "CompleteClaimedBy tenantID pollerID jobID success resultJSON errMsg now db =
     exec PollerDB db (\<lambda>db.
       let n = affected (owned_by tenantID pollerID jobID) (poller_jobs db);
           db = db\<lparr>poller_jobs := update_rows (owned_by tenantID pollerID jobID)
             (finish_set success resultJSON errMsg (rfc3339 now)) (poller_jobs db)\<rparr>
       in if n = 0 then (Inl NoRows, db) else (Inr (), db))"

definition Cancel_job ::
  "int \<Rightarrow> int \<Rightarrow> time \<Rightarrow> poller_db \<Rightarrow> (pj_error + unit) \<times> poller_db" where
  "Cancel_job tenantID jobID now db = exec PollerDB db (\<lambda>db.
     (Inr (), db\<lparr>poller_jobs := update_rows
        (\<lambda>r. jb_tenant r = tenantID \<and> jb_id r = jobID \<and> jb_status r \<in> {JobQueued, JobClaimed})
        (\<lambda>r. r\<lparr>jb_status := JobCancelled, jb_completed_at := Some (rfc3339 now)\<rparr>)
        (poller_jobs db)\<rparr>))"

definition lease_expired :: "stamp \<Rightarrow> job_row \<Rightarrow> bool" where
  "lease_expired now r \<longleftrightarrow> jb_status r = JobClaimed \<and>
     (case jb_expires_at r of None \<Rightarrow> False | Some e \<Rightarrow> e < now)"

definition ReclaimExpired :: "time \<Rightarrow> poller_db \<Rightarrow> (pj_error + int) \<times> poller_db" where
  "ReclaimExpired now db = exec PollerDB db (\<lambda>db.
     (Inr (int (affected (lease_expired (rfc3339 now)) (poller_jobs db))),
      db\<lparr>poller_jobs := update_rows (lease_expired (rfc3339 now))
        (\<lambda>r. r\<lparr>jb_status := JobQueued, jb_poller := None, jb_claimed_at := None\<rparr>)
        (poller_jobs db)\<rparr>))"

section \<open>The poller registry\<close>

definition Register ::
  "(string \<Rightarrow> string option) \<Rightarrow> int \<Rightarrow> string \<Rightarrow> string \<Rightarrow> string option \<Rightarrow> time \<Rightarrow> poller_db
    \<Rightarrow> (pj_error + (Poller \<times> string)) \<times> poller_db" where
  "Register genhash tenantID zone name rnd now db =
     (if name = '''' \<or> zone = '''' then (Inl (PollerErr ''zone and name required''), db)
      else case rnd of
        None \<Rightarrow> (Inl (PollerErr ''rand''), db)
      | Some bytes \<Rightarrow>
          (let token = hex_encode bytes
           in case genhash token of
                None \<Rightarrow> (Inl (PollerErr ''bcrypt''), db)
              | Some hash \<Rightarrow> exec PollerDB db (\<lambda>db.
                  if query_row (\<lambda>p. pl_tenant p = tenantID \<and> pl_name p = name) (pollers db) \<noteq> None
                  then (Inl (PollerDB ''UNIQUE constraint failed: pollers''), db)
                  else let i = next_rowid (pollers db)
                    in (Inr (\<lparr>p_ID = i, p_TenantID = tenantID, p_Zone = zone, p_Name = name,
                              p_LastSeen = None, p_CreatedAt = now\<rparr>, token),
                        db\<lparr>pollers := insert_row (\<lambda>i. \<lparr>pl_id = i, pl_tenant = tenantID,
                             pl_zone = zone, pl_name = name, pl_hash = hash, pl_last_seen = None,
                             pl_created_at = rfc3339 now\<rparr>) (pollers db),
                           last_rowid := i\<rparr>))))"

definition Authenticate_poller ::
  "(string \<Rightarrow> string \<Rightarrow> bool) \<Rightarrow> int \<Rightarrow> string \<Rightarrow> string \<Rightarrow> time \<Rightarrow> poller_db
    \<Rightarrow> (pj_error + Poller) \<times> poller_db" where
  "Authenticate_poller cmphash tenantID name token now db = exec PollerDB db (\<lambda>db.
     case query_row (\<lambda>p. pl_tenant p = tenantID \<and> pl_name p = name) (pollers db) of
       None \<Rightarrow> (Inl NoRows, db)
     | Some p \<Rightarrow>
         if \<not> cmphash (pl_hash p) token then (Inl (PollerErr ''invalid token''), db)
         else (Inr \<lparr>p_ID = pl_id p, p_TenantID = pl_tenant p, p_Zone = pl_zone p,
                    p_Name = pl_name p, p_LastSeen = Some now,
                    p_CreatedAt = of_stamp (pl_created_at p)\<rparr>,
               exec_quiet db (\<lambda>db. db\<lparr>pollers := update_rows (\<lambda>q. pl_id q = pl_id p)
                 (\<lambda>q. q\<lparr>pl_last_seen := Some (rfc3339 now)\<rparr>) (pollers db)\<rparr>)))"

text \<open>\<open>ORDER BY zone, name\<close>, in SQLite's bytewise text order.\<close>

definition zone_name :: "poller_row \<Rightarrow> nat list \<times> nat list" where
  "zone_name p = (map of_char (pl_zone p), map of_char (pl_name p))"

definition List_pollers :: "int \<Rightarrow> poller_db \<Rightarrow> (pj_error + Poller list) \<times> poller_db" where
  "List_pollers tenantID db = exec PollerDB db (\<lambda>db.
     (Inr (map (\<lambda>p. \<lparr>p_ID = pl_id p, p_TenantID = pl_tenant p, p_Zone = pl_zone p,
                     p_Name = pl_name p, p_LastSeen = map_option of_stamp (pl_last_seen p),
                     p_CreatedAt = of_stamp (pl_created_at p)\<rparr>)
        (order_asc zone_name (filter (\<lambda>p. pl_tenant p = tenantID) (rows (pollers db))))), db))"

text \<open>Deleting a poller also clears its jobs' \<open>poller_id\<close> (\<open>ON DELETE SET NULL\<close>).\<close>

definition Delete_poller :: "int \<Rightarrow> int \<Rightarrow> poller_db \<Rightarrow> (pj_error + unit) \<times> poller_db" where
  "Delete_poller tenantID i db = exec PollerDB db (\<lambda>db.
     let D = (\<lambda>p. pl_tenant p = tenantID \<and> pl_id p = i);
         gone = map pl_id (filter D (rows (pollers db)))
     in (Inr (), db\<lparr>pollers := delete_rows D (pollers db),
           poller_jobs := update_rows (\<lambda>r. jb_poller r \<in> Some ` set gone) (\<lambda>r. r\<lparr>jb_poller := None\<rparr>) (poller_jobs db)\<rparr>))"

section \<open>Invariant\<close>

definition job_ok :: "poller_row sql_table \<Rightarrow> job_row \<Rightarrow> bool" where
  "job_ok ps r \<longleftrightarrow>
     jb_status r \<in> {JobQueued, JobClaimed, JobRunning, JobDone, JobFailed, JobCancelled} \<and>
     jb_type r \<in> {JobTypeBackup, JobTypeProbe, JobTypeCustom} \<and>
     (jb_status r = JobQueued \<longrightarrow> jb_poller r = None \<and> jb_claimed_at r = None) \<and>
     (jb_status r \<in> {JobClaimed, JobRunning} \<longrightarrow> jb_claimed_at r \<noteq> None) \<and>
     (jb_completed_at r \<noteq> None \<longleftrightarrow> jb_status r \<in> {JobDone, JobFailed, JobCancelled}) \<and>
     (\<forall>p. jb_poller r = Some p \<longrightarrow> poller_known ps (jb_tenant r) p)"

definition pj_inv :: "poller_db \<Rightarrow> bool" where
  "pj_inv db \<longleftrightarrow>
     wf_table jb_id (poller_jobs db) \<and> wf_table pl_id (pollers db) \<and>
     distinct (map jb_key (rows (poller_jobs db))) \<and>
     distinct (map (\<lambda>p. (pl_tenant p, pl_name p)) (rows (pollers db))) \<and>
     (\<forall>r \<in> set (rows (poller_jobs db)). job_ok (pollers db) r)"

lemma job_status_distinct [simp]:
  "JobQueued \<noteq> JobClaimed" "JobQueued \<noteq> JobRunning" "JobQueued \<noteq> JobDone"
  "JobQueued \<noteq> JobFailed" "JobQueued \<noteq> JobCancelled" "JobClaimed \<noteq> JobRunning"
  "JobClaimed \<noteq> JobDone" "JobClaimed \<noteq> JobFailed" "JobClaimed \<noteq> JobCancelled"
  "JobRunning \<noteq> JobDone" "JobRunning \<noteq> JobFailed" "JobRunning \<noteq> JobCancelled"
  "JobDone \<noteq> JobFailed" "JobDone \<noteq> JobCancelled" "JobFailed \<noteq> JobCancelled"
  by (simp_all add: job_status_defs)

lemmas job_status_distinct_sym [simp] = job_status_distinct [symmetric]

lemma pj_inv_faults [simp]:
  "pj_inv (db\<lparr>faults := fs\<rparr>) = pj_inv db" "pj_inv (db\<lparr>last_rowid := k\<rparr>) = pj_inv db"
  by (simp_all add: pj_inv_def)

lemma pj_inv_update:
  assumes "pj_inv db" and "poller_jobs s = update_rows P f (poller_jobs db)"
    and "pollers s = pollers db"
    and f: "\<And>r. P r \<Longrightarrow> jb_id (f r) = jb_id r \<and> jb_key (f r) = jb_key r \<and>
      (job_ok (pollers db) r \<longrightarrow> job_ok (pollers db) (f r))"
  shows "pj_inv s"
proof -
  have keys: "map jb_key (rows (update_rows P f (poller_jobs db))) = map jb_key (rows (poller_jobs db))"
    using f by simp
  have wf: "wf_table jb_id (update_rows P f (poller_jobs db))"
    using assms(1) f by (intro wf_update_rows) (auto simp: pj_inv_def)
  have "\<forall>r \<in> set (rows (update_rows P f (poller_jobs db))). job_ok (pollers db) r"
    using assms(1) f by (auto simp: pj_inv_def)
  with keys wf assms(1-3) show ?thesis
    by (simp add: pj_inv_def del: rows_update_rows map_map)
qed

lemma finish_set_simps [simp]:
  "jb_id (finish_set ok res e now r) = jb_id r" "jb_key (finish_set ok res e now r) = jb_key r"
  "jb_tenant (finish_set ok res e now r) = jb_tenant r"
  "jb_poller (finish_set ok res e now r) = jb_poller r"
  "jb_status (finish_set ok res e now r) = (if ok then JobDone else JobFailed)"
  by (simp_all add: finish_set_def)

lemma job_ok_finish: "job_ok ps r \<Longrightarrow> jb_status r = JobClaimed \<or> jb_status r = JobRunning \<Longrightarrow>
    job_ok ps (finish_set ok res e now r)"
  by (elim disjE) (simp_all add: job_ok_def finish_set_def)

lemma job_ok_claim:
  "job_ok ps r \<Longrightarrow> jb_status r = JobQueued \<Longrightarrow> poller_known ps (jb_tenant r) p \<Longrightarrow>
   job_ok ps (r\<lparr>jb_status := JobClaimed, jb_poller := Some p, jb_claimed_at := Some c,
     jb_expires_at := e\<rparr>)"
  by (simp add: job_ok_def)

lemma job_ok_cancel:
  "job_ok ps r \<Longrightarrow> jb_status r = JobQueued \<or> jb_status r = JobClaimed \<Longrightarrow>
   job_ok ps (r\<lparr>jb_status := JobCancelled, jb_completed_at := Some now\<rparr>)"
  by (elim disjE) (simp_all add: job_ok_def)

lemma job_ok_requeue:
  "job_ok ps r \<Longrightarrow> jb_status r = JobClaimed \<Longrightarrow>
   job_ok ps (r\<lparr>jb_status := JobQueued, jb_poller := None, jb_claimed_at := None\<rparr>)"
  by (simp add: job_ok_def)

lemma job_ok_orphan:
  "job_ok ps r \<Longrightarrow> job_ok ps (r\<lparr>jb_poller := None\<rparr>)"
  by (simp add: job_ok_def)

lemma insert_job_inv: "pj_inv db \<Longrightarrow> post (\<lambda>x s. pj_inv s) (insert_job t d k ty pl c e db)"
  unfolding insert_job_def
  by (rule post_exec)
    (auto simp: pj_inv_def query_row_None job_ok_def intro!: wf_insert_row)

lemma claim_update_inv: "pj_inv db \<Longrightarrow> post (\<lambda>x s. pj_inv s) (claim_update t p j c e db)"
  unfolding claim_update_def Let_def
  by (rule post_exec) (auto simp: claimable_def job_ok_claim elim!: pj_inv_update)

lemma Complete_inv: "pj_inv db \<Longrightarrow> post (\<lambda>x s. pj_inv s) (Complete t j ok res e now db)"
  unfolding Complete_def
  by (rule post_exec) (auto elim!: pj_inv_update intro: job_ok_finish)

lemma CompleteClaimedBy_inv:
  "pj_inv db \<Longrightarrow> post (\<lambda>x s. pj_inv s) (CompleteClaimedBy t p j ok res e now db)"
  unfolding CompleteClaimedBy_def Let_def
  by (rule post_exec) (auto simp: owned_by_def elim!: pj_inv_update intro: job_ok_finish)

lemma Cancel_job_inv: "pj_inv db \<Longrightarrow> post (\<lambda>x s. pj_inv s) (Cancel_job t j now db)"
  unfolding Cancel_job_def
  by (rule post_exec) (auto elim!: pj_inv_update intro: job_ok_cancel)

lemma ReclaimExpired_inv: "pj_inv db \<Longrightarrow> post (\<lambda>x s. pj_inv s) (ReclaimExpired now db)"
  unfolding ReclaimExpired_def
  by (rule post_exec) (auto simp: job_ok_requeue lease_expired_def elim!: pj_inv_update)

lemma job_ok_pollers:
  "job_ok ps r \<Longrightarrow> (\<And>p. poller_known ps (jb_tenant r) p \<Longrightarrow> poller_known ps' (jb_tenant r) p) \<Longrightarrow>
   job_ok ps' r"
  by (simp add: job_ok_def)

lemma pj_inv_pollers:
  assumes "pj_inv db" and "poller_jobs s = poller_jobs db" and "wf_table pl_id (pollers s)"
    and "distinct (map (\<lambda>p. (pl_tenant p, pl_name p)) (rows (pollers s)))"
    and "\<And>t p. poller_known (pollers db) t p \<Longrightarrow> poller_known (pollers s) t p"
  shows "pj_inv s"
  using assms by (auto simp: pj_inv_def intro: job_ok_pollers)

lemma Register_inv:
  assumes "pj_inv db"
  shows "post (\<lambda>x s. pj_inv s) (Register genhash t zone name rnd now db)"
proof -
  have "pj_inv s" if "query_row (\<lambda>p. pl_tenant p = t \<and> pl_name p = name) (pollers db) = None"
    "poller_jobs s = poller_jobs db" "pollers s = insert_row f (pollers db)"
    "\<And>i. pl_id (f i) = i \<and> pl_tenant (f i) = t \<and> pl_name (f i) = name" for s :: poller_db and f
    using assms that
    by (intro pj_inv_pollers [OF assms])
      (auto simp: pj_inv_def query_row_None poller_known_def intro!: wf_insert_row)
  then show ?thesis
    unfolding Register_def Let_def using assms
    by (auto split: option.splits intro!: post_exec)
qed

lemma Authenticate_poller_inv:
  assumes "pj_inv db"
  shows "post (\<lambda>x s. pj_inv s) (Authenticate_poller cmphash t name tok now db)"
proof -
  have up: "pj_inv s" if "poller_jobs s = poller_jobs db"
    "pollers s = update_rows P (\<lambda>q. q\<lparr>pl_last_seen := v\<rparr>) (pollers db)" for s :: poller_db and P v
  proof (rule pj_inv_pollers [OF assms that(1)])
    show "wf_table pl_id (pollers s)"
      using assms that(2) by (auto simp: pj_inv_def intro!: wf_update_rows)
    have "map (\<lambda>p. (pl_tenant p, pl_name p)) (rows (pollers s)) =
        map (\<lambda>p. (pl_tenant p, pl_name p)) (rows (pollers db))"
      by (simp add: that(2))
    then show "distinct (map (\<lambda>p. (pl_tenant p, pl_name p)) (rows (pollers s)))"
      using assms by (simp only: pj_inv_def)
    show "poller_known (pollers db) t p \<Longrightarrow> poller_known (pollers s) t p" for t p
    proof -
      assume "poller_known (pollers db) t p"
      then obtain q where "q \<in> set (rows (pollers db))" "pl_id q = p" "pl_tenant q = t"
        by (auto simp: poller_known_def)
      then show ?thesis
        unfolding poller_known_def that(2)
        by (intro bexI [of _ "if P q then q\<lparr>pl_last_seen := v\<rparr> else q"]) auto
    qed
  qed
  have "pj_inv (exec_quiet (db\<lparr>faults := fs\<rparr>) (\<lambda>db. db\<lparr>pollers := update_rows P
      (\<lambda>q. q\<lparr>pl_last_seen := v\<rparr>) (pollers db)\<rparr>))" for fs P v
    by (rule exec_quiet_post [where Q = pj_inv]) (auto simp: assms intro: up)
  then show ?thesis
    unfolding Authenticate_poller_def
    by (intro post_exec) (auto simp: assms split: option.splits)
qed

lemma Delete_poller_inv:
  assumes inv: "pj_inv db"
  shows "post (\<lambda>x s. pj_inv s) (Delete_poller t i db)"
proof -
  define D where "D = (\<lambda>p :: poller_row. pl_tenant p = t \<and> pl_id p = i)"
  define G where "G = (\<lambda>r :: job_row.
    jb_poller r \<in> Some ` set (map pl_id (filter D (rows (pollers db)))))"
  have "pj_inv s" if jobs: "poller_jobs s = update_rows G (\<lambda>r. r\<lparr>jb_poller := None\<rparr>) (poller_jobs db)"
    and ps: "pollers s = delete_rows D (pollers db)" for s :: poller_db
  proof -
    let ?m = "db\<lparr>poller_jobs := poller_jobs s\<rparr>"
    have m: "pj_inv ?m"
      using jobs by (intro pj_inv_update [OF inv, where P = G and f = "\<lambda>r. r\<lparr>jb_poller := None\<rparr>"])
        (auto intro: job_ok_orphan)
    have ok: "job_ok (pollers s) r" if "r \<in> set (rows (poller_jobs s))" for r
    proof (cases "jb_poller r")
      case None
      then show ?thesis using m that by (auto simp: pj_inv_def job_ok_def)
    next
      case (Some p)
      from that obtain q where q: "q \<in> set (rows (poller_jobs db))"
        "r = (if G q then q\<lparr>jb_poller := None\<rparr> else q)"
        by (auto simp: jobs)
      with Some have "\<not> G q" "r = q" by (auto split: if_splits)
      then have "p \<notin> pl_id ` set (filter D (rows (pollers db)))"
        using Some by (auto simp: G_def)
      then have "poller_known (pollers db) (jb_tenant r) p \<Longrightarrow> poller_known (pollers s) (jb_tenant r) p"
        by (auto simp: poller_known_def ps)
      then show ?thesis using m that Some by (auto simp: pj_inv_def job_ok_def)
    qed
    have "distinct (map (\<lambda>p. (pl_tenant p, pl_name p)) (rows (pollers s)))"
      using inv by (auto simp: pj_inv_def ps intro: distinct_map_filter)
    then show ?thesis
      using m ok inv by (auto simp: pj_inv_def ps intro: wf_delete_rows)
  qed
  then show ?thesis
    unfolding Delete_poller_def Let_def using inv
    by (intro post_exec) (auto simp: D_def G_def)
qed

section \<open>Concurrent pollers\<close>

text \<open>
  One step is one statement of any caller. Reclaims run at clocks up to \<open>T\<close>; \<open>st_env\<close> covers
  reads, failed statements and insertions into other tables of the same connection.
\<close>

inductive pj_step :: "stamp \<Rightarrow> poller_db \<Rightarrow> poller_db \<Rightarrow> bool" for T where
  st_insert: "pj_step T db (snd (insert_job t d k ty pl c e db))"
| st_claim: "pj_step T db (snd (claim_update t p j c e db))"
| st_complete: "pj_step T db (snd (Complete t j ok res err now db))"
| st_complete_by: "pj_step T db (snd (CompleteClaimedBy t p j ok res err now db))"
| st_cancel: "pj_step T db (snd (Cancel_job t j now db))"
| st_reclaim: "rfc3339 now \<le> T \<Longrightarrow> pj_step T db (snd (ReclaimExpired now db))"
| st_register: "pj_step T db (snd (Register genhash t zone name rnd now db))"
| st_auth: "pj_step T db (snd (Authenticate_poller cmphash t name tok now db))"
| st_delete: "pj_step T db (snd (Delete_poller t i db))"
| st_env: "pj_step T db (db\<lparr>faults := fs, last_rowid := k\<rparr>)"

lemma pj_step_inv: "pj_step T db s \<Longrightarrow> pj_inv db \<Longrightarrow> pj_inv s"
  by (induction rule: pj_step.induct)
    (auto intro: insert_job_inv [unfolded post_snd] claim_update_inv [unfolded post_snd]
      Complete_inv [unfolded post_snd] CompleteClaimedBy_inv [unfolded post_snd]
      Cancel_job_inv [unfolded post_snd] ReclaimExpired_inv [unfolded post_snd]
      Register_inv [unfolded post_snd] Authenticate_poller_inv [unfolded post_snd]
      Delete_poller_inv [unfolded post_snd])

lemma pj_steps_inv: "(pj_step T)\<^sup>*\<^sup>* db s \<Longrightarrow> pj_inv db \<Longrightarrow> pj_inv s"
  by (induction rule: rtranclp_induct) (auto intro: pj_step_inv)

text \<open>The lease of a claimed job that no reclaim up to \<open>T\<close> can take away.\<close>

definition finished :: "job_row \<Rightarrow> bool" where
  "finished r \<longleftrightarrow> jb_status r \<in> {JobDone, JobFailed, JobCancelled}"

definition leased :: "stamp \<Rightarrow> job_row \<Rightarrow> bool" where
  "leased T r \<longleftrightarrow> jb_status r \<in> {JobClaimed, JobRunning} \<and>
     (case jb_expires_at r of None \<Rightarrow> True | Some e \<Rightarrow> T \<le> e)"

text \<open>How a job may look later: finished for good, or leased to the same poller or to none.\<close>

definition job_follow :: "stamp \<Rightarrow> job_row \<Rightarrow> job_row \<Rightarrow> bool" where
  "job_follow T r r' \<longleftrightarrow>
     jb_id r' = jb_id r \<and> jb_tenant r' = jb_tenant r \<and> jb_key r' = jb_key r \<and>
     jb_payload r' = jb_payload r \<and> jb_type r' = jb_type r \<and> jb_device r' = jb_device r \<and>
     (finished r \<longrightarrow> jb_status r' = jb_status r \<and> jb_result r' = jb_result r) \<and>
     (leased T r \<longrightarrow> finished r' \<or>
        leased T r' \<and> (jb_poller r' = jb_poller r \<or> jb_poller r' = None))"

lemma job_follow_refl: "job_follow T r r"
  by (simp add: job_follow_def)

lemma finished_cong: "jb_status r = jb_status s \<Longrightarrow> finished r = finished s"
  by (simp add: finished_def)

lemma job_follow_trans:
  assumes "job_follow T a b" and "job_follow T b c"
  shows "job_follow T a c"
proof -
  have "finished c" if "finished b"
    using that assms(2) finished_cong [of b c] by (auto simp: job_follow_def)
  then show ?thesis
    using assms finished_cong [of a b] unfolding job_follow_def by auto
qed

lemma leased_not_finished: "leased T r \<Longrightarrow> \<not> finished r"
  by (auto simp: leased_def finished_def)

lemma follow_finish:
  "jb_status r = JobClaimed \<or> jb_status r = JobRunning \<Longrightarrow> job_follow T r (finish_set ok res e now r)"
  by (auto simp: job_follow_def finish_set_def finished_def)

lemma follow_claim:
  "jb_status r = JobQueued \<Longrightarrow> job_follow T r (r\<lparr>jb_status := JobClaimed, jb_poller := p,
     jb_claimed_at := c, jb_expires_at := e\<rparr>)"
  by (auto simp: job_follow_def finished_def leased_def)

lemma follow_cancel:
  "jb_status r = JobQueued \<or> jb_status r = JobClaimed \<Longrightarrow>
   job_follow T r (r\<lparr>jb_status := JobCancelled, jb_completed_at := now\<rparr>)"
  by (auto simp: job_follow_def finished_def leased_def)

lemma follow_reclaim:
  "lease_expired now r \<Longrightarrow> now \<le> T \<Longrightarrow>
   job_follow T r (r\<lparr>jb_status := JobQueued, jb_poller := None, jb_claimed_at := None\<rparr>)"
  by (auto simp: job_follow_def finished_def leased_def lease_expired_def split: option.splits)

lemma follow_orphan: "job_follow T r (r\<lparr>jb_poller := None\<rparr>)"
  by (auto simp: job_follow_def finished_def leased_def)

abbreviation jobs_follow :: "stamp \<Rightarrow> poller_db \<Rightarrow> poller_db \<Rightarrow> bool" where
  "jobs_follow T db s \<equiv> rows_follow (job_follow T) (poller_jobs db) (poller_jobs s)"

lemmas jobs_follow_intros = rows_follow_refl [of "job_follow T" for T, OF job_follow_refl]
  rows_follow_update [of "job_follow T" for T, OF job_follow_refl]
  rows_follow_insert [of "job_follow T" for T, OF job_follow_refl]

lemma Authenticate_poller_jobs:
  "poller_jobs (snd (Authenticate_poller cmphash t name tok now db)) = poller_jobs db"
proof -
  have "poller_jobs (exec_quiet (db\<lparr>faults := fs\<rparr>) (\<lambda>db. db\<lparr>pollers := g db\<rparr>)) = poller_jobs db"
    for fs g
    by (rule exec_quiet_post [where Q = "\<lambda>s. poller_jobs s = poller_jobs db"]) auto
  then have "post (\<lambda>x s. poller_jobs s = poller_jobs db)
      (Authenticate_poller cmphash t name tok now db)"
    unfolding Authenticate_poller_def by (intro post_exec) (auto split: option.splits)
  then show ?thesis by (simp add: post_snd)
qed

lemma Register_jobs: "poller_jobs (snd (Register genhash t zone name rnd now db)) = poller_jobs db"
proof -
  have "post (\<lambda>x s. poller_jobs s = poller_jobs db) (Register genhash t zone name rnd now db)"
    unfolding Register_def Let_def by (auto split: option.splits intro!: post_exec)
  then show ?thesis by (simp add: post_snd)
qed

lemma exec_snd_cases:
  assumes "\<And>fs. Q (c\<lparr>faults := fs\<rparr>)" and "\<And>fs. Q (snd (k (c\<lparr>faults := fs\<rparr>)))"
  shows "Q (snd (exec err c k))"
  using post_exec [where Q = "\<lambda>x s. Q s" and c = c and err = err and k = k] assms by (simp add: post_snd)

lemma pj_step_follow: "pj_step T db s \<Longrightarrow> jobs_follow T db s"
proof (induction rule: pj_step.induct)
  case (st_insert db t d k ty pl c e)
  show ?case unfolding insert_job_def
    by (rule exec_snd_cases [where Q = "jobs_follow T db"]) (auto intro: jobs_follow_intros)
next
  case (st_claim db t p j c e)
  show ?case unfolding claim_update_def Let_def
    by (rule exec_snd_cases [where Q = "jobs_follow T db"])
      (auto simp: claimable_def intro!: jobs_follow_intros follow_claim)
next
  case (st_complete db t j ok res err now)
  show ?case unfolding Complete_def
    by (rule exec_snd_cases [where Q = "jobs_follow T db"])
      (auto intro!: jobs_follow_intros follow_finish)
next
  case (st_complete_by db t p j ok res err now)
  show ?case unfolding CompleteClaimedBy_def Let_def
    by (rule exec_snd_cases [where Q = "jobs_follow T db"])
      (auto simp: owned_by_def intro!: jobs_follow_intros follow_finish)
next
  case (st_cancel db t j now)
  show ?case unfolding Cancel_job_def
    by (rule exec_snd_cases [where Q = "jobs_follow T db"])
      (auto intro!: jobs_follow_intros follow_cancel)
next
  case (st_reclaim now db)
  then show ?case unfolding ReclaimExpired_def
    by (intro exec_snd_cases [where Q = "jobs_follow T db"])
      (auto intro!: jobs_follow_intros follow_reclaim)
next
  case (st_delete db t i)
  show ?case unfolding Delete_poller_def Let_def
    by (rule exec_snd_cases [where Q = "jobs_follow T db"])
      (auto intro!: jobs_follow_intros follow_orphan)
qed (auto simp: Authenticate_poller_jobs Register_jobs intro: jobs_follow_intros)

lemma pj_steps_follow: "(pj_step T)\<^sup>*\<^sup>* db s \<Longrightarrow> jobs_follow T db s"
proof (induction rule: rtranclp_induct)
  case base
  show ?case by (rule jobs_follow_intros)
next
  case (step s u)
  show ?case
    by (rule rows_follow_trans [OF step(3) pj_step_follow [OF step(2)] job_follow_trans])
qed

section \<open>The wire protocol's view of the queue\<close>

text \<open>
  \<open>wireJobs\<close>, the interface \<open>WireService\<close> and the gRPC server call, with what the queue
  promises them: \<open>holds t p j\<close> says that job \<open>j\<close> of tenant \<open>t\<close> is finished, or leased to
  poller \<open>p\<close> or (after \<open>p\<close> was deleted) to nobody; \<open>covers\<close> that a lease outlives the
  reclaims considered; \<open>later\<close> relates the states other callers' steps lead to.
\<close>

locale wire_jobs =
  fixes claim :: "int \<Rightarrow> int \<Rightarrow> JobType list \<Rightarrow> time \<Rightarrow> 'db \<Rightarrow> (pj_error + Job) \<times> 'db"
    and complete :: "int \<Rightarrow> int \<Rightarrow> int \<Rightarrow> bool \<Rightarrow> string \<Rightarrow> string \<Rightarrow> time \<Rightarrow> 'db
      \<Rightarrow> (pj_error + unit) \<times> 'db"
    and holds :: "int \<Rightarrow> int \<Rightarrow> int \<Rightarrow> 'db \<Rightarrow> bool"
    and closed :: "int \<Rightarrow> 'db \<Rightarrow> bool"
    and covers :: "time option \<Rightarrow> bool"
    and later :: "'db \<Rightarrow> 'db \<Rightarrow> bool"
    and inv :: "'db \<Rightarrow> bool"
  assumes inv_later: "inv db \<Longrightarrow> later db db' \<Longrightarrow> inv db'"
    and claim_holds: "inv db \<Longrightarrow> claim t p ts now db = (Inr j, db') \<Longrightarrow> covers (j_ExpiresAt j) \<Longrightarrow>
      inv db' \<and> holds t p (j_ID j) db'"
    and holds_later: "later db db' \<Longrightarrow> holds t p i db \<Longrightarrow> holds t p i db'"
    and claim_other: "inv db \<Longrightarrow> holds t p i db \<Longrightarrow> claim t' q ts now db = (Inr j, db') \<Longrightarrow>
      j_ID j \<noteq> i"
    and complete_owner: "inv db \<Longrightarrow> holds t p i db \<Longrightarrow>
      complete t' q i ok res err now db = (Inr (), db') \<Longrightarrow> t' = t \<and> q = p"
    and complete_closes: "inv db \<Longrightarrow> complete t p i ok res err now db = (Inr (), db') \<Longrightarrow>
      inv db' \<and> closed i db'"
    and closed_later: "later db db' \<Longrightarrow> closed i db \<Longrightarrow> closed i db'"
    and closed_complete: "inv db \<Longrightarrow> closed i db \<Longrightarrow>
      complete t p i ok res err now db \<noteq> (Inr (), db')"
begin

text \<open>A claimed job is not handed out again, and nobody else's report on it is accepted.\<close>

lemma exclusive:
  assumes "inv db0" and "claim t p ts now db0 = (Inr j, db1)" and "covers (j_ExpiresAt j)"
    and "later db1 db2"
  shows "claim t' q ts' now' db2 = (Inr j', db3) \<Longrightarrow> j_ID j' \<noteq> j_ID j"
    and "complete t' q (j_ID j) ok res err now' db2 = (Inr (), db3) \<Longrightarrow> t' = t \<and> q = p"
proof -
  have h: "inv db2" "holds t p (j_ID j) db2"
    using claim_holds [OF assms(1-3)] assms(4) by (auto intro: inv_later holds_later)
  show "claim t' q ts' now' db2 = (Inr j', db3) \<Longrightarrow> j_ID j' \<noteq> j_ID j"
    by (rule claim_other [OF h])
  show "complete t' q (j_ID j) ok res err now' db2 = (Inr (), db3) \<Longrightarrow> t' = t \<and> q = p"
    by (rule complete_owner [OF h])
qed

text \<open>A result is accepted once.\<close>

lemma report_once:
  assumes "inv db0" and "complete t p i ok res err now db0 = (Inr (), db1)" and "later db1 db2"
  shows "complete t' q i ok' res' err' now' db2 \<noteq> (Inr (), db3)"
proof -
  have "inv db2" "closed i db2"
    using complete_closes [OF assms(1,2)] assms(3) by (auto intro: inv_later closed_later)
  then show ?thesis by (rule closed_complete)
qed

end

definition job_holds :: "stamp \<Rightarrow> int \<Rightarrow> int \<Rightarrow> int \<Rightarrow> poller_db \<Rightarrow> bool" where
  "job_holds T t p i db \<longleftrightarrow> (\<exists>r \<in> set (rows (poller_jobs db)). jb_id r = i \<and> jb_tenant r = t \<and>
     (finished r \<or> leased T r \<and> (jb_poller r = Some p \<or> jb_poller r = None)))"

definition job_closed :: "int \<Rightarrow> poller_db \<Rightarrow> bool" where
  "job_closed i db \<longleftrightarrow> (\<exists>r \<in> set (rows (poller_jobs db)). jb_id r = i \<and> finished r)"

definition lease_covers :: "stamp \<Rightarrow> time option \<Rightarrow> bool" where
  "lease_covers T e \<longleftrightarrow> (case e of None \<Rightarrow> True | Some t \<Rightarrow> of_stamp T \<le> t)"

lemma of_stamp_le_iff [simp]: "of_stamp a \<le> of_stamp b \<longleftrightarrow> a \<le> b"
  by (simp add: of_stamp_def second_def)

lemma job_holds_later: "(pj_step T)\<^sup>*\<^sup>* db db' \<Longrightarrow> job_holds T t p i db \<Longrightarrow> job_holds T t p i db'"
proof -
  assume "(pj_step T)\<^sup>*\<^sup>* db db'" "job_holds T t p i db"
  then obtain r where r: "r \<in> set (rows (poller_jobs db))" "jb_id r = i" "jb_tenant r = t"
    "finished r \<or> leased T r \<and> (jb_poller r = Some p \<or> jb_poller r = None)"
    and f: "jobs_follow T db db'"
    by (auto simp: job_holds_def dest: pj_steps_follow)
  from f r(1) obtain r' where r': "r' \<in> set (rows (poller_jobs db'))" "job_follow T r r'"
    by (rule rows_followE)
  then have "finished r' \<or> leased T r' \<and> (jb_poller r' = Some p \<or> jb_poller r' = None)"
    using r(4) finished_cong [of r r'] by (auto simp: job_follow_def)
  with r r' show ?thesis by (auto simp: job_holds_def job_follow_def)
qed

lemma job_closed_later: "(pj_step T)\<^sup>*\<^sup>* db db' \<Longrightarrow> job_closed i db \<Longrightarrow> job_closed i db'"
proof -
  assume "(pj_step T)\<^sup>*\<^sup>* db db'" "job_closed i db"
  then obtain r where r: "r \<in> set (rows (poller_jobs db))" "jb_id r = i" "finished r"
    and f: "jobs_follow T db db'"
    by (auto simp: job_closed_def dest: pj_steps_follow)
  from f r(1) obtain r' where r': "r' \<in> set (rows (poller_jobs db'))" "job_follow T r r'"
    by (rule rows_followE)
  with r finished_cong [of r r'] show ?thesis by (auto simp: job_closed_def job_follow_def)
qed

lemma claim_select_post:
  "post (\<lambda>x s. (\<exists>fs. s = db\<lparr>faults := fs\<rparr>) \<and> (\<forall>r. x = Inr r \<longrightarrow>
      r \<in> set (rows (poller_jobs db)) \<and> jb_tenant r = t \<and> jb_status r = JobQueued \<and>
      jb_type r \<in> set ts \<and>
      (\<forall>q \<in> set (rows (poller_jobs db)). jb_tenant q = t \<and> jb_status q = JobQueued \<and>
         jb_type q \<in> set ts \<longrightarrow> jb_created_at r \<le> jb_created_at q)))
    (claim_select t ts db)"
proof -
  have first: "order_asc jb_created_at (filter P xs) = r # rs \<Longrightarrow> q \<in> set xs \<Longrightarrow> P q \<Longrightarrow>
      jb_created_at r \<le> jb_created_at q" for q r rs P and xs :: "job_row list"
  proof -
    assume q: "q \<in> set xs" "P q" and o: "order_asc jb_created_at (filter P xs) = r # rs"
    from q have "q \<in> set (filter P xs)" by simp
    then have "q \<in> set (r # rs)" unfolding o [symmetric] by simp
    moreover have "sorted (map jb_created_at (r # rs))"
      by (metis o order_asc_def sorted_sort_key)
    ultimately show ?thesis by auto
  qed
  have mem: "order_asc jb_created_at (filter P xs) = r # rs \<Longrightarrow> r \<in> set xs \<and> P r"
    for r rs P and xs :: "job_row list"
    using set_order(1) [of jb_created_at "filter P xs"] by auto
  show ?thesis
    unfolding claim_select_def
    by (rule post_exec) (auto split: list.splits dest: mem first)
qed

lemma claim_update_post:
  "post (\<lambda>x s. x = Inr () \<longrightarrow> pollers s = pollers db \<and>
      (\<exists>r \<in> set (rows (poller_jobs db)). claimable t p i (pollers db) r) \<and>
      poller_jobs s = update_rows (claimable t p i (pollers db)) (\<lambda>r. r\<lparr>jb_status := JobClaimed,
        jb_poller := Some p, jb_claimed_at := Some c, jb_expires_at := e\<rparr>) (poller_jobs db))
    (claim_update t p i c e db)"
  unfolding claim_update_def Let_def by (rule post_exec) (auto simp: affected_0_iff)

lemma Get_job_post:
  "post (\<lambda>x s. (\<exists>fs. s = db\<lparr>faults := fs\<rparr>) \<and> (\<forall>j. x = Inr j \<longrightarrow>
      (\<exists>r \<in> set (rows (poller_jobs db)). j = scanJob r \<and> jb_tenant r = t \<and> jb_id r = i)))
    (Get_job t i db)"
  unfolding Get_job_def by (rule post_exec) (auto split: option.splits dest: query_row_SomeD)

text \<open>A successful \<open>Claim\<close>: the oldest eligible job, now the poller's.\<close>

lemma Claim_ok:
  assumes inv: "pj_inv db" and ok: "Claim t p ts now db = (Inr j, s)"
  obtains r r' where "r \<in> set (rows (poller_jobs db))" "jb_tenant r = t" "jb_status r = JobQueued"
    "\<And>q. q \<in> set (rows (poller_jobs db)) \<Longrightarrow> jb_tenant q = t \<Longrightarrow> jb_status q = JobQueued \<Longrightarrow>
       ts = [] \<and> jb_type q \<in> {JobTypeBackup, JobTypeProbe, JobTypeCustom} \<or> jb_type q \<in> set ts \<Longrightarrow>
       jb_created_at r \<le> jb_created_at q"
    "r' \<in> set (rows (poller_jobs s))" "j = scanJob r'"
    "r' = r\<lparr>jb_status := JobClaimed, jb_poller := Some p, jb_claimed_at := Some (rfc3339 now),
       jb_expires_at := (case jb_expires_at r of None \<Rightarrow> None
          | Some e \<Rightarrow> computeNewExpiresAt (jb_created_at r) e now)\<rparr>"
    "pj_inv s"
proof -
  define types where "types = (if length ts = 0 then [JobTypeBackup, JobTypeProbe, JobTypeCustom]
    else ts)"
  define exp where "exp = (\<lambda>r :: job_row. case jb_expires_at r of None \<Rightarrow> None
    | Some e \<Rightarrow> computeNewExpiresAt (jb_created_at r) e now)"
  have claim: "Claim t p ts now db = and_then (claim_select t types db) (\<lambda>job db.
      and_then (claim_update t p (jb_id job) (rfc3339 now) (exp job) db)
        (\<lambda>_ db. Get_job t (jb_id job) db))"
    by (simp add: Claim_def types_def exp_def Let_def)
  obtain x1 db1 where s1: "claim_select t types db = (x1, db1)" by fastforce
  obtain r where r: "x1 = Inr r"
    using ok s1 by (cases x1) (auto simp: claim)
  obtain x2 db2 where s2: "claim_update t p (jb_id r) (rfc3339 now) (exp r) db1 = (x2, db2)"
    by fastforce
  have "x2 = Inr ()"
    using ok s1 s2 r by (cases x2) (auto simp: claim)
  with ok s1 s2 r have g: "Get_job t (jb_id r) db2 = (Inr j, s)"
    by (simp add: claim)
  from postD [OF claim_select_post s1] r obtain fs where db1: "db1 = db\<lparr>faults := fs\<rparr>"
    and rin: "r \<in> set (rows (poller_jobs db))" "jb_tenant r = t" "jb_status r = JobQueued"
    and least: "\<forall>q \<in> set (rows (poller_jobs db)). jb_tenant q = t \<and> jb_status q = JobQueued \<and>
         jb_type q \<in> set types \<longrightarrow> jb_created_at r \<le> jb_created_at q"
    by auto
  let ?f = "\<lambda>r. r\<lparr>jb_status := JobClaimed, jb_poller := Some p, jb_claimed_at := Some (rfc3339 now),
    jb_expires_at := exp r\<rparr>"
  let ?P = "claimable t p (jb_id r) (pollers db)"
  from postD [OF claim_update_post s2] \<open>x2 = Inr ()\<close> db1 obtain q where
    q: "q \<in> set (rows (poller_jobs db))" "?P q"
    and jobs: "poller_jobs db2 = update_rows ?P (\<lambda>q. q\<lparr>jb_status := JobClaimed,
       jb_poller := Some p, jb_claimed_at := Some (rfc3339 now), jb_expires_at := exp r\<rparr>)
       (poller_jobs db)"
    by auto
  have wf: "wf_table jb_id (poller_jobs db)" using inv by (simp add: pj_inv_def)
  have "q = r" using wf_table_unique [OF wf q(1) rin(1)] q(2) by (simp add: claimable_def)
  with q have Pr: "?P r" by simp
  have inv2: "pj_inv db2"
    using postD [OF claim_update_inv s2] inv db1 by simp
  from postD [OF Get_job_post g] obtain fs' u where s: "s = db2\<lparr>faults := fs'\<rparr>"
    and u: "u \<in> set (rows (poller_jobs db2))" "j = scanJob u" "jb_id u = jb_id r"
    by auto
  have "?f r \<in> set (rows (poller_jobs db2))"
    using rin(1) Pr by (force simp: jobs)
  with u(1,3) inv2 have "u = ?f r"
    by (auto simp: pj_inv_def intro: wf_table_unique)
  with u s inv2 rin least that show thesis
    by (auto simp: types_def exp_def split: if_splits)
qed

lemma Claim_known:
  assumes "Claim t p ts now db = (Inr j, s)"
  shows "poller_known (pollers db) t p \<and> j_TenantID j = t"
proof -
  let ?ts = "if length ts = 0 then [JobTypeBackup, JobTypeProbe, JobTypeCustom] else ts"
  obtain x1 db1 where s1: "claim_select t ?ts db = (x1, db1)" by fastforce
  obtain r where r: "x1 = Inr r"
    using assms s1 by (cases x1) (auto simp: Claim_def)
  let ?e = "case jb_expires_at r of None \<Rightarrow> None
    | Some e \<Rightarrow> computeNewExpiresAt (jb_created_at r) e now"
  obtain x2 db2 where s2: "claim_update t p (jb_id r) (rfc3339 now) ?e db1 = (x2, db2)"
    by fastforce
  have x2: "x2 = Inr ()" using assms s1 s2 r by (cases x2) (auto simp: Claim_def)
  with assms s1 s2 r have g: "Get_job t (jb_id r) db2 = (Inr j, s)" by (simp add: Claim_def)
  from postD [OF claim_update_post s2] x2 postD [OF claim_select_post s1]
  have "poller_known (pollers db) t p" by (auto simp: claimable_def)
  moreover have "j_TenantID j = t"
    using postD [OF Get_job_post g] by (auto simp: scanJob_def)
  ultimately show ?thesis by simp
qed

lemma CompleteClaimedBy_post:
  "post (\<lambda>x s. x = Inr () \<longrightarrow> (\<exists>r \<in> set (rows (poller_jobs db)). owned_by t p i r) \<and>
      poller_jobs s = update_rows (owned_by t p i) (finish_set ok res err (rfc3339 now))
        (poller_jobs db))
    (CompleteClaimedBy t p i ok res err now db)"
  unfolding CompleteClaimedBy_def Let_def by (rule post_exec) (auto simp: affected_0_iff)

lemma finished_finish_set [simp]: "finished (finish_set ok res err now r)"
  by (simp add: finished_def)

lemma owned_not_finished: "owned_by t p i r \<Longrightarrow> \<not> finished r"
  by (auto simp: owned_by_def finished_def)

interpretation jq: wire_jobs Claim CompleteClaimedBy "job_holds T" job_closed "lease_covers T"
  "(pj_step T)\<^sup>*\<^sup>*" pj_inv for T
proof unfold_locales
  fix db db' assume "pj_inv db" "(pj_step T)\<^sup>*\<^sup>* db db'"
  then show "pj_inv db'" by (blast intro: pj_steps_inv)
next
  fix db t p ts now j db'
  assume cl: "pj_inv db" "Claim t p ts now db = (Inr j, db')" and c: "lease_covers T (j_ExpiresAt j)"
  from cl show "pj_inv db' \<and> job_holds T t p (j_ID j) db'"
  proof (rule Claim_ok)
    fix r r'
    assume r: "jb_tenant r = t" "r' \<in> set (rows (poller_jobs db'))" "j = scanJob r'"
      "r' = r\<lparr>jb_status := JobClaimed, jb_poller := Some p, jb_claimed_at := Some (rfc3339 now),
         jb_expires_at := (case jb_expires_at r of None \<Rightarrow> None
            | Some e \<Rightarrow> computeNewExpiresAt (jb_created_at r) e now)\<rparr>" and inv: "pj_inv db'"
    have "leased T r'"
      using c r by (auto simp: leased_def lease_covers_def scanJob_def split: option.splits)
    then have "job_holds T t p (j_ID j) db'"
      unfolding job_holds_def using r by (intro bexI [of _ r']) (auto simp: scanJob_def)
    with inv show ?thesis by simp
  qed
next
  fix db db' t p i assume "(pj_step T)\<^sup>*\<^sup>* db db'" "job_holds T t p i db"
  then show "job_holds T t p i db'" by (rule job_holds_later)
next
  fix db t p i t' q ts now j db'
  assume inv: "pj_inv db" and h: "job_holds T t p i db" and "Claim t' q ts now db = (Inr j, db')"
  from inv this(3) show "j_ID j \<noteq> i"
  proof (rule Claim_ok)
    fix r r' assume r: "r \<in> set (rows (poller_jobs db))" "jb_status r = JobQueued" "j = scanJob r'"
      "r' = r\<lparr>jb_status := JobClaimed, jb_poller := Some q, jb_claimed_at := Some (rfc3339 now),
         jb_expires_at := (case jb_expires_at r of None \<Rightarrow> None
            | Some e \<Rightarrow> computeNewExpiresAt (jb_created_at r) e now)\<rparr>"
    have "\<not> finished r" "\<not> leased T r" using r(2) by (auto simp: finished_def leased_def)
    then show "j_ID j \<noteq> i"
      using h inv r wf_table_unique [of jb_id "poller_jobs db" r]
      by (auto simp: job_holds_def scanJob_def pj_inv_def)
  qed
next
  fix db t p i t' q ok res err now db'
  assume inv: "pj_inv db" and h: "job_holds T t p i db"
    and c: "CompleteClaimedBy t' q i ok res err now db = (Inr (), db')"
  from postD [OF CompleteClaimedBy_post c] obtain r where
    r: "r \<in> set (rows (poller_jobs db))" "owned_by t' q i r"
    by auto
  from h obtain r2 where r2: "r2 \<in> set (rows (poller_jobs db))" "jb_id r2 = i" "jb_tenant r2 = t"
    "finished r2 \<or> leased T r2 \<and> (jb_poller r2 = Some p \<or> jb_poller r2 = None)"
    by (auto simp: job_holds_def)
  have "r2 = r"
    using inv r r2 by (auto simp: pj_inv_def owned_by_def intro: wf_table_unique)
  with r r2 owned_not_finished [OF r(2)] show "t' = t \<and> q = p" by (auto simp: owned_by_def)
next
  fix db t p i ok res err now db'
  assume inv: "pj_inv db" and c: "CompleteClaimedBy t p i ok res err now db = (Inr (), db')"
  from postD [OF CompleteClaimedBy_post c] obtain r where
    r: "r \<in> set (rows (poller_jobs db))" "owned_by t p i r" and
    jobs: "poller_jobs db' = update_rows (owned_by t p i) (finish_set ok res err (rfc3339 now))
        (poller_jobs db)"
    by auto
  have "finish_set ok res err (rfc3339 now) r \<in> set (rows (poller_jobs db'))"
    using r by (force simp: jobs)
  moreover have "jb_id (finish_set ok res err (rfc3339 now) r) = i"
    using r(2) by (simp add: owned_by_def)
  ultimately have "job_closed i db'"
    unfolding job_closed_def by (intro bexI [of _ "finish_set ok res err (rfc3339 now) r"]) auto
  with postD [OF CompleteClaimedBy_inv [OF inv] c] show "pj_inv db' \<and> job_closed i db'" by simp
next
  fix db db' i assume "(pj_step T)\<^sup>*\<^sup>* db db'" "job_closed i db"
  then show "job_closed i db'" by (rule job_closed_later)
next
  fix db t p i ok res err now db'
  assume inv: "pj_inv db" and f: "job_closed i db"
  show "CompleteClaimedBy t p i ok res err now db \<noteq> (Inr (), db')"
  proof
    assume c: "CompleteClaimedBy t p i ok res err now db = (Inr (), db')"
    from postD [OF CompleteClaimedBy_post c] obtain r where
      r: "r \<in> set (rows (poller_jobs db))" "owned_by t p i r"
      by auto
    from f obtain q where q: "q \<in> set (rows (poller_jobs db))" "jb_id q = i" "finished q"
      by (auto simp: job_closed_def)
    have "q = r" using inv r q by (auto simp: pj_inv_def owned_by_def intro: wf_table_unique)
    with q r owned_not_finished [OF r(2)] show False by simp
  qed
qed

section \<open>WireService\<close>

text \<open>\<open>Authenticate\<close> of the adapter, over any registry; \<open>Claim\<close> and \<open>ReportResult\<close> pass on.\<close>

definition wire_Authenticate ::
  "(int \<Rightarrow> string \<Rightarrow> string \<Rightarrow> 'db \<Rightarrow> (pj_error + Poller) \<times> 'db) \<Rightarrow> duration \<Rightarrow> int \<Rightarrow> string \<Rightarrow>
    string \<Rightarrow> time \<Rightarrow> 'db \<Rightarrow> (pj_error + (Poller \<times> time)) \<times> 'db" where
  "wire_Authenticate auth leaseTTL tenantID name token now db =
     and_then (auth tenantID name token db) (\<lambda>p db.
       let ttl = (if leaseTTL \<le> 0 then 2 * minute else leaseTTL)
       in (Inr (p, now + ttl), db))"

definition ParseJobTypes :: "string list \<Rightarrow> JobType list" where
  "ParseJobTypes types =
     (if length types = 0 then []
      else filter (\<lambda>t. t = JobTypeBackup \<or> t = JobTypeProbe \<or> t = JobTypeCustom) types)"

text \<open>
  \<open>computeNewExpiresAt\<close> keeps the time to live of a first claim. A reclaimed job keeps its
  shifted expiry, so its next claim measures the time to live from the creation again and
  adds the time the job had waited.
\<close>

lemma ttl_of_first_claim:
  "c < e \<Longrightarrow> computeNewExpiresAt c e now = Some (rfc3339 now + (e - c))"
proof -
  assume "c < e"
  then have "computeNewExpiresAt c e now = Some (rfc3339 (now + (e - c) * second))"
    by (auto simp: computeNewExpiresAt_def Let_def of_stamp_def second_def left_diff_distrib)
  then show ?thesis by (simp add: rfc3339_add_seconds)
qed

lemma ttl_grows_on_reclaim:
  assumes "c < e" and "computeNewExpiresAt c e t1 = Some e1" and "c < e1"
  shows "computeNewExpiresAt c e1 t2 = Some (rfc3339 t2 + (e - c) + (rfc3339 t1 - c))"
  using assms ttl_of_first_claim [of c e t1] ttl_of_first_claim [of c e1 t2] by simp

section \<open>Properties\<close>

definition demo_pollers :: poller_db where
  "demo_pollers = \<lparr>faults = [], last_rowid = 0, poller_jobs = empty_table,
     pollers = \<lparr>rows = [\<lparr>pl_id = 1, pl_tenant = 1, pl_zone = ''z'', pl_name = ''a'', pl_hash = '''',
       pl_last_seen = None, pl_created_at = 0\<rparr>], rowseq = 1\<rparr>\<rparr>"

definition demo_queue :: poller_db where
  "demo_queue =
     snd (Enqueue 1 5 '''' ''{}'' ''k2'' (60 * second) None second
       (snd (Enqueue 1 4 '''' ''{}'' ''k1'' (60 * second) None 0 demo_pollers)))"

lemma demo_queue_inv: "pj_inv demo_queue"
  by (simp add: demo_queue_def demo_pollers_def Enqueue_def Let_def insert_job_def query_row_def
      empty_table_def GetByKey_def Get_job_def job_type_defs pj_inv_def wf_table_def job_ok_def
      next_rowid_def insert_row_def job_status_defs)

definition demo_claimed :: poller_db where
  "demo_claimed = snd (Claim 1 1 [] (2 * second) demo_queue)"

lemma demo_claim:
  "Claim 1 1 [] (2 * second) demo_queue =
     (Inr \<lparr>j_ID = 1, j_TenantID = 1, j_PollerID = Some 1, j_IdempotencyKey = ''k1'', j_DeviceID = 4,
        j_JobType = ''backup'', j_Payload = ''{}'', j_Status = ''claimed'',
        j_ClaimedAt = Some (2 * second), j_CompletedAt = None, j_Result = '''', j_Error = '''',
        j_CreatedAt = 0, j_ExpiresAt = Some (62 * second)\<rparr>, demo_claimed)"
proof -
  have "fst (Claim 1 1 [] (2 * second) demo_queue) =
     Inr \<lparr>j_ID = 1, j_TenantID = 1, j_PollerID = Some 1, j_IdempotencyKey = ''k1'', j_DeviceID = 4,
        j_JobType = ''backup'', j_Payload = ''{}'', j_Status = ''claimed'',
        j_ClaimedAt = Some (2 * second), j_CompletedAt = None, j_Result = '''', j_Error = '''',
        j_CreatedAt = 0, j_ExpiresAt = Some (62 * second)\<rparr>"
    by code_simp
  then show ?thesis by (simp add: demo_claimed_def prod_eq_iff)
qed

text \<open>C5: Leases are exclusive. From a successful \<open>Claim\<close> of a job on, as long as the reclaims
  run at clocks before the lease's expiry, no \<open>Claim\<close> hands the job out again and no report
  on it by another poller or tenant is accepted, whatever statements of other callers
  come in between.\<close>

theorem lease_exclusive:
  assumes "pj_inv db0" and "Claim t p ts now db0 = (Inr j, db1)" and "lease_covers T (j_ExpiresAt j)"
    and "(pj_step T)\<^sup>*\<^sup>* db1 db2"
  shows "(\<forall>t' q ts' now' j' db3. Claim t' q ts' now' db2 = (Inr j', db3) \<longrightarrow> j_ID j' \<noteq> j_ID j) \<and>
    (\<forall>t' q ok res err now' db3.
       CompleteClaimedBy t' q (j_ID j) ok res err now' db2 = (Inr (), db3) \<longrightarrow> t' = t \<and> q = p)"
  using jq.exclusive [OF assms] by blast

theorem lease_exclusive_witness:
  "\<forall>s. CompleteClaimedBy 1 2 1 True '''' '''' (9 * second) (snd (ReclaimExpired (8 * second) demo_claimed))
     \<noteq> (Inr (), s)"
proof -
  have c: "lease_covers 8 (Some (62 * second))"
    by (simp add: lease_covers_def of_stamp_def second_def)
  have st: "(pj_step 8)\<^sup>*\<^sup>* demo_claimed (snd (ReclaimExpired (8 * second) demo_claimed))"
    by (intro r_into_rtranclp st_reclaim) (simp add: rfc3339_def second_def)
  from lease_exclusive [OF demo_queue_inv demo_claim _ st] c show ?thesis by force
qed

text \<open>C6: A result is accepted once: after a report on a job succeeded no later report on it does.\<close>

theorem result_accepted_once:
  assumes "pj_inv db0" and "CompleteClaimedBy t p i ok res err now db0 = (Inr (), db1)"
    and "(pj_step T)\<^sup>*\<^sup>* db1 db2"
  shows "CompleteClaimedBy t' q i ok' res' err' now' db2 \<noteq> (Inr (), db3)"
  by (rule jq.report_once [OF assms])

theorem result_accepted_once_witness:
  "\<forall>s. CompleteClaimedBy 1 1 1 False '''' ''x'' 0
     (snd (CompleteClaimedBy 1 1 1 True ''{}'' '''' 0 demo_claimed)) \<noteq> (Inr (), s)"
proof -
  have "pj_inv demo_claimed"
    using jq.claim_holds [OF demo_queue_inv demo_claim, of 0]
    by (simp add: lease_covers_def of_stamp_def second_def)
  moreover have "fst (CompleteClaimedBy 1 1 1 True ''{}'' '''' 0 demo_claimed) = Inr ()"
    by code_simp
  then have "CompleteClaimedBy 1 1 1 True ''{}'' '''' 0 demo_claimed =
      (Inr (), snd (CompleteClaimedBy 1 1 1 True ''{}'' '''' 0 demo_claimed))"
    by (simp add: prod_eq_iff)
  ultimately show ?thesis
    using result_accepted_once [OF _ _ rtranclp.rtrancl_refl] by blast
qed

text \<open>Enqueueing an existing idempotency key adds no job. What it returns is decided by the
  connection's \<open>last_insert_rowid()\<close>, which the ignored insertion leaves as it was: only on a
  fresh connection is it the existing job.\<close>

theorem enqueue_existing_key:
  assumes "0 < t" and "0 < d" and "k \<noteq> ''''" and "faults db = []"
    and "ty \<in> {'''', JobTypeBackup, JobTypeProbe, JobTypeCustom}"
    and "r \<in> set (rows (poller_jobs db))" and "jb_key r = k"
  shows "Enqueue t d ty pl k ttl rnd now db =
      (if last_rowid db = 0 then GetByKey k db else Get_job t (last_rowid db) db) \<and>
    poller_jobs (snd (Enqueue t d ty pl k ttl rnd now db)) = poller_jobs db"
proof -
  have "query_row (\<lambda>r. jb_key r = k) (poller_jobs db) \<noteq> None"
    using assms(6,7) by (auto simp: query_row_None)
  then have "Enqueue t d ty pl k ttl rnd now db =
      (if last_rowid db = 0 then GetByKey k db else Get_job t (last_rowid db) db)"
    using assms by (auto simp: Enqueue_def Let_def insert_job_def)
  moreover have "poller_jobs (snd (if last_rowid db = 0 then GetByKey k db
      else Get_job t (last_rowid db) db)) = poller_jobs db"
    using assms(4) by (simp add: GetByKey_def Get_job_def split: option.split)
  ultimately show ?thesis by simp
qed

theorem enqueue_existing_key_witness:
  "map_sum id j_IdempotencyKey (fst (Enqueue 1 4 '''' ''{}'' ''k1'' 0 None 0 demo_queue)) = Inr ''k2''"
proof -
  have r: "hd (rows (poller_jobs demo_queue)) \<in> set (rows (poller_jobs demo_queue))"
    "jb_key (hd (rows (poller_jobs demo_queue))) = ''k1''"
    "faults demo_queue = []" "last_rowid demo_queue = 2"
    "map_sum id j_IdempotencyKey (fst (Get_job 1 2 demo_queue)) = Inr ''k2''"
    by code_simp+
  show ?thesis
    using enqueue_existing_key [of 1 4 "''k1''" demo_queue "''''", OF _ _ _ r(3) _ r(1,2)] r(4,5)
    by simp
qed

end
