(* ===== verification/WireServer.thy ===== *)
theory WireServer
  imports PollerJobs
begin

text \<open>
  The poller gRPC service of \<open>internal/server/grpc.go\<close>: its sessions and nonce cache and the
  five RPC handlers, over the wire adapter and the queue of \<open>PollerJobs\<close>. A handler takes
  the values of the request's \<open>authorization\<close> metadata and the instants of its
  \<open>time.Now()\<close> calls. The mutex makes each helper one atomic step. SHA-256 (\<open>digest\<close>)
  and bcrypt (\<open>cmphash\<close>) are parameters; nothing below needs them to be injective.
\<close>

section \<open>State and messages\<close>

record pollerSession =
  s_TenantID :: int
  s_PollerID :: int
  s_Token :: string
  s_Expires :: time

record rpc_server =
  rpc_db :: poller_db
  sessions :: "int \<Rightarrow> pollerSession option"
  nonces :: "string \<Rightarrow> time option"
  nonceGC :: time

datatype rpc_error =
    InvalidArgument string
  | Unauthenticated string
  | PermissionDenied string
  | NotFound string
  | Internal string

record AuthenticateRequest =
  ar_TenantId :: int
  ar_PollerName :: string
  ar_ClientTime :: "time option"
  ar_Nonce :: string

record AuthenticateResponse =
  as_Id :: int
  as_TenantId :: int
  as_Zone :: string
  as_Name :: string
  as_LastSeen :: "time option"
  as_RefreshBefore :: time

record ClaimedJob =
  cj_Id :: int
  cj_TenantId :: int
  cj_IdempotencyKey :: string
  cj_DeviceId :: int
  cj_JobType :: string
  cj_PayloadJson :: string
  cj_CreatedAt :: time
  cj_ExpiresAt :: "time option"
  cj_Deadline :: "duration option"

record GRPCConfig =
  g_Address :: string
  g_TLSCertFile :: string
  g_TLSKeyFile :: string
  g_TLSClientCAFile :: string

text \<open>\<open>err.Error()\<close>.\<close>

definition pj_error_text :: "pj_error \<Rightarrow> string" where
  "pj_error_text e = (case e of NoRows \<Rightarrow> ''sql: no rows in result set''
     | PollerErr s \<Rightarrow> ''poller: '' @ s | PollerDB s \<Rightarrow> s)"

section \<open>Sessions and nonces\<close>

definition bearerTokenFromMetadata :: "string list \<Rightarrow> string" where
  "bearerTokenFromMetadata auths =
     (case auths of [] \<Rightarrow> ''''
      | a # _ \<Rightarrow>
          (let h = trim_space a; prefix = ''Bearer ''
           in if \<not> has_prefix h prefix then '''' else trim_space (drop (length prefix) h)))"

definition recordSession :: "int \<Rightarrow> int \<Rightarrow> string \<Rightarrow> time \<Rightarrow> rpc_server \<Rightarrow> rpc_server" where
  "recordSession tenantID pollerID token expires s =
     s\<lparr>sessions := (sessions s)(pollerID \<mapsto>
        \<lparr>s_TenantID = tenantID, s_PollerID = pollerID, s_Token = token, s_Expires = expires\<rparr>)\<rparr>"

definition purgeExpiredSessionsLocked :: "time \<Rightarrow> rpc_server \<Rightarrow> rpc_server" where
  "purgeExpiredSessionsLocked now s =
     s\<lparr>sessions := (\<lambda>i. case sessions s i of None \<Rightarrow> None
         | Some x \<Rightarrow> if s_Expires x \<noteq> zero_time \<and> s_Expires x < now then None else Some x)\<rparr>"

definition requireSession ::
  "string list \<Rightarrow> int \<Rightarrow> int \<Rightarrow> time \<Rightarrow> rpc_server \<Rightarrow> rpc_error option \<times> rpc_server" where
  "requireSession auths tenantID pollerID now s0 =
     (let token = bearerTokenFromMetadata auths
      in if token = '''' then (Some (Unauthenticated ''missing bearer token''), s0)
         else let s = purgeExpiredSessionsLocked now s0
         in case sessions s pollerID of
              None \<Rightarrow> (Some (Unauthenticated ''no active poller session; call Authenticate''), s)
            | Some x \<Rightarrow>
                if s_TenantID x \<noteq> tenantID then
                  (Some (PermissionDenied ''poller is not registered for tenant''), s)
                else if s_Token x \<noteq> token then
                  (Some (Unauthenticated ''bearer token does not match poller session''), s)
                else (None, s))"

definition nonceCacheKey :: "(string \<Rightarrow> string) \<Rightarrow> int \<Rightarrow> string \<Rightarrow> string \<Rightarrow> string" where
  "nonceCacheKey digest tenantID pollerName nonce =
     hex_encode (digest (itoa tenantID @ [CHR 0x00] @ pollerName @ [CHR 0x00] @ nonce))"

definition tryUseNonce ::
  "(string \<Rightarrow> string) \<Rightarrow> int \<Rightarrow> string \<Rightarrow> string \<Rightarrow> time \<Rightarrow> rpc_server \<Rightarrow> bool \<times> rpc_server" where
  "tryUseNonce digest tenantID pollerName nonce now s0 =
     (let ttl = 60 * second;
          s = (if nonceGC s0 = zero_time \<or> nonceGC s0 < now
               then s0\<lparr>nonces := (\<lambda>k. case nonces s0 k of None \<Rightarrow> None
                       | Some exp \<Rightarrow> if exp < now then None else Some exp),
                       nonceGC := now + 30 * second\<rparr>
               else s0);
          k = nonceCacheKey digest tenantID pollerName nonce
      in if (case nonces s k of None \<Rightarrow> False | Some exp \<Rightarrow> now < exp) then (False, s)
         else (True, s\<lparr>nonces := (nonces s)(k \<mapsto> now + ttl)\<rparr>))"

section \<open>Handlers\<close>

text \<open>The timestamp check, with the \<open>int64\<close> arithmetic of \<open>time.Duration\<close>.\<close>

definition stale :: "time \<Rightarrow> time \<Rightarrow> bool" where
  "stale now clientTime \<longleftrightarrow>
     (let skew = time_sub now clientTime;
          skew = (if skew < 0 then neg_duration skew else skew)
      in 60 * second < skew)"

definition rpc_Authenticate ::
  "(string \<Rightarrow> string) \<Rightarrow> (string \<Rightarrow> string \<Rightarrow> bool) \<Rightarrow> duration \<Rightarrow> string list \<Rightarrow>
    AuthenticateRequest \<Rightarrow> time \<Rightarrow> time \<Rightarrow> time \<Rightarrow> rpc_server
    \<Rightarrow> (rpc_error + AuthenticateResponse) \<times> rpc_server" where
  "rpc_Authenticate digest cmphash leaseTTL auths req now now2 now3 s =
     (if ar_TenantId req \<le> 0 \<or> trim_space (ar_PollerName req) = '''' then
        (Inl (InvalidArgument ''tenant_id and poller_name are required''), s)
      else case ar_ClientTime req of
        None \<Rightarrow> (Inl (InvalidArgument ''client_time is required''), s)
      | Some clientTime \<Rightarrow>
          if length (trim_space (ar_Nonce req)) < 16 then
            (Inl (InvalidArgument ''nonce must be at least 16 bytes''), s)
          else if stale now clientTime then
            (Inl (Unauthenticated ''stale authenticate timestamp''), s)
          else let token = bearerTokenFromMetadata auths
          in if token = '''' then (Inl (Unauthenticated ''missing bearer token''), s)
             else case tryUseNonce digest (ar_TenantId req) (ar_PollerName req) (ar_Nonce req) now s of
               (False, s) \<Rightarrow> (Inl (Unauthenticated ''replayed nonce''), s)
             | (True, s) \<Rightarrow>
                 (case wire_Authenticate (\<lambda>t n tok db. Authenticate_poller cmphash t n tok now2 db)
                     leaseTTL (ar_TenantId req) (ar_PollerName req) token now3 (rpc_db s) of
                    (Inl e, db) \<Rightarrow> (Inl (Unauthenticated (pj_error_text e)), s\<lparr>rpc_db := db\<rparr>)
                  | (Inr (p, refresh), db) \<Rightarrow>
                      (Inr \<lparr>as_Id = p_ID p, as_TenantId = p_TenantID p, as_Zone = p_Zone p,
                            as_Name = p_Name p, as_LastSeen = p_LastSeen p,
                            as_RefreshBefore = refresh\<rparr>,
                       recordSession (p_TenantID p) (p_ID p) token refresh (s\<lparr>rpc_db := db\<rparr>))))"

definition rpc_ClaimJob ::
  "string list \<Rightarrow> int \<Rightarrow> int \<Rightarrow> string list \<Rightarrow> time \<Rightarrow> time \<Rightarrow> rpc_server
    \<Rightarrow> (rpc_error + ClaimedJob) \<times> rpc_server" where
  "rpc_ClaimJob auths tenantID pollerID types now now2 s =
     (if tenantID \<le> 0 \<or> pollerID \<le> 0 then
        (Inl (InvalidArgument ''tenant_id and poller_id are required''), s)
      else case requireSession auths tenantID pollerID now s of
        (Some e, s) \<Rightarrow> (Inl e, s)
      | (None, s) \<Rightarrow>
          (case Claim tenantID pollerID (ParseJobTypes types) now2 (rpc_db s) of
             (Inl NoRows, db) \<Rightarrow> (Inl (NotFound ''no matching queued job''), s\<lparr>rpc_db := db\<rparr>)
           | (Inl e, db) \<Rightarrow> (Inl (Internal (pj_error_text e)), s\<lparr>rpc_db := db\<rparr>)
           | (Inr job, db) \<Rightarrow>
               (Inr \<lparr>cj_Id = j_ID job, cj_TenantId = j_TenantID job,
                     cj_IdempotencyKey = j_IdempotencyKey job, cj_DeviceId = j_DeviceID job,
                     cj_JobType = j_JobType job, cj_PayloadJson = j_Payload job,
                     cj_CreatedAt = j_CreatedAt job, cj_ExpiresAt = j_ExpiresAt job,
                     cj_Deadline = (case (j_ExpiresAt job, j_ClaimedAt job) of
                        (Some e, Some c) \<Rightarrow> Some (time_sub e c) | _ \<Rightarrow> None)\<rparr>,
                s\<lparr>rpc_db := db\<rparr>)))"

definition rpc_ReportResult ::
  "string list \<Rightarrow> int \<Rightarrow> int \<Rightarrow> int \<Rightarrow> bool \<Rightarrow> string \<Rightarrow> string \<Rightarrow> time \<Rightarrow> time \<Rightarrow> rpc_server
    \<Rightarrow> (rpc_error + unit) \<times> rpc_server" where
  "rpc_ReportResult auths tenantID pollerID jobID success resultJSON err now now2 s =
     (if tenantID \<le> 0 \<or> pollerID \<le> 0 \<or> jobID \<le> 0 then
        (Inl (InvalidArgument ''tenant_id, poller_id and job_id are required''), s)
      else case requireSession auths tenantID pollerID now s of
        (Some e, s) \<Rightarrow> (Inl e, s)
      | (None, s) \<Rightarrow>
          (case CompleteClaimedBy tenantID pollerID jobID success resultJSON err now2 (rpc_db s) of
             (Inl NoRows, db) \<Rightarrow>
               (Inl (PermissionDenied ''job is not currently owned by poller''), s\<lparr>rpc_db := db\<rparr>)
           | (Inl e, db) \<Rightarrow> (Inl (Internal (pj_error_text e)), s\<lparr>rpc_db := db\<rparr>)
           | (Inr _, db) \<Rightarrow> (Inr (), s\<lparr>rpc_db := db\<rparr>)))"

text \<open>
  \<open>StreamJobs\<close>: \<open>sends\<close> lists, for each turn of the loop, the error of \<open>stream.Send\<close> and
  whether the context was done before the next tick. The value is the hints sent and the
  error the handler returns; the list ends the turns the client waited for.
\<close>

fun stream_loop :: "string \<Rightarrow> (string option \<times> bool) list \<Rightarrow> string list \<times> string option" where
  "stream_loop jobType [] = ([], None)"
| "stream_loop jobType ((err, ctx_done) # sends) =
     (case err of
        Some e \<Rightarrow> ([], Some e)
      | None \<Rightarrow> if ctx_done then ([jobType], None)
               else (let (hs, r) = stream_loop jobType sends in (jobType # hs, r)))"

definition rpc_StreamJobs ::
  "string list \<Rightarrow> int \<Rightarrow> int \<Rightarrow> string list \<Rightarrow> (string option \<times> bool) list \<Rightarrow> time \<Rightarrow> rpc_server
    \<Rightarrow> (rpc_error + (string list \<times> string option)) \<times> rpc_server" where
  "rpc_StreamJobs auths tenantID pollerID types sends now s =
     (if tenantID \<le> 0 \<or> pollerID \<le> 0 then
        (Inl (InvalidArgument ''tenant_id and poller_id are required''), s)
      else case requireSession auths tenantID pollerID now s of
        (Some e, s) \<Rightarrow> (Inl e, s)
      | (None, s) \<Rightarrow>
          (let jobType = (case types of [] \<Rightarrow> ''backup''
                 | t # _ \<Rightarrow> if trim_space t \<noteq> '''' then t else ''backup'')
           in (Inr (stream_loop jobType sends), s)))"

definition rpc_Health ::
  "string list \<Rightarrow> int \<Rightarrow> int \<Rightarrow> time \<Rightarrow> time \<Rightarrow> rpc_server
    \<Rightarrow> (rpc_error + (bool \<times> string \<times> time)) \<times> rpc_server" where
  "rpc_Health auths tenantID pollerID now now2 s =
     (if tenantID \<le> 0 \<or> pollerID \<le> 0 then
        (Inl (InvalidArgument ''tenant_id and poller_id are required''), s)
      else case requireSession auths tenantID pollerID now s of
        (Some e, s) \<Rightarrow> (Inl e, s)
      | (None, s) \<Rightarrow> (Inr (True, ''poller wire listener active'', now2), s))"

text \<open>\<open>loadMTLSConfig\<close>, over the functions that read the files; the result names the settings.\<close>

definition loadMTLSConfig ::
  "(string \<Rightarrow> string \<Rightarrow> string + 'cert) \<Rightarrow> (string \<Rightarrow> string + string) \<Rightarrow> (string \<Rightarrow> 'pool option) \<Rightarrow>
    GRPCConfig \<Rightarrow> string + ('cert \<times> 'pool \<times> string \<times> string)" where
  "loadMTLSConfig loadKeyPair readFile parsePEM cfg =
     (if g_TLSCertFile cfg = '''' \<or> g_TLSKeyFile cfg = '''' \<or> g_TLSClientCAFile cfg = '''' then
        Inl ''grpc: tls_cert_file, tls_key_file and tls_client_ca_file are required''
      else case loadKeyPair (g_TLSCertFile cfg) (g_TLSKeyFile cfg) of
        Inl e \<Rightarrow> Inl (''grpc: load server certificate: '' @ e)
      | Inr cert \<Rightarrow>
          (case readFile (g_TLSClientCAFile cfg) of
             Inl e \<Rightarrow> Inl (''grpc: read client ca file: '' @ e)
           | Inr pem \<Rightarrow>
               (case parsePEM pem of
                  None \<Rightarrow> Inl ''grpc: parse client ca file''
                | Some pool \<Rightarrow> Inr (cert, pool, ''RequireAndVerifyClientCert'', ''TLS13''))))"

section \<open>Replays\<close>

text \<open>
  What the timestamp check accepts: clocks within a minute, and, as the difference saturates
  and the least \<open>int64\<close> negates to itself, any client time at least \<open>2^63\<close> ns (292 years)
  ahead of the server.
\<close>

lemma not_stale_iff:
  "\<not> stale now ct \<longleftrightarrow> \<bar>now - ct\<bar> \<le> 60 * second \<or> now + 2 ^ 63 \<le> ct"
  by (auto simp: stale_def Let_def time_sub_def neg_duration_def min_duration_def max_duration_def
      second_def)

text \<open>A nonce that stays in the cache at least until \<open>B\<close>.\<close>

definition nonce_held :: "string \<Rightarrow> time \<Rightarrow> rpc_server \<Rightarrow> bool" where
  "nonce_held k B s \<longleftrightarrow> (\<exists>e. nonces s k = Some e \<and> B \<le> e)"

lemma tryUseNonce_keeps:
  "nonce_held k B s \<Longrightarrow> now < B \<Longrightarrow> nonce_held k B (snd (tryUseNonce d t n x now s))"
  by (auto simp: tryUseNonce_def Let_def nonce_held_def split: option.splits)

lemma tryUseNonce_rejects:
  "nonce_held (nonceCacheKey d t n x) B s \<Longrightarrow> now < B \<Longrightarrow> fst (tryUseNonce d t n x now s) = False"
  by (auto simp: tryUseNonce_def Let_def nonce_held_def split: option.splits)

lemma tryUseNonce_holds:
  "fst (tryUseNonce d t n x now s) \<Longrightarrow>
   nonce_held (nonceCacheKey d t n x) (now + 60 * second) (snd (tryUseNonce d t n x now s))"
  by (auto simp: tryUseNonce_def Let_def nonce_held_def split: option.splits if_splits)

lemma tryUseNonce_frame [simp]:
  "rpc_db (snd (tryUseNonce d t n x now s)) = rpc_db s"
  "sessions (snd (tryUseNonce d t n x now s)) = sessions s"
  by (auto simp: tryUseNonce_def Let_def)

lemma requireSession_frame [simp]:
  "nonces (snd (requireSession auths t p now s)) = nonces s"
  "rpc_db (snd (requireSession auths t p now s)) = rpc_db s"
  by (auto simp: requireSession_def Let_def purgeExpiredSessionsLocked_def split: option.splits)

lemma recordSession_simps [simp]:
  "nonces (recordSession t p tok e s) = nonces s" "rpc_db (recordSession t p tok e s) = rpc_db s"
  "sessions (recordSession t p tok e s) = (sessions s)(p \<mapsto>
     \<lparr>s_TenantID = t, s_PollerID = p, s_Token = tok, s_Expires = e\<rparr>)"
  by (simp_all add: recordSession_def)

text \<open>\<open>Authenticate\<close> on each of its paths.\<close>

lemma rpc_Authenticate_cases:
  assumes "rpc_Authenticate d cmp L auths req now now2 now3 s = (x, s')"
  obtains (refused) e where "x = Inl e" "s' = s"
  | (nonce) s1 e where "tryUseNonce d (ar_TenantId req) (ar_PollerName req) (ar_Nonce req) now s = (False, s1)"
      "x = Inl e" "s' = s1"
  | (denied) s1 db e where
      "tryUseNonce d (ar_TenantId req) (ar_PollerName req) (ar_Nonce req) now s = (True, s1)"
      "x = Inl e" "s' = s1\<lparr>rpc_db := db\<rparr>"
  | (granted) s1 p refresh db where
      "tryUseNonce d (ar_TenantId req) (ar_PollerName req) (ar_Nonce req) now s = (True, s1)"
      "wire_Authenticate (\<lambda>t n tok db. Authenticate_poller cmp t n tok now2 db) L (ar_TenantId req)
         (ar_PollerName req) (bearerTokenFromMetadata auths) now3 (rpc_db s1) = (Inr (p, refresh), db)"
      "x = Inr \<lparr>as_Id = p_ID p, as_TenantId = p_TenantID p, as_Zone = p_Zone p,
         as_Name = p_Name p, as_LastSeen = p_LastSeen p, as_RefreshBefore = refresh\<rparr>"
      "s' = recordSession (p_TenantID p) (p_ID p) (bearerTokenFromMetadata auths) refresh
         (s1\<lparr>rpc_db := db\<rparr>)"
      "\<exists>ct. ar_ClientTime req = Some ct \<and> \<not> stale now ct"
  using assms unfolding rpc_Authenticate_def
  by (auto simp: Let_def split: if_splits option.splits prod.splits bool.splits sum.splits)

text \<open>The handlers' steps; authentications read clocks before \<open>B\<close>, \<open>st_db\<close> is any other user of the database.\<close>

inductive rpc_step :: "time \<Rightarrow> rpc_server \<Rightarrow> rpc_server \<Rightarrow> bool" for B where
  st_authenticate: "now < B \<Longrightarrow>
    rpc_step B s (snd (rpc_Authenticate d cmp L auths req now now2 now3 s))"
| st_claim_job: "rpc_step B s (snd (rpc_ClaimJob auths t p types now now2 s))"
| st_report: "rpc_step B s (snd (rpc_ReportResult auths t p j ok res err now now2 s))"
| st_stream: "rpc_step B s (snd (rpc_StreamJobs auths t p types sends now s))"
| st_health: "rpc_step B s (snd (rpc_Health auths t p now now2 s))"
| st_db: "rpc_step B s (s\<lparr>rpc_db := db\<rparr>)"

lemma nonce_held_cong: "nonces s = nonces s' \<Longrightarrow> nonce_held k B s = nonce_held k B s'"
  by (simp add: nonce_held_def)

lemma handler_nonces [simp]:
  "nonces (snd (rpc_ClaimJob auths t p types now now2 s)) = nonces s"
  "nonces (snd (rpc_ReportResult auths t p j ok res err now now2 s)) = nonces s"
  "nonces (snd (rpc_StreamJobs auths t p types sends now s)) = nonces s"
  "nonces (snd (rpc_Health auths t p now now2 s)) = nonces s"
proof -
  obtain r s1 where r: "requireSession auths t p now s = (r, s1)" by fastforce
  then have n: "nonces s1 = nonces s" using requireSession_frame(1) [of auths t p now s] by simp
  show "nonces (snd (rpc_ClaimJob auths t p types now now2 s)) = nonces s"
    using n by (simp add: rpc_ClaimJob_def r split: prod.split option.split sum.split pj_error.split)
  show "nonces (snd (rpc_ReportResult auths t p j ok res err now now2 s)) = nonces s"
    using n by (simp add: rpc_ReportResult_def r split: prod.split option.split sum.split pj_error.split)
  show "nonces (snd (rpc_StreamJobs auths t p types sends now s)) = nonces s"
    using n by (simp add: rpc_StreamJobs_def r split: option.split)
  show "nonces (snd (rpc_Health auths t p now now2 s)) = nonces s"
    using n by (simp add: rpc_Health_def r split: option.split)
qed

lemma rpc_step_held: "rpc_step B s s' \<Longrightarrow> nonce_held k B s \<Longrightarrow> nonce_held k B s'"
proof (induction rule: rpc_step.induct)
  case (st_authenticate now s d cmp L auths req now2 now3)
  obtain x s' where e: "rpc_Authenticate d cmp L auths req now now2 now3 s = (x, s')" by fastforce
  have "nonces s' = nonces s \<or>
      nonces s' = nonces (snd (tryUseNonce d (ar_TenantId req) (ar_PollerName req) (ar_Nonce req) now s))"
    using e by (cases rule: rpc_Authenticate_cases) auto
  then show ?case
    using st_authenticate tryUseNonce_keeps e nonce_held_cong by (metis snd_conv)
qed (auto simp: nonce_held_def)

lemma rpc_steps_held: "(rpc_step B)\<^sup>*\<^sup>* s s' \<Longrightarrow> nonce_held k B s \<Longrightarrow> nonce_held k B s'"
  by (induction rule: rtranclp_induct) (auto intro: rpc_step_held)

lemma rpc_Authenticate_holds:
  assumes "rpc_Authenticate d cmp L auths req now now2 now3 s = (Inr resp, s')"
  shows "nonce_held (nonceCacheKey d (ar_TenantId req) (ar_PollerName req) (ar_Nonce req))
    (now + 60 * second) s'"
  using assms
proof (cases rule: rpc_Authenticate_cases)
  case (granted s1 p refresh db)
  then have "nonces s' = nonces (snd (tryUseNonce d (ar_TenantId req) (ar_PollerName req)
      (ar_Nonce req) now s))" by simp
  with granted(1) tryUseNonce_holds [of d "ar_TenantId req" "ar_PollerName req" "ar_Nonce req" now s]
  show ?thesis by (simp add: nonce_held_def)
qed auto

text \<open>
  The cache forgets a nonce after 60 seconds, and a client time is accepted 60 seconds to
  either side: the same request passes both checks again exactly 60 seconds later, and a
  client clock that is ahead widens the gap to as much as 120 seconds.
\<close>

lemma replay_after_a_minute:
  assumes "fst (tryUseNonce d t n x now s)"
  shows "\<not> stale now now \<and> \<not> stale (now + 60 * second) now \<and>
    fst (tryUseNonce d t n x (now + 60 * second) (snd (tryUseNonce d t n x now s)))"
proof -
  have "\<not> stale now now \<and> \<not> stale (now + 60 * second) now"
    by (simp add: not_stale_iff second_def)
  moreover have "nonces (snd (tryUseNonce d t n x now s)) (nonceCacheKey d t n x) = Some (now + 60 * second)"
    using assms by (auto simp: tryUseNonce_def Let_def split: option.splits if_splits)
  then have "fst (tryUseNonce d t n x (now + 60 * second) (snd (tryUseNonce d t n x now s)))"
    by (auto simp: tryUseNonce_def [of d t n x "now + 60 * second"] Let_def split: option.splits)
  ultimately show ?thesis by simp
qed

section \<open>Sessions stem from authentications\<close>

text \<open>
  A run of the server from its start, with the log of the successful authentications: the
  state each was called in, its metadata and its answer. bcrypt and the digest are the
  same throughout the run.
\<close>

type_synonym auth_log = "(rpc_server \<times> string list \<times> AuthenticateResponse) list"

inductive rpc_reach ::
  "(string \<Rightarrow> string) \<Rightarrow> (string \<Rightarrow> string \<Rightarrow> bool) \<Rightarrow> rpc_server \<Rightarrow> auth_log \<Rightarrow> bool" for d cmp where
  start: "rpc_reach d cmp \<lparr>rpc_db = db, sessions = \<lambda>_. None, nonces = \<lambda>_. None, nonceGC = zero_time\<rparr> []"
| auth_ok: "rpc_reach d cmp s log \<Longrightarrow>
    rpc_Authenticate d cmp L auths req now now2 now3 s = (Inr resp, s') \<Longrightarrow>
    rpc_reach d cmp s' ((s, auths, resp) # log)"
| auth_fails: "rpc_reach d cmp s log \<Longrightarrow>
    rpc_Authenticate d cmp L auths req now now2 now3 s = (Inl e, s') \<Longrightarrow> rpc_reach d cmp s' log"
| claims: "rpc_reach d cmp s log \<Longrightarrow>
    rpc_reach d cmp (snd (rpc_ClaimJob auths t p types now now2 s)) log"
| reports: "rpc_reach d cmp s log \<Longrightarrow>
    rpc_reach d cmp (snd (rpc_ReportResult auths t p j ok res err now now2 s)) log"
| streams: "rpc_reach d cmp s log \<Longrightarrow>
    rpc_reach d cmp (snd (rpc_StreamJobs auths t p types sends now s)) log"
| healths: "rpc_reach d cmp s log \<Longrightarrow> rpc_reach d cmp (snd (rpc_Health auths t p now now2 s)) log"
| others: "rpc_reach d cmp s log \<Longrightarrow> rpc_reach d cmp (s\<lparr>rpc_db := db\<rparr>) log"

text \<open>Sessions only shrink in the handlers other than \<open>Authenticate\<close>.\<close>

definition sessions_le :: "rpc_server \<Rightarrow> rpc_server \<Rightarrow> bool" where
  "sessions_le s' s \<longleftrightarrow> (\<forall>i x. sessions s' i = Some x \<longrightarrow> sessions s i = Some x)"

lemma sessions_leD: "sessions_le s' s \<Longrightarrow> sessions s' i = Some x \<Longrightarrow> sessions s i = Some x"
  by (simp add: sessions_le_def)

lemma requireSession_le: "sessions_le (snd (requireSession auths t p now s)) s"
  by (auto simp: sessions_le_def requireSession_def Let_def purgeExpiredSessionsLocked_def
      split: option.splits if_splits)

lemma sessions_le_db [simp]: "sessions_le (s\<lparr>rpc_db := db\<rparr>) s' = sessions_le s s'"
  by (simp add: sessions_le_def)

lemma sessions_le_refl [simp]: "sessions_le s s"
  by (simp add: sessions_le_def)

lemma handler_sessions:
  "sessions_le (snd (rpc_ClaimJob auths t p types now now2 s)) s"
  "sessions_le (snd (rpc_ReportResult auths t p j ok res err now now2 s)) s"
  "sessions_le (snd (rpc_StreamJobs auths t p types sends now s)) s"
  "sessions_le (snd (rpc_Health auths t p now now2 s)) s"
proof -
  obtain r s1 where r: "requireSession auths t p now s = (r, s1)" by fastforce
  then have n: "sessions_le s1 s" using requireSession_le [of auths t p now s] by simp
  show "sessions_le (snd (rpc_ClaimJob auths t p types now now2 s)) s"
    using n by (simp add: rpc_ClaimJob_def r split: prod.split option.split sum.split pj_error.split)
  show "sessions_le (snd (rpc_ReportResult auths t p j ok res err now now2 s)) s"
    using n by (simp add: rpc_ReportResult_def r split: prod.split option.split sum.split pj_error.split)
  show "sessions_le (snd (rpc_StreamJobs auths t p types sends now s)) s"
    using n by (simp add: rpc_StreamJobs_def r split: option.split)
  show "sessions_le (snd (rpc_Health auths t p now now2 s)) s"
    using n by (simp add: rpc_Health_def r split: option.split)
qed

text \<open>A session's origin: an authentication whose token bcrypt accepted for that poller.\<close>

definition session_ok :: "(string \<Rightarrow> string \<Rightarrow> bool) \<Rightarrow> auth_log \<Rightarrow> int \<Rightarrow> pollerSession \<Rightarrow> bool" where
  "session_ok cmp log i x \<longleftrightarrow> (\<exists>(s0, auths0, resp) \<in> set log.
     s_Token x = bearerTokenFromMetadata auths0 \<and> as_Id resp = i \<and> as_TenantId resp = s_TenantID x \<and>
     as_RefreshBefore resp = s_Expires x \<and>
     (\<exists>q \<in> set (rows (pollers (rpc_db s0))). pl_id q = i \<and> pl_tenant q = s_TenantID x \<and>
        cmp (pl_hash q) (s_Token x)))"

lemma session_ok_mono: "session_ok cmp log i x \<Longrightarrow> session_ok cmp (e # log) i x"
  by (auto simp: session_ok_def)

lemma Authenticate_poller_ok:
  assumes "Authenticate_poller cmp t n tok now db = (Inr p, db')"
  shows "\<exists>q \<in> set (rows (pollers db)). pl_id q = p_ID p \<and> pl_tenant q = p_TenantID p \<and>
    p_TenantID p = t \<and> cmp (pl_hash q) tok"
proof -
  have "post (\<lambda>x s. \<forall>p. x = Inr p \<longrightarrow> (\<exists>q \<in> set (rows (pollers db)). pl_id q = p_ID p \<and>
      pl_tenant q = p_TenantID p \<and> p_TenantID p = t \<and> cmp (pl_hash q) tok))
      (Authenticate_poller cmp t n tok now db)"
    unfolding Authenticate_poller_def
    by (rule post_exec) (auto split: option.splits dest!: query_row_SomeD)
  with assms show ?thesis by simp
qed

lemma wire_Authenticate_ok:
  "wire_Authenticate auth L t n tok now db = (Inr (p, refresh), db') \<Longrightarrow>
     \<exists>db1. auth t n tok db = (Inr p, db1)"
  by (auto simp: wire_Authenticate_def and_then_def split: prod.splits sum.splits)

lemma auth_ok_session:
  assumes "rpc_Authenticate d cmp L auths req now now2 now3 s = (Inr resp, s')"
    and "sessions s' i = Some x"
  shows "sessions s i = Some x \<or> session_ok cmp ((s, auths, resp) # log) i x"
  using assms(1)
proof (cases rule: rpc_Authenticate_cases)
  case (granted s1 p refresh db)
  have frame: "rpc_db s1 = rpc_db s" "sessions s1 = sessions s"
    using granted(1) tryUseNonce_frame by (metis snd_conv)+
  obtain db1 where "Authenticate_poller cmp (ar_TenantId req) (ar_PollerName req)
      (bearerTokenFromMetadata auths) now2 (rpc_db s) = (Inr p, db1)"
    using wire_Authenticate_ok [OF granted(2)] frame by auto
  then obtain q where q: "q \<in> set (rows (pollers (rpc_db s)))" "pl_id q = p_ID p"
    "pl_tenant q = p_TenantID p" "cmp (pl_hash q) (bearerTokenFromMetadata auths)"
    by (auto dest!: Authenticate_poller_ok)
  show ?thesis
  proof (cases "i = p_ID p")
    case True
    then have x: "x = \<lparr>s_TenantID = p_TenantID p, s_PollerID = p_ID p,
        s_Token = bearerTokenFromMetadata auths, s_Expires = refresh\<rparr>"
      using assms(2) granted(4) by simp
    have "session_ok cmp [(s, auths, resp)] i x"
      unfolding session_ok_def x using q True granted(3) by auto
    then show ?thesis by (auto simp: session_ok_def)
  next
    case False
    then show ?thesis using assms(2) granted(4) frame by simp
  qed
qed auto

lemma auth_fails_session:
  assumes "rpc_Authenticate d cmp L auths req now now2 now3 s = (Inl e, s')"
  shows "sessions s' = sessions s"
  using assms
proof (cases rule: rpc_Authenticate_cases)
  case (nonce s1 e)
  then show ?thesis using tryUseNonce_frame(2) by (metis snd_conv)
next
  case (denied s1 db e)
  then have "sessions s1 = sessions s" using tryUseNonce_frame(2) by (metis snd_conv)
  with denied show ?thesis by simp
qed auto

lemma rpc_reach_sessions:
  "rpc_reach d cmp s log \<Longrightarrow> sessions s i = Some x \<Longrightarrow> session_ok cmp log i x"
proof (induction arbitrary: i x rule: rpc_reach.induct)
  case (auth_ok s log L auths req now now2 now3 resp s')
  then show ?case using auth_ok_session [OF auth_ok(2,4)] session_ok_mono by blast
next
  case (auth_fails s log L auths req now now2 now3 e s')
  then show ?case using auth_fails_session by metis
next
  case (claims s log auths t p types now now2)
  then show ?case by (blast intro: sessions_leD [OF handler_sessions(1)])
next
  case (reports s log auths t p j ok res err now now2)
  then show ?case by (blast intro: sessions_leD [OF handler_sessions(2)])
next
  case (streams s log auths t p types sends now)
  then show ?case by (blast intro: sessions_leD [OF handler_sessions(3)])
next
  case (healths s log auths t p now now2)
  then show ?case by (blast intro: sessions_leD [OF handler_sessions(4)])
qed simp_all

section \<open>A run\<close>

definition demo_server :: rpc_server where
  "demo_server = \<lparr>rpc_db = demo_queue\<lparr>pollers := update_rows (\<lambda>_. True)
     (\<lambda>p. p\<lparr>pl_hash := ''tok''\<rparr>) (pollers demo_queue)\<rparr>,
     sessions = \<lambda>_. None, nonces = \<lambda>_. None, nonceGC = zero_time\<rparr>"

definition demo_auth :: AuthenticateRequest where
  "demo_auth = \<lparr>ar_TenantId = 1, ar_PollerName = ''a'', ar_ClientTime = Some (3 * second),
     ar_Nonce = ''0123456789abcdef''\<rparr>"

definition demo_login :: "(rpc_error + AuthenticateResponse) \<times> rpc_server" where
  "demo_login = rpc_Authenticate (\<lambda>s. s) (\<lambda>h t. h = t) (2 * minute) [''Bearer tok''] demo_auth
     (3 * second) (3 * second) (3 * second) demo_server"

lemma demo_login_ok:
  "fst demo_login = Inr \<lparr>as_Id = 1, as_TenantId = 1, as_Zone = ''z'', as_Name = ''a'',
     as_LastSeen = Some (3 * second), as_RefreshBefore = 123 * second\<rparr>"
  by code_simp

lemma demo_login_eq:
  "rpc_Authenticate (\<lambda>s. s) (\<lambda>h t. h = t) (2 * minute) [''Bearer tok''] demo_auth
     (3 * second) (3 * second) (3 * second) demo_server =
   (Inr \<lparr>as_Id = 1, as_TenantId = 1, as_Zone = ''z'', as_Name = ''a'',
     as_LastSeen = Some (3 * second), as_RefreshBefore = 123 * second\<rparr>, snd demo_login)"
  using demo_login_ok by (simp add: demo_login_def prod_eq_iff)

definition demo_job :: "(rpc_error + ClaimedJob) \<times> rpc_server" where
  "demo_job = rpc_ClaimJob [''Bearer tok''] 1 1 [] (4 * second) (4 * second) (snd demo_login)"

lemma demo_job_ok: "map_sum (\<lambda>_. ()) cj_Id (fst demo_job) = Inr 1"
  by code_simp

section \<open>Properties\<close>

text \<open>C7: Nonces. After a successful \<open>Authenticate\<close>, another one with the same tenant, poller
  name and nonce whose clock reads less than 60 seconds later is refused, whatever RPCs
  (with clocks in that minute) and database steps come in between.\<close>

theorem nonce_not_reusable:
  assumes "rpc_Authenticate d cmp L auths req now now2 now3 s = (Inr resp, s1)"
    and "(rpc_step (now + 60 * second))\<^sup>*\<^sup>* s1 s2"
    and "ar_TenantId req' = ar_TenantId req" and "ar_PollerName req' = ar_PollerName req"
    and "ar_Nonce req' = ar_Nonce req" and "now' < now + 60 * second"
  shows "\<exists>e s3. rpc_Authenticate d cmp' L' auths' req' now' now2' now3' s2 = (Inl e, s3)"
proof -
  have held: "nonce_held (nonceCacheKey d (ar_TenantId req') (ar_PollerName req') (ar_Nonce req'))
      (now + 60 * second) s2"
    using rpc_steps_held [OF assms(2) rpc_Authenticate_holds [OF assms(1)]] assms(3-5) by simp
  obtain x s3 where e: "rpc_Authenticate d cmp' L' auths' req' now' now2' now3' s2 = (x, s3)"
    by fastforce
  from e have "\<exists>e. x = Inl e"
  proof (cases rule: rpc_Authenticate_cases)
    case (granted s1 p refresh db)
    with tryUseNonce_rejects [OF held assms(6)] show ?thesis by simp
  qed auto
  with e show ?thesis by auto
qed

theorem nonce_not_reusable_witness:
  "\<exists>e s. rpc_Authenticate (\<lambda>s. s) (\<lambda>h t. h = t) (2 * minute) [''Bearer tok''] demo_auth
     (5 * second) (5 * second) (5 * second) (snd demo_login) = (Inl e, s)"
  by (rule nonce_not_reusable [OF demo_login_eq rtranclp.rtrancl_refl]) (simp_all add: second_def)

text \<open>C8: No session, no job. In a run of the server, a job is only handed out to a caller whose
  bearer token an earlier \<open>Authenticate\<close> of the run accepted for that poller of that tenant
  (bcrypt matched the stored hash), whose lease has not passed, and whose poller still exists;
  the job is the tenant's own.\<close>

theorem claim_needs_authenticated_session:
  assumes "rpc_reach d cmp s log"
    and "rpc_ClaimJob auths t p types now now2 s = (Inr job, s')"
  shows "cj_TenantId job = t \<and> poller_known (pollers (rpc_db s)) t p \<and>
    (\<exists>(s0, auths0, resp) \<in> set log.
       bearerTokenFromMetadata auths0 = bearerTokenFromMetadata auths \<and>
       as_Id resp = p \<and> as_TenantId resp = t \<and>
       (as_RefreshBefore resp = zero_time \<or> now \<le> as_RefreshBefore resp) \<and>
       (\<exists>q \<in> set (rows (pollers (rpc_db s0))). pl_id q = p \<and> pl_tenant q = t \<and>
          cmp (pl_hash q) (bearerTokenFromMetadata auths)))"
proof -
  obtain r s1 where r: "requireSession auths t p now s = (r, s1)" by fastforce
  with assms(2) have "r = None"
    by (cases r) (auto simp: rpc_ClaimJob_def split: if_splits)
  with r assms(2) obtain j db where j: "Claim t p (ParseJobTypes types) now2 (rpc_db s1) = (Inr j, db)"
    and job: "cj_TenantId job = j_TenantID j"
    by (auto simp: rpc_ClaimJob_def split: if_splits prod.splits sum.splits pj_error.splits)
  have db: "rpc_db s1 = rpc_db s" using requireSession_frame(2) r by (metis snd_conv)
  from r \<open>r = None\<close> obtain x where x: "sessions s p = Some x" "s_TenantID x = t"
    "s_Token x = bearerTokenFromMetadata auths" "s_Expires x = zero_time \<or> now \<le> s_Expires x"
    by (auto simp: requireSession_def Let_def purgeExpiredSessionsLocked_def not_less
        split: if_splits option.splits)
  from rpc_reach_sessions [OF assms(1) x(1)] obtain s0 auths0 resp q where o: "(s0, auths0, resp) \<in> set log"
    "s_Token x = bearerTokenFromMetadata auths0" "as_Id resp = p" "as_TenantId resp = s_TenantID x"
    "as_RefreshBefore resp = s_Expires x" "q \<in> set (rows (pollers (rpc_db s0)))" "pl_id q = p"
    "pl_tenant q = s_TenantID x" "cmp (pl_hash q) (s_Token x)"
    unfolding session_ok_def by blast
  then have "\<exists>(s0, auths0, resp) \<in> set log.
       bearerTokenFromMetadata auths0 = bearerTokenFromMetadata auths \<and>
       as_Id resp = p \<and> as_TenantId resp = t \<and>
       (as_RefreshBefore resp = zero_time \<or> now \<le> as_RefreshBefore resp) \<and>
       (\<exists>q \<in> set (rows (pollers (rpc_db s0))). pl_id q = p \<and> pl_tenant q = t \<and>
          cmp (pl_hash q) (bearerTokenFromMetadata auths))"
    using x(2-4) by (intro bexI [OF _ o(1)]) auto
  moreover have "poller_known (pollers (rpc_db s)) t p \<and> j_TenantID j = t"
    using Claim_known [OF j] db by simp
  ultimately show ?thesis using job by simp
qed

theorem claim_needs_authenticated_session_witness:
  "\<exists>job s'. demo_job = (Inr job, s') \<and> cj_Id job = 1 \<and> cj_TenantId job = 1 \<and>
     (\<exists>q \<in> set (rows (pollers (rpc_db demo_server))). pl_id q = 1 \<and> pl_hash q = ''tok'')"
proof -
  have reach: "rpc_reach (\<lambda>s. s) (\<lambda>h t. h = t) (snd demo_login)
      [(demo_server, [''Bearer tok''], \<lparr>as_Id = 1, as_TenantId = 1, as_Zone = ''z'', as_Name = ''a'',
        as_LastSeen = Some (3 * second), as_RefreshBefore = 123 * second\<rparr>)]"
    by (rule rpc_reach.auth_ok [OF _ demo_login_eq]) (simp add: demo_server_def rpc_reach.start)
  obtain job where job: "fst demo_job = Inr job" "cj_Id job = 1"
    using demo_job_ok by (cases "fst demo_job") auto
  then have c: "rpc_ClaimJob [''Bearer tok''] 1 1 [] (4 * second) (4 * second) (snd demo_login) =
      (Inr job, snd demo_job)"
    by (simp add: demo_job_def prod_eq_iff)
  have "bearerTokenFromMetadata [''Bearer tok''] = ''tok''"
    by code_simp
  then show ?thesis
    using claim_needs_authenticated_session [OF reach c] c job(2) by (auto simp: demo_job_def)
qed

text \<open>The freshness check. \<open>Authenticate\<close> only succeeds with a client time within a minute
  of the server's, or one that is at least \<open>2^63\<close> ns ahead of it.\<close>

theorem authenticate_fresh:
  assumes "rpc_Authenticate d cmp L auths req now now2 now3 s = (Inr resp, s')"
  shows "\<exists>ct. ar_ClientTime req = Some ct \<and> (\<bar>now - ct\<bar> \<le> 60 * second \<or> now + 2 ^ 63 \<le> ct)"
  using assms by (cases rule: rpc_Authenticate_cases) (auto simp: not_stale_iff)

theorem authenticate_fresh_witness:
  "\<exists>ct. ar_ClientTime demo_auth = Some ct \<and>
     (\<bar>3 * second - ct\<bar> \<le> 60 * second \<or> 3 * second + 2 ^ 63 \<le> ct)"
  by (rule authenticate_fresh [OF demo_login_eq])

text \<open>The second alternative is reached: a client time 300 years ahead passes.\<close>

lemma far_future_accepted:
  "isl (fst (rpc_Authenticate (\<lambda>s. s) (\<lambda>h t. h = t) (2 * minute) [''Bearer tok'']
     (demo_auth\<lparr>ar_ClientTime := Some (300 * 365 * 24 * hour)\<rparr>)
     (3 * second) (3 * second) (3 * second) demo_server)) = False"
  by code_simp

end
