(* ===== verification/Lease.thy ===== *)
theory Lease
  imports Sql
begin

text \<open>
  The leader-elected job runner of \<open>internal/scheduler/scheduler.go\<close>: the lease row that
  replicas compete for, and the runner's loop over the ticks of its timer.

  \<open>last\<close> is the Go map of last start times; a missing entry reads as the zero time. A job's
  \<open>Run\<close> is a parameter that gives its error at a tick.
\<close>

section \<open>The lease\<close>

record Lease =
  l_Name :: string
  l_TTL :: duration
  l_Holder :: string

record lease_row =
  ls_name :: string
  ls_holder :: string
  ls_expires :: stamp

record lease_db = conn +
  scheduler_leases :: "lease_row list"

definition randID :: "string \<Rightarrow> string" where
  "randID bytes = hex_encode bytes"

definition NewLease :: "string \<Rightarrow> duration \<Rightarrow> string \<Rightarrow> Lease" where
  "NewLease name ttl bytes =
     (let ttl = (if ttl < 5 * second then 30 * second else ttl)
      in \<lparr>l_Name = name, l_TTL = ttl, l_Holder = randID bytes\<rparr>)"

text \<open>The insertion fails when the statement does or when the primary key is taken.\<close>

definition lease_insert :: "Lease \<Rightarrow> stamp \<Rightarrow> lease_db \<Rightarrow> bool \<times> lease_db" where
  "lease_insert l expires db = (case stmt db of
     (Some e, db) \<Rightarrow> (False, db)
   | (None, db) \<Rightarrow>
       if \<exists>r \<in> set (scheduler_leases db). ls_name r = l_Name l then (False, db)
       else (True, db\<lparr>scheduler_leases := scheduler_leases db @
              [\<lparr>ls_name = l_Name l, ls_holder = l_Holder l, ls_expires = expires\<rparr>]\<rparr>))"

definition takeable :: "Lease \<Rightarrow> stamp \<Rightarrow> lease_row \<Rightarrow> bool" where
  "takeable l now r \<longleftrightarrow> ls_name r = l_Name l \<and> (ls_holder r = l_Holder l \<or> ls_expires r < now)"

definition lease_update :: "Lease \<Rightarrow> stamp \<Rightarrow> stamp \<Rightarrow> lease_db \<Rightarrow> (string + bool) \<times> lease_db" where
  "lease_update l expires now db = exec id db (\<lambda>db.
     (Inr (0 < length (filter (takeable l now) (scheduler_leases db))),
      db\<lparr>scheduler_leases := map (\<lambda>r. if takeable l now r
           then r\<lparr>ls_holder := l_Holder l, ls_expires := expires\<rparr> else r) (scheduler_leases db)\<rparr>))"

definition Acquire :: "Lease \<Rightarrow> time \<Rightarrow> lease_db \<Rightarrow> (string + bool) \<times> lease_db" where
  "Acquire l now db =
     (let expires = rfc3339 (now + l_TTL l)
      in case lease_insert l expires db of
           (True, db) \<Rightarrow> (Inr True, db)
         | (False, db) \<Rightarrow> lease_update l expires (rfc3339 now) db)"

section \<open>The runner\<close>

record sched_job =
  sj_Name :: string
  sj_Interval :: duration
  sj_Run :: "time \<Rightarrow> string option"

record runner_state =
  rn_db :: lease_db
  rn_last :: "string \<Rightarrow> time"

fun due_jobs :: "time \<Rightarrow> sched_job list \<Rightarrow> (string \<Rightarrow> time) \<Rightarrow> sched_job list \<times> (string \<Rightarrow> time)" where
  "due_jobs now [] last_run = ([], last_run)"
| "due_jobs now (j # js) last_run =
     (if last_run (sj_Name j) \<noteq> zero_time \<and>
         time_sub now (last_run (sj_Name j)) < sj_Interval j
      then due_jobs now js last_run
      else let (started, last_run') = due_jobs now js (last_run(sj_Name j := now))
           in (j # started, last_run'))"

text \<open>
  One tick: the jobs started and the log lines, sorted as the jobs are listed (the
  goroutines may log in another order).
\<close>

definition runner_tick ::
  "Lease \<Rightarrow> sched_job list \<Rightarrow> time \<Rightarrow> time \<Rightarrow> runner_state
    \<Rightarrow> sched_job list \<times> (string \<times> string) list \<times> runner_state" where
  "runner_tick l jobs tick now st =
     (case Acquire l now (rn_db st) of
        (Inl e, db) \<Rightarrow> ([], [(''scheduler: acquire failed'', e)], st\<lparr>rn_db := db\<rparr>)
      | (Inr False, db) \<Rightarrow> ([], [], st\<lparr>rn_db := db\<rparr>)
      | (Inr True, db) \<Rightarrow>
          (let (started, last_run) = due_jobs tick jobs (rn_last st);
               logs = List.map_filter (\<lambda>j. map_option (\<lambda>e. (sj_Name j, e)) (sj_Run j tick)) started
           in (started, logs, st\<lparr>rn_db := db, rn_last := last_run\<rparr>)))"

text \<open>\<open>Start\<close>, over the ticks until the context is done: the starts with their tick times.\<close>

fun Start ::
  "Lease \<Rightarrow> sched_job list \<Rightarrow> (time \<times> time) list \<Rightarrow> runner_state
    \<Rightarrow> (time \<times> sched_job) list \<times> runner_state" where
  "Start l jobs [] st = ([], st)"
| "Start l jobs ((tick, now) # ticks) st =
     (let (started, logs, st1) = runner_tick l jobs tick now st;
          (rest, st2) = Start l jobs ticks st1
      in (map (\<lambda>j. (tick, j)) started @ rest, st2))"

section \<open>Mutual exclusion\<close>

text \<open>Replica \<open>h\<close> has the lease \<open>n\<close> until at least \<open>E\<close>; names are unique.\<close>

definition holds_until :: "string \<Rightarrow> string \<Rightarrow> stamp \<Rightarrow> lease_db \<Rightarrow> bool" where
  "holds_until n h E db \<longleftrightarrow>
     (\<exists>r \<in> set (scheduler_leases db). ls_name r = n) \<and>
     (\<forall>r \<in> set (scheduler_leases db). ls_name r = n \<longrightarrow> ls_holder r = h \<and> E \<le> ls_expires r)"

lemma lease_insert_cases:
  assumes "lease_insert l e db = (b, db')"
  obtains (taken) fs where "\<not> b" "db' = db\<lparr>faults := fs\<rparr>"
  | (fresh) fs where "b" "\<forall>r \<in> set (scheduler_leases db). ls_name r \<noteq> l_Name l"
      "db' = db\<lparr>faults := fs, scheduler_leases := scheduler_leases db @
         [\<lparr>ls_name = l_Name l, ls_holder = l_Holder l, ls_expires = e\<rparr>]\<rparr>"
proof (cases "stmt db")
  case (Pair x c)
  then obtain fs where "c = db\<lparr>faults := fs\<rparr>" by (auto dest: stmt_truncate)
  with Pair assms that show thesis
    by (cases x) (auto simp: lease_insert_def split: if_splits)
qed

lemma lease_update_post:
  "post (\<lambda>x s. scheduler_leases s = scheduler_leases db \<and> (\<exists>e. x = Inl e) \<or>
      x = Inr (\<exists>r \<in> set (scheduler_leases db). takeable l now r) \<and>
      scheduler_leases s = map (\<lambda>r. if takeable l now r
         then r\<lparr>ls_holder := l_Holder l, ls_expires := e\<rparr> else r) (scheduler_leases db))
    (lease_update l e now db)"
  unfolding lease_update_def
  by (rule post_exec) (auto simp: filter_empty_conv)

text \<open>What an \<open>Acquire\<close> does to the table.\<close>

lemma Acquire_cases:
  assumes "Acquire l now db = (x, s)"
  obtains (error) e where "x = Inl e" "scheduler_leases s = scheduler_leases db"
  | (inserted) "x = Inr True" "\<forall>r \<in> set (scheduler_leases db). ls_name r \<noteq> l_Name l"
      "scheduler_leases s = scheduler_leases db @
         [\<lparr>ls_name = l_Name l, ls_holder = l_Holder l, ls_expires = rfc3339 (now + l_TTL l)\<rparr>]"
  | (updated) "x = Inr (\<exists>r \<in> set (scheduler_leases db). takeable l (rfc3339 now) r)"
      "scheduler_leases s = map (\<lambda>r. if takeable l (rfc3339 now) r
         then r\<lparr>ls_holder := l_Holder l, ls_expires := rfc3339 (now + l_TTL l)\<rparr> else r)
         (scheduler_leases db)"
proof -
  obtain b db1 where i: "lease_insert l (rfc3339 (now + l_TTL l)) db = (b, db1)" by fastforce
  from i show thesis
  proof (cases rule: lease_insert_cases)
    case (taken fs)
    then have u: "lease_update l (rfc3339 (now + l_TTL l)) (rfc3339 now) db1 = (x, s)"
      using assms i by (simp add: Acquire_def)
    from postD [OF lease_update_post u] taken show thesis
      using error updated by auto
  next
    case (fresh fs)
    then have "x = Inr True" "s = db1" using assms i by (auto simp: Acquire_def)
    with fresh inserted show thesis by simp
  qed
qed

definition lease_unique :: "lease_db \<Rightarrow> bool" where
  "lease_unique db \<longleftrightarrow> distinct (map ls_name (scheduler_leases db))"

lemma Acquire_unique:
  assumes "Acquire l now db = (x, s)" and "lease_unique db"
  shows "lease_unique s"
  using assms(1)
proof (cases rule: Acquire_cases)
  case updated
  have "map ls_name (scheduler_leases s) = map ls_name (scheduler_leases db)"
    unfolding updated by simp
  with assms(2) show ?thesis by (simp add: lease_unique_def)
qed (use assms(2) in \<open>auto simp: lease_unique_def\<close>)

lemma unique_name:
  "lease_unique db \<Longrightarrow> r \<in> set (scheduler_leases db) \<Longrightarrow> q \<in> set (scheduler_leases db) \<Longrightarrow>
   ls_name r = ls_name q \<Longrightarrow> r = q"
  by (auto simp: lease_unique_def distinct_map inj_on_def)

lemma Acquire_True_holds:
  assumes "Acquire l now db = (Inr True, s)" and "lease_unique db"
  shows "holds_until (l_Name l) (l_Holder l) (rfc3339 (now + l_TTL l)) s"
  using assms(1)
proof (cases rule: Acquire_cases)
  case updated
  then obtain r where r: "r \<in> set (scheduler_leases db)" "takeable l (rfc3339 now) r" by auto
  have "q = r" if "q \<in> set (scheduler_leases db)" "ls_name q = l_Name l" for q
    using unique_name [OF assms(2) that(1) r(1)] that r(2) by (simp add: takeable_def)
  then have all: "takeable l (rfc3339 now) q" if "q \<in> set (scheduler_leases db)" "ls_name q = l_Name l" for q
    using that r(2) by simp
  have "ls_name r = l_Name l" using r(2) by (simp add: takeable_def)
  then have "\<exists>q \<in> set (scheduler_leases s). ls_name q = l_Name l"
    using r unfolding updated by (intro bexI [of _ "r\<lparr>ls_holder := l_Holder l,
      ls_expires := rfc3339 (now + l_TTL l)\<rparr>"]) (auto intro: rev_image_eqI)
  moreover have "ls_holder q = l_Holder l \<and> rfc3339 (now + l_TTL l) \<le> ls_expires q"
    if "q \<in> set (scheduler_leases s)" "ls_name q = l_Name l" for q
    using that all unfolding updated by (auto split: if_splits)
  ultimately show ?thesis by (simp add: holds_until_def)
qed (auto simp: holds_until_def)

text \<open>
  While it holds, the owner's renewals at later clocks and the other replicas' attempts
  before the expiry keep it, and those attempts fail.
\<close>

lemma Acquire_keeps:
  assumes "holds_until n h E db" and "Acquire l now db = (x, s)"
    and "l_Name l = n \<Longrightarrow> l_Holder l = h \<Longrightarrow> E \<le> rfc3339 (now + l_TTL l)"
    and "l_Name l = n \<Longrightarrow> l_Holder l \<noteq> h \<Longrightarrow> rfc3339 now \<le> E"
  shows "holds_until n h E s" and "l_Name l = n \<Longrightarrow> l_Holder l \<noteq> h \<Longrightarrow> x \<noteq> Inr True"
proof -
  have nt: "\<not> takeable l (rfc3339 now) r"
    if "l_Name l = n" "l_Holder l \<noteq> h" "r \<in> set (scheduler_leases db)" for r
    using assms(1,4) that by (fastforce simp: takeable_def holds_until_def)
  from assms(2) show "holds_until n h E s"
  proof (cases rule: Acquire_cases)
    case inserted
    then show ?thesis using assms(1) by (auto simp: holds_until_def)
  next
    case updated
    show ?thesis
    proof (cases "l_Name l = n \<and> l_Holder l \<noteq> h")
      case True
      then have "scheduler_leases s = scheduler_leases db"
        unfolding updated using nt by (intro map_idI) auto
      with assms(1) show ?thesis by (simp add: holds_until_def)
    next
      case False
      then have own: "E \<le> rfc3339 (now + l_TTL l) \<and> l_Holder l = h" if "l_Name l = n"
        using that assms(3) by auto
      obtain r where r: "r \<in> set (scheduler_leases db)" "ls_name r = n"
        using assms(1) by (auto simp: holds_until_def)
      let ?f = "\<lambda>r. if takeable l (rfc3339 now) r
         then r\<lparr>ls_holder := l_Holder l, ls_expires := rfc3339 (now + l_TTL l)\<rparr> else r"
      have "ls_name (?f r) = n" "?f r \<in> set (scheduler_leases s)"
        using r unfolding updated by auto
      moreover have "ls_holder q = h \<and> E \<le> ls_expires q"
        if q: "q \<in> set (scheduler_leases s)" "ls_name q = n" for q
      proof -
        from q obtain p where p: "p \<in> set (scheduler_leases db)" "q = ?f p"
          unfolding updated by auto
        with q have "ls_name p = n" by (auto split: if_splits)
        with p assms(1) own show ?thesis by (auto simp: holds_until_def takeable_def)
      qed
      ultimately show ?thesis unfolding holds_until_def by blast
    qed
  qed (use assms(1) in \<open>simp add: holds_until_def\<close>)
  from assms(2) show "x \<noteq> Inr True" if "l_Name l = n" "l_Holder l \<noteq> h"
  proof (cases rule: Acquire_cases)
    case inserted
    then show ?thesis using assms(1) that by (auto simp: holds_until_def)
  next
    case updated
    then show ?thesis using nt that by auto
  qed simp
qed

text \<open>A history of \<open>Acquire\<close> calls of any replicas, with their clocks and answers.\<close>

fun acquire_run :: "(Lease \<times> time) list \<Rightarrow> lease_db \<Rightarrow> lease_db" where
  "acquire_run [] db = db"
| "acquire_run ((l, now) # cs) db = acquire_run cs (snd (Acquire l now db))"

lemma acquire_run_holds:
  "holds_until n h E db \<Longrightarrow>
   \<forall>(l, now) \<in> set cs. l_Name l = n \<longrightarrow>
     (if l_Holder l = h then E \<le> rfc3339 (now + l_TTL l) else rfc3339 now \<le> E) \<Longrightarrow>
   holds_until n h E (acquire_run cs db)"
proof (induction cs db rule: acquire_run.induct)
  case (2 l now cs db)
  obtain x s where a: "Acquire l now db = (x, s)" by fastforce
  have "holds_until n h E s"
    by (rule Acquire_keeps(1) [OF 2(2) a]) (use 2(3) in auto)
  with 2 a show ?case by simp
qed simp

section \<open>Rate of the runner\<close>

text \<open>
  Each start comes no sooner than the job's interval after the previous start under its
  name; \<open>last_run\<close> gives the starts before.
\<close>

fun spaced :: "(string \<Rightarrow> time) \<Rightarrow> (time \<times> sched_job) list \<Rightarrow> bool" where
  "spaced last_run [] \<longleftrightarrow> True"
| "spaced last_run ((t, j) # xs) \<longleftrightarrow>
     (last_run (sj_Name j) = zero_time \<or> sj_Interval j \<le> time_sub t (last_run (sj_Name j))) \<and>
     spaced (last_run(sj_Name j := t)) xs"

lemma spaced_due_jobs:
  "spaced (snd (due_jobs now js last_run)) xs \<Longrightarrow>
   spaced last_run (map (\<lambda>j. (now, j)) (fst (due_jobs now js last_run)) @ xs)"
  by (induction now js last_run rule: due_jobs.induct)
    (auto simp: Let_def split: prod.splits if_splits simp del: fun_upd_apply)

lemma runner_tick_cases:
  assumes "runner_tick l jobs tick now st = (started, logs, st1)"
  obtains (idle) "started = []" "rn_last st1 = rn_last st"
  | (run) db where "Acquire l now (rn_db st) = (Inr True, db)" "rn_db st1 = db"
      "started = fst (due_jobs tick jobs (rn_last st))"
      "rn_last st1 = snd (due_jobs tick jobs (rn_last st))"
  using assms unfolding runner_tick_def
  by (auto simp: Let_def split: prod.splits sum.splits bool.splits)

section \<open>Properties\<close>

text \<open>C9: Leader election. After a replica's successful \<open>Acquire\<close> at \<open>t\<close>, no other replica's
  \<open>Acquire\<close> of the same lease succeeds at any clock up to \<open>t + TTL\<close>, whatever calls of any
  replicas come in between, as long as the holder's own renewals do not run on clocks
  before \<open>t\<close>. The stored expiry drops the fraction of a second; the comparison of whole
  seconds errs on the safe side.\<close>

theorem lease_mutual_exclusion:
  assumes "lease_unique db" and "Acquire l t db = (Inr True, s)"
    and "\<forall>(k, now) \<in> set cs. l_Name k = l_Name l \<longrightarrow>
      (if l_Holder k = l_Holder l then t \<le> now \<and> l_TTL l \<le> l_TTL k else now \<le> t + l_TTL l)"
    and "l_Name k = l_Name l" and "l_Holder k \<noteq> l_Holder l" and "now \<le> t + l_TTL l"
  shows "fst (Acquire k now (acquire_run cs s)) \<noteq> Inr True"
proof -
  let ?E = "rfc3339 (t + l_TTL l)"
  have h: "holds_until (l_Name l) (l_Holder l) ?E (acquire_run cs s)"
  proof (rule acquire_run_holds [OF Acquire_True_holds [OF assms(2,1)]])
    show "\<forall>(k, now) \<in> set cs. l_Name k = l_Name l \<longrightarrow>
        (if l_Holder k = l_Holder l then ?E \<le> rfc3339 (now + l_TTL k) else rfc3339 now \<le> ?E)"
      using assms(3) by (fastforce intro: rfc3339_mono)
  qed
  obtain x s' where a: "Acquire k now (acquire_run cs s) = (x, s')" by fastforce
  have "x \<noteq> Inr True"
    by (rule Acquire_keeps(2) [OF h a]) (use assms(4-6) rfc3339_mono in auto)
  with a show ?thesis by simp
qed

definition demo_lease :: "string \<Rightarrow> Lease" where
  "demo_lease h = \<lparr>l_Name = ''main'', l_TTL = 30 * second, l_Holder = h\<rparr>"

definition demo_lease_db :: lease_db where
  "demo_lease_db = \<lparr>faults = [], last_rowid = 0, scheduler_leases = []\<rparr>"

theorem lease_mutual_exclusion_witness:
  "fst (Acquire (demo_lease ''b'') (29 * second)
     (acquire_run [(demo_lease ''b'', second), (demo_lease ''a'', 2 * second)]
       (snd (Acquire (demo_lease ''a'') 0 demo_lease_db)))) \<noteq> Inr True"
proof -
  have "fst (Acquire (demo_lease ''a'') 0 demo_lease_db) = Inr True"
    by code_simp
  then have "Acquire (demo_lease ''a'') 0 demo_lease_db =
      (Inr True, snd (Acquire (demo_lease ''a'') 0 demo_lease_db))"
    by (simp add: prod_eq_iff)
  then show ?thesis
    by (rule lease_mutual_exclusion [rotated])
      (simp_all add: demo_lease_def lease_unique_def demo_lease_db_def second_def)
qed

text \<open>Rate limit. Along any run of a runner's loop, a job is started no sooner than its
  interval after the previous start of a job with its name.\<close>

theorem runner_respects_intervals:
  "spaced (rn_last st) (fst (Start l jobs ticks st))"
proof (induction l jobs ticks st rule: Start.induct)
  case (2 l jobs tick now ticks st)
  obtain started logs st1 where t: "runner_tick l jobs tick now st = (started, logs, st1)"
    by (cases "runner_tick l jobs tick now st") auto
  from 2 [OF t [symmetric] refl refl]
  have rest: "spaced (rn_last st1) (fst (Start l jobs ticks st1))" .
  from t have "spaced (rn_last st) (map (\<lambda>j. (tick, j)) started @ fst (Start l jobs ticks st1))"
    by (cases rule: runner_tick_cases) (use rest in \<open>auto intro: spaced_due_jobs\<close>)
  with t show ?case by (cases "Start l jobs ticks st1") simp
qed simp

end
