(* ===== verification/DiffEngine.thy ===== *)
theory DiffEngine
  imports Prelude "HOL-Library.Sublist"
begin

text \<open>
  The unified diff of \<open>internal/diff/diff.go\<close>: the ignore rules, the table of longest
  common subsequences as the loops fill it, and the walk over the table. A compiled regular
  expression is its \<open>MatchString\<close>; \<open>regexp.MustCompile\<close> is a parameter of the default rules.
  The text and the two counters the walk writes are read off its list of edits.
\<close>

record Result =
  Unified :: string
  AddedLines :: nat
  RemovedLines :: nat
  Identical :: bool

record IgnoreRule =
  ArtifactPrefix :: string
  MatchString :: "string \<Rightarrow> bool"
  Description :: string

record Engine =
  Rules :: "IgnoreRule list"

abbreviation nl :: char where "nl \<equiv> CHR 0x0A"

definition mk_rule :: "(string \<Rightarrow> string \<Rightarrow> bool) \<Rightarrow> string \<Rightarrow> string \<Rightarrow> IgnoreRule" where
  "mk_rule compile p desc = \<lparr>ArtifactPrefix = '''', MatchString = compile p, Description = desc\<rparr>"

abbreviation backslash :: string where "backslash \<equiv> [CHR 0x5C]"

definition DefaultRules :: "(string \<Rightarrow> string \<Rightarrow> bool) \<Rightarrow> IgnoreRule list" where
  "DefaultRules compile =
     [mk_rule compile (''^!'' @ backslash @ ''s*Last configuration change'') ''Cisco: last config change timestamp'',
      mk_rule compile (''^!'' @ backslash @ ''s*NVRAM config last updated'') ''Cisco: NVRAM update timestamp'',
      mk_rule compile (''^!'' @ backslash @ ''s*Time:'') ''Generic timestamp comment'',
      mk_rule compile (''^Building configuration'' @ backslash @ ''.'' @ backslash @ ''.'' @ backslash @ ''.'') ''Cisco: build-config banner'',
      mk_rule compile (''^Current configuration : '' @ backslash @ ''d+ bytes'') ''Cisco: current-config size'',
      mk_rule compile (''^!'' @ backslash @ ''s*No configuration change since last restart'') ''Cisco: restart marker'',
      mk_rule compile ''^# Last commit:'' ''Junos: last commit timestamp'']"

fun drop_line :: "string \<Rightarrow> IgnoreRule list \<Rightarrow> string \<Rightarrow> bool" where
  "drop_line artifact [] line = False"
| "drop_line artifact (r # rs) line =
     (if ArtifactPrefix r \<noteq> '''' \<and> \<not> has_prefix artifact (ArtifactPrefix r)
      then drop_line artifact rs line
      else if MatchString r line then True else drop_line artifact rs line)"

definition filter_text :: "Engine \<Rightarrow> string \<Rightarrow> string \<Rightarrow> string" where
  "filter_text e artifact text =
     (if length (Rules e) = 0 then text
      else concat (map (\<lambda>line. line @ [nl])
             (filter (\<lambda>line. \<not> drop_line artifact (Rules e) line) (split_char nl text))))"

text \<open>Row \<open>i\<close> of the table from row \<open>i + 1\<close>, and the table, filled from the last row up.\<close>

fun lcs_row :: "string \<Rightarrow> string list \<Rightarrow> nat list \<Rightarrow> nat list" where
  "lcs_row x [] next_row = [0]"
| "lcs_row x (b # bs) next_row =
     (let r = lcs_row x bs (tl next_row)
      in (if x = b then hd (tl next_row) + 1
          else if hd r \<le> hd next_row then hd next_row else hd r) # r)"

fun lcs_table :: "string list \<Rightarrow> string list \<Rightarrow> nat list list" where
  "lcs_table [] bs = [replicate (length bs + 1) 0]"
| "lcs_table (a # as) bs = (let t = lcs_table as bs in lcs_row a bs (hd t) # t)"

datatype edit = is_Keep: Keep string | is_Removed: Removed string | is_Added: Added string

function (sequential) walk ::
  "string list \<Rightarrow> string list \<Rightarrow> nat list list \<Rightarrow> nat \<Rightarrow> nat \<Rightarrow> edit list" where
  "walk as bs lcs i j =
     (if i < length as \<and> j < length bs then
        (if as ! i = bs ! j then Keep (as ! i) # walk as bs lcs (i + 1) (j + 1)
         else if lcs ! i ! (j + 1) \<le> lcs ! (i + 1) ! j
         then Removed (as ! i) # walk as bs lcs (i + 1) j
         else Added (bs ! j) # walk as bs lcs i (j + 1))
      else map Removed (drop i as) @ map Added (drop j bs))"
  by pat_completeness auto
termination
  by (relation "measure (\<lambda>(as, bs, lcs, i, j). (length as - i) + (length bs - j))") auto

declare walk.simps [simp del]

fun edit_line :: "edit \<Rightarrow> string" where
  "edit_line (Keep l) = ''  '' @ l @ [nl]"
| "edit_line (Removed l) = ''- '' @ l @ [nl]"
| "edit_line (Added l) = ''+ '' @ l @ [nl]"

definition text_lines :: "string \<Rightarrow> string list" where
  "text_lines s = split_char nl (trim_right_set [nl] s)"

definition unified :: "string \<Rightarrow> string \<Rightarrow> Result" where
  "unified a b =
     (let aLines = text_lines a; bLines = text_lines b;
          edits = walk aLines bLines (lcs_table aLines bLines) 0 0
      in \<lparr>Unified = concat (map edit_line edits),
          AddedLines = length (filter is_Added edits),
          RemovedLines = length (filter is_Removed edits),
          Identical = False\<rparr>)"

definition Diff :: "Engine \<Rightarrow> string \<Rightarrow> string \<Rightarrow> string \<Rightarrow> Result" where
  "Diff e artifact oldText newText =
     (let old = filter_text e artifact oldText; new = filter_text e artifact newText
      in if old = new
         then \<lparr>Unified = '''', AddedLines = 0, RemovedLines = 0, Identical = True\<rparr>
         else unified old new)"

section \<open>The table holds the lengths of longest common subsequences\<close>

fun lcs_len :: "string list \<Rightarrow> string list \<Rightarrow> nat" where
  "lcs_len [] bs = 0"
| "lcs_len as [] = 0"
| "lcs_len (a # as) (b # bs) =
     (if a = b then lcs_len as bs + 1 else max (lcs_len as (b # bs)) (lcs_len (a # as) bs))"

lemma lcs_len_Nil2 [simp]: "lcs_len as [] = 0"
  by (cases as) auto

lemma lcs_row_nth:
  "(\<And>j. j \<le> length bs \<Longrightarrow> next_row ! j = lcs_len as (drop j bs)) \<Longrightarrow>
   length next_row = length bs + 1 \<Longrightarrow>
   length (lcs_row x bs next_row) = length bs + 1 \<and>
   (\<forall>j \<le> length bs. lcs_row x bs next_row ! j = lcs_len (x # as) (drop j bs))"
proof (induction x bs next_row rule: lcs_row.induct)
  case (2 x b bs next_row)
  obtain p q rest where nr: "next_row = p # q # rest"
    using 2(3) by (cases next_row; cases "tl next_row") auto
  have IH: "length (lcs_row x bs (q # rest)) = length bs + 1 \<and>
      (\<forall>j \<le> length bs. lcs_row x bs (q # rest) ! j = lcs_len (x # as) (drop j bs))"
    using 2(1) 2(2) [of "Suc j" for j] 2(3) nr by (auto simp: nr)
  have p: "p = lcs_len as (b # bs)" and q: "q = lcs_len as bs"
    using 2(2) [of 0] 2(2) [of 1] nr by auto
  have hd: "hd (lcs_row x bs (q # rest)) = lcs_len (x # as) bs"
    using IH by (cases "lcs_row x bs (q # rest)") fastforce+
  show ?case
  proof (intro conjI allI impI)
    show "length (lcs_row x (b # bs) next_row) = length (b # bs) + 1"
      using IH by (simp add: nr Let_def)
    fix j assume "j \<le> length (b # bs)"
    then show "lcs_row x (b # bs) next_row ! j = lcs_len (x # as) (drop j (b # bs))"
      using IH hd p q by (cases j) (auto simp: nr Let_def max_def)
  qed
qed simp

lemma lcs_table_nth:
  "i \<le> length as \<Longrightarrow> length (lcs_table as bs) = length as + 1 \<and>
   length (lcs_table as bs ! i) = length bs + 1 \<and>
   (\<forall>j \<le> length bs. lcs_table as bs ! i ! j = lcs_len (drop i as) (drop j bs))"
proof (induction as arbitrary: i)
  case Nil
  then show ?case by (auto simp del: replicate_Suc simp flip: replicate_Suc)
next
  case (Cons a as)
  have IH: "length (lcs_table as bs) = length as + 1"
    "length (lcs_table as bs ! 0) = length bs + 1"
    "\<forall>j \<le> length bs. lcs_table as bs ! 0 ! j = lcs_len as (drop j bs)"
    using Cons.IH [of 0] by auto
  then have h: "hd (lcs_table as bs) = lcs_table as bs ! 0"
    by (cases "lcs_table as bs") auto
  have row: "length (lcs_row a bs (hd (lcs_table as bs))) = length bs + 1 \<and>
      (\<forall>j \<le> length bs. lcs_row a bs (hd (lcs_table as bs)) ! j = lcs_len (a # as) (drop j bs))"
    by (rule lcs_row_nth) (use IH h in auto)
  show ?case
  proof (cases i)
    case 0
    then show ?thesis using row IH by (simp add: Let_def)
  next
    case (Suc k)
    then show ?thesis using Cons.IH [of k] Cons.prems IH by (simp add: Let_def)
  qed
qed

section \<open>The walk is an optimal edit script\<close>

text \<open>The two versions an edit script stands for.\<close>

fun old_lines :: "edit list \<Rightarrow> string list" where
  "old_lines [] = []"
| "old_lines (Keep l # es) = l # old_lines es"
| "old_lines (Removed l # es) = l # old_lines es"
| "old_lines (Added l # es) = old_lines es"

fun new_lines :: "edit list \<Rightarrow> string list" where
  "new_lines [] = []"
| "new_lines (Keep l # es) = l # new_lines es"
| "new_lines (Removed l # es) = new_lines es"
| "new_lines (Added l # es) = l # new_lines es"

fun kept_lines :: "edit list \<Rightarrow> string list" where
  "kept_lines [] = []"
| "kept_lines (Keep l # es) = l # kept_lines es"
| "kept_lines (Removed l # es) = kept_lines es"
| "kept_lines (Added l # es) = kept_lines es"

lemma lines_append [simp]:
  "old_lines (xs @ ys) = old_lines xs @ old_lines ys"
  "new_lines (xs @ ys) = new_lines xs @ new_lines ys"
  "kept_lines (xs @ ys) = kept_lines xs @ kept_lines ys"
  by (induction xs rule: old_lines.induct) auto

lemma lines_map [simp]:
  "old_lines (map Removed xs) = xs" "new_lines (map Removed xs) = []"
  "kept_lines (map Removed xs) = []" "old_lines (map Added xs) = []"
  "new_lines (map Added xs) = xs" "kept_lines (map Added xs) = []"
  by (induction xs) auto

lemma walk_lines:
  "i \<le> length as \<Longrightarrow> j \<le> length bs \<Longrightarrow>
   old_lines (walk as bs lcs i j) = drop i as \<and> new_lines (walk as bs lcs i j) = drop j bs"
proof (induction as bs lcs i j rule: walk.induct)
  case (1 as bs lcs i j)
  show ?case
  proof (cases "i < length as \<and> j < length bs")
    case True
    then have "drop i as = as ! i # drop (i + 1) as" "drop j bs = bs ! j # drop (j + 1) bs"
      by (simp_all add: Cons_nth_drop_Suc)
    with 1 True show ?thesis by (subst (1 2) walk.simps) auto
  next
    case False
    then show ?thesis using 1(4,5) by (subst (1 2) walk.simps) auto
  qed
qed

lemma walk_kept:
  "i \<le> length as \<Longrightarrow> j \<le> length bs \<Longrightarrow>
   length (kept_lines (walk as bs (lcs_table as bs) i j)) = lcs_len (drop i as) (drop j bs)"
proof (induction as bs "lcs_table as bs" i j rule: walk.induct)
  case (1 as bs i j)
  show ?case
  proof (cases "i < length as \<and> j < length bs")
    case True
    then have d: "drop i as = as ! i # drop (i + 1) as" "drop j bs = bs ! j # drop (j + 1) bs"
      by (simp_all add: Cons_nth_drop_Suc)
    have t: "lcs_table as bs ! (i + 1) ! j = lcs_len (drop (i + 1) as) (drop j bs)"
      "lcs_table as bs ! i ! (j + 1) = lcs_len (drop i as) (drop (j + 1) bs)"
      using lcs_table_nth [of "i + 1" as bs] lcs_table_nth [of i as bs] True by auto
    show ?thesis
      using 1 True t by (subst walk.simps) (simp add: d max_def)
  next
    case False
    with 1(4,5) show ?thesis by (subst walk.simps) auto
  qed
qed

lemma lcs_len_max: "subseq zs as \<Longrightarrow> subseq zs bs \<Longrightarrow> length zs \<le> lcs_len as bs"
proof (induction as bs arbitrary: zs rule: lcs_len.induct)
  case (3 a as b bs)
  show ?case
  proof (cases zs)
    case (Cons z zs')
    show ?thesis
    proof (cases "a = b")
      case True
      have "subseq zs' as" "subseq zs' bs"
        using 3(4,5) Cons by (auto simp: subseq_Cons2_iff split: if_splits dest: subseq_Cons')
      then have "length zs' \<le> lcs_len as bs" using 3(1) True by blast
      then show ?thesis using Cons True by simp
    next
      case False
      show ?thesis
      proof (cases "z = a")
        case True
        then have "subseq zs bs" using 3(5) Cons False by (auto split: if_splits)
        with 3(3) [OF False] 3(4) have "length zs \<le> lcs_len (a # as) bs" by blast
        then show ?thesis using False by simp
      next
        case za: False
        then have "subseq zs as" using 3(4) Cons by (auto split: if_splits)
        with 3(2) [OF False] 3(5) have "length zs \<le> lcs_len as (b # bs)" by blast
        then show ?thesis using False by simp
      qed
    qed
  qed simp
qed auto

section \<open>Reading a diff back\<close>

definition parse_line :: "string \<Rightarrow> edit" where
  "parse_line s = (case s of
     a # b # l \<Rightarrow> if a = CHR ''-'' then Removed l else if a = CHR ''+'' then Added l else Keep l
   | _ \<Rightarrow> Keep s)"

definition parse_diff :: "string \<Rightarrow> edit list" where
  "parse_diff s = map parse_line (butlast (split_char nl s))"

fun edit_text :: "edit \<Rightarrow> string" where
  "edit_text (Keep l) = l"
| "edit_text (Removed l) = l"
| "edit_text (Added l) = l"

lemma edit_line_split:
  assumes "nl \<notin> set (edit_text e)"
  obtains s where "edit_line e = s @ [nl]" "nl \<notin> set s" "parse_line s = e"
proof (cases e)
  case (Keep l)
  with assms that [of "''  '' @ l"] show thesis by (simp add: parse_line_def)
next
  case (Removed l)
  with assms that [of "''- '' @ l"] show thesis by (simp add: parse_line_def)
next
  case (Added l)
  with assms that [of "''+ '' @ l"] show thesis by (simp add: parse_line_def)
qed

lemma parse_render:
  "\<forall>e \<in> set es. nl \<notin> set (edit_text e) \<Longrightarrow> parse_diff (concat (map edit_line es)) = es"
proof (induction es)
  case Nil
  then show ?case by (simp add: parse_diff_def)
next
  case (Cons e es)
  then obtain s where s: "edit_line e = s @ [nl]" "nl \<notin> set s" "parse_line s = e"
    using edit_line_split [of e] by auto
  then have "split_char nl (concat (map edit_line (e # es))) =
      s # split_char nl (concat (map edit_line es))"
    by (simp add: split_char_append)
  with Cons s show ?case by (simp add: parse_diff_def)
qed

lemma edit_text_lines: "e \<in> set es \<Longrightarrow> edit_text e \<in> set (old_lines es) \<union> set (new_lines es)"
  by (induction es rule: old_lines.induct) auto

definition removed_count :: "edit list \<Rightarrow> nat" where
  "removed_count es = length (filter is_Removed es)"

definition added_count :: "edit list \<Rightarrow> nat" where
  "added_count es = length (filter is_Added es)"

lemma old_count: "length (old_lines es) = length (kept_lines es) + removed_count es"
  by (induction es rule: old_lines.induct) (auto simp: removed_count_def)

lemma new_count: "length (new_lines es) = length (kept_lines es) + added_count es"
  by (induction es rule: new_lines.induct) (auto simp: added_count_def)

lemma kept_subseq: "subseq (kept_lines es) (old_lines es) \<and> subseq (kept_lines es) (new_lines es)"
  by (induction es rule: kept_lines.induct) auto

lemma unified_edits:
  "old_lines (walk as bs (lcs_table as bs) 0 0) = as"
  "new_lines (walk as bs (lcs_table as bs) 0 0) = bs"
  "length (kept_lines (walk as bs (lcs_table as bs) 0 0)) = lcs_len as bs"
  using walk_lines [of 0 as 0 bs] walk_kept [of 0 as 0 bs] by simp_all

lemma text_lines_no_nl: "l \<in> set (text_lines s) \<Longrightarrow> nl \<notin> set l"
  by (auto simp: text_lines_def dest: split_char_no_sep)

lemma unified_parse:
  "parse_diff (Unified (unified a b)) =
     walk (text_lines a) (text_lines b) (lcs_table (text_lines a) (text_lines b)) 0 0"
proof -
  let ?w = "walk (text_lines a) (text_lines b) (lcs_table (text_lines a) (text_lines b)) 0 0"
  have "nl \<notin> set (edit_text e)" if "e \<in> set ?w" for e
    using edit_text_lines [OF that] text_lines_no_nl by (auto simp: unified_edits)
  then show ?thesis by (simp add: unified_def Let_def parse_render)
qed

section \<open>Properties\<close>

text \<open>C10: The diff determines both versions. Read back, the lines of the unified text without
  the added ones are the old version's lines, without the removed ones the new version's,
  and the counters count them.\<close>

theorem unified_roundtrip:
  "old_lines (parse_diff (Unified (unified a b))) = text_lines a \<and>
   new_lines (parse_diff (Unified (unified a b))) = text_lines b \<and>
   AddedLines (unified a b) = added_count (parse_diff (Unified (unified a b))) \<and>
   RemovedLines (unified a b) = removed_count (parse_diff (Unified (unified a b)))"
  by (simp add: unified_parse unified_edits)
    (simp add: unified_def Let_def added_count_def removed_count_def)

text \<open>C11: The diff is minimal. No script of kept, removed and added lines that leads from the
  old lines to the new ones changes fewer lines.\<close>

theorem unified_minimal:
  assumes "old_lines es = text_lines a" and "new_lines es = text_lines b"
  shows "AddedLines (unified a b) + RemovedLines (unified a b) \<le> added_count es + removed_count es"
proof -
  let ?w = "walk (text_lines a) (text_lines b) (lcs_table (text_lines a) (text_lines b)) 0 0"
  have "length (kept_lines es) \<le> length (kept_lines ?w)"
    using kept_subseq [of es] assms by (simp add: unified_edits lcs_len_max)
  moreover have "AddedLines (unified a b) = added_count ?w" "RemovedLines (unified a b) = removed_count ?w"
    by (simp_all add: unified_def Let_def added_count_def removed_count_def)
  ultimately show ?thesis
    using old_count [of es] new_count [of es] old_count [of ?w] new_count [of ?w] assms
    by (simp add: unified_edits)
qed

theorem unified_minimal_witness:
  "AddedLines (unified [CHR ''a'', nl, CHR ''b''] [CHR ''b'', nl, CHR ''c'']) +
   RemovedLines (unified [CHR ''a'', nl, CHR ''b''] [CHR ''b'', nl, CHR ''c'']) \<le> 4"
proof -
  let ?es = "[Removed ''a'', Removed ''b'', Added ''b'', Added ''c'']"
  have "text_lines [CHR ''a'', nl, CHR ''b''] = [''a'', ''b'']"
    "text_lines [CHR ''b'', nl, CHR ''c''] = [''b'', ''c'']"
    by (simp_all add: text_lines_def trim_right_set_def)
  with unified_minimal [of ?es "[CHR ''a'', nl, CHR ''b'']" "[CHR ''b'', nl, CHR ''c'']"]
  show ?thesis by (simp add: added_count_def removed_count_def)
qed

text \<open>
  Ignored lines do not count: texts that differ in a line the rules drop are identical.
  The comparison is of whole filtered texts while the walk drops trailing newlines, so
  texts that differ only in empty lines at the end are reported as not identical with a
  diff that shows no change.
\<close>

lemma ignored_line_identical:
  assumes "drop_line artifact (Rules e) v" and "drop_line artifact (Rules e) w"
    and "Rules e \<noteq> []" and "\<forall>l \<in> set (xs @ [v, w] @ ys). nl \<notin> set l"
  shows "Identical (Diff e artifact (str_join [nl] (xs @ [v] @ ys)) (str_join [nl] (xs @ [w] @ ys)))"
  using assms by (simp add: Diff_def Let_def filter_text_def split_char_join)

lemma trailing_newline_not_identical:
  "Diff \<lparr>Rules = []\<rparr> ''a'' ''x'' [CHR ''x'', nl] =
     \<lparr>Unified = ''  x'' @ [nl], AddedLines = 0, RemovedLines = 0, Identical = False\<rparr>"
  by code_simp

text \<open>
  An empty text splits into one empty line, so the diff that introduces an artifact counts a
  removed line that never was there.
\<close>

lemma first_version_removes_a_line:
  "RemovedLines (unified [] ''x'') = 1 \<and> AddedLines (unified [] ''x'') = 1"
  by code_simp

end
