(* ===== verification/Changes.thy ===== *)
theory Changes
  imports Sql DiffEngine
begin

text \<open>
  The change log of \<open>internal/changes/changes.go\<close>: a new version of an artifact is compared
  with its predecessor through the diff engine, and a difference is recorded. The git store's
  \<open>Read\<close> is a parameter (\<open>read\<close>), and \<open>device_tenants\<close> is the part of the \<open>devices\<close> table
  the queries join with.
\<close>

record version_row =
  cv_device :: int
  cv_artifact :: string
  cv_sha :: string
  cv_created_at :: stamp

record change_row =
  ce_id :: int
  ce_device :: int
  ce_artifact :: string
  ce_old_sha :: "string option"
  ce_new_sha :: string
  ce_added :: nat
  ce_removed :: nat
  ce_reviewed :: bool
  ce_created_at :: stamp

record changes_db = conn +
  config_versions :: "version_row list"
  change_events :: "change_row sql_table"
  device_tenants :: "(int \<times> int) list"

record ChangeEvent =
  ch_ID :: int
  ch_DeviceID :: int
  ch_Artifact :: string
  ch_OldSHA :: string
  ch_NewSHA :: string
  ch_Added :: nat
  ch_Removed :: nat
  ch_Reviewed :: bool
  ch_CreatedAt :: time

datatype ch_error = ChNoRows | ChRead string | ChDB string

type_synonym store_read = "int \<Rightarrow> int \<Rightarrow> string \<Rightarrow> string \<Rightarrow> string + string"

definition New_engine :: "(string \<Rightarrow> string \<Rightarrow> bool) \<Rightarrow> Engine option \<Rightarrow> Engine" where
  "New_engine compile e = (case e of None \<Rightarrow> \<lparr>Rules = DefaultRules compile\<rparr> | Some e \<Rightarrow> e)"

definition nullableString :: "string option \<Rightarrow> string option" where
  "nullableString n = (case n of None \<Rightarrow> None | Some s \<Rightarrow> Some s)"

text \<open>The newest other version of the artifact (\<open>ORDER BY created_at DESC LIMIT 1\<close>).\<close>

definition previous_sha :: "int \<Rightarrow> string \<Rightarrow> string \<Rightarrow> changes_db \<Rightarrow> string option" where
  "previous_sha deviceID artifact newSHA db =
     (case order_desc cv_created_at (filter (\<lambda>v. cv_device v = deviceID \<and>
          cv_artifact v = artifact \<and> cv_sha v \<noteq> newSHA) (config_versions db)) of
        [] \<Rightarrow> None
      | v # _ \<Rightarrow> Some (cv_sha v))"

definition old_body :: "store_read \<Rightarrow> int \<Rightarrow> int \<Rightarrow> string \<Rightarrow> string option \<Rightarrow> string" where
  "old_body read tenantID deviceID artifact sha =
     (case sha of None \<Rightarrow> ''''
      | Some s \<Rightarrow> (case read tenantID deviceID artifact s of Inr b \<Rightarrow> b | Inl e \<Rightarrow> ''''))"

definition Record ::
  "store_read \<Rightarrow> Engine \<Rightarrow> int \<Rightarrow> int \<Rightarrow> string \<Rightarrow> string \<Rightarrow> time \<Rightarrow> changes_db
    \<Rightarrow> (ch_error + ChangeEvent option) \<times> changes_db" where
  "Record read eng tenantID deviceID artifact newSHA now db = exec ChDB db (\<lambda>db.
     let oldSHA = previous_sha deviceID artifact newSHA db
     in case read tenantID deviceID artifact newSHA of
          Inl e \<Rightarrow> (Inl (ChRead e), db)
        | Inr newBody \<Rightarrow>
            (let res = Diff eng artifact (old_body read tenantID deviceID artifact oldSHA) newBody
             in if Identical res then (Inr None, db)
                else exec ChDB db (\<lambda>db.
                  let i = next_rowid (change_events db)
                  in (Inr (Some \<lparr>ch_ID = i, ch_DeviceID = deviceID, ch_Artifact = artifact,
                          ch_OldSHA = (case oldSHA of None \<Rightarrow> '''' | Some s \<Rightarrow> s),
                          ch_NewSHA = newSHA, ch_Added = AddedLines res,
                          ch_Removed = RemovedLines res, ch_Reviewed = False,
                          ch_CreatedAt = now\<rparr>),
                      db\<lparr>change_events := insert_row (\<lambda>i. \<lparr>ce_id = i, ce_device = deviceID,
                           ce_artifact = artifact, ce_old_sha = nullableString oldSHA,
                           ce_new_sha = newSHA, ce_added = AddedLines res,
                           ce_removed = RemovedLines res, ce_reviewed = False,
                           ce_created_at = rfc3339 now\<rparr>) (change_events db),
                         last_rowid := i\<rparr>))))"

definition device_of :: "int \<Rightarrow> changes_db \<Rightarrow> int option" where
  "device_of deviceID db = map_of (device_tenants db) deviceID"

definition scan_change :: "change_row \<Rightarrow> ChangeEvent" where
  "scan_change r = \<lparr>ch_ID = ce_id r, ch_DeviceID = ce_device r, ch_Artifact = ce_artifact r,
     ch_OldSHA = (case ce_old_sha r of None \<Rightarrow> '''' | Some s \<Rightarrow> s), ch_NewSHA = ce_new_sha r,
     ch_Added = ce_added r, ch_Removed = ce_removed r, ch_Reviewed = ce_reviewed r,
     ch_CreatedAt = of_stamp (ce_created_at r)\<rparr>"

definition ListByDevice ::
  "int \<Rightarrow> int \<Rightarrow> int \<Rightarrow> changes_db \<Rightarrow> (ch_error + ChangeEvent list) \<times> changes_db" where
  "ListByDevice tenantID deviceID limit db =
     (let limit = (if limit \<le> 0 \<or> 500 < limit then 100 else limit)
      in exec ChDB db (\<lambda>db.
           (Inr (map scan_change (take (nat limit) (order_desc ce_created_at
              (filter (\<lambda>r. device_of (ce_device r) db = Some tenantID \<and>
                  (0 < deviceID \<longrightarrow> ce_device r = deviceID)) (rows (change_events db)))))), db)))"

definition List_changes :: "int \<Rightarrow> int \<Rightarrow> changes_db \<Rightarrow> (ch_error + ChangeEvent list) \<times> changes_db" where
  "List_changes tenantID limit db = ListByDevice tenantID 0 limit db"

definition Diff_event ::
  "store_read \<Rightarrow> Engine \<Rightarrow> int \<Rightarrow> int \<Rightarrow> changes_db \<Rightarrow> (ch_error + string) \<times> changes_db" where
  "Diff_event read eng tenantID eventID db = exec ChDB db (\<lambda>db.
     case query_row (\<lambda>r. ce_id r = eventID) (change_events db) of
       None \<Rightarrow> (Inl ChNoRows, db)
     | Some r \<Rightarrow> exec ChDB db (\<lambda>db.
         case device_of (ce_device r) db of
           None \<Rightarrow> (Inl ChNoRows, db)
         | Some tid \<Rightarrow>
             if tid \<noteq> tenantID then (Inl ChNoRows, db)
             else (case read tenantID (ce_device r) (ce_artifact r) (ce_new_sha r) of
                 Inl e \<Rightarrow> (Inl (ChRead e), db)
               | Inr newBody \<Rightarrow>
                   (let oldSHA = (case ce_old_sha r of None \<Rightarrow> '''' | Some s \<Rightarrow> s);
                        oldBody = old_body read tenantID (ce_device r) (ce_artifact r)
                          (if oldSHA \<noteq> '''' then Some oldSHA else None)
                    in (Inr (Unified (Diff eng (ce_artifact r) oldBody newBody)), db)))))"

definition MarkReviewed :: "int \<Rightarrow> int \<Rightarrow> changes_db \<Rightarrow> (ch_error + unit) \<times> changes_db" where
  "MarkReviewed tenantID eventID db = exec ChDB db (\<lambda>db.
     (Inr (), db\<lparr>change_events := update_rows
        (\<lambda>r. ce_id r = eventID \<and> device_of (ce_device r) db = Some tenantID)
        (\<lambda>r. r\<lparr>ce_reviewed := True\<rparr>) (change_events db)\<rparr>))"

section \<open>Properties\<close>

lemma previous_sha_latest:
  assumes "previous_sha d a n db = Some s"
  shows "\<exists>v \<in> set (config_versions db). cv_device v = d \<and> cv_artifact v = a \<and> cv_sha v = s \<and> s \<noteq> n \<and>
    (\<forall>w \<in> set (config_versions db). cv_device w = d \<and> cv_artifact w = a \<and> cv_sha w \<noteq> n \<longrightarrow>
       cv_created_at w \<le> cv_created_at v)"
proof -
  let ?P = "\<lambda>v. cv_device v = d \<and> cv_artifact v = a \<and> cv_sha v \<noteq> n"
  from assms obtain v vs where o: "order_desc cv_created_at (filter ?P (config_versions db)) = v # vs"
    "cv_sha v = s"
    by (auto simp: previous_sha_def split: list.splits)
  have m: "set (v # vs) = set (filter ?P (config_versions db))"
    by (simp flip: o(1))
  have "sorted (map (\<lambda>r. - cv_created_at r) (v # vs))"
    unfolding o(1) [symmetric] order_desc_def by (rule sorted_sort_key)
  then have "\<forall>w \<in> set (v # vs). cv_created_at w \<le> cv_created_at v" by auto
  with m o(2) show ?thesis by (intro bexI [of _ v]) auto
qed

text \<open>Recording. Without database failures, \<open>Record\<close> inserts an event exactly when the
  new version is readable and differs from its predecessor after the ignore rules, with the
  line counts of the minimal diff; otherwise the table is as it was.\<close>

theorem record_iff_changed:
  fixes db :: changes_db
  assumes "faults db = []"
  shows "case read t d art sha of
     Inl e \<Rightarrow> Record read eng t d art sha now db = (Inl (ChRead e), db)
   | Inr new \<Rightarrow>
       if filter_text eng art (old_body read t d art (previous_sha d art sha db)) = filter_text eng art new
       then Record read eng t d art sha now db = (Inr None, db)
       else \<exists>ev s. Record read eng t d art sha now db = (Inr (Some ev), s) \<and>
          rows (change_events s) = rows (change_events db) @
            [\<lparr>ce_id = next_rowid (change_events db), ce_device = d, ce_artifact = art,
              ce_old_sha = previous_sha d art sha db, ce_new_sha = sha,
              ce_added = AddedLines (Diff eng art (old_body read t d art (previous_sha d art sha db)) new),
              ce_removed = RemovedLines (Diff eng art (old_body read t d art (previous_sha d art sha db)) new),
              ce_reviewed = False, ce_created_at = rfc3339 now\<rparr>]"
  using assms(1)
  by (auto simp: Record_def Let_def Diff_def unified_def nullableString_def split: sum.splits option.splits)

theorem record_iff_changed_witness:
  "\<exists>ev s. Record (\<lambda>t d a s. Inr s) \<lparr>Rules = []\<rparr> 1 2 ''cfg'' ''v1'' 0
     \<lparr>faults = [], last_rowid = 0, config_versions = [], change_events = empty_table,
      device_tenants = [(2, 1)]\<rparr> = (Inr (Some ev), s)"
proof -
  let ?db = "\<lparr>faults = [], last_rowid = 0, config_versions = [], change_events = empty_table,
      device_tenants = [(2, 1)]\<rparr> :: changes_db"
  have "filter_text \<lparr>Rules = []\<rparr> ''cfg'' (old_body (\<lambda>t d a s. Inr s) 1 2 ''cfg''
      (previous_sha 2 ''cfg'' ''v1'' ?db)) \<noteq> filter_text \<lparr>Rules = []\<rparr> ''cfg'' ''v1''"
    by (simp add: filter_text_def old_body_def previous_sha_def order_desc_def)
  then show ?thesis
    using record_iff_changed [where db = ?db and read = "\<lambda>t d a s. Inr s" and t = 1 and d = 2
        and art = "''cfg''" and sha = "''v1''" and eng = "\<lparr>Rules = []\<rparr>" and now = 0]
    by auto
qed

text \<open>The tenant gate: another tenant's event cannot be read or flagged.\<close>

lemma diff_event_gate:
  assumes "Diff_event read eng t i db = (Inr txt, s)"
  shows "\<exists>r \<in> set (rows (change_events db)). ce_id r = i \<and> device_of (ce_device r) db = Some t"
proof -
  have dev: "device_of d (db\<lparr>faults := fs\<rparr>) = device_of d db" for d fs
    by (simp add: device_of_def)
  have "post (\<lambda>x s. \<forall>txt. x = Inr txt \<longrightarrow> (\<exists>r \<in> set (rows (change_events db)). ce_id r = i \<and>
      device_of (ce_device r) db = Some t)) (Diff_event read eng t i db)"
    unfolding Diff_event_def Let_def
    by (auto simp: dev split: option.splits sum.splits intro!: post_exec dest!: query_row_SomeD) blast+
  with assms show ?thesis by simp
qed

lemma mark_reviewed_gate:
  "post (\<lambda>x s. filter (\<lambda>r. device_of (ce_device r) db \<noteq> Some t) (rows (change_events s)) =
      filter (\<lambda>r. device_of (ce_device r) db \<noteq> Some t) (rows (change_events db)))
    (MarkReviewed t i db)"
proof -
  have "filter (\<lambda>r. device_of (ce_device r) db \<noteq> Some t)
      (map (\<lambda>r. if ce_id r = i \<and> device_of (ce_device r) (db\<lparr>faults := fs\<rparr>) = Some t
         then r\<lparr>ce_reviewed := True\<rparr> else r) xs) =
      filter (\<lambda>r. device_of (ce_device r) db \<noteq> Some t) xs" for fs xs
    by (induction xs) (auto simp: device_of_def)
  then show ?thesis unfolding MarkReviewed_def by (intro post_exec) simp_all
qed

end
