(* ===== verification/Compliance.thy ===== *)
theory Compliance
  imports Sql "HOL-Library.Sublist" "HOL-Library.List_Lexorder"
begin

text \<open>
  The compliance engine of \<open>internal/compliance/compliance.go\<close>: rule validation and storage,
  the evaluation of a rule on a text, and \<open>EvaluateDevice\<close>, which keeps one finding per
  device and applicable rule and reports changes of status. \<open>regexp.Compile\<close> and the decoding
  of a JSON array of strings are parameters (\<open>compile\<close>, \<open>json_strings\<close>); the calls of
  \<open>OnTransition\<close> are collected in \<open>notified\<close>. A transaction that fails leaves the tables as
  they were.
\<close>

record Rule =
  ru_ID :: int
  ru_TenantID :: int
  ru_GroupID :: "int option"
  ru_Name :: string
  ru_Kind :: string
  ru_Pattern :: string
  ru_Severity :: string
  ru_Description :: string

record Finding =
  fi_DeviceID :: int
  fi_RuleID :: int
  fi_Status :: string
  fi_Detail :: string

record finding_row =
  fr_id :: int
  fr_tenant :: int
  fr_device :: int
  fr_rule :: int
  fr_status :: string
  fr_detail :: string
  fr_created_at :: stamp

record compliance_device =
  cd_id :: int
  cd_tenant :: int
  cd_group :: "int option"

record compliance_db = conn +
  compliance_rules :: "Rule sql_table"
  compliance_findings :: "finding_row sql_table"
  compliance_devices :: "compliance_device list"
  notified :: "(int \<times> Finding \<times> string) list"

datatype co_error = CoErr string | CoDB string | CoNoRows

type_synonym re_compile = "string \<Rightarrow> (string \<Rightarrow> bool) option"
type_synonym json_list = "string \<Rightarrow> string list option"

section \<open>Rules\<close>

definition defaultSeverity :: "string \<Rightarrow> string" where
  "defaultSeverity s =
     (if s = ''low'' \<or> s = ''medium'' \<or> s = ''high'' \<or> s = ''critical'' then s else ''medium'')"

definition validateRule :: "re_compile \<Rightarrow> json_list \<Rightarrow> Rule \<Rightarrow> co_error option" where
  "validateRule compile json_strings r =
     (if ru_TenantID r \<le> 0 \<or> ru_Name r = '''' \<or> ru_Pattern r = '''' then
        Some (CoErr ''tenant_id, name, pattern required'')
      else if ru_Kind r = ''regex'' then
        (if compile (ru_Pattern r) = None then Some (CoErr ''invalid regex'') else None)
      else if ru_Kind r = ''must_include'' \<or> ru_Kind r = ''must_exclude'' then None
      else if ru_Kind r = ''ordered_block'' then
        (if json_strings (ru_Pattern r) = None
         then Some (CoErr ''ordered_block pattern must be JSON array of strings'') else None)
      else Some (CoErr ''unknown kind''))"

text \<open>The two partial unique indexes on the rules' names.\<close>

definition name_taken :: "Rule \<Rightarrow> compliance_db \<Rightarrow> bool" where
  "name_taken r db \<longleftrightarrow> (\<exists>q \<in> set (rows (compliance_rules db)).
     ru_TenantID q = ru_TenantID r \<and> ru_Name q = ru_Name r \<and> ru_GroupID q = ru_GroupID r)"

definition insert_rule :: "Rule \<Rightarrow> compliance_db \<Rightarrow> (co_error + int) \<times> compliance_db" where
  "insert_rule r db = exec CoDB db (\<lambda>db.
     if name_taken r db then (Inl (CoDB ''UNIQUE constraint failed''), db)
     else let i = next_rowid (compliance_rules db)
       in (Inr i, db\<lparr>compliance_rules := insert_row (\<lambda>i. r\<lparr>ru_ID := i\<rparr>) (compliance_rules db),
             last_rowid := i\<rparr>))"

definition CreateRule ::
  "re_compile \<Rightarrow> json_list \<Rightarrow> Rule \<Rightarrow> compliance_db \<Rightarrow> (co_error + Rule) \<times> compliance_db" where
  "CreateRule compile json_strings r db =
     (case validateRule compile json_strings r of
        Some e \<Rightarrow> (Inl e, db)
      | None \<Rightarrow>
          (let r1 = r\<lparr>ru_Severity := defaultSeverity (ru_Severity r)\<rparr>
           in and_then (insert_rule r1 db) (\<lambda>i db. (Inr (r1\<lparr>ru_ID := i\<rparr>), db))))"

definition selectRuleIDForScope :: "int \<Rightarrow> string \<Rightarrow> int option \<Rightarrow> compliance_db \<Rightarrow> int option" where
  "selectRuleIDForScope tenantID name groupID db =
     map_option ru_ID (query_row (\<lambda>q. ru_TenantID q = tenantID \<and> ru_Name q = name \<and>
       ru_GroupID q = groupID) (compliance_rules db))"

text \<open>The transaction's body and, around it, \<open>BeginTx\<close>, \<open>Commit\<close> and the deferred \<open>Rollback\<close>.\<close>

definition upsert_body :: "Rule \<Rightarrow> compliance_db \<Rightarrow> (co_error + int) \<times> compliance_db" where
  "upsert_body r db = exec CoDB db (\<lambda>db.
     case selectRuleIDForScope (ru_TenantID r) (ru_Name r) (ru_GroupID r) db of
       Some i \<Rightarrow> exec CoDB db (\<lambda>db.
         (Inr i, db\<lparr>compliance_rules := update_rows (\<lambda>q. ru_ID q = i)
            (\<lambda>q. q\<lparr>ru_Kind := ru_Kind r, ru_Pattern := ru_Pattern r, ru_Severity := ru_Severity r,
                  ru_Description := ru_Description r\<rparr>) (compliance_rules db)\<rparr>))
     | None \<Rightarrow> insert_rule r db)"

definition UpsertRule ::
  "re_compile \<Rightarrow> json_list \<Rightarrow> Rule \<Rightarrow> compliance_db \<Rightarrow> (co_error + Rule) \<times> compliance_db" where
  "UpsertRule compile json_strings r0 db =
     (case validateRule compile json_strings r0 of
        Some e \<Rightarrow> (Inl e, db)
      | None \<Rightarrow>
          (let r = r0\<lparr>ru_Severity := defaultSeverity (ru_Severity r0)\<rparr>
           in exec CoDB db (\<lambda>db.
                case upsert_body r db of
                  (Inl e, db') \<Rightarrow> (Inl e, db\<lparr>faults := faults db'\<rparr>)
                | (Inr i, db') \<Rightarrow>
                    (case stmt db' of
                       (Some e, db'') \<Rightarrow> (Inl (CoDB e), db\<lparr>faults := faults db''\<rparr>)
                     | (None, db'') \<Rightarrow> (Inr (r\<lparr>ru_ID := i\<rparr>), db'')))))"

definition by_name :: "Rule \<Rightarrow> nat list" where
  "by_name r = map of_char (ru_Name r)"

definition ListRules :: "int \<Rightarrow> compliance_db \<Rightarrow> (co_error + Rule list) \<times> compliance_db" where
  "ListRules tenantID db = exec CoDB db (\<lambda>db.
     (Inr (order_asc by_name (filter (\<lambda>r. ru_TenantID r = tenantID) (rows (compliance_rules db)))), db))"

text \<open>Deleting a rule deletes its findings (\<open>ON DELETE CASCADE\<close>).\<close>

definition DeleteRule :: "int \<Rightarrow> int \<Rightarrow> compliance_db \<Rightarrow> (co_error + unit) \<times> compliance_db" where
  "DeleteRule tenantID i db = exec CoDB db (\<lambda>db.
     let D = (\<lambda>r. ru_TenantID r = tenantID \<and> ru_ID r = i);
         gone = map ru_ID (filter D (rows (compliance_rules db)))
     in (Inr (), db\<lparr>compliance_rules := delete_rows D (compliance_rules db),
           compliance_findings := delete_rows (\<lambda>f. fr_rule f \<in> set gone) (compliance_findings db)\<rparr>))"

section \<open>Evaluation of a text\<close>

fun ordered_from :: "string list \<Rightarrow> string list \<Rightarrow> bool" where
  "ordered_from [] want = False"
| "ordered_from (line # lines) want =
     (if line = hd want
      then (if length want = 1 then True else ordered_from lines (tl want))
      else ordered_from lines want)"

definition orderedContains :: "string \<Rightarrow> string list \<Rightarrow> bool" where
  "orderedContains text want =
     (if length want = 0 then True else ordered_from (split_char (CHR 0x0A) text) want)"

definition verdict :: "Rule \<Rightarrow> string \<Rightarrow> string \<Rightarrow> Finding" where
  "verdict r status detail =
     \<lparr>fi_DeviceID = 0, fi_RuleID = ru_ID r, fi_Status = status, fi_Detail = detail\<rparr>"

definition EvaluateText :: "re_compile \<Rightarrow> json_list \<Rightarrow> Rule \<Rightarrow> string \<Rightarrow> Finding" where
  "EvaluateText compile json_strings r text =
     (if ru_Kind r = ''regex'' then
        (case compile (ru_Pattern r) of
           None \<Rightarrow> verdict r ''fail'' ''invalid regex''
         | Some m \<Rightarrow> if m text then verdict r ''pass'' '''' else verdict r ''fail'' ''pattern not found'')
      else if ru_Kind r = ''must_include'' then
        (if str_contains text (ru_Pattern r) then verdict r ''pass'' ''''
         else verdict r ''fail'' ''missing required text'')
      else if ru_Kind r = ''must_exclude'' then
        (if \<not> str_contains text (ru_Pattern r) then verdict r ''pass'' ''''
         else verdict r ''fail'' ''forbidden text present'')
      else if ru_Kind r = ''ordered_block'' then
        (case json_strings (ru_Pattern r) of
           None \<Rightarrow> verdict r ''fail'' ''ordered_block pattern must be JSON array''
         | Some want \<Rightarrow>
             if orderedContains text want then verdict r ''pass'' ''''
             else verdict r ''fail'' ''ordered block not found'')
      else verdict r ''fail'' ''unknown rule kind'')"

section \<open>Evaluation of a device\<close>

definition applicable :: "int \<Rightarrow> int option \<Rightarrow> Rule \<Rightarrow> bool" where
  "applicable tenantID grp r \<longleftrightarrow> ru_TenantID r = tenantID \<and>
     (ru_GroupID r = None \<or> grp \<noteq> None \<and> ru_GroupID r = grp)"

definition listRulesForDevice ::
  "int \<Rightarrow> int option \<Rightarrow> compliance_db \<Rightarrow> (co_error + Rule list) \<times> compliance_db" where
  "listRulesForDevice tenantID grp db = exec CoDB db (\<lambda>db.
     (Inr (order_asc by_name (filter (applicable tenantID grp) (rows (compliance_rules db)))), db))"

text \<open>The previous status, empty when there is none or the query fails.\<close>

definition prev_status :: "int \<Rightarrow> int \<Rightarrow> compliance_db \<Rightarrow> string \<times> compliance_db" where
  "prev_status deviceID ruleID db = (case stmt db of
     (Some e, db) \<Rightarrow> ('''', db)
   | (None, db) \<Rightarrow>
       (case query_row (\<lambda>f. fr_device f = deviceID \<and> fr_rule f = ruleID) (compliance_findings db) of
          None \<Rightarrow> '''' | Some f \<Rightarrow> fr_status f, db))"

definition upsert_finding ::
  "int \<Rightarrow> Finding \<Rightarrow> time \<Rightarrow> compliance_db \<Rightarrow> (co_error + unit) \<times> compliance_db" where
  "upsert_finding tenantID f now db = exec CoDB db (\<lambda>db.
     let P = (\<lambda>g. fr_device g = fi_DeviceID f \<and> fr_rule g = fi_RuleID f)
     in if query_row P (compliance_findings db) \<noteq> None
        then (Inr (), db\<lparr>compliance_findings := update_rows P (\<lambda>g. g\<lparr>fr_status := fi_Status f,
               fr_detail := fi_Detail f, fr_created_at := rfc3339 now\<rparr>) (compliance_findings db)\<rparr>)
        else (Inr (), db\<lparr>compliance_findings := insert_row (\<lambda>i. \<lparr>fr_id = i, fr_tenant = tenantID,
               fr_device = fi_DeviceID f, fr_rule = fi_RuleID f, fr_status = fi_Status f,
               fr_detail = fi_Detail f, fr_created_at = rfc3339 now\<rparr>) (compliance_findings db),
               last_rowid := next_rowid (compliance_findings db)\<rparr>))"

text \<open>The loop over the rules, with the calls of \<open>OnTransition\<close>.\<close>

fun evaluate_rules ::
  "re_compile \<Rightarrow> json_list \<Rightarrow> int \<Rightarrow> int \<Rightarrow> string \<Rightarrow> time \<Rightarrow> Rule list \<Rightarrow> compliance_db
    \<Rightarrow> (co_error + Finding list) \<times> compliance_db" where
  "evaluate_rules compile json_strings tenantID deviceID text now [] db = (Inr [], db)"
| "evaluate_rules compile json_strings tenantID deviceID text now (r # rs) db =
     (let f = (EvaluateText compile json_strings r text)\<lparr>fi_DeviceID := deviceID\<rparr>;
          (prev, db1) = prev_status deviceID (ru_ID r) db
      in and_then (upsert_finding tenantID f now db1) (\<lambda>_ db2.
           let db3 = (if prev \<noteq> '''' \<and> prev \<noteq> fi_Status f
                      then db2\<lparr>notified := notified db2 @ [(tenantID, f, prev)]\<rparr> else db2)
           in and_then (evaluate_rules compile json_strings tenantID deviceID text now rs db3)
                (\<lambda>fs db4. (Inr (f # fs), db4))))"

definition EvaluateDevice ::
  "re_compile \<Rightarrow> json_list \<Rightarrow> int \<Rightarrow> int \<Rightarrow> string \<Rightarrow> time \<Rightarrow> compliance_db
    \<Rightarrow> (co_error + Finding list) \<times> compliance_db" where
  "EvaluateDevice compile json_strings tenantID deviceID text now db = exec CoDB db (\<lambda>db.
     case find (\<lambda>d. cd_tenant d = tenantID \<and> cd_id d = deviceID) (compliance_devices db) of
       None \<Rightarrow> (Inl (CoErr ''device not found''), db)
     | Some d \<Rightarrow>
         and_then (listRulesForDevice tenantID (cd_group d) db) (\<lambda>rules db.
         and_then (evaluate_rules compile json_strings tenantID deviceID text now rules db) (\<lambda>out db.
         exec CoDB db (\<lambda>db.
           (Inr out, db\<lparr>compliance_findings := delete_rows (\<lambda>f. fr_tenant f = tenantID \<and>
               fr_device f = deviceID \<and> fr_rule f \<notin> ru_ID `
                 set (filter (applicable tenantID (cd_group d)) (rows (compliance_rules db))))
               (compliance_findings db)\<rparr>)))))"

definition by_device_rule :: "finding_row \<Rightarrow> int list" where
  "by_device_rule f = [fr_device f, fr_rule f]"

definition ListFindings :: "int \<Rightarrow> compliance_db \<Rightarrow> (co_error + Finding list) \<times> compliance_db" where
  "ListFindings tenantID db = exec CoDB db (\<lambda>db.
     (Inr (map (\<lambda>f. \<lparr>fi_DeviceID = fr_device f, fi_RuleID = fr_rule f, fi_Status = fr_status f,
                    fi_Detail = fr_detail f\<rparr>)
        (order_asc by_device_rule (filter (\<lambda>f. fr_tenant f = tenantID)
           (rows (compliance_findings db))))), db))"

section \<open>The findings as a map\<close>

text \<open>
  What the table of findings says: for a device and a rule the owning tenant, the status
  and its detail. The operations are specified on this map.
\<close>

abbreviation fkey :: "finding_row \<Rightarrow> int \<times> int" where
  "fkey f \<equiv> (fr_device f, fr_rule f)"

definition findings_map :: "compliance_db \<Rightarrow> int \<times> int \<Rightarrow> (int \<times> string \<times> string) option" where
  "findings_map db k = map_option (\<lambda>f. (fr_tenant f, fr_status f, fr_detail f))
     (lookup fkey k (compliance_findings db))"

definition co_inv :: "compliance_db \<Rightarrow> bool" where
  "co_inv db \<longleftrightarrow> distinct (map fkey (rows (compliance_findings db))) \<and>
     distinct (map ru_ID (rows (compliance_rules db)))"

lemma query_fkey:
  "query_row (\<lambda>g. fr_device g = d \<and> fr_rule g = r) t = lookup fkey (d, r) t"
  by (simp add: lookup_def)

text \<open>One upsert sets one entry; an existing entry keeps its tenant.\<close>

lemma upsert_finding_ok:
  assumes "faults db = []" and "co_inv db"
  obtains s where "upsert_finding t f now db = (Inr (), s)" "faults s = []" "co_inv s"
    "compliance_rules s = compliance_rules db" "compliance_devices s = compliance_devices db"
    "notified s = notified db"
    "findings_map s = (findings_map db)((fi_DeviceID f, fi_RuleID f) \<mapsto>
       (case findings_map db (fi_DeviceID f, fi_RuleID f) of
          None \<Rightarrow> (t, fi_Status f, fi_Detail f) | Some (u, st, de) \<Rightarrow> (u, fi_Status f, fi_Detail f)))"
proof -
  let ?k = "(fi_DeviceID f, fi_RuleID f)"
  obtain x s where u: "upsert_finding t f now db = (x, s)" by fastforce
  show thesis
  proof (cases "lookup fkey ?k (compliance_findings db)")
    case None
    then have s: "x = Inr ()" "s = db\<lparr>compliance_findings := insert_row (\<lambda>i. \<lparr>fr_id = i, fr_tenant = t,
               fr_device = fi_DeviceID f, fr_rule = fi_RuleID f, fr_status = fi_Status f,
               fr_detail = fi_Detail f, fr_created_at = rfc3339 now\<rparr>) (compliance_findings db),
               last_rowid := next_rowid (compliance_findings db)\<rparr>"
      using u assms(1) by (auto simp: upsert_finding_def Let_def query_fkey)
    have "co_inv s"
      unfolding co_inv_def
    proof
      show "distinct (map fkey (rows (compliance_findings s)))"
        using assms(2) None unfolding s by (simp only: co_inv_def) (auto simp: lookup_None)
    qed (use assms(2) in \<open>simp add: s co_inv_def\<close>)
    moreover have "findings_map s = (findings_map db)(?k \<mapsto> (t, fi_Status f, fi_Detail f))"
      using None by (auto simp: findings_map_def s lookup_insert fun_eq_iff split: option.splits)
    moreover have "findings_map db ?k = None" using None by (simp add: findings_map_def)
    ultimately show thesis using that [OF u [unfolded s(1)]] assms(1) by (simp add: s)
  next
    case (Some g)
    then have s: "x = Inr ()" "s = db\<lparr>compliance_findings := update_rows (\<lambda>g. fr_device g = fi_DeviceID f \<and> fr_rule g = fi_RuleID f)
       (\<lambda>g. g\<lparr>fr_status := fi_Status f, fr_detail := fi_Detail f, fr_created_at := rfc3339 now\<rparr>)
       (compliance_findings db)\<rparr>"
      using u assms(1) by (auto simp: upsert_finding_def Let_def query_fkey)
    have "co_inv s"
      using assms(2) unfolding co_inv_def s
      by (auto simp del: rows_update_rows intro!: distinct_update)
    moreover have "findings_map s = (findings_map db)(?k \<mapsto> (fr_tenant g, fi_Status f, fi_Detail f))"
    proof
      fix k
      show "findings_map s k = ((findings_map db)(?k \<mapsto> (fr_tenant g, fi_Status f, fi_Detail f))) k"
      proof (cases "k = ?k")
        case True
        with Some lookup_SomeD [OF Some] show ?thesis
          by (simp add: findings_map_def s lookup_update)
      next
        case False
        then have "fkey h \<noteq> ?k" if "lookup fkey k (compliance_findings db) = Some h" for h
          using lookup_SomeD [OF that] by simp
        then show ?thesis
          using False by (cases "lookup fkey k (compliance_findings db)")
            (auto simp: findings_map_def s lookup_update)
      qed
    qed
    moreover have "findings_map db ?k = Some (fr_tenant g, fr_status g, fr_detail g)"
      using Some by (simp add: findings_map_def)
    ultimately show thesis using that [OF u [unfolded s(1)]] assms(1) by (simp add: s)
  qed
qed

text \<open>The verdict on a device, and the specification of an evaluation on the map.\<close>

definition device_verdict :: "re_compile \<Rightarrow> json_list \<Rightarrow> int \<Rightarrow> string \<Rightarrow> Rule \<Rightarrow> Finding" where
  "device_verdict compile json_strings d text r =
     (EvaluateText compile json_strings r text)\<lparr>fi_DeviceID := d\<rparr>"

lemma device_verdict_ids [simp]:
  "fi_DeviceID (device_verdict compile js d text r) = d"
  "fi_RuleID (device_verdict compile js d text r) = ru_ID r"
  by (auto simp: device_verdict_def EvaluateText_def verdict_def split: option.splits)

definition judge ::
  "int \<Rightarrow> int \<Rightarrow> (Rule \<Rightarrow> Finding) \<Rightarrow> Rule list \<Rightarrow> (int \<times> int \<Rightarrow> (int \<times> string \<times> string) option) \<Rightarrow>
    int \<times> int \<Rightarrow> (int \<times> string \<times> string) option" where
  "judge t d v rs m k =
     (if fst k = d then
        (case find (\<lambda>r. ru_ID r = snd k) rs of
           None \<Rightarrow> m k
         | Some r \<Rightarrow> Some (case m k of None \<Rightarrow> t | Some (u, _) \<Rightarrow> u, fi_Status (v r), fi_Detail (v r)))
      else m k)"

definition transitions ::
  "int \<Rightarrow> int \<Rightarrow> (Rule \<Rightarrow> Finding) \<Rightarrow> Rule list \<Rightarrow> (int \<times> int \<Rightarrow> (int \<times> string \<times> string) option) \<Rightarrow>
    (int \<times> Finding \<times> string) list" where
  "transitions t d v rs m = List.map_filter (\<lambda>r. case m (d, ru_ID r) of None \<Rightarrow> None
     | Some (_, st, _) \<Rightarrow> if st \<noteq> '''' \<and> st \<noteq> fi_Status (v r) then Some (t, v r, st) else None) rs"

lemma transitions_Cons:
  "transitions t d v (r # rs) m = (case m (d, ru_ID r) of None \<Rightarrow> []
     | Some (_, st, _) \<Rightarrow> if st \<noteq> '''' \<and> st \<noteq> fi_Status (v r) then [(t, v r, st)] else []) @
     transitions t d v rs m"
  by (auto simp: transitions_def map_filter_simps split: option.splits)

lemma transitions_cong:
  "(\<And>q. q \<in> set rs \<Longrightarrow> m (d, ru_ID q) = m' (d, ru_ID q)) \<Longrightarrow>
   transitions t d v rs m = transitions t d v rs m'"
proof (induction rs)
  case Nil
  then show ?case by (simp add: transitions_def map_filter_simps)
next
  case (Cons r rs)
  then have "m (d, ru_ID r) = m' (d, ru_ID r)" by simp
  with Cons show ?case by (simp add: transitions_Cons)
qed

lemma prev_status_ok:
  "faults db = [] \<Longrightarrow> prev_status d r db =
     (case findings_map db (d, r) of None \<Rightarrow> '''' | Some (_, st, _) \<Rightarrow> st, db)"
  by (simp add: prev_status_def query_fkey findings_map_def split: option.splits)

lemma evaluate_rules_ok:
  assumes "faults db = []" and "co_inv db" and "distinct (map ru_ID rs)"
  shows "\<exists>s. evaluate_rules compile js t d text now rs db = (Inr (map (device_verdict compile js d text) rs), s) \<and>
    faults s = [] \<and> co_inv s \<and> compliance_rules s = compliance_rules db \<and>
    compliance_devices s = compliance_devices db \<and>
    findings_map s = judge t d (device_verdict compile js d text) rs (findings_map db) \<and>
    notified s = notified db @ transitions t d (device_verdict compile js d text) rs (findings_map db)"
  using assms
proof (induction rs arbitrary: db)
  case Nil
  then show ?case by (auto simp: judge_def transitions_def List.map_filter_def fun_eq_iff)
next
  case (Cons r rs)
  let ?v = "device_verdict compile js d text"
  let ?prev = "case findings_map db (d, ru_ID r) of None \<Rightarrow> '''' | Some (_, st, _) \<Rightarrow> st"
  have pv: "prev_status d (ru_ID r) db = (?prev, db)"
    using Cons.prems(1) by (rule prev_status_ok)
  obtain s1 where s1: "upsert_finding t (?v r) now db = (Inr (), s1)" "faults s1 = []" "co_inv s1"
    "compliance_rules s1 = compliance_rules db" "compliance_devices s1 = compliance_devices db"
    "notified s1 = notified db"
    "findings_map s1 = (findings_map db)((d, ru_ID r) \<mapsto>
       (case findings_map db (d, ru_ID r) of None \<Rightarrow> (t, fi_Status (?v r), fi_Detail (?v r))
        | Some (u, st, de) \<Rightarrow> (u, fi_Status (?v r), fi_Detail (?v r))))"
    using upsert_finding_ok [OF Cons.prems(1,2), of t "?v r" now] by auto
  define s2 where "s2 = (if ?prev \<noteq> '''' \<and> ?prev \<noteq> fi_Status (?v r)
    then s1\<lparr>notified := notified s1 @ [(t, ?v r, ?prev)]\<rparr> else s1)"
  have s2: "faults s2 = []" "co_inv s2" "findings_map s2 = findings_map s1"
    "compliance_rules s2 = compliance_rules db" "compliance_devices s2 = compliance_devices db"
    using s1 by (auto simp: s2_def co_inv_def findings_map_def fun_eq_iff)
  from Cons.IH [OF s2(1,2)] Cons.prems(3) obtain s where
    s: "evaluate_rules compile js t d text now rs s2 = (Inr (map ?v rs), s)"
    "faults s = []" "co_inv s" "compliance_rules s = compliance_rules s2"
    "compliance_devices s = compliance_devices s2"
    "findings_map s = judge t d ?v rs (findings_map s2)"
    "notified s = notified s2 @ transitions t d ?v rs (findings_map s2)"
    by auto
  have fresh: "ru_ID q \<noteq> ru_ID r" if "q \<in> set rs" for q
    using Cons.prems(3) that by (auto simp: image_iff)
  then have nf: "find (\<lambda>q. ru_ID q = ru_ID r) rs = None"
    by (auto simp: find_None_iff)
  have ev: "(EvaluateText compile js r text)\<lparr>fi_DeviceID := d\<rparr> = ?v r"
    by (simp add: device_verdict_def)
  have run: "evaluate_rules compile js t d text now (r # rs) db = (Inr (map ?v (r # rs)), s)"
    by (simp only: evaluate_rules.simps Let_def ev pv prod.case s1(1) and_then_simps
        s2_def [symmetric] s(1) list.map)
  have "judge t d ?v rs (findings_map s1) k = judge t d ?v (r # rs) (findings_map db) k" for k
    using nf by (auto simp: judge_def s1(7) split: option.splits)
  moreover have "transitions t d ?v rs (findings_map s1) = transitions t d ?v rs (findings_map db)"
    by (rule transitions_cong) (use fresh in \<open>auto simp: s1(7)\<close>)
  moreover have "notified s2 = notified db @ (case findings_map db (d, ru_ID r) of None \<Rightarrow> []
      | Some (_, st, _) \<Rightarrow> if st \<noteq> '''' \<and> st \<noteq> fi_Status (?v r) then [(t, ?v r, st)] else [])"
    using s1(6) by (auto simp: s2_def split: option.splits)
  ultimately show ?case
    using run s s2 by (intro exI [of _ s]) (auto simp: fun_eq_iff transitions_Cons
      simp del: evaluate_rules.simps)
qed

lemma distinct_order: "distinct (map f xs) \<Longrightarrow> distinct (map f (order_asc k xs))"
  by (simp add: distinct_map order_asc_def)

lemma distinct_rules: "co_inv db \<Longrightarrow> distinct (map ru_ID (filter P (rows (compliance_rules db))))"
  by (simp add: co_inv_def distinct_map_filter)

lemma evaluate_device_ok:
  assumes "faults db = []" and "co_inv db"
    and "find (\<lambda>x. cd_tenant x = t \<and> cd_id x = d) (compliance_devices db) = Some dev"
  shows "\<exists>s rules. rules = order_asc by_name (filter (applicable t (cd_group dev)) (rows (compliance_rules db))) \<and>
    EvaluateDevice compile js t d text now db = (Inr (map (device_verdict compile js d text) rules), s) \<and>
    findings_map s = (\<lambda>(d', i).
      if d' \<noteq> d then findings_map db (d', i)
      else case find (\<lambda>r. ru_ID r = i) rules of
        Some r \<Rightarrow> Some (case findings_map db (d, i) of None \<Rightarrow> t | Some (u, _) \<Rightarrow> u,
          fi_Status (device_verdict compile js d text r), fi_Detail (device_verdict compile js d text r))
      | None \<Rightarrow> (case findings_map db (d, i) of None \<Rightarrow> None
          | Some (u, x) \<Rightarrow> if u = t then None else Some (u, x))) \<and>
    notified s = notified db @ transitions t d (device_verdict compile js d text) rules (findings_map db) \<and>
    faults s = [] \<and> co_inv s \<and> compliance_rules s = compliance_rules db \<and>
    compliance_devices s = compliance_devices db"
proof -
  let ?v = "device_verdict compile js d text"
  let ?A = "filter (applicable t (cd_group dev)) (rows (compliance_rules db))"
  define rules where "rules = order_asc by_name ?A"
  obtain s where s: "evaluate_rules compile js t d text now rules db = (Inr (map ?v rules), s)"
    "faults s = []" "co_inv s" "compliance_rules s = compliance_rules db"
    "compliance_devices s = compliance_devices db"
    "findings_map s = judge t d ?v rules (findings_map db)"
    "notified s = notified db @ transitions t d ?v rules (findings_map db)"
    using evaluate_rules_ok [OF assms(1,2), of rules compile js t d "text" now]
      distinct_order [OF distinct_rules [OF assms(2)]] by (auto simp: rules_def)
  define D where "D = (\<lambda>f :: finding_row. fr_tenant f = t \<and> fr_device f = d \<and> fr_rule f \<notin> ru_ID ` set ?A)"
  define s' where "s' = s\<lparr>compliance_findings := delete_rows D (compliance_findings s)\<rparr>"
  have run: "EvaluateDevice compile js t d text now db = (Inr (map ?v rules), s')"
    using s assms(1,3)
    by (simp add: EvaluateDevice_def listRulesForDevice_def rules_def [symmetric] s'_def D_def)
  have dist: "distinct (map fkey (rows (compliance_findings s)))"
    using s(3) by (simp only: co_inv_def)
  have del: "findings_map s' (d', i) = (case findings_map s (d', i) of None \<Rightarrow> None
      | Some (u, x) \<Rightarrow> if u = t \<and> d' = d \<and> i \<notin> ru_ID ` set ?A then None else Some (u, x))" for d' i
  proof (cases "lookup fkey (d', i) (compliance_findings s)")
    case (Some f)
    then have "fr_device f = d'" "fr_rule f = i" by (auto dest: lookup_SomeD)
    with Some show ?thesis
      unfolding findings_map_def s'_def by (simp add: lookup_delete [OF dist] D_def)
  qed (simp add: findings_map_def s'_def lookup_delete [OF dist])
  have none: "find (\<lambda>r. ru_ID r = i) rules = None \<longleftrightarrow> i \<notin> ru_ID ` set ?A" for i
    by (auto simp: find_None_iff rules_def)
  have "findings_map s' (d', i) = (if d' \<noteq> d then findings_map db (d', i)
      else case find (\<lambda>r. ru_ID r = i) rules of
        Some r \<Rightarrow> Some (case findings_map db (d, i) of None \<Rightarrow> t | Some (u, _) \<Rightarrow> u,
          fi_Status (?v r), fi_Detail (?v r))
      | None \<Rightarrow> (case findings_map db (d, i) of None \<Rightarrow> None
          | Some (u, x) \<Rightarrow> if u = t then None else Some (u, x)))" for d' i
    unfolding del s(6) using none [of i]
    by (cases "find (\<lambda>r. ru_ID r = i) rules") (auto simp: judge_def split: option.splits)
  moreover have "faults s' = []" "co_inv s'" "compliance_rules s' = compliance_rules db"
    "compliance_devices s' = compliance_devices db"
    using s(2-5) by (auto simp: s'_def co_inv_def distinct_map_filter)
  ultimately show ?thesis
    using run s(7) by (intro exI [of _ s'] exI [of _ rules]) (auto simp: rules_def s'_def)
qed

section \<open>Properties\<close>

text \<open>Evaluation of a device. Without database failures, \<open>EvaluateDevice\<close> returns one
  finding per rule of the tenant that applies to the device's group, in name order, each the
  verdict of \<open>EvaluateText\<close>. Afterwards the table holds exactly these verdicts for the
  device (besides findings of other tenants), other devices' findings are as before, and
  \<open>OnTransition\<close> was called exactly for the rules whose stored status changed.\<close>

theorem evaluate_device_spec:
  assumes "faults db = []" and "co_inv db"
    and "find (\<lambda>x. cd_tenant x = t \<and> cd_id x = d) (compliance_devices db) = Some dev"
  shows "\<exists>s rules. rules = order_asc by_name (filter (applicable t (cd_group dev)) (rows (compliance_rules db))) \<and>
    EvaluateDevice compile js t d text now db = (Inr (map (device_verdict compile js d text) rules), s) \<and>
    findings_map s = (\<lambda>(d', i).
      if d' \<noteq> d then findings_map db (d', i)
      else case find (\<lambda>r. ru_ID r = i) rules of
        Some r \<Rightarrow> Some (case findings_map db (d, i) of None \<Rightarrow> t | Some (u, _) \<Rightarrow> u,
          fi_Status (device_verdict compile js d text r), fi_Detail (device_verdict compile js d text r))
      | None \<Rightarrow> (case findings_map db (d, i) of None \<Rightarrow> None
          | Some (u, x) \<Rightarrow> if u = t then None else Some (u, x))) \<and>
    notified s = notified db @ transitions t d (device_verdict compile js d text) rules (findings_map db)"
  using evaluate_device_ok [OF assms] by blast

definition demo_compliance :: compliance_db where
  "demo_compliance = \<lparr>faults = [], last_rowid = 1,
     compliance_rules = \<lparr>rows = [\<lparr>ru_ID = 1, ru_TenantID = 1, ru_GroupID = None, ru_Name = ''http'',
       ru_Kind = ''must_exclude'', ru_Pattern = ''ip http server'', ru_Severity = ''high'',
       ru_Description = ''''\<rparr>], rowseq = 1\<rparr>,
     compliance_findings = \<lparr>rows = [\<lparr>fr_id = 1, fr_tenant = 1, fr_device = 5, fr_rule = 1,
       fr_status = ''pass'', fr_detail = '''', fr_created_at = 0\<rparr>], rowseq = 1\<rparr>,
     compliance_devices = [\<lparr>cd_id = 5, cd_tenant = 1, cd_group = None\<rparr>], notified = []\<rparr>"

theorem evaluate_device_spec_witness:
  "\<exists>fs s. EvaluateDevice (\<lambda>_. None) (\<lambda>_. None) 1 5 ''ip http server'' 0 demo_compliance = (Inr fs, s) \<and>
     findings_map s (5, 1) = Some (1, ''fail'', ''forbidden text present'') \<and> length (notified s) = 1"
proof -
  have d: "find (\<lambda>x. cd_tenant x = 1 \<and> cd_id x = 5) (compliance_devices demo_compliance) =
      Some \<lparr>cd_id = 5, cd_tenant = 1, cd_group = None\<rparr>"
    by (simp add: demo_compliance_def)
  have inv: "faults demo_compliance = []" "co_inv demo_compliance"
    by (simp_all add: demo_compliance_def co_inv_def)
  let ?r = "hd (rows (compliance_rules demo_compliance))"
  have rules: "order_asc by_name (filter (applicable 1 None) (rows (compliance_rules demo_compliance))) = [?r]"
    by (simp add: demo_compliance_def applicable_def order_asc_def)
  have v: "fi_Status (device_verdict (\<lambda>_. None) (\<lambda>_. None) 5 ''ip http server'' ?r) = ''fail''"
    "fi_Detail (device_verdict (\<lambda>_. None) (\<lambda>_. None) 5 ''ip http server'' ?r) = ''forbidden text present''"
    by code_simp+
  have m: "findings_map demo_compliance (5, 1) = Some (1, ''pass'', '''')" "ru_ID ?r = 1"
    by (simp_all add: findings_map_def demo_compliance_def lookup_def query_row_def)
  show ?thesis
    using evaluate_device_spec [OF inv d, of "\<lambda>_. None" "\<lambda>_. None" "''ip http server''" 0] rules v m
    by (auto simp: transitions_Cons demo_compliance_def transitions_def map_filter_simps)
qed

text \<open>C12: Ordered blocks. \<open>orderedContains\<close> holds exactly when the wanted lines are a
  subsequence of the text's lines.\<close>

theorem orderedContains_subseq:
  "orderedContains text want \<longleftrightarrow> subseq want (split_char (CHR 0x0A) text)"
proof -
  have "want \<noteq> [] \<Longrightarrow> ordered_from lines want \<longleftrightarrow> subseq want lines" for lines want
  proof (induction lines want rule: ordered_from.induct)
    case (2 line lines want)
    then obtain w ws where w: "want = w # ws" by (cases want) auto
    show ?case
    proof (cases "ws = []")
      case True
      with 2 w show ?thesis by (auto simp: subseq_Cons2_iff)
    next
      case False
      with 2 w show ?thesis by (auto simp: subseq_Cons2_iff)
    qed
  qed (cases want, auto)
  then show ?thesis by (auto simp: orderedContains_def)
qed

end
