(* ===== verification/RulePacks.thy ===== *)
theory RulePacks
  imports Compliance
begin

text \<open>
  The built-in rule packs of \<open>internal/compliance/rulepacks/rulepacks.go\<close>, literally: the
  rule templates carry no tenant until a pack is applied. Applying a pack is a sequence of
  \<open>UpsertRule\<close> calls of the API.
\<close>

record Pack =
  pk_Name :: string
  pk_Version :: string
  pk_Description :: string
  pk_Rules :: "Rule list"

abbreviation backslash :: string where "backslash \<equiv> [CHR 0x5C]"
abbreviation quote :: string where "quote \<equiv> [CHR 0x27]"

definition pack_rule :: "string \<Rightarrow> string \<Rightarrow> string \<Rightarrow> string \<Rightarrow> string \<Rightarrow> Rule" where
  "pack_rule name kind pattern severity description =
     \<lparr>ru_ID = 0, ru_TenantID = 0, ru_GroupID = None, ru_Name = name, ru_Kind = kind,
      ru_Pattern = pattern, ru_Severity = severity, ru_Description = description\<rparr>"

definition ISPBaseline :: Pack where
  "ISPBaseline = \<lparr>pk_Name = ''isp-baseline'', pk_Version = ''1.0'',
     pk_Description = ''Broad security baseline for ISP network devices. Checks NTP synchronisation, encrypted password storage, SSH management, SNMP v3 enforcement, logging, and BGP authentication.'',
     pk_Rules =
      [pack_rule ''isp-baseline: NTP server configured'' ''regex''
         (''(?i)ntp'' @ backslash @ ''s+server'') ''medium''
         ''At least one NTP server should be configured to ensure clock synchronisation.'',
       pack_rule ''isp-baseline: service password-encryption or equivalent'' ''regex''
         (''(?i)(service'' @ backslash @ ''s+password-encryption|password-hash|set'' @ backslash @ ''s+system'' @ backslash @ ''s+root-authentication|PasswordAuthentication)'') ''high''
         (''Passwords must not be stored in plaintext. Enable '' @ quote @ ''service password-encryption'' @ quote @ '' (Cisco) or equivalent.''),
       pack_rule ''isp-baseline: SSH enabled for management'' ''regex''
         (''(?i)(ip'' @ backslash @ ''s+ssh'' @ backslash @ ''s+version'' @ backslash @ ''s+2|set'' @ backslash @ ''s+system'' @ backslash @ ''s+services'' @ backslash @ ''s+ssh|sshd'' @ backslash @ ''s+service|service'' @ backslash @ ''s+ssh)'') ''high''
         ''SSH version 2 should be the only enabled remote management protocol.'',
       pack_rule ''isp-baseline: Telnet disabled'' ''must_exclude''
         ''transport input telnet'' ''high''
         ''Telnet transmits credentials in cleartext. Disable it on all VTY lines.'',
       pack_rule ''isp-baseline: SNMPv1/v2c community strings absent'' ''must_exclude''
         ''snmp-server community public'' ''critical''
         (''The default SNMP community string '' @ quote @ ''public'' @ quote @ '' must not be present.''),
       pack_rule ''isp-baseline: logging configured'' ''regex''
         (''(?i)(logging'' @ backslash @ ''s+(host|server|trap)|syslog)'') ''medium''
         ''Remote syslog should be configured so events are preserved after device reboot.'',
       pack_rule ''isp-baseline: login banner configured'' ''regex''
         (''(?i)(banner'' @ backslash @ ''s+(login|motd|exec)|set'' @ backslash @ ''s+system'' @ backslash @ ''s+login'' @ backslash @ ''s+message)'') ''low''
         ''A legal notice / login banner should be displayed to deter unauthorised access.'',
       pack_rule ''isp-baseline: BGP MD5 authentication present when BGP configured'' ''regex''
         (''(?i)(neighbor'' @ backslash @ ''s+'' @ backslash @ ''S+'' @ backslash @ ''s+password|authentication'' @ backslash @ ''s+md5'' @ backslash @ ''s+password|bgp'' @ backslash @ ''s+authentication-key)'') ''high''
         ''BGP sessions should be protected with MD5 or TCP-AO authentication.'',
       pack_rule ''isp-baseline: enable secret set (Cisco)'' ''regex''
         (''(?i)enable'' @ backslash @ ''s+(secret|password'' @ backslash @ ''s+'' @ backslash @ ''d+)'') ''high''
         (''The privileged-mode password must be set using '' @ quote @ ''enable secret'' @ quote @ '' (hashed), not '' @ quote @ ''enable password'' @ quote @ '' (reversible).'')]\<rparr>"

definition CiscoIOSCIS :: Pack where
  "CiscoIOSCIS = \<lparr>pk_Name = ''cisco-ios-cis'', pk_Version = ''1.0'',
     pk_Description = ''CIS Benchmark-inspired baseline for Cisco IOS/IOS-XE. Checks AAA, SSH v2, VTY access-class, no CDP on edge interfaces, OSPF/BGP authentication, and NTP auth.'',
     pk_Rules =
      [pack_rule ''cisco-ios-cis: AAA new-model enabled'' ''must_include''
         ''aaa new-model'' ''high''
         ''AAA new-model must be enabled before configuring authentication/authorisation policies.'',
       pack_rule ''cisco-ios-cis: SSH v2 only'' ''must_include''
         ''ip ssh version 2'' ''high''
         ''Only SSH version 2 should be permitted; SSH v1 is cryptographically weak.'',
       pack_rule ''cisco-ios-cis: no ip http server (HTTP disabled)'' ''must_exclude''
         ''ip http server'' ''high''
         ''The plain-HTTP management server should be disabled. Use HTTPS only.'',
       pack_rule ''cisco-ios-cis: VTY lines have access-class'' ''regex''
         (''(?m)line'' @ backslash @ ''s+vty['' @ backslash @ ''s'' @ backslash @ ''S]*?access-class'') ''high''
         ''VTY lines should have an inbound access-class limiting which source IPs can log in.'',
       pack_rule ''cisco-ios-cis: ip tcp intercept or control-plane ACL present'' ''regex''
         (''(?i)(ip'' @ backslash @ ''s+tcp'' @ backslash @ ''s+intercept|control-plane|ip'' @ backslash @ ''s+access-group'' @ backslash @ ''s+'' @ backslash @ ''S+'' @ backslash @ ''s+in)'') ''medium''
         ''Some form of TCP DoS mitigation or CoPP should be configured on management plane.'',
       pack_rule ''cisco-ios-cis: no service finger'' ''must_exclude''
         ''service finger'' ''medium''
         ''The finger service exposes user information and should be disabled.'',
       pack_rule ''cisco-ios-cis: no ip source-route'' ''must_include''
         ''no ip source-route'' ''medium''
         ''IP source routing should be disabled to prevent route manipulation attacks.'',
       pack_rule ''cisco-ios-cis: service timestamps debug/log datetime'' ''regex''
         (''(?i)service'' @ backslash @ ''s+timestamps'' @ backslash @ ''s+(debug|log)'' @ backslash @ ''s+datetime'') ''low''
         ''Timestamps in log/debug output should include date and time for forensic usefulness.'']\<rparr>"

definition MikroTikBaseline :: Pack where
  "MikroTikBaseline = \<lparr>pk_Name = ''mikrotik-baseline'', pk_Version = ''1.0'',
     pk_Description = ''Security baseline for MikroTik RouterOS. Checks SSH access, Telnet/Winbox disable, SNMP community hygiene, NTP, and firewall presence.'',
     pk_Rules =
      [pack_rule ''mikrotik-baseline: SSH enabled'' ''must_include''
         ''/ip service'' ''medium''
         ''IP services configuration should be present; ensure SSH is enabled and Telnet disabled.'',
       pack_rule ''mikrotik-baseline: Telnet service disabled'' ''must_exclude''
         ''name=telnet disabled=no'' ''high''
         ''Telnet should be explicitly disabled in /ip service.'',
       pack_rule ''mikrotik-baseline: default admin account renamed'' ''must_exclude''
         ''name=admin'' ''high''
         (''The default '' @ quote @ ''admin'' @ quote @ '' account should be renamed or disabled to prevent brute-force attacks.''),
       pack_rule (''mikrotik-baseline: SNMP community not '' @ quote @ ''public'' @ quote) ''must_exclude''
         ''community=public'' ''critical''
         (''The default SNMP community string '' @ quote @ ''public'' @ quote @ '' must be changed.''),
       pack_rule ''mikrotik-baseline: NTP client configured'' ''regex''
         (''(?i)(ntp'' @ backslash @ ''s+client|sntp'' @ backslash @ ''s+client)'') ''medium''
         ''NTP/SNTP client should be configured for clock synchronisation.'',
       pack_rule ''mikrotik-baseline: firewall filter rules present'' ''must_include''
         ''/ip firewall filter'' ''high''
         ''Firewall filter rules should be configured to restrict inbound management access.'']\<rparr>"

definition JunosBaseline :: Pack where
  "JunosBaseline = \<lparr>pk_Name = ''junos-baseline'', pk_Version = ''1.0'',
     pk_Description = ''Baseline for Juniper Junos devices. Checks SSH service, root authentication, NTP, SNMP v3 posture, and login banners.'',
     pk_Rules =
      [pack_rule ''junos-baseline: SSH service enabled'' ''must_include''
         ''set system services ssh'' ''high''
         ''SSH should be enabled for secure device management.'',
       pack_rule ''junos-baseline: root authentication configured'' ''regex''
         (''set'' @ backslash @ ''s+system'' @ backslash @ ''s+root-authentication'' @ backslash @ ''s+'') ''critical''
         ''Root authentication must be configured and hashed.'',
       pack_rule ''junos-baseline: NTP server configured'' ''regex''
         (''set'' @ backslash @ ''s+system'' @ backslash @ ''s+ntp'' @ backslash @ ''s+server'') ''medium''
         ''At least one NTP server should be configured.'',
       pack_rule ''junos-baseline: SNMPv1/v2c community not public'' ''must_exclude''
         ''set snmp community public'' ''critical''
         ''Default public SNMP community should not be present.'',
       pack_rule ''junos-baseline: login banner configured'' ''regex''
         (''set'' @ backslash @ ''s+system'' @ backslash @ ''s+login'' @ backslash @ ''s+message'') ''low''
         ''A login/legal banner should be configured.'']\<rparr>"

definition NokiaSROSBaseline :: Pack where
  "NokiaSROSBaseline = \<lparr>pk_Name = ''nokia-sros-baseline'', pk_Version = ''1.0'',
     pk_Description = ''Baseline for Nokia SR OS. Checks SSH management access, AAA posture, NTP, SNMP community hygiene, and logging.'',
     pk_Rules =
      [pack_rule ''nokia-sros-baseline: SSH enabled'' ''regex''
         ''(?i)ssh'' ''high''
         ''Secure remote management via SSH should be enabled.'',
       pack_rule ''nokia-sros-baseline: AAA profile present'' ''regex''
         ''(?i)(aaa|radius|tacacs)'' ''medium''
         ''AAA integration should be configured.'',
       pack_rule ''nokia-sros-baseline: NTP configured'' ''regex''
         (''(?i)'' @ backslash @ ''bntp'' @ backslash @ ''b'') ''medium''
         ''NTP should be configured for accurate timestamps.'',
       pack_rule ''nokia-sros-baseline: SNMP public community absent'' ''must_exclude''
         ''community public'' ''critical''
         ''SNMP public community should be removed.'',
       pack_rule ''nokia-sros-baseline: remote logging configured'' ''regex''
         ''(?i)(log-id|syslog)'' ''low''
         ''Remote logging should be configured for operational auditability.'']\<rparr>"

definition HuaweiVRPBaseline :: Pack where
  "HuaweiVRPBaseline = \<lparr>pk_Name = ''huawei-vrp-baseline'', pk_Version = ''1.0'',
     pk_Description = ''Baseline for Huawei VRP. Checks SSH/STelnet usage, AAA, NTP, SNMP community posture, and info-center logging.'',
     pk_Rules =
      [pack_rule ''huawei-vrp-baseline: STelnet/SSH enabled'' ''regex''
         (''(?i)(stelnet|ssh'' @ backslash @ ''s+server'' @ backslash @ ''s+enable)'') ''high''
         ''Secure SSH (STelnet) should be enabled.'',
       pack_rule ''huawei-vrp-baseline: Telnet service disabled'' ''must_exclude''
         ''telnet server enable'' ''high''
         ''Telnet should be disabled.'',
       pack_rule ''huawei-vrp-baseline: AAA configured'' ''regex''
         (''(?i)'' @ backslash @ ''baaa'' @ backslash @ ''b'') ''medium''
         ''AAA configuration should be present.'',
       pack_rule ''huawei-vrp-baseline: NTP service configured'' ''regex''
         (''(?i)'' @ backslash @ ''bntp-service'' @ backslash @ ''b'') ''medium''
         ''NTP service should be configured.'',
       pack_rule ''huawei-vrp-baseline: SNMP public community absent'' ''must_exclude''
         ''snmp-agent community read public'' ''critical''
         ''Default SNMP public community must not be present.'',
       pack_rule ''huawei-vrp-baseline: info-center logging enabled'' ''regex''
         ''(?i)info-center'' ''low''
         ''Centralized logging should be configured via info-center.'']\<rparr>"

definition All_packs :: "(string \<times> Pack) list" where
  "All_packs = [(''isp-baseline'', ISPBaseline), (''cisco-ios-cis'', CiscoIOSCIS), (''mikrotik-baseline'', MikroTikBaseline), (''junos-baseline'', JunosBaseline), (''nokia-sros-baseline'', NokiaSROSBaseline), (''huawei-vrp-baseline'', HuaweiVRPBaseline)]"

definition Get_pack :: "string \<Rightarrow> Pack option" where
  "Get_pack name = map_of All_packs name"

section \<open>Properties\<close>

lemma must_exclude_fails:
  "ru_Kind r = ''must_exclude'' \<Longrightarrow> fi_Status (EvaluateText compile js r (a @ ru_Pattern r @ b)) = ''fail''"
  by (auto simp: EvaluateText_def verdict_def str_contains_iff)

lemma must_exclude_rejects:
  assumes "r \<in> set rs" and "ru_Kind r = ''must_exclude''" and "line = p @ ru_Pattern r"
  shows "\<exists>r \<in> set rs. fi_Status (EvaluateText compile js r (a @ line @ b)) = ''fail''"
  using assms must_exclude_fails [of r compile js "a @ p" b] by auto

text \<open>The packs reject the hardening they ask for. A configuration with the line that
  switches a service off contains the excluded line that switches it on, so the rule fails
  for every configuration that has \<open>no ip http server\<close> or \<open>no service finger\<close> (Cisco) or
  \<open>undo telnet server enable\<close> (Huawei), whatever else it contains.\<close>

theorem hardened_configs_fail:
  "(\<exists>r \<in> set (pk_Rules CiscoIOSCIS).
      fi_Status (EvaluateText compile js r (a @ ''no ip http server'' @ b)) = ''fail'') \<and>
   (\<exists>r \<in> set (pk_Rules CiscoIOSCIS).
      fi_Status (EvaluateText compile js r (a @ ''no service finger'' @ b)) = ''fail'') \<and>
   (\<exists>r \<in> set (pk_Rules HuaweiVRPBaseline).
      fi_Status (EvaluateText compile js r (a @ ''undo telnet server enable'' @ b)) = ''fail'')"
proof (intro conjI)
  have "pk_Rules CiscoIOSCIS ! 2 \<in> set (pk_Rules CiscoIOSCIS)"
    "pk_Rules CiscoIOSCIS ! 5 \<in> set (pk_Rules CiscoIOSCIS)"
    "pk_Rules HuaweiVRPBaseline ! 1 \<in> set (pk_Rules HuaweiVRPBaseline)"
    by (simp_all add: CiscoIOSCIS_def HuaweiVRPBaseline_def)
  note in_pack = this
  show "\<exists>r \<in> set (pk_Rules CiscoIOSCIS).
      fi_Status (EvaluateText compile js r (a @ ''no ip http server'' @ b)) = ''fail''"
    by (rule must_exclude_rejects [OF in_pack(1), where p = "''no ''"])
      (simp_all add: CiscoIOSCIS_def pack_rule_def)
  show "\<exists>r \<in> set (pk_Rules CiscoIOSCIS).
      fi_Status (EvaluateText compile js r (a @ ''no service finger'' @ b)) = ''fail''"
    by (rule must_exclude_rejects [OF in_pack(2), where p = "''no ''"])
      (simp_all add: CiscoIOSCIS_def pack_rule_def)
  show "\<exists>r \<in> set (pk_Rules HuaweiVRPBaseline).
      fi_Status (EvaluateText compile js r (a @ ''undo telnet server enable'' @ b)) = ''fail''"
    by (rule must_exclude_rejects [OF in_pack(3), where p = "''undo ''"])
      (simp_all add: HuaweiVRPBaseline_def pack_rule_def)
qed

definition pack_rules :: "Rule list" where
  "pack_rules = concat (map (\<lambda>(n, p). pk_Rules p) All_packs)"

lemma pack_names: "map (\<lambda>(n, p). pk_Name p) All_packs = map fst All_packs"
  by code_simp

lemma pack_rules_shape:
  "list_all (\<lambda>r. ru_Name r \<noteq> '''' \<and> ru_Pattern r \<noteq> '''' \<and> defaultSeverity (ru_Severity r) = ru_Severity r \<and>
     (ru_Kind r = ''regex'' \<or> ru_Kind r = ''must_include'' \<or> ru_Kind r = ''must_exclude'')) pack_rules"
  by code_simp

lemma pack_rules_distinct: "distinct (map ru_Name pack_rules)"
  by code_simp

text \<open>The packs are sound. Every built-in rule, given a tenant, passes \<open>validateRule\<close> when
  its pattern (for the regular expressions) compiles, has a proper severity, and no two
  rules of any packs share a name, so applying one pack never overwrites another's rules.\<close>

theorem packs_wellformed:
  assumes "\<forall>r \<in> set pack_rules. ru_Kind r = ''regex'' \<longrightarrow> compile (ru_Pattern r) \<noteq> None" and "0 < t"
  shows "(\<forall>r \<in> set pack_rules. validateRule compile js (r\<lparr>ru_TenantID := t\<rparr>) = None \<and>
      defaultSeverity (ru_Severity r) = ru_Severity r) \<and> distinct (map ru_Name pack_rules)"
proof
  show "\<forall>r \<in> set pack_rules. validateRule compile js (r\<lparr>ru_TenantID := t\<rparr>) = None \<and>
      defaultSeverity (ru_Severity r) = ru_Severity r"
  proof
    fix r assume r: "r \<in> set pack_rules"
    with pack_rules_shape have "ru_Name r \<noteq> ''''" "ru_Pattern r \<noteq> ''''"
      "defaultSeverity (ru_Severity r) = ru_Severity r"
      "ru_Kind r = ''regex'' \<or> ru_Kind r = ''must_include'' \<or> ru_Kind r = ''must_exclude''"
      by (auto simp: list_all_iff)
    with r assms show "validateRule compile js (r\<lparr>ru_TenantID := t\<rparr>) = None \<and>
        defaultSeverity (ru_Severity r) = ru_Severity r"
      by (auto simp: validateRule_def)
  qed
qed (rule pack_rules_distinct)

theorem packs_wellformed_witness:
  "validateRule (\<lambda>_. Some (\<lambda>_. True)) (\<lambda>_. None) ((hd pack_rules)\<lparr>ru_TenantID := 1\<rparr>) = None"
proof -
  have "hd pack_rules \<in> set pack_rules"
    by (simp add: pack_rules_def All_packs_def ISPBaseline_def)
  with packs_wellformed [of "\<lambda>_. Some (\<lambda>_. True)" 1 "\<lambda>_. None"] show ?thesis by simp
qed

end
