(* ===== verification/Base64.thy ===== *)
theory Base64
  imports Prelude
begin

text \<open>
  \<open>base64.StdEncoding.EncodeToString\<close> (RFC 4648 with padding), the form in which keys, salts
  and handshake digests are stored and sent, and \<open>base64.RawURLEncoding\<close>, the form of session
  identifiers, tokens and sealed secrets, with their decoders. The services rely on the first
  being injective and on the decoders reading back what was encoded.
\<close>

definition b64_alphabet :: string where
  "b64_alphabet = ''ABCDEFGHIJKLMNOPQRSTUVWXYZabcdefghijklmnopqrstuvwxyz0123456789+/''"

definition b64_char :: "nat \<Rightarrow> char" where
  "b64_char n = b64_alphabet ! n"

definition byte :: "char \<Rightarrow> nat" where
  "byte c = of_char c"

fun base64 :: "string \<Rightarrow> string" where
  "base64 [] = []"
| "base64 [a] = [b64_char (byte a div 4), b64_char (byte a mod 4 * 16), CHR ''='', CHR ''='']"
| "base64 [a, b] =
     [b64_char (byte a div 4), b64_char (byte a mod 4 * 16 + byte b div 16),
      b64_char (byte b mod 16 * 4), CHR ''='']"
| "base64 (a # b # c # s) =
     b64_char (byte a div 4) # b64_char (byte a mod 4 * 16 + byte b div 16) #
     b64_char (byte b mod 16 * 4 + byte c div 64) # b64_char (byte c mod 64) # base64 s"

lemma byte_less [simp]: "byte c < 256"
  by (simp add: byte_def)

lemma byte_inj [simp]: "byte a = byte b \<longleftrightarrow> a = b"
  by (simp add: byte_def)

lemma byte_div_less: "byte a div 4 < 64" "byte a div 16 < 16" "byte a div 64 < 4"
  using byte_less [of a] by (simp_all add: less_mult_imp_div_less)

lemma b64_digits_less:
  "byte a div 4 < 64" "byte a mod 4 * 16 < 64" "byte a mod 4 * 16 + byte b div 16 < 64"
  "byte b mod 16 * 4 < 64" "byte b mod 16 * 4 + byte c div 64 < 64" "byte c mod 64 < 64"
proof -
  have "byte a mod 4 < 4" "byte b mod 16 < 16" by simp_all
  then show "byte a div 4 < 64" "byte a mod 4 * 16 < 64" "byte a mod 4 * 16 + byte b div 16 < 64"
    "byte b mod 16 * 4 < 64" "byte b mod 16 * 4 + byte c div 64 < 64" "byte c mod 64 < 64"
    using byte_div_less [of a] byte_div_less [of b] byte_div_less [of c] by linarith+
qed

lemma b64_distinct: "distinct b64_alphabet" "length b64_alphabet = 64" "CHR ''='' \<notin> set b64_alphabet"
  by code_simp+

lemma b64_char_inj: "m < 64 \<Longrightarrow> n < 64 \<Longrightarrow> b64_char m = b64_char n \<longleftrightarrow> m = n"
  using b64_distinct by (simp add: b64_char_def nth_eq_iff_index_eq)

lemma b64_char_pad: "n < 64 \<Longrightarrow> b64_char n \<noteq> CHR ''=''"
  using b64_distinct by (metis b64_char_def nth_mem)

lemma split_digits:
  fixes a a' b b' :: nat
  assumes "a * k + b = a' * k + b'" and "b < k" and "b' < k"
  shows "a = a' \<and> b = b'"
proof -
  have "(a * k + b) div k = a" "(a' * k + b') div k = a'" using assms(2,3) by auto
  then have "a = a'" using assms(1) by simp
  with assms(1) show ?thesis by simp
qed

lemma byte_split: "byte a div k = byte b div k \<Longrightarrow> byte a mod k = byte b mod k \<Longrightarrow> a = b"
  by (metis byte_inj div_mult_mod_eq)

lemmas b64_cmp = b64_char_inj b64_char_pad b64_char_pad [symmetric] b64_digits_less

lemma base64_inj_aux: "base64 s = base64 t \<Longrightarrow> s = t"
proof (induction s arbitrary: t rule: base64.induct)
  case 1
  then show ?case by (cases t rule: base64.cases) auto
next
  case (2 a)
  then show ?case
    by (cases t rule: base64.cases) (auto simp: b64_cmp dest: byte_split)
next
  case (3 a b)
  show ?case
  proof (cases t rule: base64.cases)
    case (3 a' b')
    with "3.prems" have e: "byte a div 4 = byte a' div 4"
      "byte a mod 4 * 16 + byte b div 16 = byte a' mod 4 * 16 + byte b' div 16"
      "byte b mod 16 = byte b' mod 16" by (auto simp: b64_cmp)
    have "byte b div 16 < 16" "byte b' div 16 < 16"
      by (rule byte_div_less)+
    from split_digits [OF e(2) this] e(1,3) 3 show ?thesis by (auto dest: byte_split)
  qed (use "3.prems" in \<open>auto simp: b64_cmp\<close>)
next
  case (4 a b c s)
  show ?case
  proof (cases t rule: base64.cases)
    case (4 a' b' c' s')
    with "4.prems" have e: "byte a div 4 = byte a' div 4"
      "byte a mod 4 * 16 + byte b div 16 = byte a' mod 4 * 16 + byte b' div 16"
      "byte b mod 16 * 4 + byte c div 64 = byte b' mod 16 * 4 + byte c' div 64"
      "byte c mod 64 = byte c' mod 64" "base64 s = base64 s'" by (auto simp: b64_cmp)
    have "byte b div 16 < 16" "byte b' div 16 < 16" "byte c div 64 < 4" "byte c' div 64 < 4"
      by (rule byte_div_less)+
    with split_digits [OF e(2)] split_digits [OF e(3)] e(1,4) "4.IH" [OF e(5)] 4
    show ?thesis by (auto dest: byte_split)
  qed (use "4.prems" in \<open>auto simp: b64_cmp\<close>)
qed

lemma base64_eq_iff [simp]: "base64 s = base64 t \<longleftrightarrow> s = t"
  using base64_inj_aux by blast

lemma inj_base64: "inj base64"
  by (simp add: inj_def)

section \<open>Decoding\<close>

text \<open>\<open>base64.RawURLEncoding\<close>.\<close>

definition url_char :: "char \<Rightarrow> char" where
  "url_char c = (if c = CHR ''+'' then CHR ''-'' else if c = CHR ''/'' then CHR ''_'' else c)"

definition base64url :: "string \<Rightarrow> string" where
  "base64url s = map url_char (filter (\<lambda>c. c \<noteq> CHR ''='') (base64 s))"

text \<open>The six-bit digits of the encoding, and the bytes of a digit sequence: a last group of two
  or three digits gives one or two bytes (its spare bits are dropped), one digit alone is an
  error.\<close>

fun b64_digits :: "string \<Rightarrow> nat list" where
  "b64_digits [] = []"
| "b64_digits [a] = [byte a div 4, byte a mod 4 * 16]"
| "b64_digits [a, b] = [byte a div 4, byte a mod 4 * 16 + byte b div 16, byte b mod 16 * 4]"
| "b64_digits (a # b # c # s) =
     byte a div 4 # (byte a mod 4 * 16 + byte b div 16) #
     (byte b mod 16 * 4 + byte c div 64) # byte c mod 64 # b64_digits s"

definition b64_byte1 :: "nat \<Rightarrow> nat \<Rightarrow> char" where "b64_byte1 w x = char_of (w * 4 + x div 16)"
definition b64_byte2 :: "nat \<Rightarrow> nat \<Rightarrow> char" where "b64_byte2 x y = char_of (x mod 16 * 16 + y div 4)"
definition b64_byte3 :: "nat \<Rightarrow> nat \<Rightarrow> char" where "b64_byte3 y z = char_of (y mod 4 * 64 + z)"

fun b64_bytes :: "nat list \<Rightarrow> string option" where
  "b64_bytes [] = Some []"
| "b64_bytes [w] = None"
| "b64_bytes [w, x] = Some [b64_byte1 w x]"
| "b64_bytes [w, x, y] = Some [b64_byte1 w x, b64_byte2 x y]"
| "b64_bytes (w # x # y # z # ds) =
     map_option (\<lambda>s. b64_byte1 w x # b64_byte2 x y # b64_byte3 y z # s) (b64_bytes ds)"

definition alphabet_value :: "string \<Rightarrow> char \<Rightarrow> nat" where
  "alphabet_value abc c = length (takeWhile (\<lambda>x. x \<noteq> c) abc)"

text \<open>The decoders skip carriage returns and newlines.\<close>

definition b64_decode :: "string \<Rightarrow> string \<Rightarrow> string option" where
  "b64_decode abc s = (let t = filter (\<lambda>c. c \<noteq> CHR 0x0A \<and> c \<noteq> CHR 0x0D) s in
     if set t \<subseteq> set abc then b64_bytes (map (alphabet_value abc) t) else None)"

definition base64url_decode :: "string \<Rightarrow> string option" where
  "base64url_decode s = b64_decode (map url_char b64_alphabet) s"

text \<open>\<open>base64.StdEncoding.DecodeString\<close>: the text is in groups of four, the last padded with one
  or two equal signs.\<close>

definition base64_decode :: "string \<Rightarrow> string option" where
  "base64_decode s = (let t = filter (\<lambda>c. c \<noteq> CHR 0x0A \<and> c \<noteq> CHR 0x0D) s;
       u = takeWhile (\<lambda>c. c \<noteq> CHR ''='') t; pad = drop (length u) t in
     if length t mod 4 = 0 \<and> (pad = [] \<or> pad = [CHR ''=''] \<or> pad = [CHR ''='', CHR ''=''])
     then b64_decode b64_alphabet u else None)"

lemma b64_digits_small: "d \<in> set (b64_digits s) \<Longrightarrow> d < 64"
  by (induction s rule: b64_digits.induct) (auto simp: b64_digits_less)

lemma base64_digits: "filter (\<lambda>c. c \<noteq> CHR ''='') (base64 s) = map b64_char (b64_digits s)"
  by (induction s rule: base64.induct) (simp_all add: b64_cmp)

lemma char_of_byte [simp]: "char_of (byte c) = c"
  by (simp add: byte_def)

lemma b64_join:
  "b64_byte1 (byte a div 4) (byte a mod 4 * 16) = a"
  "b64_byte1 (byte a div 4) (byte a mod 4 * 16 + byte b div 16) = a"
  "b64_byte2 (byte a mod 4 * 16 + byte b div 16) (byte b mod 16 * 4) = b"
  "b64_byte2 (byte a mod 4 * 16 + byte b div 16) (byte b mod 16 * 4 + byte c div 64) = b"
  "b64_byte3 (byte b mod 16 * 4 + byte c div 64) (byte c mod 64) = c"
proof -
  have l: "byte b div 16 < 16" "byte c div 64 < 4" by (rule byte_div_less)+
  have m: "(x mod 4 * 16 + y) div 16 = x mod 4" "(x mod 4 * 16 + y) mod 16 = y" if "y < 16" for x y :: nat
    using that by auto
  have n: "(x mod 16 * 4 + y) div 4 = x mod 16" "(x mod 16 * 4 + y) mod 4 = y" if "y < 4" for x y :: nat
    using that by auto
  have e: "x div k * k + x mod k = x" for x k :: nat by simp
  show "b64_byte1 (byte a div 4) (byte a mod 4 * 16) = a"
    by (simp add: b64_byte1_def div_mult_mod_eq)
  show "b64_byte1 (byte a div 4) (byte a mod 4 * 16 + byte b div 16) = a"
    using l(1) by (simp add: b64_byte1_def m div_mult_mod_eq)
  show "b64_byte2 (byte a mod 4 * 16 + byte b div 16) (byte b mod 16 * 4) = b"
    using l(1) by (simp add: b64_byte2_def m div_mult_mod_eq)
  show "b64_byte2 (byte a mod 4 * 16 + byte b div 16) (byte b mod 16 * 4 + byte c div 64) = b"
    using l by (simp add: b64_byte2_def m n div_mult_mod_eq)
  show "b64_byte3 (byte b mod 16 * 4 + byte c div 64) (byte c mod 64) = c"
    using l(2) by (simp add: b64_byte3_def n div_mult_mod_eq)
qed

lemma b64_bytes_digits: "b64_bytes (b64_digits s) = Some s"
  by (induction s rule: b64_digits.induct) (simp_all add: b64_join)

lemma alphabet_value_nth: "distinct abc \<Longrightarrow> n < length abc \<Longrightarrow> alphabet_value abc (abc ! n) = n"
proof -
  assume d: "distinct abc" and n: "n < length abc"
  have "abc = take n abc @ abc ! n # drop (Suc n) abc" using n by (rule id_take_nth_drop)
  then have "takeWhile (\<lambda>x. x \<noteq> abc ! n) abc =
      takeWhile (\<lambda>x. x \<noteq> abc ! n) (take n abc @ abc ! n # drop (Suc n) abc)" by (rule arg_cong)
  also have "\<dots> = take n abc"
    by (subst takeWhile_append2) (use d n in \<open>auto simp: in_set_conv_nth nth_eq_iff_index_eq\<close>)
  finally have "takeWhile (\<lambda>x. x \<noteq> abc ! n) abc = take n abc" .
  with n show ?thesis by (simp add: alphabet_value_def)
qed

lemma b64_decode_digits:
  assumes "distinct abc" and "length abc = 64" and "CHR 0x0A \<notin> set abc" and "CHR 0x0D \<notin> set abc"
  shows "b64_decode abc (map (\<lambda>d. abc ! d) (b64_digits s)) = Some s"
proof -
  have small: "\<forall>d \<in> set (b64_digits s). d < 64" by (simp add: b64_digits_small)
  then have "map (alphabet_value abc \<circ> (\<lambda>d. abc ! d)) (b64_digits s) = b64_digits s"
    using assms(1,2) by (intro map_idI) (simp add: alphabet_value_nth)
  moreover have "set (map (\<lambda>d. abc ! d) (b64_digits s)) \<subseteq> set abc" using small assms(2) by auto
  moreover from this have "filter (\<lambda>c. c \<noteq> CHR 0x0A \<and> c \<noteq> CHR 0x0D) (map (\<lambda>d. abc ! d) (b64_digits s)) =
      map (\<lambda>d. abc ! d) (b64_digits s)"
    using assms(3,4) by (intro filter_True) auto
  ultimately show ?thesis by (simp add: b64_decode_def Let_def b64_bytes_digits)
qed

lemma url_alphabet:
  "distinct (map url_char b64_alphabet)" "length (map url_char b64_alphabet) = 64"
  "CHR 0x0A \<notin> set (map url_char b64_alphabet)" "CHR 0x0D \<notin> set (map url_char b64_alphabet)"
  by code_simp+

theorem base64url_decode_encode [simp]: "base64url_decode (base64url s) = Some s"
proof -
  have "base64url s = map (\<lambda>d. map url_char b64_alphabet ! d) (b64_digits s)"
    by (auto simp: base64url_def base64_digits b64_char_def b64_digits_small b64_distinct)
  then show ?thesis using b64_decode_digits [OF url_alphabet] by (simp add: base64url_decode_def)
qed

end
