(* ===== verification/KnownHosts.thy ===== *)
theory KnownHosts
  imports Sql Base64
begin

text \<open>
  SSH host-key pinning (\<open>internal/transport/known_hosts.go\<close>): the SQLite and the in-process
  \<open>KnownHostsStore\<close>, and \<open>knownHostsCallback\<close>, the trust-on-first-use check every SSH dial
  makes. The store is a locale; the callback is proved safe against any store that keeps its
  laws, whatever other dials do between its \<open>Check\<close> and its \<open>Add\<close>, and both stores of
  the code are instances. \<open>net.LookupPort\<close> reads the system's service table: it is a parameter.
\<close>

text \<open>An identity is the tuple (tenant, host, port, algorithm).\<close>

type_synonym kh_id = "int \<times> string \<times> int \<times> string"

datatype kh_err =
  ErrKeyChanged | ErrUnknownHost | KhLookup string | KhInsert string | KhConflict string
| KhPin string int kh_err

type_synonym kh_res = "kh_err + unit"

section \<open>The SQLite store\<close>

record kh_row =
  kh_rowid :: int
  kh_ident :: kh_id
  kh_public :: string
  kh_added :: stamp

record kh_db = conn +
  known_hosts :: "kh_row sql_table"

definition DB_Check :: "kh_id \<Rightarrow> string \<Rightarrow> kh_db \<Rightarrow> kh_res \<times> kh_db" where
  "DB_Check i key s = exec KhLookup s (\<lambda>s.
     case query_row (\<lambda>r. kh_ident r = i) (known_hosts s) of
       None \<Rightarrow> (Inl ErrUnknownHost, s)
     | Some r \<Rightarrow> (if kh_public r \<noteq> base64 key then Inl ErrKeyChanged else Inr (), s))"

definition DB_Add :: "time \<Rightarrow> kh_id \<Rightarrow> string \<Rightarrow> kh_db \<Rightarrow> kh_res \<times> kh_db" where
  "DB_Add now i key s = exec KhInsert s (\<lambda>s.
     if affected (\<lambda>r. kh_ident r = i) (known_hosts s) = 0
     then (Inr (), s\<lparr>known_hosts := insert_row (\<lambda>n. \<lparr>kh_rowid = n, kh_ident = i,
             kh_public = base64 key, kh_added = rfc3339 now\<rparr>) (known_hosts s),
             last_rowid := next_rowid (known_hosts s)\<rparr>)
     else exec KhConflict s (\<lambda>s.
       case query_row (\<lambda>r. kh_ident r = i) (known_hosts s) of
         None \<Rightarrow> (Inl ErrUnknownHost, s)
       | Some r \<Rightarrow> (if kh_public r \<noteq> base64 key then Inl ErrKeyChanged else Inr (), s)))"

section \<open>The in-process store\<close>

type_synonym kh_mem = "string \<rightharpoonup> string"

fun mapKey :: "kh_id \<Rightarrow> string" where
  "mapKey (tenant, host, port, algo) =
     itoa tenant @ '':'' @ host @ '':'' @ itoa port @ '':'' @ algo"

definition Mem_Check :: "kh_id \<Rightarrow> string \<Rightarrow> kh_mem \<Rightarrow> kh_res \<times> kh_mem" where
  "Mem_Check i key m = (case m (mapKey i) of
     None \<Rightarrow> (Inl ErrUnknownHost, m)
   | Some existing \<Rightarrow> (if existing \<noteq> key then Inl ErrKeyChanged else Inr (), m))"

definition Mem_Add :: "time \<Rightarrow> kh_id \<Rightarrow> string \<Rightarrow> kh_mem \<Rightarrow> kh_res \<times> kh_mem" where
  "Mem_Add now i key m =
     (Inr (), if m (mapKey i) = None then m(mapKey i \<mapsto> key) else m)"

section \<open>The dial's callback\<close>

text \<open>\<open>net.SplitHostPort\<close>; \<open>None\<close> is its error.\<close>

fun last_index :: "char \<Rightarrow> string \<Rightarrow> nat option" where
  "last_index c [] = None"
| "last_index c (x # xs) = (case last_index c xs of
     Some n \<Rightarrow> Some (Suc n) | None \<Rightarrow> if x = c then Some 0 else None)"

definition SplitHostPort :: "string \<Rightarrow> (string \<times> string) option" where
  "SplitHostPort hp = (case last_index CHR '':'' hp of
     None \<Rightarrow> None
   | Some i \<Rightarrow>
       if hd hp = CHR ''[''
       then (case str_index hp '']'' of
               None \<Rightarrow> None
             | Some e \<Rightarrow>
                 if Suc e \<noteq> i then None
                 else if CHR ''['' \<in> set (drop 1 hp) \<or> CHR '']'' \<in> set (drop (Suc e) hp) then None
                 else Some (drop 1 (take e hp), drop (Suc i) hp))
       else if CHR '':'' \<in> set (take i hp) \<or> CHR ''['' \<in> set hp \<or> CHR '']'' \<in> set hp then None
       else Some (take i hp, drop (Suc i) hp))"

definition dial_target :: "(string \<Rightarrow> int option) \<Rightarrow> int \<Rightarrow> string \<Rightarrow> string \<times> int" where
  "dial_target lookup_port defaultPort hostname = (case SplitHostPort hostname of
     Some (host, port_str) \<Rightarrow>
       (host, case lookup_port port_str of Some p \<Rightarrow> if p > 0 then p else defaultPort | None \<Rightarrow> defaultPort)
   | None \<Rightarrow> (hostname, defaultPort))"

text \<open>
  A dial: its arguments, the clock, and what other goroutines pin between the two calls
  this one makes to the store.
\<close>

record dial =
  d_tenant :: int
  d_port :: int
  d_hostname :: string
  d_algo :: string
  d_raw :: string
  d_now :: time
  d_between :: "(time \<times> kh_id \<times> string) list"

definition dial_id :: "(string \<Rightarrow> int option) \<Rightarrow> dial \<Rightarrow> kh_id" where
  "dial_id lp d = (let (host, port) = dial_target lp (d_port d) (d_hostname d)
     in (d_tenant d, host, port, d_algo d))"

fun adds :: "(time \<Rightarrow> kh_id \<Rightarrow> string \<Rightarrow> 's \<Rightarrow> kh_res \<times> 's) \<Rightarrow> (time \<times> kh_id \<times> string) list \<Rightarrow> 's \<Rightarrow> 's" where
  "adds add [] s = s"
| "adds add ((t, i, k) # xs) s = adds add xs (snd (add t i k s))"

definition knownHostsCallback ::
  "(kh_id \<Rightarrow> string \<Rightarrow> 's \<Rightarrow> kh_res \<times> 's) \<Rightarrow> (time \<Rightarrow> kh_id \<Rightarrow> string \<Rightarrow> 's \<Rightarrow> kh_res \<times> 's)
    \<Rightarrow> (string \<Rightarrow> int option) \<Rightarrow> dial \<Rightarrow> 's \<Rightarrow> kh_res \<times> 's" where
  "knownHostsCallback check add lp d s =
     (let (host, port) = dial_target lp (d_port d) (d_hostname d);
          i = (d_tenant d, host, port, d_algo d)
      in case check i (d_raw d) s of
           (Inr _, s) \<Rightarrow> (Inr (), s)
         | (Inl ErrUnknownHost, s) \<Rightarrow>
             (case add (d_now d) i (d_raw d) (adds add (d_between d) s) of
                (Inl aerr, s) \<Rightarrow> (Inl (KhPin host port aerr), s)
              | (Inr _, s) \<Rightarrow> (Inr (), s))
         | (Inl ErrKeyChanged, s) \<Rightarrow> (Inl ErrKeyChanged, s)
         | (Inl cerr, s) \<Rightarrow> (Inl cerr, s))"

fun dials ::
  "(kh_id \<Rightarrow> string \<Rightarrow> 's \<Rightarrow> kh_res \<times> 's) \<Rightarrow> (time \<Rightarrow> kh_id \<Rightarrow> string \<Rightarrow> 's \<Rightarrow> kh_res \<times> 's)
    \<Rightarrow> (string \<Rightarrow> int option) \<Rightarrow> dial list \<Rightarrow> 's \<Rightarrow> 's" where
  "dials check add lp [] s = s"
| "dials check add lp (d # ds) s = dials check add lp ds (snd (knownHostsCallback check add lp d s))"

lemma callback_known:
  "fst (check (dial_id lp d) (d_raw d) s) \<noteq> Inl ErrUnknownHost \<Longrightarrow>
   knownHostsCallback check add lp d s = check (dial_id lp d) (d_raw d) s"
  unfolding knownHostsCallback_def dial_id_def Let_def
  by (auto split: prod.splits sum.splits kh_err.splits unit.splits)

lemma callback_unknown:
  "check (dial_id lp d) (d_raw d) s = (Inl ErrUnknownHost, u) \<Longrightarrow>
   add (d_now d) (dial_id lp d) (d_raw d) (adds add (d_between d) u) = (r, v) \<Longrightarrow>
   knownHostsCallback check add lp d s =
     (map_sum (KhPin (fst (snd (dial_id lp d))) (fst (snd (snd (dial_id lp d))))) id r, v)"
  unfolding knownHostsCallback_def dial_id_def Let_def
  by (auto split: prod.splits sum.splits unit.splits)

section \<open>The contract of a store\<close>

locale known_hosts_store =
  fixes check :: "kh_id \<Rightarrow> string \<Rightarrow> 's \<Rightarrow> kh_res \<times> 's"
    and add :: "time \<Rightarrow> kh_id \<Rightarrow> string \<Rightarrow> 's \<Rightarrow> kh_res \<times> 's"
    and pin :: "'s \<Rightarrow> kh_id \<Rightarrow> string option"
    and enc :: "string \<Rightarrow> string"
  assumes enc_inj: "enc k = enc k' \<Longrightarrow> k = k'"
    and check_frame: "check i k s = (r, s') \<Longrightarrow> pin s' = pin s"
    and check_ok: "check i k s = (Inr (), s') \<Longrightarrow> pin s i = Some (enc k)"
    and check_unknown: "check i k s = (Inl ErrUnknownHost, s') \<Longrightarrow> pin s i = None"
    and add_keeps: "pin s j = Some x \<Longrightarrow> pin (snd (add t i k s)) j = Some x"
    and add_pins: "add t i k s = (Inr (), s') \<Longrightarrow> pin s i = None \<Longrightarrow> pin s' i = Some (enc k)"
begin

lemma adds_keep: "pin s j = Some x \<Longrightarrow> pin (adds add xs s) j = Some x"
  by (induction xs arbitrary: s) (auto simp: add_keeps)

lemma callback_keeps:
  assumes "pin s j = Some x"
  shows "pin (snd (knownHostsCallback check add lp d s)) j = Some x"
proof -
  obtain r u where c: "check (dial_id lp d) (d_raw d) s = (r, u)" by force
  have u: "pin u j = Some x" using assms check_frame [OF c] by simp
  show ?thesis
  proof (cases "r = Inl ErrUnknownHost")
    case False
    with c u show ?thesis by (simp add: callback_known)
  next
    case True
    obtain r' v where a: "add (d_now d) (dial_id lp d) (d_raw d) (adds add (d_between d) u) = (r', v)"
      by force
    have "pin v j = Some x" using add_keeps [OF adds_keep [OF u]] a by (metis snd_conv)
    with callback_unknown [where check = check and add = add, OF c [unfolded True] a] show ?thesis by simp
  qed
qed

lemma dials_keep: "pin s j = Some x \<Longrightarrow> pin (dials check add lp ds s) j = Some x"
  by (induction ds arbitrary: s) (auto simp: callback_keeps)

lemma accepted_cases:
  assumes "knownHostsCallback check add lp d s = (Inr (), s')"
  shows "pin s (dial_id lp d) = Some (enc (d_raw d)) \<or>
    (pin s (dial_id lp d) = None \<and> (\<exists>u. pin u = pin s \<and>
       add (d_now d) (dial_id lp d) (d_raw d) (adds add (d_between d) u) = (Inr (), s')))"
proof (cases "fst (check (dial_id lp d) (d_raw d) s) = Inl ErrUnknownHost")
  case False
  with assms have "check (dial_id lp d) (d_raw d) s = (Inr (), s')" by (simp add: callback_known)
  then show ?thesis by (simp add: check_ok)
next
  case True
  then obtain u where u: "check (dial_id lp d) (d_raw d) s = (Inl ErrUnknownHost, u)"
    by (metis prod.collapse)
  obtain r v where a: "add (d_now d) (dial_id lp d) (d_raw d) (adds add (d_between d) u) = (r, v)"
    by force
  with assms callback_unknown [where check = check and add = add, OF u a] have "r = Inr ()" "v = s'" by (cases r; simp)+
  with check_unknown [OF u] check_frame [OF u] a show ?thesis by blast
qed

lemma accepted_alone:
  assumes "knownHostsCallback check add lp d s = (Inr (), s')" and "d_between d = []"
  shows "pin s' (dial_id lp d) = Some (enc (d_raw d))"
  using accepted_cases [OF assms(1)] callback_keeps [of s "dial_id lp d" _ lp d] assms
  by (auto simp: add_pins)

lemma pinned_only:
  assumes "pin s (dial_id lp d) = Some (enc k)"
    and "knownHostsCallback check add lp d (dials check add lp ds s) = (Inr (), s')"
  shows "d_raw d = k"
  using accepted_cases [OF assms(2)] dials_keep [OF assms(1), of lp ds] by (auto dest: enc_inj)

lemma tofu_alone:
  assumes "knownHostsCallback check add lp d s = (Inr (), s')" and "d_between d = []"
    and "dial_id lp d' = dial_id lp d"
    and "knownHostsCallback check add lp d' (dials check add lp ds s') = (Inr (), s'')"
  shows "d_raw d' = d_raw d"
  using pinned_only [of s' lp d' "d_raw d"] accepted_alone [OF assms(1,2)] assms(3,4) by simp

end

text \<open>A store whose \<open>Add\<close> also compares the key it finds pinned.\<close>

locale comparing_store = known_hosts_store +
  assumes add_agrees: "add t i k s = (Inr (), s') \<Longrightarrow> pin s' i = Some (enc k)"
begin

lemma accepted_pinned:
  "knownHostsCallback check add lp d s = (Inr (), s') \<Longrightarrow> pin s' (dial_id lp d) = Some (enc (d_raw d))"
  using accepted_cases [of lp d s s'] callback_keeps [of s "dial_id lp d" _ lp d]
  by (auto simp: add_agrees)

lemma tofu:
  assumes "knownHostsCallback check add lp d s = (Inr (), s')"
    and "dial_id lp d' = dial_id lp d"
    and "knownHostsCallback check add lp d' (dials check add lp ds s') = (Inr (), s'')"
  shows "d_raw d' = d_raw d"
  using pinned_only [of s' lp d' "d_raw d"] accepted_pinned [OF assms(1)] assms(2,3) by simp

end

section \<open>Both stores keep the contract\<close>

definition db_pin :: "kh_db \<Rightarrow> kh_id \<Rightarrow> string option" where
  "db_pin s i = map_option kh_public (lookup kh_ident i (known_hosts s))"

definition mem_pin :: "kh_mem \<Rightarrow> kh_id \<Rightarrow> string option" where
  "mem_pin m i = m (mapKey i)"

lemma db_pin_faults [simp]: "db_pin (s\<lparr>faults := fs\<rparr>) = db_pin s"
  by (simp add: db_pin_def fun_eq_iff)

lemma DB_Check_post:
  "post (\<lambda>r s'. db_pin s' = db_pin s \<and> (r = Inr () \<longrightarrow> db_pin s i = Some (base64 k)) \<and>
     (r = Inl ErrUnknownHost \<longrightarrow> db_pin s i = None)) (DB_Check i k s)"
  unfolding DB_Check_def
  by (rule post_exec) (auto simp: db_pin_def lookup_def fun_eq_iff split: option.splits)

lemma DB_Add_post:
  "post (\<lambda>r s'. (db_pin s j = Some x \<longrightarrow> db_pin s' j = Some x) \<and>
     (r = Inr () \<longrightarrow> db_pin s' i = Some (base64 k))) (DB_Add t i k s)"
proof -
  have i: "affected (\<lambda>r. kh_ident r = i) (known_hosts s) = 0 \<longleftrightarrow> lookup kh_ident i (known_hosts s) = None"
    by (auto simp: affected_0_iff lookup_None)
  show ?thesis
    unfolding DB_Add_def
    by (intro post_exec; auto simp: i db_pin_def lookup_insert split: option.splits
        intro!: post_exec; auto simp: lookup_def)
qed

interpretation db_kh: comparing_store DB_Check DB_Add db_pin base64
proof
  show "base64 k = base64 k' \<Longrightarrow> k = k'" for k k' by simp
  show "DB_Check i k s = (r, s') \<Longrightarrow> db_pin s' = db_pin s" for i k s r s'
    using DB_Check_post [of s i k] by simp
  show "DB_Check i k s = (Inr (), s') \<Longrightarrow> db_pin s i = Some (base64 k)" for i k s s'
    using DB_Check_post [of s i k] by simp
  show "DB_Check i k s = (Inl ErrUnknownHost, s') \<Longrightarrow> db_pin s i = None" for i k s s'
    using DB_Check_post [of s i k] by simp
  show "db_pin s j = Some x \<Longrightarrow> db_pin (snd (DB_Add t i k s)) j = Some x" for s j x t i k
    using DB_Add_post [of s j x i k t] by (auto simp: post_def split: prod.splits)
  show "DB_Add t i k s = (Inr (), s') \<Longrightarrow> db_pin s i = None \<Longrightarrow> db_pin s' i = Some (base64 k)"
    for t i k s s'
    using DB_Add_post [of s i _ i k t] by simp
  show "DB_Add t i k s = (Inr (), s') \<Longrightarrow> db_pin s' i = Some (base64 k)" for t i k s s'
    using DB_Add_post [of s i _ i k t] by simp
qed

interpretation mem_kh: known_hosts_store Mem_Check Mem_Add mem_pin id
  by unfold_locales
    (auto simp: Mem_Check_def Mem_Add_def mem_pin_def fun_eq_iff split: option.splits if_splits)

text \<open>
  The in-process store compares nothing in \<open>Add\<close>: of two dials that both saw an unknown
  host, the second is accepted with a key that is not the pinned one.
\<close>

lemma mem_race:
  "\<exists>d s'. knownHostsCallback Mem_Check Mem_Add (\<lambda>_. None) d Map.empty = (Inr (), s') \<and>
     mem_pin s' (dial_id (\<lambda>_. None) d) \<noteq> Some (d_raw d)"
  by (rule exI [of _ "\<lparr>d_tenant = 1, d_port = 22, d_hostname = ''r1'', d_algo = ''ssh-rsa'',
      d_raw = ''evil'', d_now = 0, d_between = [(0, (1, ''r1'', 22, ''ssh-rsa''), ''good'')]\<rparr>"])
    (simp add: knownHostsCallback_def dial_id_def dial_target_def SplitHostPort_def
      Mem_Check_def Mem_Add_def mem_pin_def Let_def)

lemma DB_Check_eq:
  "faults s = [] \<Longrightarrow> DB_Check i k s =
     (case db_pin s i of None \<Rightarrow> Inl ErrUnknownHost
      | Some p \<Rightarrow> if p = base64 k then Inr () else Inl ErrKeyChanged, s)"
  by (auto simp: DB_Check_def db_pin_def lookup_def split: option.splits)

lemma DB_Add_new:
  assumes "faults s = []" and "db_pin s i = None"
  obtains s' where "DB_Add t i k s = (Inr (), s')" "db_pin s' = (db_pin s)(i \<mapsto> base64 k)"
proof
  have *: "lookup kh_ident i (known_hosts s) = None" using assms(2) by (simp add: db_pin_def)
  then have "affected (\<lambda>r. kh_ident r = i) (known_hosts s) = 0"
    by (auto simp: affected_0_iff lookup_None)
  then show "DB_Add t i k s = (Inr (), s\<lparr>known_hosts := insert_row (\<lambda>n. \<lparr>kh_rowid = n, kh_ident = i,
      kh_public = base64 k, kh_added = rfc3339 t\<rparr>) (known_hosts s),
      last_rowid := next_rowid (known_hosts s)\<rparr>)"
    using assms(1) by (simp add: DB_Add_def)
  show "db_pin (s\<lparr>known_hosts := insert_row (\<lambda>n. \<lparr>kh_rowid = n, kh_ident = i,
      kh_public = base64 k, kh_added = rfc3339 t\<rparr>) (known_hosts s),
      last_rowid := next_rowid (known_hosts s)\<rparr>) = (db_pin s)(i \<mapsto> base64 k)"
    using * by (auto simp: db_pin_def lookup_insert fun_eq_iff split: option.splits)
qed

text \<open>C13: Once a dial through the SQLite store was accepted, no later dial to the same tenant,
  host, port and algorithm is accepted with a different key, whatever dials happen in between,
  whatever other goroutines pin between a dial's Check and its Add, and whichever statements
  fail.\<close>
theorem host_key_stays_pinned:
  assumes "knownHostsCallback DB_Check DB_Add lp d s = (Inr (), s')"
    and "dial_id lp d' = dial_id lp d"
    and "knownHostsCallback DB_Check DB_Add lp d' (dials DB_Check DB_Add lp ds s') = (Inr (), s'')"
  shows "d_raw d' = d_raw d"
  using assms by (rule db_kh.tofu)

definition ex_lp :: "string \<Rightarrow> int option" where
  "ex_lp p = (if p = ''2222'' then Some 2222 else None)"

definition ex_dial :: "string \<Rightarrow> dial" where
  "ex_dial k = \<lparr>d_tenant = 1, d_port = 22, d_hostname = ''r1:2222'', d_algo = ''ssh-rsa'', d_raw = k,
     d_now = 0, d_between = []\<rparr>"

definition ex_kh_db :: kh_db where
  "ex_kh_db = \<lparr>faults = [], last_rowid = 0, known_hosts = empty_table\<rparr>"

lemma host_key_stays_pinned_witness:
  "let m = knownHostsCallback DB_Check DB_Add ex_lp (ex_dial ''k'') ex_kh_db;
       m' = knownHostsCallback DB_Check DB_Add ex_lp ((ex_dial ''k'')\<lparr>d_port := 23\<rparr>)
              (dials DB_Check DB_Add ex_lp [ex_dial ''evil''] (snd m))
   in fst m = Inr () \<and> fst m' = Inr () \<and>
      d_raw ((ex_dial ''k'')\<lparr>d_port := 23\<rparr>) = d_raw (ex_dial ''k'')"
proof -
  have pair: "m = (Inr (), snd m)" if "fst m = Inr ()" for m :: "kh_res \<times> kh_db"
    using that by (simp add: prod_eq_iff)
  have a: "fst (knownHostsCallback DB_Check DB_Add ex_lp (ex_dial ''k'') ex_kh_db) = Inr ()"
    by code_simp
  have b: "fst (knownHostsCallback DB_Check DB_Add ex_lp ((ex_dial ''k'')\<lparr>d_port := 23\<rparr>)
      (dials DB_Check DB_Add ex_lp [ex_dial ''evil'']
        (snd (knownHostsCallback DB_Check DB_Add ex_lp (ex_dial ''k'') ex_kh_db)))) = Inr ()"
    by code_simp
  have c: "dial_id ex_lp ((ex_dial ''k'')\<lparr>d_port := 23\<rparr>) = dial_id ex_lp (ex_dial ''k'')"
    by code_simp
  from a b host_key_stays_pinned [OF pair [OF a] c pair [OF b]] show ?thesis
    by (simp only: Let_def simp_thms)
qed

text \<open>With a working database and no concurrent dial, the callback accepts exactly an
  unknown identity, which it pins, or the pinned key; a different key gives ErrKeyChanged and
  changes no pin.\<close>
theorem host_key_decision:
  assumes "faults s = []" and "d_between d = []"
  shows "fst (knownHostsCallback DB_Check DB_Add lp d s) =
       (case db_pin s (dial_id lp d) of None \<Rightarrow> Inr ()
        | Some p \<Rightarrow> if p = base64 (d_raw d) then Inr () else Inl ErrKeyChanged) \<and>
     db_pin (snd (knownHostsCallback DB_Check DB_Add lp d s)) =
       (if db_pin s (dial_id lp d) = None
        then (db_pin s)(dial_id lp d \<mapsto> base64 (d_raw d)) else db_pin s)"
proof (cases "db_pin s (dial_id lp d)")
  case None
  then have "DB_Check (dial_id lp d) (d_raw d) s = (Inl ErrUnknownHost, s)"
    using assms by (simp add: DB_Check_eq)
  moreover obtain u where "DB_Add (d_now d) (dial_id lp d) (d_raw d) s = (Inr (), u)"
    "db_pin u = (db_pin s)(dial_id lp d \<mapsto> base64 (d_raw d))"
    using assms(1) None by (rule DB_Add_new)
  ultimately show ?thesis
    using None callback_unknown [of DB_Check lp d s s DB_Add "Inr ()" u] assms(2) by simp
next
  case (Some p)
  with assms show ?thesis by (auto simp: callback_known DB_Check_eq)
qed

lemma host_key_decision_witness:
  "fst (knownHostsCallback DB_Check DB_Add ex_lp (ex_dial ''k'') ex_kh_db) = Inr ()"
  using host_key_decision [of ex_kh_db "ex_dial ''k''" ex_lp]
  by (simp add: ex_kh_db_def ex_dial_def db_pin_def)

end
