(* ===== verification/Dial.thy ===== *)
theory Dial
  imports KnownHosts
begin

text \<open>
  How the SSH and Telnet dialers choose the address they connect to and the host-key check
  (\<open>DialSSH\<close>, \<open>DialSSHExec\<close>, \<open>DialSSHShell\<close>, \<open>DialTelnet\<close>, \<open>resolveHostKeyCallback\<close>), and
  the result of a command run on an exec channel. The handshake itself is the SSH library's.
\<close>

section \<open>Addresses\<close>

text \<open>\<open>net.JoinHostPort\<close>.\<close>

definition JoinHostPort :: "string \<Rightarrow> string \<Rightarrow> string" where
  "JoinHostPort host port =
     (if CHR '':'' \<in> set host then ''['' @ host @ '']:'' @ port else host @ '':'' @ port)"

record TelnetConfig =
  tc_Address :: string
  tc_Port :: int
  tc_Username :: string
  tc_Password :: string
  tc_Timeout :: duration

text \<open>Callbacks and stores are named by a number; a fresh in-process store is \<open>TempStore\<close>.\<close>

datatype host_keys = Given nat | Pinned "nat option" int

record SSHConfig =
  sc_Address :: string
  sc_Port :: int
  sc_Username :: string
  sc_Password :: string
  sc_HostKeyCallback :: "nat option"
  sc_KnownHosts :: "nat option"
  sc_TenantID :: int
  sc_Timeout :: duration

definition dial_addr :: "int \<Rightarrow> string \<Rightarrow> int \<Rightarrow> string" where
  "dial_addr std address port = (case SplitHostPort address of
     Some _ \<Rightarrow> address
   | None \<Rightarrow> JoinHostPort address (itoa (if port = 0 then std else port)))"

definition dial_timeout :: "duration \<Rightarrow> duration" where
  "dial_timeout t = (if t = 0 then 30 * second else t)"

text \<open>\<open>DialTelnet\<close>: the address dialled and the session's timeout.\<close>

definition DialTelnet :: "TelnetConfig \<Rightarrow> string \<times> duration" where
  "DialTelnet cfg = (dial_addr 23 (tc_Address cfg) (tc_Port cfg), dial_timeout (tc_Timeout cfg))"

definition resolveHostKeyCallback :: "(string \<Rightarrow> int option) \<Rightarrow> SSHConfig \<Rightarrow> host_keys" where
  "resolveHostKeyCallback lookup_port cfg = (case sc_HostKeyCallback cfg of
     Some f \<Rightarrow> Given f
   | None \<Rightarrow>
       (let port = (case SplitHostPort (sc_Address cfg) of
              Some (_, ps) \<Rightarrow> (case lookup_port ps of
                Some p \<Rightarrow> if p > 0 then p else sc_Port cfg | None \<Rightarrow> sc_Port cfg)
            | None \<Rightarrow> sc_Port cfg)
        in Pinned (sc_KnownHosts cfg) (if port = 0 then 22 else port)))"

text \<open>What the three SSH dialers do before the handshake: the error for an empty user name (the
  exec and shell dialers make the same check), or the address, the timeout and the key check.\<close>

definition ssh_dial :: "(string \<Rightarrow> int option) \<Rightarrow> SSHConfig \<Rightarrow> string + (string \<times> duration \<times> host_keys)" where
  "ssh_dial lookup_port cfg =
     (if sc_Username cfg = [] then Inl ''transport/ssh: empty username''
      else Inr (dial_addr 22 (sc_Address cfg) (sc_Port cfg), dial_timeout (sc_Timeout cfg),
                resolveHostKeyCallback lookup_port cfg))"

text \<open>\<open>sshExecSession.Run\<close>: a non-zero exit still returns the output.\<close>

datatype exec_result = Output string | ExitError string | ExecError string

definition exec_Run :: "string + exec_result \<Rightarrow> string + string" where
  "exec_Run r = (case r of
     Inl e \<Rightarrow> Inl e
   | Inr (Output out) \<Rightarrow> Inr out
   | Inr (ExitError out) \<Rightarrow> Inr out
   | Inr (ExecError e) \<Rightarrow> Inl e)"

section \<open>The pinned identity is the dialled one\<close>

lemma last_index_append: "c \<notin> set q \<Longrightarrow> last_index c (p @ c # q) = Some (length p)"
proof -
  assume q: "c \<notin> set q"
  then have "last_index c q = None" by (induction q) auto
  then show ?thesis by (induction p) auto
qed

lemma str_index_char: "c \<notin> set p \<Longrightarrow> str_index (p @ c # q) [c] = Some (length p)"
  by (induction p) (auto simp: has_prefix_def)

definition plain_host :: "string \<Rightarrow> bool" where
  "plain_host h \<longleftrightarrow> CHR ''['' \<notin> set h \<and> CHR '']'' \<notin> set h"

lemma Split_Join:
  assumes "plain_host h" and "plain_host p" and "CHR '':'' \<notin> set p"
  shows "SplitHostPort (JoinHostPort h p) = Some (h, p)"
proof (cases "CHR '':'' \<in> set h")
  case True
  have j: "JoinHostPort h p = (CHR ''['' # h @ [CHR '']'']) @ CHR '':'' # p"
    using True by (simp add: JoinHostPort_def)
  have l: "last_index CHR '':'' (JoinHostPort h p) = Some (length h + 2)"
    unfolding j using assms(3) by (subst last_index_append) auto
  have e: "str_index (JoinHostPort h p) '']'' = Some (Suc (length h))"
    using str_index_char [of "CHR '']''" "CHR ''['' # h" "CHR '':'' # p"] assms(1)
    by (simp add: j plain_host_def)
  show ?thesis
    unfolding SplitHostPort_def l e using assms by (simp add: j plain_host_def)
next
  case False
  have j: "JoinHostPort h p = h @ CHR '':'' # p"
    using False by (simp add: JoinHostPort_def)
  have "hd (h @ CHR '':'' # p) \<noteq> CHR ''[''" using assms(1) by (cases h) (auto simp: plain_host_def)
  then show ?thesis
    unfolding SplitHostPort_def j using assms False
    by (simp add: last_index_append plain_host_def)
qed

lemma nat_digits_decimal: "set (nat_digits n) \<subseteq> set ''0123456789''"
proof (induction n rule: nat_digits.induct)
  case (1 n)
  have "digit m \<in> set ''0123456789''" for m
  proof -
    have "m mod 10 = 0 \<or> m mod 10 = 1 \<or> m mod 10 = 2 \<or> m mod 10 = 3 \<or> m mod 10 = 4 \<or>
        m mod 10 = 5 \<or> m mod 10 = 6 \<or> m mod 10 = 7 \<or> m mod 10 = 8 \<or> m mod 10 = 9"
      by presburger
    then show ?thesis by (elim disjE) (simp_all add: digit_def char_of_def bit_0)
  qed
  with 1 show ?case by (subst nat_digits.simps) auto
qed

lemma itoa_plain: "plain_host (itoa n)" "CHR '':'' \<notin> set (itoa n)"
  using nat_digits_decimal [of "nat n"] nat_digits_decimal [of "nat (- n)"]
  by (auto simp: itoa_def plain_host_def)

text \<open>The callback pins the port that is dialled: for an address without a port, the target the
  callback computes from the dialled address is the host itself with the configured port, or
  with the standard port when none is configured.\<close>
theorem pinned_target_is_dialled:
  assumes "SplitHostPort address = None" and "plain_host address"
    and "lookup_port (itoa (if port = 0 then std else port)) = Some (if port = 0 then std else port)"
    and "(if port = 0 then std else port) > 0"
  shows "dial_target lookup_port d (dial_addr std address port) =
     (address, if port = 0 then std else port)"
  using assms by (simp add: dial_target_def dial_addr_def Split_Join itoa_plain)

lemma pinned_target_is_dialled_witness:
  "dial_target (\<lambda>p. if p = ''2222'' then Some 2222 else None) 22 (dial_addr 22 ''fe80::1'' 2222) =
     (''fe80::1'', 2222)"
proof -
  have "itoa 2222 = ''2222''" by code_simp
  moreover have "SplitHostPort ''fe80::1'' = None" by code_simp
  ultimately show ?thesis
    using pinned_target_is_dialled [of "''fe80::1''" "\<lambda>p. if p = ''2222'' then Some 2222 else None" 2222 22 22]
    by (simp add: plain_host_def)
qed

end
