(* ===== verification/Prompt.thy ===== *)
theory Prompt
  imports Prelude "HOL-Library.Sublist"
begin

text \<open>
  Recognising a device's command prompt and cleaning a command's output
  (\<open>promptRE\<close>, \<open>tail\<close>, \<open>cleanCommandEcho\<close> of \<open>internal/transport/ssh.go\<close>), and the
  interactive SSH session that reads until the prompt (\<open>sshSession\<close>). A connection is the list
  of what its reads will return; a write appends to what was sent.
\<close>

section \<open>The prompt expression\<close>

abbreviation nl :: char where "nl \<equiv> CHR 0x0A"
abbreviation cr :: char where "cr \<equiv> CHR 0x0D"
abbreviation tab :: char where "tab \<equiv> CHR 0x09"

definition alnum :: "char \<Rightarrow> bool" where
  "alnum c \<longleftrightarrow> (let n = of_char c :: nat in
     48 \<le> n \<and> n \<le> 57 \<or> 65 \<le> n \<and> n \<le> 90 \<or> 97 \<le> n \<and> n \<le> 122)"

text \<open>The classes \<open>[\w.-]\<close>, \<open>[/\w.-]\<close>, \<open>\S\<close> and \<open>[ \t]\<close>.\<close>

definition name_char :: "char \<Rightarrow> bool" where
  "name_char c \<longleftrightarrow> alnum c \<or> c \<in> {CHR ''_'', CHR ''.'', CHR ''-''}"

definition path_char :: "char \<Rightarrow> bool" where
  "path_char c \<longleftrightarrow> name_char c \<or> c = CHR ''/''"

definition non_space :: "char \<Rightarrow> bool" where
  "non_space c \<longleftrightarrow> c \<notin> {tab, nl, CHR 0x0C, cr, CHR '' ''}"

definition blank :: "char \<Rightarrow> bool" where
  "blank c \<longleftrightarrow> c = CHR '' '' \<or> c = tab"

text \<open>What can be left of the input after one or more characters of a class.\<close>

fun spans1 :: "(char \<Rightarrow> bool) \<Rightarrow> string \<Rightarrow> string list" where
  "spans1 p [] = []"
| "spans1 p (c # s) = (if p c then s # spans1 p s else [])"

lemma spans1_shorter: "r \<in> set (spans1 p s) \<Longrightarrow> length r < length s"
  by (induction s) (auto split: if_splits)

text \<open>The group \<open>(\[\S+\]|[\w.-]+)\<close>, the option \<open>(\([^)]+\))?\<close> and the loop
  \<open>([ \t]+[/\w.-]+)*\<close>, each with every way to match.\<close>

fun closed_by :: "char \<Rightarrow> string list \<Rightarrow> string list" where
  "closed_by c [] = []"
| "closed_by c (r # rs) =
     (case r of x # t \<Rightarrow> if x = c then t # closed_by c rs else closed_by c rs
      | [] \<Rightarrow> closed_by c rs)"

fun prompt_name :: "string \<Rightarrow> string list" where
  "prompt_name [] = []"
| "prompt_name (c # s) =
     (if c = CHR ''['' then closed_by (CHR '']'') (spans1 non_space s) else spans1 name_char (c # s))"

fun prompt_mode :: "string \<Rightarrow> string list" where
  "prompt_mode [] = [[]]"
| "prompt_mode (c # s) =
     (c # s) # (if c = CHR ''('' then closed_by (CHR '')'') (spans1 (\<lambda>x. x \<noteq> CHR '')'') s) else [])"

definition prompt_segment :: "string \<Rightarrow> string list" where
  "prompt_segment s = concat (map (spans1 path_char) (spans1 blank s))"

lemma prompt_segment_shorter: "r \<in> set (prompt_segment s) \<Longrightarrow> length r < length s"
  by (fastforce simp: prompt_segment_def dest: spans1_shorter)

function prompt_path :: "string \<Rightarrow> string list" where
  "prompt_path s = s # concat (map prompt_path (prompt_segment s))"
  by pat_completeness auto
termination
  by (relation "measure length") (auto dest: prompt_segment_shorter)

declare prompt_path.simps [simp del]

text \<open>The end \<open>[ \t]*[#>$][ \t]*$\<close>, in multi-line mode.\<close>

definition prompt_end :: "string \<Rightarrow> bool" where
  "prompt_end s = (case dropWhile blank s of
     [] \<Rightarrow> False
   | c # t \<Rightarrow> c \<in> set ''#>$'' \<and>
       (case dropWhile blank t of [] \<Rightarrow> True | x # _ \<Rightarrow> x = nl))"

definition prompt_at :: "string \<Rightarrow> bool" where
  "prompt_at s = list_ex (\<lambda>r. list_ex (\<lambda>q. list_ex prompt_end (prompt_path q)) (prompt_mode r))
     (prompt_name s)"

text \<open>The first position at which the expression matches; \<open>^\<close> is the start of the text or the
  position after a newline. \<open>promptRE.MatchString\<close> and \<open>FindStringIndex(s)[0]\<close>.\<close>

fun prompt_from :: "bool \<Rightarrow> string \<Rightarrow> nat option" where
  "prompt_from b [] = None"
| "prompt_from b (c # s) =
     (if b \<and> prompt_at (c # s) then Some 0 else map_option Suc (prompt_from (c = nl) s))"

definition prompt_index :: "string \<Rightarrow> nat option" where
  "prompt_index s = prompt_from True s"

definition promptRE :: "string \<Rightarrow> bool" where
  "promptRE s \<longleftrightarrow> prompt_index s \<noteq> None"

definition tail :: "string \<Rightarrow> nat \<Rightarrow> string" where
  "tail b n = (if length b \<le> n then b else drop (length b - n) b)"

definition cleanCommandEcho :: "string \<Rightarrow> string \<Rightarrow> string" where
  "cleanCommandEcho raw cmd =
     (let out = (case str_index raw cmd of
            None \<Rightarrow> raw
          | Some i \<Rightarrow>
              (case drop (i + length cmd) raw of
                 [] \<Rightarrow> []
               | c # s \<Rightarrow>
                   if c = nl \<or> c = cr
                   then (case s of [] \<Rightarrow> [] | d # t \<Rightarrow> if d = nl then t else s)
                   else c # s))
      in case prompt_index out of None \<Rightarrow> out | Some n \<Rightarrow> take n out)"

section \<open>Reading until the prompt\<close>

datatype read_err = RTimeout | REOF | ROther string

text \<open>What the reading loop's \<open>select\<close> sees next: the context ends, the deadline passes, or the
  read returns bytes and possibly an error. When nothing more comes the deadline passes.\<close>

datatype conn_event = CtxDone | Deadline | Read string "read_err option"

record io_conn =
  inp :: "conn_event list"
  wfail :: "string option list"
  sent :: "string list"

fun next_event :: "'a io_conn_scheme \<Rightarrow> conn_event \<times> 'a io_conn_scheme" where
  "next_event s = (case inp s of [] \<Rightarrow> (Deadline, s) | e # es \<Rightarrow> (e, s\<lparr>inp := es\<rparr>))"

definition conn_write :: "string \<Rightarrow> 'a io_conn_scheme \<Rightarrow> string option \<times> 'a io_conn_scheme" where
  "conn_write d s = (case wfail s of
     [] \<Rightarrow> (None, s\<lparr>sent := sent s @ [d]\<rparr>)
   | None # fs \<Rightarrow> (None, s\<lparr>wfail := fs, sent := sent s @ [d]\<rparr>)
   | Some e # fs \<Rightarrow> (Some e, s\<lparr>wfail := fs\<rparr>))"

datatype io_err =
  ErrCtx | ErrPromptTimeout | ErrLoginTimeout | ErrSuffixTimeout | ErrRead read_err | ErrWrite string
| ErrPromptSeen

text \<open>\<open>sshSession.readUntilPrompt\<close>; it returns what was read beside the error.\<close>

function ssh_read :: "string \<Rightarrow> io_conn \<Rightarrow> (string \<times> io_err option) \<times> io_conn" where
  "ssh_read buf s = (case inp s of
     [] \<Rightarrow> ((buf, Some ErrPromptTimeout), s)
   | CtxDone # es \<Rightarrow> ((buf, Some ErrCtx), s\<lparr>inp := es\<rparr>)
   | Deadline # es \<Rightarrow> ((buf, Some ErrPromptTimeout), s\<lparr>inp := es\<rparr>)
   | Read d e # es \<Rightarrow>
       (let s = s\<lparr>inp := es\<rparr>; buf = buf @ d in
        if d \<noteq> [] \<and> promptRE (tail buf 256) then ((buf, None), s)
        else (case e of
                Some REOF \<Rightarrow> ((buf, None), s)
              | Some x \<Rightarrow> ((buf, Some (ErrRead x)), s)
              | None \<Rightarrow> ssh_read buf s)))"
  by pat_completeness auto
termination
  by (relation "measure (\<lambda>(buf, s). length (inp s))") auto

declare ssh_read.simps [simp del]

definition ssh_Run :: "string \<Rightarrow> io_conn \<Rightarrow> (io_err + string) \<times> io_conn" where
  "ssh_Run cmd s = (case conn_write (cmd @ [nl]) s of
     (Some e, s) \<Rightarrow> (Inl (ErrWrite e), s)
   | (None, s) \<Rightarrow> (case ssh_read [] s of
       ((_, Some e), s) \<Rightarrow> (Inl e, s)
     | ((out, None), s) \<Rightarrow> (Inr (cleanCommandEcho out cmd), s)))"

section \<open>A line decides for itself\<close>

lemma spans1_append:
  "\<not> p nl \<Longrightarrow> spans1 p (l @ nl # r) = map (\<lambda>t. t @ nl # r) (spans1 p l)"
  by (induction l) auto

lemma spans1_suffix: "r \<in> set (spans1 p s) \<Longrightarrow> set r \<subseteq> set s"
  by (induction s) (auto split: if_splits)

lemma closed_by_append:
  "c \<noteq> nl \<Longrightarrow> closed_by c (map (\<lambda>t. t @ nl # r) ts) = map (\<lambda>t. t @ nl # r) (closed_by c ts)"
  by (induction ts) (auto split: list.splits)

lemma closed_by_suffix: "r \<in> set (closed_by c ts) \<Longrightarrow> \<exists>t \<in> set ts. set r \<subseteq> set t"
  by (induction ts) (auto split: list.splits if_splits)

lemma not_newline:
  "\<not> name_char nl" "\<not> path_char nl" "\<not> non_space nl" "\<not> blank nl"
  by (simp_all add: name_char_def path_char_def non_space_def blank_def alnum_def)

lemma prompt_name_append:
  "prompt_name (l @ nl # r) = map (\<lambda>t. t @ nl # r) (prompt_name l)"
proof (cases l)
  case (Cons c s)
  then show ?thesis
    using spans1_append [of name_char "c # s" r]
    by (simp add: spans1_append closed_by_append not_newline del: spans1.simps)
qed (simp add: not_newline)

lemma prompt_name_suffix: "r \<in> set (prompt_name s) \<Longrightarrow> set r \<subseteq> set s"
  by (cases s) (auto split: if_splits dest!: closed_by_suffix dest: spans1_suffix)

lemma prompt_mode_plain: "CHR ''('' \<notin> set s \<Longrightarrow> prompt_mode s = [s]"
  by (cases s) auto

lemma prompt_segment_append:
  "prompt_segment (l @ nl # r) = map (\<lambda>t. t @ nl # r) (prompt_segment l)"
  by (simp add: prompt_segment_def spans1_append not_newline map_concat comp_def)

lemma prompt_path_append:
  "prompt_path (l @ nl # r) = map (\<lambda>t. t @ nl # r) (prompt_path l)"
proof (induction l rule: prompt_path.induct)
  case (1 s)
  have "map prompt_path (prompt_segment (s @ nl # r)) =
      map (map (\<lambda>t. t @ nl # r)) (map prompt_path (prompt_segment s))"
    using 1 by (simp add: prompt_segment_append)
  then show ?case
    by (subst (1 2) prompt_path.simps) (simp add: map_concat)
qed

lemma dropWhile_blank_append:
  "dropWhile blank (l @ nl # r) = dropWhile blank l @ nl # r"
  by (induction l) (simp_all add: not_newline)

lemma prompt_end_append: "prompt_end (l @ nl # r) = prompt_end l"
proof -
  have e: "prompt_end s = (case dropWhile blank s of [] \<Rightarrow> False
     | c # t \<Rightarrow> c \<in> set ''#>$'' \<and> (case dropWhile blank t of [] \<Rightarrow> True | x # _ \<Rightarrow> x = nl))" for s
    by (simp add: prompt_end_def)
  obtain m where m: "m = dropWhile blank l" by simp
  have x: "(case dropWhile blank (t @ nl # r) of [] \<Rightarrow> True | x # _ \<Rightarrow> x = nl) =
      (case dropWhile blank t of [] \<Rightarrow> True | x # _ \<Rightarrow> x = nl)" for t
    unfolding dropWhile_blank_append by (cases "dropWhile blank t") (simp_all del: dropWhile_eq_Nil_conv)
  show ?thesis
    unfolding e dropWhile_blank_append m [symmetric] by (cases m) (simp_all add: x)
qed

lemma prompt_at_line:
  assumes "CHR ''('' \<notin> set l"
  shows "prompt_at (l @ nl # r) \<longleftrightarrow> prompt_at l"
proof -
  have "CHR ''('' \<notin> set q" if "q \<in> set (prompt_name l)" for q
    using prompt_name_suffix [OF that] assms by blast
  moreover have "prompt_mode (q @ nl # r) = [q @ nl # r]" if "CHR ''('' \<notin> set q" for q
    using that by (cases q) auto
  ultimately show ?thesis
    by (auto simp: prompt_at_def prompt_name_append list_ex_iff prompt_mode_plain
        prompt_path_append prompt_end_append)
qed

lemma prompt_from_inner: "nl \<notin> set l \<Longrightarrow>
    prompt_from False (l @ nl # r) = map_option (\<lambda>n. Suc (length l) + n) (prompt_from True r)"
  by (induction l; cases "prompt_from True r") auto

lemma prompt_from_line:
  assumes "nl \<notin> set l" "CHR ''('' \<notin> set l" "\<not> prompt_at l"
  shows "prompt_from True (l @ nl # r) = map_option (\<lambda>n. Suc (length l) + n) (prompt_from True r)"
proof -
  have "\<not> prompt_at (l @ nl # r)" using assms by (simp add: prompt_at_line)
  then show ?thesis
    using assms(1) prompt_from_inner [of "tl l" r]
    by (cases l; cases "prompt_from True r") auto
qed

text \<open>A line of ordinary output: nothing the expression takes for a prompt, and no parenthesis
  through which a match could run on into the next line.\<close>

definition output_line :: "string \<Rightarrow> bool" where
  "output_line l \<longleftrightarrow> nl \<notin> set l \<and> CHR ''('' \<notin> set l \<and> \<not> prompt_at l"

definition unlines :: "string list \<Rightarrow> string" where
  "unlines ls = concat (map (\<lambda>l. l @ [nl]) ls)"

lemma unlines_simps [simp]: "unlines [] = []" "unlines (l # ls) = l @ nl # unlines ls"
  by (simp_all add: unlines_def)

lemma prompt_after_output:
  "list_all output_line ls \<Longrightarrow> prompt_at p \<Longrightarrow> p \<noteq> [] \<Longrightarrow>
   prompt_index (unlines ls @ p) = Some (length (unlines ls))"
proof (induction ls)
  case Nil
  then show ?case by (cases p) (simp_all add: prompt_index_def)
next
  case (Cons l ls)
  then show ?case
    using prompt_from_line [of l "unlines ls @ p"] by (simp add: prompt_index_def output_line_def)
qed

lemma prompt_at_not_Nil: "prompt_at s \<Longrightarrow> s \<noteq> []"
  by (auto simp: prompt_at_def)

lemma clean_output:
  assumes "list_all output_line ls" and "prompt_at p"
  shows "cleanCommandEcho (cmd @ [cr, nl] @ unlines ls @ p) cmd = unlines ls"
proof -
  have "str_index (cmd @ [cr, nl] @ unlines ls @ p) cmd = Some 0"
    by (cases cmd) (simp_all add: has_prefix_def)
  with assms show ?thesis
    by (simp add: cleanCommandEcho_def prompt_after_output prompt_at_not_Nil)
qed

section \<open>Reading ends\<close>

definition reads :: "string list \<Rightarrow> conn_event list" where
  "reads ds = map (\<lambda>d. Read d None) ds"

text \<open>The output arrives in non-empty pieces, and the prompt is recognised with the last one.\<close>

fun arrives :: "string \<Rightarrow> string list \<Rightarrow> bool" where
  "arrives buf [] \<longleftrightarrow> False"
| "arrives buf [d] \<longleftrightarrow> d \<noteq> [] \<and> promptRE (tail (buf @ d) 256)"
| "arrives buf (d # ds) \<longleftrightarrow> \<not> promptRE (tail (buf @ d) 256) \<and> arrives (buf @ d) ds"

lemma ssh_read_arrives:
  "arrives buf ds \<Longrightarrow> inp s = reads ds @ es \<Longrightarrow>
   ssh_read buf s = ((buf @ concat ds, None), s\<lparr>inp := es\<rparr>)"
proof (induction buf ds arbitrary: s rule: arrives.induct)
  case (2 buf d)
  then show ?case by (subst ssh_read.simps) (simp add: reads_def Let_def)
next
  case (3 buf d d' ds)
  then show ?case by (subst ssh_read.simps) (simp add: reads_def Let_def)
qed simp

lemma ssh_read_ends:
  "ssh_read buf s = ((out, None), s') \<Longrightarrow>
   promptRE (tail out 256) \<or> (\<exists>d. Read d (Some REOF) \<in> set (inp s))"
proof (induction buf s rule: ssh_read.induct)
  case (1 buf s)
  note unfold = "1.prems" [unfolded ssh_read.simps [of buf s]]
  show ?case
  proof (cases "inp s")
    case (Cons ev es)
    show ?thesis
    proof (cases ev)
      case (Read d e)
      show ?thesis
      proof (cases "(d \<noteq> [] \<and> promptRE (tail (buf @ d) 256)) \<or> e \<noteq> None")
        case True
        with unfold Cons Read show ?thesis
          by (auto simp: Let_def split: if_splits option.splits read_err.splits)
      next
        case False
        with unfold Cons Read "1.IH" [OF Cons Read refl refl] show ?thesis by (auto simp: Let_def)
      qed
    qed (use unfold Cons in auto)
  qed (use unfold in auto)
qed

section \<open>However the bytes are cut\<close>

text \<open>No part of the text, wherever a read or the window of 256 bytes cuts it, looks like a prompt.\<close>

definition no_prompt_part :: "string \<Rightarrow> bool" where
  "no_prompt_part l \<longleftrightarrow> nl \<notin> set l \<and> list_all (\<lambda>x. \<not> prompt_at x) (sublists l)"

text \<open>A line the window cannot mistake, and a prompt that is one with its last character only.\<close>

definition quiet_line :: "string \<Rightarrow> bool" where
  "quiet_line l \<longleftrightarrow> no_prompt_part l \<and> CHR ''('' \<notin> set l"

definition prompt_line :: "string \<Rightarrow> bool" where
  "prompt_line p \<longleftrightarrow> prompt_at p \<and> length p \<le> 256 \<and> no_prompt_part (butlast p)"

lemma no_prompt_partD:
  assumes "no_prompt_part l" and "sublist x l"
  shows "nl \<notin> set x" and "\<not> prompt_at x" and "no_prompt_part x"
  using assms set_mono_sublist [OF assms(2)] sublist_order.order.trans [of _ x l]
  by (auto simp: no_prompt_part_def list_all_iff set_sublists_eq)

lemma quiet_line_part: "quiet_line l \<Longrightarrow> sublist x l \<Longrightarrow> quiet_line x \<and> output_line x"
  using no_prompt_partD [of l x] set_mono_sublist [of x l] by (auto simp: quiet_line_def output_line_def)

lemma no_prompt_from: "nl \<notin> set f \<Longrightarrow> \<not> prompt_at f \<Longrightarrow> prompt_from True f = None"
proof (cases f)
  case (Cons c s)
  have "prompt_from False x = None" if "nl \<notin> set x" for x
    using that by (induction x) auto
  then show "nl \<notin> set f \<Longrightarrow> \<not> prompt_at f \<Longrightarrow> ?thesis" using Cons by auto
qed simp

text \<open>A window into quiet lines: it starts within one of them or within what follows.\<close>

lemma window_cases:
  assumes "suffix y (l @ nl # rest)"
  obtains "suffix y rest" | l' where "suffix l' l" "y = l' @ nl # rest"
proof -
  have "suffix y (nl # rest) \<or> (\<exists>l'. y = l' @ nl # rest \<and> suffix l' l)"
    using assms by (simp only: suffix_append)
  then show thesis using that by (auto simp: suffix_Cons)
qed

lemma window_from:
  assumes "quiet_line l" and "suffix l' l"
  shows "prompt_from True (l' @ nl # r) = map_option (\<lambda>n. Suc (length l') + n) (prompt_from True r)"
  using quiet_line_part [OF assms(1) suffix_imp_sublist [OF assms(2)]] prompt_from_line [of l' r]
  by (simp add: output_line_def)

lemma quiet_window:
  "list_all quiet_line ls \<Longrightarrow> no_prompt_part f \<Longrightarrow> suffix y (unlines ls @ f) \<Longrightarrow> prompt_from True y = None"
proof (induction ls arbitrary: y)
  case Nil
  then show ?case using no_prompt_partD [of f y] no_prompt_from by (simp add: suffix_imp_sublist)
next
  case (Cons l ls)
  have "suffix y (l @ nl # (unlines ls @ f))" using Cons.prems by simp
  then show ?case
    using Cons window_from [of l] by (cases rule: window_cases) auto
qed

lemma prompt_window:
  "list_all quiet_line ls \<Longrightarrow> prompt_at p \<Longrightarrow> suffix y (unlines ls @ p) \<Longrightarrow> length p \<le> length y \<Longrightarrow>
   prompt_from True y \<noteq> None"
proof (induction ls arbitrary: y)
  case Nil
  then have "y = p" by (auto simp: suffix_def)
  with Nil show ?case by (cases p) (auto dest: prompt_at_not_Nil)
next
  case (Cons l ls)
  have "suffix y (l @ nl # (unlines ls @ p))" using Cons.prems by simp
  then show ?case
    using Cons window_from [of l] by (cases rule: window_cases) auto
qed

lemma prefix_unlines:
  "prefix x (unlines ls @ q) \<Longrightarrow>
   \<exists>ms f. x = unlines ms @ f \<and> set ms \<subseteq> set ls \<and> (prefix f q \<or> (\<exists>l \<in> set ls. prefix f l))"
proof (induction ls arbitrary: x)
  case Nil
  then show ?case by (intro exI [of _ "[]"] exI [of _ x]) simp
next
  case (Cons l ls)
  have "prefix x (l @ nl # (unlines ls @ q))" using Cons.prems by simp
  then consider "prefix x l" | x' where "x = l @ nl # x'" "prefix x' (unlines ls @ q)"
    by (auto simp: prefix_append prefix_Cons)
  then show ?case
  proof cases
    case 1
    then show ?thesis by (intro exI [of _ "[]"] exI [of _ x]) simp
  next
    case 2
    from Cons.IH [OF this(2)] obtain ms f where "x' = unlines ms @ f" "set ms \<subseteq> set ls"
      "prefix f q \<or> (\<exists>l \<in> set ls. prefix f l)" by blast
    with 2 show ?thesis by (intro exI [of _ "l # ms"] exI [of _ f]) auto
  qed
qed

lemma suffix_tail: "suffix (tail x n) x"
  by (simp add: tail_def suffix_drop)

lemma not_before_prompt:
  assumes "list_all quiet_line ls" and "prompt_line p" and "strict_prefix x (unlines ls @ p)"
  shows "\<not> promptRE (tail x 256)"
proof -
  have p: "p = butlast p @ [last p]"
    using assms(2) prompt_at_not_Nil [of p] by (simp add: prompt_line_def)
  obtain z where z: "unlines ls @ p = x @ z" "z \<noteq> []"
    using assms(3) by (auto elim: strict_prefixE' simp: strict_prefix_def prefix_def)
  then have "unlines ls @ butlast p = x @ butlast z"
    using p prompt_at_not_Nil [of p] assms(2) by (metis butlast_append prompt_line_def)
  then have "prefix x (unlines ls @ butlast p)" by simp
  from prefix_unlines [OF this] obtain ms f where f: "x = unlines ms @ f" "set ms \<subseteq> set ls"
    "prefix f (butlast p) \<or> (\<exists>l \<in> set ls. prefix f l)" by blast
  then have "no_prompt_part f"
    using assms(1,2) no_prompt_partD(3) prefix_imp_sublist
    by (auto simp: prompt_line_def list_all_iff quiet_line_def)
  moreover have "list_all quiet_line ms" using f(2) assms(1) by (auto simp: list_all_iff)
  ultimately show ?thesis
    using quiet_window [of ms f] suffix_tail [of x 256] f(1) by (simp add: promptRE_def prompt_index_def)
qed

lemma at_prompt:
  assumes "list_all quiet_line ls" and "prompt_line p"
  shows "promptRE (tail (unlines ls @ p) 256)"
proof -
  have "length p \<le> length (tail (unlines ls @ p) 256)" using assms(2) by (auto simp: tail_def prompt_line_def)
  with prompt_window [OF assms(1) _ suffix_tail] assms(2) show ?thesis
    by (auto simp: promptRE_def prompt_index_def prompt_line_def)
qed

lemma arrives_cut:
  assumes "\<And>x. strict_prefix x T \<Longrightarrow> \<not> promptRE (tail x 256)" and "promptRE (tail T 256)"
  shows "buf @ concat ds = T \<Longrightarrow> ds \<noteq> [] \<Longrightarrow> last ds \<noteq> [] \<Longrightarrow> arrives buf ds"
proof (induction buf ds rule: arrives.induct)
  case (2 buf d)
  then show ?case using assms(2) by simp
next
  case (3 buf d d' ds)
  have "concat (d' # ds) \<noteq> []" using 3(4) last_in_set [of "d' # ds"] by auto
  then have "strict_prefix (buf @ d) T" using 3(2) by (auto simp: strict_prefix_def prefix_def)
  then show ?case using 3 assms(1) by simp
qed simp

section \<open>Running a command\<close>

text \<open>C14: A command run over an interactive session returns exactly its output, however the bytes
  are cut into reads. When the write succeeds and the device answers with the echo, with lines and with a
  prompt of at most 256 bytes, where echo and lines hold no opening parenthesis and no part of them, nor of the prompt
  before its last character, looks like a prompt, Run returns those lines and leaves unread what comes after the read that
  completed the prompt.\<close>
theorem run_returns_output:
  assumes "wfail s = []" and "inp s = reads ds @ es" and "ds \<noteq> []" and "last ds \<noteq> []"
    and "concat ds = cmd @ [cr, nl] @ unlines ls @ p"
    and "list_all quiet_line ((cmd @ [cr]) # ls)" and "prompt_line p"
  shows "ssh_Run cmd s = (Inr (unlines ls), s\<lparr>inp := es, sent := sent s @ [cmd @ [nl]]\<rparr>)"
proof -
  let ?s = "s\<lparr>sent := sent s @ [cmd @ [nl]]\<rparr>" and ?ls = "(cmd @ [cr]) # ls"
  have T: "concat ds = unlines ?ls @ p" using assms(5) by simp
  have "arrives [] ds"
    using arrives_cut [of "unlines ?ls @ p" "[]" ds] not_before_prompt [OF assms(6,7)]
      at_prompt [OF assms(6,7)] T assms(3,4) by simp
  then have "ssh_read [] ?s = ((concat ds, None), ?s\<lparr>inp := es\<rparr>)"
    using assms(2) by (simp add: ssh_read_arrives)
  moreover have "list_all output_line ls" "prompt_at p"
    using assms(6,7) quiet_line_part by (auto simp: list_all_iff prompt_line_def)
  ultimately show ?thesis
    using assms(1,5) clean_output [of ls p cmd] by (simp add: ssh_Run_def conn_write_def)
qed

lemma run_returns_output_witness:
  "fst (ssh_Run ''sh ver'' \<lparr>inp = [Read (''sh ve'') None, Read (''r'' @ [cr, nl] @ ''IOS 1'') None,
     Read (''5'' @ [nl] @ ''r'') None, Read ''1#'' None], wfail = [], sent = []\<rparr>) = Inr (''IOS 15'' @ [nl])"
proof -
  let ?ds = "[''sh ve'', ''r'' @ [cr, nl] @ ''IOS 1'', ''5'' @ [nl] @ ''r'', ''1#'']"
  have b: "list_all quiet_line [''sh ver'' @ [cr], ''IOS 15'']" by code_simp
  have c: "prompt_line ''r1#''" by code_simp
  show ?thesis
    using run_returns_output [of "\<lparr>inp = reads ?ds, wfail = [], sent = []\<rparr>" ?ds "[]" "''sh ver''",
        OF _ _ _ _ _ _ c, of "[''IOS 15'']"] b
    by (simp add: reads_def)
qed

text \<open>A line of which a part looks like a prompt ends the output when a read ends there.\<close>

lemma cut_truncates:
  "fst (ssh_Run ''sh run'' \<lparr>inp = [Read (''sh run'' @ [cr, nl] @ ''description #'') None,
     Read (''2 uplink'' @ [nl] @ ''r1#'') None], wfail = [], sent = []\<rparr>) = Inr []"
  by code_simp

text \<open>
  The whole text is searched, not its last line, so an ordinary configuration line that the
  expression takes for a prompt ends the output: what follows it is lost.
\<close>

lemma banner_truncates:
  "cleanCommandEcho (''sh run'' @ [nl] @ ''hostname r1'' @ [nl] @ ''banner motd #'' @ [nl] @
     ''interface e0'' @ [nl] @ ''r1#'') ''sh run'' = ''hostname r1'' @ [nl]"
  by code_simp

end
