(* ===== verification/Telnet.thy ===== *)
theory Telnet
  imports Prompt "HOL-Library.Word"
begin

text \<open>
  The Telnet transport (\<open>internal/transport/telnet.go\<close>): stripping and refusing option
  negotiation, the login dialogue and the reading loops. Bytes are words of eight bits where
  the protocol's codes matter; one event of the connection is one \<open>conn.Read\<close>.
\<close>

section \<open>Option negotiation\<close>

type_synonym bytes = "8 word list"

definition iacByte :: "8 word" where "iacByte = 0xFF"
definition iacDont :: "8 word" where "iacDont = 0xFE"
definition iacDo :: "8 word" where "iacDo = 0xFD"
definition iacWont :: "8 word" where "iacWont = 0xFC"
definition iacWill :: "8 word" where "iacWill = 0xFB"
definition iacSB :: "8 word" where "iacSB = 0xFA"
definition iacSE :: "8 word" where "iacSE = 0xF0"

lemmas iac_codes = iacByte_def iacDont_def iacDo_def iacWont_def iacWill_def iacSB_def iacSE_def

text \<open>The loop that skips a subnegotiation; the rest of the chunk is the loop's \<open>data[i:]\<close>.\<close>

fun skip_sub :: "bytes \<Rightarrow> bytes" where
  "skip_sub [] = []"
| "skip_sub [b] = []"
| "skip_sub (b # c # s) = (if b = iacByte \<and> c = iacSE then s else skip_sub (c # s))"

lemma skip_sub_shorter: "length (skip_sub s) \<le> length s"
  by (induction s rule: skip_sub.induct) auto

text \<open>\<open>stripIAC\<close>: the data bytes, and the replies it writes.\<close>

function stripIAC :: "bytes \<Rightarrow> bytes \<times> bytes list" where
  "stripIAC data = (case data of
     [] \<Rightarrow> ([], [])
   | b # s \<Rightarrow>
       if b \<noteq> iacByte then (let (out, rs) = stripIAC s in (b # out, rs))
       else (case s of
         [] \<Rightarrow> ([], [])
       | cmd # t \<Rightarrow>
           if cmd = iacWill
           then (case t of
                   opt # u \<Rightarrow> (let (out, rs) = stripIAC u in (out, [iacByte, iacDont, opt] # rs))
                 | [] \<Rightarrow> ([], []))
           else if cmd = iacDo
           then (case t of
                   opt # u \<Rightarrow> (let (out, rs) = stripIAC u in (out, [iacByte, iacWont, opt] # rs))
                 | [] \<Rightarrow> ([], []))
           else if cmd = iacWont \<or> cmd = iacDont
           then (case t of opt # u \<Rightarrow> stripIAC u | [] \<Rightarrow> ([], []))
           else if cmd = iacSB then stripIAC (skip_sub t)
           else if cmd = iacByte then (let (out, rs) = stripIAC t in (0xFF # out, rs))
           else stripIAC t))"
  by pat_completeness auto
termination
  by (relation "measure length") (auto intro: le_imp_less_Suc skip_sub_shorter le_SucI)

declare stripIAC.simps [simp del]

text \<open>What a server sends, item by item.\<close>

datatype telnet_item =
  Data "8 word" | Will "8 word" | Do "8 word" | Wont "8 word" | Dont "8 word"
| Sub bytes | Command "8 word"

fun item_ok :: "telnet_item \<Rightarrow> bool" where
  "item_ok (Sub p) \<longleftrightarrow> iacByte \<notin> set p"
| "item_ok (Command c) \<longleftrightarrow> c \<notin> {iacWill, iacDo, iacWont, iacDont, iacSB, iacByte}"
| "item_ok _ \<longleftrightarrow> True"

fun item_bytes :: "telnet_item \<Rightarrow> bytes" where
  "item_bytes (Data b) = (if b = iacByte then [iacByte, iacByte] else [b])"
| "item_bytes (Will opt) = [iacByte, iacWill, opt]"
| "item_bytes (Do opt) = [iacByte, iacDo, opt]"
| "item_bytes (Wont opt) = [iacByte, iacWont, opt]"
| "item_bytes (Dont opt) = [iacByte, iacDont, opt]"
| "item_bytes (Sub p) = [iacByte, iacSB] @ p @ [iacByte, iacSE]"
| "item_bytes (Command c) = [iacByte, c]"

fun item_data :: "telnet_item \<Rightarrow> bytes" where
  "item_data (Data b) = [b]"
| "item_data _ = []"

fun item_reply :: "telnet_item \<Rightarrow> bytes list" where
  "item_reply (Will opt) = [[iacByte, iacDont, opt]]"
| "item_reply (Do opt) = [[iacByte, iacWont, opt]]"
| "item_reply _ = []"

lemma skip_sub_end: "iacByte \<notin> set p \<Longrightarrow> skip_sub (p @ iacByte # iacSE # s) = s"
proof (induction p)
  case (Cons b p)
  then show ?case by (cases p) auto
qed simp

lemma stripIAC_Nil [simp]: "stripIAC [] = ([], [])"
  by (subst stripIAC.simps) simp

lemma stripIAC_step:
  "b \<noteq> iacByte \<Longrightarrow> stripIAC (b # s) = (b # fst (stripIAC s), snd (stripIAC s))"
  "stripIAC [iacByte] = ([], [])"
  "stripIAC (iacByte # iacWill # opt # s) =
     (fst (stripIAC s), [iacByte, iacDont, opt] # snd (stripIAC s))"
  "stripIAC (iacByte # iacDo # opt # s) =
     (fst (stripIAC s), [iacByte, iacWont, opt] # snd (stripIAC s))"
  "stripIAC (iacByte # iacWont # opt # s) = stripIAC s"
  "stripIAC (iacByte # iacDont # opt # s) = stripIAC s"
  "stripIAC (iacByte # iacSB # s) = stripIAC (skip_sub s)"
  "stripIAC (iacByte # iacByte # s) = (0xFF # fst (stripIAC s), snd (stripIAC s))"
  "c \<notin> {iacWill, iacDo, iacWont, iacDont, iacSB, iacByte} \<Longrightarrow>
   stripIAC (iacByte # c # s) = stripIAC s"
  "c \<in> {iacWill, iacDo, iacWont, iacDont} \<Longrightarrow> stripIAC [iacByte, c] = ([], [])"
  unfolding iac_codes
  by (auto simp: stripIAC.simps [of "x # y" for x y, unfolded iac_codes] case_prod_unfold Let_def)

text \<open>The shapes of a chunk the loop distinguishes.\<close>

lemma chunk_cases:
  obtains (nil) "data = []" | (plain) b s where "data = b # s" "b \<noteq> iacByte"
  | (truncated) "data = [iacByte]"
  | (cut) c where "data = [iacByte, c]" "c \<in> {iacWill, iacDo, iacWont, iacDont}"
  | (will) opt s where "data = iacByte # iacWill # opt # s"
  | (do_opt) opt s where "data = iacByte # iacDo # opt # s"
  | (ack) c opt s where "data = iacByte # c # opt # s" "c = iacWont \<or> c = iacDont"
  | (sub) s where "data = iacByte # iacSB # s"
  | (escaped) s where "data = iacByte # iacByte # s"
  | (other) c s where "data = iacByte # c # s"
      "c \<notin> {iacWill, iacDo, iacWont, iacDont, iacSB, iacByte}"
proof (cases data)
  case (Cons b s)
  show thesis
  proof (cases "b = iacByte")
    case True
    show thesis
    proof (cases s)
      case (Cons c t)
      with \<open>data = b # s\<close> True show thesis
        using that(4-10) by (cases t) auto
    qed (use that(3) Cons True in simp)
  qed (use that(2) Cons in simp)
qed (use that(1) in simp)

lemma stripIAC_item:
  assumes "item_ok i"
  shows "stripIAC (item_bytes i @ s) =
     (item_data i @ fst (stripIAC s), item_reply i @ snd (stripIAC s))"
  using assms
  by (cases i) (auto simp: stripIAC_step skip_sub_end, simp add: iacByte_def)

text \<open>Stripping a chunk made of whole items gives back exactly the data bytes, escaped 255s
  included, and answers each WILL with DONT and each DO with WONT, in order, and nothing else.\<close>
theorem stripIAC_roundtrip:
  assumes "list_all item_ok is"
  shows "stripIAC (concat (map item_bytes is)) =
     (concat (map item_data is), concat (map item_reply is))"
  using assms by (induction "is") (auto simp: stripIAC_item)

lemma stripIAC_roundtrip_witness:
  "stripIAC [72, 0xFF, 0xFD, 24, 0xFF, 0xFF, 0xFF, 0xFA, 24, 1, 0xFF, 0xF0, 0xFF, 0xF1, 105] =
     ([72, 0xFF, 105], [[0xFF, 0xFC, 24]])"
  using stripIAC_roundtrip [of "[Data 72, Do 24, Data 0xFF, Sub [24, 1], Command 0xF1, Data 105]"]
  by (simp add: iac_codes)

lemma skip_sub_subset: "set (skip_sub s) \<subseteq> set s"
  by (induction s rule: skip_sub.induct) auto

definition refuses :: "8 word set \<Rightarrow> bytes \<Rightarrow> bool" where
  "refuses A r \<longleftrightarrow> (\<exists>opt \<in> A. r = [iacByte, iacDont, opt] \<or> r = [iacByte, iacWont, opt])"

lemma refuses_reply [simp]:
  "opt \<in> A \<Longrightarrow> refuses A [iacByte, iacDont, opt]" "opt \<in> A \<Longrightarrow> refuses A [iacByte, iacWont, opt]"
  by (auto simp: refuses_def)

lemma refuses_mono: "refuses A r \<Longrightarrow> A \<subseteq> B \<Longrightarrow> refuses B r"
  by (auto simp: refuses_def)

lemma stripIAC_refuses: "list_all (refuses (set data)) (snd (stripIAC data))"
proof (induction data rule: length_induct)
  case (1 data)
  have IH: "list_all (refuses (set data)) (snd (stripIAC s))"
    if "length s < length data" "set s \<subseteq> set data" for s
    using 1 that by (auto simp: list_all_iff intro: refuses_mono)
  show ?case
  proof (cases data rule: chunk_cases)
    case (sub s)
    then show ?thesis
      using IH [of "skip_sub s"] skip_sub_subset [of s] skip_sub_shorter [of s]
      by (auto simp: stripIAC_step)
  qed (use IH in \<open>auto simp: stripIAC_step subset_insertI2\<close>)
qed

text \<open>On any input the session never agrees to an option: every reply is IAC DONT or IAC
  WONT of an option the chunk contains.\<close>
theorem stripIAC_only_refuses: "list_all (refuses (set data)) (snd (stripIAC data))"
  by (rule stripIAC_refuses)

text \<open>
  Every read is stripped on its own, so an option sequence split between two reads is not
  recognised: its option byte becomes text.
\<close>

lemma split_option_leaks:
  "stripIAC [iacByte, iacDo, 65] = ([], [[iacByte, iacWont, 65]])"
  "stripIAC [iacByte, iacDo] = ([], [])" "stripIAC [65] = ([65], [])"
  by (simp_all add: stripIAC_step) (simp add: stripIAC_step iac_codes)

section \<open>Reading\<close>

definition to_bytes :: "string \<Rightarrow> bytes" where
  "to_bytes s = map (\<lambda>c. of_nat (of_char c)) s"

definition of_bytes :: "bytes \<Rightarrow> string" where
  "of_bytes w = map (\<lambda>b. char_of (unat b)) w"

text \<open>\<open>s.stripIAC(chunk)\<close> as the loops call it: it writes the replies and ignores their errors.\<close>

fun send_all :: "string list \<Rightarrow> io_conn \<Rightarrow> io_conn" where
  "send_all [] s = s"
| "send_all (d # ds) s = send_all ds (snd (conn_write d s))"

definition strip_chunk :: "string \<Rightarrow> io_conn \<Rightarrow> string \<times> io_conn" where
  "strip_chunk d s = (let (out, rs) = stripIAC (to_bytes d) in (of_bytes out, send_all (map of_bytes rs) s))"

lemma conn_write_inp [simp]: "inp (snd (conn_write d s)) = inp s"
  by (simp add: conn_write_def split: list.splits option.splits)

lemma send_all_inp [simp]: "inp (send_all ds s) = inp s"
  by (induction ds arbitrary: s) auto

lemma strip_chunk_inp: "strip_chunk d s = (t, s') \<Longrightarrow> inp s' = inp s"
  by (auto simp: strip_chunk_def Let_def split: prod.splits)

text \<open>The loop \<open>readUntilLoginOrPrompt\<close> and \<open>readUntilSuffix\<close> share: \<open>check\<close> says whether the
  text so far ends it and with what error, \<open>timeout\<close> is the error of an expired read.\<close>

function read_until ::
  "(string \<Rightarrow> io_err option option) \<Rightarrow> io_err \<Rightarrow> string \<Rightarrow> io_conn \<Rightarrow> (string \<times> io_err option) \<times> io_conn"
where
  "read_until check timeout buf s =
     (case next_event s of
        (CtxDone, s) \<Rightarrow> ((buf, Some ErrCtx), s)
      | (Deadline, s) \<Rightarrow> ((buf, case check buf of Some r \<Rightarrow> r | None \<Rightarrow> Some timeout), s)
      | (Read d e, s) \<Rightarrow>
          (let (t, s) = strip_chunk d s; buf = buf @ t in
           case check buf of
             Some r \<Rightarrow> ((buf, r), s)
           | None \<Rightarrow>
               (case e of
                  Some RTimeout \<Rightarrow> ((buf, Some timeout), s)
                | Some REOF \<Rightarrow> ((buf, None), s)
                | Some x \<Rightarrow> ((buf, Some (ErrRead x)), s)
                | None \<Rightarrow> read_until check timeout buf s)))"
  by pat_completeness auto

termination
  by (relation "measure (\<lambda>(check, timeout, buf, s). length (inp s))")
    (auto dest: strip_chunk_inp [OF sym] split: list.splits)

declare read_until.simps [simp del]

definition login_seen :: "string \<Rightarrow> bool" where
  "login_seen b \<longleftrightarrow> (let lower = to_lower b; t = trim_right_set [CHR '' '', tab, cr, nl] lower in
     has_suffix t ''login:'' \<or> has_suffix t ''username:'' \<or>
     str_contains lower ''username:'' \<or> str_contains lower ''login:'')"

definition readUntilLoginOrPrompt :: "io_conn \<Rightarrow> (string \<times> io_err option) \<times> io_conn" where
  "readUntilLoginOrPrompt = read_until
     (\<lambda>b. if login_seen b then Some None else if promptRE b then Some None else None)
     ErrLoginTimeout []"

definition readUntilSuffix :: "string list \<Rightarrow> io_conn \<Rightarrow> (string \<times> io_err option) \<times> io_conn" where
  "readUntilSuffix sufs = read_until
     (\<lambda>b. if list_ex (str_contains b) sufs then Some None
          else if promptRE b then Some (Some ErrPromptSeen) else None)
     ErrSuffixTimeout []"

function tn_readUntilPrompt :: "string \<Rightarrow> io_conn \<Rightarrow> (string \<times> io_err option) \<times> io_conn" where
  "tn_readUntilPrompt buf s =
     (case next_event s of
        (CtxDone, s) \<Rightarrow> ((buf, Some ErrCtx), s)
      | (Deadline, s) \<Rightarrow> ((buf, Some ErrPromptTimeout), s)
      | (Read d e, s) \<Rightarrow>
          (let (t, s) = strip_chunk d s; buf = buf @ t in
           if d \<noteq> [] \<and> promptRE (tail buf 256) then ((buf, None), s)
           else (case e of
                   Some REOF \<Rightarrow> ((buf, None), s)
                 | Some x \<Rightarrow> ((buf, Some (ErrRead x)), s)
                 | None \<Rightarrow> tn_readUntilPrompt buf s)))"
  by pat_completeness auto
termination
  by (relation "measure (\<lambda>(buf, s). length (inp s))")
    (auto dest: strip_chunk_inp [OF sym] split: list.splits)

declare tn_readUntilPrompt.simps [simp del]

section \<open>Login and commands\<close>

datatype telnet_err =
  LoginPromptErr io_err | SendUserErr string | PasswordPromptErr io_err | SendPassErr string
| CommandPromptErr io_err

definition crlf :: string where "crlf = [cr, nl]"

definition password_prompts :: "string list" where
  "password_prompts = [''Password:'', ''password:'', ''assword'', ''ASSWORD'']"

definition login :: "string \<Rightarrow> string \<Rightarrow> io_conn \<Rightarrow> (telnet_err + unit) \<times> io_conn" where
  "login user pass s = (case readUntilLoginOrPrompt s of
     ((_, Some e), s) \<Rightarrow> (Inl (LoginPromptErr e), s)
   | ((banner, None), s) \<Rightarrow>
       if promptRE banner then (Inr (), s)
       else (case conn_write (user @ crlf) s of
         (Some e, s) \<Rightarrow> (Inl (SendUserErr e), s)
       | (None, s) \<Rightarrow> (case readUntilSuffix password_prompts s of
           ((_, Some ErrPromptSeen), s) \<Rightarrow> (Inr (), s)
         | ((_, Some e), s) \<Rightarrow> (Inl (PasswordPromptErr e), s)
         | ((_, None), s) \<Rightarrow> (case conn_write (pass @ crlf) s of
             (Some e, s) \<Rightarrow> (Inl (SendPassErr e), s)
           | (None, s) \<Rightarrow> (case tn_readUntilPrompt [] s of
               ((_, Some e), s) \<Rightarrow> (Inl (CommandPromptErr e), s)
             | ((_, None), s) \<Rightarrow> (Inr (), s))))))"

definition tn_Run :: "string \<Rightarrow> io_conn \<Rightarrow> (io_err + string) \<times> io_conn" where
  "tn_Run cmd s = (case conn_write (cmd @ crlf) s of
     (Some e, s) \<Rightarrow> (Inl (ErrWrite e), s)
   | (None, s) \<Rightarrow> (case tn_readUntilPrompt [] s of
       ((_, Some e), s) \<Rightarrow> (Inl e, s)
     | ((out, None), s) \<Rightarrow> (Inr (cleanCommandEcho out cmd), s)))"

section \<open>What a login sends\<close>

fun received :: "conn_event list \<Rightarrow> string" where
  "received [] = []"
| "received (Read d e # es) = of_bytes (fst (stripIAC (to_bytes d))) @ received es"
| "received (_ # es) = received es"

lemma received_append [simp]: "received (xs @ ys) = received xs @ received ys"
  by (induction xs rule: received.induct) auto

definition eof_read :: "conn_event list \<Rightarrow> bool" where
  "eof_read evs \<longleftrightarrow> (\<exists>d. Read d (Some REOF) \<in> set evs)"

definition is_refusal :: "string \<Rightarrow> bool" where
  "is_refusal w \<longleftrightarrow> (\<exists>r. refuses UNIV r \<and> w = of_bytes r)"

text \<open>\<open>exchange s s' evs rs\<close>: a reading loop consumed \<open>evs\<close> and sent \<open>rs\<close>, refusals only.\<close>

definition exchange :: "io_conn \<Rightarrow> io_conn \<Rightarrow> conn_event list \<Rightarrow> string list \<Rightarrow> bool" where
  "exchange s s' evs rs \<longleftrightarrow> inp s = evs @ inp s' \<and> sent s' = sent s @ rs \<and> list_all is_refusal rs"

lemma exchange_refl: "exchange s s [] []"
  by (simp add: exchange_def)

lemma exchange_trans:
  "exchange s t xs rs \<Longrightarrow> exchange t u ys qs \<Longrightarrow> exchange s u (xs @ ys) (rs @ qs)"
  by (auto simp: exchange_def)

lemma conn_write_sent:
  "(\<exists>e. fst (conn_write d s) = Some e \<and> sent (snd (conn_write d s)) = sent s) \<or>
   (fst (conn_write d s) = None \<and> sent (snd (conn_write d s)) = sent s @ [d])"
  by (auto simp: conn_write_def split: list.splits option.splits)

lemma send_all_exchange: "list_all is_refusal ds \<Longrightarrow> \<exists>rs. exchange s (send_all ds s) [] rs"
proof (induction ds arbitrary: s)
  case (Cons d ds)
  have "\<exists>rs. exchange s (snd (conn_write d s)) [] rs"
    using conn_write_sent [of d s] Cons.prems by (auto simp: exchange_def)
  with Cons.IH [of "snd (conn_write d s)"] Cons.prems show ?case
    using exchange_trans [of s _ "[]" _ _ "[]"] by fastforce
qed (auto intro: exchange_refl)

lemma strip_chunk_exchange:
  "strip_chunk d s = (t, s') \<Longrightarrow>
   t = of_bytes (fst (stripIAC (to_bytes d))) \<and> (\<exists>rs. exchange s s' [] rs)"
proof -
  assume a: "strip_chunk d s = (t, s')"
  have "list_all is_refusal (map of_bytes (snd (stripIAC (to_bytes d))))"
    using stripIAC_refuses [of "to_bytes d"]
    by (auto simp: list_all_iff is_refusal_def intro: refuses_mono)
  from send_all_exchange [OF this] a show ?thesis
    by (auto simp: strip_chunk_def Let_def case_prod_unfold)
qed

lemma next_event_read:
  "next_event s = (Read d e, s') \<Longrightarrow> exchange s s' [Read d e] []"
  "next_event s = (CtxDone, s') \<Longrightarrow> exchange s s' [CtxDone] []"
  by (auto simp: exchange_def split: list.splits)

lemma next_event_deadline: "next_event s = (Deadline, s') \<Longrightarrow> \<exists>evs. exchange s s' evs [] \<and> received evs = []"
  by (cases "inp s") (auto simp: exchange_def)

lemma chunk_exchange:
  assumes "next_event s = (Read d e, s1)" and "strip_chunk d s1 = (t, s2)"
  obtains rs where "exchange s s2 [Read d e] rs" "t = received [Read d e]"
  using exchange_trans [OF next_event_read(1) [OF assms(1)]] strip_chunk_exchange [OF assms(2)]
  by auto

lemma read_until_exchange:
  "read_until check timeout buf s = ((out, e), s') \<Longrightarrow>
   \<exists>evs rs. exchange s s' evs rs \<and> out = buf @ received evs \<and>
     (e = None \<longrightarrow> check out = Some None \<or> eof_read evs)"
proof (induction check timeout buf s rule: read_until.induct)
  case (1 check timeout buf s)
  note step = "1.prems" [unfolded read_until.simps [of check timeout buf s]]
  obtain ev s1 where ev: "next_event s = (ev, s1)" by force
  show ?case
  proof (cases ev)
    case CtxDone
    with ev step next_event_read(2) [of s s1] show ?thesis by fastforce
  next
    case Deadline
    with ev step next_event_deadline [of s s1] show ?thesis
      by (auto split: option.splits)
  next
    case (Read d x)
    obtain t s2 where t: "strip_chunk d s1 = (t, s2)" by force
    obtain rs where rs: "exchange s s2 [Read d x] rs" "t = received [Read d x]"
      using chunk_exchange [OF ev [unfolded Read] t] .
    show ?thesis
    proof (cases "check (buf @ t) = None \<and> x = None")
      case True
      with step ev Read t have "read_until check timeout (buf @ t) s2 = ((out, e), s')"
        by (simp add: Let_def)
      with "1.IH" [OF ev [symmetric] Read t [symmetric] refl] True obtain evs qs where
        "exchange s2 s' evs qs" "out = (buf @ t) @ received evs"
        "e = None \<longrightarrow> check out = Some None \<or> eof_read evs" by blast
      with exchange_trans [OF rs(1)] rs(2) show ?thesis
        by (intro exI [of _ "[Read d x] @ evs"] exI [of _ "rs @ qs"]) (auto simp: eof_read_def)
    next
      case False
      with step ev Read t rs show ?thesis
        by (intro exI [of _ "[Read d x]"] exI [of _ rs])
          (auto simp: Let_def eof_read_def split: option.splits read_err.splits)
    qed
  qed
qed

lemma read_prompt_exchange:
  "tn_readUntilPrompt buf s = ((out, e), s') \<Longrightarrow>
   \<exists>evs rs. exchange s s' evs rs \<and> out = buf @ received evs \<and>
     (e = None \<longrightarrow> promptRE (tail out 256) \<or> eof_read evs)"
proof (induction buf s rule: tn_readUntilPrompt.induct)
  case (1 buf s)
  note step = "1.prems" [unfolded tn_readUntilPrompt.simps [of buf s]]
  obtain ev s1 where ev: "next_event s = (ev, s1)" by force
  show ?case
  proof (cases ev)
    case CtxDone
    with ev step next_event_read(2) [of s s1] show ?thesis by fastforce
  next
    case Deadline
    with ev step next_event_deadline [of s s1] show ?thesis by auto
  next
    case (Read d x)
    obtain t s2 where t: "strip_chunk d s1 = (t, s2)" by force
    obtain rs where rs: "exchange s s2 [Read d x] rs" "t = received [Read d x]"
      using chunk_exchange [OF ev [unfolded Read] t] .
    show ?thesis
    proof (cases "d \<noteq> [] \<and> promptRE (tail (buf @ t) 256)")
      case True
      with step ev Read t rs show ?thesis
        by (intro exI [of _ "[Read d x]"] exI [of _ rs]) (simp add: Let_def)
    next
      case more: False
      show ?thesis
      proof (cases x)
        case None
        have "tn_readUntilPrompt (buf @ t) s2 = ((out, e), s')"
          using step ev Read t by (simp only: Let_def prod.case conn_event.case more if_False None option.case)
        with "1.IH" [OF ev [symmetric] Read refl t [symmetric] refl more None] obtain evs qs where
          "exchange s2 s' evs qs" "out = (buf @ t) @ received evs"
          "e = None \<longrightarrow> promptRE (tail out 256) \<or> eof_read evs" by blast
        with exchange_trans [OF rs(1)] rs(2) show ?thesis
          by (intro exI [of _ "[Read d x] @ evs"] exI [of _ "rs @ qs"]) (auto simp: eof_read_def)
      next
        case (Some r)
        have "(case r of REOF \<Rightarrow> ((buf @ t, None), s2) | _ \<Rightarrow> ((buf @ t, Some (ErrRead r)), s2)) = ((out, e), s')"
          using step ev Read t
          by (cases r) (simp_all only: Let_def prod.case conn_event.case more if_False Some option.case read_err.case)
        with Some rs show ?thesis
          by (intro exI [of _ "[Read d x]"] exI [of _ rs])
            (cases r; auto simp: eof_read_def)
      qed
    qed
  qed
qed

text \<open>The shapes of what a login may put on the wire.\<close>

definition login_wire :: "string \<Rightarrow> string \<Rightarrow> conn_event list \<Rightarrow> string list \<Rightarrow> bool" where
  "login_wire user pass evs wire \<longleftrightarrow> (\<exists>evs1 evs2 evs3 rs1 rs2 rs3.
     evs = evs1 @ evs2 @ evs3 \<and> list_all is_refusal (rs1 @ rs2 @ rs3) \<and>
     (wire = rs1 \<or> wire = rs1 @ [user @ crlf] @ rs2 \<or>
      wire = rs1 @ [user @ crlf] @ rs2 @ [pass @ crlf] @ rs3 \<and>
        (list_ex (str_contains (received evs2)) password_prompts \<or> eof_read evs2)))"

lemma login_wire_intros:
  "list_all is_refusal rs \<Longrightarrow> login_wire user pass evs rs"
  "list_all is_refusal (rs @ qs) \<Longrightarrow> login_wire user pass evs (rs @ [user @ crlf] @ qs)"
  "list_all is_refusal (rs @ qs @ ts) \<Longrightarrow>
   list_ex (str_contains (received evs2)) password_prompts \<or> eof_read evs2 \<Longrightarrow>
   login_wire user pass (evs1 @ evs2 @ evs3) (rs @ [user @ crlf] @ qs @ [pass @ crlf] @ ts)"
  unfolding login_wire_def
  by (rule exI [of _ evs], rule exI [of _ "[]"], rule exI [of _ "[]"], rule exI [of _ rs],
      rule exI [of _ "[]"], rule exI [of _ "[]"], simp)
    (rule exI [of _ evs], rule exI [of _ "[]"], rule exI [of _ "[]"], rule exI [of _ rs],
      rule exI [of _ qs], rule exI [of _ "[]"], simp, blast)

lemma readUntilLogin_exchange:
  "readUntilLoginOrPrompt s = (x, s') \<Longrightarrow> \<exists>evs rs. exchange s s' evs rs"
  unfolding readUntilLoginOrPrompt_def
  by (cases x) (blast dest: read_until_exchange)

lemma readUntilSuffix_exchange:
  "readUntilSuffix sfx s = ((b, e), s') \<Longrightarrow>
   \<exists>evs rs. exchange s s' evs rs \<and> (e = None \<longrightarrow> list_ex (str_contains (received evs)) sfx \<or> eof_read evs)"
  unfolding readUntilSuffix_def
  by (drule read_until_exchange) (fastforce split: if_splits)

lemma conn_write_exchange:
  "conn_write d s = (e, s') \<Longrightarrow> inp s' = inp s \<and> sent s' = (if e = None then sent s @ [d] else sent s)"
  by (auto simp: conn_write_def split: list.splits option.splits)

text \<open>What a login puts on the wire: besides refusals, at most the username line and then the
  password line, and the password only after the text received since the username asked for
  it or the connection ended.\<close>
theorem login_sends_password_when_asked:
  "\<exists>evs wire. inp s = evs @ inp (snd (login user pass s)) \<and>
     sent (snd (login user pass s)) = sent s @ wire \<and> login_wire user pass evs wire"
proof -
  obtain b1 e1 s1 where l1: "readUntilLoginOrPrompt s = ((b1, e1), s1)" by (metis prod.collapse)
  obtain evs1 rs1 where x1: "exchange s s1 evs1 rs1" using readUntilLogin_exchange [OF l1] by blast
  obtain e2 s2 where l2: "conn_write (user @ crlf) s1 = (e2, s2)" by force
  obtain b3 e3 s3 where l3: "readUntilSuffix password_prompts s2 = ((b3, e3), s3)" by (metis prod.collapse)
  obtain evs2 rs2 where x2: "exchange s2 s3 evs2 rs2"
      "e3 = None \<longrightarrow> list_ex (str_contains (received evs2)) password_prompts \<or> eof_read evs2"
    using readUntilSuffix_exchange [OF l3] by blast
  obtain e4 s4 where l4: "conn_write (pass @ crlf) s3 = (e4, s4)" by force
  obtain b5 e5 s5 where l5: "tn_readUntilPrompt [] s4 = ((b5, e5), s5)" by (metis prod.collapse)
  obtain evs3 rs3 where x3: "exchange s4 s5 evs3 rs3" using read_prompt_exchange [OF l5] by blast
  note w = conn_write_exchange [OF l2] conn_write_exchange [OF l4]
  consider (stop) "snd (login user pass s) = s1"
    | (nouser) "snd (login user pass s) = s2" "e2 \<noteq> None"
    | (named) "snd (login user pass s) = s3" "e2 = None"
    | (nopass) "snd (login user pass s) = s4" "e2 = None" "e4 \<noteq> None"
    | (sent) "snd (login user pass s) = s5" "e2 = None" "e3 = None" "e4 = None"
    by (cases e1; cases "promptRE b1"; cases e2; cases e3; cases e4; cases e5)
      (auto simp: login_def l1 l2 l3 l4 l5 split: io_err.splits)
  then show ?thesis
  proof cases
    case stop
    with x1 show ?thesis
      by (intro exI [of _ evs1] exI [of _ rs1]) (simp add: exchange_def login_wire_intros)
  next
    case nouser
    with x1 w show ?thesis
      by (intro exI [of _ evs1] exI [of _ rs1]) (simp add: exchange_def login_wire_intros)
  next
    case named
    with x1 x2 w show ?thesis
      using login_wire_intros(2) [of rs1 rs2 user pass "evs1 @ evs2"]
      by (intro exI [of _ "evs1 @ evs2"] exI [of _ "rs1 @ [user @ crlf] @ rs2"])
        (simp add: exchange_def)
  next
    case nopass
    with x1 x2 w show ?thesis
      using login_wire_intros(2) [of rs1 rs2 user pass "evs1 @ evs2"]
      by (intro exI [of _ "evs1 @ evs2"] exI [of _ "rs1 @ [user @ crlf] @ rs2"])
        (simp add: exchange_def)
  next
    case sent
    with x1 x2 x3 w show ?thesis
      using login_wire_intros(3) [of rs1 rs2 rs3 evs2 user pass evs1 evs3]
      by (intro exI [of _ "evs1 @ evs2 @ evs3"] exI [of _ "rs1 @ [user @ crlf] @ rs2 @ [pass @ crlf] @ rs3"])
        (simp add: exchange_def)
  qed
qed

end
