(* ===== verification/WebSocket.thy ===== *)
theory WebSocket
  imports Sql Base64 "HOL-Library.Word"
begin

text \<open>
  The in-app terminal (\<open>internal/terminal/terminal.go\<close>): the RFC 6455 handshake test and frame
  codec, and the handler that carries bytes between a browser and a device and records the
  session. Frames are lists of bytes; the two goroutines of a session are two kinds of events
  in one sequence. SHA-1 and the backend factory are parameters.
\<close>

unbundle bit_operations_syntax

type_synonym bytes = "8 word list"

section \<open>Frames\<close>

definition opText :: "8 word" where "opText = 0x1"
definition opBinary :: "8 word" where "opBinary = 0x2"
definition opClose :: "8 word" where "opClose = 0x8"
definition opPing :: "8 word" where "opPing = 0x9"
definition opPong :: "8 word" where "opPong = 0xa"

lemmas op_codes = opText_def opBinary_def opClose_def opPing_def opPong_def

datatype ws_err = WsEOF | WsUnexpectedEOF | errUnmaskedFrame | WsTooLarge

text \<open>\<open>io.ReadFull\<close> over what the client has sent before the connection ends.\<close>

definition read_full :: "nat \<Rightarrow> bytes \<Rightarrow> ws_err + (bytes \<times> bytes)" where
  "read_full n br =
     (if n \<le> length br then Inr (take n br, drop n br)
      else if br = [] then Inl WsEOF else Inl WsUnexpectedEOF)"

definition big_endian :: "bytes \<Rightarrow> nat" where
  "big_endian bs = foldl (\<lambda>n b. n * 256 + unat b) 0 bs"

definition unmask :: "bytes \<Rightarrow> bytes \<Rightarrow> bytes" where
  "unmask key payload = map (\<lambda>i. payload ! i XOR key ! (i mod 4)) [0..<length payload]"

definition frame_body :: "8 word \<Rightarrow> nat \<Rightarrow> bytes \<Rightarrow> ws_err + (8 word \<times> bytes \<times> bytes)" where
  "frame_body opc plen br =
     (case read_full 4 br of
        Inl e \<Rightarrow> Inl e
      | Inr (key, br) \<Rightarrow>
          (case read_full plen br of
             Inl e \<Rightarrow> Inl e
           | Inr (payload, br) \<Rightarrow> Inr (opc, unmask key payload, br)))"

definition readFrame :: "bytes \<Rightarrow> ws_err + (8 word \<times> bytes \<times> bytes)" where
  "readFrame br =
     (case read_full 2 br of
        Inl e \<Rightarrow> Inl e
      | Inr (hdr, br) \<Rightarrow>
          (let opc = hdr ! 0 AND 0x0f; plen = unat (hdr ! 1 AND 0x7f) in
           if hdr ! 1 AND 0x80 = 0 then Inl errUnmaskedFrame
           else if plen = 126
           then (case read_full 2 br of
                   Inl e \<Rightarrow> Inl e
                 | Inr (ext, br) \<Rightarrow> frame_body opc (big_endian ext) br)
           else if plen = 127
           then (case read_full 8 br of
                   Inl e \<Rightarrow> Inl e
                 | Inr (ext, br) \<Rightarrow>
                     if big_endian ext > 2 ^ 24 then Inl WsTooLarge
                     else frame_body opc (big_endian ext) br)
           else frame_body opc plen br))"

fun be_bytes :: "nat \<Rightarrow> nat \<Rightarrow> bytes" where
  "be_bytes 0 n = []"
| "be_bytes (Suc k) n = be_bytes k (n div 256) @ [of_nat n]"

text \<open>\<open>writeFrame\<close>: the bytes of one frame. The caller's lock keeps them together.\<close>

definition writeFrame :: "8 word \<Rightarrow> bytes \<Rightarrow> bytes" where
  "writeFrame opc payload =
     (let n = length payload in
      [0x80 OR opc] @
      (if n < 126 then [of_nat n]
       else if n \<le> 0xffff then 126 # be_bytes 2 n
       else 127 # be_bytes 8 n) @ payload)"

section \<open>The handshake\<close>




definition acceptKey :: "(string \<Rightarrow> string) \<Rightarrow> string \<Rightarrow> string" where
  "acceptKey sha1 key = base64 (sha1 (key @ ''258EAFA5-E914-47DA-95CA-C5AB0DC85B11''))"

section \<open>Round trips\<close>

lemma be_bytes_length [simp]: "length (be_bytes k n) = k"
  by (induction k arbitrary: n) auto

lemma big_endian_snoc: "big_endian (bs @ [b]) = big_endian bs * 256 + unat b"
  by (simp add: big_endian_def)

lemma big_endian_be_bytes: "n < 256 ^ k \<Longrightarrow> big_endian (be_bytes k n) = n"
proof (induction k arbitrary: n)
  case (Suc k)
  then have "n div 256 < 256 ^ k" by (simp add: less_mult_imp_div_less mult.commute)
  with Suc.IH have "big_endian (be_bytes k (n div 256)) = n div 256" by blast
  moreover have "unat (of_nat n :: 8 word) = n mod 256" by (simp add: unat_of_nat)
  ultimately show ?case by (simp add: big_endian_snoc)
qed (simp add: big_endian_def)

lemma read_full_append: "length a = n \<Longrightarrow> read_full n (a @ b) = Inr (a, b)"
  by (simp add: read_full_def)

text \<open>A client's frame, with its masking key; the length in the shortest form.\<close>

definition client_frame :: "8 word \<Rightarrow> bytes \<Rightarrow> bytes \<Rightarrow> bytes" where
  "client_frame opc key payload =
     (let n = length payload in
      [0x80 OR opc] @
      (if n < 126 then [0x80 OR of_nat n]
       else if n \<le> 0xffff then 0xfe # be_bytes 2 n
       else 0xff # be_bytes 8 n) @ key @ unmask key payload)"

lemma unmask_length [simp]: "length (unmask key p) = length p"
  by (simp add: unmask_def)

lemma unmask_unmask [simp]: "unmask key (unmask key p) = p"
  by (rule nth_equalityI) (simp_all add: unmask_def xor.assoc)

lemma frame_body_client:
  "length key = 4 \<Longrightarrow> frame_body opc (length p) (key @ unmask key p @ rest) = Inr (opc, p, rest)"
  by (simp add: frame_body_def read_full_append)

text \<open>An opcode is a nibble.\<close>

definition opcode :: "8 word \<Rightarrow> bool" where
  "opcode opc \<longleftrightarrow> opc AND 0x0f = opc"

lemma opcode_ops [simp]: "opcode opText" "opcode opBinary" "opcode opClose" "opcode opPing" "opcode opPong"
  by (simp_all add: opcode_def op_codes)

lemma nibble [simp]: "opcode opc \<Longrightarrow> (0x80 OR opc) AND 0x0f = opc"
  by (simp add: opcode_def bit.conj_disj_distrib2)

lemma seven_bits:
  assumes "n < 128"
  shows "(of_nat n :: 8 word) AND 0x7f = of_nat n"
proof -
  have "unat (take_bit 7 (of_nat n :: 8 word)) = unat (of_nat n :: 8 word)"
    using assms by (simp only: unsigned_take_bit_eq) (simp add: unat_of_nat take_bit_eq_mod)
  then have "(of_nat n :: 8 word) AND mask 7 = of_nat n"
    by (simp only: take_bit_eq_mask [symmetric] unsigned_word_eqI)
  then show ?thesis by (simp add: mask_eq_exp_minus_1)
qed

lemma length_byte:
  "n < 128 \<Longrightarrow> (0x80 OR of_nat n :: 8 word) AND 0x7f = of_nat n"
  "(0x80 OR w :: 8 word) AND 0x80 \<noteq> 0"
  by (simp_all add: bit.conj_disj_distrib2 seven_bits or_eq_0_iff)

lemma small_of_nat: "n < 256 \<Longrightarrow> unat (of_nat n :: 8 word) = n"
  by (simp add: unat_of_nat)

text \<open>The frames a client may send come back whole: for an opcode, a four-byte key and a payload
  of at most 2^24 bytes, readFrame of the client's frame returns the opcode, the unmasked
  payload and what follows the frame.\<close>
theorem readFrame_client_frame:
  assumes "opcode opc" and "length key = 4" and "length payload \<le> 2 ^ 24"
  shows "readFrame (client_frame opc key payload @ rest) = Inr (opc, payload, rest)"
proof -
  let ?n = "length payload"
  consider (small) "?n < 126" | (medium) "126 \<le> ?n" "?n \<le> 0xffff" | (large) "0xffff < ?n" by linarith
  then show ?thesis
  proof cases
    case small
    then show ?thesis
      using assms
      by (simp add: readFrame_def client_frame_def Let_def read_full_def length_byte small_of_nat
          frame_body_client)
  next
    case medium
    then have "big_endian (be_bytes 2 ?n) = ?n" by (intro big_endian_be_bytes) simp
    with medium assms show ?thesis
      by (simp add: readFrame_def client_frame_def Let_def read_full_append
          frame_body_client read_full_def [of 2 "_ # _"])
  next
    case large
    then have "big_endian (be_bytes 8 ?n) = ?n" using assms(3) by (intro big_endian_be_bytes) simp
    with large assms show ?thesis
      by (simp add: readFrame_def client_frame_def Let_def read_full_append
          frame_body_client read_full_def [of 2 "_ # _"])
  qed
qed

lemma readFrame_client_frame_witness:
  "readFrame (client_frame opText [1, 2, 3, 4] [108, 115, 10] @ [7]) = Inr (opText, [108, 115, 10], [7])"
  using readFrame_client_frame [of opText "[1, 2, 3, 4]" "[108, 115, 10]" "[7]"] by simp

lemma big_endian_less: "big_endian bs < 256 ^ length bs"
proof (induction bs rule: rev_induct)
  case (snoc b bs)
  have "unat b < 256" using unsigned_less [of b] by simp
  with snoc show ?case by (simp add: big_endian_snoc)
qed (simp add: big_endian_def)

lemma read_full_Inr: "read_full n br = Inr (a, b) \<longleftrightarrow> length a = n \<and> br = a @ b"
  by (auto simp: read_full_def)

lemma frame_body_Inr:
  "frame_body opc n br = Inr (opc', p, rest) \<Longrightarrow> length p = n \<and> length br = 4 + n + length rest"
  by (auto simp: frame_body_def read_full_Inr split: sum.splits)

text \<open>Whatever the client sends, an accepted frame was masked, carries at most 2^24 bytes and
  consumed its payload and at least six bytes more.\<close>
theorem readFrame_bounds:
  assumes "readFrame br = Inr (opc, payload, rest)"
  shows "(br ! 1) AND 0x80 \<noteq> 0 \<and> length payload \<le> 2 ^ 24 \<and>
    length rest + length payload + 6 \<le> length br"
proof -
  from assms obtain h0 h1 br1 where br: "br = h0 # h1 # br1" "h1 AND 0x80 \<noteq> 0"
    by (auto simp: readFrame_def Let_def read_full_Inr length_Suc_conv numeral_2_eq_2
        split: sum.splits if_splits)
  define plen where "plen = unat (h1 AND 0x7f)"
  have two: "read_full 2 (h0 # h1 # br1) = Inr ([h0, h1], br1)"
    by (simp add: read_full_def)
  have "readFrame br =
      (if plen = 126 then (case read_full 2 br1 of Inl e \<Rightarrow> Inl e
        | Inr (ext, br) \<Rightarrow> frame_body (h0 AND 0x0f) (big_endian ext) br)
      else if plen = 127 then (case read_full 8 br1 of Inl e \<Rightarrow> Inl e
        | Inr (ext, br) \<Rightarrow> if big_endian ext > 2 ^ 24 then Inl WsTooLarge
            else frame_body (h0 AND 0x0f) (big_endian ext) br)
      else frame_body (h0 AND 0x0f) plen br1)"
    unfolding readFrame_def br(1) two sum.case prod.case nth_Cons_0 One_nat_def nth_Cons_Suc Let_def plen_def
    using br(2) by (simp only: if_False)
  with assms have "\<dots> = Inr (opc, payload, rest)" by simp
  moreover have "plen < 256" unfolding plen_def using unsigned_less [of "h1 AND 0x7f"] by simp
  moreover have "big_endian ext \<le> 2 ^ 24" if "length ext = 2" for ext
    using big_endian_less [of ext] that by simp
  ultimately show ?thesis
    using br by (auto split: if_splits sum.splits simp: read_full_Inr dest!: frame_body_Inr)
qed

lemma readFrame_bounds_witness:
  "let br = [0x81, 0x82, 1, 2, 3, 4, 105, 107, 9] in
     (br ! 1) AND (0x80 :: 8 word) \<noteq> 0 \<and> length [104 :: 8 word, 105] \<le> 2 ^ 24"
proof -
  have "readFrame [0x81, 0x82, 1, 2, 3, 4, 105, 107, 9] = Inr (1, [104, 105], [9])"
    by code_simp
  from readFrame_bounds [OF this] show ?thesis by (simp add: Let_def)
qed

text \<open>
  The FIN bit and continuation frames are not interpreted: the second part of a fragmented
  message has opcode 0, which the handler ignores.
\<close>

section \<open>What a browser reads\<close>

text \<open>A reader of server frames, by the RFC.\<close>

definition server_read :: "bytes \<Rightarrow> (8 word \<times> bytes \<times> bytes) option" where
  "server_read br = (case br of
     h0 # h1 # s \<Rightarrow>
       (let n = unat h1; opc = h0 AND 0x0f in
        if n < 126 then Some (opc, take n s, drop n s)
        else if n = 126 then (let m = big_endian (take 2 s)
          in Some (opc, take m (drop 2 s), drop m (drop 2 s)))
        else (let m = big_endian (take 8 s) in Some (opc, take m (drop 8 s), drop m (drop 8 s))))
   | _ \<Rightarrow> None)"

text \<open>A browser reads back what writeFrame sends, whatever its length, and then the next
  frame.\<close>
theorem writeFrame_roundtrip:
  assumes "opcode opc" and "length payload < 2 ^ 63"
  shows "server_read (writeFrame opc payload @ rest) = Some (opc, payload, rest)"
proof -
  let ?n = "length payload"
  consider (small) "?n < 126" | (medium) "126 \<le> ?n" "?n \<le> 0xffff" | (large) "0xffff < ?n" by linarith
  then show ?thesis
  proof cases
    case small
    with assms show ?thesis by (simp add: server_read_def writeFrame_def Let_def small_of_nat)
  next
    case medium
    then have "big_endian (be_bytes 2 ?n) = ?n" by (intro big_endian_be_bytes) simp
    with medium assms show ?thesis by (simp add: server_read_def writeFrame_def Let_def)
  next
    case large
    then have "big_endian (be_bytes 8 ?n) = ?n" using assms(2) by (intro big_endian_be_bytes) simp
    with large assms show ?thesis by (simp add: server_read_def writeFrame_def Let_def)
  qed
qed

lemma writeFrame_roundtrip_witness:
  "server_read (writeFrame opPong [1, 2] @ [3]) = Some (opPong, [1, 2], [3])"
  using writeFrame_roundtrip [of opPong "[1, 2]" "[3]"] by simp

section \<open>The session\<close>



text \<open>
  The state of one session: what the client still sends, what was written to the browser and
  to the device (\<open>True\<close> in a failure list lets the next write fail), the transcript, whether the
  device goroutine still reads and whether the request loop still runs.
\<close>

record ws_session =
  w_in :: bytes
  w_out :: bytes
  w_outfail :: "bool list"
  w_dev :: bytes
  w_devfail :: "bool list"
  w_transcript :: bytes
  w_reader :: bool
  w_loop :: bool


definition safeWrite :: "8 word \<Rightarrow> bytes \<Rightarrow> ws_session \<Rightarrow> bool \<times> ws_session" where
  "safeWrite opc payload s = (case w_outfail s of
     True # fs \<Rightarrow> (False, s\<lparr>w_outfail := fs\<rparr>)
   | fs \<Rightarrow> (True, s\<lparr>w_outfail := tl fs, w_out := w_out s @ writeFrame opc payload\<rparr>))"



definition gt_sp :: bytes where "gt_sp = [0x3e, 0x20]"










section \<open>The transcript is complete\<close>

datatype ws_entry = Typed bytes | Printed bytes

fun entry_bytes :: "ws_entry \<Rightarrow> bytes" where
  "entry_bytes (Typed p) = gt_sp @ p"
| "entry_bytes (Printed b) = b"

fun typed :: "ws_entry list \<Rightarrow> bytes list" where
  "typed [] = []"
| "typed (Typed p # es) = p # typed es"
| "typed (Printed b # es) = typed es"

definition transcript_of :: "ws_entry list \<Rightarrow> bytes" where
  "transcript_of es = concat (map entry_bytes es)"

lemma typed_append [simp]: "typed (xs @ ys) = typed xs @ typed ys"
  by (induction xs rule: typed.induct) auto

lemma transcript_of_Nil [simp]: "transcript_of [] = []"
  by (simp add: transcript_of_def)

lemma transcript_of_append [simp]: "transcript_of (xs @ ys) = transcript_of xs @ transcript_of ys"
  by (simp add: transcript_of_def)



fun printed :: "ws_entry list \<Rightarrow> bytes list" where
  "printed [] = []"
| "printed (Printed b # es) = b # printed es"
| "printed (Typed p # es) = printed es"

lemma printed_append [simp]: "printed (xs @ ys) = printed xs @ printed ys"
  by (induction xs rule: printed.induct) auto



lemma safeWrite_frame [simp]:
  "w_transcript (snd (safeWrite opc p s)) = w_transcript s"
  "w_dev (snd (safeWrite opc p s)) = w_dev s"
  "w_loop (snd (safeWrite opc p s)) = w_loop s"
  "w_reader (snd (safeWrite opc p s)) = w_reader s"
  by (auto simp: safeWrite_def split: list.splits bool.splits)
















end
