(* ===== verification/Totp.thy ===== *)
theory Totp
  imports Prelude "HOL-Library.Word"
begin

text \<open>
  Time-based one-time passwords (\<open>internal/auth/totp.go\<close>): base32 secrets, the code of a
  counter and the verification window. HMAC-SHA1 is a parameter; base32 is the standard
  library's, with its padding rules.
\<close>

unbundle bit_operations_syntax

section \<open>Numbers and their digits\<close>

fun digits :: "nat \<Rightarrow> nat \<Rightarrow> nat \<Rightarrow> nat list" where
  "digits b 0 n = []"
| "digits b (Suc k) n = digits b k (n div b) @ [n mod b]"

definition undigits :: "nat \<Rightarrow> nat list \<Rightarrow> nat" where
  "undigits b ds = foldl (\<lambda>n d. n * b + d) 0 ds"

lemma digits_length [simp]: "length (digits b k n) = k"
  by (induction k arbitrary: n) auto

lemma digits_less: "0 < b \<Longrightarrow> d \<in> set (digits b k n) \<Longrightarrow> d < b"
  by (induction k arbitrary: n) auto

lemma undigits_snoc [simp]: "undigits b (ds @ [d]) = undigits b ds * b + d"
  by (simp add: undigits_def)

lemma undigits_digits: "n < b ^ k \<Longrightarrow> undigits b (digits b k n) = n"
proof (induction k arbitrary: n)
  case (Suc k)
  then have "n div b < b ^ k" by (simp add: less_mult_imp_div_less mult.commute)
  with Suc.IH show ?case by simp
qed (simp add: undigits_def)

lemma undigits_less: "list_all (\<lambda>d. d < b) ds \<Longrightarrow> undigits b ds < b ^ length ds"
proof (induction ds rule: rev_induct)
  case (snoc d ds)
  then have "undigits b ds + 1 \<le> b ^ length ds" "d < b" by auto
  then have "(undigits b ds + 1) * b \<le> b ^ length ds * b" by (intro mult_le_mono1)
  with \<open>d < b\<close> show ?case by (simp add: mult.commute)
qed (simp add: undigits_def)

lemma digits_undigits: "list_all (\<lambda>d. d < b) ds \<Longrightarrow> digits b (length ds) (undigits b ds) = ds"
  by (induction ds rule: rev_induct) auto

section \<open>Base32\<close>

definition b32_alphabet :: string where
  "b32_alphabet = ''ABCDEFGHIJKLMNOPQRSTUVWXYZ234567''"

definition bytes_of :: "string \<Rightarrow> nat list" where
  "bytes_of s = map of_char s"

definition of_bytes :: "nat list \<Rightarrow> string" where
  "of_bytes bs = map char_of bs"

text \<open>How many characters a last group of \<open>k\<close> bytes takes.\<close>

definition b32_chars :: "nat \<Rightarrow> nat" where
  "b32_chars k = (if k = 1 then 2 else if k = 2 then 4 else if k = 3 then 5 else if k = 4 then 7 else 8)"

function base32 :: "string \<Rightarrow> string" where
  "base32 s =
     (if s = [] then []
      else (let g = take 5 s; k = b32_chars (length g);
                n = undigits 256 (bytes_of g @ replicate (5 - length g) 0)
            in take k (map (\<lambda>d. b32_alphabet ! d) (digits 32 8 n)) @ replicate (8 - k) (CHR ''='')
               @ base32 (drop 5 s)))"
  by pat_completeness auto
termination
  by (relation "measure length") auto

declare base32.simps [simp del]

fun b32_value :: "char \<Rightarrow> string \<Rightarrow> nat option" where
  "b32_value c [] = None"
| "b32_value c (a # as) = (if a = c then Some 0 else map_option Suc (b32_value c as))"

text \<open>The values of a quantum's characters, when all are in the alphabet.\<close>

fun b32_values :: "string \<Rightarrow> nat list option" where
  "b32_values [] = Some []"
| "b32_values (c # s) = (case b32_value c b32_alphabet of
     None \<Rightarrow> None | Some v \<Rightarrow> map_option ((#) v) (b32_values s))"

text \<open>The bytes of a quantum that has \<open>dlen\<close> characters.\<close>

definition b32_bytes :: "nat list \<Rightarrow> nat \<Rightarrow> string" where
  "b32_bytes vs dlen =
     of_bytes (take (if dlen = 8 then 5 else if dlen = 7 then 4 else if dlen = 5 then 3
                     else if dlen = 4 then 2 else 1)
       (digits 256 5 (undigits 32 (vs @ replicate (8 - length vs) 0))))"

text \<open>\<open>base32.StdEncoding.DecodeString\<close>: a full quantum is eight characters; a shorter one needs
  its padding to the eighth, at least two characters and an admissible length.\<close>

function b32_decode :: "string \<Rightarrow> string option" where
  "b32_decode s =
     (if s = [] then Some []
      else (let q = takeWhile (\<lambda>c. c \<noteq> CHR ''='') (take 8 s); j = length q in
        case b32_values q of
          None \<Rightarrow> None
        | Some vs \<Rightarrow>
            if j = 8 then map_option (\<lambda>r. b32_bytes vs 8 @ r) (b32_decode (drop 8 s))
            else if length s = j \<or> j < 2 \<or> length s < 8 \<or> length s - j - 1 \<ge> 8
                 \<or> drop j (take 8 s) \<noteq> replicate (8 - j) (CHR ''='') \<or> j = 3 \<or> j = 6
            then None
            else Some (b32_bytes vs j)))"
  by pat_completeness auto
termination
  by (relation "measure length") auto

declare b32_decode.simps [simp del]

definition base32_decode :: "string \<Rightarrow> string option" where
  "base32_decode s = b32_decode (filter (\<lambda>c. c \<noteq> CHR 0x0A \<and> c \<noteq> CHR 0x0D) s)"

section \<open>Codes\<close>

definition totpDigits :: nat where "totpDigits = 6"
definition totpPeriod :: int where "totpPeriod = 30"

definition GenerateTOTPSecret :: "string option \<Rightarrow> string option" where
  "GenerateTOTPSecret rnd = map_option (\<lambda>b. trim_right_set [CHR ''=''] (base32 b)) rnd"

definition TOTPOtpauthURL :: "string \<Rightarrow> string \<Rightarrow> string \<Rightarrow> string" where
  "TOTPOtpauthURL issuer username secret =
     ''otpauth://totp/'' @ issuer @ '':'' @ username @ ''?secret='' @ secret @ ''&issuer='' @ issuer @
     ''&algorithm=SHA1&digits='' @ itoa (int totpDigits) @ ''&period='' @ itoa totpPeriod"

text \<open>\<open>%0*d\<close>: decimal, padded with zeros to a width.\<close>

definition zero_pad :: "nat \<Rightarrow> nat \<Rightarrow> string" where
  "zero_pad w n = replicate (w - length (nat_digits n)) (CHR ''0'') @ nat_digits n"

definition totp :: "(string \<Rightarrow> string \<Rightarrow> string) \<Rightarrow> string \<Rightarrow> int \<Rightarrow> string" where
  "totp hmac1 key counter =
     (let h = bytes_of (hmac1 key (of_bytes (digits 256 8 (nat (counter mod 2 ^ 64)))));
          offset = h ! (length h - 1) AND 0x0f;
          code = (push_bit 24 (h ! offset AND 0x7f) OR push_bit 16 (h ! (offset + 1)) OR
                  push_bit 8 (h ! (offset + 2)) OR h ! (offset + 3)) mod 10 ^ totpDigits
      in zero_pad totpDigits code)"

definition upper_char :: "char \<Rightarrow> char" where
  "upper_char c = (let n = of_char c :: nat in if 97 \<le> n \<and> n \<le> 122 then char_of (n - 32) else c)"

definition normal_secret :: "string \<Rightarrow> string" where
  "normal_secret secret =
     (let s = map upper_char (filter (\<lambda>c. c \<noteq> CHR '' '') secret); rem = length s mod 8
      in if rem \<noteq> 0 then s @ replicate (8 - rem) (CHR ''='') else s)"

text \<open>\<open>time.Now().Unix() / 30\<close>: Go's division truncates.\<close>

definition totp_counter :: "time \<Rightarrow> int" where
  "totp_counter now = (let u = rfc3339 now in if u < 0 then - ((- u) div totpPeriod) else u div totpPeriod)"

definition VerifyTOTP :: "(string \<Rightarrow> string \<Rightarrow> string) \<Rightarrow> time \<Rightarrow> string \<Rightarrow> string \<Rightarrow> bool" where
  "VerifyTOTP hmac1 now secret code = (case base32_decode (normal_secret secret) of
     None \<Rightarrow> False
   | Some key \<Rightarrow> (let n = totp_counter now in
       list_ex (\<lambda>c. totp hmac1 key c = code) [n - 1, n, n + 1]))"

section \<open>A generated secret verifies its own codes\<close>

lemma b32_value_nth: "distinct as \<Longrightarrow> v < length as \<Longrightarrow> b32_value (as ! v) as = Some v"
  by (induction as arbitrary: v) (auto simp: nth_Cons split: nat.splits)

lemma b32_alphabet_ok:
  "distinct b32_alphabet" "length b32_alphabet = 32" "CHR ''='' \<notin> set b32_alphabet"
  "map upper_char b32_alphabet = b32_alphabet"
  "CHR '' '' \<notin> set b32_alphabet" "CHR 0x0A \<notin> set b32_alphabet" "CHR 0x0D \<notin> set b32_alphabet"
  by code_simp+

lemma b32_values_map: "list_all (\<lambda>d. d < 32) ds \<Longrightarrow> b32_values (map ((!) b32_alphabet) ds) = Some ds"
  by (induction ds) (auto simp: b32_value_nth b32_alphabet_ok)

lemma bytes_of_inverse [simp]: "of_bytes (bytes_of s) = s"
  by (induction s) (auto simp: of_bytes_def bytes_of_def)

lemma bytes_of_less: "list_all (\<lambda>d. d < 256) (bytes_of s)"
  by (auto simp: bytes_of_def list_all_iff)

lemma bytes_of_length [simp]: "length (bytes_of s) = length s"
  by (simp add: bytes_of_def)

lemma in_alphabet: "d < 32 \<Longrightarrow> b32_alphabet ! d \<in> set b32_alphabet"
  by (simp add: b32_alphabet_ok)

text \<open>A whole group of five bytes.\<close>

definition b32_group :: "string \<Rightarrow> string" where
  "b32_group g = map ((!) b32_alphabet) (digits 32 8 (undigits 256 (bytes_of g)))"

lemma b32_group_digits: "list_all (\<lambda>d. d < 32) (digits 32 8 n)"
  by (auto simp: list_all_iff dest: digits_less [rotated])

lemma b32_group_length [simp]: "length (b32_group g) = 8"
  by (simp add: b32_group_def)

lemma b32_group_alphabet: "set (b32_group g) \<subseteq> set b32_alphabet"
  using b32_group_digits [of "undigits 256 (bytes_of g)"]
  by (auto simp: b32_group_def list_all_iff intro: in_alphabet)

lemma b32_bytes_group:
  assumes "length g = 5"
  shows "b32_bytes (digits 32 8 (undigits 256 (bytes_of g))) 8 = g"
proof -
  have "undigits 256 (bytes_of g) < 256 ^ 5"
    using undigits_less [OF bytes_of_less [of g]] assms by simp
  then have "undigits 32 (digits 32 8 (undigits 256 (bytes_of g))) = undigits 256 (bytes_of g)"
    by (intro undigits_digits) simp
  moreover have "digits 256 5 (undigits 256 (bytes_of g)) = bytes_of g"
    using digits_undigits [OF bytes_of_less [of g]] assms by simp
  ultimately show ?thesis using assms by (simp add: b32_bytes_def del: digits.simps)
qed

lemma base32_group:
  assumes "length g = 5"
  shows "base32 (g @ s) = b32_group g @ base32 s"
  using assms by (subst base32.simps) (auto simp: Let_def b32_chars_def b32_group_def)

lemma base32_Nil [simp]: "base32 [] = []" "b32_decode [] = Some []"
  by (simp_all add: base32.simps b32_decode.simps)

lemma take_no_pad: "set q \<subseteq> set b32_alphabet \<Longrightarrow> takeWhile (\<lambda>c. c \<noteq> CHR ''='') q = q"
  using b32_alphabet_ok(3) by (intro takeWhile_eq_all_conv [THEN iffD2]) auto

lemma b32_decode_group:
  assumes "length g = 5"
  shows "b32_decode (b32_group g @ t) = map_option (\<lambda>r. g @ r) (b32_decode t)"
proof -
  have ne: "b32_group g \<noteq> []" using b32_group_length [of g] by force
  have v: "b32_values (b32_group g) = Some (digits 32 8 (undigits 256 (bytes_of g)))"
    unfolding b32_group_def by (rule b32_values_map [OF b32_group_digits])
  show ?thesis
    using ne by (subst b32_decode.simps)
      (simp add: Let_def take_no_pad [OF b32_group_alphabet] v b32_bytes_group [OF assms])
qed

text \<open>Strings of whole groups.\<close>

lemma groups_induct [consumes 1, case_names Nil group]:
  assumes "length s mod 5 = 0" and "P []"
    and "\<And>g s. length g = 5 \<Longrightarrow> length s mod 5 = 0 \<Longrightarrow> P s \<Longrightarrow> P (g @ s)"
  shows "P s"
  using assms(1)
proof (induction s rule: length_induct)
  case (1 s)
  show ?case
  proof (cases "s = []")
    case False
    with 1(2) have l: "5 \<le> length s" by (cases "length s < 5") auto
    then have "length (drop 5 s) mod 5 = 0" using 1(2) by (simp add: le_mod_geq)
    with 1(1) l have "P (drop 5 s)" by simp
    with assms(3) [of "take 5 s" "drop 5 s"] l \<open>length (drop 5 s) mod 5 = 0\<close> show ?thesis by simp
  qed (simp add: assms(2))
qed

lemma base32_groups:
  assumes "length s mod 5 = 0"
  shows "set (base32 s) \<subseteq> set b32_alphabet \<and> length (base32 s) mod 8 = 0 \<and> b32_decode (base32 s) = Some s"
  using assms
proof (induction s rule: groups_induct)
  case (group g s)
  then show ?case using b32_group_alphabet [of g] by (simp add: base32_group b32_decode_group)
qed simp

lemma base32_plain:
  assumes "set t \<subseteq> set b32_alphabet" and "length t mod 8 = 0"
  shows "trim_right_set [CHR ''=''] t = t" and "normal_secret t = t"
    and "base32_decode t = b32_decode t"
proof -
  have no: "c \<in> set t \<Longrightarrow> c \<noteq> CHR ''='' \<and> c \<noteq> CHR '' '' \<and> c \<noteq> CHR 0x0A \<and> c \<noteq> CHR 0x0D" for c
    using assms(1) b32_alphabet_ok by auto
  have up: "upper_char c = c" if "c \<in> set t" for c
    using that assms(1) b32_alphabet_ok(4) by (metis map_eq_conv list.map_id id_apply subsetD)
  show "trim_right_set [CHR ''=''] t = t"
    using no by (cases t rule: rev_cases) (auto simp: trim_right_set_def)
  show "normal_secret t = t"
    using no up assms(2) by (simp add: normal_secret_def Let_def filter_id_conv map_idI)
  show "base32_decode t = b32_decode t"
    using no by (simp add: base32_decode_def filter_id_conv)
qed

lemma secret_verifies:
  assumes "length b = 20" and "GenerateTOTPSecret (Some b) = Some secret"
    and "c \<in> {totp_counter now - 1, totp_counter now, totp_counter now + 1}"
  shows "VerifyTOTP hmac1 now secret (totp hmac1 b c)"
proof -
  have g: "set (base32 b) \<subseteq> set b32_alphabet" "length (base32 b) mod 8 = 0"
    "b32_decode (base32 b) = Some b"
    using base32_groups [of b] assms(1) by simp_all
  have "secret = base32 b"
    using assms(2) base32_plain(1) [OF g(1,2)] by (simp add: GenerateTOTPSecret_def)
  then show ?thesis
    using assms(3) g base32_plain(2,3) [OF g(1,2)] by (auto simp: VerifyTOTP_def Let_def)
qed

text \<open>A secret the service generated from 20 random bytes accepts, at any time, the code of the
  current window and of its two neighbours, which an authenticator app computes from the
  random bytes.\<close>
theorem generated_secret_verifies:
  assumes "length b = 20" and "GenerateTOTPSecret (Some b) = Some secret"
    and "c \<in> {totp_counter now - 1, totp_counter now, totp_counter now + 1}"
  shows "VerifyTOTP hmac1 now secret (totp hmac1 b c)"
  using assms by (rule secret_verifies)

definition demo_secret_bytes :: string where
  "demo_secret_bytes = ''12345678901234567890''"

lemma generated_secret_verifies_witness:
  "\<exists>secret. GenerateTOTPSecret (Some demo_secret_bytes) = Some secret \<and>
     VerifyTOTP (\<lambda>k m. k) (59 * second) secret (totp (\<lambda>k m. k) demo_secret_bytes 1)"
proof (intro exI conjI generated_secret_verifies)
  show "length demo_secret_bytes = 20" by (simp add: demo_secret_bytes_def)
  show "1 \<in> {totp_counter (59 * second) - 1, totp_counter (59 * second), totp_counter (59 * second) + 1}"
    by (simp add: totp_counter_def totpPeriod_def rfc3339_def second_def)
qed (simp_all add: GenerateTOTPSecret_def)

end
