(* ===== verification/Auth.thy ===== *)
theory Auth
  imports Sql Base64 Totp
begin

text \<open>
  Local users, password and TOTP authentication and signed session cookies
  (\<open>internal/auth/auth.go\<close>, \<open>internal/auth/totp.go\<close>). The cryptographic primitives are
  parameters: \<open>hmac\<close> is HMAC-SHA256 under the service's signing key, \<open>hmac1\<close> HMAC-SHA1,
  \<open>hashpw\<close> and \<open>checkpw\<close> bcrypt. Every random draw is an argument: the bytes, or \<open>None\<close> when
  \<open>rand.Read\<close> fails.
\<close>

section \<open>Roles and users\<close>

definition RoleAdmin :: string where "RoleAdmin = ''admin''"
definition RoleOperator :: string where "RoleOperator = ''operator''"
definition RoleViewer :: string where "RoleViewer = ''viewer''"

definition IsValid :: "string \<Rightarrow> bool" where
  "IsValid r \<longleftrightarrow> r = RoleAdmin \<or> r = RoleOperator \<or> r = RoleViewer"

definition CanWrite :: "string \<Rightarrow> bool" where
  "CanWrite r \<longleftrightarrow> r = RoleAdmin \<or> r = RoleOperator"

definition CanAdmin :: "string \<Rightarrow> bool" where
  "CanAdmin r \<longleftrightarrow> r = RoleAdmin"

record User =
  u_ID :: int
  u_TenantID :: int
  u_Username :: string
  u_Role :: string

record user_row =
  us_id :: int
  us_tenant :: int
  us_name :: string
  us_hash :: string
  us_role :: string
  us_created :: stamp
  us_totp :: "string option"

text \<open>A row of \<open>sessions\<close> or \<open>mfa_challenges\<close>, keyed by its random identifier.\<close>

record token_row =
  tk_id :: string
  tk_user :: int
  tk_created :: stamp
  tk_expires :: stamp

record auth_db = conn +
  users :: "user_row sql_table"
  tenant_tbl :: "(int \<times> string \<times> stamp) sql_table"
  sessions :: "token_row list"
  mfa_challenges :: "token_row list"

datatype auth_err =
  ErrInvalidCredentials | ErrInvalidSession | ErrInvalidMFACode | NoPendingMFA
| AuthDB string | RandErr | HashErr string

definition user_of :: "user_row \<Rightarrow> User" where
  "user_of r = \<lparr>u_ID = us_id r, u_TenantID = us_tenant r, u_Username = us_name r, u_Role = us_role r\<rparr>"

section \<open>Service\<close>

record auth_service =
  cookieName :: string
  ttl :: duration
  signingKey :: string

definition NewService ::
  "string option \<Rightarrow> string \<Rightarrow> string \<Rightarrow> duration \<Rightarrow> auth_err + auth_service" where
  "NewService rnd signing cookie t =
     (let cookie = (if cookie = [] then ''netmantle_session'' else cookie);
          t = (if t \<le> 0 then 24 * hour else t)
      in if signing = []
         then (case rnd of None \<Rightarrow> Inl RandErr
               | Some b \<Rightarrow> Inr \<lparr>cookieName = cookie, ttl = t, signingKey = b\<rparr>)
         else Inr \<lparr>cookieName = cookie, ttl = t, signingKey = signing\<rparr>)"

definition randomID :: "string option \<Rightarrow> auth_err + string" where
  "randomID rnd = (case rnd of None \<Rightarrow> Inl RandErr | Some b \<Rightarrow> Inr (base64url b))"

text \<open>\<open>randomPassword\<close> ignores a failed read and encodes the zero bytes it then has.\<close>

definition randomPassword :: "string option \<Rightarrow> string" where
  "randomPassword rnd = base64url (case rnd of None \<Rightarrow> replicate 18 (CHR 0x00) | Some b \<Rightarrow> b)"

definition signCookie :: "(string \<Rightarrow> string) \<Rightarrow> string \<Rightarrow> string" where
  "signCookie hmac i = i @ ''.'' @ base64url (hmac i)"

definition unsignCookie :: "(string \<Rightarrow> string) \<Rightarrow> string \<Rightarrow> string option" where
  "unsignCookie hmac v = (case splitn_char 2 CHR ''.'' v of
     [a, b] \<Rightarrow> if base64url (hmac a) = b then Some a else None
   | _ \<Rightarrow> None)"

section \<open>Passwords\<close>

definition EnsureBootstrapAdmin ::
  "(string \<Rightarrow> string + string) \<Rightarrow> string option \<Rightarrow> time \<Rightarrow> string \<Rightarrow> auth_db
    \<Rightarrow> (auth_err + (string \<times> string \<times> bool)) \<times> auth_db" where
  "EnsureBootstrapAdmin hashpw rnd now preset s = exec AuthDB s (\<lambda>s.
     if rows (users s) \<noteq> [] then (Inr ('''', '''', False), s)
     else exec AuthDB s (\<lambda>s.
       if list_ex (\<lambda>(_, name, _). name = ''default'') (rows (tenant_tbl s))
       then (Inl (AuthDB ''UNIQUE constraint failed''), s)
       else
         (let tenant = next_rowid (tenant_tbl s);
              s = s\<lparr>tenant_tbl := insert_row (\<lambda>n. (n, ''default'', rfc3339 now)) (tenant_tbl s),
                    last_rowid := tenant\<rparr>;
              pw = (if preset = [] then randomPassword rnd else preset)
          in case hashpw pw of
               Inl e \<Rightarrow> (Inl (HashErr e), s)
             | Inr hash \<Rightarrow> exec AuthDB s (\<lambda>s.
                 (Inr (''admin'', pw, True),
                  s\<lparr>users := insert_row (\<lambda>n. \<lparr>us_id = n, us_tenant = tenant, us_name = ''admin'',
                       us_hash = hash, us_role = RoleAdmin, us_created = rfc3339 now,
                       us_totp = None\<rparr>) (users s),
                    last_rowid := next_rowid (users s)\<rparr>)))))"

definition Authenticate ::
  "(string \<Rightarrow> string \<Rightarrow> bool) \<Rightarrow> string \<Rightarrow> string \<Rightarrow> auth_db \<Rightarrow> (auth_err + User) \<times> auth_db" where
  "Authenticate checkpw username password s = exec AuthDB s (\<lambda>s.
     case query_row (\<lambda>r. us_name r = username) (users s) of
       None \<Rightarrow> (Inl ErrInvalidCredentials, s)
     | Some r \<Rightarrow> (if checkpw (us_hash r) password then Inr (user_of r) else Inl ErrInvalidCredentials, s))"

section \<open>Sessions\<close>

text \<open>An insert into a table keyed by a text identifier, with its foreign key to \<open>users\<close>.\<close>

definition token_clash :: "string \<Rightarrow> int \<Rightarrow> token_row list \<Rightarrow> user_row sql_table \<Rightarrow> string option" where
  "token_clash i uid ts us =
     (if i \<in> tk_id ` set ts then Some ''UNIQUE constraint failed''
      else if uid \<notin> us_id ` set (rows us) then Some ''FOREIGN KEY constraint failed'' else None)"

definition CreateSession ::
  "(string \<Rightarrow> string) \<Rightarrow> duration \<Rightarrow> string option \<Rightarrow> time \<Rightarrow> int \<Rightarrow> auth_db
    \<Rightarrow> (auth_err + (string \<times> time)) \<times> auth_db" where
  "CreateSession hmac life rnd now uid s = (case randomID rnd of
     Inl e \<Rightarrow> (Inl e, s)
   | Inr i \<Rightarrow> exec AuthDB s (\<lambda>s.
       case token_clash i uid (sessions s) (users s) of
         Some e \<Rightarrow> (Inl (AuthDB e), s)
       | None \<Rightarrow> (Inr (signCookie hmac i, now + life),
           s\<lparr>sessions := sessions s @ [\<lparr>tk_id = i, tk_user = uid, tk_created = rfc3339 now,
              tk_expires = rfc3339 (now + life)\<rparr>]\<rparr>)))"

text \<open>\<open>JOIN users ON user_id = users.id WHERE token.id = ?\<close>.\<close>

definition token_join :: "string \<Rightarrow> token_row list \<Rightarrow> user_row sql_table \<Rightarrow> (token_row \<times> user_row) option" where
  "token_join i ts us = (case find (\<lambda>t. tk_id t = i) ts of
     None \<Rightarrow> None
   | Some t \<Rightarrow> map_option (Pair t) (query_row (\<lambda>u. us_id u = tk_user t) us))"

definition drop_token :: "string \<Rightarrow> token_row list \<Rightarrow> token_row list" where
  "drop_token i ts = filter (\<lambda>t. tk_id t \<noteq> i) ts"

definition LookupSession ::
  "(string \<Rightarrow> string) \<Rightarrow> time \<Rightarrow> string \<Rightarrow> auth_db \<Rightarrow> (auth_err + User) \<times> auth_db" where
  "LookupSession hmac now cookie s = (case unsignCookie hmac cookie of
     None \<Rightarrow> (Inl ErrInvalidSession, s)
   | Some i \<Rightarrow> exec AuthDB s (\<lambda>s. case token_join i (sessions s) (users s) of
       None \<Rightarrow> (Inl ErrInvalidSession, s)
     | Some (t, u) \<Rightarrow>
         if of_stamp (tk_expires t) < now
         then (Inl ErrInvalidSession, exec_quiet s (\<lambda>s. s\<lparr>sessions := drop_token i (sessions s)\<rparr>))
         else (Inr (user_of u), s)))"

definition DestroySession ::
  "(string \<Rightarrow> string) \<Rightarrow> string \<Rightarrow> auth_db \<Rightarrow> (auth_err + unit) \<times> auth_db" where
  "DestroySession hmac cookie s = (case unsignCookie hmac cookie of
     None \<Rightarrow> (Inr (), s)
   | Some i \<Rightarrow> exec AuthDB s (\<lambda>s. (Inr (), s\<lparr>sessions := drop_token i (sessions s)\<rparr>)))"

section \<open>Multi-factor authentication\<close>

record MFAEnrollment =
  me_Secret :: string
  me_OtpauthURL :: string

text \<open>The user's TOTP secret when it is set and not empty.\<close>

definition totp_secret :: "int \<Rightarrow> auth_db \<Rightarrow> string option option" where
  "totp_secret uid s = map_option (\<lambda>u. case us_totp u of
     None \<Rightarrow> None | Some t \<Rightarrow> if t = [] then None else Some t) (query_row (\<lambda>u. us_id u = uid) (users s))"

definition set_totp :: "int \<Rightarrow> string option \<Rightarrow> auth_db \<Rightarrow> auth_db" where
  "set_totp uid v s = s\<lparr>users := update_rows (\<lambda>u. us_id u = uid) (\<lambda>u. u\<lparr>us_totp := v\<rparr>) (users s)\<rparr>"

definition EnrollMFA ::
  "string option \<Rightarrow> int \<Rightarrow> string \<Rightarrow> string \<Rightarrow> auth_db \<Rightarrow> (auth_err + MFAEnrollment) \<times> auth_db" where
  "EnrollMFA rnd uid issuer username s = (case GenerateTOTPSecret rnd of
     None \<Rightarrow> (Inl RandErr, s)
   | Some secret \<Rightarrow> exec AuthDB s (\<lambda>s.
       (Inr \<lparr>me_Secret = secret, me_OtpauthURL = TOTPOtpauthURL issuer username secret\<rparr>,
        set_totp uid (Some secret) s)))"

definition ConfirmMFA ::
  "(string \<Rightarrow> string \<Rightarrow> string) \<Rightarrow> time \<Rightarrow> int \<Rightarrow> string \<Rightarrow> auth_db \<Rightarrow> (auth_err + unit) \<times> auth_db" where
  "ConfirmMFA hmac1 now uid code s = exec AuthDB s (\<lambda>s. case totp_secret uid s of
     None \<Rightarrow> (Inl (AuthDB ''no rows''), s)
   | Some None \<Rightarrow> (Inl NoPendingMFA, s)
   | Some (Some t) \<Rightarrow> (if VerifyTOTP hmac1 now t code then Inr () else Inl ErrInvalidMFACode, s))"

definition DisableMFA :: "int \<Rightarrow> auth_db \<Rightarrow> (auth_err + unit) \<times> auth_db" where
  "DisableMFA uid s = exec AuthDB s (\<lambda>s. (Inr (), set_totp uid None s))"

definition MFAEnabled :: "int \<Rightarrow> auth_db \<Rightarrow> (auth_err + bool) \<times> auth_db" where
  "MFAEnabled uid s = exec AuthDB s (\<lambda>s. case totp_secret uid s of
     None \<Rightarrow> (Inl (AuthDB ''no rows''), s)
   | Some t \<Rightarrow> (Inr (t \<noteq> None), s))"

definition AuthenticateMFA ::
  "(string \<Rightarrow> string \<Rightarrow> string) \<Rightarrow> time \<Rightarrow> int \<Rightarrow> string \<Rightarrow> auth_db \<Rightarrow> (auth_err + unit) \<times> auth_db" where
  "AuthenticateMFA hmac1 now uid code s = exec (\<lambda>_. ErrInvalidMFACode) s (\<lambda>s. case totp_secret uid s of
     Some (Some t) \<Rightarrow> (if VerifyTOTP hmac1 now t code then Inr () else Inl ErrInvalidMFACode, s)
   | _ \<Rightarrow> (Inl ErrInvalidMFACode, s))"

definition CreateMFAChallenge ::
  "string option \<Rightarrow> time \<Rightarrow> int \<Rightarrow> auth_db \<Rightarrow> (auth_err + string) \<times> auth_db" where
  "CreateMFAChallenge rnd now uid s = (case randomID rnd of
     Inl e \<Rightarrow> (Inl e, s)
   | Inr i \<Rightarrow> exec AuthDB s (\<lambda>s.
       case token_clash i uid (mfa_challenges s) (users s) of
         Some e \<Rightarrow> (Inl (AuthDB e), s)
       | None \<Rightarrow> (Inr i, s\<lparr>mfa_challenges := mfa_challenges s @ [\<lparr>tk_id = i, tk_user = uid,
           tk_created = rfc3339 now, tk_expires = rfc3339 (now + 5 * minute)\<rparr>]\<rparr>)))"

definition drop_challenge :: "string \<Rightarrow> auth_db \<Rightarrow> auth_db" where
  "drop_challenge i s = exec_quiet s (\<lambda>s. s\<lparr>mfa_challenges := drop_token i (mfa_challenges s)\<rparr>)"

text \<open>The clock is read for the expiry and, after a statement, for the code.\<close>

definition RedeemMFAChallenge ::
  "(string \<Rightarrow> string \<Rightarrow> string) \<Rightarrow> time \<Rightarrow> time \<Rightarrow> string \<Rightarrow> string \<Rightarrow> auth_db \<Rightarrow> (auth_err + User) \<times> auth_db" where
  "RedeemMFAChallenge hmac1 now now2 i code s = exec AuthDB s (\<lambda>s.
     case token_join i (mfa_challenges s) (users s) of
       None \<Rightarrow> (Inl ErrInvalidMFACode, s)
     | Some (t, u) \<Rightarrow>
         if of_stamp (tk_expires t) < now then (Inl ErrInvalidMFACode, drop_challenge i s)
         else and_then (AuthenticateMFA hmac1 now2 (us_id u) code s)
                (\<lambda>_ s. (Inr (user_of u), drop_challenge i s)))"

section \<open>The login endpoints\<close>

text \<open>\<open>handleLogin\<close> and \<open>handleMFAVerify\<close> of \<open>internal/api/server.go\<close> after the body is
  decoded: an error status, a challenge, or a session cookie for a user.\<close>

datatype login_reply = Refused nat | Challenge string | Session string User

definition handleLogin ::
  "(string \<Rightarrow> string) \<Rightarrow> (string \<Rightarrow> string \<Rightarrow> bool) \<Rightarrow> duration \<Rightarrow> string option \<Rightarrow> time \<Rightarrow> string \<Rightarrow> string
    \<Rightarrow> auth_db \<Rightarrow> login_reply \<times> auth_db" where
  "handleLogin hmac checkpw life rnd now username password s =
     (case Authenticate checkpw username password s of
        (Inl _, s) \<Rightarrow> (Refused 401, s)
      | (Inr u, s) \<Rightarrow>
          (let (r, s) = MFAEnabled (u_ID u) s;
               mfaOn = (case r of Inr b \<Rightarrow> b | Inl _ \<Rightarrow> False)
           in if mfaOn
              then (case CreateMFAChallenge rnd now (u_ID u) s of
                      (Inl _, s) \<Rightarrow> (Refused 500, s) | (Inr i, s) \<Rightarrow> (Challenge i, s))
              else (case CreateSession hmac life rnd now (u_ID u) s of
                      (Inl _, s) \<Rightarrow> (Refused 500, s) | (Inr (cookie, _), s) \<Rightarrow> (Session cookie u, s))))"

definition handleMFAVerify ::
  "(string \<Rightarrow> string) \<Rightarrow> (string \<Rightarrow> string \<Rightarrow> string) \<Rightarrow> duration \<Rightarrow> string option \<Rightarrow> time \<Rightarrow> time \<Rightarrow> time \<Rightarrow> string \<Rightarrow> string
    \<Rightarrow> auth_db \<Rightarrow> login_reply \<times> auth_db" where
  "handleMFAVerify hmac hmac1 life rnd now now2 now3 challenge code s =
     (case RedeemMFAChallenge hmac1 now now2 challenge code s of
        (Inl _, s) \<Rightarrow> (Refused 401, s)
      | (Inr u, s) \<Rightarrow> (case CreateSession hmac life rnd now3 (u_ID u) s of
          (Inl _, s) \<Rightarrow> (Refused 500, s) | (Inr (cookie, _), s) \<Rightarrow> (Session cookie u, s)))"

definition handleLogout :: "(string \<Rightarrow> string) \<Rightarrow> string option \<Rightarrow> auth_db \<Rightarrow> auth_db" where
  "handleLogout hmac cookie s = (case cookie of None \<Rightarrow> s | Some c \<Rightarrow> snd (DestroySession hmac c s))"

section \<open>Cookies\<close>

lemma splitn_2: "splitn_char 2 c s =
    (if c \<in> set s then [takeWhile (\<lambda>x. x \<noteq> c) s, tl (dropWhile (\<lambda>x. x \<noteq> c) s)] else [s])"
  by (simp add: numeral_2_eq_2)

lemma split_at: "c \<in> set s \<Longrightarrow> takeWhile (\<lambda>x. x \<noteq> c) s @ c # tl (dropWhile (\<lambda>x. x \<noteq> c) s) = s"
  by (induction s) auto

lemma unsign_iff: "unsignCookie hmac v = Some i \<longleftrightarrow> CHR ''.'' \<notin> set i \<and> v = signCookie hmac i"
proof
  assume "unsignCookie hmac v = Some i"
  then have "CHR ''.'' \<in> set v" "i = takeWhile (\<lambda>x. x \<noteq> CHR ''.'') v"
    "base64url (hmac i) = tl (dropWhile (\<lambda>x. x \<noteq> CHR ''.'') v)"
    by (auto simp: unsignCookie_def splitn_2 split: if_splits)
  moreover have "CHR ''.'' \<notin> set (takeWhile (\<lambda>x. x \<noteq> CHR ''.'') v)"
    by (auto dest: set_takeWhileD)
  ultimately show "CHR ''.'' \<notin> set i \<and> v = signCookie hmac i"
    using split_at [of "CHR ''.''" v] by (simp add: signCookie_def)
next
  assume "CHR ''.'' \<notin> set i \<and> v = signCookie hmac i"
  then show "unsignCookie hmac v = Some i"
    by (simp add: unsignCookie_def splitn_2 signCookie_def takeWhile_append dropWhile_append)
qed

lemma base64_set: "set (base64 s) \<subseteq> insert CHR ''='' (set b64_alphabet)"
proof (induction s rule: base64.induct)
  case (4 a b c s)
  have "b64_char n \<in> set b64_alphabet" if "n < 64" for n
    using that b64_distinct(2) by (simp add: b64_char_def)
  with 4 show ?case using b64_digits_less by auto
qed (use b64_digits_less b64_distinct(2) in \<open>auto simp: b64_char_def\<close>)

lemma base64url_no_dot: "CHR ''.'' \<notin> set (base64url s)"
proof -
  have "CHR ''.'' \<notin> url_char ` insert CHR ''='' (set b64_alphabet)" by code_simp
  then show ?thesis using base64_set [of s] by (auto simp: base64url_def)
qed

text \<open>With a working database a cookie opens a session exactly when it is the signed form of a
  stored session identifier whose user exists and which has not expired; it then stands for
  that user.\<close>
theorem session_iff:
  assumes "faults s = []"
  shows "fst (LookupSession hmac now cookie s) = Inr u \<longleftrightarrow>
    (\<exists>i t row. CHR ''.'' \<notin> set i \<and> cookie = signCookie hmac i \<and>
       token_join i (sessions s) (users s) = Some (t, row) \<and> now \<le> of_stamp (tk_expires t) \<and>
       u = user_of row)"
proof (cases "unsignCookie hmac cookie")
  case None
  then show ?thesis
    using unsign_iff [of hmac cookie] by (auto simp: LookupSession_def)
next
  case (Some i)
  then have i: "CHR ''.'' \<notin> set i" "cookie = signCookie hmac i" by (simp_all add: unsign_iff)
  have inj: "j = i" if "CHR ''.'' \<notin> set j" "cookie = signCookie hmac j" for j
    using that Some unsign_iff [of hmac cookie j] by simp
  show ?thesis
  proof (cases "token_join i (sessions s) (users s)")
    case None
    with inj show ?thesis using assms Some by (auto simp: LookupSession_def)
  next
    case (Some p)
    obtain t row where p: "p = (t, row)" by (cases p)
    have "fst (LookupSession hmac now cookie s) =
        (if of_stamp (tk_expires t) < now then Inl ErrInvalidSession else Inr (user_of row))"
      using assms \<open>unsignCookie hmac cookie = Some i\<close> Some p by (simp add: LookupSession_def)
    moreover have "(\<exists>j t' row'. CHR ''.'' \<notin> set j \<and> cookie = signCookie hmac j \<and>
       token_join j (sessions s) (users s) = Some (t', row') \<and> now \<le> of_stamp (tk_expires t') \<and>
       u = user_of row') \<longleftrightarrow> now \<le> of_stamp (tk_expires t) \<and> u = user_of row"
      using inj i Some p by auto
    ultimately show ?thesis by auto
  qed
qed

definition demo_user :: user_row where
  "demo_user = \<lparr>us_id = 1, us_tenant = 1, us_name = ''admin'', us_hash = ''pw'', us_role = ''admin'',
     us_created = 0, us_totp = None\<rparr>"

definition demo_auth :: auth_db where
  "demo_auth = \<lparr>faults = [], last_rowid = 1, users = \<lparr>rows = [demo_user], rowseq = 1\<rparr>,
     tenant_tbl = \<lparr>rows = [(1, ''default'', 0)], rowseq = 1\<rparr>,
     sessions = [\<lparr>tk_id = ''abc'', tk_user = 1, tk_created = 0, tk_expires = 60\<rparr>],
     mfa_challenges = [\<lparr>tk_id = ''ch'', tk_user = 1, tk_created = 0, tk_expires = 300\<rparr>]\<rparr>"

lemma session_iff_witness:
  "fst (LookupSession (\<lambda>m. m) (60 * second) (signCookie (\<lambda>m. m) ''abc'') demo_auth) = Inr (user_of demo_user)"
proof (rule session_iff [THEN iffD2])
  show "faults demo_auth = []" by (simp add: demo_auth_def)
  show "\<exists>i t row. CHR ''.'' \<notin> set i \<and> signCookie (\<lambda>m. m) ''abc'' = signCookie (\<lambda>m. m) i \<and>
      token_join i (sessions demo_auth) (users demo_auth) = Some (t, row) \<and>
      60 * second \<le> of_stamp (tk_expires t) \<and> user_of demo_user = user_of row"
    by (rule exI [of _ "''abc''"])
      (simp add: demo_auth_def token_join_def query_row_def demo_user_def of_stamp_def second_def)
qed

section \<open>Runs of the endpoints\<close>

text \<open>The random draw and the clock of each request are part of the command.\<close>

datatype auth_cmd =
  ALogin "string option" time string string
| AVerify "string option" time time time string string
| ALookup time string
| ALogout "string option"
| AEnroll "string option" int string string
| AConfirm time int string
| ADisable int


fun auth_do ::
  "(string \<Rightarrow> string) \<Rightarrow> (string \<Rightarrow> string \<Rightarrow> string) \<Rightarrow> (string \<Rightarrow> string \<Rightarrow> bool) \<Rightarrow> duration
    \<Rightarrow> auth_cmd \<Rightarrow> auth_db \<Rightarrow> auth_db" where
  "auth_do hmac hmac1 checkpw life (ALogin rnd now user pw) s = snd (handleLogin hmac checkpw life rnd now user pw s)"
| "auth_do hmac hmac1 checkpw life (AVerify rnd now now2 now3 i code) s =
     snd (handleMFAVerify hmac hmac1 life rnd now now2 now3 i code s)"
| "auth_do hmac hmac1 checkpw life (ALookup now cookie) s = snd (LookupSession hmac now cookie s)"
| "auth_do hmac hmac1 checkpw life (ALogout cookie) s = handleLogout hmac cookie s"
| "auth_do hmac hmac1 checkpw life (AEnroll rnd uid issuer name) s = snd (EnrollMFA rnd uid issuer name s)"
| "auth_do hmac hmac1 checkpw life (AConfirm now uid code) s = snd (ConfirmMFA hmac1 now uid code s)"
| "auth_do hmac hmac1 checkpw life (ADisable uid) s = snd (DisableMFA uid s)"

fun draws :: "auth_cmd \<Rightarrow> string set" where
  "draws (ALogin (Some b) now user pw) = {base64url b}"
| "draws (AVerify (Some b) now now2 now3 i code) = {base64url b}"
| "draws _ = {}"

text \<open>The identifiers of either table.\<close>

datatype token_kind = SessionTok | ChallengeTok

definition tok_ids :: "token_kind \<Rightarrow> auth_db \<Rightarrow> string set" where
  "tok_ids k s = tk_id ` set (case k of SessionTok \<Rightarrow> sessions s | ChallengeTok \<Rightarrow> mfa_challenges s)"

lemma tok_ids_simps [simp]:
  "tok_ids k (s\<lparr>faults := fs\<rparr>) = tok_ids k s"
  "tok_ids k (set_totp uid v s) = tok_ids k s"
  "tok_ids k (s\<lparr>sessions := drop_token i (sessions s)\<rparr>) = tok_ids k s - (if k = SessionTok then {i} else {})"
  "tok_ids k (s\<lparr>mfa_challenges := drop_token i (mfa_challenges s)\<rparr>) =
     tok_ids k s - (if k = ChallengeTok then {i} else {})"
  "tok_ids k (s\<lparr>sessions := sessions s @ [t]\<rparr>) = tok_ids k s \<union> (if k = SessionTok then {tk_id t} else {})"
  "tok_ids k (s\<lparr>mfa_challenges := mfa_challenges s @ [t]\<rparr>) =
     tok_ids k s \<union> (if k = ChallengeTok then {tk_id t} else {})"
  by (cases k; auto simp: tok_ids_def set_totp_def drop_token_def)+

text \<open>\<open>ids_within k A m\<close>: the call \<open>m\<close> leaves only identifiers of \<open>A\<close> in the table \<open>k\<close>.\<close>

definition ids_within :: "token_kind \<Rightarrow> string set \<Rightarrow> 'r \<times> auth_db \<Rightarrow> bool" where
  "ids_within k A m \<longleftrightarrow> tok_ids k (snd m) \<subseteq> A"

lemma ids_within_post: "ids_within k A m \<longleftrightarrow> post (\<lambda>r s. tok_ids k s \<subseteq> A) m"
  by (simp add: ids_within_def post_snd)

lemma ids_exec:
  "tok_ids k s \<subseteq> A \<Longrightarrow> (\<And>s. tok_ids k s \<subseteq> A \<Longrightarrow> ids_within k A (f s)) \<Longrightarrow> ids_within k A (exec err s f)"
  unfolding ids_within_post by (rule post_exec) auto

lemma ids_pair [simp]: "ids_within k A (r, s) \<longleftrightarrow> tok_ids k s \<subseteq> A"
  by (simp add: ids_within_def)

lemma ids_quiet:
  "tok_ids k s \<subseteq> A \<Longrightarrow> (\<And>s. tok_ids k s \<subseteq> A \<Longrightarrow> tok_ids k (f s) \<subseteq> A) \<Longrightarrow>
   tok_ids k (exec_quiet s f) \<subseteq> A"
  by (rule exec_quiet_post [where Q = "\<lambda>s. tok_ids k s \<subseteq> A"]) simp_all

lemma ids_drop:
  "tok_ids k s \<subseteq> A \<Longrightarrow> tok_ids k (exec_quiet s (\<lambda>s. s\<lparr>sessions := drop_token i (sessions s)\<rparr>)) \<subseteq> A"
  "tok_ids k s \<subseteq> A \<Longrightarrow> tok_ids k (drop_challenge i s) \<subseteq> A"
  unfolding drop_challenge_def by (rule ids_quiet; auto)+

lemma ids_CreateSession:
  "tok_ids k s \<subseteq> A \<Longrightarrow> (\<And>b. rnd = Some b \<Longrightarrow> base64url b \<in> A) \<Longrightarrow>
   ids_within k A (CreateSession hmac life rnd now uid s)"
  unfolding CreateSession_def
  by (auto simp: randomID_def split: option.splits intro!: ids_exec)

lemma ids_CreateMFAChallenge:
  "tok_ids k s \<subseteq> A \<Longrightarrow> (\<And>b. rnd = Some b \<Longrightarrow> base64url b \<in> A) \<Longrightarrow>
   ids_within k A (CreateMFAChallenge rnd now uid s)"
  unfolding CreateMFAChallenge_def
  by (auto simp: randomID_def split: option.splits intro!: ids_exec)

lemma ids_LookupSession: "tok_ids k s \<subseteq> A \<Longrightarrow> ids_within k A (LookupSession hmac now cookie s)"
  unfolding LookupSession_def
  by (cases "unsignCookie hmac cookie") (simp, simp, rule ids_exec, assumption,
    simp add: ids_drop(1) split: option.split)

lemma ids_DestroySession: "tok_ids k s \<subseteq> A \<Longrightarrow> ids_within k A (DestroySession hmac cookie s)"
  unfolding DestroySession_def
  by (auto split: option.splits intro!: ids_exec)

lemma ids_Authenticate: "tok_ids k s \<subseteq> A \<Longrightarrow> ids_within k A (Authenticate checkpw u p s)"
  unfolding Authenticate_def by (rule ids_exec) (auto split: option.splits)

lemma ids_MFA:
  assumes "tok_ids k s \<subseteq> A"
  shows "ids_within k A (EnrollMFA rnd uid is un s)" "ids_within k A (ConfirmMFA hmac1 now uid code s)"
    "ids_within k A (DisableMFA uid s)" "ids_within k A (MFAEnabled uid s)"
    "ids_within k A (AuthenticateMFA hmac1 now uid code s)"
  using assms
  unfolding EnrollMFA_def ConfirmMFA_def DisableMFA_def MFAEnabled_def AuthenticateMFA_def
  by (auto intro!: ids_exec split: option.splits sum.splits)

lemma ids_and_then:
  "ids_within k A m \<Longrightarrow> (\<And>a s. tok_ids k s \<subseteq> A \<Longrightarrow> ids_within k A (f a s)) \<Longrightarrow> ids_within k A (and_then m f)"
  by (cases m; cases "fst m") (auto simp: and_then_def)

lemma ids_Redeem: "tok_ids k s \<subseteq> A \<Longrightarrow> ids_within k A (RedeemMFAChallenge hmac1 now now2 i code s)"
  unfolding RedeemMFAChallenge_def
  by (rule ids_exec, assumption)
    (auto simp del: ids_pair simp: ids_pair [THEN iffD2] ids_drop ids_MFA intro!: ids_and_then split: option.split)

lemma ids_pairE: "ids_within k A m \<Longrightarrow> m = (r, s) \<Longrightarrow> tok_ids k s \<subseteq> A"
  by simp

lemma ids_handleLogin:
  assumes "tok_ids k s \<subseteq> A" and "\<And>b. rnd = Some b \<Longrightarrow> base64url b \<in> A"
  shows "tok_ids k (snd (handleLogin hmac checkpw life rnd now user pw s)) \<subseteq> A"
proof -
  obtain r1 s1 where 1: "Authenticate checkpw user pw s = (r1, s1)" by force
  with ids_Authenticate [OF assms(1)] have s1: "tok_ids k s1 \<subseteq> A" by (metis ids_pair)
  show ?thesis
  proof (cases r1)
    case (Inr u)
    obtain r2 s2 where 2: "MFAEnabled (u_ID u) s1 = (r2, s2)" by force
    with ids_MFA(4) [OF s1] have s2: "tok_ids k s2 \<subseteq> A" by (metis ids_pair)
    have "tok_ids k (snd (CreateMFAChallenge rnd now (u_ID u) s2)) \<subseteq> A"
      "tok_ids k (snd (CreateSession hmac life rnd now (u_ID u) s2)) \<subseteq> A"
      using ids_CreateMFAChallenge [OF s2 assms(2)] ids_CreateSession [OF s2 assms(2)] by (simp_all add: ids_within_def)
    then show ?thesis
      using 1 2 Inr by (auto simp: handleLogin_def split: sum.splits prod.splits)
  qed (use 1 s1 in \<open>simp add: handleLogin_def\<close>)
qed

lemma ids_handleMFAVerify:
  assumes "tok_ids k s \<subseteq> A" and "\<And>b. rnd = Some b \<Longrightarrow> base64url b \<in> A"
  shows "tok_ids k (snd (handleMFAVerify hmac hmac1 life rnd now now2 now3 i code s)) \<subseteq> A"
proof -
  obtain r1 s1 where 1: "RedeemMFAChallenge hmac1 now now2 i code s = (r1, s1)" by force
  with ids_Redeem [OF assms(1)] have s1: "tok_ids k s1 \<subseteq> A" by (metis ids_pair)
  show ?thesis
  proof (cases r1)
    case (Inr u)
    have "tok_ids k (snd (CreateSession hmac life rnd now3 (u_ID u) s1)) \<subseteq> A"
      using ids_CreateSession [OF s1 assms(2)] by (simp add: ids_within_def)
    then show ?thesis using 1 Inr by (auto simp: handleMFAVerify_def split: sum.splits prod.splits)
  qed (use 1 s1 in \<open>simp add: handleMFAVerify_def\<close>)
qed

lemma ids_auth_do:
  assumes "tok_ids k s \<subseteq> A" and "draws c \<subseteq> A"
  shows "tok_ids k (auth_do hmac hmac1 checkpw life c s) \<subseteq> A"
proof (cases c)
  case (ALogin rnd now user pw)
  with assms ids_handleLogin [OF assms(1), of rnd hmac checkpw life now user pw] show ?thesis
    by (cases rnd) simp_all
next
  case (AVerify rnd now now2 now3 i code)
  with assms ids_handleMFAVerify [OF assms(1), of rnd hmac hmac1 life now now2 now3 i code] show ?thesis
    by (cases rnd) simp_all
next
  case (ALogout cookie)
  with assms ids_DestroySession [OF assms(1), of hmac "the cookie"] show ?thesis
    by (cases cookie) (simp_all add: handleLogout_def ids_within_def)
qed (use ids_LookupSession [OF assms(1)] ids_MFA [OF assms(1)] assms in \<open>auto simp: ids_within_def\<close>)

lemma ids_auth_run:
  "tok_ids k s \<subseteq> A \<Longrightarrow> (\<And>c. c \<in> set cs \<Longrightarrow> draws c \<subseteq> A) \<Longrightarrow>
   tok_ids k (fold (auth_do hmac hmac1 checkpw life) cs s) \<subseteq> A"
  by (induction cs arbitrary: s) (simp_all add: ids_auth_do)

lemma token_join_None: "i \<notin> tk_id ` set ts \<Longrightarrow> token_join i ts us = None"
  by (auto simp: token_join_def find_None_iff image_iff split: option.splits dest!: find_Some_iff [THEN iffD1])

lemma no_session: "i \<notin> tok_ids SessionTok s \<Longrightarrow> unsignCookie hmac cookie = Some i \<Longrightarrow>
   fst (LookupSession hmac now cookie s) \<noteq> Inr u"
proof -
  assume i: "i \<notin> tok_ids SessionTok s" "unsignCookie hmac cookie = Some i"
  have "post (\<lambda>r _. r \<noteq> Inr u) (LookupSession hmac now cookie s)"
    unfolding LookupSession_def using i
    by (auto simp: token_join_None tok_ids_def intro!: post_exec)
  then show ?thesis by (simp add: post_def split: prod.splits)
qed

text \<open>A logout is final: after a successful DestroySession no request of any later run of the
  endpoints, whichever statements fail, makes that cookie a session again, as long as no
  later random draw repeats its identifier.\<close>
theorem logout_final:
  assumes "DestroySession hmac cookie s = (Inr (), s1)" and "unsignCookie hmac cookie = Some i"
    and "\<forall>c \<in> set cs. i \<notin> draws c"
  shows "fst (LookupSession hmac now cookie (fold (auth_do hmac hmac1 checkpw life) cs s1)) \<noteq> Inr u"
proof -
  have "post (\<lambda>r s'. r = Inr () \<longrightarrow> i \<notin> tok_ids SessionTok s') (DestroySession hmac cookie s)"
    unfolding DestroySession_def using assms(2)
    by (auto simp: tok_ids_def drop_token_def intro!: post_exec)
  with assms(1) have "tok_ids SessionTok s1 \<subseteq> - {i}" by auto
  then have "tok_ids SessionTok (fold (auth_do hmac hmac1 checkpw life) cs s1) \<subseteq> - {i}"
    using assms(3) by (intro ids_auth_run) auto
  then show ?thesis using assms(2) by (intro no_session) auto
qed

lemma logout_final_witness:
  "\<forall>u. fst (LookupSession (\<lambda>m. m) 0 (signCookie (\<lambda>m. m) ''abc'')
     (fold (auth_do (\<lambda>m. m) (\<lambda>k m. m) (=) hour) [ALogin (Some ''r'') 0 ''admin'' ''pw'']
        (snd (DestroySession (\<lambda>m. m) (signCookie (\<lambda>m. m) ''abc'') demo_auth)))) \<noteq> Inr u"
proof
  fix u
  have i: "unsignCookie (\<lambda>m. m) (signCookie (\<lambda>m. m) ''abc'') = Some ''abc''"
    by (simp add: unsign_iff)
  then have d: "DestroySession (\<lambda>m. m) (signCookie (\<lambda>m. m) ''abc'') demo_auth =
      (Inr (), snd (DestroySession (\<lambda>m. m) (signCookie (\<lambda>m. m) ''abc'') demo_auth))"
    by (simp add: DestroySession_def demo_auth_def)
  have "''abc'' \<noteq> base64url ''r''" by code_simp
  then show "fst (LookupSession (\<lambda>m. m) 0 (signCookie (\<lambda>m. m) ''abc'')
     (fold (auth_do (\<lambda>m. m) (\<lambda>k m. m) (=) hour) [ALogin (Some ''r'') 0 ''admin'' ''pw'']
        (snd (DestroySession (\<lambda>m. m) (signCookie (\<lambda>m. m) ''abc'') demo_auth)))) \<noteq> Inr u"
    by (intro logout_final [OF d i]) simp
qed

section \<open>The second factor\<close>

text \<open>C16: With a working database the login endpoint opens a session only for a user whose password
  matched and who has no second factor; a user with a TOTP secret gets a challenge instead.\<close>
theorem login_respects_second_factor:
  assumes "faults s = []" and "handleLogin hmac checkpw life rnd now username password s = (Session cookie u, s')"
  shows "totp_secret (u_ID u) s = Some None \<and>
    (\<exists>row \<in> set (rows (users s)). us_name row = username \<and> checkpw (us_hash row) password \<and> u = user_of row)"
proof -
  obtain r1 s1 where 1: "Authenticate checkpw username password s = (r1, s1)" by force
  then have s1: "s1 = s" using assms(1) by (auto simp: Authenticate_def split: option.splits)
  from assms(2) 1 obtain v where v: "r1 = Inr v" by (cases r1) (auto simp: handleLogin_def)
  obtain r2 s2 where 2: "MFAEnabled (u_ID v) s = (r2, s2)" by force
  have uv: "u = v \<and> (case r2 of Inr b \<Rightarrow> \<not> b | Inl _ \<Rightarrow> True)"
    using assms(2) 1 2 v s1
    by (auto simp: handleLogin_def split: if_splits sum.splits prod.splits)
  from 1 v s1 assms(1) obtain row where row: "query_row (\<lambda>r. us_name r = username) (users s) = Some row"
    "checkpw (us_hash row) password" "v = user_of row"
    by (auto simp: Authenticate_def split: option.splits if_splits)
  then have mem: "row \<in> set (rows (users s))" "us_name row = username"
    by (auto dest: query_row_SomeD)
  then have "query_row (\<lambda>x. us_id x = us_id row) (users s) \<noteq> None"
    by (auto simp: query_row_None)
  then have "totp_secret (u_ID v) s \<noteq> None" using row(3) by (simp add: totp_secret_def user_of_def)
  with 2 uv assms(1) have "totp_secret (u_ID v) s = Some None"
    by (auto simp: MFAEnabled_def split: option.splits)
  with uv row mem show ?thesis by auto
qed

lemma login_respects_second_factor_witness:
  "totp_secret 1 demo_auth = Some None"
proof -
  have "handleLogin (\<lambda>m. m) (=) hour (Some ''r'') 0 ''admin'' ''pw'' demo_auth =
      (Session (signCookie (\<lambda>m. m) (base64url ''r'')) (user_of demo_user),
       snd (handleLogin (\<lambda>m. m) (=) hour (Some ''r'') 0 ''admin'' ''pw'' demo_auth))"
  proof -
    have "''abc'' \<noteq> base64url ''r''" by code_simp
    then show ?thesis
      by (simp add: handleLogin_def Authenticate_def MFAEnabled_def CreateSession_def randomID_def
          token_clash_def demo_auth_def demo_user_def query_row_def totp_secret_def user_of_def)
  qed
  from login_respects_second_factor [OF _ this] show ?thesis
    by (simp add: demo_auth_def user_of_def demo_user_def)
qed

text \<open>
  The endpoint ignores the error of MFAEnabled: when that one statement fails, a user with a
  TOTP secret is logged in with the password alone.
\<close>

definition demo_mfa :: auth_db where
  "demo_mfa = demo_auth\<lparr>users := \<lparr>rows = [demo_user\<lparr>us_totp := Some ''JBSWY3DP''\<rparr>], rowseq = 1\<rparr>\<rparr>"

lemma second_factor_fails_open:
  "totp_secret 1 demo_mfa = Some (Some ''JBSWY3DP'')"
  "\<exists>cookie u. fst (handleLogin (\<lambda>m. m) (=) hour (Some ''r'') 0 ''admin'' ''pw''
     (demo_mfa\<lparr>faults := [None, Some ''database is locked'']\<rparr>)) = Session cookie u"
proof -
  have "''abc'' \<noteq> base64url ''r''" by code_simp
  then show "\<exists>cookie u. fst (handleLogin (\<lambda>m. m) (=) hour (Some ''r'') 0 ''admin'' ''pw''
     (demo_mfa\<lparr>faults := [None, Some ''database is locked'']\<rparr>)) = Session cookie u"
    by (simp add: handleLogin_def Authenticate_def MFAEnabled_def CreateSession_def randomID_def
        token_clash_def demo_mfa_def demo_auth_def demo_user_def query_row_def exec_def stmt_def user_of_def)
qed (simp add: demo_mfa_def demo_auth_def demo_user_def totp_secret_def query_row_def)

lemma no_challenge:
  assumes "i \<notin> tok_ids ChallengeTok s"
  shows "fst (RedeemMFAChallenge hmac1 now now2 i code s) \<noteq> Inr u"
proof -
  have "post (\<lambda>r _. r \<noteq> Inr u) (RedeemMFAChallenge hmac1 now now2 i code s)"
    unfolding RedeemMFAChallenge_def using assms
    by (auto simp: token_join_None tok_ids_def intro!: post_exec)
  then show ?thesis by (simp add: post_def split: prod.splits)
qed

text \<open>The third statement of a redemption is the DELETE of the challenge; its error is ignored.\<close>

definition delete_works :: "auth_db \<Rightarrow> bool" where
  "delete_works s \<longleftrightarrow> (case drop 2 (faults s) of [] \<Rightarrow> True | f # _ \<Rightarrow> f = None)"

lemma exec_ok:
  "exec err s f = (Inr r, s') \<Longrightarrow> f (s\<lparr>faults := drop 1 (faults s)\<rparr>) = (Inr r, s')"
proof (cases "faults s")
  case Nil
  then have e: "s\<lparr>faults := []\<rparr> = s" by (cases s) simp
  have "f (s\<lparr>faults := []\<rparr>) = exec err s f" unfolding e using Nil by (simp add: exec_def stmt_def)
  then show "exec err s f = (Inr r, s') \<Longrightarrow> ?thesis" using Nil by (metis drop_Nil)
qed (auto simp: exec_def stmt_def split: option.splits)

lemma redeemed:
  assumes "RedeemMFAChallenge hmac1 now now2 i code s = (Inr u, s')"
  obtains t row secret where "token_join i (mfa_challenges s) (users s) = Some (t, row)"
    "now \<le> of_stamp (tk_expires t)" "u = user_of row" "totp_secret (us_id row) s = Some (Some secret)"
    "VerifyTOTP hmac1 now2 secret code" "s' = drop_challenge i (s\<lparr>faults := drop 2 (faults s)\<rparr>)"
proof -
  let ?s = "s\<lparr>faults := drop 1 (faults s)\<rparr>"
  note m = exec_ok [OF assms [unfolded RedeemMFAChallenge_def]]
  then obtain t row where j: "token_join i (mfa_challenges s) (users s) = Some (t, row)"
    "\<not> of_stamp (tk_expires t) < now"
    by (auto split: option.splits if_splits)
  with m obtain s2 where a: "AuthenticateMFA hmac1 now2 (us_id row) code ?s = (Inr (), s2)"
    and s': "u = user_of row" "s' = drop_challenge i s2"
    by (auto simp: and_then_def split: prod.splits sum.splits)
  from exec_ok [OF a [unfolded AuthenticateMFA_def]] obtain secret where
    "totp_secret (us_id row) s = Some (Some secret)" "VerifyTOTP hmac1 now2 secret code"
    "s2 = s\<lparr>faults := drop 2 (faults s)\<rparr>"
    by (auto simp: totp_secret_def numeral_2_eq_2 split: option.splits if_splits)
  with j s' that show thesis by (auto simp: not_less)
qed

text \<open>C17: A successful redemption found the challenge stored and not expired, and the code was valid for
  its user's secret. When its DELETE worked the challenge is used up: whatever requests come later and
  whichever of their statements fail, no redemption of it succeeds and it opens no session, unless a later
  random draw repeats its identifier.\<close>
theorem challenge_redeemed_once:
  assumes "RedeemMFAChallenge hmac1 now now2 i code s = (Inr u, s')" and "delete_works s"
    and "\<forall>c \<in> set cs. i \<notin> draws c"
  shows "(\<exists>t row secret. token_join i (mfa_challenges s) (users s) = Some (t, row) \<and>
      now \<le> of_stamp (tk_expires t) \<and> u = user_of row \<and>
      totp_secret (us_id row) s = Some (Some secret) \<and> VerifyTOTP hmac1 now2 secret code) \<and>
    fst (RedeemMFAChallenge hmac1 l1 l2 i code' (fold (auth_do hmac hmac1 checkpw life) cs s')) \<noteq> Inr v \<and>
    fst (handleMFAVerify hmac hmac1 life rnd l1 l2 l3 i code'
      (fold (auth_do hmac hmac1 checkpw life) cs s')) \<noteq> Session cookie v'"
proof -
  from redeemed [OF assms(1)] obtain t row secret where
    r: "token_join i (mfa_challenges s) (users s) = Some (t, row)" "now \<le> of_stamp (tk_expires t)"
      "u = user_of row" "totp_secret (us_id row) s = Some (Some secret)" "VerifyTOTP hmac1 now2 secret code"
    and s': "s' = drop_challenge i (s\<lparr>faults := drop 2 (faults s)\<rparr>)" .
  let ?later = "fold (auth_do hmac hmac1 checkpw life) cs s'"
  have "tok_ids ChallengeTok s' \<subseteq> - {i}"
    using assms(2)
    by (auto simp: s' drop_challenge_def exec_quiet_def stmt_def delete_works_def tok_ids_def drop_token_def
        split: list.splits option.splits)
  then have "tok_ids ChallengeTok ?later \<subseteq> - {i}"
    using assms(3) by (intro ids_auth_run) auto
  then have n: "fst (RedeemMFAChallenge hmac1 l1 l2 i code' ?later) \<noteq> Inr v" for v
    by (intro no_challenge) auto
  have "fst (handleMFAVerify hmac hmac1 life rnd l1 l2 l3 i code' ?later) \<noteq> Session cookie v'"
    using n [of v'] by (auto simp: handleMFAVerify_def split: prod.splits sum.splits)
  with n r show ?thesis by blast
qed

definition demo_mfa_secret :: auth_db where
  "demo_mfa_secret = demo_auth\<lparr>users := \<lparr>rows = [demo_user\<lparr>us_totp := Some (base32 demo_secret_bytes)\<rparr>],
     rowseq = 1\<rparr>\<rparr>"

text \<open>The code of \<open>totp\<close> at time 0 redeems the challenge.\<close>

lemma demo_redeem:
  "fst (RedeemMFAChallenge (\<lambda>k m. k) 0 0 ''ch'' (totp (\<lambda>k m. k) demo_secret_bytes 0) demo_mfa_secret) =
   Inr (user_of demo_user)"
proof -
  have l: "length demo_secret_bytes = 20" by (simp add: demo_secret_bytes_def)
  have g: "GenerateTOTPSecret (Some demo_secret_bytes) = Some (base32 demo_secret_bytes)"
    using base32_groups [of demo_secret_bytes] l by (simp add: GenerateTOTPSecret_def base32_plain(1))
  have v: "VerifyTOTP (\<lambda>k m. k) 0 (base32 demo_secret_bytes) (totp (\<lambda>k m. k) demo_secret_bytes 0)"
    using l g by (rule secret_verifies) (simp add: totp_counter_def rfc3339_def totpPeriod_def)
  have ne: "base32 demo_secret_bytes \<noteq> []"
  proof
    assume "base32 demo_secret_bytes = []"
    with base32_groups [of demo_secret_bytes] l have "demo_secret_bytes = []" by simp
    with l show False by simp
  qed
  show ?thesis
    using v ne
    by (simp add: RedeemMFAChallenge_def demo_mfa_secret_def demo_auth_def token_join_def query_row_def
        demo_user_def AuthenticateMFA_def totp_secret_def user_of_def of_stamp_def second_def)
qed

lemma challenge_redeemed_once_witness:
  "let s = snd (RedeemMFAChallenge (\<lambda>k m. k) 0 0 ''ch'' (totp (\<lambda>k m. k) demo_secret_bytes 0) demo_mfa_secret)
   in \<forall>v. fst (RedeemMFAChallenge (\<lambda>k m. k) second second ''ch'' ''123456''
     (fold (auth_do (\<lambda>m. m) (\<lambda>k m. k) (=) hour) [ALogin (Some ''r'') 0 ''admin'' ''pw''] s)) \<noteq> Inr v"
proof -
  let ?m = "RedeemMFAChallenge (\<lambda>k m. k) 0 0 ''ch'' (totp (\<lambda>k m. k) demo_secret_bytes 0) demo_mfa_secret"
  have f: "faults demo_mfa_secret = []" by (simp add: demo_mfa_secret_def demo_auth_def)
  have m: "?m = (Inr (user_of demo_user), snd ?m)" by (metis demo_redeem prod.collapse)
  have d: "delete_works demo_mfa_secret" by (simp add: delete_works_def f)
  have "base64url ''r'' \<noteq> ''ch''" by code_simp
  then have "\<forall>c \<in> set [ALogin (Some ''r'') 0 ''admin'' ''pw'']. ''ch'' \<notin> draws c" by simp
  from challenge_redeemed_once [OF m d this] show ?thesis unfolding Let_def by blast
qed

text \<open>The error of the DELETE is ignored: when that statement fails the challenge stays, and a later
  request with the same code redeems it again.\<close>

lemma challenge_redeemed_again:
  assumes "RedeemMFAChallenge hmac1 now now2 i code s = (Inr u, s')" and "faults s = [None, None, Some e]"
  shows "RedeemMFAChallenge hmac1 now now2 i code s' = (Inr u, drop_challenge i s')"
proof -
  from redeemed [OF assms(1)] obtain t row secret where
    r: "token_join i (mfa_challenges s) (users s) = Some (t, row)" "now \<le> of_stamp (tk_expires t)"
      "u = user_of row" "totp_secret (us_id row) s = Some (Some secret)" "VerifyTOTP hmac1 now2 secret code"
    and "s' = drop_challenge i (s\<lparr>faults := drop 2 (faults s)\<rparr>)" .
  then have "s' = s\<lparr>faults := []\<rparr>"
    using assms(2) by (simp add: drop_challenge_def exec_quiet_def stmt_def)
  with r show ?thesis
    by (auto simp: RedeemMFAChallenge_def AuthenticateMFA_def totp_secret_def)
qed

text \<open>
  Bootstrap is not one transaction: when the tenant was stored but the admin was not, every
  later attempt fails on the tenant's unique name.
\<close>

lemma bootstrap_stuck:
  assumes "rows (users s) = []" and "list_ex (\<lambda>(_, name, _). name = ''default'') (rows (tenant_tbl s))"
    and "faults s = []"
  shows "EnsureBootstrapAdmin hashpw rnd now preset s = (Inl (AuthDB ''UNIQUE constraint failed''), s)"
  using assms by (simp add: EnsureBootstrapAdmin_def)

end
