(* ===== verification/ApiTokens.thy ===== *)
theory ApiTokens
  imports Auth
begin

text \<open>
  Long-lived API tokens (\<open>internal/apitokens/apitokens.go\<close>): issue, authentication, listing and
  revocation over the \<open>api_tokens\<close> table. bcrypt is a parameter (\<open>hashpw\<close>, \<open>checkpw\<close>); the two
  random draws of a token are arguments.
\<close>

record api_token =
  at_ID :: int
  at_TenantID :: int
  at_OwnerUserID :: int
  at_Name :: string
  at_Prefix :: string
  at_Scopes :: "string list"
  at_CreatedAt :: time
  at_ExpiresAt :: "time option"
  at_LastUsedAt :: "time option"
  at_RevokedAt :: "time option"

record api_row =
  ar_id :: int
  ar_tenant :: int
  ar_owner :: int
  ar_name :: string
  ar_prefix :: string
  ar_hash :: string
  ar_scopes :: string
  ar_created :: stamp
  ar_expires :: "stamp option"
  ar_used :: "stamp option"
  ar_revoked :: "stamp option"

record token_db = conn +
  api_tokens :: "api_row sql_table"

datatype token_err = TokNotFound | TokInvalid | TokInput string | TokRand | TokHash string | TokDB string

definition maxNameBytes :: nat where "maxNameBytes = 128"
definition prefixLen :: nat where "prefixLen = 12"

section \<open>Scopes and the token's text\<close>

fun normalise_from :: "string list \<Rightarrow> string list \<Rightarrow> string list" where
  "normalise_from seen [] = []"
| "normalise_from seen (x # xs) =
     (let s = trim_space x in
      if s = [] \<or> s \<in> set seen then normalise_from seen xs
      else s # normalise_from (s # seen) xs)"

definition normaliseScopes :: "string list \<Rightarrow> string list" where
  "normaliseScopes xs = normalise_from [] xs"

definition parseScopes :: "string \<Rightarrow> string list" where
  "parseScopes raw = (let raw = trim_space raw in
     if raw = [] then [] else filter (\<lambda>p. p \<noteq> []) (map trim_space (split_char CHR '','' raw)))"

definition HasScope :: "string list \<Rightarrow> string \<Rightarrow> bool" where
  "HasScope scopes want \<longleftrightarrow> list_ex (\<lambda>s. s = want \<or> s = ''*'') scopes"

definition formatToken :: "string \<Rightarrow> string \<Rightarrow> string" where
  "formatToken prefix secret = ''nmt'' @ ''_'' @ prefix @ ''_'' @ secret"

definition parseToken :: "string \<Rightarrow> (string \<times> string) option" where
  "parseToken s = (case splitn_char 3 CHR ''_'' s of
     [a, b, c] \<Rightarrow> if a \<noteq> ''nmt'' \<or> b = [] \<or> c = [] then None else Some (b, c)
   | _ \<Rightarrow> None)"

definition generate :: "string option \<Rightarrow> string option \<Rightarrow> (string \<times> string) option" where
  "generate r1 r2 = (case r1 of
     None \<Rightarrow> None
   | Some pb \<Rightarrow>
       (let p = trim_right_set [CHR ''=''] (base32 pb);
            p = to_lower (if length p > prefixLen then take prefixLen p else p)
        in map_option (\<lambda>sb. (p, base64url sb)) r2))"

section \<open>Operations\<close>

definition token_of :: "api_row \<Rightarrow> api_token" where
  "token_of r = \<lparr>at_ID = ar_id r, at_TenantID = ar_tenant r, at_OwnerUserID = ar_owner r,
     at_Name = ar_name r, at_Prefix = ar_prefix r, at_Scopes = parseScopes (ar_scopes r),
     at_CreatedAt = of_stamp (ar_created r), at_ExpiresAt = map_option of_stamp (ar_expires r),
     at_LastUsedAt = map_option of_stamp (ar_used r), at_RevokedAt = map_option of_stamp (ar_revoked r)\<rparr>"

definition Issue ::
  "(string \<Rightarrow> string + string) \<Rightarrow> string option \<Rightarrow> string option \<Rightarrow> time \<Rightarrow> int \<Rightarrow> int \<Rightarrow> string
    \<Rightarrow> string list \<Rightarrow> time option \<Rightarrow> token_db \<Rightarrow> (token_err + (api_token \<times> string)) \<times> token_db" where
  "Issue hashpw r1 r2 now tenant owner nm scopes expires s =
     (let name = trim_space nm in
      if tenant \<le> 0 \<or> owner \<le> 0 then (Inl (TokInput ''tenant and owner required''), s)
      else if name = [] \<or> length name > maxNameBytes then (Inl (TokInput ''name length''), s)
      else (case generate r1 r2 of
        None \<Rightarrow> (Inl TokRand, s)
      | Some (prefix, secret) \<Rightarrow> (case hashpw secret of
          Inl e \<Rightarrow> (Inl (TokHash e), s)
        | Inr hash \<Rightarrow> exec TokDB s (\<lambda>s.
            if list_ex (\<lambda>r. ar_prefix r = prefix \<or> ar_tenant r = tenant \<and> ar_name r = name)
                 (rows (api_tokens s))
            then (Inl (TokDB ''UNIQUE constraint failed''), s)
            else (let n = next_rowid (api_tokens s) in
              (Inr (\<lparr>at_ID = n, at_TenantID = tenant, at_OwnerUserID = owner, at_Name = name,
                     at_Prefix = prefix, at_Scopes = normaliseScopes scopes, at_CreatedAt = now,
                     at_ExpiresAt = expires, at_LastUsedAt = None, at_RevokedAt = None\<rparr>,
                    formatToken prefix secret),
               s\<lparr>api_tokens := insert_row (\<lambda>n. \<lparr>ar_id = n, ar_tenant = tenant, ar_owner = owner,
                    ar_name = name, ar_prefix = prefix, ar_hash = hash,
                    ar_scopes = str_join '','' (normaliseScopes scopes), ar_created = rfc3339 now,
                    ar_expires = map_option rfc3339 expires, ar_used = None, ar_revoked = None\<rparr>)
                    (api_tokens s),
                 last_rowid := n\<rparr>))))))"

definition token_expired :: "time \<Rightarrow> api_row \<Rightarrow> bool" where
  "token_expired now r = (case ar_expires r of
     None \<Rightarrow> False | Some e \<Rightarrow> of_stamp e \<noteq> zero_time \<and> of_stamp e < now)"

definition touch :: "time \<Rightarrow> int \<Rightarrow> token_db \<Rightarrow> token_db" where
  "touch now i s = exec_quiet s (\<lambda>s. s\<lparr>api_tokens :=
     update_rows (\<lambda>r. ar_id r = i) (\<lambda>r. r\<lparr>ar_used := Some (rfc3339 now)\<rparr>) (api_tokens s)\<rparr>)"

definition TokAuthenticate ::
  "(string \<Rightarrow> string \<Rightarrow> bool) \<Rightarrow> time \<Rightarrow> string \<Rightarrow> token_db \<Rightarrow> (token_err + api_token) \<times> token_db" where
  "TokAuthenticate checkpw now presented s = (case parseToken presented of
     None \<Rightarrow> (Inl TokInvalid, s)
   | Some (prefix, secret) \<Rightarrow> exec TokDB s (\<lambda>s.
       case query_row (\<lambda>r. ar_prefix r = prefix) (api_tokens s) of
         None \<Rightarrow> (Inl TokInvalid, s)
       | Some r \<Rightarrow>
           if ar_revoked r \<noteq> None then (Inl TokInvalid, s)
           else if token_expired now r then (Inl TokInvalid, s)
           else if \<not> checkpw (ar_hash r) secret then (Inl TokInvalid, s)
           else (Inr (token_of r), touch now (ar_id r) s)))"

definition TokList :: "int \<Rightarrow> token_db \<Rightarrow> (token_err + api_token list) \<times> token_db" where
  "TokList tenant s = exec TokDB s (\<lambda>s.
     (Inr (map token_of (order_desc ar_id (filter (\<lambda>r. ar_tenant r = tenant) (rows (api_tokens s))))), s))"

definition Revoke :: "time \<Rightarrow> int \<Rightarrow> int \<Rightarrow> token_db \<Rightarrow> (token_err + unit) \<times> token_db" where
  "Revoke now tenant i s = exec TokDB s (\<lambda>s.
     let P = (\<lambda>r. ar_tenant r = tenant \<and> ar_id r = i \<and> ar_revoked r = None) in
     if affected P (api_tokens s) = 0 then (Inl TokNotFound, s)
     else (Inr (), s\<lparr>api_tokens := update_rows P (\<lambda>r. r\<lparr>ar_revoked := Some (rfc3339 now)\<rparr>) (api_tokens s)\<rparr>))"

section \<open>A token's text reads back\<close>

lemma splitn_3: "CHR ''_'' \<notin> set p \<Longrightarrow>
    splitn_char 3 CHR ''_'' (''nmt_'' @ p @ CHR ''_'' # s) = [''nmt'', p, s]"
  by (simp add: numeral_3_eq_3 takeWhile_append dropWhile_append)

lemma parse_format:
  "CHR ''_'' \<notin> set p \<Longrightarrow> p \<noteq> [] \<Longrightarrow> s \<noteq> [] \<Longrightarrow> parseToken (formatToken p s) = Some (p, s)"
  using splitn_3 [of p s] by (simp add: parseToken_def formatToken_def)

text \<open>A scope that contains a comma is stored as several scopes.\<close>

lemma scope_with_comma:
  "parseScopes (str_join '','' (normaliseScopes [''read:x,apply:direct''])) = [''read:x'', ''apply:direct'']"
  by code_simp

section \<open>Invariant and history of the table\<close>

definition tok_inv :: "token_db \<Rightarrow> bool" where
  "tok_inv s \<longleftrightarrow> wf_table ar_id (api_tokens s) \<and> distinct (map ar_prefix (rows (api_tokens s)))"

text \<open>A row keeps its identity, owner, secret and scopes, and a revocation is never undone.\<close>

definition row_kept :: "api_row \<Rightarrow> api_row \<Rightarrow> bool" where
  "row_kept r r' \<longleftrightarrow> ar_id r' = ar_id r \<and> ar_prefix r' = ar_prefix r \<and> ar_tenant r' = ar_tenant r \<and>
     ar_owner r' = ar_owner r \<and> ar_hash r' = ar_hash r \<and> ar_scopes r' = ar_scopes r \<and>
     (ar_revoked r \<noteq> None \<longrightarrow> ar_revoked r' = ar_revoked r)"

lemma row_kept_refl [simp]: "row_kept r r"
  by (simp add: row_kept_def)

lemma row_kept_trans: "row_kept a b \<Longrightarrow> row_kept b c \<Longrightarrow> row_kept a c"
  by (simp add: row_kept_def)

definition tok_next :: "token_db \<Rightarrow> token_db \<Rightarrow> bool" where
  "tok_next s s' \<longleftrightarrow> tok_inv s' \<and> rows_follow row_kept (api_tokens s) (api_tokens s')"

lemma tok_next_refl: "tok_inv s \<Longrightarrow> tok_next s (s\<lparr>faults := fs\<rparr>)"
  by (simp add: tok_next_def tok_inv_def rows_follow_refl)

lemma tok_next_update:
  assumes "tok_inv s" and "api_tokens s' = update_rows P f (api_tokens s)" and "\<And>r. P r \<Longrightarrow> row_kept r (f r)"
  shows "tok_next s s'"
proof -
  have "ar_prefix (f r) = ar_prefix r" "ar_id (f r) = ar_id r" if "P r" for r
    using assms(3) [OF that] by (simp_all add: row_kept_def)
  with assms distinct_update [of P ar_prefix f "api_tokens s"] show ?thesis
    by (simp only: tok_next_def tok_inv_def wf_update_rows rows_follow_update row_kept_refl simp_thms)
qed

lemma tok_next_changes:
  assumes "tok_inv s"
  shows "tok_next s (s\<lparr>faults := fs, api_tokens :=
      update_rows P (\<lambda>r. r\<lparr>ar_used := v\<rparr>) (api_tokens s)\<rparr>)"
    and "tok_next s (s\<lparr>faults := fs, api_tokens :=
      update_rows (\<lambda>r. ar_tenant r = t \<and> ar_id r = i \<and> ar_revoked r = None) (\<lambda>r. r\<lparr>ar_revoked := v\<rparr>) (api_tokens s)\<rparr>)"
  by (rule tok_next_update [OF assms], simp, simp add: row_kept_def)+

lemma Issue_next: "tok_inv s \<Longrightarrow> post (\<lambda>_. tok_next s) (Issue hashpw r1 r2 now t ow nm scs ex s)"
  using tok_next_refl [of s "faults s"]
  unfolding Issue_def Let_def
  by (auto split: option.splits sum.splits simp: tok_next_refl list_ex_iff intro!: post_exec)
    (auto simp: tok_next_def tok_inv_def wf_insert_row distinct_insert rows_follow_insert)

lemma Auth_next: "tok_inv s \<Longrightarrow> post (\<lambda>_. tok_next s) (TokAuthenticate checkpw now presented s)"
  using tok_next_refl [of s "faults s"]
  unfolding TokAuthenticate_def touch_def
  by (auto split: option.splits simp: tok_next_refl tok_next_changes
      intro!: post_exec exec_quiet_post [where Q = "tok_next s"])

lemma List_next: "tok_inv s \<Longrightarrow> post (\<lambda>_. tok_next s) (TokList t s)"
  unfolding TokList_def by (auto simp: tok_next_refl intro!: post_exec)

lemma Revoke_next: "tok_inv s \<Longrightarrow> post (\<lambda>_. tok_next s) (Revoke now t i s)"
  unfolding Revoke_def Let_def
  by (auto simp: tok_next_refl tok_next_changes intro!: post_exec)

datatype tok_cmd =
  TIssue "string option" "string option" time int int string "string list" "time option"
| TAuth time string
| TList int
| TRevoke time int int

fun tok_do ::
  "(string \<Rightarrow> string + string) \<Rightarrow> (string \<Rightarrow> string \<Rightarrow> bool) \<Rightarrow> tok_cmd \<Rightarrow> token_db \<Rightarrow> token_db" where
  "tok_do h c (TIssue r1 r2 now t ow nm scs ex) s = snd (Issue h r1 r2 now t ow nm scs ex s)"
| "tok_do h c (TAuth now p) s = snd (TokAuthenticate c now p s)"
| "tok_do h c (TList t) s = snd (TokList t s)"
| "tok_do h c (TRevoke now t i) s = snd (Revoke now t i s)"

lemma tok_do_next: "tok_inv s \<Longrightarrow> tok_next s (tok_do h c cmd s)"
  using Issue_next Auth_next List_next Revoke_next by (cases cmd) (simp_all add: post_snd)

lemma tok_run_next: "tok_inv s \<Longrightarrow> tok_next s (fold (tok_do h c) cmds s)"
proof (induction cmds arbitrary: s)
  case Nil
  then show ?case using tok_next_refl [of s "faults s"] by simp
next
  case (Cons cmd cmds)
  have 1: "tok_next s (tok_do h c cmd s)" using Cons.prems by (rule tok_do_next)
  with Cons.IH have "tok_next (tok_do h c cmd s) (fold (tok_do h c) cmds (tok_do h c cmd s))"
    by (simp add: tok_next_def)
  with 1 show ?case
    using rows_follow_trans [where R = row_kept, OF _ _ row_kept_trans] by (auto simp: tok_next_def)
qed

section \<open>Who gets in\<close>

lemma Auth_ok:
  "post (\<lambda>r _. \<forall>tok. r = Inr tok \<longrightarrow> (\<exists>p secret row. parseToken presented = Some (p, secret) \<and>
     query_row (\<lambda>r. ar_prefix r = p) (api_tokens s) = Some row \<and> ar_revoked row = None \<and>
     \<not> token_expired now row \<and> checkpw (ar_hash row) secret \<and> tok = token_of row))
   (TokAuthenticate checkpw now presented s)"
  unfolding TokAuthenticate_def
  by (auto split: option.splits intro!: post_exec)

text \<open>C18: Revocation is final: after a successful Revoke of a tenant's token no run of the service,
  whichever statements fail, ends in a state where a text with that token's prefix
  authenticates.\<close>
theorem revoked_stays_revoked:
  assumes "tok_inv s" and "Revoke now tenant i s = (Inr (), s1)"
    and "row \<in> set (rows (api_tokens s))" and "ar_id row = i"
    and "parseToken presented = Some (ar_prefix row, secret)"
  shows "fst (TokAuthenticate checkpw later presented (fold (tok_do hashpw checkpw) cmds s1)) \<noteq> Inr tok"
proof
  assume ok: "fst (TokAuthenticate checkpw later presented (fold (tok_do hashpw checkpw) cmds s1)) = Inr tok"
  let ?P = "\<lambda>r. ar_tenant r = tenant \<and> ar_id r = i \<and> ar_revoked r = None"
  have s1: "tok_inv s1"
    using Revoke_next [OF assms(1), of now tenant i] assms(2) by (simp add: tok_next_def)
  have "post (\<lambda>r s'. r = Inr () \<longrightarrow> affected ?P (api_tokens s) \<noteq> 0 \<and> api_tokens s' =
      update_rows ?P (\<lambda>r. r\<lparr>ar_revoked := Some (rfc3339 now)\<rparr>) (api_tokens s)) (Revoke now tenant i s)"
    unfolding Revoke_def Let_def by (auto intro!: post_exec)
  with assms(2) have up: "affected ?P (api_tokens s) \<noteq> 0"
    "api_tokens s1 = update_rows ?P (\<lambda>r. r\<lparr>ar_revoked := Some (rfc3339 now)\<rparr>) (api_tokens s)" by auto
  then obtain r where r: "r \<in> set (rows (api_tokens s))" "?P r" by (auto simp: affected_0_iff)
  then have "r = row" using wf_table_unique(1) [of ar_id "api_tokens s" r row] assms(1,3,4)
    by (simp add: tok_inv_def)
  with r up(2) have "\<exists>r1 \<in> set (rows (api_tokens s1)). ar_prefix r1 = ar_prefix row \<and> ar_revoked r1 \<noteq> None"
    by (intro bexI [of _ "row\<lparr>ar_revoked := Some (rfc3339 now)\<rparr>"]) (auto simp: image_iff)
  then obtain r1 where r1: "r1 \<in> set (rows (api_tokens s1))" "ar_prefix r1 = ar_prefix row"
    "ar_revoked r1 \<noteq> None" by blast
  let ?e = "fold (tok_do hashpw checkpw) cmds s1"
  have e: "tok_inv ?e" "rows_follow row_kept (api_tokens s1) (api_tokens ?e)"
    using tok_run_next [OF s1] by (simp_all add: tok_next_def)
  from e(2) r1(1) obtain r2 where r2: "r2 \<in> set (rows (api_tokens ?e))" "row_kept r1 r2"
    by (rule rows_followE)
  from Auth_ok [of presented ?e later checkpw] ok assms(5) obtain row' where
    row': "query_row (\<lambda>r. ar_prefix r = ar_prefix row) (api_tokens ?e) = Some row'" "ar_revoked row' = None"
    by (auto simp: post_def split: prod.splits)
  then have "row' \<in> set (rows (api_tokens ?e))" "ar_prefix row' = ar_prefix r2"
    using r1 r2 by (auto dest: query_row_SomeD simp: row_kept_def)
  with r2(1) e(1) have "row' = r2" by (auto simp: tok_inv_def distinct_map inj_on_def)
  with row'(2) r1(3) r2(2) show False by (simp add: row_kept_def)
qed

definition demo_token :: api_row where
  "demo_token = \<lparr>ar_id = 1, ar_tenant = 1, ar_owner = 1, ar_name = ''ci'', ar_prefix = ''p'', ar_hash = ''s'',
     ar_scopes = '''', ar_created = 0, ar_expires = None, ar_used = None, ar_revoked = None\<rparr>"

definition demo_tokens :: token_db where
  "demo_tokens = \<lparr>faults = [], last_rowid = 1, api_tokens = \<lparr>rows = [demo_token], rowseq = 1\<rparr>\<rparr>"

lemma revoked_stays_revoked_witness:
  "fst (TokAuthenticate (=) 5 (formatToken ''p'' ''s'') demo_tokens) = Inr (token_of demo_token) \<and>
   (\<forall>tok. fst (TokAuthenticate (=) 9 (formatToken ''p'' ''s'')
     (fold (tok_do Inr (=)) [TAuth 8 (formatToken ''p'' ''s'')] (snd (Revoke 7 1 1 demo_tokens)))) \<noteq> Inr tok)"
proof -
  have i: "tok_inv demo_tokens"
    by (simp add: tok_inv_def demo_tokens_def demo_token_def wf_table_def)
  have r: "Revoke 7 1 1 demo_tokens = (Inr (), snd (Revoke 7 1 1 demo_tokens))"
    by (simp add: Revoke_def demo_tokens_def demo_token_def affected_def)
  have p: "parseToken (formatToken ''p'' ''s'') = Some (ar_prefix demo_token, ''s'')"
    by (simp add: parse_format demo_token_def)
  have "demo_token \<in> set (rows (api_tokens demo_tokens))" "ar_id demo_token = 1"
    by (simp_all add: demo_tokens_def demo_token_def)
  note no = revoked_stays_revoked [OF i r this p, of "(=)" 9 Inr "[TAuth 8 (formatToken ''p'' ''s'')]"]
  have "fst (TokAuthenticate (=) 5 (formatToken ''p'' ''s'') demo_tokens) = Inr (token_of demo_token)"
    using p by (simp add: TokAuthenticate_def demo_tokens_def demo_token_def query_row_def token_expired_def)
  with no show ?thesis by blast
qed

end
