(* ===== verification/ApiChange.thy ===== *)
theory ApiChange
  imports ChangeReq ApiTokens
begin

text \<open>
  The HTTP endpoints of the approval workflow, the device rollback and the guarded direct push
  (\<open>internal/api/handlers_features.go\<close>), and the authentication middleware in front of them
  (\<open>authH\<close>, \<open>requireWrite\<close>, \<open>requireAdmin\<close> of \<open>internal/api/server.go\<close>). A handler takes
  the caller, the decoded input and the parsed path id and gives the status code; what it
  runs on devices and what it audits is logged in the state. Push automation, the device
  registry, the config store and the device executor are parameters.
\<close>

section \<open>Authentication middleware\<close>

text \<open>\<open>bearerFromHeader\<close>; the empty string when there is no bearer token.\<close>

definition bearerFromHeader :: "string \<Rightarrow> string" where
  "bearerFromHeader h =
     (if h = [] then [] else if \<not> has_prefix h ''Bearer '' then []
      else trim_space (drop 7 h))"

definition userFromAPIToken :: "(auth_db \<times> token_db) \<Rightarrow> api_token \<Rightarrow> User option \<times> auth_db" where
  "userFromAPIToken = (\<lambda>(a, t) tok. (case exec AuthDB a (\<lambda>a.
       case query_row (\<lambda>r. us_id r = at_OwnerUserID tok \<and> us_tenant r = at_TenantID tok) (users a) of
         None \<Rightarrow> (Inl (AuthDB ''no rows''), a)
       | Some r \<Rightarrow> (Inr (user_of r), a)) of
     (Inl _, a) \<Rightarrow> (None, a)
   | (Inr u, a) \<Rightarrow> (Some u, a)))"

text \<open>\<open>authH\<close>: the user and the token's scopes, or \<open>None\<close> for 401. \<open>tokens\<close> says whether the token
  service is configured; \<open>cookie\<close> is the session cookie of the request, if any.\<close>

definition auth_cookie ::
  "(string \<Rightarrow> string) \<Rightarrow> time \<Rightarrow> string option \<Rightarrow> auth_db \<Rightarrow> (User \<times> string list) option \<times> auth_db" where
  "auth_cookie hmac now cookie a = (case cookie of
     None \<Rightarrow> (None, a)
   | Some c \<Rightarrow> (case LookupSession hmac now c a of
       (Inl _, a) \<Rightarrow> (None, a) | (Inr u, a) \<Rightarrow> (Some (u, []), a)))"

definition authH ::
  "(string \<Rightarrow> string) \<Rightarrow> (string \<Rightarrow> string \<Rightarrow> bool) \<Rightarrow> bool \<Rightarrow> time \<Rightarrow> string \<Rightarrow> string option
    \<Rightarrow> auth_db \<times> token_db \<Rightarrow> (User \<times> string list) option \<times> auth_db \<times> token_db" where
  "authH hmac checkpw tokens now header cookie = (\<lambda>(a, t).
     let tok = bearerFromHeader header;
         by_cookie = (\<lambda>a t. let (r, a) = auth_cookie hmac now cookie a in (r, a, t))
     in if tok \<noteq> [] \<and> tokens
        then (case TokAuthenticate checkpw now tok t of
                (Inl _, t) \<Rightarrow> by_cookie a t
              | (Inr at, t) \<Rightarrow> (case userFromAPIToken (a, t) at of
                  (Some u, a) \<Rightarrow> (Some (u, at_Scopes at), a, t)
                | (None, a) \<Rightarrow> by_cookie a t))
        else by_cookie a t)"

definition requireWrite :: "User option \<Rightarrow> bool" where
  "requireWrite u = (case u of None \<Rightarrow> False | Some u \<Rightarrow> CanWrite (u_Role u))"

definition requireAdmin :: "User option \<Rightarrow> bool" where
  "requireAdmin u = (case u of None \<Rightarrow> False | Some u \<Rightarrow> u_Role u = RoleAdmin)"

text \<open>\<open>handleRunPushGuarded\<close>: whether the direct push runs.\<close>

definition handleRunPushGuarded :: "User option \<Rightarrow> string list \<Rightarrow> bool" where
  "handleRunPushGuarded u scopes = (case u of
     None \<Rightarrow> False | Some u \<Rightarrow> u_Role u = RoleAdmin \<or> HasScope scopes ''apply:direct'')"

section \<open>State and executors\<close>

datatype device_run = PushRun int int | RollbackRun int int string

record api_world =
  w_db :: change_db
  w_runs :: "device_run list"
  w_audit :: "(int \<times> int \<times> string \<times> string \<times> string) list"

text \<open>The collaborators: \<open>Automation.Run\<close> (\<open>None\<close> when not configured) gives status, host name and
  error of each device; the executor is absent or takes the device and the text to apply. The
  quotes of \<open>%q\<close> are written out for a kind without characters to escape.\<close>

datatype lookup_err = LNotFound | LOther string

record 'd collaborators =
  run_push :: "(int \<Rightarrow> int \<Rightarrow> string + (string \<times> string \<times> string) list) option"
  get_device :: "int \<Rightarrow> int \<Rightarrow> lookup_err + 'd"
  device_name :: "'d \<Rightarrow> string"
  device_id :: "'d \<Rightarrow> int"
  executor :: "('d \<Rightarrow> string \<Rightarrow> string + string) option"
  read_version :: "int \<Rightarrow> int \<Rightarrow> string \<Rightarrow> string \<Rightarrow> lookup_err + string"

definition lookup_text :: "lookup_err \<Rightarrow> string" where
  "lookup_text e = (case e of LNotFound \<Rightarrow> ''devices: not found'' | LOther m \<Rightarrow> m)"

definition recordAudit :: "User \<Rightarrow> string \<Rightarrow> string \<Rightarrow> string \<Rightarrow> api_world \<Rightarrow> api_world" where
  "recordAudit u action tgt detail w =
     w\<lparr>w_audit := w_audit w @ [(u_TenantID u, u_ID u, action, tgt, detail)]\<rparr>"

definition changereq_target :: "int \<Rightarrow> string" where
  "changereq_target i = ''changereq:'' @ itoa i"

definition push_report :: "(string \<times> string \<times> string) list \<Rightarrow> string" where
  "push_report rs = concat (map (\<lambda>(status, host, err).
     ''['' @ status @ ''] '' @ host @ [CHR 0x0A] @
     (if err \<noteq> [] then ''  error: '' @ err @ [CHR 0x0A] else [])) rs)"

definition log_run :: "device_run \<Rightarrow> api_world \<Rightarrow> api_world" where
  "log_run x w = w\<lparr>w_runs := w_runs w @ [x]\<rparr>"

definition applyChangeRequest ::
  "'d collaborators \<Rightarrow> ChangeRequest \<Rightarrow> api_world \<Rightarrow> (string + string) \<times> api_world" where
  "applyChangeRequest co cr w =
     (if cr_Kind cr = KindPush
      then (case (run_push co, cr_PushJobID cr) of
              (Some run, Some job) \<Rightarrow>
                if cr_Variables cr \<noteq> []
                then (Inl ''push change request variable overrides are not supported by apply'', w)
                else (map_sum id push_report (run (cr_TenantID cr) job), log_run (PushRun (cr_TenantID cr) job) w)
            | _ \<Rightarrow> (Inl ''push automation not available'', w))
      else if cr_Kind cr = KindRollback
      then (case cr_DeviceID cr of
              None \<Rightarrow> (Inl ''rollback request has no device id'', w)
            | Some i \<Rightarrow> (case get_device co (cr_TenantID cr) i of
                Inl e \<Rightarrow> (Inl (''device: '' @ lookup_text e), w)
              | Inr dev \<Rightarrow> (case (run_push co, executor co) of
                  (Some _, Some ex) \<Rightarrow>
                    (ex dev (cr_Payload cr), log_run (RollbackRun (cr_TenantID cr) (device_id co dev) (cr_Payload cr)) w)
                | _ \<Rightarrow> (Inl ''no executor configured'', w))))
      else (Inl (''unknown kind '' @ [CHR 0x22] @ cr_Kind cr @ [CHR 0x22]), w))"

section \<open>Handlers\<close>

definition changeReqError :: "cr_error \<Rightarrow> nat" where
  "changeReqError e = (case e of
     ErrNotFound \<Rightarrow> 404
   | ErrInvalidInput _ \<Rightarrow> 400
   | ErrInvalidTransition \<Rightarrow> 409
   | ErrTerminal \<Rightarrow> 409
   | ErrSelfApproval \<Rightarrow> 403
   | ErrDB _ \<Rightarrow> 500)"

text \<open>A call of the change request service on the world's database.\<close>

definition on_db :: "(change_db \<Rightarrow> 'r \<times> change_db) \<Rightarrow> api_world \<Rightarrow> 'r \<times> api_world" where
  "on_db f w = (case f (w_db w) of (r, db) \<Rightarrow> (r, w\<lparr>w_db := db\<rparr>))"

text \<open>The shape of the simple transitions: call, map the error, audit.\<close>

definition cr_reply ::
  "User \<Rightarrow> nat \<Rightarrow> string \<Rightarrow> (ChangeRequest \<Rightarrow> string) \<Rightarrow> (cr_error + ChangeRequest) \<times> api_world
    \<Rightarrow> nat \<times> api_world" where
  "cr_reply u code action detail m = (case m of
     (Inl e, w) \<Rightarrow> (changeReqError e, w)
   | (Inr cr, w) \<Rightarrow> (code, recordAudit u action (changereq_target (cr_ID cr)) (detail cr) w))"

definition blank_request :: ChangeRequest where
  "blank_request = \<lparr>cr_ID = 0, cr_TenantID = 0, cr_Kind = '''', cr_Title = '''', cr_Description = '''',
     cr_RequesterID = 0, cr_ReviewerID = None, cr_Status = '''', cr_DecisionReason = '''',
     cr_PushJobID = None, cr_Variables = [], cr_DeviceID = None, cr_Artifact = '''', cr_TargetSHA = '''',
     cr_Payload = '''', cr_Result = '''', cr_CreatedAt = zero_time, cr_UpdatedAt = zero_time,
     cr_SubmittedAt = None, cr_DecidedAt = None, cr_AppliedAt = None\<rparr>"

record changeRequestInput =
  ci_Kind :: string
  ci_Title :: string
  ci_Description :: string
  ci_PushJobID :: "int option"
  ci_Variables :: "(string \<times> string) list"
  ci_DeviceID :: "int option"
  ci_Artifact :: string
  ci_TargetSHA :: string

text \<open>The request of an input: no payload, so a rollback cannot be created here.\<close>

definition requested :: "User \<Rightarrow> changeRequestInput \<Rightarrow> ChangeRequest" where
  "requested u inp = blank_request\<lparr>cr_TenantID := u_TenantID u, cr_Kind := ci_Kind inp, cr_Title := ci_Title inp,
     cr_Description := ci_Description inp, cr_RequesterID := u_ID u, cr_PushJobID := ci_PushJobID inp,
     cr_Variables := ci_Variables inp, cr_DeviceID := ci_DeviceID inp, cr_Artifact := ci_Artifact inp,
     cr_TargetSHA := ci_TargetSHA inp\<rparr>"

definition handleCreateChangeRequest ::
  "User \<Rightarrow> changeRequestInput \<Rightarrow> time \<Rightarrow> time \<Rightarrow> api_world \<Rightarrow> nat \<times> api_world" where
  "handleCreateChangeRequest u inp now now2 w =
     cr_reply u 201 ''changereq.create'' (\<lambda>cr. ''kind='' @ cr_Kind cr @ '' title='' @ cr_Title cr)
       (on_db (Create_cr (requested u inp) now now2) w)"

definition handleSubmitChangeRequest :: "User \<Rightarrow> int \<Rightarrow> time \<Rightarrow> time \<Rightarrow> api_world \<Rightarrow> nat \<times> api_world" where
  "handleSubmitChangeRequest u i now now2 w = cr_reply u 200 ''changereq.submit'' (\<lambda>_. '''')
     (on_db (Submit (u_TenantID u) i (u_ID u) now now2) w)"

definition handleApproveChangeRequest ::
  "User \<Rightarrow> int \<Rightarrow> string \<Rightarrow> time \<Rightarrow> time \<Rightarrow> api_world \<Rightarrow> nat \<times> api_world" where
  "handleApproveChangeRequest u i reason now now2 w =
     (let allowSelf = (u_Role u = RoleAdmin)
      in cr_reply u 200 ''changereq.approve'' (\<lambda>_. ''reason='' @ reason)
           (on_db (Approve (u_TenantID u) i (u_ID u) reason allowSelf now now2) w))"

definition handleRejectChangeRequest ::
  "User \<Rightarrow> int \<Rightarrow> string \<Rightarrow> time \<Rightarrow> time \<Rightarrow> api_world \<Rightarrow> nat \<times> api_world" where
  "handleRejectChangeRequest u i reason now now2 w =
     cr_reply u 200 ''changereq.reject'' (\<lambda>_. ''reason='' @ reason)
       (on_db (Reject (u_TenantID u) i (u_ID u) reason now now2) w)"

definition handleCancelChangeRequest ::
  "User \<Rightarrow> int \<Rightarrow> string \<Rightarrow> time \<Rightarrow> time \<Rightarrow> api_world \<Rightarrow> nat \<times> api_world" where
  "handleCancelChangeRequest u i reason now now2 w = (case on_db (Get_cr (u_TenantID u) i) w of
     (Inl e, w) \<Rightarrow> (changeReqError e, w)
   | (Inr cr, w) \<Rightarrow>
       if cr_RequesterID cr \<noteq> u_ID u \<and> u_Role u \<noteq> RoleAdmin then (403, w)
       else cr_reply u 200 ''changereq.cancel'' (\<lambda>_. ''reason='' @ reason)
              (on_db (Cancel (u_TenantID u) i (u_ID u) reason now now2) w))"

text \<open>\<open>handleApplyChangeRequest\<close> reads and checks the request, then runs it and marks the
  result: two steps, between which other requests are served.\<close>

definition apply_check :: "User \<Rightarrow> int \<Rightarrow> api_world \<Rightarrow> (nat + ChangeRequest) \<times> api_world" where
  "apply_check u i w = (case on_db (Get_cr (u_TenantID u) i) w of
     (Inl e, w) \<Rightarrow> (Inl (changeReqError e), w)
   | (Inr cr, w) \<Rightarrow> (if \<not> CanApply cr then Inl 409 else Inr cr, w))"

definition apply_finish ::
  "'d collaborators \<Rightarrow> User \<Rightarrow> int \<Rightarrow> ChangeRequest \<Rightarrow> time \<Rightarrow> time \<Rightarrow> api_world \<Rightarrow> nat \<times> api_world" where
  "apply_finish co u i cr now now2 w = (case applyChangeRequest co cr w of
     (Inl err, w) \<Rightarrow>
       (let w = snd (on_db (MarkFailed (u_TenantID u) i err now now2) w)
        in (502, recordAudit u ''changereq.apply'' (changereq_target (cr_ID cr)) (''status=failed err='' @ err) w))
   | (Inr out, w) \<Rightarrow> (case on_db (MarkApplied (u_TenantID u) i out now now2) w of
       (Inl _, w) \<Rightarrow> (500, w)
     | (Inr cr, w) \<Rightarrow> (200, recordAudit u ''changereq.apply'' (changereq_target (cr_ID cr)) ''status=applied'' w)))"

definition handleApplyChangeRequest ::
  "'d collaborators \<Rightarrow> User \<Rightarrow> int \<Rightarrow> time \<Rightarrow> time \<Rightarrow> api_world \<Rightarrow> nat \<times> api_world" where
  "handleApplyChangeRequest co u i now now2 w = (case apply_check u i w of
     (Inl code, w) \<Rightarrow> (code, w)
   | (Inr cr, w) \<Rightarrow> apply_finish co u i cr now now2 w)"

record rollbackInput =
  rb_Artifact :: string
  rb_TargetSHA :: string
  rb_Reason :: string
  rb_Immediate :: bool

definition short :: "string \<Rightarrow> string" where
  "short sha = (if length sha \<le> 8 then sha else take 8 sha)"

text \<open>The immediate rollback's submit, approve, run and mark; \<open>tick k\<close> is the clock of its k-th
  service call.\<close>

definition rollback_now ::
  "'d collaborators \<Rightarrow> User \<Rightarrow> int \<Rightarrow> (nat \<Rightarrow> time) \<Rightarrow> api_world \<Rightarrow> nat \<times> api_world" where
  "rollback_now co u i tick w = (case on_db (Submit (u_TenantID u) i (u_ID u) (tick 2) (tick 3)) w of
     (Inl e, w) \<Rightarrow> (changeReqError e, w)
   | (Inr _, w) \<Rightarrow>
       (case on_db (Approve (u_TenantID u) i (u_ID u) ''emergency rollback by admin'' True (tick 4) (tick 5)) w of
          (Inl e, w) \<Rightarrow> (changeReqError e, w)
        | (Inr cr, w) \<Rightarrow> (case applyChangeRequest co cr w of
            (Inl err, w) \<Rightarrow>
              (let w = snd (on_db (MarkFailed (u_TenantID u) (cr_ID cr) err (tick 6) (tick 7)) w)
               in (502, recordAudit u ''rollback.apply'' (changereq_target (cr_ID cr)) (''status=failed err='' @ err) w))
          | (Inr out, w) \<Rightarrow>
              (let (r, w) = on_db (MarkApplied (u_TenantID u) (cr_ID cr) out (tick 6) (tick 7)) w;
                   j = (case r of Inl _ \<Rightarrow> 0 | Inr cr \<Rightarrow> cr_ID cr)
               in (200, recordAudit u ''rollback.apply'' (changereq_target j) ''status=applied'' w)))))"

definition handleRollbackDevice ::
  "'d collaborators \<Rightarrow> User \<Rightarrow> int \<Rightarrow> rollbackInput \<Rightarrow> (nat \<Rightarrow> time) \<Rightarrow> api_world \<Rightarrow> nat \<times> api_world" where
  "handleRollbackDevice co u dev_id inp tick w =
     (if rb_Artifact inp = [] \<or> rb_TargetSHA inp = [] then (400, w)
      else if rb_Immediate inp \<and> u_Role u \<noteq> RoleAdmin then (403, w)
      else (case get_device co (u_TenantID u) dev_id of
        Inl LNotFound \<Rightarrow> (404, w)
      | Inl (LOther _) \<Rightarrow> (500, w)
      | Inr dev \<Rightarrow> (case read_version co (u_TenantID u) dev_id (rb_Artifact inp) (rb_TargetSHA inp) of
          Inl LNotFound \<Rightarrow> (404, w)
        | Inl (LOther _) \<Rightarrow> (500, w)
        | Inr body \<Rightarrow>
            (let req = blank_request\<lparr>cr_TenantID := u_TenantID u, cr_Kind := KindRollback,
                   cr_Title := ''rollback '' @ device_name co dev @ ''/'' @ rb_Artifact inp @ '' to '' @ short (rb_TargetSHA inp),
                   cr_Description := rb_Reason inp, cr_RequesterID := u_ID u, cr_DeviceID := Some dev_id,
                   cr_Artifact := rb_Artifact inp, cr_TargetSHA := rb_TargetSHA inp, cr_Payload := body\<rparr>
             in case on_db (Create_cr req (tick 0) (tick 1)) w of
                  (Inl e, w) \<Rightarrow> (changeReqError e, w)
                | (Inr cr, w) \<Rightarrow>
                    (let w = recordAudit u ''rollback.request'' (''device:'' @ itoa dev_id)
                           (''changereq='' @ itoa (cr_ID cr) @ '' artifact='' @ rb_Artifact inp @ '' sha='' @ rb_TargetSHA inp) w
                     in if \<not> rb_Immediate inp then (201, w) else rollback_now co u (cr_ID cr) tick w)))))"

text \<open>The read endpoints: the status and, on 200, what is written.\<close>

definition handleListChangeRequests ::
  "User \<Rightarrow> Status \<Rightarrow> api_world \<Rightarrow> (nat \<times> ChangeRequest list) \<times> api_world" where
  "handleListChangeRequests u status w = (case on_db (List_cr (u_TenantID u) status 200) w of
     (Inl _, w) \<Rightarrow> ((500, []), w) | (Inr out, w) \<Rightarrow> ((200, out), w))"

definition handleGetChangeRequest ::
  "User \<Rightarrow> int \<Rightarrow> api_world \<Rightarrow> (nat \<times> (ChangeRequest \<times> Event list) option) \<times> api_world" where
  "handleGetChangeRequest u i w = (case on_db (Get_cr (u_TenantID u) i) w of
     (Inl e, w) \<Rightarrow> ((changeReqError e, None), w)
   | (Inr cr, w) \<Rightarrow> (case on_db (Events (cr_ID cr)) w of
       (Inl _, w) \<Rightarrow> ((500, None), w)
     | (Inr es, w) \<Rightarrow> ((200, Some (cr, es)), w)))"

text \<open>The token endpoints: the status, the audit entry written (action, target, detail), the
  token table. \<open>parse\<close> is \<open>parseRFC3339Loose\<close>.\<close>

definition handleListAPITokens :: "User \<Rightarrow> token_db \<Rightarrow> (nat \<times> api_token list) \<times> token_db" where
  "handleListAPITokens u s = (case TokList (u_TenantID u) s of
     (Inl _, s) \<Rightarrow> ((500, []), s) | (Inr out, s) \<Rightarrow> ((200, out), s))"

definition handleCreateAPIToken ::
  "(string \<Rightarrow> time option) \<Rightarrow> (string \<Rightarrow> string + string) \<Rightarrow> string option \<Rightarrow> string option \<Rightarrow> time
    \<Rightarrow> User \<Rightarrow> string \<Rightarrow> string list \<Rightarrow> string \<Rightarrow> token_db
    \<Rightarrow> (nat \<times> string option \<times> (string \<times> string \<times> string) list) \<times> token_db" where
  "handleCreateAPIToken parse hashpw r1 r2 now u name scopes expires s =
     (if expires \<noteq> [] \<and> parse expires = None then ((400, None, []), s)
      else (case Issue hashpw r1 r2 now (u_TenantID u) (u_ID u) name scopes
                   (if expires \<noteq> [] then parse expires else None) s of
        (Inl (TokInput _), s) \<Rightarrow> ((400, None, []), s)
      | (Inl _, s) \<Rightarrow> ((500, None, []), s)
      | (Inr (tok, secret), s) \<Rightarrow>
          ((201, Some secret, [(''apitoken.create'', ''apitoken:'' @ itoa (at_ID tok),
              ''name='' @ at_Name tok @ '' prefix='' @ at_Prefix tok)]), s)))"

definition handleDeleteAPIToken ::
  "time \<Rightarrow> User \<Rightarrow> int \<Rightarrow> token_db \<Rightarrow> (nat \<times> (string \<times> string \<times> string) list) \<times> token_db" where
  "handleDeleteAPIToken now u i s = (case Revoke now (u_TenantID u) i s of
     (Inl TokNotFound, s) \<Rightarrow> ((404, []), s)
   | (Inl _, s) \<Rightarrow> ((500, []), s)
   | (Inr _, s) \<Rightarrow> ((204, [(''apitoken.revoke'', ''apitoken:'' @ itoa i, [])]), s))"

section \<open>What runs on devices\<close>

text \<open>A run carries out a request's row: a push runs the row's job, when the row has no variables of its own; a
  rollback sends the row's payload to the device that the tenant's lookup of the row's device gives.\<close>

definition carries_out :: "'d collaborators \<Rightarrow> device_run \<Rightarrow> request_row \<Rightarrow> bool" where
  "carries_out co x row = (case x of
     PushRun t job \<Rightarrow> rq_kind row = KindPush \<and> rq_tenant row = t \<and> rq_push_job row = Some job \<and>
       rq_variables row \<in> {None, Some []}
   | RollbackRun t dev p \<Rightarrow> rq_kind row = KindRollback \<and> rq_tenant row = t \<and> coalesce (rq_payload row) = p \<and>
       (\<exists>i d. rq_device row = Some i \<and> get_device co t i = Inr d \<and> device_id co d = dev))"

lemma applyChangeRequest_carries:
  "applyChangeRequest co (scanRequest row) w = (r, w') \<Longrightarrow> w_runs w' = w_runs w @ [x] \<Longrightarrow> carries_out co x row"
  unfolding applyChangeRequest_def log_run_def carries_out_def
  by (auto simp: kind_defs scanRequest_def split: if_splits option.splits sum.splits)

lemma applyChangeRequest_runs:
  "applyChangeRequest co cr w = (r, w') \<Longrightarrow>
     w_db w' = w_db w \<and> w_audit w' = w_audit w \<and>
     (w_runs w' = w_runs w \<and> isl r \<or> (\<exists>x. w_runs w' = w_runs w @ [x]))"
  unfolding applyChangeRequest_def log_run_def
  by (auto split: if_splits option.splits sum.splits)

lemma on_db_frame: "w_runs (snd (on_db f w)) = w_runs w" "w_audit (snd (on_db f w)) = w_audit w"
  "w_db (snd (on_db f w)) = snd (f (w_db w))" "fst (on_db f w) = fst (f (w_db w))"
  by (simp_all add: on_db_def split: prod.splits)

lemma recordAudit_frame [simp]:
  "w_runs (recordAudit u a t d w) = w_runs w" "w_db (recordAudit u a t d w) = w_db w"
  by (simp_all add: recordAudit_def)

lemma apply_finish_runs:
  obtains r w1 where "applyChangeRequest co cr w = (r, w1)"
    "w_runs (snd (apply_finish co u i cr now now2 w)) = w_runs w1"
proof -
  obtain r w1 where r: "applyChangeRequest co cr w = (r, w1)" by force
  have "w_runs (snd (apply_finish co u i cr now now2 w)) = w_runs w1"
  proof (cases r)
    case (Inl e)
    with r show ?thesis by (simp add: apply_finish_def Let_def on_db_frame)
  next
    case (Inr out)
    obtain q w2 where q: "on_db (MarkApplied (u_TenantID u) i out now now2) w1 = (q, w2)" by force
    then have "w_runs w2 = w_runs w1" using on_db_frame(1) by (metis snd_conv)
    with r q Inr show ?thesis by (cases q) (simp_all add: apply_finish_def)
  qed
  with r show thesis by (rule that)
qed

lemma apply_check_cases:
  assumes "apply_check u i w = (r, w1)"
  shows "\<exists>fs. w1 = w\<lparr>w_db := (w_db w)\<lparr>faults := fs\<rparr>\<rparr> \<and> (faults (w_db w) = [] \<longrightarrow> fs = [])"
    and "r = Inr cr \<Longrightarrow> \<exists>row \<in> set (rows (change_requests (w_db w))). cr = scanRequest row \<and>
      rq_tenant row = u_TenantID u \<and> rq_id row = i \<and> rq_status row = StatusApproved"
proof -
  obtain q db1 where q: "Get_cr (u_TenantID u) i (w_db w) = (q, db1)" by force
  note post = postD [OF Get_cr_post q]
  have w1: "w1 = w\<lparr>w_db := db1\<rparr>" using assms q
    by (auto simp: apply_check_def on_db_def split: sum.splits if_splits)
  with post show "\<exists>fs. w1 = w\<lparr>w_db := (w_db w)\<lparr>faults := fs\<rparr>\<rparr> \<and> (faults (w_db w) = [] \<longrightarrow> fs = [])"
    by auto
  assume "r = Inr cr"
  with assms q have "q = Inr cr" "CanApply cr"
    by (auto simp: apply_check_def on_db_def split: sum.splits if_splits)
  with post show "\<exists>row \<in> set (rows (change_requests (w_db w))). cr = scanRequest row \<and>
      rq_tenant row = u_TenantID u \<and> rq_id row = i \<and> rq_status row = StatusApproved"
    by (auto simp: CanApply_def)
qed

text \<open>C19: The apply endpoint runs something on a device only for a request of the caller's tenant
  that is approved when it is read, and once. What runs is what that request's row says: its push job, only
  when the row carries no variables, or its payload on the device that its device id names.\<close>
theorem apply_runs_approved_only:
  "let w' = snd (handleApplyChangeRequest co u i now now2 w) in
     w_runs w' = w_runs w \<or>
     (\<exists>x. \<exists>row \<in> set (rows (change_requests (w_db w))). w_runs w' = w_runs w @ [x] \<and> carries_out co x row \<and>
        rq_tenant row = u_TenantID u \<and> rq_id row = i \<and> rq_status row = StatusApproved)"
proof -
  obtain r w1 where r: "apply_check u i w = (r, w1)" by force
  have w1: "w_runs w1 = w_runs w" using apply_check_cases(1) [OF r] by auto
  show ?thesis
  proof (cases r)
    case (Inr cr)
    obtain row where row: "row \<in> set (rows (change_requests (w_db w)))" "cr = scanRequest row"
      "rq_tenant row = u_TenantID u" "rq_id row = i" "rq_status row = StatusApproved"
      using apply_check_cases(2) [OF r Inr] by blast
    obtain q w2 where q: "applyChangeRequest co cr w1 = (q, w2)"
      "w_runs (snd (apply_finish co u i cr now now2 w1)) = w_runs w2" by (rule apply_finish_runs)
    then have "w_runs (snd (handleApplyChangeRequest co u i now now2 w)) = w_runs w2"
      using r Inr by (simp add: handleApplyChangeRequest_def)
    moreover have "w_runs w2 = w_runs w \<or> (\<exists>x. w_runs w2 = w_runs w @ [x] \<and> carries_out co x row)"
      using applyChangeRequest_runs [OF q(1)] applyChangeRequest_carries [of co row w1 q w2] q(1) row(2) w1
      by auto
    ultimately show ?thesis using row by (auto simp: Let_def)
  qed (use r w1 in \<open>simp add: handleApplyChangeRequest_def\<close>)
qed

section \<open>Applying twice\<close>

lemma transition_advances:
  assumes "faults db = []" and "transition t i actor to note now now2 db = (Inr cr, db')"
    and "row \<in> set (rows (change_requests db))" and "rq_tenant row = t" and "rq_id row = i"
    and "wf_table rq_id (change_requests db)"
  shows "faults db' = [] \<and> (\<exists>r' \<in> set (rows (change_requests db')). rq_id r' = i \<and> rq_tenant r' = t \<and> rq_status r' = to)"
proof -
  obtain q db1 where q: "Get_cr t i db = (q, db1)" by force
  with assms(2) obtain snap where snap: "q = Inr snap" "transitionFrom snap actor to note None now now2 db1 = (Inr cr, db')"
    by (cases q) (auto simp: transition_def)
  from postD [OF Get_cr_post q] snap(1) assms(1) obtain r0 where
    r0: "db1 = db" "r0 \<in> set (rows (change_requests db))" "snap = scanRequest r0" "rq_tenant r0 = t" "rq_id r0 = i"
    by fastforce
  have "post (\<lambda>x s. isl x \<or> (faults s = [] \<and> (\<exists>r' \<in> set (rows (change_requests s)). rq_id r' = i \<and> rq_tenant r' = t \<and> rq_status r' = to)))
      (transitionFrom snap actor to note None now now2 db1)"
  proof (rule transitionFrom_post)
    fix x and s :: change_db and r
    assume r: "r \<in> set (rows (change_requests db1))" "snap_row snap r"
      and cr: "change_requests s = update_rows (snap_row snap) (transition_set to (rfc3339 now) note None) (change_requests db1)"
      and f: "faults db1 = [] \<Longrightarrow> faults s = []"
    have "transition_set to (rfc3339 now) note None r \<in> set (rows (change_requests s))"
      using r by (force simp: cr)
    with r r0 f assms(1) show "isl x \<or> (faults s = [] \<and>
        (\<exists>r' \<in> set (rows (change_requests s)). rq_id r' = i \<and> rq_tenant r' = t \<and> rq_status r' = to))"
      by (intro disjI2 conjI bexI [of _ "transition_set to (rfc3339 now) note None r"]) (auto simp: snap_row_def)
  qed simp
  from postD [OF this snap(2)] show ?thesis by simp
qed

lemma mark_applied_state:
  assumes "faults db = []" and "MarkApplied t i out now now2 db = (Inr cr, db')"
    and "row \<in> set (rows (change_requests db))" and "rq_tenant row = t" and "rq_id row = i"
    and "wf_table rq_id (change_requests db)"
  shows "faults db' = [] \<and> (\<exists>r' \<in> set (rows (change_requests db')). rq_id r' = i \<and> rq_tenant r' = t \<and> rq_status r' = StatusApplied)"
proof -
  obtain q db1 where q: "transition t i 0 StatusApplied ''apply succeeded'' now now2 db = (q, db1)" by force
  with assms(2) obtain c where c: "q = Inr c" by (cases q) (auto simp: MarkApplied_def)
  from transition_advances [OF assms(1) q [unfolded c] assms(3-6)] obtain r' where
    r': "faults db1 = []" "r' \<in> set (rows (change_requests db1))" "rq_id r' = i" "rq_tenant r' = t"
      "rq_status r' = StatusApplied" by blast
  have "MarkApplied t i out now now2 db =
      (if out \<noteq> '''' then (Inr (c\<lparr>cr_Result := out\<rparr>), set_result t i out db1) else (Inr c, db1))"
    using q c r'(1) by (simp add: MarkApplied_def)
  then consider "db' = db1" | (res) "db' = set_result t i out db1"
    using assms(2) by (auto split: if_splits)
  then show ?thesis
  proof cases
    case res
    let ?f = "\<lambda>r. if rq_tenant r = t \<and> rq_id r = i then r\<lparr>rq_result := Some out\<rparr> else r"
    have "?f r' \<in> ?f ` set (rows (change_requests db1))" using r'(2) by (rule imageI)
    then have "?f r' \<in> set (rows (change_requests db'))" by (simp add: res set_result_def)
    moreover have "rq_id (?f r') = i" "rq_tenant (?f r') = t" "rq_status (?f r') = StatusApplied"
      using r' by simp_all
    moreover have "faults db' = []" using r'(1) by (simp add: res set_result_def)
    ultimately show ?thesis by blast
  qed (use r' in blast)
qed

text \<open>C20: With a working database, a request that was applied is not run again: after the apply
  endpoint answered 200, calling it again answers 409 and runs nothing.\<close>
theorem applied_not_run_again:
  assumes "cr_inv True (w_db w)" and "faults (w_db w) = []"
    and "handleApplyChangeRequest co u i now now2 w = (200, w')" and "u_TenantID v = u_TenantID u"
  shows "handleApplyChangeRequest co' v i later later2 w' = (409, w')"
proof -
  obtain r w1 where r: "apply_check u i w = (r, w1)" by force
  have w1: "w1 = w" using apply_check_cases(1) [OF r] assms(2) by auto
  obtain cr where cr: "r = Inr cr"
  proof (cases r)
    case (Inl c)
    have "apply_check u i w = (Inl 200, w1) \<Longrightarrow> False"
      by (auto simp: apply_check_def on_db_def changeReqError_def
          split: prod.splits sum.splits if_splits cr_error.splits)
    with Inl r assms(3) show ?thesis by (auto simp: handleApplyChangeRequest_def)
  qed
  obtain row where row: "row \<in> set (rows (change_requests (w_db w)))" "rq_tenant row = u_TenantID u" "rq_id row = i"
    using apply_check_cases(2) [OF r cr] by blast
  have fin: "apply_finish co u i cr now now2 w = (200, w')"
    using assms(3) r cr w1 by (simp add: handleApplyChangeRequest_def)
  obtain q w2 where q: "applyChangeRequest co cr w = (q, w2)" by force
  then have w2: "w_db w2 = w_db w" using applyChangeRequest_runs [OF q] by simp
  from fin q obtain out where out: "q = Inr out" by (cases q) (auto simp: apply_finish_def Let_def)
  obtain m db3 where m: "MarkApplied (u_TenantID u) i out now now2 (w_db w) = (m, db3)" by force
  with fin q out w2 obtain c where c: "m = Inr c" "w_db w' = db3"
    by (cases m) (auto simp: apply_finish_def on_db_def)
  have wf: "wf_table rq_id (change_requests (w_db w))" using assms(1) by (simp add: cr_inv_def)
  from mark_applied_state [OF assms(2) m [unfolded c(1)] row wf] c(2) obtain r' where
    r': "faults (w_db w') = []" "r' \<in> set (rows (change_requests (w_db w')))" "rq_id r' = i"
      "rq_tenant r' = u_TenantID u" "rq_status r' = StatusApplied" by blast
  have "cr_inv True (w_db w')"
    using cr_do_inv [OF assms(1), of "u_TenantID u" "(CMarkApplied i out, now, now2)"] m c(2) by simp
  then have wf': "wf_table rq_id (change_requests (w_db w'))" by (simp add: cr_inv_def)
  then have "query_row (\<lambda>r. rq_tenant r = u_TenantID v \<and> rq_id r = i) (change_requests (w_db w')) = Some r'"
    using r' assms(4) by (intro query_row_key [where key = rq_id]) auto
  then have "apply_check v i w' = (Inl 409, w')"
    using r' by (simp add: apply_check_def on_db_def Get_cr_def CanApply_def scanRequest_def status_defs)
  then show ?thesis by (simp add: handleApplyChangeRequest_def)
qed

section \<open>Refusals\<close>

datatype cr_endpoint =
  EpCreate changeRequestInput | EpSubmit int | EpApprove int string | EpReject int string
| EpCancel int string | EpApply int

fun serve ::
  "'d collaborators \<Rightarrow> User \<Rightarrow> cr_endpoint \<Rightarrow> time \<Rightarrow> time \<Rightarrow> api_world \<Rightarrow> nat \<times> api_world" where
  "serve co u (EpCreate inp) now now2 w = handleCreateChangeRequest u inp now now2 w"
| "serve co u (EpSubmit i) now now2 w = handleSubmitChangeRequest u i now now2 w"
| "serve co u (EpApprove i why) now now2 w = handleApproveChangeRequest u i why now now2 w"
| "serve co u (EpReject i why) now now2 w = handleRejectChangeRequest u i why now now2 w"
| "serve co u (EpCancel i why) now now2 w = handleCancelChangeRequest u i why now now2 w"
| "serve co u (EpApply i) now now2 w = handleApplyChangeRequest co u i now now2 w"

definition untouched :: "change_db \<Rightarrow> change_db \<Rightarrow> bool" where
  "untouched db s \<longleftrightarrow> (\<exists>fs. s = db\<lparr>faults := fs\<rparr>)"

lemma untouched_faults [simp]: "untouched db db" "untouched db (db\<lparr>faults := fs\<rparr>)"
  by (auto simp: untouched_def intro: exI [of _ "faults db"])

lemma untouched_trans: "untouched a b \<Longrightarrow> untouched b c \<Longrightarrow> untouched a c"
  by (auto simp: untouched_def)

text \<open>A call that fails for a reason other than the database leaves the tables as they were.\<close>

definition clean_refusal :: "change_db \<Rightarrow> cr_error + 'a \<Rightarrow> change_db \<Rightarrow> bool" where
  "clean_refusal db r s \<longleftrightarrow> (\<forall>e. r = Inl e \<longrightarrow> (\<exists>m. e = ErrDB m) \<or> untouched db s)"

lemma clean_recordEvent: "post (\<lambda>r s. \<forall>e. r = Inl e \<longrightarrow> (\<exists>m. e = ErrDB m)) (recordEvent i a f t n now db)"
  unfolding recordEvent_def Let_def by (rule post_exec) auto

lemma clean_Get: "post (\<lambda>r s. untouched db s) (Get_cr t i db)"
  unfolding Get_cr_def by (rule post_exec) (auto split: option.splits)

lemma Get_present:
  "query_row (\<lambda>r. rq_tenant r = t \<and> rq_id r = i) (change_requests db) \<noteq> None \<Longrightarrow>
   post (\<lambda>r s. \<forall>e. r = Inl e \<longrightarrow> (\<exists>m. e = ErrDB m)) (Get_cr t i db)"
  unfolding Get_cr_def by (rule post_exec) (auto split: option.splits)

lemma clean_transitionFrom:
  "post (clean_refusal db) (transitionFrom cr actor to note rv now now2 db)"
proof -
  let ?db = "\<lambda>fs. db\<lparr>faults := fs, change_requests := update_rows (snap_row cr)
    (transition_set to (rfc3339 now) note rv) (change_requests db)\<rparr>"
  have moved: "post (clean_refusal db)
      (if affected (snap_row cr) (change_requests db) = 0 then (Inl ErrInvalidTransition, ?db fs)
      else and_then (recordEvent (cr_ID cr) actor (cr_Status cr) to note now2 (?db fs))
        (\<lambda>_ db. Get_cr (cr_TenantID cr) (cr_ID cr) db))" for fs
  proof (cases "affected (snap_row cr) (change_requests db) = 0")
    case True
    then show ?thesis by (simp add: update_rows_none clean_refusal_def)
  next
    case False
    then obtain r where r: "r \<in> set (rows (change_requests db))" "snap_row cr r"
      by (auto simp: affected_0_iff)
    have present: "query_row (\<lambda>r. rq_tenant r = cr_TenantID cr \<and> rq_id r = cr_ID cr)
        (change_requests (?db fs)) \<noteq> None"
    proof -
      have "transition_set to (rfc3339 now) note rv r \<in> set (rows (change_requests (?db fs)))"
        using r by force
      moreover have "rq_tenant (transition_set to (rfc3339 now) note rv r) = cr_TenantID cr"
        "rq_id (transition_set to (rfc3339 now) note rv r) = cr_ID cr"
        using r(2) by (simp_all add: snap_row_def)
      ultimately show ?thesis unfolding query_row_None by blast
    qed
    obtain q s where q: "recordEvent (cr_ID cr) actor (cr_Status cr) to note now2 (?db fs) = (q, s)" by force
    have s: "change_requests s = change_requests (?db fs)" using postD [OF recordEvent_post q] by simp
    show ?thesis
    proof (cases q)
      case (Inl e)
      with postD [OF clean_recordEvent q] q False show ?thesis by (auto simp: clean_refusal_def)
    next
      case (Inr x)
      from present have "post (clean_refusal db) (Get_cr (cr_TenantID cr) (cr_ID cr) s)"
        unfolding s [symmetric] by (rule post_mono [OF Get_present]) (auto simp: clean_refusal_def)
      with q Inr False show ?thesis by simp
    qed
  qed
  have ok: "clean_refusal db (Inl e) (db\<lparr>faults := fs\<rparr>)" "clean_refusal db (Inl e) db" for e fs
    by (simp_all add: clean_refusal_def)
  show ?thesis
  proof (cases "IsTerminal (cr_Status cr) \<or> \<not> canTransition (cr_Status cr) to")
    case False
    have "post (clean_refusal db) (exec ErrDB db (\<lambda>db.
        let n = affected (snap_row cr) (change_requests db);
            db = db\<lparr>change_requests := update_rows (snap_row cr)
              (transition_set to (rfc3339 now) note rv) (change_requests db)\<rparr>
        in if n = 0 then (Inl ErrInvalidTransition, db)
           else and_then (recordEvent (cr_ID cr) actor (cr_Status cr) to note now2 db)
                  (\<lambda>_ db. Get_cr (cr_TenantID cr) (cr_ID cr) db)))"
      by (rule post_exec) (use moved ok in \<open>simp_all add: Let_def\<close>)
    with False show ?thesis by (simp add: transitionFrom_def)
  qed (auto simp: transitionFrom_def ok)
qed

lemma clean_and_then:
  assumes "post (\<lambda>r s. untouched db s) m" and "\<And>a s. untouched db s \<Longrightarrow> post (clean_refusal s) (k a s)"
  shows "post (clean_refusal db) (and_then m k)"
proof -
  obtain r s where m: "m = (r, s)" by force
  with assms(1) have s: "untouched db s" by simp
  have "clean_refusal s q t \<Longrightarrow> clean_refusal db q t" for q :: "cr_error + 'b" and t
    using s untouched_trans unfolding clean_refusal_def by blast
  then have "post (clean_refusal db) (k a s)" for a by (rule post_mono [OF assms(2) [OF s]])
  with s m show ?thesis by (cases r) (simp_all add: clean_refusal_def)
qed

lemma clean_transition: "post (clean_refusal db) (transition t i actor to note now now2 db)"
  unfolding transition_def by (rule clean_and_then [OF clean_Get clean_transitionFrom])

lemma clean_Approve: "post (clean_refusal db) (Approve t i v why selfok now now2 db)"
  unfolding Approve_def
  by (rule clean_and_then [OF clean_Get]) (simp add: clean_transitionFrom, simp add: clean_refusal_def)

lemma clean_Reject: "post (clean_refusal db) (Reject t i v why now now2 db)"
  unfolding Reject_def by (rule clean_and_then [OF clean_Get clean_transitionFrom])

lemma clean_Create: "post (clean_refusal db) (Create_cr cr now now2 db)"
proof -
  have rec: "post (clean_refusal db) (and_then (recordEvent i a f t n now3 s) (\<lambda>_ db. (Inr (x :: ChangeRequest), db)))"
    for i a f t n now3 s x
    by (rule post_and_then, rule post_mono [OF clean_recordEvent])
      (auto simp: clean_refusal_def split: sum.splits)
  show ?thesis
    unfolding Create_cr_def Let_def
    by (auto simp: rec clean_refusal_def split: option.splits intro!: post_exec)
qed

lemma clean_reply:
  assumes "post (clean_refusal (w_db w)) (f (w_db w))"
    and "cr_reply u code action detail (on_db f w) = (c, w')" and "400 \<le> c" "c < 500" "code < 400"
  shows "untouched (w_db w) (w_db w') \<and> w_runs w' = w_runs w \<and> w_audit w' = w_audit w"
proof -
  obtain r s where f: "f (w_db w) = (r, s)" by force
  with assms(1) have cl: "clean_refusal (w_db w) r s" by simp
  show ?thesis
  proof (cases r)
    case (Inl e)
    with f assms(2) have e: "c = changeReqError e" "w' = w\<lparr>w_db := s\<rparr>"
      by (auto simp: cr_reply_def on_db_def)
    then have "\<nexists>m. e = ErrDB m" using assms(4) by (auto simp: changeReqError_def)
    with cl Inl e(2) show ?thesis by (simp add: clean_refusal_def)
  next
    case (Inr cr)
    with f assms show ?thesis by (auto simp: cr_reply_def on_db_def)
  qed
qed

text \<open>C21: A refused request changes nothing: when an endpoint of the approval workflow answers with
  a status from 400 to 499, the tables are as before, nothing ran on a device and nothing was
  audited.\<close>
theorem refused_changes_nothing:
  assumes "serve co u ep now now2 w = (code, w')" and "400 \<le> code" and "code < 500"
  shows "untouched (w_db w) (w_db w') \<and> w_runs w' = w_runs w \<and> w_audit w' = w_audit w"
proof (cases ep)
  case (EpCancel i why)
  obtain q s where q: "Get_cr (u_TenantID u) i (w_db w) = (q, s)" by force
  with clean_Get have s: "untouched (w_db w) s" by (metis post_pair)
  show ?thesis
  proof (cases "\<exists>cr. q = Inr cr \<and> \<not> (cr_RequesterID cr \<noteq> u_ID u \<and> u_Role u \<noteq> RoleAdmin)")
    case True
    then have "cr_reply u 200 ''changereq.cancel'' (\<lambda>_. ''reason='' @ why)
        (on_db (Cancel (u_TenantID u) i (u_ID u) why now now2) (w\<lparr>w_db := s\<rparr>)) = (code, w')"
      using assms(1) EpCancel q by (auto simp: handleCancelChangeRequest_def on_db_def [of "Get_cr _ _"])
    from clean_reply [OF _ this assms(2,3)] s untouched_trans show ?thesis
      by (simp add: Cancel_def clean_transition)
  next
    case False
    with assms EpCancel q s show ?thesis
      by (cases q) (auto simp: handleCancelChangeRequest_def on_db_def changeReqError_def)
  qed
next
  case (EpApply i)
  obtain r w1 where r: "apply_check u i w = (r, w1)" by force
  show ?thesis
  proof (cases r)
    case (Inl c)
    with r assms(1) EpApply have "w' = w1" by (simp add: handleApplyChangeRequest_def)
    with apply_check_cases(1) [OF r] show ?thesis by auto
  next
    case (Inr cr)
    have "fst (apply_finish co u i cr now now2 w1) \<in> {502, 500, 200}"
      by (auto simp: apply_finish_def Let_def split: prod.splits sum.splits)
    with r Inr assms EpApply show ?thesis by (simp add: handleApplyChangeRequest_def)
  qed
next
  case (EpCreate inp)
  with assms show ?thesis
    by (intro clean_reply [where f = "Create_cr (requested u inp) now now2"])
      (auto simp: handleCreateChangeRequest_def intro: clean_Create)
next
  case (EpSubmit i)
  with assms show ?thesis
    by (intro clean_reply [where f = "Submit (u_TenantID u) i (u_ID u) now now2"])
      (auto simp: handleSubmitChangeRequest_def Submit_def intro: clean_transition)
next
  case (EpApprove i why)
  with assms show ?thesis
    by (intro clean_reply [where f = "Approve (u_TenantID u) i (u_ID u) why (u_Role u = RoleAdmin) now now2"])
      (auto simp: handleApproveChangeRequest_def Let_def intro: clean_Approve)
next
  case (EpReject i why)
  with assms show ?thesis
    by (intro clean_reply [where f = "Reject (u_TenantID u) i (u_ID u) why now now2"])
      (auto simp: handleRejectChangeRequest_def intro: clean_Reject)
qed

section \<open>Witnesses\<close>

definition demo_collaborators :: "int collaborators" where
  "demo_collaborators = \<lparr>run_push = Some (\<lambda>t job. Inr [(''applied'', ''r1'', '''')]),
     get_device = (\<lambda>t i. Inr i), device_name = (\<lambda>d. ''r1''), device_id = (\<lambda>d. d),
     executor = Some (\<lambda>d p. Inr p), read_version = (\<lambda>t i a s. Inr ''hostname r1'')\<rparr>"

definition demo_operator :: User where
  "demo_operator = \<lparr>u_ID = 9, u_TenantID = 1, u_Username = ''op'', u_Role = RoleOperator\<rparr>"

definition demo_approved :: api_world where
  "demo_approved = \<lparr>w_db = cr_run (take 3 demo_run) empty_change_db, w_runs = [], w_audit = []\<rparr>"

lemma cr_inv_run: "cr_inv True db \<Longrightarrow> cr_inv True (cr_run cs db)"
  by (induction cs db rule: cr_run.induct) (auto intro: cr_do_inv)

lemma demo_approved_inv: "cr_inv True (w_db demo_approved)"
  using cr_inv_run [of empty_change_db] sys_inv_empty [of True] by (simp add: demo_approved_def sys_inv_def)

lemma demo_applied:
  "fst (handleApplyChangeRequest demo_collaborators demo_operator 1 (3 * second) (3 * second) demo_approved) = 200"
  "w_runs (snd (handleApplyChangeRequest demo_collaborators demo_operator 1 (3 * second) (3 * second) demo_approved)) =
     [PushRun 1 3]"
  "faults (w_db demo_approved) = []"
  by code_simp+

theorem applied_not_run_again_witness:
  "let w' = snd (handleApplyChangeRequest demo_collaborators demo_operator 1 (3 * second) (3 * second) demo_approved)
   in w_runs w' = [PushRun 1 3] \<and>
      handleApplyChangeRequest demo_collaborators demo_operator 1 (4 * second) (4 * second) w' = (409, w')"
proof -
  obtain w' where w':
    "handleApplyChangeRequest demo_collaborators demo_operator 1 (3 * second) (3 * second) demo_approved = (200, w')"
    using demo_applied(1) by (metis prod.collapse)
  from applied_not_run_again [OF demo_approved_inv demo_applied(3) w' refl] w' demo_applied(2)
  show ?thesis by (simp add: Let_def)
qed

theorem refused_changes_nothing_witness:
  "let w' = snd (serve demo_collaborators demo_operator (EpCancel 1 ''no'') 5 5 demo_approved)
   in untouched (w_db demo_approved) (w_db w') \<and> w_runs w' = [] \<and> w_audit w' = []"
proof -
  have "fst (serve demo_collaborators demo_operator (EpCancel 1 ''no'') 5 5 demo_approved) = 403" by code_simp
  then obtain w' where w': "serve demo_collaborators demo_operator (EpCancel 1 ''no'') 5 5 demo_approved = (403, w')"
    by (metis prod.collapse)
  have "w_runs demo_approved = []" "w_audit demo_approved = []" by (simp_all add: demo_approved_def)
  with refused_changes_nothing [OF w'] w' show ?thesis by (simp add: Let_def)
qed

text \<open>The check and the run are separate steps: two requests that both pass the check before either
  finishes run the push twice, and the second one's mark fails.\<close>

lemma double_apply_race:
  "let (r1, w) = apply_check demo_operator 1 demo_approved;
       (r2, w) = apply_check demo_operator 1 w;
       (c1, w) = apply_finish demo_collaborators demo_operator 1 (projr r1) (3 * second) (3 * second) w;
       (c2, w) = apply_finish demo_collaborators demo_operator 1 (projr r2) (4 * second) (4 * second) w
   in c1 = 200 \<and> c2 = 500 \<and> w_runs w = [PushRun 1 3, PushRun 1 3]"
  by code_simp

text \<open>An administrator approves a request of his own: the endpoint passes \<open>allowSelf\<close> exactly for
  the role its route requires.\<close>

lemma admin_approves_own:
  "let admin = \<lparr>u_ID = 7, u_TenantID = 1, u_Username = ''root'', u_Role = RoleAdmin\<rparr>;
       w = \<lparr>w_db = cr_run (take 2 demo_run) empty_change_db, w_runs = [], w_audit = []\<rparr>
   in map cr_RequesterID (map scanRequest (rows (change_requests (w_db w)))) = [7] \<and>
      fst (handleApproveChangeRequest admin 1 ''ok'' (2 * second) (2 * second) w) = 200"
  by code_simp

end
