(* ===== verification/Storage.thy ===== *)
theory Storage
  imports Sql
begin

text \<open>
  Opening the database and migrating its schema (\<open>internal/storage/storage.go\<close>). A statement of
  a script is run by SQLite: the effect of one statement on the schema is a parameter. The
  migration files are a parameter too (the name and text of each embedded file); their names
  have no leading blanks. SQLite commits each statement on its own, as the code opens no
  transaction.
\<close>

section \<open>Opening\<close>

text \<open>The data source name handed to the driver, and whether the directory of the file is created
  first.\<close>

definition dsn_pragmas :: string where
  "dsn_pragmas = ''?_pragma=journal_mode%28WAL%29&_pragma=foreign_keys%28ON%29&_pragma=busy_timeout%285000%29''"

definition open_plan :: "string \<Rightarrow> string \<Rightarrow> string + bool \<times> string" where
  "open_plan driver dsn =
     (if driver \<noteq> ''sqlite'' then Inl (''storage: unsupported driver '' @ [CHR 0x22] @ driver @ [CHR 0x22])
      else Inr (\<not> has_prefix dsn '':'' \<and> \<not> str_contains dsn ''memory'',
                if str_contains dsn ''?'' then dsn else dsn @ dsn_pragmas))"

section \<open>Splitting a script\<close>

datatype scan_mode = Plain | InString | InLine

text \<open>\<open>splitStatements\<close>: the loop with its mode and its buffer.\<close>

abbreviation sq :: char where "sq \<equiv> CHR 0x27"

fun split_from :: "scan_mode \<Rightarrow> string \<Rightarrow> string \<Rightarrow> string list" where
  "split_from m buf [] = (if trim_space buf \<noteq> [] then [buf] else [])"
| "split_from InLine buf (c # s) = split_from (if c = CHR 0x0A then Plain else InLine) (buf @ [c]) s"
| "split_from InString buf (c # s) =
     (if c = sq \<and> s \<noteq> [] \<and> hd s = sq then split_from InString (buf @ [c, sq]) (tl s)
      else split_from (if c = sq then Plain else InString) (buf @ [c]) s)"
| "split_from Plain buf (c # s) =
     (if c = CHR ''-'' \<and> s \<noteq> [] \<and> hd s = CHR ''-'' then split_from InLine (buf @ [c]) s
      else if c = sq then split_from InString (buf @ [c]) s
      else if c = CHR '';'' then buf # split_from Plain [] s
      else split_from Plain (buf @ [c]) s)"

definition splitStatements :: "string \<Rightarrow> string list" where
  "splitStatements script = split_from Plain [] script"

section \<open>Migrating\<close>

record mig_file =
  mf_name :: string
  mf_dir :: bool
  mf_body :: "string + string"

text \<open>\<open>fmt.Sscanf(name, "%04d_", &v)\<close>: an optional sign and digits, four characters at most, then
  an underscore.\<close>

definition scan_version :: "string \<Rightarrow> int option" where
  "scan_version name =
     (let sign = (case name of c # _ \<Rightarrow> c = CHR ''+'' \<or> c = CHR ''-'' | [] \<Rightarrow> False);
          neg = (case name of c # _ \<Rightarrow> c = CHR ''-'' | [] \<Rightarrow> False);
          n = (if sign then drop 1 name else name);
          ds = takeWhile is_digit (take (if sign then 3 else 4) n);
          v = foldl (\<lambda>a d. 10 * a + (of_char d - 48)) (0 :: int) ds
      in if ds \<noteq> [] \<and> has_prefix (drop (length ds) n) ''_'' then Some (if neg then - v else v) else None)"

text \<open>The versions of the files, or the name of a bad one, in the order of the directory.\<close>

fun mig_versions :: "mig_file list \<Rightarrow> string + (int \<times> mig_file) list" where
  "mig_versions [] = Inr []"
| "mig_versions (f # fs) =
     (if mf_dir f \<or> \<not> has_suffix (mf_name f) ''.sql'' then mig_versions fs
      else (case scan_version (mf_name f) of
        None \<Rightarrow> Inl (''storage: bad migration filename '' @ [CHR 0x22] @ mf_name f @ [CHR 0x22])
      | Some v \<Rightarrow> map_sum id (\<lambda>r. (v, f) # r) (mig_versions fs)))"

record 'd mig_db = conn +
  versions :: "(int \<times> stamp) list"
  schema :: 'd

type_synonym 'd runner = "string \<Rightarrow> 'd \<Rightarrow> string + 'd"

text \<open>One statement of a script, and a script.\<close>

fun run_script :: "'d runner \<Rightarrow> string \<Rightarrow> string list \<Rightarrow> 'd mig_db \<Rightarrow> (string + unit) \<times> 'd mig_db" where
  "run_script R name [] s = (Inr (), s)"
| "run_script R name (st # sts) s =
     (if trim_space st = [] then run_script R name sts s
      else (case exec id s (\<lambda>s. case R st (schema s) of
                Inl e \<Rightarrow> (Inl e, s) | Inr d \<Rightarrow> (Inr (), s\<lparr>schema := d\<rparr>)) of
              (Inl e, s) \<Rightarrow> (Inl (''storage: migration '' @ name @ '': '' @ e), s)
            | (Inr _, s) \<Rightarrow> run_script R name sts s))"

definition record_version :: "time \<Rightarrow> int \<Rightarrow> string \<Rightarrow> 'd mig_db \<Rightarrow> (string + unit) \<times> 'd mig_db" where
  "record_version now v name s =
     exec (\<lambda>e. ''storage: record migration '' @ name @ '': '' @ e) s (\<lambda>s.
       if v \<in> fst ` set (versions s)
       then (Inl (''storage: record migration '' @ name @ '': UNIQUE constraint failed''), s)
       else (Inr (), s\<lparr>versions := versions s @ [(v, rfc3339 now)]\<rparr>))"

fun apply_migrations ::
  "'d runner \<Rightarrow> time \<Rightarrow> int set \<Rightarrow> (int \<times> mig_file) list \<Rightarrow> 'd mig_db \<Rightarrow> (string + unit) \<times> 'd mig_db" where
  "apply_migrations R now applied [] s = (Inr (), s)"
| "apply_migrations R now applied ((v, f) # ms) s =
     (if v \<in> applied then apply_migrations R now applied ms s
      else (case mf_body f of
        Inl e \<Rightarrow> (Inl e, s)
      | Inr body \<Rightarrow> and_then (run_script R (mf_name f) (splitStatements body) s) (\<lambda>_ s.
          and_then (record_version now v (mf_name f) s) (\<lambda>_ s. apply_migrations R now applied ms s))))"

definition Migrate :: "'d runner \<Rightarrow> time \<Rightarrow> mig_file list \<Rightarrow> 'd mig_db \<Rightarrow> (string + unit) \<times> 'd mig_db" where
  "Migrate R now files s = exec (\<lambda>e. ''storage: bootstrap migrations table: '' @ e) s (\<lambda>s.
     case mig_versions files of
       Inl e \<Rightarrow> (Inl e, s)
     | Inr all \<Rightarrow> exec (\<lambda>e. ''storage: list applied: '' @ e) s (\<lambda>s.
         apply_migrations R now (fst ` set (versions s)) (sort_key fst all) s))"

section \<open>The statements of a script come back\<close>

text \<open>The mode after a text, \<open>None\<close> when it has a semicolon of its own.\<close>

fun scan_text :: "scan_mode \<Rightarrow> string \<Rightarrow> scan_mode option" where
  "scan_text m [] = Some m"
| "scan_text InLine (c # s) = scan_text (if c = CHR 0x0A then Plain else InLine) s"
| "scan_text InString (c # s) =
     (if c = sq \<and> s \<noteq> [] \<and> hd s = sq then scan_text InString (tl s)
      else scan_text (if c = sq then Plain else InString) s)"
| "scan_text Plain (c # s) =
     (if c = CHR ''-'' \<and> s \<noteq> [] \<and> hd s = CHR ''-'' then scan_text InLine s
      else if c = sq then scan_text InString s
      else if c = CHR '';'' then None
      else scan_text Plain s)"

text \<open>A statement on its own: quotes and comments closed, semicolons only inside them.\<close>

definition complete_statement :: "string \<Rightarrow> bool" where
  "complete_statement s \<longleftrightarrow> scan_text Plain s = Some Plain"

lemma split_scan:
  "scan_text m a = Some Plain \<Longrightarrow> split_from m buf (a @ CHR '';'' # s) = (buf @ a) # split_from Plain [] s"
proof (induction m a arbitrary: buf rule: scan_text.induct)
  case (3 c t)
  have h: "(t @ CHR '';'' # s \<noteq> [] \<and> hd (t @ CHR '';'' # s) = sq) \<longleftrightarrow> (t \<noteq> [] \<and> hd t = sq)"
    by (cases t) auto
  show ?case
  proof (cases "c = sq \<and> t \<noteq> [] \<and> hd t = sq")
    case True
    with 3 have "split_from InString (buf @ [c, sq]) (tl t @ CHR '';'' # s) =
        (buf @ [c, sq] @ tl t) # split_from Plain [] s" by simp
    with True show ?thesis by (cases t) auto
  next
    case False
    with "3.prems" have "scan_text (if c = sq then Plain else InString) t = Some Plain" by (simp split: if_splits)
    from "3.IH"(2) [OF False this, of "buf @ [c]"] False h show ?thesis
      by (simp only: append_Cons split_from.simps) auto
  qed
next
  case (4 c t)
  have h: "(t @ CHR '';'' # s \<noteq> [] \<and> hd (t @ CHR '';'' # s) = CHR ''-'') \<longleftrightarrow> (t \<noteq> [] \<and> hd t = CHR ''-'')"
    by (cases t) auto
  show ?case
  proof (cases "c = CHR ''-'' \<and> t \<noteq> [] \<and> hd t = CHR ''-''")
    case True
    with 4 have "split_from InLine (buf @ [c]) (t @ CHR '';'' # s) = (buf @ [c] @ t) # split_from Plain [] s"
      by simp
    with True show ?thesis by auto
  next
    case False
    with "4.prems" have "c \<noteq> CHR '';''" "scan_text (if c = sq then InString else Plain) t = Some Plain"
      by (auto split: if_splits)
    with "4.IH"(2) [OF False] "4.IH"(3) [OF False]
    have "split_from (if c = sq then InString else Plain) (buf @ [c]) (t @ CHR '';'' # s) =
        (buf @ [c] @ t) # split_from Plain [] s" by (cases "c = sq") simp_all
    with False h \<open>c \<noteq> CHR '';''\<close> show ?thesis
      by (simp only: append_Cons split_from.simps) (auto split: if_splits)
  qed
qed auto

text \<open>Splitting a script gives back its statements: a script of complete statements, each
  followed by a semicolon, splits into exactly these statements, whatever semicolons, dashes
  and doubled quotes their string literals and comments hold.\<close>
theorem split_joined:
  assumes "\<forall>st \<in> set sts. complete_statement st"
  shows "splitStatements (concat (map (\<lambda>st. st @ '';'') sts)) = sts"
  using assms unfolding splitStatements_def complete_statement_def
proof (induction sts)
  case (Cons st sts)
  then show ?case
    using split_scan [of Plain st "[]" "concat (map (\<lambda>st. st @ '';'') sts)"] by simp
qed (simp add: trim_space_def)

definition demo_statements :: "string list" where
  "demo_statements = [''A '' @ [sq] @ '';-- '' @ [sq, sq] @ ''x'' @ [sq], ''B -- c;d'' @ [CHR 0x0A] @ ''E'']"

theorem split_joined_witness:
  "splitStatements (concat (map (\<lambda>st. st @ '';'') demo_statements)) = demo_statements"
  by (rule split_joined) code_simp

section \<open>What a successful migration did\<close>

fun run_all :: "'d runner \<Rightarrow> string list \<Rightarrow> 'd \<Rightarrow> string + 'd" where
  "run_all R [] d = Inr d"
| "run_all R (st # sts) d = (case R st d of Inl e \<Rightarrow> Inl e | Inr d \<Rightarrow> run_all R sts d)"

definition statements_of :: "mig_file \<Rightarrow> string list" where
  "statements_of f = (case mf_body f of Inl _ \<Rightarrow> []
     | Inr body \<Rightarrow> filter (\<lambda>st. trim_space st \<noteq> []) (splitStatements body))"

text \<open>The files still to apply, in version order.\<close>

definition pending :: "(int \<times> mig_file) list \<Rightarrow> 'd mig_db \<Rightarrow> (int \<times> mig_file) list" where
  "pending all s = filter (\<lambda>m. fst m \<notin> fst ` set (versions s)) (sort_key fst all)"

lemma run_all_append:
  "run_all R (xs @ ys) d = (case run_all R xs d of Inl e \<Rightarrow> Inl e | Inr d \<Rightarrow> run_all R ys d)"
  by (induction xs arbitrary: d) (auto split: sum.splits)

lemma run_script_ok:
  "run_script R name sts s = (Inr (), s') \<Longrightarrow>
     versions s' = versions s \<and> run_all R (filter (\<lambda>st. trim_space st \<noteq> []) sts) (schema s) = Inr (schema s')"
proof (induction R name sts s rule: run_script.induct)
  case (2 R name st sts s)
  show ?case
  proof (cases "trim_space st = []")
    case False
    obtain x c where c: "stmt s = (x, c)" by force
    then obtain fs where fs: "c = s\<lparr>faults := fs\<rparr>" using stmt_truncate by blast
    from False "2.prems" c obtain d where d: "x = None" "R st (schema s) = Inr d"
      by (auto simp: exec_def fs split: option.splits sum.splits)
    with False "2.prems" c fs have "run_script R name sts (s\<lparr>faults := fs, schema := d\<rparr>) = (Inr (), s')"
      by (simp add: exec_def)
    moreover have "exec id s (\<lambda>s. case R st (schema s) of Inl e \<Rightarrow> (Inl e, s) | Inr d \<Rightarrow> (Inr (), s\<lparr>schema := d\<rparr>)) =
        (Inr (), s\<lparr>faults := fs, schema := d\<rparr>)" using c fs d by (simp add: exec_def)
    ultimately show ?thesis using "2.IH"(2) [OF False] d False by auto
  qed (use 2 in simp)
qed simp

lemma apply_ok:
  "apply_migrations R now applied ms s = (Inr (), s') \<Longrightarrow>
     run_all R (concat (map (statements_of \<circ> snd) (filter (\<lambda>m. fst m \<notin> applied) ms))) (schema s) = Inr (schema s') \<and>
     map fst (versions s') = map fst (versions s) @ map fst (filter (\<lambda>m. fst m \<notin> applied) ms)"
proof (induction R now applied ms s rule: apply_migrations.induct)
  case (2 R now applied v f ms s)
  show ?case
  proof (cases "v \<in> applied")
    case False
    with "2.prems" obtain body where b: "mf_body f = Inr body" by (auto split: sum.splits)
    with False "2.prems" obtain s1 where s1: "run_script R (mf_name f) (splitStatements body) s = (Inr (), s1)"
      "and_then (record_version now v (mf_name f) s1) (\<lambda>_ s. apply_migrations R now applied ms s) = (Inr (), s')"
      by (cases "run_script R (mf_name f) (splitStatements body) s";
          cases "fst (run_script R (mf_name f) (splitStatements body) s)") auto
    obtain q s2 where q: "record_version now v (mf_name f) s1 = (q, s2)" by force
    with s1(2) have s2: "q = Inr ()" "apply_migrations R now applied ms s2 = (Inr (), s')"
      by (cases q; simp)+
    have "post (\<lambda>r t. r = Inr () \<longrightarrow> schema t = schema s1 \<and> map fst (versions t) = map fst (versions s1) @ [v])
        (record_version now v (mf_name f) s1)"
      unfolding record_version_def by (rule post_exec) auto
    from postD [OF this q] s2(1) have t: "schema s2 = schema s1" "map fst (versions s2) = map fst (versions s1) @ [v]"
      by simp_all
    from run_script_ok [OF s1(1)] "2.IH"(2) [OF False b s2(2)] False b t
    show ?thesis by (simp add: run_all_append statements_of_def)
  qed (use 2 in simp)
qed simp

lemma apply_nothing: "fst ` set ms \<subseteq> applied \<Longrightarrow> apply_migrations R now applied ms s = (Inr (), s)"
  by (induction R now applied ms s rule: apply_migrations.induct) auto

text \<open>A successful migration ran exactly the statements of the files not yet recorded, in the
  order of their versions, and recorded these versions; running it again does nothing.\<close>
theorem migrate_ran_pending:
  assumes "Migrate R now files s = (Inr (), s')"
  shows "\<exists>all. mig_versions files = Inr all \<and>
      run_all R (concat (map (statements_of \<circ> snd) (pending all s))) (schema s) = Inr (schema s') \<and>
      map fst (versions s') = map fst (versions s) @ map fst (pending all s) \<and>
      (\<forall>R' later. faults s' = [] \<longrightarrow> Migrate R' later files s' = (Inr (), s'))"
proof -
  have "post (\<lambda>r t. r = Inr () \<longrightarrow> (\<exists>all u. mig_versions files = Inr all \<and>
      versions u = versions s \<and> schema u = schema s \<and>
      apply_migrations R now (fst ` set (versions s)) (sort_key fst all) u = (Inr (), t))) (Migrate R now files s)"
  proof (cases "mig_versions files")
    case (Inr all)
    then show ?thesis
      unfolding Migrate_def
      by (intro post_exec; simp; intro post_exec)
        (auto simp: post_def intro: exI [of _ "s\<lparr>faults := fs\<rparr>" for fs])
  qed (auto simp: Migrate_def intro: post_exec)
  from postD [OF this assms] obtain all u where a: "mig_versions files = Inr all"
    "versions u = versions s" "schema u = schema s"
    "apply_migrations R now (fst ` set (versions s)) (sort_key fst all) u = (Inr (), s')" by auto
  from apply_ok [OF a(4)] a(2,3) have ok:
    "run_all R (concat (map (statements_of \<circ> snd) (pending all s))) (schema s) = Inr (schema s')"
    "map fst (versions s') = map fst (versions s) @ map fst (pending all s)"
    by (simp_all add: pending_def)
  have "fst ` set (versions s') = set (map fst (versions s'))" by simp
  then have "fst ` set (sort_key fst all) \<subseteq> fst ` set (versions s')"
    by (auto simp: ok(2) pending_def)
  then have "Migrate R' later files s' = (Inr (), s')" if "faults s' = []" for R' later
    using that a(1) by (simp add: Migrate_def apply_nothing)
  with a(1) ok show ?thesis by auto
qed

text \<open>A schema as the list of its statements; a statement run twice is refused, as SQLite refuses
  to add a column twice.\<close>

definition demo_runner :: "string list runner" where
  "demo_runner st d = (if st \<in> set d then Inl ''duplicate column name'' else Inr (d @ [st]))"

definition demo_files :: "mig_file list" where
  "demo_files = [\<lparr>mf_name = ''0001_init.sql'', mf_dir = False, mf_body = Inr ''ADD a;ADD b;''\<rparr>,
     \<lparr>mf_name = ''0010_last.sql'', mf_dir = False, mf_body = Inr ''ADD e;''\<rparr>,
     \<lparr>mf_name = ''0002_more.sql'', mf_dir = False, mf_body = Inr ''ADD c;ADD d;''\<rparr>]"

definition demo_mig :: "string option list \<Rightarrow> string list mig_db" where
  "demo_mig fs = \<lparr>faults = fs, last_rowid = 0, versions = [], schema = []\<rparr>"

theorem migrate_ran_pending_witness:
  "\<exists>s'. Migrate demo_runner 0 demo_files (demo_mig []) = (Inr (), s') \<and>
     schema s' = [''ADD a'', ''ADD b'', ''ADD c'', ''ADD d'', ''ADD e''] \<and>
     map fst (versions s') = [1, 2, 10] \<and> Migrate demo_runner 9 demo_files s' = (Inr (), s')"
proof -
  have h: "fst (Migrate demo_runner 0 demo_files (demo_mig [])) = Inr ()"
    "schema (snd (Migrate demo_runner 0 demo_files (demo_mig []))) =
       [''ADD a'', ''ADD b'', ''ADD c'', ''ADD d'', ''ADD e'']"
    "map fst (versions (snd (Migrate demo_runner 0 demo_files (demo_mig [])))) = [1, 2, 10]"
    "faults (snd (Migrate demo_runner 0 demo_files (demo_mig []))) = []" by code_simp+
  then obtain s' where s': "Migrate demo_runner 0 demo_files (demo_mig []) = (Inr (), s')" by (metis prod.collapse)
  with h migrate_ran_pending [OF s'] show ?thesis by auto
qed

text \<open>A migration that fails in the middle is not rolled back: its first statements stay, and when
  one of them cannot be repeated every later migration fails on it.\<close>

lemma interrupted_migration_is_stuck:
  "let s1 = snd (Migrate demo_runner 0 demo_files (demo_mig [None, None, None, Some ''disk full'']));
       (r, s2) = Migrate demo_runner 0 demo_files s1
   in schema s1 = [''ADD a''] \<and> versions s1 = [] \<and> faults s1 = [] \<and>
      r = Inl ''storage: migration 0001_init.sql: duplicate column name'' \<and> s2 = s1"
  by code_simp

end
