(* ===== verification/AuditLog.thy ===== *)
theory AuditLog
  imports Sql
begin

text \<open>
  The append-only audit log (\<open>internal/audit/audit.go\<close>): writing an entry, which never fails for
  the caller, and the filtered listing. Texts hold no NUL byte.
\<close>

section \<open>State\<close>

record audit_row =
  au_id :: int
  au_tenant :: "int option"
  au_actor :: "int option"
  au_action :: string
  au_target :: string
  au_detail :: string
  au_source :: "string option"
  au_request :: "string option"
  au_created :: stamp

record audit_db = conn +
  audit_log :: "audit_row sql_table"

record Entry =
  e_ID :: int
  e_TenantID :: "int option"
  e_ActorUserID :: "int option"
  e_Action :: string
  e_Target :: string
  e_Detail :: string
  e_Source :: string
  e_RequestID :: string
  e_CreatedAt :: time

record ListFilter =
  f_TenantID :: int
  f_ActorUserID :: int
  f_Action :: string
  f_Target :: string
  f_RequestID :: string
  f_Since :: time
  f_Until :: time
  f_Limit :: int
  f_Offset :: int

definition SourceUI :: string where "SourceUI = ''ui''"
definition SourceAPI :: string where "SourceAPI = ''api''"
definition SourceScheduler :: string where "SourceScheduler = ''scheduler''"
definition SourcePoller :: string where "SourcePoller = ''poller''"
definition SourceSystem :: string where "SourceSystem = ''system''"

section \<open>Writing\<close>

definition RecordWithRequest ::
  "time \<Rightarrow> int \<Rightarrow> int \<Rightarrow> string \<Rightarrow> string \<Rightarrow> string \<Rightarrow> string \<Rightarrow> string \<Rightarrow> 'a audit_db_scheme \<Rightarrow> 'a audit_db_scheme" where
  "RecordWithRequest now tenantID actorUserID requestID source action target detail s =
     exec_quiet s (\<lambda>s. s\<lparr>audit_log := insert_row (\<lambda>n. \<lparr>au_id = n,
         au_tenant = (if tenantID > 0 then Some tenantID else None),
         au_actor = (if actorUserID > 0 then Some actorUserID else None),
         au_action = action, au_target = target, au_detail = detail, au_source = Some source,
         au_request = (if requestID \<noteq> [] then Some requestID else None), au_created = rfc3339 now\<rparr>)
         (audit_log s), last_rowid := next_rowid (audit_log s)\<rparr>)"

definition RecordEntry ::
  "time \<Rightarrow> int \<Rightarrow> int \<Rightarrow> string \<Rightarrow> string \<Rightarrow> string \<Rightarrow> string \<Rightarrow> 'a audit_db_scheme \<Rightarrow> 'a audit_db_scheme" where
  "RecordEntry now tenantID actorUserID source action target detail s =
     RecordWithRequest now tenantID actorUserID [] source action target detail s"

section \<open>Listing\<close>

text \<open>SQLite's \<open>LIKE\<close>: \<open>%\<close> matches any text, an underscore one character (a byte of 0xC0 or more
  with its continuation bytes), letters match without case.\<close>

definition skip_char :: "string \<Rightarrow> string" where
  "skip_char s = (case s of [] \<Rightarrow> []
     | c # t \<Rightarrow> if (of_char c :: nat) \<ge> 0xC0
                then dropWhile (\<lambda>d. (of_char d :: nat) \<ge> 0x80 \<and> (of_char d :: nat) < 0xC0) t else t)"

lemma skip_char_shorter [termination_simp]: "length (skip_char (c # t)) \<le> length t"
  by (simp add: skip_char_def length_dropWhile_le)

fun sql_like :: "string \<Rightarrow> string \<Rightarrow> bool" where
  "sql_like [] s \<longleftrightarrow> s = []"
| "sql_like (c # p) [] \<longleftrightarrow> c = CHR ''%'' \<and> sql_like p []"
| "sql_like (c # p) (d # s) \<longleftrightarrow>
     (if c = CHR ''%'' then sql_like p (d # s) \<or> sql_like (c # p) (skip_char (d # s))
      else if c = CHR ''_'' then sql_like p (skip_char (d # s))
      else lower_char c = lower_char d \<and> sql_like p s)"

definition entry_of :: "audit_row \<Rightarrow> Entry" where
  "entry_of r = \<lparr>e_ID = au_id r, e_TenantID = au_tenant r, e_ActorUserID = au_actor r, e_Action = au_action r,
     e_Target = au_target r, e_Detail = au_detail r,
     e_Source = (case au_source r of None \<Rightarrow> [] | Some x \<Rightarrow> x),
     e_RequestID = (case au_request r of None \<Rightarrow> [] | Some x \<Rightarrow> x), e_CreatedAt = of_stamp (au_created r)\<rparr>"

definition list_where :: "ListFilter \<Rightarrow> audit_row \<Rightarrow> bool" where
  "list_where f r \<longleftrightarrow>
     (f_TenantID f > 0 \<longrightarrow> au_tenant r = Some (f_TenantID f)) \<and>
     (f_ActorUserID f > 0 \<longrightarrow> au_actor r = Some (f_ActorUserID f)) \<and>
     (f_Action f \<noteq> [] \<longrightarrow> au_action r = f_Action f) \<and>
     (f_Target f \<noteq> [] \<longrightarrow> sql_like (''%'' @ f_Target f @ ''%'') (au_target r)) \<and>
     (f_RequestID f \<noteq> [] \<longrightarrow> au_request r = Some (f_RequestID f)) \<and>
     (f_Since f \<noteq> zero_time \<longrightarrow> rfc3339 (f_Since f) \<le> au_created r) \<and>
     (f_Until f \<noteq> zero_time \<longrightarrow> au_created r \<le> rfc3339 (f_Until f))"

text \<open>SQLite reads a negative \<open>OFFSET\<close> as none.\<close>

definition ListEntries :: "ListFilter \<Rightarrow> 'a audit_db_scheme \<Rightarrow> (string + Entry list) \<times> 'a audit_db_scheme" where
  "ListEntries f s =
     (let limit = (if f_Limit f \<le> 0 \<or> f_Limit f > 500 then 100 else f_Limit f)
      in exec id s (\<lambda>s. (Inr (map entry_of (take (nat limit) (drop (nat (f_Offset f))
           (order_desc au_id (filter (list_where f) (rows (audit_log s))))))), s)))"

section \<open>What it promises\<close>

lemma Record_audit_only:
  "\<exists>t fs n. RecordWithRequest now ten actor req src act tgt det s = s\<lparr>faults := fs, audit_log := t, last_rowid := n\<rparr>"
proof -
  have skip: "\<exists>t gs n. s\<lparr>faults := fs\<rparr> = s\<lparr>faults := gs, audit_log := t, last_rowid := n\<rparr>" for fs
    by (rule exI [of _ "audit_log s"], rule exI [of _ fs], rule exI [of _ "last_rowid s"]) (cases s, simp)
  show ?thesis
    unfolding RecordWithRequest_def
    by (rule exec_quiet_post [where Q = "\<lambda>x. \<exists>t fs n. x = s\<lparr>faults := fs, audit_log := t, last_rowid := n\<rparr>"])
      (use skip in \<open>auto simp del: exec_quiet_no_faults\<close>)
qed

text \<open>The log is append-only: an entry once written stays as it is.\<close>

lemma Record_appends:
  "\<exists>ys. rows (audit_log (RecordWithRequest now ten actor req src act tgt det s)) = rows (audit_log s) @ ys"
  unfolding RecordWithRequest_def
  by (rule exec_quiet_post [where Q = "\<lambda>x. \<exists>ys. rows (audit_log x) = rows (audit_log s) @ ys"]) auto

lemma ListEntries_scoped:
  assumes "ListEntries f s = (Inr es, s')" and "f_TenantID f > 0"
  shows "(\<forall>e \<in> set es. e_TenantID e = Some (f_TenantID f)) \<and> length es \<le> 500"
proof -
  have "post (\<lambda>r s'. \<forall>es. r = Inr es \<longrightarrow> (\<forall>e \<in> set es. e_TenantID e = Some (f_TenantID f)) \<and> length es \<le> 500)
      (ListEntries f s)"
    using assms(2) unfolding ListEntries_def Let_def
    by (intro post_exec)
      (auto simp: entry_of_def list_where_def order_desc_def dest!: in_set_takeD in_set_dropD)
  from postD [OF this assms(1)] show ?thesis by simp
qed

text \<open>The target filter is described as a substring; its wildcards are not escaped.\<close>

lemma target_filter_wildcard: "sql_like (''%'' @ ''device:_'' @ ''%'') ''xx DEVICE:7 yy''"
  by code_simp

end
