(* ===== verification/Devices.thy ===== *)
theory Devices
  imports AuditLog "HOL-Library.List_Lexorder" "HOL-Library.Char_ord"
begin

text \<open>
  The inventory: devices and device groups of a tenant (\<open>internal/devices/repo.go\<close>). The
  schema makes host names unique per tenant and group names unique per tenant; a foreign key
  that does not resolve is one of the faults of a statement. Host names and group names are
  compared as bytes, SQLite's default collation.
\<close>

section \<open>Data\<close>

record Device =
  d_ID :: int
  d_TenantID :: int
  d_Hostname :: string
  d_Address :: string
  d_Port :: int
  d_Driver :: string
  d_GroupID :: "int option"
  d_CredentialID :: "int option"
  d_CreatedAt :: time

record Group =
  g_ID :: int
  g_TenantID :: int
  g_Name :: string
  g_CreatedAt :: time

record device_row =
  dv_id :: int
  dv_tenant :: int
  dv_hostname :: string
  dv_address :: string
  dv_port :: int
  dv_driver :: string
  dv_group :: "int option"
  dv_credential :: "int option"
  dv_created :: stamp

record group_row =
  gr_id :: int
  gr_tenant :: int
  gr_name :: string
  gr_created :: stamp

record device_db = audit_db +
  device_groups :: "group_row sql_table"
  devices :: "device_row sql_table"

datatype dev_err = DevNotFound | DevInvalid string | DevInsert string | DevDB string

section \<open>Operations\<close>

definition validateDevice :: "Device \<Rightarrow> dev_err option" where
  "validateDevice d =
     (if d_TenantID d \<le> 0 then Some (DevInvalid ''devices: tenant_id required'')
      else if trim_space (d_Hostname d) = [] then Some (DevInvalid ''devices: hostname required'')
      else if trim_space (d_Address d) = [] then Some (DevInvalid ''devices: address required'')
      else if d_Port d \<le> 0 \<or> d_Port d > 65535 then Some (DevInvalid ''devices: port out of range'')
      else if trim_space (d_Driver d) = [] then Some (DevInvalid ''devices: driver required'')
      else None)"

definition device_of :: "device_row \<Rightarrow> Device" where
  "device_of r = \<lparr>d_ID = dv_id r, d_TenantID = dv_tenant r, d_Hostname = dv_hostname r,
     d_Address = dv_address r, d_Port = dv_port r, d_Driver = dv_driver r, d_GroupID = dv_group r,
     d_CredentialID = dv_credential r, d_CreatedAt = of_stamp (dv_created r)\<rparr>"

definition device_row_of :: "Device \<Rightarrow> stamp \<Rightarrow> int \<Rightarrow> device_row" where
  "device_row_of d now n = \<lparr>dv_id = n, dv_tenant = d_TenantID d, dv_hostname = d_Hostname d,
     dv_address = d_Address d, dv_port = d_Port d, dv_driver = d_Driver d, dv_group = d_GroupID d,
     dv_credential = d_CredentialID d, dv_created = now\<rparr>"

definition CreateDevice ::
  "time \<Rightarrow> Device \<Rightarrow> 'a device_db_scheme \<Rightarrow> (dev_err + Device) \<times> 'a device_db_scheme" where
  "CreateDevice now d s = (case validateDevice d of
     Some e \<Rightarrow> (Inl e, s)
   | None \<Rightarrow> exec DevInsert s (\<lambda>s.
       if list_ex (\<lambda>r. dv_tenant r = d_TenantID d \<and> dv_hostname r = d_Hostname d) (rows (devices s))
       then (Inl (DevInsert ''UNIQUE constraint failed''), s)
       else (let n = next_rowid (devices s) in
         (Inr (d\<lparr>d_ID := n, d_CreatedAt := now\<rparr>),
          s\<lparr>devices := insert_row (device_row_of d (rfc3339 now)) (devices s), last_rowid := n\<rparr>))))"

definition GetDevice ::
  "int \<Rightarrow> int \<Rightarrow> 'a device_db_scheme \<Rightarrow> (dev_err + Device) \<times> 'a device_db_scheme" where
  "GetDevice tenantID i s = exec DevDB s (\<lambda>s.
     case query_row (\<lambda>r. dv_tenant r = tenantID \<and> dv_id r = i) (devices s) of
       None \<Rightarrow> (Inl DevNotFound, s) | Some r \<Rightarrow> (Inr (device_of r), s))"

definition ListDevices ::
  "int \<Rightarrow> 'a device_db_scheme \<Rightarrow> (dev_err + Device list) \<times> 'a device_db_scheme" where
  "ListDevices tenantID s = exec DevDB s (\<lambda>s.
     (Inr (map device_of (order_asc dv_hostname (filter (\<lambda>r. dv_tenant r = tenantID) (rows (devices s))))), s))"

definition device_set :: "Device \<Rightarrow> device_row \<Rightarrow> device_row" where
  "device_set d r = r\<lparr>dv_hostname := d_Hostname d, dv_address := d_Address d, dv_port := d_Port d,
     dv_driver := d_Driver d, dv_group := d_GroupID d, dv_credential := d_CredentialID d\<rparr>"

definition UpdateDevice ::
  "Device \<Rightarrow> 'a device_db_scheme \<Rightarrow> (dev_err + Device) \<times> 'a device_db_scheme" where
  "UpdateDevice d s = (case validateDevice d of
     Some e \<Rightarrow> (Inl e, s)
   | None \<Rightarrow> exec DevDB s (\<lambda>s.
       let P = (\<lambda>r. dv_tenant r = d_TenantID d \<and> dv_id r = d_ID d) in
       if affected P (devices s) = 0 then (Inl DevNotFound, s)
       else if list_ex (\<lambda>r. \<not> P r \<and> dv_tenant r = d_TenantID d \<and> dv_hostname r = d_Hostname d)
                 (rows (devices s))
       then (Inl (DevDB ''UNIQUE constraint failed''), s)
       else GetDevice (d_TenantID d) (d_ID d) (s\<lparr>devices := update_rows P (device_set d) (devices s)\<rparr>)))"

definition DeleteDevice ::
  "int \<Rightarrow> int \<Rightarrow> 'a device_db_scheme \<Rightarrow> (dev_err + unit) \<times> 'a device_db_scheme" where
  "DeleteDevice tenantID i s = exec DevDB s (\<lambda>s.
     let P = (\<lambda>r. dv_tenant r = tenantID \<and> dv_id r = i) in
     (if affected P (devices s) = 0 then Inl DevNotFound else Inr (),
      s\<lparr>devices := delete_rows P (devices s)\<rparr>))"

definition CreateGroup ::
  "time \<Rightarrow> Group \<Rightarrow> 'a device_db_scheme \<Rightarrow> (dev_err + Group) \<times> 'a device_db_scheme" where
  "CreateGroup now g s =
     (if trim_space (g_Name g) = [] then (Inl (DevInvalid ''devices: group name required''), s)
      else exec DevDB s (\<lambda>s.
        if list_ex (\<lambda>r. gr_tenant r = g_TenantID g \<and> gr_name r = g_Name g) (rows (device_groups s))
        then (Inl (DevDB ''UNIQUE constraint failed''), s)
        else (let n = next_rowid (device_groups s) in
          (Inr (g\<lparr>g_ID := n, g_CreatedAt := now\<rparr>),
           s\<lparr>device_groups := insert_row (\<lambda>n. \<lparr>gr_id = n, gr_tenant = g_TenantID g, gr_name = g_Name g,
                gr_created = rfc3339 now\<rparr>) (device_groups s), last_rowid := n\<rparr>))))"

definition group_of :: "group_row \<Rightarrow> Group" where
  "group_of r = \<lparr>g_ID = gr_id r, g_TenantID = gr_tenant r, g_Name = gr_name r,
     g_CreatedAt = of_stamp (gr_created r)\<rparr>"

definition ListGroups ::
  "int \<Rightarrow> 'a device_db_scheme \<Rightarrow> (dev_err + Group list) \<times> 'a device_db_scheme" where
  "ListGroups tenantID s = exec DevDB s (\<lambda>s.
     (Inr (map group_of (order_asc gr_name (filter (\<lambda>r. gr_tenant r = tenantID) (rows (device_groups s))))), s))"

section \<open>The type of a stored device\<close>

definition device_typed :: "device_row \<Rightarrow> bool" where
  "device_typed r \<longleftrightarrow> 0 < dv_tenant r \<and> trim_space (dv_hostname r) \<noteq> [] \<and>
     trim_space (dv_address r) \<noteq> [] \<and> 0 < dv_port r \<and> dv_port r < 65536 \<and> trim_space (dv_driver r) \<noteq> []"

definition host_key :: "device_row \<Rightarrow> int \<times> string" where
  "host_key r = (dv_tenant r, dv_hostname r)"

definition dev_inv :: "'a device_db_scheme \<Rightarrow> bool" where
  "dev_inv s \<longleftrightarrow> wf_table dv_id (devices s) \<and> wf_table gr_id (device_groups s) \<and>
     (\<forall>r \<in> set (rows (devices s)). device_typed r) \<and>
     inj_on host_key (set (rows (devices s)))"

lemma dev_inv_faults [simp]: "dev_inv (s\<lparr>faults := fs\<rparr>) = dev_inv s"
  "dev_inv (s\<lparr>last_rowid := n\<rparr>) = dev_inv s"
  by (simp_all add: dev_inv_def)

lemma validate_typed: "validateDevice d = None \<Longrightarrow> device_typed (device_row_of d now n)"
  by (simp add: validateDevice_def device_typed_def device_row_of_def split: if_splits)

lemma validate_set_typed:
  "validateDevice d = None \<Longrightarrow> dv_tenant r = d_TenantID d \<Longrightarrow> device_typed (device_set d r)"
  by (simp add: validateDevice_def device_typed_def device_set_def split: if_splits)

lemma device_row_simps [simp]:
  "dv_id (device_row_of d now n) = n" "host_key (device_row_of d now n) = (d_TenantID d, d_Hostname d)"
  "dv_id (device_set d r) = dv_id r" "dv_tenant (device_set d r) = dv_tenant r"
  by (simp_all add: device_row_of_def device_set_def host_key_def)

lemma host_taken: "list_ex (\<lambda>r. dv_tenant r = t \<and> dv_hostname r = h) rs \<longleftrightarrow> (t, h) \<in> host_key ` set rs"
  by (auto simp: list_ex_iff host_key_def)

lemma Create_inv: "dev_inv s \<Longrightarrow> post (\<lambda>r s. dev_inv s) (CreateDevice now d s)"
  unfolding CreateDevice_def Let_def host_taken
  by (cases "validateDevice d")
    (auto simp: dev_inv_def validate_typed inj_on_insert intro!: post_exec wf_insert_row)

lemma GetDevice_inv: "dev_inv s \<Longrightarrow> post (\<lambda>r s. dev_inv s) (GetDevice t i s)"
  unfolding GetDevice_def by (rule post_exec) (auto split: option.splits)

text \<open>An update that gives one row a key no other row has keeps the keys distinct.\<close>

lemma inj_update:
  assumes "inj_on key (set (rows t))" and "\<And>r. P r \<Longrightarrow> key (f r) = k"
    and "\<And>r. r \<in> set (rows t) \<Longrightarrow> \<not> P r \<Longrightarrow> key r \<noteq> k"
    and "\<And>r s. r \<in> set (rows t) \<Longrightarrow> s \<in> set (rows t) \<Longrightarrow> P r \<Longrightarrow> P s \<Longrightarrow> r = s"
  shows "inj_on key (set (rows (update_rows P f t)))"
proof (rule inj_onI)
  fix x y
  assume "x \<in> set (rows (update_rows P f t))" "y \<in> set (rows (update_rows P f t))" and xy: "key x = key y"
  then obtain r s where r: "r \<in> set (rows t)" "x = (if P r then f r else r)"
    and s: "s \<in> set (rows t)" "y = (if P s then f s else s)" by auto
  have "r = s"
  proof (cases "P r \<or> P s")
    case True
    with r s xy assms(2,3) have "P r \<and> P s" by (metis (no_types, lifting))
    with assms(4) r(1) s(1) show ?thesis by blast
  next
    case False
    with r s xy assms(1) show ?thesis by (auto dest: inj_onD)
  qed
  with r s show "x = y" by simp
qed

lemma update_device_inv:
  assumes "dev_inv s" and "validateDevice d = None"
    and "\<not> list_ex (\<lambda>r. \<not> (dv_tenant r = d_TenantID d \<and> dv_id r = d_ID d) \<and>
      dv_tenant r = d_TenantID d \<and> dv_hostname r = d_Hostname d) (rows (devices s))"
  shows "dev_inv (s\<lparr>devices := update_rows (\<lambda>r. dv_tenant r = d_TenantID d \<and> dv_id r = d_ID d)
    (device_set d) (devices s)\<rparr>)"
proof -
  have wf: "wf_table dv_id (devices s)" and inj: "inj_on host_key (set (rows (devices s)))"
    using assms(1) by (simp_all add: dev_inv_def)
  have "inj_on host_key (set (rows (update_rows (\<lambda>r. dv_tenant r = d_TenantID d \<and> dv_id r = d_ID d)
      (device_set d) (devices s))))"
    by (rule inj_update [OF inj, where k = "(d_TenantID d, d_Hostname d)"])
      (use assms(3) wf in \<open>auto simp: host_key_def device_set_def list_ex_iff intro: wf_table_unique\<close>)
  moreover have "\<forall>r \<in> set (rows (update_rows (\<lambda>r. dv_tenant r = d_TenantID d \<and> dv_id r = d_ID d)
      (device_set d) (devices s))). device_typed r"
    using assms(1,2) by (auto simp: dev_inv_def validate_set_typed)
  ultimately show ?thesis
    using assms(1) by (simp add: dev_inv_def wf_update_rows del: rows_update_rows)
qed

lemma UpdateDevice_inv:
  assumes "dev_inv s"
  shows "post (\<lambda>r s. dev_inv s) (UpdateDevice d s)"
proof (cases "validateDevice d")
  case None
  have "dev_inv (s\<lparr>faults := fs, devices := update_rows (\<lambda>r. dv_tenant r = d_TenantID d \<and> dv_id r = d_ID d)
      (device_set d) (devices s)\<rparr>)"
    if "\<not> list_ex (\<lambda>r. \<not> (dv_tenant r = d_TenantID d \<and> dv_id r = d_ID d) \<and>
      dv_tenant r = d_TenantID d \<and> dv_hostname r = d_Hostname d) (rows (devices s))" for fs
    using update_device_inv [of "s\<lparr>faults := fs\<rparr>", OF _ None] assms that by simp
  with None assms show ?thesis
    unfolding UpdateDevice_def Let_def by (auto intro!: post_exec GetDevice_inv)
qed (simp add: UpdateDevice_def assms)

lemma DeleteDevice_inv: "dev_inv s \<Longrightarrow> post (\<lambda>r s. dev_inv s) (DeleteDevice t i s)"
  unfolding DeleteDevice_def Let_def
  by (rule post_exec) (auto simp: dev_inv_def inj_on_def intro!: wf_delete_rows)

lemma CreateGroup_inv: "dev_inv s \<Longrightarrow> post (\<lambda>r s. dev_inv s) (CreateGroup now g s)"
  unfolding CreateGroup_def Let_def
  by (auto simp: dev_inv_def intro!: post_exec wf_insert_row)

lemma List_inv: "dev_inv s \<Longrightarrow> post (\<lambda>r s. dev_inv s) (ListDevices t s)"
  "dev_inv s \<Longrightarrow> post (\<lambda>r s. dev_inv s) (ListGroups t s)"
  unfolding ListDevices_def ListGroups_def by (rule post_exec; simp)+

section \<open>Runs\<close>

text \<open>A run: each call on behalf of a tenant, as the handlers make it (they overwrite the tenant
  of the decoded device).\<close>

datatype dev_cmd =
  DCreate time Device | DUpdate Device | DDelete int | DGet int | DList | DGroup time Group | DGroups

fun dev_do :: "int \<Rightarrow> dev_cmd \<Rightarrow> 'a device_db_scheme \<Rightarrow> 'a device_db_scheme" where
  "dev_do t (DCreate now d) s = snd (CreateDevice now (d\<lparr>d_TenantID := t\<rparr>) s)"
| "dev_do t (DUpdate d) s = snd (UpdateDevice (d\<lparr>d_TenantID := t\<rparr>) s)"
| "dev_do t (DDelete i) s = snd (DeleteDevice t i s)"
| "dev_do t (DGet i) s = snd (GetDevice t i s)"
| "dev_do t DList s = snd (ListDevices t s)"
| "dev_do t (DGroup now g) s = snd (CreateGroup now (g\<lparr>g_TenantID := t\<rparr>) s)"
| "dev_do t DGroups s = snd (ListGroups t s)"

fun dev_run :: "(int \<times> dev_cmd) list \<Rightarrow> 'a device_db_scheme \<Rightarrow> 'a device_db_scheme" where
  "dev_run [] s = s"
| "dev_run ((t, c) # cs) s = dev_run cs (dev_do t c s)"

definition empty_devices :: "string option list \<Rightarrow> device_db" where
  "empty_devices fs = \<lparr>faults = fs, last_rowid = 0, audit_log = empty_table, device_groups = empty_table, devices = empty_table\<rparr>"

definition dev_view :: "int \<Rightarrow> 'a device_db_scheme \<Rightarrow> device_row list \<times> group_row list" where
  "dev_view u s = (tenant_rows dv_tenant u (devices s), tenant_rows gr_tenant u (device_groups s))"

lemma dev_do_inv: "dev_inv s \<Longrightarrow> dev_inv (dev_do t c s)"
  by (cases c) (auto simp: post_snd [symmetric] Create_inv UpdateDevice_inv DeleteDevice_inv
      GetDevice_inv CreateGroup_inv List_inv)

lemma dev_view_faults [simp]: "dev_view u (s\<lparr>faults := fs\<rparr>) = dev_view u s"
  "dev_view u (s\<lparr>last_rowid := n\<rparr>) = dev_view u s"
  by (simp_all add: dev_view_def)

lemma dev_view_set:
  "dev_view u (s\<lparr>devices := d\<rparr>) = (tenant_rows dv_tenant u d, snd (dev_view u s))"
  "dev_view u (s\<lparr>device_groups := g\<rparr>) = (fst (dev_view u s), tenant_rows gr_tenant u g)"
  by (simp_all add: dev_view_def)

lemma Get_view: "post (\<lambda>r s'. dev_view u s' = dev_view u s) (GetDevice t i s)"
  unfolding GetDevice_def by (rule post_exec) (auto split: option.splits)

lemma dev_do_view:
  assumes "t \<noteq> u"
  shows "dev_view u (dev_do t c s) = dev_view u s"
proof (cases c)
  case (DCreate now d)
  have "post (\<lambda>r s'. dev_view u s' = dev_view u s) (CreateDevice now (d\<lparr>d_TenantID := t\<rparr>) s)"
    using assms unfolding CreateDevice_def
    by (auto simp: Let_def dev_view_set device_row_of_def dev_view_def
        split: option.splits intro!: post_exec)
  with DCreate show ?thesis by (simp add: post_snd)
next
  case (DUpdate d)
  let ?d = "d\<lparr>d_TenantID := t\<rparr>"
  let ?P = "\<lambda>r. dv_tenant r = t \<and> dv_id r = d_ID d"
  have same: "tenant_rows dv_tenant u (update_rows ?P (device_set ?d) x) = tenant_rows dv_tenant u x" for x
    by (rule tenant_rows_update_other) (use assms in auto)
  have upd: "dev_view u (s\<lparr>faults := fs, devices := update_rows ?P (device_set ?d) (devices s)\<rparr>) =
      dev_view u s" for fs
    by (simp add: dev_view_def same)
  have get: "post (\<lambda>r s'. dev_view u s' = dev_view u s)
      (GetDevice t (d_ID d) (s\<lparr>faults := fs, devices := update_rows ?P (device_set ?d) (devices s)\<rparr>))" for fs
    using Get_view [of u "s\<lparr>faults := fs, devices := update_rows ?P (device_set ?d) (devices s)\<rparr>"]
    unfolding upd .
  have "post (\<lambda>r s'. dev_view u s' = dev_view u s) (UpdateDevice ?d s)"
    unfolding UpdateDevice_def Let_def
    by (auto simp: get split: option.splits intro!: post_exec)
  with DUpdate show ?thesis by (simp add: post_snd)
next
  case (DDelete i)
  have same: "tenant_rows dv_tenant u (delete_rows (\<lambda>r. dv_tenant r = t \<and> dv_id r = i) x) = tenant_rows dv_tenant u x" for x
    by (rule tenant_rows_delete_other) (use assms in auto)
  have "post (\<lambda>r s'. dev_view u s' = dev_view u s) (DeleteDevice t i s)"
    using assms unfolding DeleteDevice_def Let_def
    by (intro post_exec) (auto simp: dev_view_def same)
  with DDelete show ?thesis by (simp add: post_snd)
next
  case (DGroup now g)
  have "post (\<lambda>r s'. dev_view u s' = dev_view u s) (CreateGroup now (g\<lparr>g_TenantID := t\<rparr>) s)"
    using assms unfolding CreateGroup_def
    by (auto simp: Let_def dev_view_def intro!: post_exec)
  with DGroup show ?thesis by (simp add: post_snd)
qed (simp_all add: Get_view [THEN post_snd [THEN iffD1]] ListDevices_def ListGroups_def
    exec_def stmt_def split: list.splits option.splits)

text \<open>Tenants do not touch each other's inventory.\<close>

interpretation dvt: tenant_isolation dev_do dev_view dev_inv
  by unfold_locales (simp_all add: dev_do_inv dev_do_view)

lemma dev_run_trun: "dev_run cs s = dvt.trun cs s"
  by (induction cs s rule: dev_run.induct) simp_all

lemma dev_run_inv: "dev_inv s \<Longrightarrow> dev_inv (dev_run cs s)"
  unfolding dev_run_trun by (rule dvt.invar_run)

lemma empty_devices_inv [simp]: "dev_inv (empty_devices fs)"
  by (simp add: dev_inv_def empty_devices_def) (simp add: empty_table_def)

lemma device_typed_iff: "device_typed r \<longleftrightarrow> validateDevice (device_of r) = None"
  by (auto simp: device_typed_def validateDevice_def device_of_def split: if_splits)

lemma device_of_simps [simp]:
  "d_TenantID (device_of r) = dv_tenant r" "d_Hostname (device_of r) = dv_hostname r"
  "d_ID (device_of r) = dv_id r"
  by (simp_all add: device_of_def)

lemma listed_devices:
  assumes "dev_inv s" and "ListDevices t s = (Inr ds, s')"
  shows "(\<forall>d \<in> set ds. validateDevice d = None \<and> d_TenantID d = t) \<and> distinct (map d_Hostname ds) \<and>
    sorted (map d_Hostname ds)"
proof -
  let ?rs = "filter (\<lambda>r. dv_tenant r = t) (rows (devices s))"
  obtain fs where st: "stmt s = (None, s\<lparr>faults := fs\<rparr>)"
    using assms(2) by (cases "stmt s"; cases "fst (stmt s)")
      (auto simp: ListDevices_def exec_def dest: stmt_truncate)
  with assms(2) have ds: "ds = map device_of (order_asc dv_hostname ?rs)"
    by (simp add: ListDevices_def exec_def)
  have wf: "wf_table dv_id (devices s)" and ty: "\<forall>r \<in> set (rows (devices s)). device_typed r"
    and inj: "inj_on host_key (set (rows (devices s)))"
    using assms(1) by (auto simp: dev_inv_def)
  have dist: "distinct ?rs" using wf_table_distinct [OF wf] by (simp add: distinct_map)
  have "inj_on dv_hostname (set ?rs)"
    by (rule inj_onI) (auto intro: inj_onD [OF inj] simp: host_key_def)
  with dist have "distinct (map dv_hostname (order_asc dv_hostname ?rs))"
    by (simp add: distinct_map order_asc_def)
  moreover have "map d_Hostname ds = map dv_hostname (order_asc dv_hostname ?rs)"
    by (simp add: ds)
  moreover have "sorted (map dv_hostname (order_asc dv_hostname ?rs))" by (simp add: order_asc_def)
  ultimately show ?thesis
    using ty by (simp only:) (auto simp: ds device_typed_iff)
qed

text \<open>C22: The inventory is well typed: whatever calls were made, by whichever tenants and with
  whichever statements failing, a device that is listed passes the validation of
  \<open>validateDevice\<close>, belongs to the tenant that asked, and the listing is in host name order
  without a host name twice.\<close>
theorem inventory_typed:
  assumes "ListDevices t (dev_run cs (empty_devices fs)) = (Inr ds, s')"
  shows "(\<forall>d \<in> set ds. validateDevice d = None \<and> d_TenantID d = t) \<and>
    distinct (map d_Hostname ds) \<and> sorted (map d_Hostname ds)"
  by (rule listed_devices [OF dev_run_inv [OF empty_devices_inv] assms])

definition demo_device :: Device where
  "demo_device = \<lparr>d_ID = 0, d_TenantID = 0, d_Hostname = ''r2'', d_Address = ''10.0.0.2'', d_Port = 22,
     d_Driver = ''cisco_ios'', d_GroupID = None, d_CredentialID = Some 1, d_CreatedAt = 0\<rparr>"

definition demo_calls :: "(int \<times> dev_cmd) list" where
  "demo_calls = [(1, DCreate 0 demo_device), (1, DCreate 0 (demo_device\<lparr>d_Hostname := ''r1''\<rparr>)),
     (2, DCreate 0 demo_device), (1, DCreate 0 demo_device),
     (1, DUpdate (demo_device\<lparr>d_ID := 2, d_Hostname := ''r2''\<rparr>))]"

theorem inventory_typed_witness:
  "\<exists>ds s'. ListDevices 1 (dev_run demo_calls (empty_devices [])) = (Inr ds, s') \<and>
     map d_Hostname ds = [''r1'', ''r2''] \<and> (\<forall>d \<in> set ds. validateDevice d = None \<and> d_TenantID d = 1)"
proof -
  let ?r = "ListDevices 1 (dev_run demo_calls (empty_devices []))"
  have h: "\<not> isl (fst ?r)" "map d_Hostname (projr (fst ?r)) = [''r1'', ''r2'']" by code_simp+
  then obtain ds s' where r: "?r = (Inr ds, s')" by (metis prod.collapse sum.collapse(2))
  from inventory_typed [OF r] r h(2) show ?thesis by auto
qed

end
