(* ===== verification/Automation.thy ===== *)
theory Automation
  imports Devices "HOL-Library.Multiset"
begin

text \<open>
  Push automation (\<open>internal/automation/automation.go\<close>): push jobs, the preview, the run over the
  targeted devices with its pre-flight check and safe mode, and the grouping of results. The
  template engine, JSON, SHA-256, the pre-flight check and the executor are parameters; so are
  the orders in which the goroutines of a run write their audit entries and finish. Timeouts are
  below 2^22 seconds, where the float that \<open>Seconds\<close> returns truncates as the integer does.
\<close>

section \<open>Data\<close>

type_synonym vars = "(string \<times> string) list"

record push_job =
  pj_ID :: int
  pj_TenantID :: int
  pj_Name :: string
  pj_Template :: string
  pj_Variables :: vars
  pj_TargetGroupID :: "int option"
  pj_SafeMode :: bool
  pj_RollbackTimeout :: duration

record Result =
  r_DeviceID :: int
  r_Hostname :: string
  r_Rendered :: string
  r_Status :: string
  r_Output :: string
  r_Error :: string
  r_Hash :: string

record ResultGroup =
  rg_Hash :: string
  rg_Rendered :: string
  rg_Status :: string
  rg_Devices :: "string list"

record job_row =
  pr_id :: int
  pr_tenant :: int
  pr_name :: string
  pr_template :: string
  pr_variables :: string
  pr_group :: "int option"
  pr_safe :: bool
  pr_timeout :: int
  pr_created :: stamp

record run_row =
  rn_id :: int
  rn_job :: int
  rn_started :: stamp
  rn_finished :: "stamp option"
  rn_status :: string

record result_row =
  rs_id :: int
  rs_run :: int
  rs_device :: int
  rs_rendered :: string
  rs_status :: string
  rs_output :: "string option"
  rs_error :: "string option"

record push_db = device_db +
  push_jobs :: "job_row sql_table"
  push_runs :: "run_row sql_table"
  push_results :: "result_row sql_table"

datatype push_err = PushInvalid string | PushNoRows | PushDB string | PushDevices dev_err | PushTemplate string

text \<open>What the code calls of the template engine, of \<open>encoding/json\<close> and of \<open>crypto/sha256\<close>. A JSON
  object is marshalled from its fields in key order; \<open>None\<close> is a marshalling error.\<close>

record 't engine =
  tmpl_parse :: "string \<Rightarrow> string + 't"
  tmpl_execute :: "'t \<Rightarrow> Device \<Rightarrow> vars \<Rightarrow> string + string"
  vars_marshal :: "vars \<Rightarrow> string"
  vars_unmarshal :: "string \<Rightarrow> vars"
  json_object :: "(string \<times> string) list \<Rightarrow> string option"
  sha256 :: "string \<Rightarrow> string"

section \<open>Jobs\<close>

definition boolToInt :: "bool \<Rightarrow> int" where "boolToInt b = (if b then 1 else 0)"

definition nullable :: "string \<Rightarrow> string option" where
  "nullable s = (if s = [] then None else Some s)"

definition CreateJob ::
  "'t engine \<Rightarrow> time \<Rightarrow> push_job \<Rightarrow> push_db \<Rightarrow> (push_err + push_job) \<times> push_db" where
  "CreateJob E now j s =
     (if pj_Name j = [] \<or> pj_Template j = [] then (Inl (PushInvalid ''automation: name and template required''), s)
      else (case tmpl_parse E (pj_Template j) of
        Inl e \<Rightarrow> (Inl (PushInvalid (''automation: invalid template: '' @ e)), s)
      | Inr _ \<Rightarrow>
          (let secs = (if pj_RollbackTimeout j < second then 60 else pj_RollbackTimeout j div second)
           in exec PushDB s (\<lambda>s. let n = next_rowid (push_jobs s) in
                (Inr (j\<lparr>pj_ID := n\<rparr>),
                 s\<lparr>push_jobs := insert_row (\<lambda>n. \<lparr>pr_id = n, pr_tenant = pj_TenantID j, pr_name = pj_Name j,
                      pr_template = pj_Template j, pr_variables = vars_marshal E (pj_Variables j),
                      pr_group = pj_TargetGroupID j, pr_safe = (boolToInt (pj_SafeMode j) \<noteq> 0),
                      pr_timeout = secs, pr_created = rfc3339 now\<rparr>) (push_jobs s), last_rowid := n\<rparr>)))))"

definition job_of :: "'t engine \<Rightarrow> job_row \<Rightarrow> push_job" where
  "job_of E r = \<lparr>pj_ID = pr_id r, pj_TenantID = pr_tenant r, pj_Name = pr_name r, pj_Template = pr_template r,
     pj_Variables = (if pr_variables r \<noteq> [] then vars_unmarshal E (pr_variables r) else []),
     pj_TargetGroupID = pr_group r, pj_SafeMode = pr_safe r, pj_RollbackTimeout = pr_timeout r * second\<rparr>"

definition GetJob ::
  "'t engine \<Rightarrow> int \<Rightarrow> int \<Rightarrow> push_db \<Rightarrow> (push_err + push_job) \<times> push_db" where
  "GetJob E tenantID i s = exec PushDB s (\<lambda>s.
     case query_row (\<lambda>r. pr_tenant r = tenantID \<and> pr_id r = i) (push_jobs s) of
       None \<Rightarrow> (Inl PushNoRows, s) | Some r \<Rightarrow> (Inr (job_of E r), s))"

definition ListJobs :: "'t engine \<Rightarrow> int \<Rightarrow> push_db \<Rightarrow> (push_err + push_job list) \<times> push_db" where
  "ListJobs E tenantID s = exec PushDB s (\<lambda>s.
     (Inr (map (job_of E) (order_asc pr_name (filter (\<lambda>r. pr_tenant r = tenantID) (rows (push_jobs s))))), s))"

definition targets :: "int \<Rightarrow> push_job \<Rightarrow> push_db \<Rightarrow> (push_err + Device list) \<times> push_db" where
  "targets tenantID j s = (case ListDevices tenantID s of
     (Inl e, s) \<Rightarrow> (Inl (PushDevices e), s)
   | (Inr ds, s) \<Rightarrow> (Inr (case pj_TargetGroupID j of
       None \<Rightarrow> ds | Some g \<Rightarrow> filter (\<lambda>d. d_GroupID d = Some g) ds), s))"

definition hashOf :: "'t engine \<Rightarrow> string \<Rightarrow> string" where
  "hashOf E x = hex_encode (take 8 (sha256 E x))"

section \<open>Preview\<close>

definition blank_result :: "Device \<Rightarrow> Result" where
  "blank_result d = \<lparr>r_DeviceID = d_ID d, r_Hostname = d_Hostname d, r_Rendered = [], r_Status = [],
     r_Output = [], r_Error = [], r_Hash = []\<rparr>"

definition preview_device :: "'t engine \<Rightarrow> 't \<Rightarrow> vars \<Rightarrow> Device \<Rightarrow> Result" where
  "preview_device E t vs d = (case tmpl_execute E t d vs of
     Inl e \<Rightarrow> (blank_result d)\<lparr>r_Status := ''render_error'', r_Error := e\<rparr>
   | Inr x \<Rightarrow> (blank_result d)\<lparr>r_Rendered := x, r_Status := ''preview'', r_Hash := hashOf E x\<rparr>)"

definition Preview :: "'t engine \<Rightarrow> int \<Rightarrow> int \<Rightarrow> push_db \<Rightarrow> (push_err + Result list) \<times> push_db" where
  "Preview E tenantID i s =
     and_then (GetJob E tenantID i s) (\<lambda>j s. and_then (targets tenantID j s) (\<lambda>ds s.
       case tmpl_parse E (pj_Template j) of
         Inl e \<Rightarrow> (Inl (PushTemplate e), s)
       | Inr t \<Rightarrow> (Inr (map (preview_device E t (pj_Variables j)) ds), s)))"

section \<open>Safe mode\<close>

datatype poll_err = PollCtx string | Unreachable duration

text \<open>The loop of \<open>safeModePoll\<close>: in round \<open>k\<close>, \<open>clock k\<close> is the time read, \<open>check k\<close> the error of
  the connection check, \<open>cancelled k\<close> the context's error if it ends the wait of five seconds.\<close>

partial_function (option) poll_loop ::
  "(nat \<Rightarrow> time) \<Rightarrow> (nat \<Rightarrow> string option) \<Rightarrow> (nat \<Rightarrow> string option) \<Rightarrow> duration \<Rightarrow> time \<Rightarrow> nat
    \<Rightarrow> poll_err option option" where
  "poll_loop clock check cancelled timeout deadline k =
     (if clock k < deadline
      then (case check k of
              None \<Rightarrow> Some None
            | Some _ \<Rightarrow> (case cancelled k of
                Some e \<Rightarrow> Some (Some (PollCtx e))
              | None \<Rightarrow> poll_loop clock check cancelled timeout deadline (Suc k)))
      else Some (Some (Unreachable timeout)))"

definition safeModePoll ::
  "time \<Rightarrow> (nat \<Rightarrow> time) \<Rightarrow> (nat \<Rightarrow> string option) \<Rightarrow> (nat \<Rightarrow> string option) \<Rightarrow> duration
    \<Rightarrow> poll_err option option" where
  "safeModePoll now clock check cancelled timeout =
     (let timeout = (if timeout \<le> 0 then 60 * second else timeout)
      in poll_loop clock check cancelled timeout (now + timeout) 0)"

text \<open>\<open>defaultConnCheck\<close> dials the device's address and port, 22 when it has none.\<close>

definition conn_check_addr :: "Device \<Rightarrow> string" where
  "conn_check_addr d = d_Address d @ '':'' @ itoa (if d_Port d = 0 then 22 else d_Port d)"

section \<open>Run\<close>

definition auditErrorMaxLen :: nat where "auditErrorMaxLen = 160"

definition sanitizeAuditError :: "string \<Rightarrow> string" where
  "sanitizeAuditError msg =
     (let msg = replace_char (CHR 0x0D) (CHR '' '') (replace_char (CHR 0x0A) (CHR '' '') msg)
      in if length msg > auditErrorMaxLen then take auditErrorMaxLen msg @ ''...'' else msg)"

text \<open>What a run asks of the world for one device: the pre-flight check and the executor, if set,
  the outcome of the safe mode poll, and its error's text.\<close>

record world =
  pre_flight :: "(Device \<Rightarrow> string option) option"
  push_executor :: "(Device \<Rightarrow> string \<Rightarrow> string \<times> string option) option"
  poll_outcome :: "Device \<Rightarrow> duration \<Rightarrow> poll_err option"
  poll_text :: "poll_err \<Rightarrow> string"

datatype audit_note = NoNote | Scaffold string | RolledBack string

text \<open>The body of the goroutine of a device: its result and its audit entry.\<close>

definition push_device :: "'t engine \<Rightarrow> world \<Rightarrow> push_job \<Rightarrow> 't \<Rightarrow> Device \<Rightarrow> Result \<times> audit_note" where
  "push_device E W j t d = (case tmpl_execute E t d (pj_Variables j) of
     Inl e \<Rightarrow> ((blank_result d)\<lparr>r_Status := ''render_error'', r_Error := e\<rparr>, NoNote)
   | Inr x \<Rightarrow>
       (let r = (blank_result d)\<lparr>r_Rendered := x, r_Hash := hashOf E x\<rparr>;
            refused = (case pre_flight W of None \<Rightarrow> None | Some f \<Rightarrow> f d)
        in case refused of
             Some e \<Rightarrow> (let m = ''pre-flight check failed: '' @ e
                       in (r\<lparr>r_Status := ''failed'', r_Error := m\<rparr>, Scaffold m))
           | None \<Rightarrow> (case push_executor W of
               None \<Rightarrow> (r\<lparr>r_Status := ''skipped''\<rparr>, NoNote)
             | Some ex \<Rightarrow> (case ex d x of
                 (out, Some e) \<Rightarrow> (r\<lparr>r_Output := out, r_Status := ''failed'', r_Error := e\<rparr>, Scaffold e)
               | (out, None) \<Rightarrow>
                   (case (if pj_SafeMode j then poll_outcome W d (pj_RollbackTimeout j) else None) of
                      None \<Rightarrow> (r\<lparr>r_Output := out, r_Status := ''applied''\<rparr>, NoNote)
                    | Some e \<Rightarrow>
                        (let m = ''safe mode: device unreachable after push ('' @ poll_text W e @ ''); rolling back''
                         in (r\<lparr>r_Output := out, r_Status := ''rolled_back'', r_Error := m\<rparr>, RolledBack m)))))))"

definition recordRollback :: "'t engine \<Rightarrow> time \<Rightarrow> int \<Rightarrow> int \<Rightarrow> string \<Rightarrow> push_db \<Rightarrow> push_db" where
  "recordRollback E now tenantID dev reason s =
     RecordEntry now tenantID 0 SourceSystem ''automation.apply.rollback'' (''device:'' @ itoa dev)
       (case json_object E [(''reason'', sanitizeAuditError reason), (''rollback'', ''auto'')] of
          Some x \<Rightarrow> x | None \<Rightarrow> ''{'' @ [CHR 0x22] @ ''rollback'' @ [CHR 0x22] @ '':'' @ [CHR 0x22] @ ''auto'' @ [CHR 0x22] @ ''}'') s"

definition recordScaffold :: "'t engine \<Rightarrow> string \<Rightarrow> time \<Rightarrow> int \<Rightarrow> int \<Rightarrow> string \<Rightarrow> push_db \<Rightarrow> push_db" where
  "recordScaffold E fallback now tenantID dev msg s =
     RecordEntry now tenantID 0 SourceSystem ''automation.apply.rollback_scaffold'' (''device:'' @ itoa dev)
       (case json_object E [(''error'', sanitizeAuditError msg), (''priority'', ''high''),
           (''rollback'', ''scaffold''), (''status'', ''manual_required'')] of
          Some x \<Rightarrow> x | None \<Rightarrow> fallback) s"

definition summary :: "Result list \<Rightarrow> string" where
  "summary rs = (if list_ex (\<lambda>r. r_Status r = ''failed'' \<or> r_Status r = ''render_error'') rs
     then ''partial'' else ''success'')"

text \<open>\<open>fallback\<close> is the text of the scaffold entry when JSON fails.\<close>

fun audit_notes ::
  "'t engine \<Rightarrow> string \<Rightarrow> time \<Rightarrow> int \<Rightarrow> (int \<times> audit_note) list \<Rightarrow> push_db \<Rightarrow> push_db" where
  "audit_notes E fallback now tenantID [] s = s"
| "audit_notes E fallback now tenantID ((dev, NoNote) # ns) s = audit_notes E fallback now tenantID ns s"
| "audit_notes E fallback now tenantID ((dev, Scaffold m) # ns) s =
     audit_notes E fallback now tenantID ns (recordScaffold E fallback now tenantID dev m s)"
| "audit_notes E fallback now tenantID ((dev, RolledBack m) # ns) s =
     audit_notes E fallback now tenantID ns (recordRollback E now tenantID dev m s)"

fun store_results :: "int \<Rightarrow> Result list \<Rightarrow> push_db \<Rightarrow> push_db" where
  "store_results run [] s = s"
| "store_results run (r # rs) s = store_results run rs (exec_quiet s (\<lambda>s.
     s\<lparr>push_results := insert_row (\<lambda>n. \<lparr>rs_id = n, rs_run = run, rs_device = r_DeviceID r,
          rs_rendered = r_Rendered r, rs_status = r_Status r, rs_output = nullable (r_Output r),
          rs_error = nullable (r_Error r)\<rparr>) (push_results s),
       last_rowid := next_rowid (push_results s)\<rparr>))"

definition finish_run :: "int \<Rightarrow> Result list \<Rightarrow> time \<Rightarrow> push_db \<Rightarrow> push_db" where
  "finish_run run out later s = exec_quiet s (\<lambda>s. s\<lparr>push_runs := update_rows (\<lambda>r. rn_id r = run)
     (\<lambda>r. r\<lparr>rn_finished := Some (rfc3339 later), rn_status := summary out\<rparr>) (push_runs s)\<rparr>)"

text \<open>\<open>Run\<close>; \<open>audited\<close> is whether an audit service is set, \<open>oa\<close> and \<open>od\<close> put the devices in the
  order of their audit entries and of their results.\<close>

definition Run_push ::
  "'t engine \<Rightarrow> string \<Rightarrow> world \<Rightarrow> bool \<Rightarrow> (Device list \<Rightarrow> Device list) \<Rightarrow> (Device list \<Rightarrow> Device list)
    \<Rightarrow> time \<Rightarrow> time \<Rightarrow> int \<Rightarrow> int \<Rightarrow> push_db \<Rightarrow> (push_err + Result list) \<times> push_db" where
  "Run_push E fallback W audited oa od now later tenantID i s =
     and_then (GetJob E tenantID i s) (\<lambda>j s. and_then (targets tenantID j s) (\<lambda>ds s.
       case tmpl_parse E (pj_Template j) of
         Inl e \<Rightarrow> (Inl (PushTemplate e), s)
       | Inr t \<Rightarrow> exec PushDB s (\<lambda>s.
           let run = next_rowid (push_runs s);
               s = s\<lparr>push_runs := insert_row (\<lambda>n. \<lparr>rn_id = n, rn_job = pj_ID j, rn_started = rfc3339 now,
                       rn_finished = None, rn_status = ''running''\<rparr>) (push_runs s), last_rowid := run\<rparr>;
               s = (if audited then audit_notes E fallback now tenantID
                      (map (\<lambda>d. (d_ID d, snd (push_device E W j t d))) (oa ds)) s else s);
               out = map (\<lambda>d. fst (push_device E W j t d)) (od ds)
           in (Inr out, finish_run run out later (store_results run out s)))))"

section \<open>Grouping\<close>

text \<open>\<open>GroupResults\<close>: a map from hash and status, read out in any order; the groups are listed here
  by their first result.\<close>

definition group_key :: "Result \<Rightarrow> string" where
  "group_key r = r_Hash r @ ''|'' @ r_Status r"

fun add_result :: "Result \<Rightarrow> (string \<times> ResultGroup) list \<Rightarrow> (string \<times> ResultGroup) list" where
  "add_result r [] = [(group_key r, \<lparr>rg_Hash = r_Hash r, rg_Rendered = r_Rendered r, rg_Status = r_Status r,
     rg_Devices = [r_Hostname r]\<rparr>)]"
| "add_result r ((k, g) # gs) =
     (if k = group_key r then (k, g\<lparr>rg_Devices := rg_Devices g @ [r_Hostname r]\<rparr>) # gs
      else (k, g) # add_result r gs)"

definition GroupResults :: "Result list \<Rightarrow> ResultGroup list" where
  "GroupResults rs = map snd (fold add_result rs [])"

section \<open>The safe mode poll ends\<close>

text \<open>How a poll that began in round \<open>k\<close> ended: in round \<open>m\<close>, all earlier rounds having failed
  before the deadline.\<close>

definition poll_ended ::
  "(nat \<Rightarrow> time) \<Rightarrow> (nat \<Rightarrow> string option) \<Rightarrow> (nat \<Rightarrow> string option) \<Rightarrow> time \<Rightarrow> nat \<Rightarrow> nat \<Rightarrow> poll_err option \<Rightarrow> bool" where
  "poll_ended clock check cancelled deadline k m r \<longleftrightarrow> k \<le> m \<and>
     (\<forall>i. k \<le> i \<longrightarrow> i < m \<longrightarrow> clock i < deadline \<and> check i \<noteq> None \<and> cancelled i = None) \<and>
     (case r of
        None \<Rightarrow> clock m < deadline \<and> check m = None
      | Some (PollCtx e) \<Rightarrow> clock m < deadline \<and> check m \<noteq> None \<and> cancelled m = Some e
      | Some (Unreachable d) \<Rightarrow> deadline \<le> clock m)"

lemma poll_ended_later:
  "poll_ended clock check cancelled deadline (Suc k) m r \<Longrightarrow> clock k < deadline \<Longrightarrow> check k \<noteq> None \<Longrightarrow>
     cancelled k = None \<Longrightarrow> poll_ended clock check cancelled deadline k m r"
  unfolding poll_ended_def by (metis Suc_leD Suc_leI le_neq_implies_less)

lemma poll_loop_stops:
  assumes "\<not> (clock k < deadline \<and> check k \<noteq> None \<and> cancelled k = None)"
  shows "\<exists>m r. poll_loop clock check cancelled timeout deadline k = Some r \<and>
    poll_ended clock check cancelled deadline k m r"
proof -
  have stop: ?thesis if "poll_loop clock check cancelled timeout deadline k = Some r"
    "poll_ended clock check cancelled deadline k k r" for r
    using that by blast
  consider (late) "\<not> clock k < deadline" | (ok) "clock k < deadline" "check k = None"
    | (ctx) e x where "clock k < deadline" "check k = Some x" "cancelled k = Some e"
    using assms by auto
  then show ?thesis
  proof cases
    case late
    then show ?thesis
      by (intro stop [of "Some (Unreachable timeout)"]) (subst poll_loop.simps, auto simp: poll_ended_def)
  next
    case ok
    then show ?thesis by (intro stop [of None]) (subst poll_loop.simps, auto simp: poll_ended_def)
  next
    case ctx
    then show ?thesis
      by (intro stop [of "Some (PollCtx e)"]) (subst poll_loop.simps, auto simp: poll_ended_def)
  qed
qed

lemma poll_loop_ends:
  assumes "\<forall>i. clock i + 5 * second \<le> clock (Suc i)" and "deadline - clock k \<le> 5 * second * int n"
  shows "\<exists>m r. poll_loop clock check cancelled timeout deadline k = Some r \<and>
    poll_ended clock check cancelled deadline k m r"
  using assms(2)
proof (induction n arbitrary: k)
  case 0
  then show ?case by (intro poll_loop_stops) simp
next
  case (Suc n)
  show ?case
  proof (cases "clock k < deadline \<and> check k \<noteq> None \<and> cancelled k = None")
    case True
    have "deadline - clock (Suc k) \<le> 5 * second * int n"
      using spec [OF assms(1), of k] Suc.prems by (simp add: algebra_simps)
    from Suc.IH [OF this] obtain m r where
      r: "poll_loop clock check cancelled timeout deadline (Suc k) = Some r"
      and e: "poll_ended clock check cancelled deadline (Suc k) m r" by blast
    have "poll_loop clock check cancelled timeout deadline k = Some r"
      using True r by (subst poll_loop.simps) auto
    moreover have "poll_ended clock check cancelled deadline k m r"
      using poll_ended_later [OF e] True by simp
    ultimately show ?thesis by blast
  next
    case False
    then show ?thesis by (rule poll_loop_stops)
  qed
qed

lemma clock_spread:
  fixes clock :: "nat \<Rightarrow> time"
  assumes "\<forall>i. clock i + 5 * second \<le> clock (Suc i)"
  shows "clock 0 + 5 * second * int k \<le> clock k"
proof (induction k)
  case (Suc k)
  with spec [OF assms, of k] show ?case by (simp add: algebra_simps)
qed simp

text \<open>C25: The safe mode poll ends: with waits of at least five seconds it returns, after fewer than
  \<open>timeout / 5s + 1\<close> failed rounds; it reports the device reachable exactly when a check
  succeeds before the deadline, and otherwise the cancellation or the timeout that ended it.\<close>
theorem safe_mode_poll_ends:
  assumes "\<forall>i. clock i + 5 * second \<le> clock (Suc i)" and "now \<le> clock 0" and "0 < timeout"
  shows "\<exists>m r. safeModePoll now clock check cancelled timeout = Some r \<and>
    poll_ended clock check cancelled (now + timeout) 0 m r \<and> 5 * second * int m < timeout + 5 * second"
proof -
  have "(now + timeout) - clock 0 \<le> 5 * second * int (nat timeout)"
    using assms(2,3) by (simp add: second_def)
  from poll_loop_ends [OF assms(1) this] obtain m r where
    r: "poll_loop clock check cancelled timeout (now + timeout) 0 = Some r"
    and e: "poll_ended clock check cancelled (now + timeout) 0 m r" by blast
  have "5 * second * int m < timeout + 5 * second"
  proof (cases m)
    case (Suc k)
    with e have "clock k < now + timeout" by (simp add: poll_ended_def)
    with clock_spread [OF assms(1), of k] assms(2) Suc show ?thesis by (simp add: algebra_simps)
  qed (use assms(3) in \<open>simp add: second_def\<close>)
  with r e assms(3) show ?thesis by (auto simp: safeModePoll_def)
qed

theorem safe_mode_poll_ends_witness:
  "\<exists>m. safeModePoll 0 (\<lambda>k. 5 * second * int k) (\<lambda>k. if k = 2 then None else Some ''refused'') (\<lambda>k. None)
     (60 * second) = Some None \<and> m = (2 :: nat)"
proof -
  let ?clock = "\<lambda>k. 5 * second * int k" and ?check = "\<lambda>k :: nat. if k = 2 then None else Some ''refused''"
  from safe_mode_poll_ends [of ?clock 0 "60 * second" ?check "\<lambda>k. None"]
  obtain m r where m: "safeModePoll 0 ?clock ?check (\<lambda>k. None) (60 * second) = Some r"
    "poll_ended ?clock ?check (\<lambda>k. None) (60 * second) 0 m r" "5 * second * int m < 65 * second"
    by (auto simp: second_def algebra_simps)
  have "m \<le> 2" using m(2) by (cases "2 < m") (auto simp: poll_ended_def)
  with m(2) have "r = None" by (cases r; cases "the r") (auto simp: poll_ended_def second_def split: if_splits)
  with m(1) show ?thesis by auto
qed

section \<open>A run accounts for every targeted device\<close>

lemma audit_notes_frame:
  "push_results (audit_notes E fb now t ns s) = push_results s \<and> push_runs (audit_notes E fb now t ns s) = push_runs s \<and>
   (faults s = [] \<longrightarrow> faults (audit_notes E fb now t ns s) = [])"
proof (induction E fb now t ns s rule: audit_notes.induct)
  case (3 E fb now t dev m ns s)
  then show ?case by (auto simp: recordScaffold_def RecordEntry_def RecordWithRequest_def exec_quiet_def stmt_def split: list.splits option.splits)
next
  case (4 E fb now t dev m ns s)
  then show ?case by (auto simp: recordRollback_def RecordEntry_def RecordWithRequest_def exec_quiet_def stmt_def split: list.splits option.splits)
qed simp_all

definition stored_as :: "int \<Rightarrow> Result \<Rightarrow> result_row \<Rightarrow> bool" where
  "stored_as run r row \<longleftrightarrow> rs_run row = run \<and> rs_device row = r_DeviceID r \<and> rs_rendered row = r_Rendered r \<and>
     rs_status row = r_Status r \<and> rs_output row = nullable (r_Output r) \<and> rs_error row = nullable (r_Error r)"

lemma store_results_rows:
  "faults s = [] \<Longrightarrow> faults (store_results run rs s) = [] \<and> push_runs (store_results run rs s) = push_runs s \<and>
     (\<exists>ws. rows (push_results (store_results run rs s)) = rows (push_results s) @ ws \<and> list_all2 (stored_as run) rs ws)"
proof (induction run rs s rule: store_results.induct)
  case (2 run r rs s)
  let ?row = "\<lambda>n. \<lparr>rs_id = n, rs_run = run, rs_device = r_DeviceID r, rs_rendered = r_Rendered r,
    rs_status = r_Status r, rs_output = nullable (r_Output r), rs_error = nullable (r_Error r)\<rparr>"
  let ?s = "s\<lparr>push_results := insert_row ?row (push_results s), last_rowid := next_rowid (push_results s)\<rparr>"
  have s: "exec_quiet s (\<lambda>s. s\<lparr>push_results := insert_row ?row (push_results s),
      last_rowid := next_rowid (push_results s)\<rparr>) = ?s" using "2.prems" by simp
  from "2.IH" "2.prems" obtain ws where
    ws: "rows (push_results (store_results run rs ?s)) = rows (push_results ?s) @ ws" "list_all2 (stored_as run) rs ws"
    and f: "faults (store_results run rs ?s) = []" "push_runs (store_results run rs ?s) = push_runs ?s"
    unfolding s by auto
  have "list_all2 (stored_as run) (r # rs) (?row (next_rowid (push_results s)) # ws)"
    using ws(2) by (simp add: stored_as_def)
  moreover have "rows (push_results (store_results run rs ?s)) =
      rows (push_results s) @ ?row (next_rowid (push_results s)) # ws" using ws(1) by simp
  ultimately show ?case using f unfolding store_results.simps s by auto
qed simp

text \<open>The rows a job targets.\<close>

definition targeted :: "int \<Rightarrow> push_job \<Rightarrow> push_db \<Rightarrow> device_row list" where
  "targeted t j s = filter (\<lambda>r. dv_tenant r = t \<and>
     (case pj_TargetGroupID j of None \<Rightarrow> True | Some g \<Rightarrow> dv_group r = Some g)) (rows (devices s))"

lemma targets_ok:
  assumes "faults s = []"
  shows "\<exists>ds. targets t j s = (Inr ds, s) \<and> mset ds = mset (map device_of (targeted t j s))"
proof -
  let ?all = "map device_of (order_asc dv_hostname (filter (\<lambda>r. dv_tenant r = t) (rows (devices s))))"
  let ?ds = "case pj_TargetGroupID j of None \<Rightarrow> ?all | Some g \<Rightarrow> filter (\<lambda>d. d_GroupID d = Some g) ?all"
  have t: "targets t j s = (Inr ?ds, s)"
    using assms by (simp add: targets_def ListDevices_def)
  have all: "mset ?all = image_mset device_of (filter_mset (\<lambda>r. dv_tenant r = t) (mset (rows (devices s))))"
    by (simp add: order_asc_def)
  have "mset ?ds = mset (map device_of (targeted t j s))"
  proof (cases "pj_TargetGroupID j")
    case None
    then show ?thesis unfolding targeted_def using all by simp
  next
    case (Some g)
    have "filter_mset (\<lambda>d. d_GroupID d = Some g) (image_mset device_of M) =
        image_mset device_of (filter_mset (\<lambda>r. dv_group r = Some g) M)" for M
      by (induction M) (auto simp: device_of_def)
    note sel = this
    have "mset ?ds = filter_mset (\<lambda>d. d_GroupID d = Some g) (mset ?all)" using Some by simp
    also have "\<dots> = image_mset device_of (filter_mset (\<lambda>r. dv_group r = Some g)
        (filter_mset (\<lambda>r. dv_tenant r = t) (mset (rows (devices s)))))"
      unfolding all sel ..
    also have "\<dots> = mset (map device_of (targeted t j s))"
      using Some by (simp add: targeted_def filter_filter_mset conj_commute)
    finally show ?thesis .
  qed
  with t show ?thesis by blast
qed

text \<open>C24: With a working database, a run of an existing job ends with one result for each device
  the job targets and for no other, each the outcome of that device's goroutine; the results
  are stored in order under a new run that is finished with their summary.\<close>
theorem push_run_complete:
  assumes "faults s = []" and "wf_table rn_id (push_runs s)"
    and "query_row (\<lambda>r. pr_tenant r = tenant \<and> pr_id r = i) (push_jobs s) = Some row"
    and "tmpl_parse E (pr_template row) = Inr t" and "\<forall>ds. mset (od ds) = mset (ds :: Device list)"
  shows "\<exists>out s' ws. Run_push E fb W audited oa od now later tenant i s = (Inr out, s') \<and>
    mset out = mset (map (\<lambda>d. fst (push_device E W (job_of E row) t (device_of d))) (targeted tenant (job_of E row) s)) \<and>
    rows (push_results s') = rows (push_results s) @ ws \<and> list_all2 (stored_as (next_rowid (push_runs s))) out ws \<and>
    query_row (\<lambda>r. rn_id r = next_rowid (push_runs s)) (push_runs s') =
      Some \<lparr>rn_id = next_rowid (push_runs s), rn_job = pr_id row, rn_started = rfc3339 now,
        rn_finished = Some (rfc3339 later), rn_status = summary out\<rparr>"
proof -
  let ?j = "job_of E row" and ?run = "next_rowid (push_runs s)"
  obtain ds where ds: "targets tenant ?j s = (Inr ds, s)" "mset ds = mset (map device_of (targeted tenant ?j s))"
    using targets_ok [OF assms(1)] by blast
  define out where "out = map (\<lambda>d. fst (push_device E W ?j t d)) (od ds)"
  let ?new = "\<lambda>n. \<lparr>rn_id = n, rn_job = pr_id row, rn_started = rfc3339 now, rn_finished = None, rn_status = ''running''\<rparr>"
  define s1 where "s1 = s\<lparr>push_runs := insert_row ?new (push_runs s), last_rowid := ?run\<rparr>"
  define s2 where "s2 = (if audited then audit_notes E fb now tenant
      (map (\<lambda>d. (d_ID d, snd (push_device E W ?j t d))) (oa ds)) s1 else s1)"
  define s3 where "s3 = store_results ?run out s2"
  have run: "Run_push E fb W audited oa od now later tenant i s = (Inr out, finish_run ?run out later s3)"
    using assms(1,3,4) ds(1)
    by (simp add: Run_push_def GetJob_def Let_def out_def s1_def s2_def s3_def job_of_def)
  have s2: "faults s2 = []" "push_results s2 = push_results s" "push_runs s2 = insert_row ?new (push_runs s)"
    using audit_notes_frame [of E fb now tenant _ s1] assms(1) by (auto simp: s2_def s1_def)
  from store_results_rows [OF s2(1), of ?run out] s2 obtain ws where
    ws: "faults s3 = []" "push_runs s3 = insert_row ?new (push_runs s)"
      "rows (push_results s3) = rows (push_results s) @ ws" "list_all2 (stored_as ?run) out ws"
    unfolding s3_def by auto
  have fin: "push_results (finish_run ?run out later s3) = push_results s3"
    "push_runs (finish_run ?run out later s3) = update_rows (\<lambda>r. rn_id r = ?run)
       (\<lambda>r. r\<lparr>rn_finished := Some (rfc3339 later), rn_status := summary out\<rparr>) (push_runs s3)"
    using ws(1) by (simp_all add: finish_run_def)
  have "lookup rn_id ?run (push_runs s) = None"
    by (auto simp: lookup_None dest: fresh_rowid [OF assms(2)])
  then have "lookup rn_id ?run (push_runs s3) = Some (?new ?run)"
    by (simp add: ws(2) lookup_insert)
  then have q: "query_row (\<lambda>r. rn_id r = ?run) (push_runs (finish_run ?run out later s3)) =
      Some ((?new ?run)\<lparr>rn_finished := Some (rfc3339 later), rn_status := summary out\<rparr>)"
    unfolding fin lookup_def [symmetric] by (subst lookup_update) simp_all
  have "mset out = image_mset (\<lambda>d. fst (push_device E W ?j t d)) (mset ds)"
    using assms(5) by (simp add: out_def)
  also have "\<dots> = mset (map (\<lambda>d. fst (push_device E W ?j t (device_of d))) (targeted tenant ?j s))"
    by (simp add: ds(2) multiset.map_comp comp_def)
  finally show ?thesis using run ws(3,4) fin(1) q by auto
qed

section \<open>Grouping\<close>

lemma add_result_devices:
  "mset (concat (map (rg_Devices \<circ> snd) (add_result r gs))) =
     add_mset (r_Hostname r) (mset (concat (map (rg_Devices \<circ> snd) gs)))"
  by (induction r gs rule: add_result.induct) auto

text \<open>Grouping neither loses nor repeats a device.\<close>

lemma group_partition: "mset (concat (map rg_Devices (GroupResults rs))) = mset (map r_Hostname rs)"
proof -
  have "mset (concat (map (rg_Devices \<circ> snd) (fold add_result rs gs))) =
      mset (concat (map (rg_Devices \<circ> snd) gs)) + mset (map r_Hostname rs)" for gs
    by (induction rs arbitrary: gs) (simp_all only: fold.simps comp_def [of "fold _ _"] add_result_devices, simp_all)
  from this [of "[]"] show ?thesis by (simp add: GroupResults_def comp_def)
qed

text \<open>A device that safe mode found unreachable counts as a success in the summary; the run calls
  the executor once for it and applies no earlier configuration.\<close>

lemma rolled_back_is_success:
  "r_Status r = ''rolled_back'' \<Longrightarrow> summary [r] = ''success''"
  by (simp add: summary_def)

definition demo_engine :: "string engine" where
  "demo_engine = \<lparr>tmpl_parse = Inr, tmpl_execute = (\<lambda>t d vs. Inr (t @ d_Hostname d)), vars_marshal = (\<lambda>v. ''{}''),
     vars_unmarshal = (\<lambda>s. []), json_object = (\<lambda>fs. None), sha256 = (\<lambda>s. s)\<rparr>"

definition demo_world :: world where
  "demo_world = \<lparr>pre_flight = Some (\<lambda>d. if d_Hostname d = ''r2'' then Some ''no route'' else None),
     push_executor = Some (\<lambda>d x. (''ok'', None)), poll_outcome = (\<lambda>d t. None), poll_text = (\<lambda>e. [])\<rparr>"

definition demo_row :: "int \<Rightarrow> int \<Rightarrow> string \<Rightarrow> device_row" where
  "demo_row i t h = \<lparr>dv_id = i, dv_tenant = t, dv_hostname = h, dv_address = ''10.0.0.1'', dv_port = 22,
     dv_driver = ''cisco_ios'', dv_group = None, dv_credential = None, dv_created = 0\<rparr>"

definition demo_push :: push_db where
  "demo_push = \<lparr>faults = [], last_rowid = 0, audit_log = empty_table, device_groups = empty_table,
     devices = \<lparr>rows = [demo_row 1 1 ''r1'', demo_row 2 1 ''r2'', demo_row 3 2 ''r3''], rowseq = 3\<rparr>,
     push_jobs = \<lparr>rows = [\<lparr>pr_id = 1, pr_tenant = 1, pr_name = ''ntp'', pr_template = ''ntp '', pr_variables = [],
       pr_group = None, pr_safe = False, pr_timeout = 60, pr_created = 0\<rparr>], rowseq = 1\<rparr>,
     push_runs = empty_table, push_results = empty_table\<rparr>"

theorem push_run_complete_witness:
  "\<exists>out s'. Run_push demo_engine [] demo_world True id id 0 second 1 1 demo_push = (Inr out, s') \<and>
     mset (map (\<lambda>r. (r_Hostname r, r_Status r)) out) = {# (''r1'', ''applied''), (''r2'', ''failed'') #} \<and>
     map rn_status (rows (push_runs s')) = [''partial'']"
proof -
  let ?row = "hd (rows (push_jobs demo_push))"
  have q: "query_row (\<lambda>r. pr_tenant r = 1 \<and> pr_id r = 1) (push_jobs demo_push) = Some ?row"
    by (simp add: demo_push_def query_row_def)
  have p: "tmpl_parse demo_engine (pr_template ?row) = Inr (pr_template ?row)"
    by (simp add: demo_engine_def)
  have wf: "faults demo_push = []" "wf_table rn_id (push_runs demo_push)" by (simp_all add: demo_push_def)
  obtain out s' where o: "Run_push demo_engine [] demo_world True id id 0 second 1 1 demo_push = (Inr out, s')"
    "mset out = mset (map (\<lambda>d. fst (push_device demo_engine demo_world (job_of demo_engine ?row) (pr_template ?row)
       (device_of d))) (targeted 1 (job_of demo_engine ?row) demo_push))"
    using push_run_complete [OF wf q p, of id "[]" demo_world True id 0 second] by auto
  have "map (\<lambda>d. (\<lambda>r. (r_Hostname r, r_Status r)) (fst (push_device demo_engine demo_world (job_of demo_engine ?row)
      (pr_template ?row) (device_of d)))) (targeted 1 (job_of demo_engine ?row) demo_push) =
      [(''r1'', ''applied''), (''r2'', ''failed'')]" by code_simp
  then have "image_mset (\<lambda>r. (r_Hostname r, r_Status r)) (mset out) = {# (''r1'', ''applied''), (''r2'', ''failed'') #}"
    unfolding o(2) mset_map [symmetric] map_map comp_def by simp
  moreover have "map rn_status (rows (push_runs (snd (Run_push demo_engine [] demo_world True id id 0 second 1 1 demo_push)))) =
      [''partial'']" by code_simp
  ultimately show ?thesis using o(1) by auto
qed

end
