(* ===== verification/ConfigStore.thy ===== *)
theory ConfigStore
  imports Prelude
begin

text \<open>
  The configuration store: one git repository per device (\<open>internal/configstore/store.go\<close>). The
  file system and go-git are parameters, a record of the calls the store makes on a world of
  its own; a commit holds the lock of its repository throughout.
\<close>

section \<open>Paths\<close>

text \<open>\<open>filepath.Clean\<close> and \<open>filepath.Join\<close> on Unix.\<close>

definition clean_step :: "bool \<Rightarrow> string list \<Rightarrow> string \<Rightarrow> string list" where
  "clean_step rooted acc e =
     (if e = [] \<or> e = ''.'' then acc
      else if e = ''..''
      then (if acc \<noteq> [] \<and> last acc \<noteq> ''..'' then butlast acc else if rooted then acc else acc @ [e])
      else acc @ [e])"

definition path_clean :: "string \<Rightarrow> string" where
  "path_clean p =
     (let rooted = has_prefix p ''/'';
          body = str_join ''/'' (foldl (clean_step rooted) [] (split_char CHR ''/'' p))
      in if rooted then CHR ''/'' # body else if body = [] then ''.'' else body)"

definition path_join :: "string list \<Rightarrow> string" where
  "path_join ps = (let qs = filter (\<lambda>p. p \<noteq> []) ps in if qs = [] then [] else path_clean (str_join ''/'' qs))"

definition hasParent :: "string \<Rightarrow> bool" where
  "hasParent p = list_ex (\<lambda>seg. seg = ''..'') (split_char CHR ''/'' p)"

definition artifact_name_ok :: "string \<Rightarrow> bool" where
  "artifact_name_ok a \<longleftrightarrow> path_clean a = a \<and> \<not> has_prefix a ''/'' \<and> \<not> hasParent a"

definition repo_key :: "int \<Rightarrow> int \<Rightarrow> string" where
  "repo_key tenantID deviceID = itoa tenantID @ ''/'' @ itoa deviceID"

definition repo_path :: "string \<Rightarrow> int \<Rightarrow> int \<Rightarrow> string" where
  "repo_path root tenantID deviceID = path_join [root, itoa tenantID, itoa deviceID]"

definition RepoPath :: "string \<Rightarrow> int \<Rightarrow> int \<Rightarrow> string + string" where
  "RepoPath root tenantID deviceID =
     (if root = [] then Inl ''configstore: not initialised'' else Inr (repo_path root tenantID deviceID))"

section \<open>The calls on git\<close>

record Artifact =
  a_Name :: string
  a_Content :: string

record CommitResult =
  cm_SHA :: string
  cm_Files :: "string list"
  cm_Timestamp :: time

record VersionEntry =
  ve_SHA :: string
  ve_Date :: time
  ve_Message :: string

datatype store_err = ErrNoChange | StoreErr string
datatype open_result = Opened | NotExists | OpenErr string

record 'w git =
  mkdir_all :: "string \<Rightarrow> 'w \<Rightarrow> string + 'w"
  plain_open :: "string \<Rightarrow> 'w \<Rightarrow> open_result"
  plain_init :: "string \<Rightarrow> 'w \<Rightarrow> string + 'w"
  set_main_branch :: "string \<Rightarrow> 'w \<Rightarrow> 'w"
  worktree_error :: "string \<Rightarrow> 'w \<Rightarrow> string option"
  write_file :: "string \<Rightarrow> string \<Rightarrow> 'w \<Rightarrow> string + 'w"
  wt_add :: "string \<Rightarrow> string \<Rightarrow> 'w \<Rightarrow> string + 'w"
  wt_clean :: "string \<Rightarrow> 'w \<Rightarrow> string + bool"
  wt_commit :: "string \<Rightarrow> string \<Rightarrow> string \<Rightarrow> string \<Rightarrow> time \<Rightarrow> 'w \<Rightarrow> string + string \<times> 'w"
  head_commit :: "string \<Rightarrow> 'w \<Rightarrow> string + string"
  resolve :: "string \<Rightarrow> string \<Rightarrow> 'w \<Rightarrow> string + string"
  tree_file :: "string \<Rightarrow> string \<Rightarrow> string \<Rightarrow> 'w \<Rightarrow> string + string"
  log_from_head :: "string \<Rightarrow> 'w \<Rightarrow> VersionEntry list"

section \<open>Commit\<close>

text \<open>Opening the repository, or making it.\<close>

definition open_or_init :: "'w git \<Rightarrow> string \<Rightarrow> 'w \<Rightarrow> string option \<times> 'w" where
  "open_or_init G path w = (case plain_open G path w of
     Opened \<Rightarrow> (None, w)
   | OpenErr e \<Rightarrow> (Some (''configstore: git open: '' @ e), w)
   | NotExists \<Rightarrow> (case plain_init G path w of
       Inl e \<Rightarrow> (Some (''configstore: git init: '' @ e), w)
     | Inr w \<Rightarrow> (None, set_main_branch G path w)))"

text \<open>Writing and staging the artifacts, in order; an error leaves the earlier ones.\<close>

fun stage :: "'w git \<Rightarrow> string \<Rightarrow> Artifact list \<Rightarrow> 'w \<Rightarrow> string option \<times> 'w" where
  "stage G path [] w = (None, w)"
| "stage G path (a # as) w =
     (if a_Name a = [] then (Some ''configstore: artifact missing name'', w)
      else if \<not> artifact_name_ok (a_Name a)
      then (Some (''configstore: invalid artifact name '' @ [CHR 0x22] @ a_Name a @ [CHR 0x22]), w)
      else (case write_file G (path_join [path, a_Name a]) (a_Content a) w of
        Inl e \<Rightarrow> (Some (''configstore: write '' @ a_Name a @ '': '' @ e), w)
      | Inr w \<Rightarrow> (case wt_add G path (a_Name a) w of
          Inl e \<Rightarrow> (Some (''configstore: git add '' @ a_Name a @ '': '' @ e), w)
        | Inr w \<Rightarrow> stage G path as w)))"

definition Commit_store ::
  "'w git \<Rightarrow> string \<Rightarrow> int \<Rightarrow> int \<Rightarrow> string \<Rightarrow> string \<Rightarrow> Artifact list \<Rightarrow> time \<Rightarrow> 'w
    \<Rightarrow> (store_err + CommitResult) \<times> 'w" where
  "Commit_store G root tenantID deviceID deviceName author artifacts now w =
     (if artifacts = [] then (Inl (StoreErr ''configstore: no artifacts''), w)
      else (let path = repo_path root tenantID deviceID in
        case mkdir_all G path w of
          Inl e \<Rightarrow> (Inl (StoreErr (''configstore: mkdir device: '' @ e)), w)
        | Inr w \<Rightarrow> (case open_or_init G path w of
            (Some e, w) \<Rightarrow> (Inl (StoreErr e), w)
          | (None, w) \<Rightarrow> (case worktree_error G path w of
              Some e \<Rightarrow> (Inl (StoreErr (''configstore: worktree: '' @ e)), w)
            | None \<Rightarrow> (case stage G path artifacts w of
                (Some e, w) \<Rightarrow> (Inl (StoreErr e), w)
              | (None, w) \<Rightarrow> (case wt_clean G path w of
                  Inl e \<Rightarrow> (Inl (StoreErr (''configstore: status: '' @ e)), w)
                | Inr True \<Rightarrow> (Inl ErrNoChange, w)
                | Inr False \<Rightarrow>
                    (case wt_commit G path (''backup: '' @ deviceName) author (author @ ''@netmantle.local'') now w of
                       Inl e \<Rightarrow> (Inl (StoreErr (''configstore: commit: '' @ e)), w)
                     | Inr (h, w) \<Rightarrow> (Inr \<lparr>cm_SHA = h, cm_Files = map a_Name artifacts, cm_Timestamp = now\<rparr>, w))))))))"

section \<open>Reading\<close>

definition Read_store ::
  "'w git \<Rightarrow> string \<Rightarrow> int \<Rightarrow> int \<Rightarrow> string \<Rightarrow> string \<Rightarrow> 'w \<Rightarrow> string + string" where
  "Read_store G root tenantID deviceID artifact sha w =
     (let path = repo_path root tenantID deviceID in
      case plain_open G path w of
        NotExists \<Rightarrow> Inl ''configstore: open: repository does not exist''
      | OpenErr e \<Rightarrow> Inl (''configstore: open: '' @ e)
      | Opened \<Rightarrow> (case (if sha = [] then map_sum (\<lambda>e. ''configstore: head: '' @ e) id (head_commit G path w)
                         else map_sum (\<lambda>e. ''configstore: resolve '' @ sha @ '': '' @ e) id (resolve G path sha w)) of
          Inl e \<Rightarrow> Inl e
        | Inr h \<Rightarrow> map_sum (\<lambda>e. ''configstore: file '' @ artifact @ '': '' @ e) id (tree_file G path h artifact w)))"

text \<open>\<open>readAll\<close>: filling a buffer of \<open>n\<close> bytes from a reader, given as what its calls return: the
  bytes and the error, if any (\<open>None\<close> in it is the end of file).\<close>

fun readAll :: "nat \<Rightarrow> (string \<times> string option option) list \<Rightarrow> string \<Rightarrow> string + string" where
  "readAll n [] buf = Inr buf"
| "readAll n ((d, e) # rs) buf =
     (if n \<le> length buf then Inr buf
      else (let buf = buf @ take (n - length buf) d in case e of
        None \<Rightarrow> readAll n rs buf | Some None \<Rightarrow> Inr buf | Some (Some x) \<Rightarrow> Inl x))"

definition ListVersions ::
  "'w git \<Rightarrow> string \<Rightarrow> int \<Rightarrow> int \<Rightarrow> int \<Rightarrow> 'w \<Rightarrow> string + VersionEntry list" where
  "ListVersions G root tenantID deviceID limit w =
     (let limit = (if limit \<le> 0 then 50 else limit); path = repo_path root tenantID deviceID in
      case plain_open G path w of
        NotExists \<Rightarrow> Inl ''configstore: open: repository does not exist''
      | OpenErr e \<Rightarrow> Inl (''configstore: open: '' @ e)
      | Opened \<Rightarrow> (case head_commit G path w of
          Inl e \<Rightarrow> Inl (''configstore: head: '' @ e)
        | Inr _ \<Rightarrow> Inr (take (nat limit) (log_from_head G path w))))"

section \<open>What the store relies on\<close>

text \<open>
  Git, as go-git documents it: \<open>staged\<close> is the index of a repository (name to content). Adding a
  file that was just written stages its content, whatever was staged before stays; a commit
  records the staged files under its hash, which resolves to itself; and no later call changes
  what a hash holds, nor closes an open repository.
\<close>

definition keeps_history :: "'w git \<Rightarrow> 'w \<Rightarrow> 'w \<Rightarrow> bool" where
  "keeps_history G w w' \<longleftrightarrow>
     (\<forall>p. plain_open G p w = Opened \<longrightarrow> plain_open G p w' = Opened) \<and>
     (\<forall>p s h. resolve G p s w = Inr h \<and> s = h \<longrightarrow> resolve G p s w' = Inr h) \<and>
     (\<forall>p h f c. tree_file G p h f w = Inr c \<longrightarrow> tree_file G p h f w' = Inr c)"

definition git_correct :: "'w git \<Rightarrow> (string \<Rightarrow> 'w \<Rightarrow> string \<Rightarrow> string option) \<Rightarrow> bool" where
  "git_correct G staged \<longleftrightarrow>
     (\<forall>p w w'. mkdir_all G p w = Inr w' \<longrightarrow> keeps_history G w w') \<and>
     (\<forall>p w w'. plain_init G p w = Inr w' \<longrightarrow> keeps_history G w w' \<and> plain_open G p w' = Opened) \<and>
     (\<forall>p w. keeps_history G w (set_main_branch G p w)) \<and>
     (\<forall>p f c w w1 w2. write_file G (path_join [p, f]) c w = Inr w1 \<and> wt_add G p f w1 = Inr w2 \<longrightarrow>
        keeps_history G w w2 \<and> staged p w2 = (staged p w)(f \<mapsto> c)) \<and>
     (\<forall>p c w w'. write_file G p c w = Inr w' \<longrightarrow> keeps_history G w w') \<and>
     (\<forall>p m a e t w h w'. plain_open G p w = Opened \<and> wt_commit G p m a e t w = Inr (h, w') \<longrightarrow>
        keeps_history G w w' \<and> h \<noteq> [] \<and> resolve G p h w' = Inr h \<and>
        (\<forall>f c. staged p w f = Some c \<longrightarrow> tree_file G p h f w' = Inr c))"

lemma keeps_history_refl [simp]: "keeps_history G w w"
  by (simp add: keeps_history_def)

lemma keeps_history_trans: "keeps_history G a b \<Longrightarrow> keeps_history G b c \<Longrightarrow> keeps_history G a c"
  by (simp add: keeps_history_def)

text \<open>The names and contents of the artifacts; the last of a name counts.\<close>

fun artifact_map :: "Artifact list \<Rightarrow> (string \<Rightarrow> string option) \<Rightarrow> string \<Rightarrow> string option" where
  "artifact_map [] m = m"
| "artifact_map (a # as) m = artifact_map as (m(a_Name a \<mapsto> a_Content a))"

lemma artifact_map_in:
  assumes "distinct (map a_Name as)" and "a \<in> set as"
  shows "artifact_map as m (a_Name a) = Some (a_Content a)"
proof -
  have other: "a_Name a \<notin> a_Name ` set bs \<Longrightarrow> artifact_map bs m (a_Name a) = m (a_Name a)" for bs m
    by (induction bs m rule: artifact_map.induct) auto
  show ?thesis using assms by (induction as m rule: artifact_map.induct) (auto simp: other)
qed

lemma stage_keeps:
  assumes "git_correct G staged"
  shows "keeps_history G w (snd (stage G path as w)) \<and>
    (fst (stage G path as w) = None \<longrightarrow> staged path (snd (stage G path as w)) = artifact_map as (staged path w))"
proof (induction as arbitrary: w)
  case (Cons a as)
  have G: "write_file G (path_join [path, a_Name a]) (a_Content a) w = Inr w1 \<Longrightarrow> keeps_history G w w1"
    "write_file G (path_join [path, a_Name a]) (a_Content a) w = Inr w1 \<Longrightarrow> wt_add G path (a_Name a) w1 = Inr w2 \<Longrightarrow>
       keeps_history G w w2 \<and> staged path w2 = (staged path w)(a_Name a \<mapsto> a_Content a)" for w1 w2
    using assms unfolding git_correct_def by blast+
  show ?case
  proof (cases "a_Name a = [] \<or> \<not> artifact_name_ok (a_Name a)")
    case False
    show ?thesis
    proof (cases "write_file G (path_join [path, a_Name a]) (a_Content a) w")
      case (Inr w1)
      note w1 = this
      show ?thesis
      proof (cases "wt_add G path (a_Name a) w1")
        case (Inr w2)
        with False w1 G(2) [OF w1 Inr] Cons.IH [of w2] show ?thesis
          by (auto intro: keeps_history_trans simp: fun_upd_def)
      qed (use False w1 G(1) in auto)
    qed (use False in simp)
  qed auto
qed simp

lemma git_steps:
  assumes "git_correct G staged"
  shows "mkdir_all G p x = Inr y \<Longrightarrow> keeps_history G x y"
    "plain_init G p x = Inr y \<Longrightarrow> keeps_history G x y \<and> plain_open G p y = Opened"
    "keeps_history G x (set_main_branch G p x)"
    "plain_open G p x = Opened \<Longrightarrow> wt_commit G p m au e tm x = Inr (h, y) \<Longrightarrow>
       keeps_history G x y \<and> h \<noteq> [] \<and> resolve G p h y = Inr h \<and>
       (\<forall>f c. staged p x f = Some c \<longrightarrow> tree_file G p h f y = Inr c)"
  using assms by (auto simp: git_correct_def)

lemma open_or_init_keeps:
  assumes "git_correct G staged" and "open_or_init G p x = (e, y)"
  shows "keeps_history G x y \<and> (e = None \<longrightarrow> plain_open G p y = Opened)"
proof (cases "plain_open G p x")
  case NotExists
  note ne = this
  show ?thesis
  proof (cases "plain_init G p x")
    case (Inr z)
    from git_steps(2) [OF assms(1) this] git_steps(3) [OF assms(1), of z p]
    have "keeps_history G x (set_main_branch G p z)" "plain_open G p (set_main_branch G p z) = Opened"
      by (auto intro: keeps_history_trans simp: keeps_history_def)
    with ne Inr assms(2) show ?thesis by (auto simp: open_or_init_def)
  qed (use ne assms(2) in \<open>auto simp: open_or_init_def\<close>)
qed (use assms(2) in \<open>auto simp: open_or_init_def\<close>)

text \<open>What a commit did: it failed and kept the history, or it staged every artifact in an open
  repository and committed.\<close>

lemma commit_cases:
  assumes g: "git_correct G staged"
    and c: "Commit_store G root t d name author as now w = (r, w')"
  obtains "isl r" "keeps_history G w w'"
  | cr x y where "r = Inr cr" "keeps_history G w x" "plain_open G (repo_path root t d) x = Opened"
      "staged (repo_path root t d) x = artifact_map as (staged (repo_path root t d) y)"
      "wt_commit G (repo_path root t d) (''backup: '' @ name) author (author @ ''@netmantle.local'') now x =
         Inr (cm_SHA cr, w')"
proof -
  let ?p = "repo_path root t d"
  note def = Commit_store_def Let_def
  show thesis
  proof (cases "as = [] \<or> isl (mkdir_all G ?p w)")
    case True
    with c that(1) show ?thesis by (cases "as = []"; cases "mkdir_all G ?p w") (auto simp: def)
  next
    case False
    then obtain w1 where w1: "mkdir_all G ?p w = Inr w1" by (cases "mkdir_all G ?p w") auto
    obtain e w2 where w2: "open_or_init G ?p w1 = (e, w2)" by force
    have k2: "keeps_history G w w2" "e = None \<Longrightarrow> plain_open G ?p w2 = Opened"
      using git_steps(1) [OF g w1] open_or_init_keeps [OF g w2] by (auto intro: keeps_history_trans)
    obtain e3 w3 where w3: "stage G ?p as w2 = (e3, w3)" by force
    have k3: "keeps_history G w w3" "e3 = None \<Longrightarrow> staged ?p w3 = artifact_map as (staged ?p w2)"
      "e = None \<Longrightarrow> plain_open G ?p w3 = Opened"
      using stage_keeps [OF g, where path = ?p and as = as and w = w2] w3 k2 by (auto intro: keeps_history_trans simp: keeps_history_def)
    let ?commit = "wt_commit G ?p (''backup: '' @ name) author (author @ ''@netmantle.local'') now w3"
    consider (open_fails) m where "e = Some m" | (tree_fails) m where "e = None" "worktree_error G ?p w2 = Some m"
      | (stage_fails) m where "e = None" "worktree_error G ?p w2 = None" "e3 = Some m"
      | (unclean) "e = None" "worktree_error G ?p w2 = None" "e3 = None" "wt_clean G ?p w3 \<noteq> Inr False"
      | (commits) "e = None" "worktree_error G ?p w2 = None" "e3 = None" "wt_clean G ?p w3 = Inr False"
      by fastforce
    then show thesis
    proof cases
      case unclean
      with c w1 w2 w3 False k3(1) that(1) show thesis
        by (cases "wt_clean G ?p w3") (auto simp: def split: bool.splits)
    next
      case commits
      show thesis
      proof (cases ?commit)
        case (Inl m)
        with commits c w1 w2 w3 False k3(1) that(1) show thesis by (auto simp: def)
      next
        case (Inr hw)
        obtain h v where hw: "hw = (h, v)" by force
        from commits c w1 w2 w3 False Inr hw
        have r: "r = Inr \<lparr>cm_SHA = h, cm_Files = map a_Name as, cm_Timestamp = now\<rparr>" "w' = v"
          by (auto simp: def)
        from that(2) [OF r(1) k3(1) k3(3) [OF commits(1)] k3(2) [OF commits(3)]] Inr hw r(2)
        show thesis by simp
      qed
    qed (use c w1 w2 w3 False k2(1) k3(1) that(1) in \<open>auto simp: def\<close>)
  qed
qed

lemma commit_keeps:
  assumes "git_correct G staged" and "Commit_store G root t d name author as now w = (r, w')"
  shows "keeps_history G w w'"
proof (rule commit_cases [OF assms])
  fix cr x y
  assume k: "keeps_history G w x" and "plain_open G (repo_path root t d) x = Opened"
    "wt_commit G (repo_path root t d) (''backup: '' @ name) author (author @ ''@netmantle.local'') now x =
       Inr (cm_SHA cr, w')"
  from git_steps(4) [OF assms(1) this(2,3)] k show ?thesis by (blast intro: keeps_history_trans)
qed

text \<open>A read at a hash, and what a commit makes readable.\<close>

lemma read_keeps:
  assumes "keeps_history G w w'" and "Read_store G root t d f h w = Inr c"
    and "h \<noteq> []" and "resolve G (repo_path root t d) h w = Inr h"
  shows "Read_store G root t d f h w' = Inr c" "resolve G (repo_path root t d) h w' = Inr h"
  using assms by (auto simp: Read_store_def Let_def keeps_history_def map_sum_def
      split: open_result.splits sum.splits)

lemma commit_reads_back:
  assumes "git_correct G staged" and "Commit_store G root t d name author as now w = (Inr cr, w')"
    and "distinct (map a_Name as)" and "a \<in> set as"
  shows "Read_store G root t d (a_Name a) (cm_SHA cr) w' = Inr (a_Content a)"
    "cm_SHA cr \<noteq> []" "resolve G (repo_path root t d) (cm_SHA cr) w' = Inr (cm_SHA cr)"
proof -
  let ?p = "repo_path root t d"
  have "\<exists>x y. plain_open G ?p x = Opened \<and> staged ?p x = artifact_map as (staged ?p y) \<and>
      wt_commit G ?p (''backup: '' @ name) author (author @ ''@netmantle.local'') now x = Inr (cm_SHA cr, w')"
  proof (rule commit_cases [OF assms(1,2)])
    fix c x y
    assume e: "Inr cr = (Inr c :: store_err + CommitResult)" and x: "plain_open G ?p x = Opened"
      "staged ?p x = artifact_map as (staged ?p y)"
      "wt_commit G ?p (''backup: '' @ name) author (author @ ''@netmantle.local'') now x = Inr (cm_SHA c, w')"
    from e have "c = cr" by simp
    with x show ?thesis by blast
  qed simp
  then obtain x y where x: "plain_open G ?p x = Opened" "staged ?p x = artifact_map as (staged ?p y)"
    "wt_commit G ?p (''backup: '' @ name) author (author @ ''@netmantle.local'') now x = Inr (cm_SHA cr, w')"
    by blast
  from git_steps(4) [OF assms(1) x(1,3)] have
    k: "keeps_history G x w'" "cm_SHA cr \<noteq> []" "resolve G ?p (cm_SHA cr) w' = Inr (cm_SHA cr)"
    "\<And>f c. staged ?p x f = Some c \<Longrightarrow> tree_file G ?p (cm_SHA cr) f w' = Inr c" by auto
  have "staged ?p x (a_Name a) = Some (a_Content a)"
    unfolding x(2) using assms(3,4) by (rule artifact_map_in)
  with k x(1) show "Read_store G root t d (a_Name a) (cm_SHA cr) w' = Inr (a_Content a)"
    by (simp add: Read_store_def keeps_history_def Let_def)
  show "cm_SHA cr \<noteq> []" "resolve G ?p (cm_SHA cr) w' = Inr (cm_SHA cr)" using k by simp_all
qed

end
