(* ===== verification/Vault.thy ===== *)
theory Vault
  imports Devices Base64
begin

text \<open>
  The credential vault: the sealer (\<open>internal/crypto/sealer.go\<close>) and the encrypted store of
  device credentials (\<open>internal/credentials/repo.go\<close>). scrypt, AES and GCM are parameters, as is
  the random source; a text that fails to derive a key or to build a cipher is one of their
  results. Deleting a credential clears it from the devices that use it, as the schema says.
\<close>

section \<open>Sealer\<close>

definition saltLen :: nat where "saltLen = 16"
definition nonceLen :: nat where "nonceLen = 12"
definition sealPrefix :: string where "sealPrefix = ''v1.''"

text \<open>\<open>scrypt.Key\<close> at the fixed cost gives a key or an error; \<open>aes.NewCipher\<close> and \<open>cipher.NewGCM\<close>
  an error or none; the two GCM calls take key, nonce and text.\<close>

record aead =
  scrypt_key :: "string \<Rightarrow> string \<Rightarrow> string + string"
  cipher_error :: "string \<Rightarrow> string option"
  gcm_seal :: "string \<Rightarrow> string \<Rightarrow> string \<Rightarrow> string"
  gcm_open :: "string \<Rightarrow> string \<Rightarrow> string \<Rightarrow> string option"

datatype seal_err =
  EmptyPassphrase | SealSalt | SealNonce | DeriveErr string | CipherErr string
| UnknownVersion | DecodeErr | TooShort | DecryptFailed

definition NewSealer :: "string \<Rightarrow> seal_err + string" where
  "NewSealer passphrase = (if trim_space passphrase = [] then Inl EmptyPassphrase else Inr passphrase)"

definition Seal ::
  "aead \<Rightarrow> string \<Rightarrow> string option \<Rightarrow> string option \<Rightarrow> string \<Rightarrow> seal_err + string" where
  "Seal A master r1 r2 plaintext = (case r1 of
     None \<Rightarrow> Inl SealSalt
   | Some salt \<Rightarrow> (case scrypt_key A master salt of
       Inl e \<Rightarrow> Inl (DeriveErr e)
     | Inr dek \<Rightarrow> (case cipher_error A dek of
         Some e \<Rightarrow> Inl (CipherErr e)
       | None \<Rightarrow> (case r2 of
           None \<Rightarrow> Inl SealNonce
         | Some nonce \<Rightarrow>
             Inr (sealPrefix @ base64url (salt @ nonce @ gcm_seal A dek nonce plaintext))))))"

definition Open :: "aead \<Rightarrow> string \<Rightarrow> string \<Rightarrow> seal_err + string" where
  "Open A master envelope =
     (if \<not> has_prefix envelope sealPrefix then Inl UnknownVersion
      else (case base64url_decode (drop (length sealPrefix) envelope) of
        None \<Rightarrow> Inl DecodeErr
      | Some raw \<Rightarrow>
          if length raw < saltLen + nonceLen + 16 then Inl TooShort
          else (let salt = take saltLen raw;
                    nonce = take nonceLen (drop saltLen raw);
                    ct = drop (saltLen + nonceLen) raw
                in case scrypt_key A master salt of
                     Inl e \<Rightarrow> Inl (DeriveErr e)
                   | Inr dek \<Rightarrow> (case cipher_error A dek of
                       Some e \<Rightarrow> Inl (CipherErr e)
                     | None \<Rightarrow> (case gcm_open A dek nonce ct of
                         None \<Rightarrow> Inl DecryptFailed | Some pt \<Rightarrow> Inr pt)))))"

text \<open>What \<open>cipher.AEAD\<close> documents of GCM with its 16-byte tag.\<close>

definition gcm_correct :: "aead \<Rightarrow> bool" where
  "gcm_correct A \<longleftrightarrow> (\<forall>k n p. gcm_open A k n (gcm_seal A k n p) = Some p \<and>
     length (gcm_seal A k n p) = length p + 16)"

text \<open>A full read of the random source fills its buffer.\<close>

definition fills :: "nat \<Rightarrow> string option \<Rightarrow> bool" where
  "fills n r \<longleftrightarrow> (\<forall>b. r = Some b \<longrightarrow> length b = n)"

lemma Open_Seal:
  assumes "gcm_correct A" and "fills saltLen r1" and "fills nonceLen r2" and "Seal A m r1 r2 p = Inr env"
  shows "Open A m env = Inr p"
proof -
  obtain salt dek nonce where s: "r1 = Some salt" "scrypt_key A m salt = Inr dek" "cipher_error A dek = None"
    "r2 = Some nonce" "env = sealPrefix @ base64url (salt @ nonce @ gcm_seal A dek nonce p)"
    using assms(4) by (auto simp: Seal_def split: option.splits sum.splits)
  have l: "length salt = saltLen" "length nonce = nonceLen"
    using assms(2,3) s by (auto simp: fills_def)
  have "Open A m env = (case gcm_open A dek nonce (gcm_seal A dek nonce p) of
      None \<Rightarrow> Inl DecryptFailed | Some pt \<Rightarrow> Inr pt)"
    using s l assms(1) by (simp add: Open_def gcm_correct_def)
  with assms(1) show ?thesis by (simp add: gcm_correct_def)
qed

section \<open>Credentials\<close>

record Credential =
  c_ID :: int
  c_TenantID :: int
  c_Name :: string
  c_Username :: string
  c_CreatedAt :: time
  c_LastUsedAt :: "time option"

record Ref =
  ref_ID :: int
  ref_Name :: string
  ref_Username :: string
  ref_LastUsedAt :: "time option"

definition AsRef :: "Credential \<Rightarrow> Ref" where
  "AsRef c = \<lparr>ref_ID = c_ID c, ref_Name = c_Name c, ref_Username = c_Username c,
     ref_LastUsedAt = c_LastUsedAt c\<rparr>"

record cred_row =
  cd_id :: int
  cd_tenant :: int
  cd_name :: string
  cd_username :: string
  cd_envelope :: string
  cd_created :: stamp
  cd_used :: "stamp option"

record cred_db = device_db +
  credentials :: "cred_row sql_table"

datatype cred_err = CredNotFound | CredRequired | CredSeal seal_err | CredDB string | CredFn string

definition credential_of :: "cred_row \<Rightarrow> Credential" where
  "credential_of r = \<lparr>c_ID = cd_id r, c_TenantID = cd_tenant r, c_Name = cd_name r,
     c_Username = cd_username r, c_CreatedAt = of_stamp (cd_created r),
     c_LastUsedAt = map_option of_stamp (cd_used r)\<rparr>"

definition CreateCredential ::
  "aead \<Rightarrow> string \<Rightarrow> string option \<Rightarrow> string option \<Rightarrow> time \<Rightarrow> Credential \<Rightarrow> string
    \<Rightarrow> 'a cred_db_scheme \<Rightarrow> (cred_err + Credential) \<times> 'a cred_db_scheme" where
  "CreateCredential A master r1 r2 now c secret s =
     (if c_TenantID c \<le> 0 \<or> trim_space (c_Name c) = [] \<or> trim_space (c_Username c) = [] \<or> secret = []
      then (Inl CredRequired, s)
      else (case Seal A master r1 r2 secret of
        Inl e \<Rightarrow> (Inl (CredSeal e), s)
      | Inr env \<Rightarrow> exec CredDB s (\<lambda>s.
          if list_ex (\<lambda>r. cd_tenant r = c_TenantID c \<and> cd_name r = c_Name c) (rows (credentials s))
          then (Inl (CredDB ''UNIQUE constraint failed''), s)
          else (let n = next_rowid (credentials s) in
            (Inr (c\<lparr>c_ID := n, c_CreatedAt := now\<rparr>),
             s\<lparr>credentials := insert_row (\<lambda>n. \<lparr>cd_id = n, cd_tenant = c_TenantID c, cd_name = c_Name c,
                  cd_username = c_Username c, cd_envelope = env, cd_created = rfc3339 now, cd_used = None\<rparr>)
                  (credentials s), last_rowid := n\<rparr>)))))"

definition cred_at :: "int \<Rightarrow> int \<Rightarrow> cred_row \<Rightarrow> bool" where
  "cred_at tenantID i r \<longleftrightarrow> cd_tenant r = tenantID \<and> cd_id r = i"

definition GetCredential ::
  "int \<Rightarrow> int \<Rightarrow> 'a cred_db_scheme \<Rightarrow> (cred_err + Credential) \<times> 'a cred_db_scheme" where
  "GetCredential tenantID i s = exec CredDB s (\<lambda>s.
     case query_row (cred_at tenantID i) (credentials s) of
       None \<Rightarrow> (Inl CredNotFound, s) | Some r \<Rightarrow> (Inr (credential_of r), s))"

definition ListCredentials ::
  "int \<Rightarrow> 'a cred_db_scheme \<Rightarrow> (cred_err + Credential list) \<times> 'a cred_db_scheme" where
  "ListCredentials tenantID s = exec CredDB s (\<lambda>s.
     (Inr (map credential_of (order_asc cd_name (filter (\<lambda>r. cd_tenant r = tenantID) (rows (credentials s))))), s))"

definition Reveal ::
  "aead \<Rightarrow> string \<Rightarrow> int \<Rightarrow> int \<Rightarrow> 'a cred_db_scheme \<Rightarrow> (cred_err + string \<times> string) \<times> 'a cred_db_scheme" where
  "Reveal A master tenantID i s = exec CredDB s (\<lambda>s.
     case query_row (cred_at tenantID i) (credentials s) of
       None \<Rightarrow> (Inl CredNotFound, s)
     | Some r \<Rightarrow> (case Open A master (cd_envelope r) of
         Inl e \<Rightarrow> (Inl (CredSeal e), s) | Inr pt \<Rightarrow> (Inr (cd_username r, pt), s)))"

text \<open>\<open>Use\<close> hands the pair to \<open>fn\<close>, whose error it returns; the bytes it zeroes afterwards are
  its own copy.\<close>

definition UseCredential ::
  "aead \<Rightarrow> string \<Rightarrow> time \<Rightarrow> (string \<Rightarrow> string \<Rightarrow> string option) \<Rightarrow> int \<Rightarrow> int \<Rightarrow> 'a cred_db_scheme
    \<Rightarrow> (cred_err + unit) \<times> 'a cred_db_scheme" where
  "UseCredential A master now fn tenantID i s = exec CredDB s (\<lambda>s.
     case query_row (cred_at tenantID i) (credentials s) of
       None \<Rightarrow> (Inl CredNotFound, s)
     | Some r \<Rightarrow> (case Open A master (cd_envelope r) of
         Inl e \<Rightarrow> (Inl (CredSeal e), s)
       | Inr pt \<Rightarrow>
           (let s = exec_quiet s (\<lambda>s. s\<lparr>credentials := update_rows (cred_at tenantID i)
                  (\<lambda>r. r\<lparr>cd_used := Some (rfc3339 now)\<rparr>) (credentials s)\<rparr>)
            in (case fn (cd_username r) pt of None \<Rightarrow> Inr () | Some e \<Rightarrow> Inl (CredFn e), s))))"

definition DeleteCredential ::
  "int \<Rightarrow> int \<Rightarrow> 'a cred_db_scheme \<Rightarrow> (cred_err + unit) \<times> 'a cred_db_scheme" where
  "DeleteCredential tenantID i s = exec CredDB s (\<lambda>s.
     if affected (cred_at tenantID i) (credentials s) = 0 then (Inl CredNotFound, s)
     else (Inr (), s\<lparr>credentials := delete_rows (cred_at tenantID i) (credentials s),
       devices := update_rows (\<lambda>d. dv_credential d = Some i) (\<lambda>d. d\<lparr>dv_credential := None\<rparr>) (devices s)\<rparr>))"

section \<open>A stored secret is returned as it was given\<close>

datatype vault_cmd =
  VCreate "string option" "string option" time Credential string | VGet int | VList | VReveal int
| VUse time "string \<Rightarrow> string \<Rightarrow> string option" int | VDelete int

fun vault_do :: "aead \<Rightarrow> string \<Rightarrow> int \<Rightarrow> vault_cmd \<Rightarrow> 'a cred_db_scheme \<Rightarrow> 'a cred_db_scheme" where
  "vault_do A m t (VCreate r1 r2 now c sec) s =
     snd (CreateCredential A m r1 r2 now (c\<lparr>c_TenantID := t\<rparr>) sec s)"
| "vault_do A m t (VGet i) s = snd (GetCredential t i s)"
| "vault_do A m t VList s = snd (ListCredentials t s)"
| "vault_do A m t (VReveal i) s = snd (Reveal A m t i s)"
| "vault_do A m t (VUse now fn i) s = snd (UseCredential A m now fn t i s)"
| "vault_do A m t (VDelete i) s = snd (DeleteCredential t i s)"

fun vault_run ::
  "aead \<Rightarrow> string \<Rightarrow> (int \<times> vault_cmd) list \<Rightarrow> 'a cred_db_scheme \<Rightarrow> 'a cred_db_scheme" where
  "vault_run A m [] s = s"
| "vault_run A m ((t, c) # cs) s = vault_run A m cs (vault_do A m t c s)"

text \<open>The row of a credential, whatever its last use.\<close>

definition holds_secret :: "int \<Rightarrow> int \<Rightarrow> string \<Rightarrow> string \<Rightarrow> 'a cred_db_scheme \<Rightarrow> bool" where
  "holds_secret t i u env s \<longleftrightarrow> wf_table cd_id (credentials s) \<and>
     (\<exists>r \<in> set (rows (credentials s)). cred_at t i r \<and> cd_username r = u \<and> cd_envelope r = env)"

lemma holds_faults [simp]: "holds_secret t i u env (s\<lparr>faults := fs\<rparr>) = holds_secret t i u env s"
  by (simp add: holds_secret_def)

lemma holds_insert:
  assumes "holds_secret t i u env s" and "\<And>n. cd_id (f n) = n"
  shows "holds_secret t i u env (s\<lparr>credentials := insert_row f (credentials s), last_rowid := k\<rparr>)"
  using assms by (auto simp: holds_secret_def intro: wf_insert_row)

lemma holds_touch:
  assumes "holds_secret t i u env s"
  shows "holds_secret t i u env
    (s\<lparr>credentials := update_rows (cred_at t' j) (\<lambda>r. r\<lparr>cd_used := w\<rparr>) (credentials s)\<rparr>)"
proof -
  obtain r where r: "r \<in> set (rows (credentials s))" "cred_at t i r" "cd_username r = u" "cd_envelope r = env"
    using assms by (auto simp: holds_secret_def)
  let ?g = "\<lambda>r. if cred_at t' j r then r\<lparr>cd_used := w\<rparr> else r"
  have "?g r \<in> ?g ` set (rows (credentials s))" using r(1) by (rule imageI)
  moreover have "cred_at t i (?g r)" "cd_username (?g r) = u" "cd_envelope (?g r) = env"
    using r by (simp_all add: cred_at_def)
  ultimately show ?thesis
    using assms by (auto simp: holds_secret_def simp del: image_iff intro!: wf_update_rows)
qed

lemma holds_delete:
  assumes "holds_secret t i u env s" and "j \<noteq> i \<or> t' \<noteq> t"
  shows "holds_secret t i u env
    (s\<lparr>credentials := delete_rows (cred_at t' j) (credentials s), devices := d\<rparr>)"
  using assms by (auto simp: holds_secret_def cred_at_def intro!: wf_delete_rows)

lemma vault_do_holds:
  assumes "holds_secret t i u env s" and "(t', c) \<noteq> (t, VDelete i)"
  shows "holds_secret t i u env (vault_do A m t' c s)"
proof -
  let ?H = "\<lambda>r s. holds_secret t i u env s"
  have "post ?H (CreateCredential A m r1 r2 now x sec s)" for r1 r2 now x sec
    using assms(1) unfolding CreateCredential_def Let_def
    by (auto split: sum.splits intro!: post_exec holds_insert [of _ _ _ _ "s\<lparr>faults := fs\<rparr>" for fs, simplified])
  moreover have "post ?H (GetCredential t' j s)" "post ?H (ListCredentials t' s)" "post ?H (Reveal A m t' j s)" for j
    using assms(1) unfolding GetCredential_def ListCredentials_def Reveal_def
    by (auto split: option.splits sum.splits intro!: post_exec)
  moreover have "post ?H (UseCredential A m now fn t' j s)" for now fn j
    using assms(1) unfolding UseCredential_def Let_def
    by (auto split: option.splits sum.splits intro!: post_exec exec_quiet_post [where Q = "holds_secret t i u env"]
        holds_touch [of _ _ _ _ "s\<lparr>faults := fs\<rparr>" for fs, simplified])
  moreover have "j \<noteq> i \<or> t' \<noteq> t \<Longrightarrow> post ?H (DeleteCredential t' j s)" for j
    using assms(1) unfolding DeleteCredential_def
    by (auto intro!: post_exec holds_delete [of _ _ _ _ "s\<lparr>faults := fs\<rparr>" for fs, simplified])
  ultimately show ?thesis using assms(2) by (cases c) (auto simp: post_snd)
qed

lemma vault_run_holds:
  "holds_secret t i u env s \<Longrightarrow> (t, VDelete i) \<notin> set cs \<Longrightarrow> holds_secret t i u env (vault_run A m cs s)"
  by (induction A m cs s rule: vault_run.induct) (auto intro: vault_do_holds)

lemma holds_row:
  assumes "holds_secret t i u env s"
  shows "\<exists>r. query_row (cred_at t i) (credentials s) = Some r \<and> cd_username r = u \<and> cd_envelope r = env"
    and "t' \<noteq> t \<Longrightarrow> query_row (cred_at t' i) (credentials s) = None"
proof -
  obtain r where r: "r \<in> set (rows (credentials s))" "cred_at t i r" "cd_username r = u" "cd_envelope r = env"
    and wf: "wf_table cd_id (credentials s)" using assms by (auto simp: holds_secret_def)
  from query_row_key [OF wf r(1), where P = "cred_at t i"] r
  show "\<exists>r. query_row (cred_at t i) (credentials s) = Some r \<and> cd_username r = u \<and> cd_envelope r = env"
    by (auto simp: cred_at_def)
  show "t' \<noteq> t \<Longrightarrow> query_row (cred_at t' i) (credentials s) = None"
    using r(1,2) wf by (auto simp: query_row_None cred_at_def dest: wf_table_unique)
qed

lemma Create_holds:
  assumes "wf_table cd_id (credentials s)" and "CreateCredential A m r1 r2 now c sec s = (Inr c', s')"
  shows "\<exists>env. Seal A m r1 r2 sec = Inr env \<and> holds_secret (c_TenantID c) (c_ID c') (c_Username c) env s'"
proof -
  have "post (\<lambda>r s'. \<forall>c'. r = Inr c' \<longrightarrow>
      (\<exists>env. Seal A m r1 r2 sec = Inr env \<and> holds_secret (c_TenantID c) (c_ID c') (c_Username c) env s'))
    (CreateCredential A m r1 r2 now c sec s)"
    using assms(1) unfolding CreateCredential_def Let_def
    by (auto simp: holds_secret_def cred_at_def split: sum.splits intro!: post_exec wf_insert_row)
  from postD [OF this assms(2)] show ?thesis by simp
qed

text \<open>C23: A stored secret comes back: after a credential was created, whatever other calls any
  tenant makes and whichever statements fail, as long as its own tenant does not delete it, a
  working \<open>Reveal\<close> gives that tenant the user name and the secret, and any other tenant
  nothing.\<close>
theorem secret_comes_back:
  assumes "gcm_correct A" and "fills saltLen r1" and "fills nonceLen r2"
    and "wf_table cd_id (credentials s)"
    and "CreateCredential A m r1 r2 now c secret s = (Inr c', s1)"
    and "(c_TenantID c, VDelete (c_ID c')) \<notin> set cs"
    and "s2 = vault_run A m cs s1" and "faults s2 = []"
  shows "Reveal A m (c_TenantID c) (c_ID c') s2 = (Inr (c_Username c, secret), s2) \<and>
    (\<forall>t. t \<noteq> c_TenantID c \<longrightarrow> Reveal A m t (c_ID c') s2 = (Inl CredNotFound, s2))"
proof -
  obtain env where env: "Seal A m r1 r2 secret = Inr env"
    "holds_secret (c_TenantID c) (c_ID c') (c_Username c) env s1"
    using Create_holds [OF assms(4,5)] by blast
  have h: "holds_secret (c_TenantID c) (c_ID c') (c_Username c) env s2"
    unfolding assms(7) using env(2) assms(6) by (rule vault_run_holds)
  from holds_row [OF h] Open_Seal [OF assms(1-3) env(1)] assms(8)
  show ?thesis by (auto simp: Reveal_def)
qed

text \<open>A toy cipher: the text followed by sixteen bytes.\<close>

definition demo_aead :: aead where
  "demo_aead = \<lparr>scrypt_key = (\<lambda>m s. Inr (m @ s)), cipher_error = (\<lambda>k. None),
     gcm_seal = (\<lambda>k n p. p @ replicate 16 (CHR ''t'')), gcm_open = (\<lambda>k n c. Some (take (length c - 16) c))\<rparr>"

definition demo_credential :: Credential where
  "demo_credential = \<lparr>c_ID = 0, c_TenantID = 1, c_Name = ''core'', c_Username = ''admin'',
     c_CreatedAt = 0, c_LastUsedAt = None\<rparr>"

definition empty_vault :: cred_db where
  "empty_vault = \<lparr>faults = [], last_rowid = 0, audit_log = empty_table, device_groups = empty_table, devices = empty_table,
     credentials = empty_table\<rparr>"

definition demo_create :: "(cred_err + Credential) \<times> cred_db" where
  "demo_create = CreateCredential demo_aead ''pw'' (Some (replicate 16 CHR ''s'')) (Some (replicate 12 CHR ''n''))
     0 demo_credential ''s3cret'' empty_vault"

definition demo_vault_cmds :: "(int \<times> vault_cmd) list" where
  "demo_vault_cmds = [(2, VDelete 1), (1, VUse second (\<lambda>u p. None) 1), (2, VReveal 1)]"

theorem secret_comes_back_witness:
  "\<exists>s2 :: cred_db. Reveal demo_aead ''pw'' 1 1 s2 = (Inr (''admin'', ''s3cret''), s2) \<and>
     Reveal demo_aead ''pw'' 2 1 s2 = (Inl CredNotFound, s2)"
proof -
  have g: "gcm_correct demo_aead" by (simp add: gcm_correct_def demo_aead_def)
  have h: "fst demo_create = Inr (demo_credential\<lparr>c_ID := 1\<rparr>)" by code_simp
  then obtain s1 where s1: "demo_create = (Inr (demo_credential\<lparr>c_ID := 1\<rparr>), s1)" by (metis prod.collapse)
  let ?s2 = "vault_run demo_aead ''pw'' demo_vault_cmds s1"
  have "faults (vault_run demo_aead ''pw'' demo_vault_cmds (snd demo_create)) = []" by code_simp
  then have f: "faults ?s2 = []" by (simp only: s1 snd_conv)
  have n: "(c_TenantID demo_credential, VDelete (c_ID (demo_credential\<lparr>c_ID := 1\<rparr>))) \<notin> set demo_vault_cmds"
    by (simp add: demo_vault_cmds_def demo_credential_def)
  have "Reveal demo_aead ''pw'' 1 1 ?s2 = (Inr (''admin'', ''s3cret''), ?s2) \<and>
     (\<forall>t. t \<noteq> 1 \<longrightarrow> Reveal demo_aead ''pw'' t 1 ?s2 = (Inl CredNotFound, ?s2))"
    using secret_comes_back [OF g _ _ _ s1 [unfolded demo_create_def] n refl f]
    by (simp add: fills_def saltLen_def nonceLen_def empty_vault_def demo_credential_def)
  then show ?thesis by auto
qed

end
