(* ===== verification/Backup.thy ===== *)
theory Backup
  imports ConfigStore Vault
begin

text \<open>
  Device backups (\<open>internal/backup/service.go\<close>): taking one, sweeping all devices, reading back
  versions, and the probes and configuration pushes that go through the same sessions. Drivers,
  sessions and git are parameters; a hook that runs after a commit is a function on the database.
  The database extends the one of the vault, as all tables share one connection.
\<close>

section \<open>State\<close>

record backup_row =
  br_id :: int
  br_device :: int
  br_started :: stamp
  br_finished :: "stamp option"
  br_status :: string
  br_error :: "string option"
  br_sha :: "string option"

record version_row =
  vr_id :: int
  vr_device :: int
  vr_artifact :: string
  vr_sha :: string
  vr_size :: int
  vr_created :: stamp

record backup_db = cred_db +
  backup_runs :: "backup_row sql_table"
  config_versions :: "version_row sql_table"

record Run =
  run_ID :: int
  run_DeviceID :: int
  run_StartedAt :: time
  run_FinishedAt :: "time option"
  run_Status :: string
  run_Error :: string
  run_CommitSHA :: string

datatype factory_kind = NewSession | MikrotikSession | TelnetSession | NetconfSession | RestconfSession | GNMISession

datatype bk_err =
  BkCtx string | BkDevice dev_err | BkDriver string | BkNoCredential | BkReveal cred_err | BkDB string
| BkSession string | BkFetch string | BkNoArtefacts | BkCommit string | BkStore string
| BkNoVersions | BkVersionNotFound | BkInput | BkRun string

text \<open>The collaborators: the driver registry (an error or none), the session factories (each an error or a
  session for device, user and password; \<open>NewSession\<close> is called without a test whether it is set and so must
  be, the others may be missing), what a session fetches or answers during a call, whether an audit service
  is set, and the hooks. What a device answers may change from one call to the next: each call is given the
  service with the answers of its own sessions.\<close>

record 'w backup_service =
  bs_git :: "'w git"
  bs_root :: string
  bs_aead :: aead
  bs_master :: string
  bs_driver :: "string \<Rightarrow> string option"
  bs_new_session :: "Device \<Rightarrow> string \<Rightarrow> string \<Rightarrow> string option"
  bs_factory :: "factory_kind \<Rightarrow> (Device \<Rightarrow> string \<Rightarrow> string \<Rightarrow> string option) option"
  bs_fetch :: "Device \<Rightarrow> string + Artifact list"
  bs_session_run :: "Device \<Rightarrow> string \<Rightarrow> string + string"
  bs_audit :: bool
  bs_hooks :: "(int \<Rightarrow> Device \<Rightarrow> string \<Rightarrow> Artifact list \<Rightarrow> backup_db \<Rightarrow> backup_db) list"

definition nullIfEmpty :: "string \<Rightarrow> string option" where
  "nullIfEmpty s = (if s = [] then None else Some s)"

section \<open>Sessions\<close>

definition session_kind :: "string \<Rightarrow> factory_kind \<times> string" where
  "session_kind name =
     (if name = ''mikrotik_routeros'' then (MikrotikSession, ''mikrotik_exec'')
      else if str_contains name ''telnet'' then (TelnetSession, ''telnet'')
      else if name = ''cisco_netconf'' \<or> name = ''junos_netconf'' then (NetconfSession, ''netconf'')
      else if name = ''restconf'' then (RestconfSession, ''restconf'')
      else if name = ''gnmi'' then (GNMISession, ''gnmi'')
      else (NewSession, ''ssh''))"

text \<open>A driver whose factory is not set gets one that fails.\<close>

definition missingSessionFactory :: "string \<Rightarrow> string \<Rightarrow> string" where
  "missingSessionFactory transport driver =
     ''backup: '' @ transport @ '' session factory is not configured for driver '' @ [CHR 0x22] @ driver @ [CHR 0x22]"

definition open_session :: "'w backup_service \<Rightarrow> Device \<Rightarrow> string \<Rightarrow> string \<Rightarrow> string option" where
  "open_session S d user pass = (case session_kind (d_Driver d) of (k, transport) \<Rightarrow>
     if k = NewSession then bs_new_session S d user pass
     else (case bs_factory S k of
        None \<Rightarrow> Some (missingSessionFactory transport (d_Driver d))
      | Some f \<Rightarrow> f d user pass))"

section \<open>Backup\<close>

definition audit_detail :: "string \<Rightarrow> string \<Rightarrow> string \<Rightarrow> string \<Rightarrow> string" where
  "audit_detail status actor sha err =
     ''status='' @ status @ '' actor='' @ actor @ '' sha='' @ sha @ '' err='' @ err"

text \<open>\<open>finalize\<close>: the run's row and the audit entry, which is written without the service when none
  is set.\<close>

definition finalize ::
  "bool \<Rightarrow> int \<Rightarrow> string \<Rightarrow> time \<Rightarrow> Run \<Rightarrow> string \<Rightarrow> string \<Rightarrow> string \<Rightarrow> backup_db \<Rightarrow> Run \<times> backup_db" where
  "finalize audited tenantID actor now run status err sha db =
     (let db = exec_quiet db (\<lambda>db. db\<lparr>backup_runs := update_rows (\<lambda>r. br_id r = run_ID run)
            (\<lambda>r. r\<lparr>br_finished := Some (rfc3339 now), br_status := status, br_error := nullIfEmpty err,
                 br_sha := nullIfEmpty sha\<rparr>) (backup_runs db)\<rparr>);
          tgt = ''device:'' @ itoa (run_DeviceID run);
          detail = audit_detail status actor sha err;
          db = (if audited then RecordEntry now tenantID 0 ''backup'' ''device.backup'' tgt detail db
                else exec_quiet db (\<lambda>db. db\<lparr>audit_log := insert_row (\<lambda>n. \<lparr>au_id = n, au_tenant = Some tenantID,
                       au_actor = None, au_action = ''device.backup'', au_target = tgt, au_detail = detail,
                       au_source = Some ''backup'', au_request = None, au_created = rfc3339 now\<rparr>) (audit_log db),
                     last_rowid := next_rowid (audit_log db)\<rparr>))
      in (run\<lparr>run_FinishedAt := Some now, run_Status := status, run_Error := err, run_CommitSHA := sha\<rparr>, db))"

text \<open>One row of \<open>config_versions\<close> per artefact; a failed insert is logged only.\<close>

fun insert_versions :: "int \<Rightarrow> string \<Rightarrow> time \<Rightarrow> Artifact list \<Rightarrow> backup_db \<Rightarrow> backup_db" where
  "insert_versions dev sha now [] db = db"
| "insert_versions dev sha now (a # as) db = insert_versions dev sha now as (exec_quiet db (\<lambda>db.
     db\<lparr>config_versions := insert_row (\<lambda>n. \<lparr>vr_id = n, vr_device = dev, vr_artifact = a_Name a, vr_sha = sha,
          vr_size = int (length (a_Content a)), vr_created = rfc3339 now\<rparr>) (config_versions db),
        last_rowid := next_rowid (config_versions db)\<rparr>))"

text \<open>The part of \<open>BackupNow\<close> from the session on; \<open>tick\<close> is the clock of its later readings.\<close>

definition backup_device ::
  "'w backup_service \<Rightarrow> int \<Rightarrow> string \<Rightarrow> (nat \<Rightarrow> time) \<Rightarrow> Device \<Rightarrow> string \<Rightarrow> string \<Rightarrow> Run
    \<Rightarrow> backup_db \<times> 'w \<Rightarrow> (Run option \<times> bk_err option) \<times> backup_db \<times> 'w" where
  "backup_device S tenantID actor tick dev user secret run = (\<lambda>(db, w).
     let fail = (\<lambda>msg e db w. case finalize (bs_audit S) tenantID actor (tick 3) run ''failed'' msg [] db of
                   (run, db) \<Rightarrow> ((Some run, Some e), db, w))
     in case open_session S dev user secret of
          Some e \<Rightarrow> fail (''session: '' @ e) (BkSession e) db w
        | None \<Rightarrow> (case bs_fetch S dev of
            Inl e \<Rightarrow> fail (''fetch: '' @ e) (BkFetch e) db w
          | Inr as \<Rightarrow>
              if as = [] then fail ''fetch returned no artefacts'' BkNoArtefacts db w
              else (case Commit_store (bs_git S) (bs_root S) tenantID (d_ID dev) (d_Hostname dev) actor as (tick 1) w of
                  (Inl (StoreErr e), w) \<Rightarrow> fail (''commit: '' @ e) (BkCommit e) db w
                | (Inl ErrNoChange, w) \<Rightarrow>
                    (case finalize (bs_audit S) tenantID actor (tick 3) run ''success'' [] [] db of
                       (run, db) \<Rightarrow> ((Some run, None), db, w))
                | (Inr cr, w) \<Rightarrow>
                    (let db = insert_versions (d_ID dev) (cm_SHA cr) (tick 2) as db;
                         db = fold (\<lambda>h. h tenantID dev (cm_SHA cr) as) (bs_hooks S) db
                     in case finalize (bs_audit S) tenantID actor (tick 3) run ''success'' [] (cm_SHA cr) db of
                          (run, db) \<Rightarrow> ((Some run, None), db, w)))))"

text \<open>\<open>gate\<close> is the context's error if it ends the wait for a worker.\<close>

definition BackupNow ::
  "'w backup_service \<Rightarrow> string option \<Rightarrow> int \<Rightarrow> int \<Rightarrow> string \<Rightarrow> (nat \<Rightarrow> time) \<Rightarrow> backup_db \<times> 'w
    \<Rightarrow> (Run option \<times> bk_err option) \<times> backup_db \<times> 'w" where
  "BackupNow S gate tenantID deviceID actor tick = (\<lambda>(db, w). case gate of
     Some e \<Rightarrow> ((None, Some (BkCtx e)), db, w)
   | None \<Rightarrow> (case GetDevice tenantID deviceID db of
       (Inl e, db) \<Rightarrow> ((None, Some (BkDevice e)), db, w)
     | (Inr dev, db) \<Rightarrow> (case bs_driver S (d_Driver dev) of
         Some e \<Rightarrow> ((None, Some (BkDriver e)), db, w)
       | None \<Rightarrow> (case d_CredentialID dev of
           None \<Rightarrow> ((None, Some BkNoCredential), db, w)
         | Some c \<Rightarrow> (case Reveal (bs_aead S) (bs_master S) tenantID c db of
             (Inl e, db) \<Rightarrow> ((None, Some (BkReveal e)), db, w)
           | (Inr (user, secret), db) \<Rightarrow> (case stmt db of
               (Some e, db) \<Rightarrow> ((None, Some (BkDB e)), db, w)
             | (None, db) \<Rightarrow>
                 (let n = next_rowid (backup_runs db);
                      db = db\<lparr>backup_runs := insert_row (\<lambda>n. \<lparr>br_id = n, br_device = d_ID dev,
                             br_started = rfc3339 (tick 0), br_finished = None, br_status = ''running'',
                             br_error = None, br_sha = None\<rparr>) (backup_runs db), last_rowid := n\<rparr>;
                      run = \<lparr>run_ID = n, run_DeviceID = d_ID dev, run_StartedAt = tick 0, run_FinishedAt = None,
                             run_Status = ''running'', run_Error = [], run_CommitSHA = []\<rparr>
                  in backup_device S tenantID actor tick dev user secret run (db, w))))))))"

text \<open>\<open>BackupAll\<close>: every device of every tenant, in the order of the query; \<open>tick k\<close> is the clock of
  the k-th backup. Its errors are logged.\<close>

fun backup_each ::
  "'w backup_service \<Rightarrow> (nat \<Rightarrow> nat \<Rightarrow> time) \<Rightarrow> nat \<Rightarrow> (int \<times> int) list \<Rightarrow> backup_db \<times> 'w \<Rightarrow> backup_db \<times> 'w" where
  "backup_each S tick k [] s = s"
| "backup_each S tick k ((i, t) # es) s =
     backup_each S tick (Suc k) es (snd (BackupNow S None t i ''scheduler'' (tick k) s))"

definition BackupAll ::
  "'w backup_service \<Rightarrow> (nat \<Rightarrow> nat \<Rightarrow> time) \<Rightarrow> backup_db \<times> 'w \<Rightarrow> (string + unit) \<times> backup_db \<times> 'w" where
  "BackupAll S tick = (\<lambda>(db, w). case stmt db of
     (Some e, db) \<Rightarrow> (Inl e, db, w)
   | (None, db) \<Rightarrow> (Inr (), backup_each S tick 0 (map (\<lambda>r. (dv_id r, dv_tenant r)) (rows (devices db))) (db, w)))"

section \<open>Reading back\<close>

definition run_of :: "backup_row \<Rightarrow> Run" where
  "run_of r = \<lparr>run_ID = br_id r, run_DeviceID = br_device r, run_StartedAt = of_stamp (br_started r),
     run_FinishedAt = map_option of_stamp (br_finished r), run_Status = br_status r,
     run_Error = (case br_error r of None \<Rightarrow> [] | Some x \<Rightarrow> x), run_CommitSHA = (case br_sha r of None \<Rightarrow> [] | Some x \<Rightarrow> x)\<rparr>"

definition ListRuns :: "int \<Rightarrow> int \<Rightarrow> backup_db \<Rightarrow> (bk_err + Run list) \<times> backup_db" where
  "ListRuns deviceID limit db =
     (let limit = (if limit \<le> 0 \<or> limit > 200 then 50 else limit)
      in exec BkDB db (\<lambda>db. (Inr (map run_of (take (nat limit)
           (order_desc br_started (filter (\<lambda>r. br_device r = deviceID) (rows (backup_runs db)))))), db)))"

definition LatestVersion ::
  "'w backup_service \<Rightarrow> int \<Rightarrow> int \<Rightarrow> string \<Rightarrow> backup_db \<times> 'w \<Rightarrow> (bk_err + string \<times> string) \<times> backup_db" where
  "LatestVersion S tenantID deviceID art = (\<lambda>(db, w).
     let art = (if art = [] then ''running-config'' else art)
     in exec BkDB db (\<lambda>db.
          case order_desc vr_created (filter (\<lambda>r. vr_device r = deviceID \<and> vr_artifact r = art)
                 (rows (config_versions db))) of
            [] \<Rightarrow> (Inl BkNoVersions, db)
          | r # _ \<Rightarrow> (case Read_store (bs_git S) (bs_root S) tenantID deviceID art (vr_sha r) w of
              Inl e \<Rightarrow> (Inl (BkStore e), db) | Inr body \<Rightarrow> (Inr (body, vr_sha r), db))))"

definition version_at :: "int \<Rightarrow> string \<Rightarrow> string \<Rightarrow> version_row \<Rightarrow> bool" where
  "version_at dev art sha r \<longleftrightarrow> vr_device r = dev \<and> vr_artifact r = art \<and> vr_sha r = sha"

definition ReadVersion ::
  "'w backup_service \<Rightarrow> int \<Rightarrow> int \<Rightarrow> string \<Rightarrow> string \<Rightarrow> backup_db \<times> 'w \<Rightarrow> (bk_err + string) \<times> backup_db" where
  "ReadVersion S tenantID deviceID art sha = (\<lambda>(db, w).
     if art = [] \<or> sha = [] then (Inl BkInput, db)
     else exec BkDB db (\<lambda>db.
       if affected (version_at deviceID art sha) (config_versions db) = 0 then (Inl BkVersionNotFound, db)
       else (map_sum BkStore id (Read_store (bs_git S) (bs_root S) tenantID deviceID art sha w), db)))"

section \<open>Probes and pushes\<close>

text \<open>The session of a device that has a credential, and a command run in it; \<open>RunProbe\<close> wraps its
  session errors with its own text.\<close>

definition in_session ::
  "'w backup_service \<Rightarrow> Device \<Rightarrow> string \<Rightarrow> backup_db \<Rightarrow> (bk_err + string) \<times> backup_db" where
  "in_session S dev cmd db = (case d_CredentialID dev of
     None \<Rightarrow> (Inl BkNoCredential, db)
   | Some c \<Rightarrow> (case Reveal (bs_aead S) (bs_master S) (d_TenantID dev) c db of
       (Inl e, db) \<Rightarrow> (Inl (BkReveal e), db)
     | (Inr (user, secret), db) \<Rightarrow> (case open_session S dev user secret of
         Some e \<Rightarrow> (Inl (BkSession e), db)
       | None \<Rightarrow> (map_sum BkRun id (bs_session_run S dev cmd), db))))"

definition RunProbe ::
  "'w backup_service \<Rightarrow> Device \<Rightarrow> string \<Rightarrow> backup_db \<Rightarrow> (bk_err + string) \<times> backup_db" where
  "RunProbe S dev cmd db = in_session S dev cmd db"

definition applyCommandForDriver :: "string \<Rightarrow> string \<Rightarrow> string" where
  "applyCommandForDriver driver rendered =
     (if driver = ''cisco_netconf'' \<or> driver = ''junos_netconf'' \<or> driver = ''restconf'' \<or> driver = ''gnmi''
      then ''edit-config:running:'' @ base64 rendered else rendered)"

definition ApplyRenderedConfig ::
  "'w backup_service \<Rightarrow> Device \<Rightarrow> string \<Rightarrow> backup_db \<Rightarrow> (bk_err + string) \<times> backup_db" where
  "ApplyRenderedConfig S dev rendered db = in_session S dev (applyCommandForDriver (d_Driver dev) rendered) db"

section \<open>What was backed up can be read back\<close>

text \<open>The hooks of the server write other tables only.\<close>

definition hooks_keep_versions :: "'w backup_service \<Rightarrow> bool" where
  "hooks_keep_versions S \<longleftrightarrow> (\<forall>h \<in> set (bs_hooks S). \<forall>t d sha as db. config_versions (h t d sha as db) = config_versions db)"

lemma finalize_versions [simp]:
  "config_versions (snd (finalize audited t actor now run st err sha db)) = config_versions db"
  "finalize audited t actor now run st err sha db = (r, db') \<Longrightarrow> config_versions db' = config_versions db"
  "finalize audited t actor now run st err sha db = (r, db') \<Longrightarrow>
     r = run\<lparr>run_FinishedAt := Some now, run_Status := st, run_Error := err, run_CommitSHA := sha\<rparr>"
  by (auto simp: finalize_def Let_def RecordEntry_def RecordWithRequest_def exec_quiet_def stmt_def
      split: list.splits option.splits)

lemma insert_versions_grow:
  "set (rows (config_versions db)) \<subseteq> set (rows (config_versions (insert_versions dev sha now as db)))"
proof (induction dev sha now as db rule: insert_versions.induct)
  case (2 dev sha now a as db)
  let ?f = "\<lambda>db. db\<lparr>config_versions := insert_row (\<lambda>n. \<lparr>vr_id = n, vr_device = dev, vr_artifact = a_Name a,
    vr_sha = sha, vr_size = int (length (a_Content a)), vr_created = rfc3339 now\<rparr>) (config_versions db),
    last_rowid := next_rowid (config_versions db)\<rparr> :: backup_db"
  have "set (rows (config_versions db)) \<subseteq> set (rows (config_versions (exec_quiet db ?f)))"
    by (rule exec_quiet_post) auto
  with 2 show ?case by auto
qed simp

lemma insert_versions_all:
  "faults db = [] \<Longrightarrow> faults (insert_versions dev sha now as db) = [] \<and>
     (\<forall>a \<in> set as. \<exists>r \<in> set (rows (config_versions (insert_versions dev sha now as db))). version_at dev (a_Name a) sha r)"
proof (induction dev sha now as db rule: insert_versions.induct)
  case (2 dev sha now a as db)
  let ?r = "\<lambda>n. \<lparr>vr_id = n, vr_device = dev, vr_artifact = a_Name a, vr_sha = sha,
    vr_size = int (length (a_Content a)), vr_created = rfc3339 now\<rparr>"
  let ?db = "db\<lparr>config_versions := insert_row ?r (config_versions db), last_rowid := next_rowid (config_versions db)\<rparr>"
  have step: "insert_versions dev sha now (a # as) db = insert_versions dev sha now as ?db"
    using "2.prems" by simp
  have "?r (next_rowid (config_versions db)) \<in> set (rows (config_versions (insert_versions dev sha now as ?db)))"
    using insert_versions_grow [of ?db dev sha now as] by auto
  moreover have "version_at dev (a_Name a) sha (?r (next_rowid (config_versions db)))"
    by (simp add: version_at_def)
  ultimately show ?case using 2 unfolding step by auto
qed simp

lemma hooks_versions:
  assumes "hooks_keep_versions S"
  shows "config_versions (fold (\<lambda>h. h t d sha as) (bs_hooks S) db) = config_versions db"
proof -
  have "\<forall>h \<in> set hs. \<forall>db. config_versions (h t d sha as db) = config_versions db \<Longrightarrow>
      config_versions (fold (\<lambda>h. h t d sha as) hs db) = config_versions db" for hs
    by (induction hs arbitrary: db) auto
  with assms show ?thesis by (simp add: hooks_keep_versions_def)
qed

text \<open>A later state holds the versions of an earlier one, in the table and in git.\<close>

definition grows :: "'w backup_service \<Rightarrow> backup_db \<times> 'w \<Rightarrow> backup_db \<times> 'w \<Rightarrow> bool" where
  "grows S s s' \<longleftrightarrow> set (rows (config_versions (fst s))) \<subseteq> set (rows (config_versions (fst s'))) \<and>
     keeps_history (bs_git S) (snd s) (snd s')"

lemma grows_refl: "grows S s s"
  by (simp add: grows_def)

lemma grows_trans: "grows S a b \<Longrightarrow> grows S b c \<Longrightarrow> grows S a c"
  by (auto simp: grows_def intro: keeps_history_trans)

lemma backup_device_grows:
  assumes g: "git_correct (bs_git S) staged" and h: "hooks_keep_versions S"
  shows "grows S (db, w) (snd (backup_device S t actor tick dev user secret run (db, w)))"
proof -
  have fin: "grows S (db, w) (db', w')" if "finalize au tt ac now rr st er sh x = (r', db')"
    "set (rows (config_versions db)) \<subseteq> set (rows (config_versions x))" "keeps_history (bs_git S) w w'"
    for au tt ac now rr st er sh x r' db' w'
    using that by (simp add: grows_def)
  show ?thesis
  proof (cases "open_session S dev user secret")
    case (Some e)
    then show ?thesis by (auto simp: backup_device_def Let_def split: prod.splits intro: fin)
  next
    case None
    note o = this
    show ?thesis
    proof (cases "bs_fetch S dev")
      case (Inl e)
      with o show ?thesis by (auto simp: backup_device_def Let_def split: prod.splits intro: fin)
    next
      case (Inr as)
      obtain c w' where c: "Commit_store (bs_git S) (bs_root S) t (d_ID dev) (d_Hostname dev) actor as (tick 1) w = (c, w')"
        by force
      note k = commit_keeps [OF g c]
      have i: "set (rows (config_versions db)) \<subseteq> set (rows (config_versions
          (fold (\<lambda>h. h t dev sha as) (bs_hooks S) (insert_versions (d_ID dev) sha (tick 2) as db))))" for sha
        unfolding hooks_versions [OF h] by (rule insert_versions_grow)
      show ?thesis
      proof (cases c)
        case (Inl e)
        with o Inr c k show ?thesis
          by (cases e) (auto simp: backup_device_def Let_def split: prod.splits intro: fin)
      next
        case cr: (Inr cr)
        with o Inr c k i [of "cm_SHA cr"] show ?thesis
          by (auto simp: backup_device_def Let_def split: prod.splits intro: fin)
      qed
    qed
  qed
qed

lemma GetDevice_frame: "GetDevice t i db = (r, db') \<Longrightarrow>
    (\<exists>fs. db' = db\<lparr>faults := fs\<rparr> \<and> (faults db = [] \<longrightarrow> fs = [])) \<and> (\<forall>d. r = Inr d \<longrightarrow> d_ID d = i)"
proof -
  have "post (\<lambda>r db'. (\<exists>fs. db' = db\<lparr>faults := fs\<rparr> \<and> (faults db = [] \<longrightarrow> fs = [])) \<and> (\<forall>d. r = Inr d \<longrightarrow> d_ID d = i))
      (GetDevice t i db)"
    unfolding GetDevice_def
    by (rule post_exec) (auto simp: device_of_def split: option.splits dest: query_row_SomeD)
  then show "GetDevice t i db = (r, db') \<Longrightarrow> ?thesis" by (rule postD)
qed

lemma Reveal_frame: "Reveal A m t i db = (r, db') \<Longrightarrow>
    \<exists>fs. db' = db\<lparr>faults := fs\<rparr> \<and> (faults db = [] \<longrightarrow> fs = [])"
proof -
  have "post (\<lambda>r db'. \<exists>fs. db' = db\<lparr>faults := fs\<rparr> \<and> (faults db = [] \<longrightarrow> fs = [])) (Reveal A m t i db)"
    unfolding Reveal_def by (rule post_exec) (auto split: option.splits sum.splits)
  then show "Reveal A m t i db = (r, db') \<Longrightarrow> ?thesis" by (rule postD)
qed

text \<open>How a \<open>BackupNow\<close> went: it stopped before the run was inserted, or it is the backup of the
  device found.\<close>

lemma BackupNow_cases:
  assumes "BackupNow S gate t i actor tick (db, w) = (r, s')"
  obtains fs e where "r = (None, Some e)" "s' = (db\<lparr>faults := fs\<rparr>, w)"
  | dev user secret run db1 where "d_ID dev = i" "config_versions db1 = config_versions db"
      "faults db = [] \<longrightarrow> faults db1 = []"
      "backup_device S t actor tick dev user secret run (db1, w) = (r, s')"
proof (cases gate)
  case (Some e)
  with assms that(1) [of "BkCtx e" "faults db"] show thesis by (simp add: BackupNow_def)
next
  case None
  note def = BackupNow_def Let_def
  obtain q db1 where q: "GetDevice t i db = (q, db1)" by force
  from GetDevice_frame [OF q] obtain fs where
    fs: "db1 = db\<lparr>faults := fs\<rparr>" "faults db = [] \<longrightarrow> fs = []" "\<And>d. q = Inr d \<Longrightarrow> d_ID d = i" by blast
  consider (stop) e where "r = (None, Some e)" "s' = (db1, w)"
    | (go) dev c where "q = Inr dev" "bs_driver S (d_Driver dev) = None" "d_CredentialID dev = Some c"
    using None q assms by (cases q) (auto simp: def split: option.splits)
  then show thesis
  proof cases
    case stop
    with fs that(1) show thesis by auto
  next
    case go
    obtain u db2 where u: "Reveal (bs_aead S) (bs_master S) t c db1 = (u, db2)" by force
    from Reveal_frame [OF u] fs obtain gs where gs: "db2 = db\<lparr>faults := gs\<rparr>" "faults db = [] \<longrightarrow> gs = []" by auto
    show thesis
    proof (cases u)
      case (Inl e)
      with None q go u assms gs(1) that(1) show thesis by (auto simp: def)
    next
      case (Inr us)
      obtain user secret where us: "us = (user, secret)" by force
      obtain x db3 where x: "stmt db2 = (x, db3)" by force
      from stmt_truncate [OF x] gs obtain hs where hs: "db3 = db\<lparr>faults := hs\<rparr>" "faults db = [] \<longrightarrow> hs = []" by auto
      show thesis
      proof (cases x)
        case (Some e)
        with None q go u Inr us x hs(1) assms that(1) show thesis by (auto simp: def)
      next
        case x0: None
        let ?row = "\<lambda>n. \<lparr>br_id = n, br_device = d_ID dev, br_started = rfc3339 (tick 0), br_finished = None,
          br_status = ''running'', br_error = None, br_sha = None\<rparr>"
        let ?db = "db3\<lparr>backup_runs := insert_row ?row (backup_runs db3), last_rowid := next_rowid (backup_runs db3)\<rparr>"
        from None q go u Inr us x x0 assms obtain run where
          "backup_device S t actor tick dev user secret run (?db, w) = (r, s')" by (auto simp: def)
        with that(2) [OF fs(3) [OF go(1)], of ?db] hs show thesis by simp
      qed
    qed
  qed
qed

lemma BackupNow_grows:
  assumes "git_correct (bs_git S) staged" and "hooks_keep_versions S"
  shows "grows S s (snd (BackupNow S gate t i actor tick s))"
proof -
  obtain db w where s: "s = (db, w)" by force
  obtain r s' where r: "BackupNow S gate t i actor tick (db, w) = (r, s')"
    by (rule prod.exhaust)
  from r have "grows S (db, w) s'"
  proof (cases rule: BackupNow_cases)
    case (2 dev user secret run db1)
    from backup_device_grows [OF assms, of db1 w t actor tick dev user secret run] 2
    show ?thesis by (simp add: grows_def)
  qed (simp add: grows_def)
  with r s show ?thesis by simp
qed

text \<open>Later backups, of any device of any tenant, each with the service as it is then: the same store, and
  whatever sessions, devices' answers and hooks.\<close>

type_synonym 'w backup_call = "'w backup_service \<times> string option \<times> int \<times> int \<times> string \<times> (nat \<Rightarrow> time)"

fun backup_run :: "'w backup_call list \<Rightarrow> backup_db \<times> 'w \<Rightarrow> backup_db \<times> 'w" where
  "backup_run [] s = s"
| "backup_run ((S, gate, t, i, actor, tick) # cs) s = backup_run cs (snd (BackupNow S gate t i actor tick s))"

definition same_store :: "'w backup_service \<Rightarrow> 'w backup_call list \<Rightarrow> bool" where
  "same_store S cs \<longleftrightarrow> (\<forall>c \<in> set cs. bs_git (fst c) = bs_git S \<and> hooks_keep_versions (fst c))"

lemma backup_run_grows:
  assumes "git_correct (bs_git S) staged"
  shows "same_store S cs \<Longrightarrow> grows S s (backup_run cs s)"
proof (induction cs arbitrary: s)
  case (Cons c cs)
  obtain S' gate t i actor tick where c: "c = (S', gate, t, i, actor, tick)" by (cases c)
  have S': "bs_git S' = bs_git S" "hooks_keep_versions S'" "same_store S cs"
    using Cons.prems c by (auto simp: same_store_def)
  then have "grows S' s (snd (BackupNow S' gate t i actor tick s))"
    using assms by (intro BackupNow_grows) simp
  then have "grows S s (snd (BackupNow S' gate t i actor tick s))" using S'(1) by (simp add: grows_def)
  from grows_trans [OF this Cons.IH [OF S'(3)]] show ?case unfolding c backup_run.simps .
qed (simp add: grows_refl)

text \<open>A backup that names a commit stored what it fetched.\<close>

lemma backup_stores:
  assumes g: "git_correct (bs_git S) staged" and h: "hooks_keep_versions S" and "faults db = []"
    and as: "bs_fetch S dev = Inr as" "distinct (map a_Name as)" "a \<in> set as"
    and b: "backup_device S t actor tick dev user secret run (db, w) = ((Some r, None), db', w')"
    and sha: "run_CommitSHA r \<noteq> []"
  shows "(\<exists>v \<in> set (rows (config_versions db')). version_at (d_ID dev) (a_Name a) (run_CommitSHA r) v) \<and>
    Read_store (bs_git S) (bs_root S) t (d_ID dev) (a_Name a) (run_CommitSHA r) w' = Inr (a_Content a) \<and>
    resolve (bs_git S) (repo_path (bs_root S) t (d_ID dev)) (run_CommitSHA r) w' = Inr (run_CommitSHA r)"
proof -
  let ?c = "Commit_store (bs_git S) (bs_root S) t (d_ID dev) (d_Hostname dev) actor as (tick 1) w"
  have as0: "as \<noteq> []" using as(3) by auto
  obtain c w1 where c: "?c = (c, w1)" by force
  show ?thesis
  proof (cases "open_session S dev user secret")
    case (Some e)
    with b show ?thesis by (auto simp: backup_device_def Let_def split: prod.splits)
  next
    case None
    note o = this
    show ?thesis
    proof (cases c)
      case (Inl e)
      with o as(1) as0 c b sha show ?thesis
        by (cases e) (auto simp: backup_device_def Let_def dest!: finalize_versions(3) split: prod.splits)
    next
      case (Inr cr)
      let ?db1 = "insert_versions (d_ID dev) (cm_SHA cr) (tick 2) as db"
      from o as(1) as0 c b Inr obtain db2 where f: "w' = w1"
        "finalize (bs_audit S) t actor (tick 3) run ''success'' [] (cm_SHA cr)
          (fold (\<lambda>h. h t dev (cm_SHA cr) as) (bs_hooks S) ?db1) = (r, db')"
        by (auto simp: backup_device_def Let_def split: prod.splits)
      then have r: "run_CommitSHA r = cm_SHA cr" and cv: "config_versions db' = config_versions ?db1"
        using finalize_versions(2,3) [OF f(2)] by (simp_all add: hooks_versions [OF h])
      have "\<exists>v \<in> set (rows (config_versions ?db1)). version_at (d_ID dev) (a_Name a) (cm_SHA cr) v"
        using insert_versions_all [OF assms(3)] as(3) by blast
      with commit_reads_back [OF g c [unfolded Inr] as(2,3)] show ?thesis
        unfolding r cv f(1) by blast
    qed
  qed
qed

text \<open>C26: A backed-up configuration can be read back: with a working database, a git that stores what it is
  given and a hook that leaves the versions alone, when a backup of artefacts with distinct, non-empty names
  succeeded with a new commit, then after any further backups, of this device with whatever other
  configuration or of other devices, and however they ended, \<open>ReadVersion\<close> of that commit gives each artefact
  as the device sent it at that backup.\<close>
theorem backup_reads_back:
  assumes "git_correct (bs_git S) staged" and "hooks_keep_versions S" and "faults db = []"
    and "\<forall>dev. d_ID dev = i \<longrightarrow> bs_fetch S dev = Inr as"
    and "distinct (map a_Name as)" and "a \<in> set as" and "a_Name a \<noteq> []"
    and "BackupNow S gate t i actor tick (db, w) = ((Some r, None), s1)" and "run_CommitSHA r \<noteq> []"
    and "same_store S cs" and "backup_run cs s1 = (db2, w2)" and "faults db2 = []"
  shows "ReadVersion S t i (a_Name a) (run_CommitSHA r) (db2, w2) = (Inr (a_Content a), db2)"
proof -
  obtain db1 w1 where s1: "s1 = (db1, w1)" by force
  from assms(8) obtain dev user secret run db0 where
    b: "d_ID dev = i" "faults db0 = []"
      "backup_device S t actor tick dev user secret run (db0, w) = ((Some r, None), db1, w1)"
    unfolding s1 by (cases rule: BackupNow_cases) (use assms(3) in auto)
  have fetch: "bs_fetch S dev = Inr as" using assms(4) b(1) by blast
  from backup_stores [OF assms(1,2) b(2) fetch assms(5,6) b(3) assms(9)] b(1) obtain v where
    v: "v \<in> set (rows (config_versions db1))" "version_at i (a_Name a) (run_CommitSHA r) v"
      "Read_store (bs_git S) (bs_root S) t i (a_Name a) (run_CommitSHA r) w1 = Inr (a_Content a)"
      "resolve (bs_git S) (repo_path (bs_root S) t i) (run_CommitSHA r) w1 = Inr (run_CommitSHA r)" by auto
  have gr: "grows S (db1, w1) (db2, w2)"
    using backup_run_grows [OF assms(1,10), of s1] assms(11) s1 by simp
  then have "affected (version_at i (a_Name a) (run_CommitSHA r)) (config_versions db2) \<noteq> 0"
    using v(1,2) by (intro affected_pos [of v]) (auto simp: grows_def)
  moreover have "Read_store (bs_git S) (bs_root S) t i (a_Name a) (run_CommitSHA r) w2 = Inr (a_Content a)"
    using read_keeps(1) [OF _ v(3) assms(9) v(4)] gr by (simp add: grows_def)
  ultimately show ?thesis using assms(7,9,12) by (simp add: ReadVersion_def)
qed

section \<open>Witness\<close>

text \<open>A git of append-only lists of trees; a commit's hash is its number in unary.\<close>

record git_world =
  gw_files :: "string \<Rightarrow> string option"
  gw_index :: "string \<Rightarrow> string \<Rightarrow> string option"
  gw_trees :: "string \<Rightarrow> (string \<Rightarrow> string option) list"
  gw_open :: "string \<Rightarrow> bool"

definition demo_hash :: "nat \<Rightarrow> string" where "demo_hash n = replicate (Suc n) CHR ''h''"

definition demo_tree :: "string \<Rightarrow> string \<Rightarrow> git_world \<Rightarrow> (string \<Rightarrow> string option) option" where
  "demo_tree p h w = (if h \<noteq> [] \<and> length h \<le> length (gw_trees w p) then Some (gw_trees w p ! (length h - 1)) else None)"

definition demo_git :: "git_world git" where
  "demo_git = \<lparr>mkdir_all = (\<lambda>p w. Inr w), plain_open = (\<lambda>p w. if gw_open w p then Opened else NotExists),
     plain_init = (\<lambda>p w. Inr (w\<lparr>gw_open := (gw_open w)(p := True)\<rparr>)), set_main_branch = (\<lambda>p w. w),
     worktree_error = (\<lambda>p w. None), write_file = (\<lambda>p c w. Inr (w\<lparr>gw_files := (gw_files w)(p \<mapsto> c)\<rparr>)),
     wt_add = (\<lambda>p f w. case gw_files w (path_join [p, f]) of None \<Rightarrow> Inl ''no file''
       | Some c \<Rightarrow> Inr (w\<lparr>gw_index := (gw_index w)(p := (gw_index w p)(f \<mapsto> c))\<rparr>)),
     wt_clean = (\<lambda>p w. Inr False),
     wt_commit = (\<lambda>p m a e t w. Inr (demo_hash (length (gw_trees w p)),
       w\<lparr>gw_trees := (gw_trees w)(p := gw_trees w p @ [gw_index w p])\<rparr>)),
     head_commit = (\<lambda>p w. Inl ''none''),
     resolve = (\<lambda>p h w. if demo_tree p h w = None then Inl ''unknown revision'' else Inr h),
     tree_file = (\<lambda>p h f w. case demo_tree p h w of None \<Rightarrow> Inl ''no tree''
       | Some t \<Rightarrow> (case t f of None \<Rightarrow> Inl ''no file'' | Some c \<Rightarrow> Inr c)),
     log_from_head = (\<lambda>p w. [])\<rparr>"

lemma demo_tree_grows:
  "demo_tree p h w = Some t \<Longrightarrow>
     demo_tree p h (w\<lparr>gw_trees := (gw_trees w)(q := gw_trees w q @ [x])\<rparr>) = Some t"
  by (cases h) (auto simp: demo_tree_def nth_append split: if_splits)

lemma demo_tree_frame [simp]:
  "demo_tree p h (w\<lparr>gw_open := o'\<rparr>) = demo_tree p h w" "demo_tree p h (w\<lparr>gw_files := fl\<rparr>) = demo_tree p h w"
  "demo_tree p h (w\<lparr>gw_index := ix\<rparr>) = demo_tree p h w"
  by (simp_all add: demo_tree_def)

lemma demo_git_correct: "git_correct demo_git (\<lambda>p w. gw_index w p)"
proof -
  have commit: "keeps_history demo_git w (w\<lparr>gw_trees := (gw_trees w)(q := gw_trees w q @ [x])\<rparr>)" for w q x
    unfolding keeps_history_def demo_git_def
    by (auto simp: demo_tree_grows split: option.splits if_splits)
  have new: "demo_tree q (demo_hash (length (gw_trees w q))) (w\<lparr>gw_trees := (gw_trees w)(q := gw_trees w q @ [x])\<rparr>) = Some x"
    for w q x by (simp add: demo_tree_def demo_hash_def)
  show ?thesis
    unfolding git_correct_def
    using commit new
    by (auto simp: demo_git_def keeps_history_def demo_hash_def fun_upd_def split: option.splits if_splits)
qed

definition demo_service :: "git_world backup_service" where
  "demo_service = \<lparr>bs_git = demo_git, bs_root = ''data'', bs_aead = demo_aead, bs_master = ''pw'',
     bs_driver = (\<lambda>d. None),
     bs_new_session = (\<lambda>d u p. if (u, p) = (''admin'', ''s3cret'') then None else Some ''denied''), bs_factory = (\<lambda>k. Some (\<lambda>d u p. if (u, p) = (''admin'', ''s3cret'') then None else Some ''denied'')),
     bs_fetch = (\<lambda>d. Inr [\<lparr>a_Name = ''running-config'', a_Content = ''hostname r1''\<rparr>]),
     bs_session_run = (\<lambda>d c. Inr []), bs_audit = True, bs_hooks = []\<rparr>"

definition demo_backup_db :: backup_db where
  "demo_backup_db = \<lparr>faults = [], last_rowid = 0, audit_log = empty_table, device_groups = empty_table,
     devices = \<lparr>rows = [\<lparr>dv_id = 1, dv_tenant = 1, dv_hostname = ''r1'', dv_address = ''10.0.0.1'', dv_port = 22,
       dv_driver = ''cisco_ios'', dv_group = None, dv_credential = Some 1, dv_created = 0\<rparr>], rowseq = 1\<rparr>,
     credentials = credentials (snd demo_create), backup_runs = empty_table, config_versions = empty_table\<rparr>"

definition demo_git_world :: git_world where
  "demo_git_world = \<lparr>gw_files = (\<lambda>p. None), gw_index = (\<lambda>p f. None), gw_trees = (\<lambda>p. []), gw_open = (\<lambda>p. False)\<rparr>"

definition demo_backup :: "(Run option \<times> bk_err option) \<times> backup_db \<times> git_world" where
  "demo_backup = BackupNow demo_service None 1 1 ''ann'' (\<lambda>k. second) (demo_backup_db, demo_git_world)"

text \<open>The device has another configuration later, whose backup is a commit of its own.\<close>

definition demo_changed :: "git_world backup_service" where
  "demo_changed = demo_service\<lparr>bs_fetch := (\<lambda>d. Inr [\<lparr>a_Name = ''running-config'', a_Content = ''hostname r2''\<rparr>])\<rparr>"

definition demo_later :: "git_world backup_call list" where
  "demo_later = [(demo_changed, None, 1, 1, ''bob'', (\<lambda>k. 2 * second)),
     (demo_service, Some ''cancelled'', 1, 1, ''bob'', (\<lambda>k. 3 * second))]"

theorem backup_reads_back_witness:
  "\<exists>s2. fst s2 = fst (backup_run demo_later (snd demo_backup)) \<and>
     length (rows (config_versions (fst s2))) = 2 \<and>
     fst (ReadVersion demo_service 1 1 ''running-config'' ''h'' s2) = Inr ''hostname r1''"
proof -
  have h1: "map_option run_CommitSHA (fst (fst demo_backup)) = Some ''h''" by code_simp
  have h2: "snd (fst demo_backup) = None" by code_simp
  have h3: "case backup_run demo_later (snd demo_backup) of (db, w) \<Rightarrow>
      faults db = [] \<and> length (rows (config_versions db)) = 2" by code_simp
  from h1 h2 obtain r where r: "demo_backup = ((Some r, None), snd demo_backup)" "run_CommitSHA r = ''h''"
    by (metis (no_types, lifting) map_option_eq_Some prod.collapse)
  obtain db2 w2 where s2: "backup_run demo_later (snd demo_backup) = (db2, w2)" by (rule prod.exhaust)
  let ?a = "\<lparr>a_Name = ''running-config'', a_Content = ''hostname r1''\<rparr>"
  have S: "bs_git demo_service = demo_git" "hooks_keep_versions demo_service" "faults demo_backup_db = []"
    "\<forall>dev. d_ID dev = 1 \<longrightarrow> bs_fetch demo_service dev = Inr [?a]" "same_store demo_service demo_later"
    by (simp_all add: demo_service_def hooks_keep_versions_def demo_backup_db_def same_store_def demo_later_def
        demo_changed_def)
  have g: "git_correct (bs_git demo_service) (\<lambda>p w. gw_index w p)" using S(1) demo_git_correct by simp
  have b: "BackupNow demo_service None 1 1 ''ann'' (\<lambda>k. second) (demo_backup_db, demo_git_world) =
      ((Some r, None), snd demo_backup)" using r(1) by (simp add: demo_backup_def)
  have f: "faults db2 = []" "run_CommitSHA r \<noteq> []" using h3 s2 r(2) by simp_all
  have "ReadVersion demo_service 1 1 (a_Name ?a) (run_CommitSHA r) (db2, w2) = (Inr (a_Content ?a), db2)"
    by (rule backup_reads_back [OF g S(2-4) _ _ _ b f(2) S(5) s2 f(1)]) simp_all
  with r(2) s2 h3 show ?thesis by (intro exI [of _ "(db2, w2)"]) simp
qed

end
