(* ===== verification/Tenants.thy ===== *)
theory Tenants
  imports Devices
begin

text \<open>
  Tenants and their device quotas (\<open>internal/tenants/tenants.go\<close>). \<open>Create\<close> writes two rows in
  one transaction; its deferred \<open>Rollback\<close> does nothing after the commit and otherwise puts
  both tables back, their key counters included (\<open>sqlite_sequence\<close> is a table like the
  others), but not the connection's \<open>last_insert_rowid()\<close>. A rollback that itself fails drops the
  connection and with it the transaction. The schema makes tenant names unique and the
  quota's key a reference to a tenant.
\<close>

section \<open>Data\<close>

record Tenant =
  t_ID :: int
  t_Name :: string
  t_MaxDevices :: int
  t_CreatedAt :: time

record tenant_row =
  tn_id :: int
  tn_name :: string
  tn_created :: stamp

record quota_row =
  qt_tenant :: int
  qt_max :: int

record tenant_db = device_db +
  tenants :: "tenant_row sql_table"
  tenant_quotas :: "quota_row list"

datatype tenant_err = TenantNameRequired | TenantDB string | QuotaExceeded int int

section \<open>Operations\<close>

text \<open>\<open>defer func() { _ = tx.Rollback() }()\<close> around the body of a transaction begun in \<open>s0\<close>.\<close>

definition rolled_back ::
  "'a tenant_db_scheme \<Rightarrow> (tenant_err + 'r) \<times> 'a tenant_db_scheme \<Rightarrow> (tenant_err + 'r) \<times> 'a tenant_db_scheme" where
  "rolled_back s0 m = (case m of
     (Inl e, s) \<Rightarrow> (Inl e, s\<lparr>tenants := tenants s0, tenant_quotas := tenant_quotas s0\<rparr>)
   | (Inr x, s) \<Rightarrow> (Inr x, s))"

definition CreateTenant ::
  "time \<Rightarrow> string \<Rightarrow> int \<Rightarrow> 'a tenant_db_scheme \<Rightarrow> (tenant_err + Tenant) \<times> 'a tenant_db_scheme" where
  "CreateTenant now name maxDevices s =
     (if name = [] then (Inl TenantNameRequired, s)
      else exec TenantDB s (\<lambda>s0. rolled_back s0 (exec TenantDB s0 (\<lambda>s.
        if list_ex (\<lambda>r. tn_name r = name) (rows (tenants s))
        then (Inl (TenantDB ''UNIQUE constraint failed''), s)
        else (let n = next_rowid (tenants s);
                  s = s\<lparr>tenants := insert_row (\<lambda>n. \<lparr>tn_id = n, tn_name = name, tn_created = rfc3339 now\<rparr>) (tenants s),
                        last_rowid := n\<rparr>
              in exec TenantDB s (\<lambda>s.
                if list_ex (\<lambda>q. qt_tenant q = n) (tenant_quotas s)
                then (Inl (TenantDB ''UNIQUE constraint failed''), s)
                else exec TenantDB
                  (s\<lparr>tenant_quotas := tenant_quotas s @ [\<lparr>qt_tenant = n, qt_max = maxDevices\<rparr>], last_rowid := n\<rparr>)
                  (\<lambda>s. (Inr \<lparr>t_ID = n, t_Name = name, t_MaxDevices = maxDevices, t_CreatedAt = now\<rparr>, s))))))))"

text \<open>The quota of a tenant, as the left join with \<open>IFNULL(max_devices, 0)\<close> reads it.\<close>

definition quota_of :: "int \<Rightarrow> quota_row list \<Rightarrow> int" where
  "quota_of t qs = (case find (\<lambda>q. qt_tenant q = t) qs of None \<Rightarrow> 0 | Some q \<Rightarrow> qt_max q)"

definition tenant_of :: "quota_row list \<Rightarrow> tenant_row \<Rightarrow> Tenant" where
  "tenant_of qs r = \<lparr>t_ID = tn_id r, t_Name = tn_name r, t_MaxDevices = quota_of (tn_id r) qs,
     t_CreatedAt = of_stamp (tn_created r)\<rparr>"

definition ListTenants :: "'a tenant_db_scheme \<Rightarrow> (tenant_err + Tenant list) \<times> 'a tenant_db_scheme" where
  "ListTenants s = exec TenantDB s (\<lambda>s.
     (Inr (map (tenant_of (tenant_quotas s)) (order_asc tn_id (rows (tenants s)))), s))"

definition upsert_quota :: "int \<Rightarrow> int \<Rightarrow> quota_row list \<Rightarrow> quota_row list" where
  "upsert_quota t m qs =
     (if list_ex (\<lambda>q. qt_tenant q = t) qs
      then map (\<lambda>q. if qt_tenant q = t then q\<lparr>qt_max := m\<rparr> else q) qs
      else qs @ [\<lparr>qt_tenant = t, qt_max = m\<rparr>])"

definition SetQuota ::
  "int \<Rightarrow> int \<Rightarrow> 'a tenant_db_scheme \<Rightarrow> (tenant_err + unit) \<times> 'a tenant_db_scheme" where
  "SetQuota tenantID maxDevices s = exec TenantDB s (\<lambda>s.
     if \<not> list_ex (\<lambda>r. tn_id r = tenantID) (rows (tenants s))
     then (Inl (TenantDB ''FOREIGN KEY constraint failed''), s)
     else (Inr (), s\<lparr>tenant_quotas := upsert_quota tenantID maxDevices (tenant_quotas s),
       last_rowid := (if list_ex (\<lambda>q. qt_tenant q = tenantID) (tenant_quotas s) then last_rowid s
                      else tenantID)\<rparr>))"

definition CheckDeviceQuota ::
  "int \<Rightarrow> 'a tenant_db_scheme \<Rightarrow> (tenant_err + unit) \<times> 'a tenant_db_scheme" where
  "CheckDeviceQuota tenantID s = exec TenantDB s (\<lambda>s.
     let m = quota_of tenantID (tenant_quotas s) in
     if m = 0 then (Inr (), s)
     else exec TenantDB s (\<lambda>s.
       let have = int (affected (\<lambda>r. dv_tenant r = tenantID) (devices s)) in
       (if have \<ge> m then Inl (QuotaExceeded have m) else Inr (), s)))"

section \<open>Tenants and their quotas stay consistent\<close>

definition tenant_inv :: "'a tenant_db_scheme \<Rightarrow> bool" where
  "tenant_inv s \<longleftrightarrow> wf_table tn_id (tenants s) \<and> inj_on tn_name (set (rows (tenants s))) \<and>
     distinct (map qt_tenant (tenant_quotas s)) \<and>
     qt_tenant ` set (tenant_quotas s) \<subseteq> tn_id ` set (rows (tenants s))"

lemma tenant_inv_faults [simp]: "tenant_inv (s\<lparr>faults := fs\<rparr>) = tenant_inv s"
  "tenant_inv (s\<lparr>last_rowid := n\<rparr>) = tenant_inv s" "tenant_inv (s\<lparr>faults := fs, last_rowid := n\<rparr>) = tenant_inv s"
  by (simp_all add: tenant_inv_def)

lemma tenant_inv_more [simp]: "tenant_inv (s\<lparr>devices := d\<rparr>) = tenant_inv s"
  by (simp add: tenant_inv_def)

text \<open>What the directory holds: each tenant with its quota, in key order.\<close>

definition directory :: "'a tenant_db_scheme \<Rightarrow> Tenant list" where
  "directory s = map (tenant_of (tenant_quotas s)) (rows (tenants s))"

lemma order_tenants: "tenant_inv s \<Longrightarrow> order_asc tn_id (rows (tenants s)) = rows (tenants s)"
  using order_asc_wf [of tn_id "tenants s" "\<lambda>r. True"] by (simp add: tenant_inv_def)

lemma ListTenants_directory:
  "tenant_inv s \<Longrightarrow> faults s = [] \<Longrightarrow> ListTenants s = (Inr (directory s), s)"
  by (simp add: ListTenants_def order_tenants directory_def)

lemma quota_append:
  "quota_of t (qs @ [q]) = (if t \<in> qt_tenant ` set qs then quota_of t qs else if qt_tenant q = t then qt_max q else 0)"
  by (induction qs) (auto simp: quota_of_def)

lemma quota_none: "t \<notin> qt_tenant ` set qs \<Longrightarrow> quota_of t qs = 0"
  by (induction qs) (auto simp: quota_of_def)

lemma quota_append_other: "qt_tenant q \<noteq> t \<Longrightarrow> quota_of t (qs @ [q]) = quota_of t qs"
  by (simp add: quota_append quota_none)

lemma quota_map:
  "quota_of t (map (\<lambda>q. if qt_tenant q = u then q\<lparr>qt_max := m\<rparr> else q) qs) =
     (if t = u \<and> u \<in> qt_tenant ` set qs then m else quota_of t qs)"
  by (induction qs) (auto simp: quota_of_def)

lemma quota_upsert: "quota_of t (upsert_quota u m qs) = (if t = u then m else quota_of t qs)"
proof (cases "u \<in> qt_tenant ` set qs")
  case True
  then have "list_ex (\<lambda>q. qt_tenant q = u) qs" by (auto simp: list_ex_iff)
  with True show ?thesis by (simp add: upsert_quota_def quota_map)
next
  case False
  then have "\<not> list_ex (\<lambda>q. qt_tenant q = u) qs" by (auto simp: list_ex_iff)
  with False show ?thesis by (simp add: upsert_quota_def quota_append quota_none)
qed

lemma upsert_keys:
  "map qt_tenant (upsert_quota u m qs) = (if u \<in> qt_tenant ` set qs then map qt_tenant qs else map qt_tenant qs @ [u])"
  by (auto simp: upsert_quota_def list_ex_iff)

lemma create_directory:
  assumes "tenant_inv s" and "\<not> list_ex (\<lambda>r. tn_name r = name) (rows (tenants s))"
    and "tn_id (f (next_rowid (tenants s))) = next_rowid (tenants s)"
    and "tn_name (f (next_rowid (tenants s))) = name"
    and "s' = s\<lparr>tenants := insert_row f (tenants s), tenant_quotas := tenant_quotas s @ [\<lparr>qt_tenant = next_rowid (tenants s), qt_max = m\<rparr>]\<rparr>"
  shows "tenant_inv s'" and "directory s' = directory s @
    [tenant_of [\<lparr>qt_tenant = next_rowid (tenants s), qt_max = m\<rparr>] (f (next_rowid (tenants s)))]"
proof -
  let ?n = "next_rowid (tenants s)"
  have wf: "wf_table tn_id (tenants s)" using assms(1) by (simp add: tenant_inv_def)
  then have old: "tn_id r \<noteq> ?n" if "r \<in> set (rows (tenants s))" for r
    using that by (rule fresh_rowid)
  then have new: "?n \<notin> qt_tenant ` set (tenant_quotas s)"
    using assms(1) by (fastforce simp: tenant_inv_def)
  show "tenant_inv s'"
    using assms new by (auto simp: tenant_inv_def list_ex_iff intro!: wf_insert_row inj_on_insert [THEN iffD2])
  have "tenant_of (tenant_quotas s @ [\<lparr>qt_tenant = ?n, qt_max = m\<rparr>]) r = tenant_of (tenant_quotas s) r"
    if "r \<in> set (rows (tenants s))" for r
    using old [OF that] by (simp add: tenant_of_def quota_append_other)
  moreover have "tenant_of (tenant_quotas s @ [\<lparr>qt_tenant = ?n, qt_max = m\<rparr>]) (f ?n) =
      tenant_of [\<lparr>qt_tenant = ?n, qt_max = m\<rparr>] (f ?n)"
    using assms(3) new by (simp add: tenant_of_def quota_append) (simp add: quota_of_def)
  ultimately show "directory s' = directory s @
      [tenant_of [\<lparr>qt_tenant = ?n, qt_max = m\<rparr>] (f ?n)]"
    by (simp add: directory_def assms(5))
qed

text \<open>The abstract directory: creating appends, setting a quota changes one entry, and everything
  that reports an error changes nothing. Creation times are kept in whole seconds.\<close>

datatype tenant_cmd = TCreate time string int | TSetQuota int int | TList | TCheck int

datatype outcome = Created Tenant | QuotaSet int int | Unchanged

fun dir_apply :: "outcome \<Rightarrow> Tenant list \<Rightarrow> Tenant list" where
  "dir_apply (Created t) d = d @ [t\<lparr>t_CreatedAt := of_stamp (rfc3339 (t_CreatedAt t))\<rparr>]"
| "dir_apply (QuotaSet i m) d = map (\<lambda>t. if t_ID t = i then t\<lparr>t_MaxDevices := m\<rparr> else t) d"
| "dir_apply Unchanged d = d"

fun tenant_do :: "tenant_cmd \<Rightarrow> 'a tenant_db_scheme \<Rightarrow> outcome \<times> 'a tenant_db_scheme" where
  "tenant_do (TCreate now name m) s =
     (case CreateTenant now name m s of (Inl e, s) \<Rightarrow> (Unchanged, s) | (Inr t, s) \<Rightarrow> (Created t, s))"
| "tenant_do (TSetQuota i m) s =
     (case SetQuota i m s of (Inl e, s) \<Rightarrow> (Unchanged, s) | (Inr _, s) \<Rightarrow> (QuotaSet i m, s))"
| "tenant_do TList s = (Unchanged, snd (ListTenants s))"
| "tenant_do (TCheck i) s = (Unchanged, snd (CheckDeviceQuota i s))"

fun tenant_steps :: "tenant_cmd list \<Rightarrow> 'a tenant_db_scheme \<Rightarrow> outcome list \<times> 'a tenant_db_scheme" where
  "tenant_steps [] s = ([], s)"
| "tenant_steps (c # cs) s = (case tenant_do c s of (o1, s) \<Rightarrow>
     (case tenant_steps cs s of (os, s) \<Rightarrow> (o1 # os, s)))"

lemma directory_faults [simp]: "directory (s\<lparr>faults := fs\<rparr>) = directory s"
  "directory (s\<lparr>last_rowid := n\<rparr>) = directory s" "directory (s\<lparr>faults := fs, last_rowid := n\<rparr>) = directory s"
  by (simp_all add: directory_def)

definition ok_step :: "'a tenant_db_scheme \<Rightarrow> outcome \<Rightarrow> 'a tenant_db_scheme \<Rightarrow> bool" where
  "ok_step s out s' \<longleftrightarrow> tenant_inv s' \<and> directory s' = dir_apply out (directory s)"

lemma ok_step_same: "tenant_inv s \<Longrightarrow> ok_step s Unchanged (s\<lparr>faults := fs\<rparr>)" "tenant_inv s \<Longrightarrow> ok_step s Unchanged s"
  by (simp_all add: ok_step_def)

lemma rolled_back_ok:
  assumes "tenant_inv s" and "tenants s0 = tenants s" and "tenant_quotas s0 = tenant_quotas s"
    and "post (\<lambda>r s'. \<forall>t. r = Inr t \<longrightarrow> ok_step s (Created t) s') b"
  shows "post (\<lambda>r s'. ok_step s (case r of Inl e \<Rightarrow> Unchanged | Inr t \<Rightarrow> Created t) s') (rolled_back s0 b)"
  using assms by (cases b; cases "fst b")
    (auto simp: rolled_back_def ok_step_def tenant_inv_def directory_def)

lemma create_ok:
  assumes "tenant_inv s"
  shows "post (\<lambda>r s'. ok_step s (case r of Inl e \<Rightarrow> Unchanged | Inr t \<Rightarrow> Created t) s') (CreateTenant now name m s)"
proof (cases "name = []")
  case False
  let ?f = "\<lambda>n. \<lparr>tn_id = n, tn_name = name, tn_created = rfc3339 now\<rparr>"
  let ?n = "next_rowid (tenants s)"
  let ?t = "\<lparr>t_ID = ?n, t_Name = name, t_MaxDevices = m, t_CreatedAt = now\<rparr>"
  have ok: "ok_step s (Created ?t) s'"
    if "\<not> list_ex (\<lambda>r. tn_name r = name) (rows (tenants s))"
      and "tenants s' = insert_row ?f (tenants s)"
      and "tenant_quotas s' = tenant_quotas s @ [\<lparr>qt_tenant = ?n, qt_max = m\<rparr>]" for s'
    using that(2,3) create_directory [OF _ that(1), where f = ?f and m = m, OF assms _ _ refl]
    by (simp add: ok_step_def tenant_inv_def directory_def tenant_of_def quota_of_def)
  show ?thesis
    unfolding CreateTenant_def Let_def
    by (auto simp: False assms ok_step_same intro!: post_exec rolled_back_ok ok)
qed (simp add: CreateTenant_def ok_step_def assms)

lemma setquota_ok:
  assumes "tenant_inv s"
  shows "post (\<lambda>r s'. ok_step s (case r of Inl e \<Rightarrow> Unchanged | Inr _ \<Rightarrow> QuotaSet t m) s') (SetQuota t m s)"
proof -
  have ok: "ok_step s (QuotaSet t m) s'"
    if "list_ex (\<lambda>r. tn_id r = t) (rows (tenants s))" and "tenants s' = tenants s"
      and "tenant_quotas s' = upsert_quota t m (tenant_quotas s)" for s'
  proof -
    have "t \<in> tn_id ` set (rows (tenants s))" using that(1) by (auto simp: list_ex_iff)
    then have "tenant_inv s'"
      using assms that(2,3) upsert_keys [of t m "tenant_quotas s"]
      by (auto simp: tenant_inv_def simp flip: set_map split: if_splits)
    moreover have "directory s' = dir_apply (QuotaSet t m) (directory s)"
      using that by (simp add: directory_def tenant_of_def quota_upsert)
    ultimately show ?thesis by (simp add: ok_step_def)
  qed
  show ?thesis
    unfolding SetQuota_def
    by (auto simp: assms ok_step_same intro!: post_exec ok)
qed

lemma read_ok:
  assumes "tenant_inv s"
  shows "post (\<lambda>r. ok_step s Unchanged) (ListTenants s)" "post (\<lambda>r. ok_step s Unchanged) (CheckDeviceQuota t s)"
  unfolding ListTenants_def CheckDeviceQuota_def Let_def
  by (auto simp: assms ok_step_same intro!: post_exec)

lemma tenant_do_ok: "tenant_inv s \<Longrightarrow> post (ok_step s) (tenant_do c s)"
proof (cases c)
  case (TCreate now n m)
  assume "tenant_inv s"
  then show ?thesis using create_ok [of s now n m] TCreate by (auto simp: post_def split: sum.splits)
next
  case (TSetQuota i m)
  assume "tenant_inv s"
  then show ?thesis using setquota_ok [of s i m] TSetQuota by (auto simp: post_def split: sum.splits)
qed (simp_all add: read_ok post_snd [symmetric])

lemma tenant_steps_ok:
  "tenant_inv s \<Longrightarrow> tenant_steps cs s = (os, s') \<Longrightarrow>
     tenant_inv s' \<and> directory s' = fold dir_apply os (directory s)"
proof (induction cs arbitrary: s os)
  case (Cons c cs)
  obtain o1 s1 where 1: "tenant_do c s = (o1, s1)" by (rule prod.exhaust)
  with Cons.prems(1) tenant_do_ok [of s c] have "ok_step s o1 s1" by simp
  with 1 Cons show ?case by (auto simp: ok_step_def split: prod.splits)
qed simp

definition empty_tenants :: "string option list \<Rightarrow> tenant_db" where
  "empty_tenants fs = \<lparr>faults = fs, last_rowid = 0, audit_log = empty_table, device_groups = empty_table,
     devices = empty_table, tenants = empty_table, tenant_quotas = []\<rparr>"

lemma empty_tenants_inv [simp]: "tenant_inv (empty_tenants fs)" "directory (empty_tenants fs) = []"
  by (simp_all add: tenant_inv_def empty_tenants_def directory_def) (simp_all add: empty_table_def)

text \<open>C27: The tenant directory: whatever sequence of calls is made and whichever statements fail in
  between, the tenants that are listed are those the successful \<open>Create\<close>s returned, in order,
  each with the quota of its last successful \<open>SetQuota\<close>. A failed call leaves the listing as it was:
  no tenant is left over from a transaction that did not commit.\<close>
theorem directory_refines:
  assumes "tenant_inv s" and "tenant_steps cs s = (os, s')" and "faults s' = []"
  shows "ListTenants s' = (Inr (fold dir_apply os (directory s)), s')"
  using tenant_steps_ok [OF assms(1,2)] ListTenants_directory [of s'] assms(3) by simp

definition demo_tenant_cmds :: "tenant_cmd list" where
  "demo_tenant_cmds = [TCreate 0 ''acme'' 5, TCreate 1 ''acme'' 7, TSetQuota 1 9, TCreate 2 ''beta'' 0,
     TSetQuota 4 1, TCreate (3 * second) ''beta'' 2]"

text \<open>The insert of the quota row of the first \<open>beta\<close> fails.\<close>

definition demo_tenants :: "outcome list \<times> tenant_db" where
  "demo_tenants = tenant_steps demo_tenant_cmds (empty_tenants
     [None, None, None, None, None, None, None, None, None, Some ''locked''])"

theorem directory_refines_witness:
  "\<exists>s' :: tenant_db. ListTenants s' = (Inr
     [\<lparr>t_ID = 1, t_Name = ''acme'', t_MaxDevices = 9, t_CreatedAt = 0\<rparr>,
      \<lparr>t_ID = 2, t_Name = ''beta'', t_MaxDevices = 2, t_CreatedAt = 3 * second\<rparr>], s')"
proof -
  have f: "faults (snd demo_tenants) = []" and
    d: "fold dir_apply (fst demo_tenants) [] =
     [\<lparr>t_ID = 1, t_Name = ''acme'', t_MaxDevices = 9, t_CreatedAt = 0\<rparr>,
      \<lparr>t_ID = 2, t_Name = ''beta'', t_MaxDevices = 2, t_CreatedAt = 3 * second\<rparr>]" by code_simp+
  have "ListTenants (snd demo_tenants) = (Inr (fold dir_apply (fst demo_tenants) (directory (empty_tenants
     [None, None, None, None, None, None, None, None, None, Some ''locked'']))), snd demo_tenants)"
    by (rule directory_refines [of _ demo_tenant_cmds]) (simp_all add: f demo_tenants_def [symmetric])
  with d show ?thesis by auto
qed

section \<open>Quotas\<close>

lemma CheckDeviceQuota_ok:
  "faults s = [] \<Longrightarrow> fst (CheckDeviceQuota t s) = Inr () \<longleftrightarrow>
     (let m = quota_of t (tenant_quotas s) in m = 0 \<or> int (affected (\<lambda>r. dv_tenant r = t) (devices s)) < m)"
  by (simp add: CheckDeviceQuota_def Let_def)

text \<open>Creating a device does not look at the quota: a tenant at its limit gets another device.\<close>

definition full_tenant :: tenant_db where
  "full_tenant = snd (CreateDevice 0 (demo_device\<lparr>d_TenantID := 1\<rparr>)
     (snd (CreateTenant 0 ''acme'' 1 (empty_tenants []))))"

lemma quota_not_enforced:
  "fst (CheckDeviceQuota 1 full_tenant) = Inl (QuotaExceeded 1 1) \<and>
   (\<exists>d. fst (CreateDevice 0 (demo_device\<lparr>d_TenantID := 1, d_Hostname := ''r9''\<rparr>) full_tenant) = Inr d)"
proof -
  have "fst (CheckDeviceQuota 1 full_tenant) = Inl (QuotaExceeded 1 1)"
    "\<not> isl (fst (CreateDevice 0 (demo_device\<lparr>d_TenantID := 1, d_Hostname := ''r9''\<rparr>) full_tenant))" by code_simp+
  then show ?thesis by (metis sum.collapse(2))
qed

end
