(* ===== verification/Discovery.thy ===== *)
theory Discovery
  imports Sql Dial "HOL-Library.Word" "HOL-Library.Multiset"
begin

text \<open>
  Network discovery (\<open>internal/discovery/discovery.go\<close>): the expansion of a CIDR range, the
  concurrent sweep over its addresses, fingerprints, and the NetBox importer.

  An IP is its bytes, as \<open>net.IP\<close> is. \<open>net.ParseCIDR\<close> is modelled for IPv4; of an IPv6 text
  only whether it parses matters (a parameter), because the sweep refuses it. JSON decoding
  and the network are parameters too.
\<close>

unbundle bit_operations_syntax

section \<open>Addresses\<close>

type_synonym ip = "8 word list"

definition dec_value :: "string \<Rightarrow> nat" where
  "dec_value s = fold (\<lambda>c v. 10 * v + (of_char c - 48)) s 0"

text \<open>A field of a dotted address: digits, at most 255, no leading zero.\<close>

definition octet :: "string \<Rightarrow> 8 word option" where
  "octet s = (if s \<noteq> [] \<and> list_all is_digit s \<and> (length s > 1 \<longrightarrow> hd s \<noteq> CHR ''0'') \<and> dec_value s \<le> 255
     then Some (of_nat (dec_value s)) else None)"

definition parseIPv4 :: "string \<Rightarrow> ip option" where
  "parseIPv4 s = (let fs = map octet (split_char CHR ''.'' s) in
     if length fs = 4 \<and> None \<notin> set fs then Some (map the fs) else None)"

text \<open>\<open>net.IPNet\<close>: the masked address and the size of its mask, from which the mask is
  \<open>CIDRMask ones bits\<close>.\<close>

record ipnet =
  net_IP :: ip
  net_ones :: nat
  net_bits :: nat

fun CIDRMask :: "nat \<Rightarrow> nat \<Rightarrow> ip" where
  "CIDRMask n 0 = []"
| "CIDRMask n (Suc len) =
     (if n \<ge> 8 then 0xff # CIDRMask (n - 8) len else NOT (drop_bit n 0xff) # CIDRMask 0 len)"

definition ip_Mask :: "ip \<Rightarrow> ip \<Rightarrow> ip" where
  "ip_Mask ip m = map2 (AND) ip m"

definition Contains :: "ipnet \<Rightarrow> ip \<Rightarrow> bool" where
  "Contains n ip = (let m = CIDRMask (net_ones n) (net_bits n div 8) in
     length ip = length (net_IP n) \<and> map2 (AND) (net_IP n) m = map2 (AND) ip m)"

text \<open>\<open>net.ParseCIDR\<close>. The first of \<open>. : %\<close> in the address decides its family; the size is a
  nonempty run of digits. \<open>v6 s\<close> is the network an IPv6 text denotes, if it does.\<close>

definition ParseCIDR :: "(string \<Rightarrow> ipnet option) \<Rightarrow> string \<Rightarrow> ipnet option" where
  "ParseCIDR v6 s =
     (if CHR ''/'' \<notin> set s then None
      else (let addr = takeWhile (\<lambda>c. c \<noteq> CHR ''/'') s; m = tl (dropWhile (\<lambda>c. c \<noteq> CHR ''/'') s) in
        case find (\<lambda>c. c \<in> {CHR ''.'', CHR '':'', CHR ''%''}) addr of
          None \<Rightarrow> None
        | Some c \<Rightarrow>
            if c = CHR '':'' then v6 s
            else if c = CHR ''%'' then None
            else (case parseIPv4 addr of
                None \<Rightarrow> None
              | Some ip \<Rightarrow>
                  if m \<noteq> [] \<and> list_all is_digit m \<and> dec_value m \<le> 32
                  then Some \<lparr>net_IP = ip_Mask ip (CIDRMask (dec_value m) 4), net_ones = dec_value m, net_bits = 32\<rparr>
                  else None)))"

text \<open>The in-place increment, from the last byte on.\<close>

fun inc_bytes :: "ip \<Rightarrow> ip" where
  "inc_bytes [] = []"
| "inc_bytes (b # bs) = (if b + 1 \<noteq> 0 then (b + 1) # bs else (b + 1) # inc_bytes bs)"

definition incIP :: "ip \<Rightarrow> ip" where
  "incIP ip = rev (inc_bytes (rev ip))"

definition ip_String :: "ip \<Rightarrow> string" where
  "ip_String ip = str_join ''.'' (map (\<lambda>b. itoa (uint b)) ip)"

partial_function (option) expand_loop :: "ipnet \<Rightarrow> string list \<Rightarrow> ip \<Rightarrow> string list option" where
  [code]: "expand_loop n out ip =
     (if Contains n ip then expand_loop n (out @ [ip_String ip]) (incIP ip) else Some out)"

datatype disc_err = BadCIDR | OnlyIPv4 | PrefixTooLarge nat | DiscDB string | BadJSON string

text \<open>The outer \<open>None\<close> is a loop that does not end.\<close>

definition expandCIDR :: "(string \<Rightarrow> ipnet option) \<Rightarrow> string \<Rightarrow> (disc_err + string list) option" where
  "expandCIDR v6 cidr = (case ParseCIDR v6 cidr of
     None \<Rightarrow> Some (Inl BadCIDR)
   | Some n \<Rightarrow>
       if net_bits n \<noteq> 32 then Some (Inl OnlyIPv4)
       else if net_ones n < 16 then Some (Inl (PrefixTooLarge (net_ones n)))
       else map_option
         (\<lambda>out. Inr (if net_ones n \<le> 30 \<and> length out \<ge> 2 then butlast (tl out) else out))
         (expand_loop n [] (ip_Mask (net_IP n) (CIDRMask (net_ones n) (net_bits n div 8)))))"

section \<open>Fingerprints and the NetBox importer\<close>

definition fingerprintToDriver :: "string \<Rightarrow> string" where
  "fingerprintToDriver banner = (let b = to_lower banner in
     if str_contains b ''cisco'' then ''cisco_ios''
     else if str_contains b ''arista'' then ''arista_eos''
     else if str_contains b ''openssh'' \<or> has_prefix b ''ssh-'' then ''generic_ssh''
     else ''generic_ssh'')"

definition manufacturerToDriver :: "string \<Rightarrow> string" where
  "manufacturerToDriver slug =
     (if to_lower slug = ''cisco'' then ''cisco_ios''
      else if to_lower slug = ''arista'' then ''arista_eos'' else ''generic_ssh'')"

record NetBoxDevice =
  nb_Name :: string
  nb_Address :: string
  nb_Slug :: string

record ImportItem =
  im_Hostname :: string
  im_Address :: string
  im_Driver :: string

text \<open>\<open>decode\<close> is \<open>json.Unmarshal\<close> into the response's results.\<close>

definition ImportNetBox ::
  "(string \<Rightarrow> string + NetBoxDevice list) \<Rightarrow> string \<Rightarrow> disc_err + ImportItem list" where
  "ImportNetBox decode body = (case decode body of
     Inl e \<Rightarrow> Inl (BadJSON e)
   | Inr ds \<Rightarrow> Inr (map (\<lambda>d. \<lparr>im_Hostname = nb_Name d, im_Address = takeWhile (\<lambda>c. c \<noteq> CHR ''/'') (nb_Address d),
         im_Driver = manufacturerToDriver (nb_Slug d)\<rparr>)
       (filter (\<lambda>d. \<not> (nb_Name d = [] \<or> nb_Address d = [])) ds)))"

section \<open>The expansion is exact\<close>

text \<open>The number an address stands for, first byte highest.\<close>

fun ip_num :: "ip \<Rightarrow> nat" where
  "ip_num [] = 0"
| "ip_num (b # bs) = unat b * 2 ^ (8 * length bs) + ip_num bs"

lemma ip_num_append: "ip_num (xs @ ys) = ip_num xs * 2 ^ (8 * length ys) + ip_num ys"
  by (induction xs) (auto simp: power_add algebra_simps)

lemma ip_num_less: "ip_num bs < 2 ^ (8 * length bs)"
proof (induction bs)
  case (Cons b bs)
  have "unat b < 2 ^ 8" using unsigned_less [of b] by simp
  then have "(unat b + 1) * 2 ^ (8 * length bs) \<le> 2 ^ 8 * (2 ^ (8 * length bs) :: nat)"
    by (intro mult_right_mono) auto
  moreover have "ip_num (b # bs) < (unat b + 1) * 2 ^ (8 * length bs)"
    using Cons by (simp add: algebra_simps)
  ultimately have "ip_num (b # bs) < 2 ^ 8 * 2 ^ (8 * length bs)" by (rule less_le_trans [rotated])
  then show ?case by (simp add: power_add)
qed simp

lemma ip_num_inject: "length xs = length ys \<Longrightarrow> ip_num xs = ip_num ys \<Longrightarrow> xs = ys"
proof (induction xs ys rule: list_induct2)
  case (Cons x xs y ys)
  let ?L = "2 ^ (8 * length xs) :: nat"
  have l: "ip_num xs < ?L" "ip_num ys < ?L" using ip_num_less [of xs] ip_num_less [of ys] Cons.hyps by simp_all
  have eq: "unat x * ?L + ip_num xs = unat y * ?L + ip_num ys" using Cons by simp
  have "(unat x * ?L + ip_num xs) div ?L = unat x" "(unat y * ?L + ip_num ys) div ?L = unat y"
    "(unat x * ?L + ip_num xs) mod ?L = ip_num xs" "(unat y * ?L + ip_num ys) mod ?L = ip_num ys"
    using l by simp_all
  with eq have "unat x = unat y" "ip_num xs = ip_num ys" by metis+
  with Cons.IH show ?case by (simp add: word_unat_eq_iff)
qed simp

lemma length_inc_bytes [simp]: "length (inc_bytes bs) = length bs"
  by (induction bs) auto

lemma length_incIP [simp]: "length (incIP ip) = length ip"
  by (simp add: incIP_def)

text \<open>The increment adds one, and wraps around after the last address.\<close>

lemma byte_succ: "unat (b + 1 :: 8 word) = (if b + 1 = 0 then 0 else unat b + 1)"
  "b + 1 = (0 :: 8 word) \<Longrightarrow> unat b = 255"
proof -
  show "unat (b + 1 :: 8 word) = (if b + 1 = 0 then 0 else unat b + 1)"
    by (auto simp: unatSuc add.commute)
  assume "b + 1 = (0 :: 8 word)"
  then have "b = - 1" by (simp add: eq_neg_iff_add_eq_0)
  moreover have "(- 1 :: 8 word) = 255" by simp
  ultimately have "b = 255" by (simp only:)
  then show "unat b = 255" by simp
qed

lemma inc_bytes_num:
  "ip_num (rev (inc_bytes bs)) = (ip_num (rev bs) + 1) mod 2 ^ (8 * length bs)"
proof (induction bs)
  case (Cons b bs)
  let ?N = "ip_num (rev bs)"
  have lt: "?N < 2 ^ (8 * length bs)" using ip_num_less [of "rev bs"] by simp
  have M: "2 ^ (8 * length (b # bs)) = (2 ^ (8 * length bs) :: nat) * 256" by (simp add: power_add)
  show ?case
  proof (cases "b + 1 = 0")
    case True
    then have "ip_num (rev (b # bs)) + 1 = (?N + 1) * 256"
      by (simp add: ip_num_append byte_succ(2))
    moreover have "ip_num (rev (inc_bytes (b # bs))) = ((?N + 1) mod 2 ^ (8 * length bs)) * 256"
      using True Cons.IH by (simp add: ip_num_append)
    ultimately show ?thesis by (simp only: M mod_mult_mult2)
  next
    case False
    have "unat (b + 1) < 256" using unsigned_less [of "b + 1"] by simp
    then have u: "unat b + 1 < 256" using False by (simp add: byte_succ(1))
    have "(?N + 1) * 256 \<le> 2 ^ (8 * length bs) * 256" using lt by simp
    with u have "ip_num (rev (b # bs)) + 1 < 2 ^ (8 * length (b # bs))"
      unfolding M by (simp add: ip_num_append)
    moreover have "ip_num (rev (inc_bytes (b # bs))) = ip_num (rev (b # bs)) + 1"
      using False by (simp add: ip_num_append byte_succ(1))
    ultimately show ?thesis by simp
  qed
qed simp

lemma incIP_num: "ip_num (incIP ip) = (ip_num ip + 1) mod 2 ^ (8 * length ip)"
  using inc_bytes_num [of "rev ip"] by (simp add: incIP_def)

text \<open>An address is in a network when the two agree above the host bits.\<close>

lemma mask_bit:
  assumes "n \<le> 8"
  shows "bit (NOT (drop_bit n (0xff :: 8 word))) i \<longleftrightarrow> i < 8 \<and> 8 - n \<le> i"
proof -
  have 8: "(0xff :: 8 word) = mask 8" by (simp add: mask_eq_exp_minus_1)
  show ?thesis unfolding 8 using assms by (auto simp: bit_simps)
qed

lemma mask_byte:
  assumes "n \<le> 8"
  shows "b AND NOT (drop_bit n 0xff) = c AND NOT (drop_bit n 0xff) \<longleftrightarrow>
    unat b div 2 ^ (8 - n) = unat (c :: 8 word) div 2 ^ (8 - n)"
proof -
  have d: "unat x div 2 ^ (8 - n) = unat (drop_bit (8 - n) x)" for x :: "8 word"
    by (subst unat_drop_bit_eq) (rule drop_bit_eq_div [symmetric])
  have "b AND NOT (drop_bit n 0xff) = c AND NOT (drop_bit n 0xff) \<longleftrightarrow>
      (\<forall>i. i < 8 \<and> 8 - n \<le> i \<longrightarrow> bit b i = bit c i)"
    by (auto simp: bit_eq_iff bit_and_iff mask_bit [OF assms])
  also have "\<dots> \<longleftrightarrow> drop_bit (8 - n) b = drop_bit (8 - n) c"
  proof
    assume *: "\<forall>i. i < 8 \<and> 8 - n \<le> i \<longrightarrow> bit b i = bit c i"
    have "bit b (8 - n + j) = bit c (8 - n + j)" for j
      using * [rule_format, of "8 - n + j"] by (cases "8 - n + j < 8") (auto dest: bit_imp_le_length)
    then show "drop_bit (8 - n) b = drop_bit (8 - n) c" by (simp add: bit_eq_iff bit_drop_bit_eq)
  next
    assume *: "drop_bit (8 - n) b = drop_bit (8 - n) c"
    show "\<forall>i. i < 8 \<and> 8 - n \<le> i \<longrightarrow> bit b i = bit c i"
    proof (intro allI impI)
      fix i assume "i < 8 \<and> 8 - n \<le> i"
      then show "bit b i = bit c i" using arg_cong [OF *, of "\<lambda>w. bit w (i - (8 - n))"]
        by (simp add: bit_drop_bit_eq)
    qed
  qed
  finally show ?thesis by (simp add: d word_unat_eq_iff)
qed

lemma byte_masks: "x AND 0xff = (x :: 8 word)" "NOT (drop_bit 0 0xff) = (0 :: 8 word)"
proof -
  have ff: "(0xff :: 8 word) = - 1" by simp
  show "x AND 0xff = x" unfolding ff by (rule and.right_neutral)
  show "NOT (drop_bit 0 0xff) = (0 :: 8 word)" unfolding ff drop_bit_0 id_apply by (rule bit.compl_one)
qed

lemma CIDRMask_0: "length xs = len \<Longrightarrow> map2 (AND) xs (CIDRMask 0 len) = replicate len 0"
proof (induction len arbitrary: xs)
  case (Suc len)
  then obtain x ys where x: "xs = x # ys" "length ys = len" by (cases xs) auto
  have "CIDRMask 0 (Suc len) = 0 # CIDRMask 0 len" by (simp only: CIDRMask.simps byte_masks) simp
  with x Suc.IH show ?case by (simp del: CIDRMask.simps)
qed simp

lemma div_upper:
  fixes u x l :: nat
  assumes "x < 2 ^ l" and "k \<le> l"
  shows "(u * 2 ^ l + x) div 2 ^ k = u * 2 ^ (l - k) + x div 2 ^ k" and "x div 2 ^ k < 2 ^ (l - k)"
proof -
  have l: "2 ^ l = 2 ^ (l - k) * (2 ^ k :: nat)" using assms(2) by (simp flip: power_add)
  show "(u * 2 ^ l + x) div 2 ^ k = u * 2 ^ (l - k) + x div 2 ^ k"
    unfolding l by (simp add: mult.assoc [symmetric])
  show "x div 2 ^ k < 2 ^ (l - k)"
    using assms(1) unfolding l by (simp add: less_mult_imp_div_less)
qed

lemma same_upper:
  fixes u v x y l :: nat
  assumes "x < 2 ^ l" and "y < 2 ^ l" and "k \<le> l"
  shows "(u * 2 ^ l + x) div 2 ^ k = (v * 2 ^ l + y) div 2 ^ k \<longleftrightarrow> u = v \<and> x div 2 ^ k = y div 2 ^ k"
proof -
  let ?m = "2 ^ (l - k) :: nat"
  have "(a * ?m + b) div ?m = a" "(a * ?m + b) mod ?m = b" if "b < ?m" for a b
    using that by simp_all
  then have "u * ?m + x div 2 ^ k = v * ?m + y div 2 ^ k \<longleftrightarrow> u = v \<and> x div 2 ^ k = y div 2 ^ k"
    using div_upper(2) [OF assms(1,3)] div_upper(2) [OF assms(2,3)] by metis
  then show ?thesis by (simp only: div_upper(1) [OF assms(1,3)] div_upper(1) [OF assms(2,3)])
qed

lemma same_network:
  "length xs = length ys \<Longrightarrow> n \<le> 8 * length xs \<Longrightarrow>
     map2 (AND) xs (CIDRMask n (length xs)) = map2 (AND) ys (CIDRMask n (length xs)) \<longleftrightarrow>
     ip_num xs div 2 ^ (8 * length xs - n) = ip_num ys div 2 ^ (8 * length xs - n)"
proof (induction xs ys arbitrary: n rule: list_induct2)
  case (Cons x xs y ys)
  have b: "ip_num xs < 2 ^ (8 * length xs)" "ip_num ys < 2 ^ (8 * length xs)"
    using ip_num_less [of xs] ip_num_less [of ys] Cons.hyps by simp_all
  show ?case
  proof (cases "n \<ge> 8")
    case True
    have k: "8 * length (x # xs) - n = 8 * length xs - (n - 8)" using True by simp
    have m: "CIDRMask n (length (x # xs)) = 0xff # CIDRMask (n - 8) (length xs)" using True by simp
    have "map2 (AND) (x # xs) (CIDRMask n (length (x # xs))) = map2 (AND) (y # ys) (CIDRMask n (length (x # xs)))
      \<longleftrightarrow> x = y \<and> map2 (AND) xs (CIDRMask (n - 8) (length xs)) = map2 (AND) ys (CIDRMask (n - 8) (length xs))"
      unfolding m by (simp only: zip_Cons_Cons list.map prod.case byte_masks list.inject)
    also have "\<dots> \<longleftrightarrow> x = y \<and> ip_num xs div 2 ^ (8 * length xs - (n - 8)) = ip_num ys div 2 ^ (8 * length xs - (n - 8))"
      using Cons.IH [of "n - 8"] Cons.prems by simp
    also have "\<dots> \<longleftrightarrow> ip_num (x # xs) div 2 ^ (8 * length xs - (n - 8)) = ip_num (y # ys) div 2 ^ (8 * length xs - (n - 8))"
      using same_upper [OF b, of "8 * length xs - (n - 8)" "unat x" "unat y"] Cons.hyps by (simp add: word_unat_eq_iff)
    finally show ?thesis unfolding k .
  next
    case False
    let ?k = "8 - n"
    have k: "8 * length (x # xs) - n = 8 * length xs + ?k" using False by simp
    have d: "(u * 2 ^ (8 * length xs) + z) div 2 ^ (8 * length xs + ?k) = u div 2 ^ ?k"
      if "z < 2 ^ (8 * length xs)" for u z :: nat
      using that by (simp add: power_add div_mult2_eq)
    have "map2 (AND) (x # xs) (CIDRMask n (length (x # xs))) = (x AND NOT (drop_bit n 0xff)) # replicate (length xs) 0"
      "map2 (AND) (y # ys) (CIDRMask n (length (x # xs))) = (y AND NOT (drop_bit n 0xff)) # replicate (length xs) 0"
      using False Cons.hyps by (simp_all add: CIDRMask_0)
    moreover have "n \<le> 8" using False by simp
    ultimately show ?thesis
      using Cons.hyps d [OF b(1)] d [OF b(2)] by (simp only: k) (simp add: mask_byte)
  qed
qed simp

lemma mask_byte_dvd:
  assumes "n \<le> 8"
  shows "2 ^ (8 - n) dvd unat (b AND NOT (drop_bit n 0xff) :: 8 word)"
proof -
  have "take_bit (8 - n) (b AND NOT (drop_bit n 0xff)) = 0"
    by (auto simp: bit_eq_iff bit_take_bit_iff bit_and_iff mask_bit [OF assms])
  then have "unat (take_bit (8 - n) (b AND NOT (drop_bit n 0xff))) = 0" by simp
  then show ?thesis by (subst (asm) unsigned_take_bit_eq) (simp only: take_bit_eq_mod mod_eq_0_iff_dvd)
qed

lemma masked_dvd:
  "length xs = len \<Longrightarrow> n \<le> 8 * len \<Longrightarrow>
     2 ^ (8 * len - n) dvd ip_num (map2 (AND) xs (CIDRMask n len)) \<and>
     length (map2 (AND) xs (CIDRMask n len)) = len"
proof (induction len arbitrary: xs n)
  case (Suc len)
  then obtain x ys where x: "xs = x # ys" "length ys = len" by (cases xs) auto
  show ?case
  proof (cases "n \<ge> 8")
    case True
    have k: "8 * Suc len - n = 8 * len - (n - 8)" using True by simp
    have "CIDRMask n (Suc len) = 0xff # CIDRMask (n - 8) len" using True by simp
    then have m: "map2 (AND) xs (CIDRMask n (Suc len)) = x # map2 (AND) ys (CIDRMask (n - 8) len)"
      by (simp only: x zip_Cons_Cons list.map prod.case byte_masks)
    have d: "2 ^ (8 * len - (n - 8)) dvd ip_num (map2 (AND) ys (CIDRMask (n - 8) len))"
      "length (map2 (AND) ys (CIDRMask (n - 8) len)) = len"
      using Suc.IH [OF x(2), of "n - 8"] Suc.prems by auto
    have "(2 :: nat) ^ (8 * len - (n - 8)) dvd 2 ^ (8 * len)" by (rule le_imp_power_dvd) simp
    with d show ?thesis unfolding m k by simp
  next
    case False
    have k: "8 * Suc len - n = 8 - n + 8 * len" using False by simp
    have m: "map2 (AND) xs (CIDRMask n (Suc len)) = (x AND NOT (drop_bit n 0xff)) # replicate len 0"
      using False x by (simp add: CIDRMask_0)
    have z: "ip_num (replicate l 0) = 0" for l by (induction l) auto
    have "2 ^ (8 - n) dvd unat (x AND NOT (drop_bit n 0xff))" using False by (simp add: mask_byte_dvd)
    then show ?thesis unfolding m k by (simp add: z power_add mult_dvd_mono)
  qed
qed simp

text \<open>The bytes of a number below \<open>2 ^ 32\<close>.\<close>

definition octets :: "nat \<Rightarrow> ip" where
  "octets n = map of_nat [n div 2 ^ 24, n div 2 ^ 16, n div 2 ^ 8, n]"

lemma octets_num:
  assumes "n < 2 ^ 32"
  shows "ip_num (octets n) = n" and "length (octets n) = 4"
proof -
  have u: "unat (of_nat k :: 8 word) = k mod 256" for k by (simp add: unat_of_nat)
  have d: "n div 65536 = n div 256 div 256" "n div 16777216 = n div 256 div 256 div 256"
    by (simp_all flip: div_mult2_eq)
  have "n div 16777216 mod 256 = n div 16777216" using assms by (simp add: div_less_iff_less_mult)
  moreover have h: "n = ((n div 256 div 256 div 256 * 256 + n div 256 div 256 mod 256) * 256 + n div 256 mod 256) * 256 + n mod 256"
    by (simp only: div_mult_mod_eq)
  moreover have "((x * 256 + y) * 256 + z) * 256 + w = x * 16777216 + (y * 65536 + (z * 256 + w))" for x y z w :: nat
    by simp
  ultimately show "ip_num (octets n) = n" by (simp only: octets_def) (simp add: u d)
qed (simp add: octets_def)

lemma octets_ip_num: "length ip = 4 \<Longrightarrow> octets (ip_num ip) = ip"
  using ip_num_less [of ip] by (intro ip_num_inject) (simp_all add: octets_num)

lemma incIP_octets:
  assumes "n < 2 ^ 32"
  shows "incIP (octets n) = octets ((n + 1) mod 2 ^ 32)"
  using assms incIP_num [of "octets n"] by (intro ip_num_inject) (simp_all add: octets_num)

lemma Contains_octets:
  assumes "length (net_IP n) = 4" and "net_bits n = 32" and "net_ones n \<le> 32" and "x < 2 ^ 32"
  shows "Contains n (octets x) \<longleftrightarrow>
    ip_num (net_IP n) div 2 ^ (32 - net_ones n) = x div 2 ^ (32 - net_ones n)"
  using same_network [of "net_IP n" "octets x" "net_ones n"] assms
  by (simp add: Contains_def Let_def octets_num)

text \<open>From an address of the network the loop collects the rest of it and ends, also when the
  network is the last one.\<close>

lemma expand_loop_rest:
  assumes n: "length (net_IP n) = 4" "net_bits n = 32" "16 \<le> net_ones n" "net_ones n \<le> 32"
    and L: "L = 2 ^ (32 - net_ones n)" "lo = ip_num (net_IP n) div L * L" and "k \<le> L"
  shows "expand_loop n out (octets ((lo + L - k) mod 2 ^ 32)) =
    Some (out @ map (\<lambda>x. ip_String (octets x)) [lo + L - k ..< lo + L])"
  using assms(7)
proof (induction k arbitrary: out)
  have "2 ^ (32 - net_ones n) \<le> (2 :: nat) ^ 16" using n(3) by (intro power_increasing) auto
  then have Lb: "0 < L" "L \<le> 2 ^ 16" by (simp_all add: L(1))
  have M: "2 ^ 32 = 2 ^ net_ones n * L" using n(4) by (simp add: L(1) flip: power_add)
  have "ip_num (net_IP n) < 2 ^ 32" using ip_num_less [of "net_IP n"] n(1) by simp
  then have "ip_num (net_IP n) div L < 2 ^ net_ones n" unfolding M by (rule less_mult_imp_div_less)
  then have "(ip_num (net_IP n) div L + 1) * L \<le> 2 ^ net_ones n * L" by (intro mult_right_mono) auto
  then have lo: "lo + L \<le> 2 ^ 32" "lo div L = ip_num (net_IP n) div L" "L dvd lo"
    using Lb by (simp_all only: M) (simp_all add: L(2) algebra_simps)
  have inside: "Contains n (octets x) \<longleftrightarrow> lo div L = x div L" if "x < 2 ^ 32" for x
    using Contains_octets [OF n(1,2,4) that] by (simp add: lo(2) flip: L(1))
  {
    case 0
    have "\<not> Contains n (octets ((lo + L) mod 2 ^ 32))"
    proof (cases "lo + L = 2 ^ 32")
      case True
      then have "0 < lo" using Lb by simp
      with lo(3) Lb have "lo div L \<noteq> 0" by (auto simp: dvd_def)
      with True show ?thesis by (subst inside) simp_all
    next
      case False
      with lo(1) have "(lo + L) mod 2 ^ 32 = lo + L" by simp
      moreover have "(lo + L) div L = lo div L + 1" using Lb by (simp add: div_add_self2)
      ultimately show ?thesis using False lo(1) by (subst inside) simp_all
    qed
    then show ?case by (subst expand_loop.simps) simp
  next
    case (Suc k)
    let ?x = "lo + L - Suc k"
    have x: "?x < 2 ^ 32" "?x + 1 = lo + L - k" using Suc.prems lo(1) Lb by simp_all
    have "?x div L = lo div L"
    proof -
      have "?x = lo + (L - Suc k)" using Suc.prems by simp
      moreover have "(lo + y) div L = lo div L" if "y < L" for y
        using lo(3) that by (auto simp: dvd_def)
      ultimately show ?thesis using Lb by simp
    qed
    then have "Contains n (octets ?x)" using inside [OF x(1)] by simp
    then have "expand_loop n out (octets ?x) =
        expand_loop n (out @ [ip_String (octets ?x)]) (octets ((lo + L - k) mod 2 ^ 32))"
      by (subst expand_loop.simps) (simp add: incIP_octets [OF x(1), unfolded x(2)])
    also have "\<dots> = Some (out @ [ip_String (octets ?x)] @ map (\<lambda>x. ip_String (octets x)) [lo + L - k ..< lo + L])"
      using Suc by simp
    finally have step: "expand_loop n out (octets ?x) =
        Some (out @ [ip_String (octets ?x)] @ map (\<lambda>x. ip_String (octets x)) [lo + L - k ..< lo + L])" .
    have "[?x ..< lo + L] = ?x # [lo + L - k ..< lo + L]"
      using Suc.prems x(2) by (simp add: upt_conv_Cons)
    with step x(1) show ?case by simp
  }
qed

text \<open>What \<open>ParseCIDR\<close> gives for IPv4.\<close>

lemma ParseCIDR_v4:
  assumes "ParseCIDR v6 s = Some n" and "\<And>c. v6 s = Some c \<Longrightarrow> net_bits c = 128" and "net_bits n = 32"
  shows "\<exists>ip. net_IP n = ip_Mask ip (CIDRMask (net_ones n) 4) \<and> length ip = 4 \<and> net_ones n \<le> 32"
  using assms unfolding ParseCIDR_def Let_def
  by (fastforce simp: parseIPv4_def Let_def split: option.splits if_splits)

lemma masked_num:
  assumes "length ip = 4" and "n \<le> 32"
  shows "ip_num (ip_Mask ip (CIDRMask n 4)) = ip_num ip div 2 ^ (32 - n) * 2 ^ (32 - n)"
    and "length (ip_Mask ip (CIDRMask n 4)) = 4"
    and "ip_Mask (ip_Mask ip (CIDRMask n 4)) (CIDRMask n 4) = ip_Mask ip (CIDRMask n 4)"
proof -
  let ?m = "CIDRMask n 4"
  have d: "2 ^ (32 - n) dvd ip_num (ip_Mask ip ?m)" and l: "length (ip_Mask ip ?m) = 4"
    using masked_dvd [of ip 4 n] assms by (simp_all add: ip_Mask_def)
  have "map2 (AND) (map2 (AND) xs m) m = map2 (AND) xs (m :: 8 word list)" if "length xs = length m" for xs m
    using that by (induction xs m rule: list_induct2) (simp_all add: and.assoc)
  moreover have "length (CIDRMask k len) = len" for k len by (induction k len rule: CIDRMask.induct) simp_all
  ultimately show i: "ip_Mask (ip_Mask ip ?m) ?m = ip_Mask ip ?m" using assms(1) by (simp add: ip_Mask_def)
  have "ip_num (ip_Mask ip ?m) div 2 ^ (32 - n) = ip_num ip div 2 ^ (32 - n)"
    using same_network [of "ip_Mask ip ?m" ip n] l assms i by (simp add: ip_Mask_def)
  with d show "ip_num (ip_Mask ip ?m) = ip_num ip div 2 ^ (32 - n) * 2 ^ (32 - n)"
    by (metis dvd_div_mult_self)
  show "length (ip_Mask ip ?m) = 4" by (rule l)
qed

text \<open>The addresses of the network \<open>n\<close>, in order.\<close>

definition net_hosts :: "ipnet \<Rightarrow> string list" where
  "net_hosts n = (let lo = ip_num (net_IP n); L = 2 ^ (32 - net_ones n) in
     map (\<lambda>x. ip_String (octets x)) (if net_ones n \<le> 30 then [lo + 1 ..< lo + L - 1] else [lo ..< lo + L]))"

lemma expand_v4:
  assumes "ParseCIDR v6 cidr = Some n" and "\<And>c. v6 cidr = Some c \<Longrightarrow> net_bits c = 128"
    and "net_bits n = 32" and "16 \<le> net_ones n"
  shows "expandCIDR v6 cidr = Some (Inr (net_hosts n))"
proof -
  obtain ip where ip: "net_IP n = ip_Mask ip (CIDRMask (net_ones n) 4)" "length ip = 4" "net_ones n \<le> 32"
    using ParseCIDR_v4 [OF assms(1-3)] by blast
  let ?L = "2 ^ (32 - net_ones n) :: nat"
  let ?lo = "ip_num (net_IP n)"
  have lo: "?lo div ?L * ?L = ?lo" unfolding ip(1) masked_num(1) [OF ip(2,3)] by simp
  have len: "length (net_IP n) = 4" unfolding ip(1) by (rule masked_num(2) [OF ip(2,3)])
  have lt: "?lo < 2 ^ 32" using ip_num_less [of "net_IP n"] len by simp
  have out: "expand_loop n [] (net_IP n) = Some (map (\<lambda>x. ip_String (octets x)) [?lo ..< ?lo + ?L])"
    using expand_loop_rest [OF len assms(3,4) ip(3) refl lo [symmetric], of ?L "[]"] lt octets_ip_num [OF len] by simp
  have start: "ip_Mask (net_IP n) (CIDRMask (net_ones n) (net_bits n div 8)) = net_IP n"
    using masked_num(3) [OF ip(2,3)] ip(1) assms(3) by simp
  have trim: "butlast (tl (map f [?lo ..< ?lo + ?L])) = map f [?lo + 1 ..< ?lo + ?L - 1]" for f :: "nat \<Rightarrow> string"
  proof -
    have "butlast [a ..< b] = [a ..< b - 1]" for a b :: nat by (cases b) simp_all
    then show ?thesis by (simp add: map_tl [symmetric] map_butlast [symmetric] tl_upt)
  qed
  have "2 \<le> ?L" if "net_ones n \<le> 30" using that power_increasing [of 1 "32 - net_ones n" "2 :: nat"] by simp
  with assms out start trim show ?thesis
    by (simp add: expandCIDR_def net_hosts_def Let_def)
qed

lemma expand_total:
  assumes "\<And>c. v6 cidr = Some c \<Longrightarrow> net_bits c = 128"
  obtains (bad) e where "expandCIDR v6 cidr = Some (Inl e)"
    | (hosts) n where "ParseCIDR v6 cidr = Some n" "net_bits n = 32" "16 \<le> net_ones n" "net_ones n \<le> 32"
        "expandCIDR v6 cidr = Some (Inr (net_hosts n))"
proof (cases "ParseCIDR v6 cidr")
  case None
  then show thesis by (intro bad) (simp add: expandCIDR_def)
next
  case (Some n)
  show thesis
  proof (cases "net_bits n = 32 \<and> 16 \<le> net_ones n")
    case True
    moreover have "net_ones n \<le> 32" using ParseCIDR_v4 [OF Some assms] True by blast
    ultimately show thesis using Some expand_v4 [OF Some assms] by (intro hosts) auto
  next
    case False
    with Some have "expandCIDR v6 cidr = Some (Inl (if net_bits n \<noteq> 32 then OnlyIPv4 else PrefixTooLarge (net_ones n)))"
      by (auto simp: expandCIDR_def)
    then show thesis by (rule bad)
  qed
qed

section \<open>Printing and parsing addresses\<close>

lemma digit_value: "k < 10 \<Longrightarrow> is_digit (digit k) \<and> of_char (digit k) - 48 = k \<and> (digit k = CHR ''0'' \<longleftrightarrow> k = 0)"
proof -
  assume "k < 10"
  then have "k \<in> {0, 1, 2, 3, 4, 5, 6, 7, 8, 9}" by auto
  moreover have "(CHR ''0'' :: char) = char_of (48 :: nat)" by code_simp
  ultimately show ?thesis by (auto simp: digit_def is_digit_def)
qed

lemma digit_mod [simp]: "digit (n mod 10) = digit n"
  by (simp add: digit_def)

lemma nat_digits_value:
  "dec_value (nat_digits n) = n \<and> list_all is_digit (nat_digits n) \<and>
     (nat_digits n = [digit 0] \<or> hd (nat_digits n) \<noteq> CHR ''0'')"
proof (induction n rule: nat_digits.induct)
  case (1 n)
  show ?case
  proof (cases "n < 10")
    case True
    then show ?thesis using digit_value [of n] by (subst (1 2 3 4) nat_digits.simps) (auto simp: dec_value_def)
  next
    case False
    have d: "is_digit (digit n)" "of_char (digit n) - 48 = n mod 10"
      using digit_value [of "n mod 10"] by simp_all
    have split: "nat_digits n = nat_digits (n div 10) @ [digit n]"
      using False by (subst nat_digits.simps) simp
    have pos: "nat_digits (n div 10) \<noteq> [digit 0]"
    proof
      assume "nat_digits (n div 10) = [digit 0]"
      then have "dec_value (nat_digits (n div 10)) = 0" by (simp add: dec_value_def digit_def)
      with 1 [OF False] False show False by linarith
    qed
    from 1 [OF False] d pos show ?thesis
      unfolding split by (simp add: dec_value_def)
  qed
qed

lemma octet_itoa: "octet (itoa (uint b)) = Some b"
proof -
  have n: "itoa (uint b) = nat_digits (unat b)" by (simp add: itoa_def)
  have "unat b < 2 ^ LENGTH(8)" by (rule unsigned_less)
  then have "unat b \<le> 255" by simp
  then show ?thesis
    using nat_digits_value [of "unat b"] by (auto simp: octet_def n)
qed

lemma no_dot: "CHR ''.'' \<notin> set (itoa (uint (b :: 8 word)))"
proof
  assume "CHR ''.'' \<in> set (itoa (uint b))"
  moreover have "list_all is_digit (itoa (uint b))" using nat_digits_value [of "unat b"] by (simp add: itoa_def)
  ultimately have "is_digit CHR ''.''" by (simp add: list_all_iff)
  then show False by (simp add: is_digit_def)
qed

lemma parse_ip_String: "length ip = 4 \<Longrightarrow> parseIPv4 (ip_String ip) = Some ip"
proof -
  assume l: "length ip = 4"
  then have "split_char CHR ''.'' (ip_String ip) = map (\<lambda>b. itoa (uint b)) ip"
    unfolding ip_String_def by (subst split_char_join) (auto simp: no_dot)
  with l show ?thesis by (simp add: parseIPv4_def octet_itoa o_def image_iff)
qed

lemma ip_String_inject: "length xs = 4 \<Longrightarrow> length ys = 4 \<Longrightarrow> ip_String xs = ip_String ys \<Longrightarrow> xs = ys"
  by (metis option.inject parse_ip_String)

lemma net_hosts_distinct:
  assumes "ip_num (net_IP n) + 2 ^ (32 - net_ones n) \<le> 2 ^ 32"
  shows "distinct (net_hosts n)"
proof -
  have "inj_on (\<lambda>x. ip_String (octets x)) {..< 2 ^ 32}"
  proof (rule inj_onI)
    fix x y assume xy: "x \<in> {..< 2 ^ 32}" "y \<in> {..< 2 ^ 32}" "ip_String (octets x) = ip_String (octets y)"
    then have "octets x = octets y" by (intro ip_String_inject) (simp_all add: octets_def)
    with xy show "x = y" by (metis lessThan_iff octets_num(1))
  qed
  moreover have "set [a ..< b] \<subseteq> {..< 2 ^ 32}" if "b \<le> 2 ^ 32" for a b :: nat using that by auto
  ultimately show ?thesis
    using assms unfolding net_hosts_def Let_def distinct_map
    by (auto intro!: inj_on_subset [where A = "{..< 4294967296}"])
qed

section \<open>The sweep\<close>

record scan_result =
  sr_Address :: string
  sr_Fingerprint :: string
  sr_SuggestedDriver :: string

text \<open>\<open>dial a\<close> is the connection to \<open>a\<close> and what its one \<open>Read\<close> returns, whose error is ignored;
  the buffer holds 256 bytes.\<close>

definition probe_addr :: "(string \<Rightarrow> string option) \<Rightarrow> int \<Rightarrow> string \<Rightarrow> scan_result option" where
  "probe_addr dial port addr = map_option (\<lambda>b. let banner = trim_space (take 256 b) in
     \<lparr>sr_Address = addr, sr_Fingerprint = banner, sr_SuggestedDriver = fingerprintToDriver banner\<rparr>)
     (dial (JoinHostPort addr (itoa port)))"

text \<open>The state of the sweep: the addresses the loop has not reached, the goroutines that hold a
  token of \<open>sem\<close> and still probe, the number of those that have recorded their result and still
  hold their token, and the results in the order the mutex let them in. The loop blocks while all
  tokens are taken; \<open>wg.Wait\<close> returns once every goroutine has released its token.\<close>

record sweep =
  sw_todo :: "string list"
  sw_running :: "string list"
  sw_ending :: nat
  sw_out :: "scan_result list"

definition sweep_start :: "string list \<Rightarrow> sweep" where
  "sweep_start addrs = \<lparr>sw_todo = addrs, sw_running = [], sw_ending = 0, sw_out = []\<rparr>"

definition sweep_done :: "sweep \<Rightarrow> bool" where
  "sweep_done w \<longleftrightarrow> sw_todo w = [] \<and> sw_running w = [] \<and> sw_ending w = 0"

definition tokens :: "sweep \<Rightarrow> nat" where
  "tokens w = length (sw_running w) + sw_ending w"

inductive sweep_step :: "(string \<Rightarrow> scan_result option) \<Rightarrow> nat \<Rightarrow> sweep \<Rightarrow> sweep \<Rightarrow> bool"
  for prb :: "string \<Rightarrow> scan_result option" and cap :: nat where
  spawn: "sw_todo w = a # as \<Longrightarrow> tokens w < cap \<Longrightarrow>
    sweep_step prb cap w (w\<lparr>sw_todo := as, sw_running := a # sw_running w\<rparr>)"
| record_result: "a \<in> set (sw_running w) \<Longrightarrow> prb a = r \<Longrightarrow>
    sweep_step prb cap w (w\<lparr>sw_running := remove1 a (sw_running w), sw_ending := Suc (sw_ending w),
      sw_out := sw_out w @ (case r of None \<Rightarrow> [] | Some x \<Rightarrow> [x])\<rparr>)"
| release: "sw_ending w = Suc k \<Longrightarrow> sweep_step prb cap w (w\<lparr>sw_ending := k\<rparr>)"

inductive_cases sweep_stepE: "sweep_step prb cap w w'"

text \<open>The orders in which a sweep can collect its results.\<close>

definition swept :: "(string \<Rightarrow> scan_result option) \<Rightarrow> nat \<Rightarrow> string list \<Rightarrow> scan_result list \<Rightarrow> bool" where
  "swept prb cap addrs out \<longleftrightarrow>
     (\<exists>w. (sweep_step prb cap)\<^sup>*\<^sup>* (sweep_start addrs) w \<and> sweep_done w \<and> sw_out w = out)"

text \<open>What the sweep still owes and what it has, and how far it is from its end.\<close>

definition found :: "(string \<Rightarrow> scan_result option) \<Rightarrow> string list \<Rightarrow> scan_result multiset" where
  "found prb as = mset (List.map_filter prb as)"

definition sweep_total :: "(string \<Rightarrow> scan_result option) \<Rightarrow> sweep \<Rightarrow> scan_result multiset" where
  "sweep_total prb w = found prb (sw_todo w) + found prb (sw_running w) + mset (sw_out w)"

definition sweep_left :: "sweep \<Rightarrow> nat" where
  "sweep_left w = 3 * length (sw_todo w) + 2 * length (sw_running w) + sw_ending w"

lemma found_simps [simp]: "found prb [] = {#}"
  "found prb (a # as) = (case prb a of None \<Rightarrow> {#} | Some x \<Rightarrow> {#x#}) + found prb as"
  by (simp_all add: found_def map_filter_simps split: option.splits)

lemma found_remove:
  "a \<in> set as \<Longrightarrow> (case prb a of None \<Rightarrow> {#} | Some x \<Rightarrow> {#x#}) + found prb (remove1 a as) = found prb as"
  by (induction as) (auto simp: ac_simps split: option.splits)

lemma sweep_step_inv:
  assumes "sweep_step prb cap w w'"
  shows "sweep_total prb w' = sweep_total prb w" "sweep_left w' < sweep_left w"
    "tokens w \<le> cap \<Longrightarrow> tokens w' \<le> cap"
  using assms
proof (induction rule: sweep_step.induct)
  case (record_result a w r)
  then obtain n where pos: "length (sw_running w) = Suc n" by (cases "sw_running w") auto
  show "tokens w \<le> cap \<Longrightarrow> tokens (w\<lparr>sw_running := remove1 a (sw_running w), sw_ending := Suc (sw_ending w),
      sw_out := sw_out w @ (case r of None \<Rightarrow> [] | Some x \<Rightarrow> [x])\<rparr>) \<le> cap"
    and "sweep_left (w\<lparr>sw_running := remove1 a (sw_running w), sw_ending := Suc (sw_ending w),
      sw_out := sw_out w @ (case r of None \<Rightarrow> [] | Some x \<Rightarrow> [x])\<rparr>) < sweep_left w"
    using record_result pos by (simp_all add: tokens_def sweep_left_def length_remove1)
  show "sweep_total prb (w\<lparr>sw_running := remove1 a (sw_running w), sw_ending := Suc (sw_ending w),
      sw_out := sw_out w @ (case r of None \<Rightarrow> [] | Some x \<Rightarrow> [x])\<rparr>) = sweep_total prb w"
    using found_remove [OF record_result(1), of prb] record_result(2)
    by (auto simp: sweep_total_def ac_simps split: option.splits)
qed (auto simp: sweep_total_def sweep_left_def tokens_def ac_simps split: option.splits)

lemma sweep_reach_inv:
  assumes "(sweep_step prb cap)\<^sup>*\<^sup>* (sweep_start addrs) w"
  shows "sweep_total prb w = found prb addrs \<and> tokens w \<le> cap"
  using assms
proof (induction rule: rtranclp_induct)
  case base
  then show ?case by (simp add: sweep_total_def sweep_start_def tokens_def)
next
  case (step y z)
  then show ?case by (simp add: sweep_step_inv)
qed

lemma sweep_progress: "0 < cap \<Longrightarrow> \<not> sweep_done w \<Longrightarrow> \<exists>w'. sweep_step prb cap w w'"
proof (cases "sw_running w")
  case (Cons a as)
  then show ?thesis using sweep_step.record_result [of a w prb "prb a" cap] by auto
next
  case Nil
  assume "0 < cap" "\<not> sweep_done w"
  with Nil show ?thesis
    using sweep_step.spawn [of w "hd (sw_todo w)" "tl (sw_todo w)" cap prb] sweep_step.release [of w "sw_ending w - 1" prb cap]
    by (cases "sw_ending w"; cases "sw_todo w") (auto simp: sweep_done_def tokens_def)
qed

lemma sweep_finishes:
  assumes "0 < cap" and "(sweep_step prb cap)\<^sup>*\<^sup>* w0 w"
  shows "\<exists>w'. (sweep_step prb cap)\<^sup>*\<^sup>* w0 w' \<and> sweep_done w'"
  using assms(2)
proof (induction "sweep_left w" arbitrary: w rule: less_induct)
  case less
  show ?case
  proof (cases "sweep_done w")
    case False
    from sweep_progress [OF assms(1) this] obtain w' where st: "sweep_step prb cap w w'" by blast
    from less(1) [OF sweep_step_inv(2) [OF st] rtranclp.rtrancl_into_rtrancl [OF less(2) st]] show ?thesis .
  qed (use less in blast)
qed

lemma swept_found: "swept prb cap addrs out \<Longrightarrow> mset out = found prb addrs"
  by (auto simp: swept_def sweep_done_def sweep_total_def dest!: sweep_reach_inv)

lemma swept_exists: "0 < cap \<Longrightarrow> \<exists>out. swept prb cap addrs out"
  using sweep_finishes [of cap prb "sweep_start addrs" "sweep_start addrs"] by (auto simp: swept_def)

section \<open>Scans\<close>

record Scan =
  sc_ID :: int
  sc_TenantID :: int
  sc_CIDR :: string
  sc_StartedAt :: time
  sc_Status :: string

record scan_row =
  ds_id :: int
  ds_tenant :: int
  ds_cidr :: string
  ds_started :: stamp
  ds_finished :: "stamp option"
  ds_status :: string

record result_row =
  dr_id :: int
  dr_scan :: int
  dr_address :: string
  dr_fingerprint :: string
  dr_driver :: string

record disc_db = conn +
  discovery_scans :: "scan_row sql_table"
  discovery_results :: "result_row sql_table"

definition store_result :: "int \<Rightarrow> scan_result \<Rightarrow> 'a disc_db_scheme \<Rightarrow> 'a disc_db_scheme" where
  "store_result scanID r s = exec_quiet s (\<lambda>s. s\<lparr>discovery_results := insert_row (\<lambda>n. \<lparr>dr_id = n,
     dr_scan = scanID, dr_address = sr_Address r, dr_fingerprint = sr_Fingerprint r,
     dr_driver = sr_SuggestedDriver r\<rparr>) (discovery_results s), last_rowid := next_rowid (discovery_results s)\<rparr>)"

text \<open>\<open>collect\<close> is what the sweep collected, in its order; \<open>now\<close> and \<open>fin\<close> are the two readings of
  the clock. The outer \<open>None\<close> stands for an expansion that does not end.\<close>

definition Run_scan ::
  "(string \<Rightarrow> ipnet option) \<Rightarrow> (string \<Rightarrow> string option)
    \<Rightarrow> ((string \<Rightarrow> scan_result option) \<Rightarrow> nat \<Rightarrow> string list \<Rightarrow> scan_result list)
    \<Rightarrow> time \<Rightarrow> time \<Rightarrow> int \<Rightarrow> string \<Rightarrow> int \<Rightarrow> int \<Rightarrow> 'a disc_db_scheme
    \<Rightarrow> ((disc_err + Scan \<times> scan_result list) \<times> 'a disc_db_scheme) option" where
  "Run_scan v6 dial collect now fin tenantID cidr port0 concurrency0 s =
     (let port = (if port0 \<le> 0 then 22 else port0);
          concurrency = (if concurrency0 \<le> 0 then 64 else concurrency0)
      in case expandCIDR v6 cidr of
        None \<Rightarrow> None
      | Some (Inl e) \<Rightarrow> Some (Inl e, s)
      | Some (Inr addrs) \<Rightarrow> Some (exec DiscDB s (\<lambda>s.
          let scanID = next_rowid (discovery_scans s);
              s = s\<lparr>discovery_scans := insert_row (\<lambda>n. \<lparr>ds_id = n, ds_tenant = tenantID, ds_cidr = cidr,
                    ds_started = rfc3339 now, ds_finished = None, ds_status = ''running''\<rparr>) (discovery_scans s),
                    last_rowid := scanID\<rparr>;
              out = collect (probe_addr dial port) (nat concurrency) addrs;
              s = fold (store_result scanID) out s;
              s = exec_quiet s (\<lambda>s. s\<lparr>discovery_scans := update_rows (\<lambda>r. ds_id r = scanID)
                    (\<lambda>r. r\<lparr>ds_finished := Some (rfc3339 fin), ds_status := ''complete''\<rparr>) (discovery_scans s)\<rparr>)
          in (Inr (\<lparr>sc_ID = scanID, sc_TenantID = tenantID, sc_CIDR = cidr, sc_StartedAt = now,
                sc_Status = ''complete''\<rparr>, out), s))))"

lemma net_fits:
  assumes "ParseCIDR v6 s = Some n" and "\<And>c. v6 s = Some c \<Longrightarrow> net_bits c = 128" and "net_bits n = 32"
    and "16 \<le> net_ones n"
  shows "ip_num (net_IP n) + 2 ^ (32 - net_ones n) \<le> 2 ^ 32" and "length (net_IP n) = 4"
    and "ip_num (net_IP n) mod 2 ^ (32 - net_ones n) = 0"
proof -
  obtain ip where ip: "net_IP n = ip_Mask ip (CIDRMask (net_ones n) 4)" "length ip = 4" "net_ones n \<le> 32"
    using ParseCIDR_v4 [OF assms(1-3)] by blast
  let ?L = "2 ^ (32 - net_ones n) :: nat"
  have M: "2 ^ 32 = 2 ^ net_ones n * ?L" using ip(3) by (simp flip: power_add)
  have "ip_num ip < 2 ^ 32" using ip_num_less [of ip] ip(2) by simp
  then have "ip_num ip div ?L < 2 ^ net_ones n" unfolding M by (rule less_mult_imp_div_less)
  then have "(ip_num ip div ?L + 1) * ?L \<le> 2 ^ net_ones n * ?L" by (intro mult_right_mono) auto
  then show "ip_num (net_IP n) + ?L \<le> 2 ^ 32"
    unfolding M ip(1) masked_num(1) [OF ip(2,3)] by simp
  show "length (net_IP n) = 4" unfolding ip(1) by (rule masked_num(2) [OF ip(2,3)])
  show "ip_num (net_IP n) mod ?L = 0" unfolding ip(1) masked_num(1) [OF ip(2,3)] by simp
qed

text \<open>Every host belongs to the network and is a text that parses back.\<close>

lemma net_hosts_in:
  assumes "length (net_IP n) = 4" and "net_bits n = 32" and "16 \<le> net_ones n" and "net_ones n \<le> 32"
    and "ip_num (net_IP n) + 2 ^ (32 - net_ones n) \<le> 2 ^ 32" and "ip_num (net_IP n) mod 2 ^ (32 - net_ones n) = 0"
    and "h \<in> set (net_hosts n)"
  shows "\<exists>ip. parseIPv4 h = Some ip \<and> Contains n ip"
proof -
  let ?L = "2 ^ (32 - net_ones n) :: nat"
  obtain x where x: "h = ip_String (octets x)" "ip_num (net_IP n) \<le> x" "x < ip_num (net_IP n) + ?L"
    using assms(7) by (force simp: net_hosts_def Let_def split: if_splits)
  obtain q where q: "ip_num (net_IP n) = q * ?L" using assms(6) by (auto simp: mod_eq_0_iff_dvd dvd_def)
  have "x div ?L = q" using x(2,3) unfolding q by (intro div_nat_eqI) (simp_all add: mult.commute)
  moreover have "x < 2 ^ 32" using x(3) assms(5) by linarith
  ultimately have "Contains n (octets x)"
    using Contains_octets [OF assms(1,2,4), of x] by (simp add: q)
  moreover have "parseIPv4 h = Some (octets x)"
    unfolding x(1) by (rule parse_ip_String) (simp add: octets_def)
  ultimately show ?thesis by blast
qed

lemma net_hosts_length: "16 \<le> net_ones n \<Longrightarrow> length (net_hosts n) \<le> 65534"
proof -
  assume "16 \<le> net_ones n"
  then have "2 ^ (32 - net_ones n) \<le> (2 :: nat) ^ 16" by (intro power_increasing) auto
  moreover have "2 ^ (32 - net_ones n) \<le> (2 :: nat) ^ 1" if "\<not> net_ones n \<le> 30"
    using that by (intro power_increasing) auto
  ultimately show ?thesis by (auto simp: net_hosts_def Let_def)
qed

text \<open>C28: The range to sweep: \<open>expandCIDR\<close> ends on every text, also for the last network below
  255.255.255.255, where the address wraps around. It refuses the text or gives each host address
  of the network once, in order: at most 65534, each inside the network, without the network's
  own and its broadcast address when there are more than two.\<close>
theorem expand_exact:
  assumes "\<And>c. v6 cidr = Some c \<Longrightarrow> net_bits c = 128"
  shows "(\<exists>e. expandCIDR v6 cidr = Some (Inl e)) \<or>
    (\<exists>n. ParseCIDR v6 cidr = Some n \<and> net_bits n = 32 \<and> 16 \<le> net_ones n \<and>
       expandCIDR v6 cidr = Some (Inr (net_hosts n)) \<and> distinct (net_hosts n) \<and> length (net_hosts n) \<le> 65534 \<and>
       (\<forall>h \<in> set (net_hosts n). \<exists>ip. parseIPv4 h = Some ip \<and> Contains n ip))"
proof (cases rule: expand_total [of v6 cidr, case_names v6 bad hosts])
  case v6
  then show ?case by (rule assms)
next
  case (bad e)
  then show ?thesis by blast
next
  case (hosts n)
  note fits = net_fits [OF hosts(1) assms hosts(2,3)]
  show ?thesis
    using hosts fits net_hosts_distinct [OF fits(1)] net_hosts_length [OF hosts(3)]
      net_hosts_in [OF fits(2) hosts(2-4) fits(1,3)] by blast
qed

theorem expand_exact_witness:
  "expandCIDR (\<lambda>s. None) ''255.255.255.252/30'' = Some (Inr [''255.255.255.253'', ''255.255.255.254'']) \<and>
   distinct [''255.255.255.253'', ''255.255.255.254'']"
proof -
  have e: "expandCIDR (\<lambda>s. None) ''255.255.255.252/30'' = Some (Inr [''255.255.255.253'', ''255.255.255.254''])"
    by code_simp
  then show ?thesis using expand_exact [of "\<lambda>s. None" "''255.255.255.252/30''"] by auto
qed

definition result_row_of :: "int \<Rightarrow> scan_result \<Rightarrow> int \<Rightarrow> result_row" where
  "result_row_of i r n = \<lparr>dr_id = n, dr_scan = i, dr_address = sr_Address r, dr_fingerprint = sr_Fingerprint r,
     dr_driver = sr_SuggestedDriver r\<rparr>"

definition result_of_row :: "result_row \<Rightarrow> scan_result" where
  "result_of_row r = \<lparr>sr_Address = dr_address r, sr_Fingerprint = dr_fingerprint r, sr_SuggestedDriver = dr_driver r\<rparr>"

lemma result_of_row [simp]: "result_of_row (result_row_of i r n) = r" "dr_scan (result_row_of i r n) = i"
  by (simp_all add: result_of_row_def result_row_of_def)

definition scan_stored :: "int \<Rightarrow> 'a disc_db_scheme \<Rightarrow> scan_result list" where
  "scan_stored i s = map result_of_row (filter (\<lambda>r. dr_scan r = i) (rows (discovery_results s)))"

lemma store_results:
  "faults s = [] \<Longrightarrow> faults (fold (store_result i) out s) = [] \<and>
     discovery_scans (fold (store_result i) out s) = discovery_scans s \<and>
     scan_stored i (fold (store_result i) out s) = scan_stored i s @ out \<and>
     (\<forall>j. j \<noteq> i \<longrightarrow> scan_stored j (fold (store_result i) out s) = scan_stored j s)"
  by (induction out arbitrary: s)
    (simp_all add: store_result_def scan_stored_def flip: result_row_of_def)

text \<open>Results belong to scans.\<close>

definition disc_inv :: "'a disc_db_scheme \<Rightarrow> bool" where
  "disc_inv s \<longleftrightarrow> wf_table ds_id (discovery_scans s) \<and>
     dr_scan ` set (rows (discovery_results s)) \<subseteq> ds_id ` set (rows (discovery_scans s))"

lemma no_results_yet:
  assumes "disc_inv s"
  shows "scan_stored (next_rowid (discovery_scans s)) s = []"
proof -
  have "dr_scan r \<noteq> next_rowid (discovery_scans s)" if "r \<in> set (rows (discovery_results s))" for r
    using assms that fresh_rowid [of ds_id "discovery_scans s"] by (fastforce simp: disc_inv_def)
  then show ?thesis by (simp add: scan_stored_def filter_empty_conv)
qed

lemma Run_scan_ok:
  fixes s :: "'a disc_db_scheme" and cidr :: string
  defines "i \<equiv> next_rowid (discovery_scans s)"
  assumes e: "expandCIDR v6 cidr = Some (Inr addrs)" and f: "faults s = []" and inv: "disc_inv s"
    and out: "out = collect (probe_addr dial (if port \<le> 0 then 22 else port))
      (nat (if conc \<le> 0 then 64 else conc)) addrs"
  shows "\<exists>s'. Run_scan v6 dial collect now fin t cidr port conc s =
      Some (Inr (\<lparr>sc_ID = i, sc_TenantID = t, sc_CIDR = cidr, sc_StartedAt = now, sc_Status = ''complete''\<rparr>, out), s') \<and>
    scan_stored i s' = out \<and> (\<forall>j. j \<noteq> i \<longrightarrow> scan_stored j s' = scan_stored j s) \<and>
    rows (discovery_scans s') = rows (discovery_scans s) @ [\<lparr>ds_id = i, ds_tenant = t, ds_cidr = cidr,
      ds_started = rfc3339 now, ds_finished = Some (rfc3339 fin), ds_status = ''complete''\<rparr>]"
proof -
  let ?row = "\<lambda>n. \<lparr>ds_id = n, ds_tenant = t, ds_cidr = cidr, ds_started = rfc3339 now, ds_finished = None,
     ds_status = ''running''\<rparr>"
  let ?s1 = "s\<lparr>discovery_scans := insert_row ?row (discovery_scans s), last_rowid := i\<rparr>"
  let ?s2 = "fold (store_result i) out ?s1"
  have st: "faults ?s2 = []" "discovery_scans ?s2 = insert_row ?row (discovery_scans s)"
    "scan_stored i ?s2 = out" "\<And>j. j \<noteq> i \<Longrightarrow> scan_stored j ?s2 = scan_stored j s"
    using store_results [of ?s1 i out] f no_results_yet [OF inv] by (simp_all add: scan_stored_def i_def)
  have old: "ds_id r \<noteq> i" if "r \<in> set (rows (discovery_scans s))" for r
    using fresh_rowid [OF _ that] inv by (simp add: disc_inv_def i_def)
  have upd: "map (\<lambda>r. if ds_id r = i then r\<lparr>ds_finished := Some (rfc3339 fin), ds_status := ''complete''\<rparr> else r)
      (rows (discovery_scans s)) = rows (discovery_scans s)"
    using old by (simp add: map_idI)
  let ?s3 = "?s2\<lparr>discovery_scans := update_rows (\<lambda>r. ds_id r = i)
      (\<lambda>r. r\<lparr>ds_finished := Some (rfc3339 fin), ds_status := ''complete''\<rparr>) (discovery_scans ?s2)\<rparr>"
  have "Run_scan v6 dial collect now fin t cidr port conc s =
      Some (Inr (\<lparr>sc_ID = i, sc_TenantID = t, sc_CIDR = cidr, sc_StartedAt = now, sc_Status = ''complete''\<rparr>, out), ?s3)"
    using st(1) f e by (simp add: Run_scan_def Let_def flip: i_def out)
  moreover have "scan_stored j ?s3 = scan_stored j ?s2" for j by (simp add: scan_stored_def)
  moreover have "rows (discovery_scans ?s3) = rows (discovery_scans s) @ [\<lparr>ds_id = i, ds_tenant = t, ds_cidr = cidr,
      ds_started = rfc3339 now, ds_finished = Some (rfc3339 fin), ds_status = ''complete''\<rparr>]"
    by (simp add: st(2) upd) (simp add: i_def)
  ultimately show ?thesis using st(3,4) by auto
qed

text \<open>C29: A scan finds every responder: with a working database and whatever order the goroutines
  finish in, the scan returns and stores one result for each address that answered and none else, never with
  more than \<open>concurrency\<close> probes at once. It leaves one new row, of the tenant and the range, with its start and
  its end and marked complete, and the other scans and their results as they were.\<close>
theorem scan_finds_responders:
  assumes "expandCIDR v6 cidr = Some (Inr addrs)" and "faults s = []" and "disc_inv s"
    and "p = (if port \<le> 0 then 22 else port)" and "cap = nat (if conc \<le> 0 then 64 else conc)"
    and "swept (probe_addr dial p) cap addrs (collect (probe_addr dial p) cap addrs)"
  shows "(\<exists>i out s'. Run_scan v6 dial collect now fin t cidr port conc s = Some (Inr
        (\<lparr>sc_ID = i, sc_TenantID = t, sc_CIDR = cidr, sc_StartedAt = now, sc_Status = ''complete''\<rparr>, out), s') \<and>
      mset out = mset (List.map_filter (probe_addr dial p) addrs) \<and> scan_stored i s' = out \<and>
      (\<forall>j. j \<noteq> i \<longrightarrow> scan_stored j s' = scan_stored j s) \<and>
      rows (discovery_scans s') = rows (discovery_scans s) @ [\<lparr>ds_id = i, ds_tenant = t, ds_cidr = cidr,
        ds_started = rfc3339 now, ds_finished = Some (rfc3339 fin), ds_status = ''complete''\<rparr>]) \<and>
    (\<forall>w. (sweep_step (probe_addr dial p) cap)\<^sup>*\<^sup>* (sweep_start addrs) w \<longrightarrow>
      length (sw_running w) \<le> cap \<and> (\<exists>w'. (sweep_step (probe_addr dial p) cap)\<^sup>*\<^sup>* w w' \<and> sweep_done w'))"
proof
  show "\<exists>i out s'. Run_scan v6 dial collect now fin t cidr port conc s = Some (Inr
        (\<lparr>sc_ID = i, sc_TenantID = t, sc_CIDR = cidr, sc_StartedAt = now, sc_Status = ''complete''\<rparr>, out), s') \<and>
      mset out = mset (List.map_filter (probe_addr dial p) addrs) \<and> scan_stored i s' = out \<and>
      (\<forall>j. j \<noteq> i \<longrightarrow> scan_stored j s' = scan_stored j s) \<and>
      rows (discovery_scans s') = rows (discovery_scans s) @ [\<lparr>ds_id = i, ds_tenant = t, ds_cidr = cidr,
        ds_started = rfc3339 now, ds_finished = Some (rfc3339 fin), ds_status = ''complete''\<rparr>]"
    using Run_scan_ok [OF assms(1-3) refl, where collect = collect and dial = dial and port = port and conc = conc and now = now and fin = fin and t = t] swept_found [OF assms(6)]
    unfolding assms(4,5) found_def by blast
  have cap: "0 < cap" using assms(5) by auto
  show "\<forall>w. (sweep_step (probe_addr dial p) cap)\<^sup>*\<^sup>* (sweep_start addrs) w \<longrightarrow>
      length (sw_running w) \<le> cap \<and> (\<exists>w'. (sweep_step (probe_addr dial p) cap)\<^sup>*\<^sup>* w w' \<and> sweep_done w')"
    using sweep_reach_inv [of "probe_addr dial p" cap addrs] sweep_finishes [OF cap rtranclp.rtrancl_refl]
    by (fastforce simp: tokens_def)
qed

text \<open>One probe after the other is one of the orders.\<close>

lemma swept_sequential:
  assumes "0 < cap"
  shows "swept prb cap addrs (List.map_filter prb addrs)"
proof -
  have "(sweep_step prb cap)\<^sup>*\<^sup>* \<lparr>sw_todo = as, sw_running = [], sw_ending = 0, sw_out = out\<rparr>
      \<lparr>sw_todo = [], sw_running = [], sw_ending = 0, sw_out = out @ List.map_filter prb as\<rparr>" for as out
  proof (induction as arbitrary: out)
    case Nil
    then show ?case by (simp add: map_filter_simps)
  next
    case (Cons a as)
    let ?w = "\<lparr>sw_todo = a # as, sw_running = [], sw_ending = 0, sw_out = out\<rparr>"
    let ?w1 = "\<lparr>sw_todo = as, sw_running = [a], sw_ending = 0, sw_out = out\<rparr>"
    let ?out = "out @ (case prb a of None \<Rightarrow> [] | Some x \<Rightarrow> [x])"
    let ?w2 = "\<lparr>sw_todo = as, sw_running = [], sw_ending = Suc 0, sw_out = ?out\<rparr>"
    have 1: "sweep_step prb cap ?w ?w1" using sweep_step.spawn [of ?w a as cap prb] assms by (simp add: tokens_def)
    have 2: "sweep_step prb cap ?w1 ?w2" using sweep_step.record_result [of a ?w1 prb "prb a" cap] by simp
    have 3: "sweep_step prb cap ?w2 \<lparr>sw_todo = as, sw_running = [], sw_ending = 0, sw_out = ?out\<rparr>"
      using sweep_step.release [of ?w2 0 prb cap] by simp
    have "?out @ List.map_filter prb as = out @ List.map_filter prb (a # as)"
      by (simp add: map_filter_simps split: option.splits)
    with Cons [of ?out] have "(sweep_step prb cap)\<^sup>*\<^sup>* \<lparr>sw_todo = as, sw_running = [], sw_ending = 0, sw_out = ?out\<rparr>
        \<lparr>sw_todo = [], sw_running = [], sw_ending = 0, sw_out = out @ List.map_filter prb (a # as)\<rparr>" by simp
    from converse_rtranclp_into_rtranclp [of "sweep_step prb cap", OF 1
        converse_rtranclp_into_rtranclp [of "sweep_step prb cap", OF 2
          converse_rtranclp_into_rtranclp [of "sweep_step prb cap", OF 3 this]]]
    show ?case .
  qed
  from this [of addrs "[]"] show ?thesis unfolding swept_def sweep_start_def sweep_done_def by force
qed

definition demo_dial :: "string \<Rightarrow> string option" where
  "demo_dial a = (if a = ''10.0.0.2:22'' then Some ''SSH-2.0-Cisco-1.25 '' else None)"

definition empty_disc :: disc_db where
  "empty_disc = \<lparr>faults = [], last_rowid = 0, discovery_scans = empty_table, discovery_results = empty_table\<rparr>"

theorem scan_finds_responders_witness:
  "\<exists>i out s'. Run_scan (\<lambda>s. None) demo_dial (\<lambda>p n as. List.map_filter p as) 0 second 7 ''10.0.0.0/30'' 0 0 empty_disc =
     Some (Inr (\<lparr>sc_ID = i, sc_TenantID = 7, sc_CIDR = ''10.0.0.0/30'', sc_StartedAt = 0, sc_Status = ''complete''\<rparr>, out), s') \<and>
     mset out = {#\<lparr>sr_Address = ''10.0.0.2'', sr_Fingerprint = ''SSH-2.0-Cisco-1.25'', sr_SuggestedDriver = ''cisco_ios''\<rparr>#} \<and>
     scan_stored i s' = out \<and>
     rows (discovery_scans s') = [\<lparr>ds_id = i, ds_tenant = 7, ds_cidr = ''10.0.0.0/30'', ds_started = rfc3339 0,
       ds_finished = Some (rfc3339 second), ds_status = ''complete''\<rparr>]"
proof -
  have e: "expandCIDR (\<lambda>s. None) ''10.0.0.0/30'' = Some (Inr [''10.0.0.1'', ''10.0.0.2''])" by code_simp
  have o: "List.map_filter (probe_addr demo_dial 22) [''10.0.0.1'', ''10.0.0.2''] =
     [\<lparr>sr_Address = ''10.0.0.2'', sr_Fingerprint = ''SSH-2.0-Cisco-1.25'', sr_SuggestedDriver = ''cisco_ios''\<rparr>]" by code_simp
  have i: "disc_inv empty_disc" by (simp add: disc_inv_def empty_disc_def) (simp add: empty_table_def)
  have sw: "swept (probe_addr demo_dial 22) 64 [''10.0.0.1'', ''10.0.0.2'']
      (List.map_filter (probe_addr demo_dial 22) [''10.0.0.1'', ''10.0.0.2''])" by (rule swept_sequential) simp
  have "faults empty_disc = []" by (simp add: empty_disc_def)
  moreover have "rows (discovery_scans empty_disc) = []" by (simp add: empty_disc_def empty_table_def)
  ultimately show ?thesis using scan_finds_responders [OF e _ i, where port = 0 and conc = 0 and p = 22 and cap = 64 and dial = demo_dial and
      collect = "\<lambda>p n as. List.map_filter p as" and now = 0 and fin = second and t = 7, OF _ _ _ sw]
    unfolding o by auto
qed

end
