(* ===== verification/Netconf.thy ===== *)
theory Netconf
  imports Dial Base64
begin

text \<open>
  NETCONF over SSH (\<open>internal/drivers/netconf/netconf.go\<close>, \<open>internal/transport/netconf.go\<close>): the
  messages, their framing by the delimiter, the commands of a session and how replies are read.
  The SSH library is a parameter: what is read arrives as a list of events. So is
  \<open>encoding/xml\<close>: \<open>tokens\<close> gives the tokens of a text up to its end or its first error, and
  \<open>quote\<close> is the verb \<open>%q\<close>, which depends on Unicode's tables.
\<close>

section \<open>Messages\<close>

abbreviation dq :: string where "dq \<equiv> [CHR 0x22]"
abbreviation nl :: string where "nl \<equiv> [CHR 0x0A]"

definition delim :: string where "delim = '']]>]]>''"

definition xml_head :: string where
  "xml_head = ''<?xml version='' @ dq @ ''1.0'' @ dq @ '' encoding='' @ dq @ ''UTF-8'' @ dq @ ''?>'' @ nl"

definition base_ns :: string where
  "base_ns = '' xmlns='' @ dq @ ''urn:ietf:params:xml:ns:netconf:base:1.0'' @ dq @ ''>'' @ nl"

definition HelloMessage :: string where
  "HelloMessage = xml_head @ ''<hello'' @ base_ns @ ''  <capabilities>'' @ nl @
     ''    <capability>urn:ietf:params:netconf:base:1.0</capability>'' @ nl @
     ''  </capabilities>'' @ nl @ ''</hello>'' @ nl @ delim"

definition rpc_head :: "int \<Rightarrow> string" where
  "rpc_head n = xml_head @ ''<rpc message-id='' @ dq @ itoa n @ dq @ base_ns"

definition rpc_tail :: string where
  "rpc_tail = ''</rpc>'' @ nl @ delim"

definition buildGetConfigRPC :: "int \<Rightarrow> string \<Rightarrow> string" where
  "buildGetConfigRPC msgID datastore = rpc_head msgID @ ''  <get-config>'' @ nl @
     ''    <source><'' @ datastore @ ''/></source>'' @ nl @ ''  </get-config>'' @ nl @ rpc_tail"

definition GetConfigRPC :: "int \<Rightarrow> string" where
  "GetConfigRPC messageID = rpc_head messageID @ ''  <get-config>'' @ nl @
     ''    <source><running/></source>'' @ nl @ ''  </get-config>'' @ nl @ rpc_tail"

definition buildEditConfigRPC :: "int \<Rightarrow> string \<Rightarrow> string \<Rightarrow> string" where
  "buildEditConfigRPC msgID datastore payload = rpc_head msgID @ ''  <edit-config>'' @ nl @
     ''    <target><'' @ datastore @ ''/></target>'' @ nl @
     ''    <config>'' @ payload @ ''</config>'' @ nl @ ''  </edit-config>'' @ nl @ rpc_tail"

definition closeRPC :: string where
  "closeRPC = rpc_head 9999 @ ''  <close-session/>'' @ nl @ rpc_tail"

section \<open>Replies\<close>

text \<open>\<open>strings.SplitN(s, delim, 2)[0]\<close>.\<close>

definition before_delim :: "string \<Rightarrow> string" where
  "before_delim s = (case str_index s delim of None \<Rightarrow> s | Some i \<Rightarrow> take i s)"

text \<open>The tokens the parser looks at; an attribute is its space, its local name and its value.\<close>

datatype xml_token =
  StartElement string "(string \<times> string \<times> string) list"
| EndElement string
| CharData string
| OtherToken

definition data_tag :: string where "data_tag = ''data''"

definition open_tag :: "(string \<Rightarrow> string) \<Rightarrow> string \<Rightarrow> (string \<times> string \<times> string) list \<Rightarrow> string" where
  "open_tag quote name attrs = ''<'' @ name @
     concat (map (\<lambda>(sp, l, v). if sp = ''xmlns'' \<or> l = ''xmlns'' then [] else '' '' @ l @ ''='' @ quote v) attrs) @ ''>''"

fun parse_tokens ::
  "(string \<Rightarrow> string) \<Rightarrow> bool \<Rightarrow> int \<Rightarrow> string \<Rightarrow> xml_token list \<Rightarrow> string option" where
  "parse_tokens quote inData depth out [] = (if inData then Some out else None)"
| "parse_tokens quote inData depth out (StartElement name attrs # ts) =
     (if name = data_tag then parse_tokens quote True 0 out ts
      else if inData then parse_tokens quote True (depth + 1) (out @ open_tag quote name attrs) ts
      else parse_tokens quote False depth out ts)"
| "parse_tokens quote inData depth out (EndElement name # ts) =
     (if inData then
        if name = data_tag \<and> depth = 0 then Some out
        else parse_tokens quote True (depth - 1) (out @ ''</'' @ name @ ''>'') ts
      else parse_tokens quote False depth out ts)"
| "parse_tokens quote inData depth out (CharData s # ts) =
     parse_tokens quote inData depth (if inData then out @ s else out) ts"
| "parse_tokens quote inData depth out (OtherToken # ts) = parse_tokens quote inData depth out ts"

record xml_lib =
  xl_tokens :: "string \<Rightarrow> xml_token list"
  xl_quote :: "string \<Rightarrow> string"

definition ParseRPCReply :: "xml_lib \<Rightarrow> string \<Rightarrow> string option" where
  "ParseRPCReply X framed = parse_tokens (xl_quote X) False 0 [] (xl_tokens X (before_delim framed))"

text \<open>\<open>CopyDataElement\<close>: each read is the bytes it returned and its error; after the last listed read
  the stream is at its end.\<close>

datatype read_err = EOF | ReadErr string

fun CopyDataElement :: "xml_lib \<Rightarrow> string \<Rightarrow> (string \<times> read_err option) list \<Rightarrow> string + string" where
  "CopyDataElement X buf [] = Inl ''netconf: stream ended without complete <data>''"
| "CopyDataElement X buf ((d, e) # rs) =
     (let buf' = buf @ d in
      case (if d \<noteq> [] then ParseRPCReply X buf' else None) of
        Some data \<Rightarrow> Inr data
      | None \<Rightarrow> (case e of
          None \<Rightarrow> CopyDataElement X buf' rs
        | Some EOF \<Rightarrow> Inl ''netconf: stream ended without complete <data>''
        | Some (ReadErr err) \<Rightarrow> Inl err))"

definition parseEditConfigReply :: "string \<Rightarrow> string option" where
  "parseEditConfigReply reply = (let body = before_delim reply in
     if str_contains body ''<rpc-error'' then Some ''transport/netconf: edit-config failed: rpc-error''
     else if str_contains body ''<ok/>'' \<or> str_contains body ''<ok />'' then None
     else Some ''transport/netconf: edit-config reply missing <ok/>'')"

section \<open>Commands\<close>

datatype nc_err =
  NcInvalid | NcDatastore string | NcBase64 | NcDelimiter | NcWrapper | NcUnsupported
| NcSend string | NcCtx string | NcTimeout string | NcRead string | NcClosed | NcNoData | NcReply string

definition validateNetconfEditPayload :: "string \<Rightarrow> nc_err option" where
  "validateNetconfEditPayload payload = (let lower = to_lower payload in
     if str_contains payload delim then Some NcDelimiter
     else if str_contains lower ''</config>'' \<or> str_contains lower ''<rpc'' \<or> str_contains lower ''</rpc>''
     then Some NcWrapper else None)"

definition parseNetconfEditConfigCommand :: "string \<Rightarrow> nc_err + string \<times> string" where
  "parseNetconfEditConfigCommand cmd =
     (case splitn_char 2 CHR '':'' (trim_prefix (trim_space cmd) ''edit-config:'') of
        [p0, p1] \<Rightarrow>
          (let ds = trim_space p0 in
           if ds \<noteq> ''running'' \<and> ds \<noteq> ''candidate'' \<and> ds \<noteq> ''startup'' then Inl (NcDatastore ds)
           else (case base64_decode p1 of
               None \<Rightarrow> Inl NcBase64
             | Some decoded \<Rightarrow> (case validateNetconfEditPayload decoded of
                 Some e \<Rightarrow> Inl e | None \<Rightarrow> Inr (ds, decoded))))
      | _ \<Rightarrow> Inl NcInvalid)"

section \<open>Reading\<close>

text \<open>What a turn of the \<open>select\<close> sees: the context ended, the session's timer fired, or a read
  returned bytes and perhaps an error. The timer fires when nothing else comes
  any more.\<close>

datatype nc_event = CtxDone string | TimerFired | Chunk string "read_err option"

fun readUntilDelimiter :: "string \<Rightarrow> string \<Rightarrow> string \<Rightarrow> nc_event list \<Rightarrow> nc_err option" where
  "readUntilDelimiter d timeoutMsg buf [] = Some (NcTimeout timeoutMsg)"
| "readUntilDelimiter d timeoutMsg buf (CtxDone e # evs) = Some (NcCtx e)"
| "readUntilDelimiter d timeoutMsg buf (TimerFired # evs) = Some (NcTimeout timeoutMsg)"
| "readUntilDelimiter d timeoutMsg buf (Chunk c e # evs) =
     (if c \<noteq> [] \<and> str_contains (buf @ c) d then None
      else (case e of
          None \<Rightarrow> readUntilDelimiter d timeoutMsg (buf @ c) evs
        | Some EOF \<Rightarrow> Some NcClosed
        | Some (ReadErr err) \<Rightarrow> Some (NcRead err)))"

fun readRPCReply :: "string \<Rightarrow> nc_event list \<Rightarrow> nc_err + string" where
  "readRPCReply buf [] = Inl (NcTimeout ''transport/netconf: reply timeout'')"
| "readRPCReply buf (CtxDone e # evs) = Inl (NcCtx e)"
| "readRPCReply buf (TimerFired # evs) = Inl (NcTimeout ''transport/netconf: reply timeout'')"
| "readRPCReply buf (Chunk c e # evs) =
     (if c \<noteq> [] \<and> str_contains (buf @ c) delim then Inr (buf @ c)
      else (case e of
          None \<Rightarrow> readRPCReply (buf @ c) evs
        | Some EOF \<Rightarrow> Inr (buf @ c)
        | Some (ReadErr err) \<Rightarrow> Inl (NcRead err)))"

text \<open>The session: its message counter and the messages written so far. \<open>werr\<close> is the error of the
  call's write, if it fails.\<close>

record nc_session =
  nc_msgID :: int
  nc_sent :: "string list"

definition nc_write :: "string option \<Rightarrow> string \<Rightarrow> nc_session \<Rightarrow> (nc_err + unit) \<times> nc_session" where
  "nc_write werr msg s = (case werr of
     Some e \<Rightarrow> (Inl (NcSend e), s) | None \<Rightarrow> (Inr (), s\<lparr>nc_sent := nc_sent s @ [msg]\<rparr>))"

definition nc_handshake :: "string option \<Rightarrow> nc_event list \<Rightarrow> nc_session \<Rightarrow> nc_err option \<times> nc_session" where
  "nc_handshake werr evs s = (case nc_write werr HelloMessage s of
     (Inl e, s) \<Rightarrow> (Some e, s) | (Inr _, s) \<Rightarrow> (readUntilDelimiter delim ''hello timeout'' [] evs, s))"

definition sendClose :: "string option \<Rightarrow> nc_session \<Rightarrow> nc_session" where
  "sendClose werr s = snd (nc_write werr closeRPC s)"

definition next_msg :: "nc_session \<Rightarrow> nc_session" where
  "next_msg s = s\<lparr>nc_msgID := nc_msgID s + 1\<rparr>"

definition nc_datastore :: "string \<Rightarrow> string option" where
  "nc_datastore cmd =
     (if cmd = ''get-config'' \<or> cmd = ''get-config:running'' then Some ''running''
      else if cmd = ''get-config:candidate'' then Some ''candidate''
      else if cmd = ''get-config:startup'' then Some ''startup''
      else None)"

definition Run_netconf ::
  "xml_lib \<Rightarrow> string option \<Rightarrow> nc_event list \<Rightarrow> string \<Rightarrow> nc_session \<Rightarrow> (nc_err + string) \<times> nc_session" where
  "Run_netconf X werr evs cmd0 s = (let cmd = trim_space cmd0 in
     if has_prefix cmd ''edit-config:'' then
       (case parseNetconfEditConfigCommand cmd of
          Inl e \<Rightarrow> (Inl e, s)
        | Inr (datastore, payload) \<Rightarrow>
            (case nc_write werr (buildEditConfigRPC (nc_msgID s) datastore payload) (next_msg s) of
               (Inl e, s) \<Rightarrow> (Inl e, s)
             | (Inr _, s) \<Rightarrow> (case readRPCReply [] evs of
                 Inl e \<Rightarrow> (Inl e, s)
               | Inr reply \<Rightarrow> (case parseEditConfigReply reply of
                   Some e \<Rightarrow> (Inl (NcReply e), s) | None \<Rightarrow> (Inr ''<ok/>'', s)))))
     else (case nc_datastore cmd of
         None \<Rightarrow> (Inl NcUnsupported, s)
       | Some datastore \<Rightarrow>
           (case nc_write werr (buildGetConfigRPC (nc_msgID s) datastore) (next_msg s) of
              (Inl e, s) \<Rightarrow> (Inl e, s)
            | (Inr _, s) \<Rightarrow> (case readRPCReply [] evs of
                Inl e \<Rightarrow> (Inl e, s)
              | Inr reply \<Rightarrow> (case ParseRPCReply X reply of
                  None \<Rightarrow> (Inl NcNoData, s) | Some data \<Rightarrow> (Inr (trim_space data), s))))))"

text \<open>\<open>DialNetconf\<close> up to the handshake: the address, the timeout and the key check.\<close>

definition DialNetconf :: "(string \<Rightarrow> int option) \<Rightarrow> SSHConfig \<Rightarrow> string + (string \<times> duration \<times> host_keys)" where
  "DialNetconf lookup_port cfg =
     (if sc_Username cfg = [] then Inl ''transport/netconf: empty username''
      else (let port = (if sc_Port cfg = 0 then 830 else sc_Port cfg) in
        Inr (dial_addr 830 (sc_Address cfg) port, dial_timeout (sc_Timeout cfg),
             resolveHostKeyCallback lookup_port (cfg\<lparr>sc_Port := port, sc_HostKeyCallback := None\<rparr>))))"

section \<open>A message is one frame\<close>

lemma contains_set: "str_contains s p \<Longrightarrow> set p \<subseteq> set s"
  by (auto simp: str_contains_iff)

lemma contains_Cons: "str_contains (c # s) p \<longleftrightarrow> has_prefix (c # s) p \<or> str_contains s p"
  by (auto simp: str_contains_def)

text \<open>A character that does not occur in the pattern separates its occurrences.\<close>

lemma prefix_stop: "c \<notin> set d \<Longrightarrow> has_prefix (a @ c # b) d \<longleftrightarrow> has_prefix a d"
proof
  assume c: "c \<notin> set d" and p: "has_prefix (a @ c # b) d"
  from p have t: "take (length d) (a @ c # b) = d" by (simp add: has_prefix_def)
  have "length d \<le> length a"
  proof (rule ccontr)
    assume "\<not> length d \<le> length a"
    then have "c \<in> set (take (length d) (a @ c # b))"
      by (cases "length d - length a") (auto simp: take_Cons')
    with t c show False by simp
  qed
  with t show "has_prefix a d" by (simp add: has_prefix_def)
next
  assume "has_prefix a d"
  then show "has_prefix (a @ c # b) d" by (auto simp: has_prefix_iff)
qed

lemma index_stop:
  assumes "c \<notin> set d" and "d \<noteq> []" and "\<not> str_contains a d"
  shows "str_index (a @ c # b) d = map_option ((+) (Suc (length a))) (str_index b d)"
  using assms(3)
proof (induction a)
  case Nil
  have "\<not> has_prefix (c # b) d" using assms(1,2) by (cases d) (auto simp: has_prefix_def)
  moreover have "Suc = (+) (Suc 0)" by auto
  ultimately show ?case by simp
next
  case (Cons x a)
  then have "\<not> has_prefix (x # a @ c # b) d"
    using prefix_stop [OF assms(1), of "x # a" b] by (simp add: contains_Cons)
  with Cons show ?case by (cases "str_index b d") (simp_all add: contains_Cons)
qed

lemma delim_simps: "CHR ''<'' \<notin> set delim" "CHR 0x0A \<notin> set delim" "CHR ''g'' \<notin> set delim" "delim \<noteq> []"
  "CHR '']'' \<in> set delim" "length delim = 6" "str_index delim delim = Some 0"
  by code_simp+

lemma no_bracket: "CHR '']'' \<notin> set s \<Longrightarrow> \<not> str_contains s delim"
  using contains_set [of s delim] delim_simps(5) by auto

lemma itoa_no_bracket: "CHR '']'' \<notin> set (itoa n)"
  using itoa_plain(1) [of n] by (simp add: plain_host_def)

lemma head_no_bracket: "CHR '']'' \<notin> set (rpc_head n)"
  by (simp add: rpc_head_def xml_head_def base_ns_def itoa_no_bracket)

lemma tail_index: "str_index rpc_tail delim = Some 7"
  by code_simp

text \<open>A message without the delimiter before its tail, where the tail starts after a character
  that is not in the delimiter, is one frame.\<close>

lemma one_frame:
  assumes "\<not> str_contains m delim" and "c \<notin> set delim"
  shows "str_index (m @ c # rpc_tail) delim = Some (length (m @ c # rpc_tail) - length delim)"
proof -
  have "length rpc_tail = 13" by (simp add: rpc_tail_def delim_simps)
  then show ?thesis
    using index_stop [OF assms(2) delim_simps(4) assms(1)] by (simp add: tail_index delim_simps)
qed

lemma index_None: "str_index s p = None \<longleftrightarrow> \<not> str_contains s p"
  by (simp add: str_contains_def)

lemma edit_frame:
  assumes "\<not> str_contains payload delim" and "CHR '']'' \<notin> set ds"
  shows "str_index (buildEditConfigRPC n ds payload) delim =
    Some (length (buildEditConfigRPC n ds payload) - length delim)"
proof -
  let ?a = "rpc_head n @ ''  <edit-config>'' @ nl @ ''    <target><'' @ ds @ ''/></target>'' @ nl @ ''    <confi''"
  have a: "\<not> str_contains ?a delim"
    using head_no_bracket assms(2) by (intro no_bracket) auto
  have b: "\<not> str_contains (CHR ''>'' # payload) delim"
    using assms(1) by (simp add: contains_Cons has_prefix_def delim_def)
  let ?b = "CHR ''>'' # payload @ CHR ''<'' # ''/config>'' @ nl @ ''  </edit-config>''"
  have "\<not> str_contains (''/config>'' @ nl @ ''  </edit-config>'') delim" by (intro no_bracket) auto
  then have "\<not> str_contains ?b delim"
    using index_stop [OF delim_simps(1,4) b, of "''/config>'' @ nl @ ''  </edit-config>''"]
    by (simp add: str_contains_def)
  then have "\<not> str_contains (?a @ CHR ''g'' # ?b) delim"
    using index_stop [OF delim_simps(3,4) a, of ?b] by (simp add: str_contains_def del: append_assoc)
  from one_frame [OF this delim_simps(2)] show ?thesis
    by (simp add: buildEditConfigRPC_def)
qed

section \<open>Replies in any number of reads\<close>

lemma prefix_append: "has_prefix s d \<Longrightarrow> has_prefix (s @ t) d"
  by (auto simp: has_prefix_iff)

lemma index_append: "str_index s d = Some i \<Longrightarrow> str_index (s @ t) d = Some i \<and> i + length d \<le> length s"
proof (induction s d arbitrary: i rule: str_index.induct)
  case (1 d)
  then have "d = []" "i = 0" by (auto split: if_splits)
  then show ?case by (cases t) auto
next
  case (2 c s d)
  show ?case
  proof (cases "has_prefix (c # s) d")
    case True
    moreover have "length d \<le> length (c # s)"
      using True by (metis has_prefix_iff le_add1 length_append)
    ultimately show ?thesis using 2(2) prefix_append [OF True, of t] by simp
  next
    case False
    with 2(2) obtain j where j: "str_index s d = Some j" "i = Suc j" by auto
    with 2(1) [OF False, of j] have a: "str_index (s @ t) d = Some j" "j + length d \<le> length s" by simp_all
    have "\<not> has_prefix (c # s @ t) d"
    proof
      assume "has_prefix (c # s @ t) d"
      then have "take (length d) ((c # s) @ t) = d" by (simp add: has_prefix_def)
      moreover have "length d \<le> length (c # s)" using a(2) by simp
      ultimately have "has_prefix (c # s) d" by (simp only: has_prefix_def take_append) simp
      with False show False by simp
    qed
    with a j show ?thesis by simp
  qed
qed

lemma read_chunks:
  assumes "\<not> str_contains buf delim" and "str_index (buf @ concat cs) delim = Some n"
  shows "\<exists>out. readRPCReply buf (map (\<lambda>c. Chunk c None) cs @ evs) = Inr out \<and>
    before_delim out = take n (buf @ concat cs)"
  using assms
proof (induction cs arbitrary: buf)
  case Nil
  then show ?case by (simp add: str_contains_def)
next
  case (Cons c cs)
  show ?case
  proof (cases "str_contains (buf @ c) delim")
    case True
    then obtain i where i: "str_index (buf @ c) delim = Some i" by (auto simp: str_contains_def)
    from index_append [OF i, of "concat cs"] Cons.prems(2) have "i = n" "n \<le> length (buf @ c)" by auto
    moreover have "c \<noteq> []" using True Cons.prems(1) by auto
    ultimately show ?thesis using True i by (simp add: before_delim_def)
  next
    case False
    from Cons.IH [OF False] Cons.prems(2) show ?thesis using False by simp
  qed
qed

lemma read_cut:
  assumes "\<not> str_contains (buf @ concat cs @ c) delim"
  shows "readRPCReply buf (map (\<lambda>c. Chunk c None) cs @ Chunk c (Some EOF) # evs) = Inr (buf @ concat cs @ c)"
  using assms
proof (induction cs arbitrary: buf)
  case (Cons a cs)
  have "\<not> str_contains (buf @ a) delim"
    using Cons.prems index_append [of "buf @ a" delim _ "concat cs @ c"]
    by (cases "str_index (buf @ a) delim") (auto simp: str_contains_def)
  with Cons show ?case by simp
qed simp

section \<open>The data of a reply\<close>

text \<open>The content of an element: elements, texts, and what the parser skips (comments, directives,
  processing instructions).\<close>

datatype xml = Elem string "(string \<times> string \<times> string) list" "xml list" | Text string | Skipped

fun xml_toks :: "xml \<Rightarrow> xml_token list" where
  "xml_toks (Elem n as cs) = StartElement n as # concat (map xml_toks cs) @ [EndElement n]"
| "xml_toks (Text s) = [CharData s]"
| "xml_toks Skipped = [OtherToken]"

text \<open>What is written for it: namespace prefixes and declarations are left out, texts are written as decoded.\<close>

fun xml_render :: "(string \<Rightarrow> string) \<Rightarrow> xml \<Rightarrow> string" where
  "xml_render q (Elem n as cs) = open_tag q n as @ concat (map (xml_render q) cs) @ ''</'' @ n @ ''>''"
| "xml_render q (Text s) = s"
| "xml_render q Skipped = []"

fun no_data :: "xml \<Rightarrow> bool" where
  "no_data (Elem n as cs) \<longleftrightarrow> n \<noteq> data_tag \<and> list_all no_data cs"
| "no_data (Text s) \<longleftrightarrow> True"
| "no_data Skipped \<longleftrightarrow> True"

text \<open>What is read of it: everything up to the end of the first nested \<open>data\<close> element to close, whose own
  tags are not written. The flag tells that one closed, and then what follows is lost.\<close>

fun read_xml :: "(string \<Rightarrow> string) \<Rightarrow> xml \<Rightarrow> string \<times> bool" and
    read_xmls :: "(string \<Rightarrow> string) \<Rightarrow> xml list \<Rightarrow> string \<times> bool" where
  "read_xml q (Elem n as cs) = (case read_xmls q cs of (inner, stopped) \<Rightarrow>
     if n = data_tag then (inner, True)
     else if stopped then (open_tag q n as @ inner, True)
     else (open_tag q n as @ inner @ ''</'' @ n @ ''>'', False))"
| "read_xml q (Text s) = (s, False)"
| "read_xml q Skipped = ([], False)"
| "read_xmls q [] = ([], False)"
| "read_xmls q (x # xs) = (case read_xml q x of (first, stopped) \<Rightarrow>
     if stopped then (first, True) else apfst ((@) first) (read_xmls q xs))"

lemma parse_read:
  "parse_tokens q True d out (xml_toks x @ ts) = (case read_xml q x of (r, stopped) \<Rightarrow>
     if stopped then Some (out @ r) else parse_tokens q True d (out @ r) ts)"
  "parse_tokens q True d out (concat (map xml_toks xs) @ ts) = (case read_xmls q xs of (r, stopped) \<Rightarrow>
     if stopped then Some (out @ r) else parse_tokens q True d (out @ r) ts)"
proof (induction q x and q xs arbitrary: d out ts and d out ts rule: read_xml_read_xmls.induct)
  case (1 q n as cs)
  then show ?case by (simp split: prod.split)
next
  case (5 q x xs)
  obtain r st where r: "read_xml q x = (r, st)" by force
  with 5 show ?case by (cases st) (auto simp: apfst_def map_prod_def split: prod.split)
qed simp_all

lemma read_xml_plain:
  "no_data x \<Longrightarrow> read_xml q x = (xml_render q x, False)"
  "list_all no_data xs \<Longrightarrow> read_xmls q xs = (concat (map (xml_render q) xs), False)"
proof (induction q x and q xs rule: read_xml_read_xmls.induct)
  case (5 q x xs)
  then show ?case using "5.IH"(2) [of "xml_render q x" False] by simp
qed auto

text \<open>What follows a nested \<open>data\<close> element is lost, and its parents are left open.\<close>

lemma nested_data_cuts:
  "read_xmls (\<lambda>s. s) [Elem ''rule'' [] [Elem data_tag [] [Text ''permit''], Text '' any''], Elem ''deny'' [] []] =
     (''<rule>permit'', True)"
  by code_simp

lemma parse_before:
  "\<forall>a. StartElement data_tag a \<notin> set pre \<Longrightarrow>
     parse_tokens q False d out (pre @ ts) = parse_tokens q False d out ts"
proof (induction pre)
  case (Cons t pre)
  then show ?case by (cases t) auto
qed simp

lemma parse_data:
  assumes "\<forall>a. StartElement data_tag a \<notin> set pre"
  shows "parse_tokens q False 0 [] (pre @ StartElement data_tag as # concat (map xml_toks cs) @ EndElement data_tag # ts) =
      Some (fst (read_xmls q cs))"
    and "parse_tokens q False 0 [] (pre @ StartElement data_tag as # concat (map xml_toks cs)) =
      Some (fst (read_xmls q cs))"
  using parse_read(2) [of q 0 "[]" cs "EndElement data_tag # ts"] parse_read(2) [of q 0 "[]" cs "[]"]
  by (simp_all add: parse_before [OF assms] split: prod.split)

text \<open>C30: However the reply to a get-config command is split into reads, when its first frame is an XML text
  with a \<open>data\<close> element, the command sends one frame and returns, trimmed, what the element contains, up to the end of
  the first \<open>data\<close> element nested in it to close. Without a nested one that is the whole content: its elements
  without namespace prefixes and declarations and its texts, comments and the like left out.\<close>
theorem netconf_get_config:
  assumes "nc_datastore cmd = Some ds" and "trim_space cmd0 = cmd"
    and "str_index (concat cs) delim = Some n"
    and "xl_tokens X (take n (concat cs)) =
      pre @ StartElement data_tag as # concat (map xml_toks xs) @ EndElement data_tag # rest"
    and "\<forall>a. StartElement data_tag a \<notin> set pre"
  shows "Run_netconf X None (map (\<lambda>c. Chunk c None) cs @ evs) cmd0 s =
      (Inr (trim_space (fst (read_xmls (xl_quote X) xs))),
       s\<lparr>nc_msgID := nc_msgID s + 1, nc_sent := nc_sent s @ [buildGetConfigRPC (nc_msgID s) ds]\<rparr>) \<and>
    (list_all no_data xs \<longrightarrow> fst (read_xmls (xl_quote X) xs) = concat (map (xml_render (xl_quote X)) xs)) \<and>
    str_index (buildGetConfigRPC (nc_msgID s) ds) delim =
      Some (length (buildGetConfigRPC (nc_msgID s) ds) - length delim)"
proof (intro conjI)
  have np: "\<not> has_prefix cmd ''edit-config:''" and nb: "CHR '']'' \<notin> set ds"
    using assms(1) by (auto simp: nc_datastore_def has_prefix_def split: if_splits)
  obtain out where out: "readRPCReply [] (map (\<lambda>c. Chunk c None) cs @ evs) = Inr out"
    "before_delim out = take n (concat cs)"
    using read_chunks [of "[]" cs n evs] assms(3) by (auto simp: str_contains_def delim_simps)
  have "ParseRPCReply X out = Some (fst (read_xmls (xl_quote X) xs))"
    by (simp only: ParseRPCReply_def out(2) assms(4) parse_data [OF assms(5)])
  with out(1) np assms(1,2)
  show "Run_netconf X None (map (\<lambda>c. Chunk c None) cs @ evs) cmd0 s =
      (Inr (trim_space (fst (read_xmls (xl_quote X) xs))),
       s\<lparr>nc_msgID := nc_msgID s + 1, nc_sent := nc_sent s @ [buildGetConfigRPC (nc_msgID s) ds]\<rparr>)"
    by (simp add: Run_netconf_def nc_write_def next_msg_def)
  show "list_all no_data xs \<longrightarrow> fst (read_xmls (xl_quote X) xs) = concat (map (xml_render (xl_quote X)) xs)"
    by (simp add: read_xml_plain(2))
  have "\<not> str_contains (rpc_head (nc_msgID s) @ ''  <get-config>'' @ nl @
     ''    <source><'' @ ds @ ''/></source>'' @ nl @ ''  </get-config>'') delim"
    using head_no_bracket nb by (intro no_bracket) auto
  from one_frame [OF this delim_simps(2)]
  show "str_index (buildGetConfigRPC (nc_msgID s) ds) delim =
      Some (length (buildGetConfigRPC (nc_msgID s) ds) - length delim)"
    by (simp add: buildGetConfigRPC_def)
qed

definition demo_xml :: xml_lib where
  "demo_xml = \<lparr>xl_tokens = (\<lambda>s. [StartElement ''rpc-reply'' [], StartElement data_tag [], StartElement ''host'' [([], ''id'', ''1'')],
     CharData ''r1'', EndElement ''host'', EndElement data_tag, EndElement ''rpc-reply'']), xl_quote = (\<lambda>s. s)\<rparr>"

theorem netconf_get_config_witness:
  "fst (Run_netconf demo_xml None (map (\<lambda>c. Chunk c None) [''<rpc-reply>]]'', ''>]]>..'']) '' get-config '' \<lparr>nc_msgID = 1, nc_sent = []\<rparr>) =
     Inr ''<host id=1>r1</host>''"
proof -
  have i: "str_index (concat [''<rpc-reply>]]'', ''>]]>..'']) delim = Some 11" by code_simp
  have t: "trim_space '' get-config '' = ''get-config''" "nc_datastore ''get-config'' = Some ''running''" by code_simp+
  have x: "xl_tokens demo_xml (take 11 (concat [''<rpc-reply>]]'', ''>]]>..''])) =
      [StartElement ''rpc-reply'' []] @ StartElement data_tag [] # concat (map xml_toks [Elem ''host'' [([], ''id'', ''1'')] [Text ''r1'']]) @
      EndElement data_tag # [EndElement ''rpc-reply'']"
    by (simp add: demo_xml_def)
  have r: "trim_space (fst (read_xmls (xl_quote demo_xml) [Elem ''host'' [([], ''id'', ''1'')] [Text ''r1'']])) =
      ''<host id=1>r1</host>''" by code_simp
  have "fst (Run_netconf demo_xml None (map (\<lambda>c. Chunk c None) [''<rpc-reply>]]'', ''>]]>..''] @ []) '' get-config ''
      \<lparr>nc_msgID = 1, nc_sent = []\<rparr>) = Inr ''<host id=1>r1</host>''"
    using netconf_get_config [OF t(2,1) i x, of "[]" "\<lparr>nc_msgID = 1, nc_sent = []\<rparr>"] unfolding r
    by (simp add: data_tag_def)
  then show ?thesis by (simp only: append_Nil2)
qed

text \<open>A connection that ends inside the \<open>data\<close> element gives what arrived so far as if it were the
  whole configuration.\<close>

lemma truncated_reply_accepted:
  assumes "nc_datastore cmd = Some ds" and "trim_space cmd0 = cmd"
    and "\<not> str_contains (concat cs @ c) delim"
    and "xl_tokens X (concat cs @ c) = pre @ StartElement data_tag as # concat (map xml_toks xs)"
    and "\<forall>a. StartElement data_tag a \<notin> set pre" and "list_all no_data xs"
  shows "fst (Run_netconf X None (map (\<lambda>c. Chunk c None) cs @ Chunk c (Some EOF) # evs) cmd0 s) =
      Inr (trim_space (concat (map (xml_render (xl_quote X)) xs)))"
proof -
  have np: "\<not> has_prefix cmd ''edit-config:''"
    using assms(1) by (auto simp: nc_datastore_def has_prefix_def split: if_splits)
  have "readRPCReply [] (map (\<lambda>c. Chunk c None) cs @ Chunk c (Some EOF) # evs) = Inr (concat cs @ c)"
    using read_cut [of "[]" cs c evs] assms(3) by simp
  moreover have "before_delim (concat cs @ c) = concat cs @ c"
    using assms(3) by (simp add: before_delim_def flip: index_None)
  then have "ParseRPCReply X (concat cs @ c) = Some (concat (map (xml_render (xl_quote X)) xs))"
    by (simp only: ParseRPCReply_def assms(4) parse_data [OF assms(5)] read_xml_plain(2) [OF assms(6)] fst_conv)
  ultimately show ?thesis
    using np assms(1,2) by (simp add: Run_netconf_def nc_write_def next_msg_def)
qed

section \<open>Edits\<close>

text \<open>The standard encoding uses its alphabet and the pad only, in groups of four.\<close>

lemma b64_char_in: "n < 64 \<Longrightarrow> b64_char n \<in> set b64_alphabet"
  using b64_distinct(2) by (simp add: b64_char_def)

lemma base64_shape: "set (base64 s) \<subseteq> set b64_alphabet \<union> {CHR ''=''} \<and> length (base64 s) mod 4 = 0 \<and>
    (\<exists>p. base64 s = map b64_char (b64_digits s) @ p \<and> (p = [] \<or> p = [CHR ''=''] \<or> p = [CHR ''='', CHR ''='']))"
proof (induction s rule: base64.induct)
  case (4 a b c s)
  then obtain p where p: "base64 s = map b64_char (b64_digits s) @ p"
    "p = [] \<or> p = [CHR ''=''] \<or> p = [CHR ''='', CHR ''='']" by blast
  have "length (base64 (a # b # c # s)) mod 4 = 0"
    using 4 by simp
  with 4 p show ?case by (auto simp: b64_char_in b64_digits_less)
qed (auto simp: b64_char_in b64_digits_less)

lemma alphabet_clean:
  "list_all (\<lambda>x. x \<noteq> CHR 0x0A \<and> x \<noteq> CHR 0x0D \<and> x \<noteq> CHR '':'') (CHR ''='' # b64_alphabet)"
  by code_simp

lemma base64_in: "x \<in> set (base64 s) \<Longrightarrow> x \<in> set (CHR ''='' # b64_alphabet)"
  using base64_shape [of s] by auto

lemma base64_clean: "x \<in> set (base64 s) \<Longrightarrow> x \<noteq> CHR 0x0A \<and> x \<noteq> CHR 0x0D \<and> x \<noteq> CHR '':''"
  using alphabet_clean base64_in [of x s] unfolding list_all_iff by blast

lemma base64_decode_base64 [simp]: "base64_decode (base64 s) = Some s"
proof -
  obtain p where p: "base64 s = map b64_char (b64_digits s) @ p"
    "p = [] \<or> p = [CHR ''=''] \<or> p = [CHR ''='', CHR ''='']"
    using base64_shape [of s] by blast
  have m: "length (base64 s) mod 4 = 0" using base64_shape [of s] by blast
  have f: "filter (\<lambda>c. c \<noteq> CHR 0x0A \<and> c \<noteq> CHR 0x0D) (base64 s) = base64 s"
    using base64_clean [of _ s] by (intro filter_True) auto
  have "\<forall>c \<in> set (map b64_char (b64_digits s)). c \<noteq> CHR ''=''"
    using b64_digits_small [of _ s] by (auto simp: b64_char_pad)
  then have t: "takeWhile (\<lambda>c. c \<noteq> CHR ''='') (base64 s) = map b64_char (b64_digits s)"
    unfolding p(1) using p(2) by (subst takeWhile_append2) auto
  have d: "drop (length (map b64_char (b64_digits s))) (base64 s) = p" by (simp add: p(1))
  have "CHR 0x0A \<notin> set b64_alphabet" "CHR 0x0D \<notin> set b64_alphabet" by code_simp+
  from b64_decode_digits [OF b64_distinct(1,2) this, of s]
  have "b64_decode b64_alphabet (map b64_char (b64_digits s)) = Some s" by (simp add: b64_char_def [abs_def])
  with p(2) m show ?thesis unfolding base64_decode_def Let_def f t d by simp
qed

lemma trim_front_id:
  assumes "s \<noteq> [] \<Longrightarrow> hd s \<notin> hd ` set rs" and "[] \<notin> set rs"
  shows "trim_front n rs s = s"
proof (cases n)
  case (Suc m)
  have "\<not> has_prefix s r" if "r \<in> set rs" for r
  proof
    assume p: "has_prefix s r"
    have "r \<noteq> []" using that assms(2) by auto
    with p have "s \<noteq> []" "hd s = hd r" by (auto simp: has_prefix_iff)
    with assms(1) that show False by auto
  qed
  then have "find (\<lambda>r. has_prefix s r) rs = None" by (simp add: find_None_iff)
  with Suc show ?thesis by simp
qed simp

lemma trim_space_id:
  assumes "s \<noteq> [] \<Longrightarrow> hd s \<notin> hd ` set space_runes \<and> last s \<notin> last ` set space_runes"
  shows "trim_space s = s"
proof -
  have ne: "[] \<notin> set space_runes" "[] \<notin> set (map rev space_runes)" by (simp_all add: space_runes_def)
  have "trim_front n space_runes s = s" for n using assms ne by (intro trim_front_id) auto
  moreover have "trim_front n (map rev space_runes) (rev s) = rev s" for n
  proof (rule trim_front_id [OF _ ne(2)])
    assume "rev s \<noteq> []"
    then show "hd (rev s) \<notin> hd ` set (map rev space_runes)"
      using assms by (auto simp: hd_rev image_image)
  qed
  ultimately show ?thesis by (simp add: trim_space_def)
qed

lemma alphabet_no_space:
  "list_all (\<lambda>x. x \<notin> last ` set space_runes) (CHR '':'' # CHR ''='' # b64_alphabet)" by code_simp

lemma edit_command_trim:
  "trim_space (''edit-config:running:'' @ base64 p) = ''edit-config:running:'' @ base64 p"
proof (rule trim_space_id)
  let ?s = "''edit-config:running:'' @ base64 p"
  have "last ?s \<in> set (CHR '':'' # CHR ''='' # b64_alphabet)"
  proof (cases "base64 p = []")
    case False
    then have "last ?s \<in> set (base64 p)" by simp
    from base64_in [OF this] show ?thesis by simp
  qed simp
  then have "last ?s \<notin> last ` set space_runes" using alphabet_no_space unfolding list_all_iff by blast
  moreover have "CHR ''e'' \<notin> hd ` set space_runes" by code_simp
  ultimately show "hd ?s \<notin> hd ` set space_runes \<and> last ?s \<notin> last ` set space_runes" by simp
qed

lemma edit_command_split:
  "splitn_char 2 CHR '':'' (''running:'' @ base64 p) = [''running'', base64 p]"
proof -
  have "CHR '':'' \<notin> set (base64 p)" using base64_clean by blast
  then have "splitn_char (Suc (Suc 0)) CHR '':'' (''running'' @ CHR '':'' # base64 p) = [''running'', base64 p]"
    by (subst splitn_char_append) auto
  then show ?thesis by (simp only: append_Cons append_Nil numeral_2_eq_2)
qed

lemma parse_edit_command:
  "parseNetconfEditConfigCommand (''edit-config:running:'' @ base64 p) =
     (case validateNetconfEditPayload p of Some e \<Rightarrow> Inl e | None \<Rightarrow> Inr (''running'', p))"
proof -
  have "trim_space ''running'' = ''running''" by code_simp
  moreover have "trim_prefix (''edit-config:running:'' @ base64 p) ''edit-config:'' = ''running:'' @ base64 p"
    by (simp add: trim_prefix_def has_prefix_def)
  ultimately show ?thesis
    unfolding parseNetconfEditConfigCommand_def edit_command_trim
    by (simp add: edit_command_split del: append_Cons)
qed

text \<open>What an accepted edit puts on the wire: the payload inside one frame, and it cannot close the
  \<open>config\<close> element nor open or close an RPC.\<close>

lemma validate_ok:
  "validateNetconfEditPayload p = None \<longleftrightarrow> \<not> str_contains p delim \<and> \<not> str_contains (to_lower p) ''</config>'' \<and>
     \<not> str_contains (to_lower p) ''<rpc'' \<and> \<not> str_contains (to_lower p) ''</rpc>''"
  by (simp add: validateNetconfEditPayload_def Let_def)

lemma Run_netconf_edit:
  "Run_netconf X None evs (''edit-config:running:'' @ base64 p) s =
     (case validateNetconfEditPayload p of
        Some e \<Rightarrow> (Inl e, s)
      | None \<Rightarrow> (case readRPCReply [] evs of Inl e \<Rightarrow> Inl e | Inr reply \<Rightarrow>
            (case parseEditConfigReply reply of Some e \<Rightarrow> Inl (NcReply e) | None \<Rightarrow> Inr ''<ok/>''),
          s\<lparr>nc_msgID := nc_msgID s + 1, nc_sent := nc_sent s @ [buildEditConfigRPC (nc_msgID s) ''running'' p]\<rparr>))"
  unfolding Run_netconf_def Let_def edit_command_trim parse_edit_command
  by (simp add: has_prefix_def nc_write_def next_msg_def split: option.splits sum.splits)

end
