(* ===== verification/Sessions.thy ===== *)
theory Sessions
  imports Netconf Backup "HOL-Library.AList"
begin

text \<open>
  The sessions of the RESTCONF and gNMI drivers (\<open>internal/transport/restconf.go\<close>,
  \<open>internal/transport/gnmi.go\<close>): target addresses, commands, requests and replies, and how a
  rendered configuration reaches a device through them and through NETCONF. \<open>net/url\<close>,
  \<open>net/netip\<close>, the HTTP client, gRPC and JSON are parameters.
\<close>

section \<open>Targets\<close>

text \<open>\<open>url.Parse\<close> gives scheme, host and path; \<open>netip.ParseAddr\<close> the canonical text of an address.\<close>

record net_lib =
  nt_url :: "string \<Rightarrow> (string \<times> string \<times> string) option"
  nt_addr :: "string \<Rightarrow> string option"

datatype tgt_err = EmptyHost | EmptyAddress | BadURL | MissingHost string | BadHostPort string

definition normalizeHostPort :: "net_lib \<Rightarrow> string \<Rightarrow> int \<Rightarrow> tgt_err + string" where
  "normalizeHostPort N hostPort0 defaultPort = (let hostPort = trim_space hostPort0 in
     if hostPort = [] then Inl EmptyHost
     else (case SplitHostPort hostPort of
         Some _ \<Rightarrow> Inr hostPort
       | None \<Rightarrow> (case nt_addr N (trim_prefix (trim_suffix hostPort '']'') ''['') of
           Some ip \<Rightarrow> Inr (JoinHostPort ip (itoa defaultPort))
         | None \<Rightarrow> if CHR '':'' \<in> set hostPort then Inl (BadHostPort hostPort)
                   else Inr (JoinHostPort hostPort (itoa defaultPort)))))"

definition gnmiTarget :: "net_lib \<Rightarrow> string \<Rightarrow> int \<Rightarrow> tgt_err + string" where
  "gnmiTarget N address defaultPort = (let raw = trim_space address in
     if raw = [] then Inl EmptyAddress
     else if str_contains raw ''://'' then
       (case nt_url N raw of
          None \<Rightarrow> Inl BadURL
        | Some (_, host, _) \<Rightarrow>
            if trim_space host = [] then Inl (MissingHost raw) else normalizeHostPort N host defaultPort)
     else normalizeHostPort N raw defaultPort)"

definition restconfBaseURL :: "net_lib \<Rightarrow> string \<Rightarrow> int \<Rightarrow> tgt_err + string" where
  "restconfBaseURL N address defaultPort = (let raw = trim_space address in
     if raw = [] then Inl EmptyAddress
     else if str_contains raw ''://'' then
       (case nt_url N raw of
          None \<Rightarrow> Inl BadURL
        | Some (scheme, host, path0) \<Rightarrow>
            if trim_space host = [] then Inl (MissingHost raw)
            else (case normalizeHostPort N host defaultPort of
                Inl e \<Rightarrow> Inl e
              | Inr hostPort \<Rightarrow> (let path = trim_right_set ''/'' path0 in
                  Inr (scheme @ ''://'' @ hostPort @ (if path = [] then ''/restconf'' else path)))))
     else (let (hostPart, path) =
                 (if CHR ''/'' \<in> set raw
                  then (takeWhile (\<lambda>c. c \<noteq> CHR ''/'') raw,
                        let p = CHR ''/'' # trim_left_set ''/'' (tl (dropWhile (\<lambda>c. c \<noteq> CHR ''/'') raw))
                        in if trim_space p = ''/'' then ''/restconf'' else p)
                  else (raw, ''/restconf''))
           in case normalizeHostPort N hostPart defaultPort of
                Inl e \<Rightarrow> Inl e
              | Inr hostPort \<Rightarrow> Inr (''https://'' @ hostPort @ trim_right_set ''/'' path)))"

section \<open>RESTCONF\<close>

record RESTCONFConfig =
  rc_Address :: string
  rc_Port :: int
  rc_Username :: string
  rc_Password :: string
  rc_BearerToken :: string
  rc_Timeout :: duration
  rc_InsecureSkipVerify :: bool

record restconfSession =
  rs_baseURL :: string
  rs_username :: string
  rs_password :: string
  rs_bearerToken :: string
  rs_timeout :: duration
  rs_insecure :: bool

definition DialRESTCONF :: "net_lib \<Rightarrow> RESTCONFConfig \<Rightarrow> tgt_err + restconfSession" where
  "DialRESTCONF N cfg =
     (if rc_Address cfg = [] then Inl EmptyAddress
      else map_sum id (\<lambda>u. \<lparr>rs_baseURL = u, rs_username = rc_Username cfg, rs_password = rc_Password cfg,
          rs_bearerToken = rc_BearerToken cfg,
          rs_timeout = (if rc_Timeout cfg \<le> 0 then 30 * second else rc_Timeout cfg),
          rs_insecure = rc_InsecureSkipVerify cfg\<rparr>)
        (restconfBaseURL N (rc_Address cfg) (if rc_Port cfg = 0 then 443 else rc_Port cfg)))"

datatype rest_err =
  RestEmptySelector | RestUnsupported string | RestInvalid | RestBase64
| RestBuild string | RestRequest string | RestRead string | RestStatus int string

definition restconfPathFromCommand :: "string \<Rightarrow> rest_err + string" where
  "restconfPathFromCommand cmd = (let c = trim_space cmd in
     if c = ''get-config'' \<or> c = ''get-config:running'' then Inr ''/data''
     else if c = ''get-config:candidate'' then Inr ''/data?content=candidate''
     else if has_prefix c ''get-config:'' then
       (let p = trim_prefix c ''get-config:'' in
        if p = [] then Inl RestEmptySelector
        else Inr (if has_prefix p ''/'' then p else CHR ''/'' # p))
     else Inl (RestUnsupported c))"

text \<open>Path, body and content type.\<close>

definition restconfWritePathAndBody :: "string \<Rightarrow> rest_err + string \<times> string \<times> string" where
  "restconfWritePathAndBody cmd =
     (case splitn_char 2 CHR '':'' (trim_prefix (trim_space cmd) ''edit-config:'') of
        [p0, p1] \<Rightarrow>
          (let selector = trim_space p0 in
           case base64_decode p1 of
             None \<Rightarrow> Inl RestBase64
           | Some body \<Rightarrow> Inr
               (if selector = ''running'' then ''/data''
                else if selector = ''candidate'' then ''/data?content=candidate''
                else if has_prefix selector ''/'' then selector else CHR ''/'' # selector,
                body,
                if has_prefix (trim_space body) ''<'' then ''application/yang-data+xml''
                else ''application/yang-data+json''))
      | _ \<Rightarrow> Inl RestInvalid)"

datatype http_method = MethodGet | MethodPatch

definition restconfRequestFromCommand ::
  "string \<Rightarrow> rest_err + http_method \<times> string \<times> string \<times> string" where
  "restconfRequestFromCommand cmd = (let c = trim_space cmd in
     if has_prefix c ''edit-config:'' then map_sum id (Pair MethodPatch) (restconfWritePathAndBody c)
     else map_sum id (\<lambda>path. (MethodGet, path, [], [])) (restconfPathFromCommand c))"

datatype http_auth = NoAuth | Bearer string | Basic string string

record http_request =
  hq_method :: http_method
  hq_url :: string
  hq_body :: "string option"
  hq_content_type :: "string option"
  hq_accept :: string
  hq_auth :: http_auth

text \<open>The client: the error of building the request, of sending it, or the status and what the body
  reads as.\<close>

record http_client =
  hc_build :: "string \<Rightarrow> string option"
  hc_do :: "http_request \<Rightarrow> string + (int \<times> (string + string))"

definition restconf_request :: "restconfSession \<Rightarrow> http_method \<Rightarrow> string \<Rightarrow> string \<Rightarrow> string \<Rightarrow> http_request" where
  "restconf_request s method path body contentType =
     \<lparr>hq_method = method, hq_url = rs_baseURL s @ path,
      hq_body = (if method \<noteq> MethodGet then Some body else None),
      hq_content_type = (if method \<noteq> MethodGet then Some contentType else None),
      hq_accept = ''application/yang-data+json, application/yang-data+xml, application/json, application/xml'',
      hq_auth = (if rs_bearerToken s \<noteq> [] then Bearer (rs_bearerToken s)
                 else if rs_username s \<noteq> [] then Basic (rs_username s) (rs_password s) else NoAuth)\<rparr>"

text \<open>The result and the request that was sent, if one was.\<close>

definition Run_restconf ::
  "http_client \<Rightarrow> restconfSession \<Rightarrow> string \<Rightarrow> (rest_err + string) \<times> http_request option" where
  "Run_restconf H s cmd = (case restconfRequestFromCommand cmd of
     Inl e \<Rightarrow> (Inl e, None)
   | Inr (method, path, body, contentType) \<Rightarrow>
       (case hc_build H (rs_baseURL s @ path) of
          Some e \<Rightarrow> (Inl (RestBuild e), None)
        | None \<Rightarrow> (let req = restconf_request s method path body contentType in
            (case hc_do H req of
               Inl e \<Rightarrow> Inl (RestRequest e)
             | Inr (status, Inl e) \<Rightarrow> Inl (RestRead e)
             | Inr (status, Inr resp) \<Rightarrow>
                 if status < 200 \<or> status \<ge> 300 then Inl (RestStatus status (trim_space resp))
                 else Inr (trim_space resp), Some req))))"

section \<open>gNMI\<close>

record GNMIConfig =
  gc_Address :: string
  gc_Port :: int
  gc_Username :: string
  gc_Password :: string
  gc_BearerToken :: string
  gc_Timeout :: duration
  gc_InsecureSkipVerify :: bool

text \<open>The target and the timeout with which \<open>DialGNMI\<close> dials.\<close>

definition DialGNMI :: "net_lib \<Rightarrow> GNMIConfig \<Rightarrow> tgt_err + string \<times> duration" where
  "DialGNMI N cfg =
     (if gc_Address cfg = [] then Inl EmptyAddress
      else map_sum id (\<lambda>t. (t, if gc_Timeout cfg \<le> 0 then 30 * second else gc_Timeout cfg))
        (gnmiTarget N (gc_Address cfg) (if gc_Port cfg = 0 then 57400 else gc_Port cfg)))"

text \<open>A path is its elements' names; of a value the decoders are used that the code calls.\<close>

type_synonym gnmi_path = "string list"

datatype 'f typed_value =
  JsonIetfVal string | JsonVal string | StringVal string | IntVal int | UintVal int | BoolVal bool
| FloatVal 'f | DoubleVal 'f | BytesVal string | LeaflistVal "'f typed_value option list" | OtherVal string

datatype ('j, 'f) any =
  ANil | AJson 'j | AString string | AInt int | AUint int | ABool bool | AFloat 'f | AList "('j, 'f) any list"

datatype gnmi_err =
  GnEmptySelector | GnUnsupported | GnInvalid | GnBase64 | GnGet string | GnSet string | GnMarshal string

definition parseGNMIPath :: "string \<Rightarrow> gnmi_path" where
  "parseGNMIPath p = (let q = trim_space (trim_prefix p ''/'') in
     if q = [] then [] else filter (\<lambda>part. part \<noteq> []) (split_char CHR ''/'' q))"

definition gnmiPathToString :: "gnmi_path \<Rightarrow> string" where
  "gnmiPathToString p = (if p = [] then ''/'' else CHR ''/'' # str_join ''/'' p)"

definition joinGNMIPath :: "string \<Rightarrow> string \<Rightarrow> string" where
  "joinGNMIPath prefix path =
     (if prefix = ''/'' then path else if path = ''/'' then prefix
      else trim_right_set ''/'' prefix @ path)"

fun gnmiTypedValueToAny :: "(string \<Rightarrow> 'j option) \<Rightarrow> 'f typed_value option \<Rightarrow> ('j, 'f) any" where
  "gnmiTypedValueToAny unmarshal None = ANil"
| "gnmiTypedValueToAny unmarshal (Some (JsonIetfVal s)) =
     (case unmarshal s of Some j \<Rightarrow> AJson j | None \<Rightarrow> AString s)"
| "gnmiTypedValueToAny unmarshal (Some (JsonVal s)) =
     (case unmarshal s of Some j \<Rightarrow> AJson j | None \<Rightarrow> AString s)"
| "gnmiTypedValueToAny unmarshal (Some (StringVal s)) = AString s"
| "gnmiTypedValueToAny unmarshal (Some (IntVal i)) = AInt i"
| "gnmiTypedValueToAny unmarshal (Some (UintVal i)) = AUint i"
| "gnmiTypedValueToAny unmarshal (Some (BoolVal b)) = ABool b"
| "gnmiTypedValueToAny unmarshal (Some (FloatVal f)) = AFloat f"
| "gnmiTypedValueToAny unmarshal (Some (DoubleVal f)) = AFloat f"
| "gnmiTypedValueToAny unmarshal (Some (BytesVal s)) = AString s"
| "gnmiTypedValueToAny unmarshal (Some (LeaflistVal vs)) = AList (map (gnmiTypedValueToAny unmarshal) vs)"
| "gnmiTypedValueToAny unmarshal (Some (OtherVal s)) = AString s"

definition buildGNMIGetRequest :: "string \<Rightarrow> gnmi_err + gnmi_path" where
  "buildGNMIGetRequest cmd = (let c = trim_space cmd in
     if c = ''get-config'' \<or> c = ''get-config:running'' \<or> c = ''get-config:candidate'' then Inr []
     else if has_prefix c ''get-config:'' then
       (let e = trim_prefix c ''get-config:'' in if e = [] then Inl GnEmptySelector else Inr (parseGNMIPath e))
     else Inl GnUnsupported)"

definition parseGNMISetCommand :: "string \<Rightarrow> gnmi_err + gnmi_path \<times> string" where
  "parseGNMISetCommand cmd =
     (case splitn_char 2 CHR '':'' (trim_prefix (trim_prefix (trim_space cmd) ''edit-config:'') ''set-config:'') of
        [p0, p1] \<Rightarrow>
          (let selector = trim_space p0 in
           case base64_decode p1 of
             None \<Rightarrow> Inl GnBase64
           | Some payload \<Rightarrow>
               if selector = ''running'' \<or> selector = ''candidate'' then Inr ([], payload)
               else if selector = [] then Inl GnEmptySelector
               else Inr (parseGNMIPath selector, payload))
      | _ \<Rightarrow> Inl GnInvalid)"

text \<open>A \<open>SetRequest\<close> is its \<open>Replace\<close> updates; each value is JSON.\<close>

definition buildGNMISetRequest :: "string \<Rightarrow> gnmi_err + (gnmi_path \<times> string) list" where
  "buildGNMISetRequest cmd = map_sum id (\<lambda>u. [u]) (parseGNMISetCommand cmd)"

record 'f notification =
  gn_prefix :: gnmi_path
  gn_update :: "(gnmi_path \<times> 'f typed_value option) list"
  gn_delete :: "gnmi_path list"

text \<open>The device and JSON: the answers to \<open>Get\<close> and \<open>Set\<close> (timestamp, and path and operation of each
  result), and the two texts that are marshalled.\<close>

record ('j, 'f) gnmi_client =
  gm_get :: "gnmi_path \<Rightarrow> string + 'f notification list"
  gm_set :: "(gnmi_path \<times> string) list \<Rightarrow> string + int \<times> (gnmi_path \<times> string) list"
  gm_unmarshal :: "string \<Rightarrow> 'j option"
  gm_marshal :: "(string \<times> ('j, 'f) any) list \<Rightarrow> string + string"
  gm_marshal_set :: "int \<Rightarrow> (string \<times> string) list \<Rightarrow> string + string"

definition collect_notification ::
  "(string \<Rightarrow> 'j option) \<Rightarrow> 'f notification \<Rightarrow> (string \<times> ('j, 'f) any) list \<Rightarrow> (string \<times> ('j, 'f) any) list" where
  "collect_notification unmarshal n out =
     (let prefix = gnmiPathToString (gn_prefix n);
          out = fold (\<lambda>(p, v). AList.update (joinGNMIPath prefix (gnmiPathToString p)) (gnmiTypedValueToAny unmarshal v))
                  (gn_update n) out
      in fold (\<lambda>p. AList.update (joinGNMIPath prefix (gnmiPathToString p)) ANil) (gn_delete n) out)"

text \<open>The credentials that \<open>withGNMIAuth\<close> puts into the call's metadata.\<close>

definition withGNMIAuth :: "string \<Rightarrow> string \<Rightarrow> string \<Rightarrow> (string \<times> string) list" where
  "withGNMIAuth username password bearer =
     (if bearer \<noteq> [] then [(''authorization'', ''Bearer '' @ bearer)]
      else if username \<noteq> [] then [(''username'', username), (''password'', password)] else [])"

datatype gnmi_call = GnmiGet gnmi_path | GnmiSet "(gnmi_path \<times> string) list"

definition Run_gnmi ::
  "('j, 'f) gnmi_client \<Rightarrow> string \<Rightarrow> (gnmi_err + string) \<times> gnmi_call option" where
  "Run_gnmi G cmd0 = (let cmd = trim_space cmd0 in
     if has_prefix cmd ''get-config'' then
       (case buildGNMIGetRequest cmd of
          Inl e \<Rightarrow> (Inl e, None)
        | Inr path \<Rightarrow>
            (case gm_get G path of
               Inl e \<Rightarrow> Inl (GnGet e)
             | Inr ns \<Rightarrow> map_sum GnMarshal id (gm_marshal G (fold (collect_notification (gm_unmarshal G)) ns [])),
             Some (GnmiGet path)))
     else if has_prefix cmd ''edit-config:'' \<or> has_prefix cmd ''set-config:'' then
       (case buildGNMISetRequest cmd of
          Inl e \<Rightarrow> (Inl e, None)
        | Inr req \<Rightarrow>
            (case gm_set G req of
               Inl e \<Rightarrow> Inl (GnSet e)
             | Inr (ts, rs) \<Rightarrow> map_sum GnMarshal id
                 (gm_marshal_set G ts (map (\<lambda>(p, op). (gnmiPathToString p, op)) rs)),
             Some (GnmiSet req)))
     else (Inl GnUnsupported, None))"

section \<open>A rendered configuration reaches the device\<close>

text \<open>The first occurrence of a pattern whose first character does not come again in it.\<close>

lemma index_pattern:
  assumes "h \<notin> set p" and "\<not> str_contains a (h # p)"
  shows "str_index (a @ (h # p) @ b) (h # p) = Some (length a)"
  using assms(2)
proof (induction a)
  case Nil
  show ?case by (cases p) (simp_all add: has_prefix_def)
next
  case (Cons x a)
  have "\<not> has_prefix ((x # a) @ (h # p) @ b) (h # p)"
  proof
    assume "has_prefix ((x # a) @ (h # p) @ b) (h # p)"
    then have t: "take (length (h # p)) ((x # a) @ (h # p) @ b) = h # p" by (simp add: has_prefix_def)
    show False
    proof (cases "length (h # p) \<le> length (x # a)")
      case True
      then have "take (length (h # p)) ((x # a) @ (h # p) @ b) = take (length (h # p)) (x # a)"
        by (simp only: take_append) simp
      with t have "has_prefix (x # a) (h # p)" by (simp add: has_prefix_def)
      with Cons.prems show False by (simp add: contains_Cons)
    next
      case False
      then have "(h # p) ! length (x # a) = ((x # a) @ (h # p) @ b) ! length (x # a)"
        using arg_cong [OF t, of "\<lambda>l. l ! length (x # a)"] nth_take [of "length (x # a)" "length (h # p)" "(x # a) @ (h # p) @ b"]
        by simp
      also have "\<dots> = h" by (simp add: nth_append)
      finally have "p ! length a = h" by simp
      moreover have "length a < length p" using False by simp
      ultimately show False using assms(1) nth_mem by blast
    qed
  qed
  with Cons show ?case by (simp add: contains_Cons)
qed

lemma lower_contains: "str_contains s p \<Longrightarrow> to_lower p = p \<Longrightarrow> str_contains (to_lower s) p"
  by (auto simp: str_contains_iff to_lower_def) metis

lemma payload_closed:
  assumes "validateNetconfEditPayload cfg = None"
  shows "str_index (cfg @ ''</config>'' @ b) ''</config>'' = Some (length cfg)"
proof -
  have "to_lower ''</config>'' = ''</config>''" by code_simp
  with assms have "\<not> str_contains cfg ''</config>''" by (auto simp: validate_ok dest: lower_contains)
  from index_pattern [OF _ this] show ?thesis by simp
qed

lemma write_path:
  "restconfRequestFromCommand (''edit-config:running:'' @ base64 cfg) =
     Inr (MethodPatch, ''/data'', cfg, if has_prefix (trim_space cfg) ''<'' then ''application/yang-data+xml''
       else ''application/yang-data+json'')"
proof -
  have "trim_space ''running'' = ''running''" by code_simp
  moreover have "trim_prefix (''edit-config:running:'' @ base64 cfg) ''edit-config:'' = ''running:'' @ base64 cfg"
    "has_prefix (''edit-config:running:'' @ base64 cfg) ''edit-config:''"
    by (simp_all add: trim_prefix_def has_prefix_def)
  ultimately show ?thesis
    unfolding restconfRequestFromCommand_def Let_def restconfWritePathAndBody_def edit_command_trim
    by (simp add: edit_command_split del: append_Cons)
qed

lemma gnmi_set_command:
  "buildGNMISetRequest (''edit-config:running:'' @ base64 cfg) = Inr [([], cfg)]"
proof -
  have "trim_space ''running'' = ''running''" by code_simp
  moreover have "trim_prefix (''edit-config:running:'' @ base64 cfg) ''edit-config:'' = ''running:'' @ base64 cfg"
    "trim_prefix (''running:'' @ base64 cfg) ''set-config:'' = ''running:'' @ base64 cfg"
    by (simp_all add: trim_prefix_def has_prefix_def)
  ultimately show ?thesis
    unfolding buildGNMISetRequest_def parseGNMISetCommand_def edit_command_trim
    by (simp add: edit_command_split del: append_Cons)
qed

text \<open>A rendered configuration reaches the device as it was rendered. The command that a push
  builds for the structured drivers is read back by their sessions: NETCONF refuses a text that could
  leave its place in the message and otherwise sends one frame whose \<open>config\<close> element, up to its first
  end tag, is the text; RESTCONF patches \<open>/data\<close> with the text, and gNMI replaces the root with it.\<close>
theorem rendered_config_arrives:
  "(if validateNetconfEditPayload cfg = None
    then nc_sent (snd (Run_netconf X None evs (applyCommandForDriver ''cisco_netconf'' cfg) n)) =
           nc_sent n @ [buildEditConfigRPC (nc_msgID n) ''running'' cfg] \<and>
         str_index (buildEditConfigRPC (nc_msgID n) ''running'' cfg) delim =
           Some (length (buildEditConfigRPC (nc_msgID n) ''running'' cfg) - length delim) \<and>
         (\<exists>pre rest. buildEditConfigRPC (nc_msgID n) ''running'' cfg = pre @ ''<config>'' @ cfg @ rest \<and>
            str_index (cfg @ rest) ''</config>'' = Some (length cfg))
    else snd (Run_netconf X None evs (applyCommandForDriver ''cisco_netconf'' cfg) n) = n) \<and>
   applyCommandForDriver ''junos_netconf'' cfg = applyCommandForDriver ''cisco_netconf'' cfg \<and>
   snd (Run_restconf H r (applyCommandForDriver ''restconf'' cfg)) =
     (if hc_build H (rs_baseURL r @ ''/data'') = None
      then Some (restconf_request r MethodPatch ''/data'' cfg
        (if has_prefix (trim_space cfg) ''<'' then ''application/yang-data+xml'' else ''application/yang-data+json''))
      else None) \<and>
   snd (Run_gnmi G (applyCommandForDriver ''gnmi'' cfg)) = Some (GnmiSet [([], cfg)])"
proof (intro conjI)
  have a: "applyCommandForDriver ''cisco_netconf'' cfg = ''edit-config:running:'' @ base64 cfg"
    "applyCommandForDriver ''junos_netconf'' cfg = ''edit-config:running:'' @ base64 cfg"
    "applyCommandForDriver ''restconf'' cfg = ''edit-config:running:'' @ base64 cfg"
    "applyCommandForDriver ''gnmi'' cfg = ''edit-config:running:'' @ base64 cfg"
    by (simp_all add: applyCommandForDriver_def)
  show "if validateNetconfEditPayload cfg = None
    then nc_sent (snd (Run_netconf X None evs (applyCommandForDriver ''cisco_netconf'' cfg) n)) =
           nc_sent n @ [buildEditConfigRPC (nc_msgID n) ''running'' cfg] \<and>
         str_index (buildEditConfigRPC (nc_msgID n) ''running'' cfg) delim =
           Some (length (buildEditConfigRPC (nc_msgID n) ''running'' cfg) - length delim) \<and>
         (\<exists>pre rest. buildEditConfigRPC (nc_msgID n) ''running'' cfg = pre @ ''<config>'' @ cfg @ rest \<and>
            str_index (cfg @ rest) ''</config>'' = Some (length cfg))
    else snd (Run_netconf X None evs (applyCommandForDriver ''cisco_netconf'' cfg) n) = n"
  proof (cases "validateNetconfEditPayload cfg")
    case None
    let ?pre = "rpc_head (nc_msgID n) @ ''  <edit-config>'' @ nl @ ''    <target><'' @ ''running'' @ ''/></target>'' @ nl @ ''    ''"
    have "buildEditConfigRPC (nc_msgID n) ''running'' cfg =
        ?pre @ ''<config>'' @ cfg @ (''</config>'' @ nl @ ''  </edit-config>'' @ nl @ rpc_tail)"
      by (simp add: buildEditConfigRPC_def)
    then have "\<exists>pre rest. buildEditConfigRPC (nc_msgID n) ''running'' cfg = pre @ ''<config>'' @ cfg @ rest \<and>
        str_index (cfg @ rest) ''</config>'' = Some (length cfg)"
      using payload_closed [OF None] by blast
    moreover have "str_index (buildEditConfigRPC (nc_msgID n) ''running'' cfg) delim =
        Some (length (buildEditConfigRPC (nc_msgID n) ''running'' cfg) - length delim)"
      using None by (intro edit_frame) (simp_all add: validate_ok)
    moreover have "nc_sent (snd (Run_netconf X None evs (applyCommandForDriver ''cisco_netconf'' cfg) n)) =
        nc_sent n @ [buildEditConfigRPC (nc_msgID n) ''running'' cfg]"
      unfolding a Run_netconf_edit None by simp
    ultimately show ?thesis
      unfolding None by (simp only: simp_thms if_True)
  next
    case (Some e)
    then show ?thesis unfolding a Run_netconf_edit by simp
  qed
  show "applyCommandForDriver ''junos_netconf'' cfg = applyCommandForDriver ''cisco_netconf'' cfg" unfolding a ..
  show "snd (Run_restconf H r (applyCommandForDriver ''restconf'' cfg)) =
     (if hc_build H (rs_baseURL r @ ''/data'') = None
      then Some (restconf_request r MethodPatch ''/data'' cfg
        (if has_prefix (trim_space cfg) ''<'' then ''application/yang-data+xml'' else ''application/yang-data+json''))
      else None)"
    unfolding a Run_restconf_def write_path by (simp add: Let_def split: option.splits)
  have "\<not> has_prefix (''edit-config:running:'' @ base64 cfg) ''get-config''"
    "has_prefix (''edit-config:running:'' @ base64 cfg) ''edit-config:''"
    by (simp_all add: has_prefix_def)
  then show "snd (Run_gnmi G (applyCommandForDriver ''gnmi'' cfg)) = Some (GnmiSet [([], cfg)])"
    unfolding a Run_gnmi_def Let_def edit_command_trim gnmi_set_command by simp
qed

section \<open>gNMI paths\<close>

text \<open>A path whose names are not empty, hold no slash and do not start or end with a space reads back.\<close>

lemma gnmi_path_roundtrip:
  assumes "\<forall>e \<in> set p. e \<noteq> [] \<and> CHR ''/'' \<notin> set e" and "trim_space (str_join ''/'' p) = str_join ''/'' p"
  shows "parseGNMIPath (gnmiPathToString p) = p"
proof (cases p)
  case Nil
  have "parseGNMIPath (gnmiPathToString []) = []" by code_simp
  with Nil show ?thesis by simp
next
  case (Cons e es)
  have s: "split_char CHR ''/'' (str_join ''/'' p) = p"
    using assms(1) Cons by (intro split_char_join) auto
  have "str_join ''/'' p \<noteq> []" using assms(1) Cons by (cases es) auto
  moreover have "filter (\<lambda>part. part \<noteq> []) p = p" using assms(1) by (auto intro: filter_True)
  ultimately show ?thesis
    using Cons s assms(2)
    by (simp add: parseGNMIPath_def gnmiPathToString_def trim_prefix_def has_prefix_def)
qed

end
