(* ===== verification/Drivers.thy ===== *)
theory Drivers
  imports ConfigStore "HOL-Library.List_Lexorder" "HOL-Library.Char_ord"
begin

text \<open>
  The device drivers (\<open>internal/drivers/driver.go\<close>, \<open>internal/drivers/builtin/builtin.go\<close>): the
  registry and the command dialogues of the shipped drivers. A session is a transition function:
  a command and the session's state give an answer or an error and the next state.
\<close>

type_synonym 's session = "string \<Rightarrow> 's \<Rightarrow> (string + string) \<times> 's"
type_synonym 's driver = "'s session \<Rightarrow> 's \<Rightarrow> (string + Artifact list) \<times> 's"

section \<open>Dialogues\<close>

text \<open>A command whose error ends the fetch under a label, and one whose error is ignored.\<close>

definition ask :: "'s session \<Rightarrow> string \<Rightarrow> string \<Rightarrow> (string \<Rightarrow> 's \<Rightarrow> (string + 'r) \<times> 's) \<Rightarrow> 's \<Rightarrow> (string + 'r) \<times> 's" where
  "ask run label cmd k s = (case run cmd s of
     (Inl e, s) \<Rightarrow> (Inl (label @ '': '' @ e), s) | (Inr out, s) \<Rightarrow> k out s)"

definition ask_quiet :: "'s session \<Rightarrow> string \<Rightarrow> ('s \<Rightarrow> (string + 'r) \<times> 's) \<Rightarrow> 's \<Rightarrow> (string + 'r) \<times> 's" where
  "ask_quiet run cmd k s = k (snd (run cmd s))"

definition newline :: string where "newline = [CHR 0x0A]"

text \<open>\<open>strings.TrimRight(s, "\n") + "\n"\<close>.\<close>

definition one_newline :: "string \<Rightarrow> string" where
  "one_newline s = trim_right_set newline s @ newline"

definition art :: "string \<Rightarrow> string \<Rightarrow> Artifact" where
  "art name content = \<lparr>a_Name = name, a_Content = content\<rparr>"

definition chrome_line :: "string \<Rightarrow> bool" where
  "chrome_line line = (let t = trim_space line in
     has_prefix t ''Building configuration'' \<or> has_prefix t ''Current configuration '' \<or>
     has_prefix t ''Last configuration change'' \<or> has_prefix t ''! Last configuration change'' \<or>
     has_prefix t ''! NVRAM config last updated'')"

definition stripIOSChrome :: "string \<Rightarrow> string" where
  "stripIOSChrome raw = one_newline (concat (map (\<lambda>l. l @ newline)
     (filter (\<lambda>l. \<not> chrome_line l) (split_char CHR 0x0A raw))))"

section \<open>The shipped drivers\<close>

definition ciscoIOS :: "'s driver" where
  "ciscoIOS run =
     ask run ''cisco_ios: terminal length'' ''terminal length 0'' (\<lambda>_.
     ask run ''cisco_ios: show running-config'' ''show running-config'' (\<lambda>running s.
     (case run ''show startup-config'' s of
        (Inl e, s) \<Rightarrow> (Inr [art ''running-config'' (stripIOSChrome running)], s)
      | (Inr startup, s) \<Rightarrow> (Inr [art ''running-config'' (stripIOSChrome running),
                                art ''startup-config'' (stripIOSChrome startup)], s))))"

definition ciscoNXOS :: "'s driver" where
  "ciscoNXOS run =
     ask run ''cisco_nxos: terminal length'' ''terminal length 0'' (\<lambda>_.
     ask run ''cisco_nxos: show running-config'' ''show running-config'' (\<lambda>running s.
     (case run ''show startup-config'' s of
        (Inl e, s) \<Rightarrow> (Inr [art ''running-config'' (stripIOSChrome running)], s)
      | (Inr startup, s) \<Rightarrow> (Inr ([art ''running-config'' (stripIOSChrome running)] @
                                [art ''startup-config'' (stripIOSChrome startup)]), s))))"

definition aristaEOS :: "'s driver" where
  "aristaEOS run =
     ask run ''arista_eos: terminal length'' ''terminal length 0'' (\<lambda>_.
     ask run ''arista_eos: show running-config'' ''show running-config'' (\<lambda>out s. (Inr [art ''running-config'' (one_newline out)], s)))"

definition ciscoIOSXR :: "'s driver" where
  "ciscoIOSXR run =
     ask run ''cisco_iosxr: terminal length'' ''terminal length 0'' (\<lambda>_.
     ask run ''cisco_iosxr: show running-config'' ''show running-config'' (\<lambda>out s. (Inr [art ''running-config'' (stripIOSChrome out)], s)))"

definition bdcomOS :: "'s driver" where
  "bdcomOS run =
     ask run ''bdcom_os: terminal length'' ''terminal length 0'' (\<lambda>_.
     ask run ''bdcom_os: show running-config'' ''show running-config'' (\<lambda>out s. (Inr [art ''running-config'' (stripIOSChrome out)], s)))"

definition vsolOS :: "'s driver" where
  "vsolOS run =
     ask_quiet run ''enable'' (
     ask run ''vsol_os: terminal length'' ''terminal length 0'' (\<lambda>_.
     ask run ''vsol_os: show running-config'' ''show running-config'' (\<lambda>out s. (Inr [art ''running-config'' (stripIOSChrome out)], s))))"

definition dbcOS :: "'s driver" where
  "dbcOS run =
     ask_quiet run ''enable'' (
     ask run ''dbc_os: terminal length'' ''terminal length 0'' (\<lambda>_.
     ask run ''dbc_os: show running-config'' ''show running-config'' (\<lambda>out s. (Inr [art ''running-config'' (stripIOSChrome out)], s))))"

definition nokiaSROS :: "'s driver" where
  "nokiaSROS run =
     ask run ''nokia_sros: environment no more'' ''environment no more'' (\<lambda>_.
     ask run ''nokia_sros: admin display-config'' ''admin display-config'' (\<lambda>out s. (Inr [art ''running-config'' (one_newline out)], s)))"

definition junosCLI :: "'s driver" where
  "junosCLI run =
     ask run ''junos_cli: screen-length'' ''set cli screen-length 0'' (\<lambda>_.
     ask run ''junos_cli: show configuration'' ''show configuration | display set | no-more'' (\<lambda>out s. (Inr [art ''configuration'' (one_newline out)], s)))"

definition mikrotikROS :: "'s driver" where
  "mikrotikROS run =
     ask run ''mikrotik_routeros: /export'' ''/export'' (\<lambda>out s. (Inr [art ''export'' (one_newline out)], s))"

definition fortiosDriver :: "'s driver" where
  "fortiosDriver run =
     ask_quiet run ''config system console'' (
     ask_quiet run ''set output standard'' (
     ask_quiet run ''end'' (
     ask run ''fortios: show full-configuration'' ''show full-configuration'' (\<lambda>out s. (Inr [art ''running-config'' (one_newline out)], s)))))"

definition paloaltoPANOS :: "'s driver" where
  "paloaltoPANOS run =
     ask run ''paloalto_panos: set cli pager off'' ''set cli pager off'' (\<lambda>_.
     ask run ''paloalto_panos: show config running'' ''show config running'' (\<lambda>out s. (Inr [art ''running-config'' (one_newline out)], s)))"

definition huaweiVRP :: "'s driver" where
  "huaweiVRP run =
     ask run ''huawei_vrp: screen-length'' ''screen-length 0 temporary'' (\<lambda>_.
     ask run ''huawei_vrp: display current-configuration'' ''display current-configuration'' (\<lambda>out s. (Inr [art ''running-config'' (one_newline out)], s)))"

definition genericSSH :: "'s driver" where
  "genericSSH run s = (case run ''show configuration'' s of
     (Inr out, s) \<Rightarrow> (Inr [art ''configuration'' (one_newline out)], s)
   | (Inl _, s) \<Rightarrow> ask run ''generic_ssh: no usable show command'' ''show running-config''
       (\<lambda>out s. (Inr [art ''configuration'' (one_newline out)], s)) s)"

definition genericTelnet :: "'s driver" where
  "genericTelnet run s = (case run ''show configuration'' s of
     (Inr out, s) \<Rightarrow> (Inr [art ''configuration'' (one_newline out)], s)
   | (Inl _, s) \<Rightarrow> ask run ''generic_telnet: no usable show command'' ''show running-config''
       (\<lambda>out s. (Inr [art ''configuration'' (one_newline out)], s)) s)"

definition ciscoNetconf :: "'s driver" where
  "ciscoNetconf run = ask run ''cisco_netconf: get-config'' ''get-config:running'' (\<lambda>cfg s.
     if cfg = [] then (Inl ''cisco_netconf: empty config returned'', s)
     else (Inr [art ''netconf-config'' (one_newline cfg)], s))"

definition restconfDriver :: "'s driver" where
  "restconfDriver run = ask run ''restconf: get-config'' ''get-config:running'' (\<lambda>cfg s.
     if cfg = [] then (Inl ''restconf: empty config returned'', s)
     else (Inr [art ''restconf-config'' (one_newline cfg)], s))"

definition gnmiDriver :: "'s driver" where
  "gnmiDriver run = ask run ''gnmi: get-config'' ''get-config:running'' (\<lambda>cfg s.
     if cfg = [] then (Inl ''gnmi: empty config returned'', s)
     else (Inr [art ''gnmi-config'' (one_newline cfg)], s))"

definition junosNetconf :: "'s driver" where
  "junosNetconf run = ask run ''junos_netconf: get-config running'' ''get-config:running'' (\<lambda>running s.
     (case run ''get-config:candidate'' s of
        (Inl e, s) \<Rightarrow> (Inr [art ''netconf-running'' (one_newline running)], s)
      | (Inr candidate, s) \<Rightarrow> (Inr ([art ''netconf-running'' (one_newline running)] @
          (if candidate \<noteq> [] then [art ''netconf-candidate'' (one_newline candidate)] else [])), s)))"

section \<open>The registry\<close>

text \<open>\<open>Register\<close> panics on a name it has; \<open>None\<close> is the panic.\<close>

definition Register :: "string \<times> 'd \<Rightarrow> (string \<times> 'd) list \<Rightarrow> (string \<times> 'd) list option" where
  "Register d reg = (if fst d \<in> fst ` set reg then None else Some (reg @ [d]))"

fun register_all :: "(string \<times> 'd) list \<Rightarrow> (string \<times> 'd) list \<Rightarrow> (string \<times> 'd) list option" where
  "register_all [] reg = Some reg"
| "register_all (d # ds) reg = (case Register d reg of None \<Rightarrow> None | Some reg \<Rightarrow> register_all ds reg)"

definition GetDriver :: "string \<Rightarrow> (string \<times> 'd) list \<Rightarrow> string + 'd" where
  "GetDriver name reg = (case map_of reg name of
     None \<Rightarrow> Inl (''drivers: unknown driver '' @ [CHR 0x22] @ name @ [CHR 0x22]) | Some d \<Rightarrow> Inr d)"

definition ListDrivers :: "(string \<times> 'd) list \<Rightarrow> string list" where
  "ListDrivers reg = sort (map fst reg)"

definition builtin_drivers :: "(string \<times> 's driver) list" where
  "builtin_drivers =
     [(''cisco_ios'', ciscoIOS), (''cisco_nxos'', ciscoNXOS), (''cisco_iosxr'', ciscoIOSXR),
      (''arista_eos'', aristaEOS), (''junos_cli'', junosCLI), (''mikrotik_routeros'', mikrotikROS),
      (''nokia_sros'', nokiaSROS), (''bdcom_os'', bdcomOS), (''vsol_os'', vsolOS), (''dbc_os'', dbcOS),
      (''generic_ssh'', genericSSH), (''generic_telnet'', genericTelnet),
      (''fortios'', fortiosDriver), (''paloalto_panos'', paloaltoPANOS), (''huawei_vrp'', huaweiVRP),
      (''cisco_netconf'', ciscoNetconf), (''junos_netconf'', junosNetconf),
      (''restconf'', restconfDriver), (''gnmi'', gnmiDriver)]"

text \<open>What \<open>init\<close> leaves in the registry.\<close>

definition builtin_init :: "(string \<times> 's driver) list option" where
  "builtin_init = register_all builtin_drivers []"

text \<open>The session of the driver tests: a fixed answer per command, and the commands it was given.\<close>

definition fake_Run :: "(string \<times> string) list \<Rightarrow> string list session" where
  "fake_Run responses cmd calls = (case map_of responses cmd of
     Some r \<Rightarrow> (Inr r, calls @ [cmd])
   | None \<Rightarrow> (Inl (''fakesession: no response registered for '' @ [CHR 0x22] @ cmd @ [CHR 0x22]), calls @ [cmd]))"

section \<open>What a driver returns\<close>

definition clean_text :: "string \<Rightarrow> bool" where
  "clean_text c \<longleftrightarrow> (\<exists>b. c = b @ newline \<and> (b = [] \<or> last b \<noteq> CHR 0x0A))"

definition good_fetch :: "string \<Rightarrow> (string + Artifact list) \<times> 's \<Rightarrow> bool" where
  "good_fetch name m = (case fst m of
     Inl e \<Rightarrow> has_prefix e (name @ '': '')
   | Inr as \<Rightarrow> as \<noteq> [] \<and> distinct (map a_Name as) \<and>
       list_all (\<lambda>a. a_Name a \<noteq> [] \<and> artifact_name_ok (a_Name a) \<and> clean_text (a_Content a)) as)"

lemma trim_right_last: "trim_right_set cs s = [] \<or> last (trim_right_set cs s) \<notin> set cs"
proof (cases "dropWhile (\<lambda>x. x \<in> set cs) (rev s)")
  case (Cons x xs)
  then have "x \<notin> set cs" by (metis hd_dropWhile list.distinct(1) list.sel(1))
  with Cons show ?thesis by (simp add: trim_right_set_def)
qed (simp add: trim_right_set_def)

lemma clean_one_newline [simp]: "clean_text (one_newline s)"
  using trim_right_last [of newline s] by (auto simp: clean_text_def one_newline_def newline_def)

lemma clean_strip [simp]: "clean_text (stripIOSChrome raw)"
  by (simp add: stripIOSChrome_def)

lemma art_simps [simp]: "a_Name (art n c) = n" "a_Content (art n c) = c"
  by (simp_all add: art_def)

lemma good_ask:
  assumes "has_prefix label (name @ '': '')" and "\<And>out s. good_fetch name (k out s)"
  shows "good_fetch name (ask run label cmd k s)"
proof (cases "run cmd s")
  case (Pair r s')
  from assms(1) obtain t where "label = (name @ '': '') @ t" by (auto simp: has_prefix_iff)
  then have "has_prefix (label @ x) (name @ '': '')" for x by (simp add: has_prefix_iff)
  with Pair assms(2) show ?thesis by (cases r) (auto simp: ask_def good_fetch_def)
qed

lemma good_ask_quiet: "(\<And>s. good_fetch name (k s)) \<Longrightarrow> good_fetch name (ask_quiet run cmd k s)"
  by (simp add: ask_quiet_def)

lemma builtin_names_ok:
  "artifact_name_ok ''running-config''" "artifact_name_ok ''startup-config''" "artifact_name_ok ''configuration''"
  "artifact_name_ok ''export''" "artifact_name_ok ''netconf-config''" "artifact_name_ok ''netconf-running''"
  "artifact_name_ok ''netconf-candidate''" "artifact_name_ok ''restconf-config''" "artifact_name_ok ''gnmi-config''"
  by code_simp+

lemma good_one: "n \<noteq> [] \<Longrightarrow> artifact_name_ok n \<Longrightarrow> clean_text c \<Longrightarrow> good_fetch name (Inr [art n c], s)"
  by (simp add: good_fetch_def)

lemma good_two: "n \<noteq> [] \<Longrightarrow> artifact_name_ok n \<Longrightarrow> clean_text c \<Longrightarrow> m \<noteq> [] \<Longrightarrow> artifact_name_ok m \<Longrightarrow> clean_text d \<Longrightarrow>
   n \<noteq> m \<Longrightarrow> good_fetch name (Inr [art n c, art m d], s)"
  by (simp add: good_fetch_def)

lemma good_error: "has_prefix e (name @ '': '') \<Longrightarrow> good_fetch name (Inl e, s)"
  by (simp add: good_fetch_def)

lemmas good_intros = good_ask good_ask_quiet good_one good_two good_error builtin_names_ok

lemma good_startup:
  "good_fetch name (case run c s of (Inl e, s) \<Rightarrow> (Inr [art ''running-config'' (stripIOSChrome running)], s)
     | (Inr startup, s) \<Rightarrow> (Inr [art ''running-config'' (stripIOSChrome running),
          art ''startup-config'' (stripIOSChrome startup)], s))"
  by (auto split: prod.splits sum.splits intro!: good_intros)

lemma good_paged:
  "good_fetch ''cisco_ios'' (ciscoIOS run s)" "good_fetch ''cisco_nxos'' (ciscoNXOS run s)"
  "good_fetch ''cisco_iosxr'' (ciscoIOSXR run s)" "good_fetch ''arista_eos'' (aristaEOS run s)"
  "good_fetch ''junos_cli'' (junosCLI run s)" "good_fetch ''mikrotik_routeros'' (mikrotikROS run s)"
  "good_fetch ''nokia_sros'' (nokiaSROS run s)" "good_fetch ''bdcom_os'' (bdcomOS run s)"
  unfolding ciscoIOS_def ciscoNXOS_def ciscoIOSXR_def aristaEOS_def junosCLI_def mikrotikROS_def
    nokiaSROS_def bdcomOS_def append_Cons append_Nil
  by (auto intro!: good_intros good_startup simp: has_prefix_def)

lemma good_quiet:
  "good_fetch ''vsol_os'' (vsolOS run s)" "good_fetch ''dbc_os'' (dbcOS run s)"
  "good_fetch ''fortios'' (fortiosDriver run s)" "good_fetch ''paloalto_panos'' (paloaltoPANOS run s)"
  "good_fetch ''huawei_vrp'' (huaweiVRP run s)"
  unfolding vsolOS_def dbcOS_def fortiosDriver_def paloaltoPANOS_def huaweiVRP_def
  by (auto intro!: good_intros simp: has_prefix_def)

lemma good_structured:
  "good_fetch ''generic_ssh'' (genericSSH run s)" "good_fetch ''generic_telnet'' (genericTelnet run s)"
  "good_fetch ''cisco_netconf'' (ciscoNetconf run s)" "good_fetch ''restconf'' (restconfDriver run s)"
  "good_fetch ''gnmi'' (gnmiDriver run s)" "good_fetch ''junos_netconf'' (junosNetconf run s)"
  unfolding genericSSH_def genericTelnet_def ciscoNetconf_def restconfDriver_def gnmiDriver_def junosNetconf_def
  by (auto intro!: good_intros split: prod.splits sum.splits simp: has_prefix_def)

text \<open>What a backup gets from a driver: with any session, a shipped driver either reports an error
  that carries its name, or returns at least one artefact, with distinct names that the configuration
  store accepts and contents that end in exactly one newline.\<close>
theorem builtin_fetch:
  assumes "(name, d) \<in> set builtin_drivers"
  shows "case fst (d run s) of
     Inl e \<Rightarrow> has_prefix e (name @ '': '')
   | Inr as \<Rightarrow> as \<noteq> [] \<and> distinct (map a_Name as) \<and>
       list_all (\<lambda>a. a_Name a \<noteq> [] \<and> artifact_name_ok (a_Name a) \<and> clean_text (a_Content a)) as"
  using assms good_paged good_quiet good_structured
  unfolding builtin_drivers_def good_fetch_def by fastforce

theorem builtin_fetch_witness:
  "\<exists>as. fst (ciscoIOS (fake_Run [(''terminal length 0'', []), (''show running-config'', ''hostname r1'')]) []) = Inr as \<and>
     as \<noteq> [] \<and> distinct (map a_Name as)"
proof -
  let ?r = "ciscoIOS (fake_Run [(''terminal length 0'', []), (''show running-config'', ''hostname r1'')]) []"
  have "\<not> isl (fst ?r)" by code_simp
  then obtain as where as: "fst ?r = Inr as" by (cases "fst ?r") auto
  have "(''cisco_ios'', ciscoIOS) \<in> set (builtin_drivers :: (string \<times> string list driver) list)" by (simp add: builtin_drivers_def)
  from builtin_fetch [OF this, of "fake_Run [(''terminal length 0'', []), (''show running-config'', ''hostname r1'')]" "[]"] as
  show ?thesis by simp
qed

text \<open>No two drivers share a name, so \<open>init\<close> does not panic, and each is found under its name.\<close>

lemma register_all_distinct:
  "distinct (map fst ds) \<Longrightarrow> fst ` set ds \<inter> fst ` set reg = {} \<Longrightarrow> register_all ds reg = Some (reg @ ds)"
proof (induction ds arbitrary: reg)
  case (Cons d ds)
  then show ?case by (auto simp: Register_def)
qed simp

lemma builtin_init_ok: "builtin_init = Some builtin_drivers"
proof -
  have "map fst (builtin_drivers :: (string \<times> 'a driver) list) = map fst (builtin_drivers :: (string \<times> unit driver) list)"
    by (simp add: builtin_drivers_def)
  moreover have "distinct (map fst (builtin_drivers :: (string \<times> unit driver) list))" by code_simp
  ultimately have "distinct (map fst (builtin_drivers :: (string \<times> 'a driver) list))" by (simp only:)
  then show ?thesis by (simp add: builtin_init_def register_all_distinct)
qed

section \<open>Stripping is stable\<close>

text \<open>The lines that carry configuration: those that are kept, without the blank lines at the end.\<close>

definition config_lines :: "string \<Rightarrow> string list" where
  "config_lines raw = rev (dropWhile (\<lambda>l. l = []) (rev (filter (\<lambda>l. \<not> chrome_line l) (split_char CHR 0x0A raw))))"

lemma trim_right_append: "trim_right_set cs (xs @ ys) = (if set ys \<subseteq> set cs then trim_right_set cs xs else xs @ trim_right_set cs ys)"
  by (auto simp: trim_right_set_def dropWhile_append)

lemma trim_lines:
  assumes "\<forall>l \<in> set ls. CHR 0x0A \<notin> set l"
  shows "trim_right_set newline (concat (map (\<lambda>l. l @ newline) ls)) =
    str_join newline (rev (dropWhile (\<lambda>l. l = []) (rev ls)))"
  using assms
proof (induction ls rule: rev_induct)
  case Nil
  then show ?case by (simp add: trim_right_set_def)
next
  case (snoc l ls)
  show ?case
  proof (cases "l = []")
    case True
    with snoc show ?thesis by (simp add: trim_right_append)
  next
    case False
    then have "last l \<in> set l" by simp
    with snoc.prems have "last l \<noteq> CHR 0x0A" by auto
    with False have "dropWhile (\<lambda>x. x \<in> set newline) (rev l) = rev l" by (cases "rev l") (auto simp: newline_def last_rev hd_rev [symmetric])
    then have t: "trim_right_set newline l = l" by (simp add: trim_right_set_def)
    have nl: "\<not> set l \<subseteq> {CHR 0x0A}" using False snoc.prems by (cases l) auto
    have "trim_right_set newline (concat (map (\<lambda>l. l @ newline) (ls @ [l]))) = concat (map (\<lambda>l. l @ newline) ls) @ l"
      using nl t by (simp add: trim_right_append newline_def del: append_assoc)
    moreover have "str_join newline (xs @ [l]) = concat (map (\<lambda>l. l @ newline) xs) @ l" for xs
    proof (induction xs)
      case (Cons x xs)
      then show ?case by (cases xs) simp_all
    qed simp
    ultimately show ?thesis using False by simp
  qed
qed

lemma kept_lines: "l \<in> set (filter P (split_char c raw)) \<Longrightarrow> c \<notin> set l"
  using split_char_no_sep [of l c raw] by auto

lemma strip_config_lines: "stripIOSChrome raw = str_join newline (config_lines raw) @ newline"
proof -
  have "\<forall>l \<in> set (filter (\<lambda>l. \<not> chrome_line l) (split_char CHR 0x0A raw)). CHR 0x0A \<notin> set l"
    using kept_lines by blast
  from trim_lines [OF this] show ?thesis
    by (simp add: stripIOSChrome_def one_newline_def config_lines_def)
qed

lemma config_lines_props:
  "l \<in> set (config_lines raw) \<Longrightarrow> CHR 0x0A \<notin> set l \<and> \<not> chrome_line l"
  "config_lines raw \<noteq> [] \<Longrightarrow> last (config_lines raw) \<noteq> []"
proof -
  let ?k = "filter (\<lambda>l. \<not> chrome_line l) (split_char CHR 0x0A raw)"
  assume "l \<in> set (config_lines raw)"
  then have "l \<in> set ?k" by (auto simp: config_lines_def dest: set_dropWhileD)
  then show "CHR 0x0A \<notin> set l \<and> \<not> chrome_line l" using kept_lines [of l _ _ raw] by auto
next
  let ?k = "filter (\<lambda>l. \<not> chrome_line l) (split_char CHR 0x0A raw)"
  assume "config_lines raw \<noteq> []"
  then have "dropWhile (\<lambda>l. l = []) (rev ?k) \<noteq> []" by (simp add: config_lines_def)
  from hd_dropWhile [OF this] this show "last (config_lines raw) \<noteq> []"
    by (simp add: config_lines_def last_rev)
qed

lemma join_inject:
  assumes "\<forall>l \<in> set xs. CHR 0x0A \<notin> set l" and "\<forall>l \<in> set ys. CHR 0x0A \<notin> set l"
    and "xs \<noteq> [] \<Longrightarrow> last xs \<noteq> []" and "ys \<noteq> [] \<Longrightarrow> last ys \<noteq> []"
    and "str_join newline xs = str_join newline ys"
  shows "xs = ys"
proof -
  have ne: "str_join newline zs \<noteq> []" if "zs \<noteq> []" "last zs \<noteq> []" for zs
    using that by (induction newline zs rule: str_join.induct) (auto simp: newline_def)
  have s: "split_char CHR 0x0A (str_join newline zs) = zs" if "zs \<noteq> []" "\<forall>l \<in> set zs. CHR 0x0A \<notin> set l" for zs
    using split_char_join [OF that] by (simp add: newline_def)
  show ?thesis
  proof (cases "xs = [] \<or> ys = []")
    case True
    then show ?thesis using ne [of xs] ne [of ys] assms(3-5) by (metis str_join.simps(1))
  next
    case False
    then show ?thesis using s [of xs] s [of ys] assms(1,2,5) by metis
  qed
qed

text \<open>The stored Cisco configuration depends on the configuration only: two captures give the same
  artefact exactly when their lines agree, leaving out the banner lines that change on every run and
  the blank lines at the end; and stripping a stored artefact again changes nothing.\<close>
theorem strip_stable:
  "(stripIOSChrome r1 = stripIOSChrome r2 \<longleftrightarrow> config_lines r1 = config_lines r2) \<and>
   stripIOSChrome (stripIOSChrome r1) = stripIOSChrome r1"
proof
  show "stripIOSChrome r1 = stripIOSChrome r2 \<longleftrightarrow> config_lines r1 = config_lines r2"
    unfolding strip_config_lines
    using join_inject [of "config_lines r1" "config_lines r2"] config_lines_props(1) [of _ r1]
      config_lines_props(1) [of _ r2] config_lines_props(2) [of r1] config_lines_props(2) [of r2]
    by auto
  have "config_lines (stripIOSChrome r1) = config_lines r1"
  proof (cases "config_lines r1 = []")
    case True
    have "config_lines newline = []" by code_simp
    with True show ?thesis by (simp add: strip_config_lines)
  next
    case False
    have "split_char CHR 0x0A (str_join newline (config_lines r1 @ [[]])) = config_lines r1 @ [[]]"
      using config_lines_props(1) [of _ r1] split_char_join [of "config_lines r1 @ [[]]" "CHR 0x0A"]
      by (auto simp: newline_def)
    moreover have "str_join newline (xs @ [[]]) = str_join newline xs @ newline" if "xs \<noteq> []" for xs
      using that by (induction newline xs rule: str_join.induct) auto
    moreover have "\<not> chrome_line []" by code_simp
    moreover have "filter (\<lambda>l. \<not> chrome_line l) (config_lines r1) = config_lines r1"
      using config_lines_props(1) [of _ r1] by (auto intro: filter_True)
    moreover have "dropWhile (\<lambda>l. l = []) (rev (config_lines r1)) = rev (config_lines r1)"
      using False config_lines_props(2) [OF False] by (cases "rev (config_lines r1)") (auto simp: hd_rev [symmetric])
    ultimately show ?thesis using False
      by (simp add: strip_config_lines [of r1]) (simp add: config_lines_def [of "str_join newline (config_lines r1) @ newline"])
  qed
  then show "stripIOSChrome (stripIOSChrome r1) = stripIOSChrome r1"
    by (simp only: strip_config_lines)
qed

end
