(* ===== verification/Notify.thy ===== *)
theory Notify
  imports Vault Dial "HOL-Library.AList"
begin

text \<open>
  Notifications (\<open>internal/notify/notify.go\<close>): channels whose secrets are sealed before they are
  stored, rules that route event kinds to channels, and the dispatch of an event. JSON, HTTP and
  SMTP are parameters. A channel's configuration is a JSON object; of its values only strings
  matter, the others are kept as they are.
\<close>

section \<open>Data\<close>

datatype 'v jval = JStr string | JOther 'v

type_synonym 'v jobj = "(string \<times> 'v jval) list"

record Event =
  ev_Kind :: string
  ev_Subject :: string
  ev_Body :: string
  ev_Fields :: string
  ev_Timestamp :: time

record Channel =
  ch_ID :: int
  ch_TenantID :: int
  ch_Name :: string
  ch_Kind :: string
  ch_Config :: string
  ch_CreatedAt :: time

record WebhookConfig =
  wc_URL :: string
  wc_URLEnvelope :: string

record EmailConfig =
  ec_Host :: string
  ec_Port :: int
  ec_Username :: string
  ec_PasswordEnvelope :: string
  ec_From :: string
  ec_To :: string
  ec_StartTLS :: bool

record PushoverConfig =
  pc_Token :: string
  pc_UserKey :: string

text \<open>\<open>encoding/json\<close>: an object from a text (\<open>null\<close> is the empty one) and back, and the decoders of the
  three structs, which give an error or the struct.\<close>

record 'v json_lib =
  js_object :: "string \<Rightarrow> string + 'v jobj"
  js_text :: "'v jobj \<Rightarrow> string + string"
  js_webhook :: "string \<Rightarrow> string + WebhookConfig"
  js_email :: "string \<Rightarrow> string + EmailConfig"
  js_pushover :: "string \<Rightarrow> string + PushoverConfig"
  js_event :: "Event \<Rightarrow> string"
  js_slack :: "string \<Rightarrow> string"

record channel_row =
  cn_id :: int
  cn_tenant :: int
  cn_name :: string
  cn_kind :: string
  cn_config :: string
  cn_created :: stamp

record rule_row =
  nr_id :: int
  nr_tenant :: int
  nr_name :: string
  nr_event :: string
  nr_channel :: int
  nr_created :: stamp

record notify_db = conn +
  notification_channels :: "channel_row sql_table"
  notification_rules :: "rule_row sql_table"

datatype notify_err =
  NtRequired | NtParse string string | NtSeal seal_err | NtMarshal string | NtNoURL | NtPushover
| NtUnknownKind string | NtDB string

section \<open>Channels and rules\<close>

text \<open>\<open>raw[k].(string)\<close>: the string under a key, the empty string when there is none.\<close>

definition str_field :: "string \<Rightarrow> 'v jobj \<Rightarrow> string" where
  "str_field k raw = (case map_of raw k of Some (JStr s) \<Rightarrow> s | _ \<Rightarrow> [])"

text \<open>The sealed value replaces the plain one under another key.\<close>

definition move_sealed :: "string \<Rightarrow> string \<Rightarrow> string \<Rightarrow> 'v jobj \<Rightarrow> 'v jobj" where
  "move_sealed plain sealed env raw = AList.delete plain (AList.update sealed (JStr env) raw)"

text \<open>The configuration that is stored; \<open>r1\<close> and \<open>r2\<close> are the random bytes of the seal. Marshalling an
  e-mail configuration ignores its error, and then stores nothing.\<close>

definition channel_config ::
  "'v json_lib \<Rightarrow> aead \<Rightarrow> string \<Rightarrow> string option \<Rightarrow> string option \<Rightarrow> string \<Rightarrow> string \<Rightarrow> notify_err + string" where
  "channel_config J A master r1 r2 kind cfg =
     (if kind = ''webhook'' \<or> kind = ''slack'' then
        (case js_object J cfg of
           Inl e \<Rightarrow> Inl (NtParse ''webhook'' e)
         | Inr raw \<Rightarrow>
             (if str_field ''url'' raw \<noteq> [] then
                (case Seal A master r1 r2 (str_field ''url'' raw) of
                   Inl e \<Rightarrow> Inl (NtSeal e)
                 | Inr env \<Rightarrow> (let raw = move_sealed ''url'' ''url_envelope'' env raw in
                     case js_text J raw of
                       Inl e \<Rightarrow> Inl (NtMarshal e)
                     | Inr cfg \<Rightarrow> if str_field ''url_envelope'' raw = [] then Inl NtNoURL else Inr cfg))
              else if str_field ''url_envelope'' raw = [] then Inl NtNoURL else Inr cfg))
      else if kind = ''email'' then
        (case js_object J cfg of
           Inl e \<Rightarrow> Inl (NtParse ''email'' e)
         | Inr raw \<Rightarrow>
             (if str_field ''password'' raw \<noteq> [] then
                (case Seal A master r1 r2 (str_field ''password'' raw) of
                   Inl e \<Rightarrow> Inl (NtSeal e)
                 | Inr env \<Rightarrow>
                     (case js_text J (move_sealed ''password'' ''password_envelope'' env raw) of
                        Inl e \<Rightarrow> Inr [] | Inr cfg \<Rightarrow> Inr cfg))
              else Inr cfg))
      else if kind = ''pushover'' then
        (case js_pushover J cfg of
           Inl e \<Rightarrow> Inl (NtParse ''pushover'' e)
         | Inr pc \<Rightarrow> if pc_Token pc = [] \<or> pc_UserKey pc = [] then Inl NtPushover else Inr cfg)
      else Inl (NtUnknownKind kind))"

text \<open>The schema admits three kinds and a name once per tenant.\<close>

definition schema_kinds :: "string list" where
  "schema_kinds = [''webhook'', ''slack'', ''email'']"

definition CreateChannel ::
  "'v json_lib \<Rightarrow> aead \<Rightarrow> string \<Rightarrow> string option \<Rightarrow> string option \<Rightarrow> time \<Rightarrow> int \<Rightarrow> string \<Rightarrow> string \<Rightarrow> string
    \<Rightarrow> notify_db \<Rightarrow> (notify_err + Channel) \<times> notify_db" where
  "CreateChannel J A master r1 r2 now tenantID name kind cfg0 s =
     (if name = [] \<or> kind = [] then (Inl NtRequired, s)
      else (case channel_config J A master r1 r2 kind cfg0 of
        Inl e \<Rightarrow> (Inl e, s)
      | Inr cfg \<Rightarrow> exec NtDB s (\<lambda>s.
          if kind \<notin> set schema_kinds then (Inl (NtDB ''CHECK constraint failed''), s)
          else if list_ex (\<lambda>r. cn_tenant r = tenantID \<and> cn_name r = name) (rows (notification_channels s))
          then (Inl (NtDB ''UNIQUE constraint failed''), s)
          else (let n = next_rowid (notification_channels s) in
            (Inr \<lparr>ch_ID = n, ch_TenantID = tenantID, ch_Name = name, ch_Kind = kind, ch_Config = cfg, ch_CreatedAt = now\<rparr>,
             s\<lparr>notification_channels := insert_row (\<lambda>n. \<lparr>cn_id = n, cn_tenant = tenantID, cn_name = name,
                  cn_kind = kind, cn_config = cfg, cn_created = rfc3339 now\<rparr>) (notification_channels s), last_rowid := n\<rparr>)))))"

definition channel_of :: "channel_row \<Rightarrow> Channel" where
  "channel_of r = \<lparr>ch_ID = cn_id r, ch_TenantID = cn_tenant r, ch_Name = cn_name r, ch_Kind = cn_kind r,
     ch_Config = cn_config r, ch_CreatedAt = of_stamp (cn_created r)\<rparr>"

definition ListChannels :: "int \<Rightarrow> notify_db \<Rightarrow> (notify_err + Channel list) \<times> notify_db" where
  "ListChannels tenantID s = exec NtDB s (\<lambda>s.
     (Inr (map channel_of (order_asc cn_name (filter (\<lambda>r. cn_tenant r = tenantID) (rows (notification_channels s))))), s))"

text \<open>Deleting a channel deletes the rules that point to it.\<close>

definition DeleteChannel :: "int \<Rightarrow> int \<Rightarrow> notify_db \<Rightarrow> (notify_err + unit) \<times> notify_db" where
  "DeleteChannel tenantID i s = exec NtDB s (\<lambda>s.
     (Inr (), if affected (\<lambda>r. cn_tenant r = tenantID \<and> cn_id r = i) (notification_channels s) = 0 then s
       else s\<lparr>notification_channels := delete_rows (\<lambda>r. cn_tenant r = tenantID \<and> cn_id r = i) (notification_channels s),
              notification_rules := delete_rows (\<lambda>r. nr_channel r = i) (notification_rules s)\<rparr>))"

definition CreateRule ::
  "time \<Rightarrow> int \<Rightarrow> string \<Rightarrow> string \<Rightarrow> int \<Rightarrow> notify_db \<Rightarrow> (notify_err + unit) \<times> notify_db" where
  "CreateRule now tenantID name eventType channelID s = exec NtDB s (\<lambda>s.
     if \<not> list_ex (\<lambda>r. cn_id r = channelID) (rows (notification_channels s))
     then (Inl (NtDB ''FOREIGN KEY constraint failed''), s)
     else (Inr (), s\<lparr>notification_rules := insert_row (\<lambda>n. \<lparr>nr_id = n, nr_tenant = tenantID, nr_name = name,
            nr_event = eventType, nr_channel = channelID, nr_created = rfc3339 now\<rparr>) (notification_rules s),
          last_rowid := next_rowid (notification_rules s)\<rparr>))"

definition ListRules :: "int \<Rightarrow> notify_db \<Rightarrow> (notify_err + rule_row list) \<times> notify_db" where
  "ListRules tenantID s = exec NtDB s (\<lambda>s.
     (Inr (order_asc nr_id (filter (\<lambda>r. nr_tenant r = tenantID) (rows (notification_rules s)))), s))"

section \<open>Sending\<close>

datatype send_err =
  SeParse string | SeUnseal seal_err | SeNoURL | SeBuild string | SeHTTP string | SeStatus int
| SePushover string | SeSMTP string | SeUnknown string

text \<open>What leaves the server, and the answers: building a request may fail, sending it gives an error
  or a status.\<close>

datatype message =
  HttpPost string string string
| SendMail string string string string "string list" string

record wire =
  wr_build :: "string \<Rightarrow> string option"
  wr_post :: "string \<Rightarrow> string \<Rightarrow> string \<Rightarrow> string + int"
  wr_form :: "(string \<times> string) list \<Rightarrow> string"
  wr_mail :: "message \<Rightarrow> string option"

definition unsealWebhookURL :: "'v json_lib \<Rightarrow> aead \<Rightarrow> string \<Rightarrow> string \<Rightarrow> send_err + string" where
  "unsealWebhookURL J A master cfg = (case js_webhook J cfg of
     Inl e \<Rightarrow> Inl (SeParse e)
   | Inr w \<Rightarrow>
       if wc_URLEnvelope w \<noteq> [] then
         (case Open A master (wc_URLEnvelope w) of Inl e \<Rightarrow> Inl (SeUnseal e) | Inr pt \<Rightarrow> Inr pt)
       else if wc_URL w \<noteq> [] then Inr (wc_URL w)
       else Inl SeNoURL)"

text \<open>Each sender gives its error and the messages it put on the wire.\<close>

definition postJSON :: "wire \<Rightarrow> string \<Rightarrow> string \<Rightarrow> send_err option \<times> message list" where
  "postJSON W url body = (case wr_build W url of
     Some e \<Rightarrow> (Some (SeBuild e), [])
   | None \<Rightarrow> (case wr_post W url ''application/json'' body of
       Inl e \<Rightarrow> Some (SeHTTP e)
     | Inr status \<Rightarrow> if status \<ge> 400 then Some (SeStatus status) else None,
       [HttpPost url ''application/json'' body]))"

definition unsealPW :: "aead \<Rightarrow> string \<Rightarrow> EmailConfig \<Rightarrow> string" where
  "unsealPW A master cfg =
     (if ec_PasswordEnvelope cfg = [] then []
      else (case Open A master (ec_PasswordEnvelope cfg) of Inl e \<Rightarrow> [] | Inr pt \<Rightarrow> pt))"

definition crlf :: string where "crlf = [CHR 0x0D, CHR 0x0A]"

definition mail_body :: "EmailConfig \<Rightarrow> Event \<Rightarrow> string" where
  "mail_body cfg ev = ''From: '' @ ec_From cfg @ crlf @ ''To: '' @ ec_To cfg @ crlf @
     ''Subject: '' @ ev_Subject ev @ crlf @ crlf @ ev_Body ev"

text \<open>\<open>sendEmail\<close> without the test hook: address, user, password, sender, recipients and body.\<close>

definition sendEmail :: "aead \<Rightarrow> string \<Rightarrow> wire \<Rightarrow> EmailConfig \<Rightarrow> Event \<Rightarrow> send_err option \<times> message list" where
  "sendEmail A master W cfg ev =
     (let m = SendMail (JoinHostPort (ec_Host cfg) (itoa (ec_Port cfg))) (ec_Username cfg) (unsealPW A master cfg)
            (ec_From cfg) [ec_To cfg] (mail_body cfg ev)
      in (map_option SeSMTP (wr_mail W m), [m]))"

text \<open>The dialogue with an SMTP client: the commands given and the first error.\<close>

datatype smtp_cmd =
  StartTLS string | SmtpAuth string string string | MailFrom string | RcptTo string | SmtpData
| SmtpWrite string | SmtpClose | SmtpQuit

fun smtp_run :: "(smtp_cmd \<Rightarrow> string option) \<Rightarrow> smtp_cmd list \<Rightarrow> string option \<times> smtp_cmd list" where
  "smtp_run c [] = (None, [])"
| "smtp_run c (x # xs) = (case c x of
     Some e \<Rightarrow> (Some e, [x]) | None \<Rightarrow> (case smtp_run c xs of (r, ys) \<Rightarrow> (r, x # ys)))"

definition runSMTP :: "(smtp_cmd \<Rightarrow> string option) \<Rightarrow> EmailConfig \<Rightarrow> string \<Rightarrow> Event \<Rightarrow> string option \<times> smtp_cmd list" where
  "runSMTP c cfg pw ev = smtp_run c
     ((if ec_StartTLS cfg then [StartTLS (ec_Host cfg)] else []) @
      (if ec_Username cfg \<noteq> [] then [SmtpAuth (ec_Username cfg) pw (ec_Host cfg)] else []) @
      [MailFrom (ec_From cfg), RcptTo (ec_To cfg), SmtpData, SmtpWrite (mail_body cfg ev), SmtpClose, SmtpQuit])"

definition pushoverAPI :: string where
  "pushoverAPI = ''https://api.pushover.net/1/messages.json''"

definition sendPushover :: "wire \<Rightarrow> PushoverConfig \<Rightarrow> Event \<Rightarrow> send_err option \<times> message list" where
  "sendPushover W cfg ev =
     (let body = wr_form W [(''token'', pc_Token cfg), (''user'', pc_UserKey cfg), (''title'', ev_Subject ev),
            (''message'', ev_Body ev)];
          ct = ''application/x-www-form-urlencoded''
      in case wr_build W pushoverAPI of
           Some e \<Rightarrow> (Some (SePushover e), [])
         | None \<Rightarrow> (case wr_post W pushoverAPI ct body of
             Inl e \<Rightarrow> Some (SePushover e)
           | Inr status \<Rightarrow> if status \<noteq> 200 then Some (SeStatus status) else None,
             [HttpPost pushoverAPI ct body]))"

definition sendOne ::
  "'v json_lib \<Rightarrow> aead \<Rightarrow> string \<Rightarrow> wire \<Rightarrow> string \<Rightarrow> string \<Rightarrow> Event \<Rightarrow> send_err option \<times> message list" where
  "sendOne J A master W kind cfg ev =
     (if kind = ''webhook'' then
        (case unsealWebhookURL J A master cfg of
           Inl e \<Rightarrow> (Some e, []) | Inr url \<Rightarrow> postJSON W url (js_event J ev))
      else if kind = ''slack'' then
        (case unsealWebhookURL J A master cfg of
           Inl e \<Rightarrow> (Some e, [])
         | Inr url \<Rightarrow> postJSON W url (js_slack J (''*'' @ ev_Subject ev @ ''*'' @ [CHR 0x0A] @ ev_Body ev)))
      else if kind = ''email'' then
        (case js_email J cfg of Inl e \<Rightarrow> (Some (SeParse e), []) | Inr e \<Rightarrow> sendEmail A master W e ev)
      else if kind = ''pushover'' then
        (case js_pushover J cfg of Inl e \<Rightarrow> (Some (SeParse e), []) | Inr pc \<Rightarrow> sendPushover W pc ev)
      else (Some (SeUnknown kind), []))"

text \<open>The join of the channels with the rules of an event. Each target is sent to in a goroutine of its
  own; they share nothing, so their outcomes are listed in the order of the query.\<close>

definition dispatch_targets :: "int \<Rightarrow> string \<Rightarrow> notify_db \<Rightarrow> channel_row list" where
  "dispatch_targets tenantID kind s = concat (map (\<lambda>c. map (\<lambda>r. c)
     (filter (\<lambda>r. nr_channel r = cn_id c \<and> nr_tenant r = tenantID \<and> nr_event r = kind) (rows (notification_rules s))))
     (filter (\<lambda>c. cn_tenant c = tenantID) (rows (notification_channels s))))"

definition Dispatch ::
  "'v json_lib \<Rightarrow> aead \<Rightarrow> string \<Rightarrow> wire \<Rightarrow> int \<Rightarrow> Event \<Rightarrow> notify_db
    \<Rightarrow> (int \<times> send_err option \<times> message list) list \<times> notify_db" where
  "Dispatch J A master W tenantID ev s = (case stmt s of
     (Some e, s) \<Rightarrow> ([], s)
   | (None, s) \<Rightarrow> (map (\<lambda>c. (cn_id c, sendOne J A master W (cn_kind c) (cn_config c) ev))
        (dispatch_targets tenantID (ev_Kind ev) s), s))"

section \<open>A sealed address is the one that is called\<close>

text \<open>What \<open>encoding/json\<close> documents: an object reads back into a struct by its keys, which match
  without regard to case.\<close>

definition ascii :: "string \<Rightarrow> bool" where
  "ascii s \<longleftrightarrow> list_all (\<lambda>c. of_char c < (128 :: nat)) s"

definition webhook_keys :: "'v jobj \<Rightarrow> bool" where
  "webhook_keys m \<longleftrightarrow> distinct (map fst m) \<and>
     list_all (\<lambda>kv. to_lower (fst kv) \<in> {''url'', ''url_envelope''} \<longrightarrow> to_lower (fst kv) = fst kv) m"

definition json_correct :: "'v json_lib \<Rightarrow> bool" where
  "json_correct J \<longleftrightarrow> (\<forall>m env. webhook_keys m \<longrightarrow> map_of m ''url'' = None \<longrightarrow>
     map_of m ''url_envelope'' = Some (JStr env) \<longrightarrow> ascii env \<longrightarrow>
     (\<exists>t. js_text J m = Inr t \<and> js_webhook J t = Inr \<lparr>wc_URL = [], wc_URLEnvelope = env\<rparr>))"

lemma move_sealed_fields:
  assumes "webhook_keys raw"
  shows "webhook_keys (move_sealed ''url'' ''url_envelope'' env raw)"
    and "map_of (move_sealed ''url'' ''url_envelope'' env raw) ''url'' = None"
    and "map_of (move_sealed ''url'' ''url_envelope'' env raw) ''url_envelope'' = Some (JStr env)"
proof -
  let ?m = "AList.update ''url_envelope'' (JStr env) raw"
  have d: "distinct (map fst ?m)" using assms by (simp add: webhook_keys_def distinct_update)
  have k: "fst ` set ?m \<subseteq> insert ''url_envelope'' (fst ` set raw)"
    using dom_update [of "''url_envelope''" "JStr env" raw] by (auto simp: dom_map_of_conv_image_fst)
  have l: "to_lower ''url_envelope'' = ''url_envelope''" by code_simp
  have "to_lower k = k" if "k \<in> fst ` set ?m" "to_lower k \<in> {''url'', ''url_envelope''}" for k
  proof (cases "k = ''url_envelope''")
    case True
    show ?thesis unfolding True by (rule l)
  next
    case False
    then have "k \<in> fst ` set raw" using that(1) k by auto
    with that(2) assms show ?thesis unfolding webhook_keys_def list_all_iff by auto
  qed
  moreover have "set (move_sealed ''url'' ''url_envelope'' env raw) \<subseteq> set ?m"
    by (auto simp: move_sealed_def AList.delete_eq)
  moreover have "distinct (map fst (move_sealed ''url'' ''url_envelope'' env raw))"
    using d by (simp add: move_sealed_def distinct_delete)
  ultimately show "webhook_keys (move_sealed ''url'' ''url_envelope'' env raw)"
    unfolding webhook_keys_def list_all_iff by blast
  show "map_of (move_sealed ''url'' ''url_envelope'' env raw) ''url'' = None"
    "map_of (move_sealed ''url'' ''url_envelope'' env raw) ''url_envelope'' = Some (JStr env)"
    by (simp_all add: move_sealed_def delete_conv' update_conv')
qed

lemma base64url_ascii: "ascii (base64url s)"
proof -
  have abc: "list_all (\<lambda>c. of_char (url_char c) < (128 :: nat)) b64_alphabet" by code_simp
  have "base64url s = map (\<lambda>d. url_char (b64_char d)) (b64_digits s)"
    by (simp add: base64url_def base64_digits)
  moreover have "b64_char d \<in> set b64_alphabet" if "d \<in> set (b64_digits s)" for d
    using b64_digits_small [OF that] b64_distinct(2) by (simp add: b64_char_def)
  ultimately show ?thesis using abc by (auto simp: ascii_def list_all_iff)
qed

lemma seal_ascii: "Seal A master r1 r2 p = Inr env \<Longrightarrow> ascii env \<and> env \<noteq> []"
proof -
  assume "Seal A master r1 r2 p = Inr env"
  then obtain x where x: "env = sealPrefix @ base64url x" by (auto simp: Seal_def split: option.splits sum.splits)
  have "ascii sealPrefix" by code_simp
  with base64url_ascii [of x] show ?thesis by (simp add: x ascii_def) (simp add: sealPrefix_def)
qed

text \<open>The stored configuration of a webhook created with a plain address.\<close>

lemma webhook_config:
  assumes "json_correct J" and "gcm_correct A" and "fills saltLen r1" and "fills nonceLen r2"
    and "kind = ''webhook'' \<or> kind = ''slack''" and "js_object J cfg0 = Inr raw" and "webhook_keys raw"
    and "str_field ''url'' raw = u" and "u \<noteq> []" and "channel_config J A master r1 r2 kind cfg0 = Inr cfg"
  shows "\<exists>m. js_text J m = Inr cfg \<and> map_of m ''url'' = None" and "unsealWebhookURL J A master cfg = Inr u"
proof -
  obtain env where env: "Seal A master r1 r2 u = Inr env" "js_text J (move_sealed ''url'' ''url_envelope'' env raw) = Inr cfg"
    using assms(5,6,8-10) by (auto simp: channel_config_def Let_def split: sum.splits if_splits)
  note m = move_sealed_fields [OF assms(7), of env]
  show "\<exists>m. js_text J m = Inr cfg \<and> map_of m ''url'' = None" using env(2) m(2) by blast
  obtain t where "js_text J (move_sealed ''url'' ''url_envelope'' env raw) = Inr t"
    "js_webhook J t = Inr \<lparr>wc_URL = [], wc_URLEnvelope = env\<rparr>"
    using assms(1) m seal_ascii [OF env(1)] unfolding json_correct_def by blast
  with env Open_Seal [OF assms(2-4) env(1)] seal_ascii [OF env(1)] show "unsealWebhookURL J A master cfg = Inr u"
    by (simp add: unsealWebhookURL_def)
qed

lemma CreateChannel_row:
  assumes "wf_table cn_id (notification_channels s)" and "CreateChannel J A master r1 r2 now t name kind cfg0 s = (Inr ch, s1)"
  shows "channel_config J A master r1 r2 kind cfg0 = Inr (ch_Config ch) \<and> wf_table cn_id (notification_channels s1) \<and>
    (\<exists>r \<in> set (rows (notification_channels s1)). cn_id r = ch_ID ch \<and> cn_tenant r = t \<and> cn_kind r = kind \<and>
      cn_config r = ch_Config ch)"
proof -
  have "post (\<lambda>r s1. \<forall>ch. r = Inr ch \<longrightarrow>
      channel_config J A master r1 r2 kind cfg0 = Inr (ch_Config ch) \<and> wf_table cn_id (notification_channels s1) \<and>
      (\<exists>r \<in> set (rows (notification_channels s1)). cn_id r = ch_ID ch \<and> cn_tenant r = t \<and> cn_kind r = kind \<and>
        cn_config r = ch_Config ch)) (CreateChannel J A master r1 r2 now t name kind cfg0 s)"
    using assms(1) unfolding CreateChannel_def Let_def
    by (auto split: sum.splits intro!: post_exec wf_insert_row)
  from postD [OF this assms(2)] show ?thesis by simp
qed

lemma CreateRule_row:
  assumes "CreateRule now t nm ev c s = (Inr (), s')"
  shows "notification_channels s' = notification_channels s \<and>
    (\<exists>r \<in> set (rows (notification_rules s')). nr_tenant r = t \<and> nr_event r = ev \<and> nr_channel r = c)"
proof -
  have "post (\<lambda>r s'. r = Inr () \<longrightarrow> notification_channels s' = notification_channels s \<and>
      (\<exists>r \<in> set (rows (notification_rules s')). nr_tenant r = t \<and> nr_event r = ev \<and> nr_channel r = c))
    (CreateRule now t nm ev c s)"
    unfolding CreateRule_def by (auto intro!: post_exec)
  from postD [OF this assms] show ?thesis by simp
qed

text \<open>What an event is to say on a channel, and the outcome of posting it.\<close>

definition announced :: "'v json_lib \<Rightarrow> string \<Rightarrow> Event \<Rightarrow> string" where
  "announced J kind ev = (if kind = ''slack'' then js_slack J (''*'' @ ev_Subject ev @ ''*'' @ [CHR 0x0A] @ ev_Body ev)
     else js_event J ev)"

definition post_outcome :: "string + int \<Rightarrow> send_err option" where
  "post_outcome answer = (case answer of
     Inl e \<Rightarrow> Some (SeHTTP e) | Inr status \<Rightarrow> if status \<ge> 400 then Some (SeStatus status) else None)"

text \<open>C31: A webhook or Slack address is stored sealed and called as it was given: after a channel was
  created with a plain address and a rule that routes a kind of event to it, dispatching an event of that kind with
  a working database posts to that address exactly the event's text for the channel, as JSON, and nothing else
  through the channel, provided a request can be built for the address. The stored configuration has no plain
  address, and no other tenant's event reaches the channel. The configuration's keys must not repeat and must
  not be another capitalisation of the two address keys.\<close>
theorem webhook_delivered:
  assumes "json_correct J" and "gcm_correct A" and "fills saltLen r1" and "fills nonceLen r2"
    and "kind = ''webhook'' \<or> kind = ''slack''" and "js_object J cfg0 = Inr raw" and "webhook_keys raw"
    and "str_field ''url'' raw = u" and "u \<noteq> []" and "wf_table cn_id (notification_channels s)"
    and "CreateChannel J A master r1 r2 now t name kind cfg0 s = (Inr ch, s1)"
    and "CreateRule now' t rname (ev_Kind ev) (ch_ID ch) s1 = (Inr (), s2)"
    and "faults s2 = []" and "wr_build W u = None"
  shows "let sent = (ch_ID ch, post_outcome (wr_post W u ''application/json'' (announced J kind ev)),
         [HttpPost u ''application/json'' (announced J kind ev)]);
       out = fst (Dispatch J A master W t ev s2)
     in sent \<in> set out \<and> (\<forall>x \<in> set out. fst x = ch_ID ch \<longrightarrow> x = sent) \<and>
        (\<exists>m. js_text J m = Inr (ch_Config ch) \<and> map_of m ''url'' = None) \<and>
        (\<forall>t' ev'. t' \<noteq> t \<longrightarrow> ch_ID ch \<notin> fst ` set (fst (Dispatch J A master W t' ev' s2)))"
  unfolding Let_def
proof (intro conjI allI impI ballI)
  obtain r where cfg: "channel_config J A master r1 r2 kind cfg0 = Inr (ch_Config ch)"
    and wf: "wf_table cn_id (notification_channels s1)" and r: "r \<in> set (rows (notification_channels s1))"
      "cn_id r = ch_ID ch" "cn_tenant r = t" "cn_kind r = kind" "cn_config r = ch_Config ch"
    using CreateChannel_row [OF assms(10,11)] by blast
  note conf = webhook_config [OF assms(1-9) cfg]
  obtain q where q: "notification_channels s2 = notification_channels s1" "q \<in> set (rows (notification_rules s2))"
    "nr_tenant q = t" "nr_event q = ev_Kind ev" "nr_channel q = ch_ID ch"
    using CreateRule_row [OF assms(12)] by blast
  show "\<exists>m. js_text J m = Inr (ch_Config ch) \<and> map_of m ''url'' = None" by (rule conf(1))
  let ?sent = "(ch_ID ch, post_outcome (wr_post W u ''application/json'' (announced J kind ev)),
     [HttpPost u ''application/json'' (announced J kind ev)])"
  have send: "(ch_ID ch, sendOne J A master W kind (ch_Config ch) ev) = ?sent"
    using assms(5,14) conf(2) by (auto simp: sendOne_def postJSON_def announced_def post_outcome_def split: sum.splits)
  have "r \<in> set (dispatch_targets t (ev_Kind ev) s2)" using r q by (auto simp: dispatch_targets_def)
  then have "(ch_ID ch, sendOne J A master W kind (ch_Config ch) ev) \<in> set (fst (Dispatch J A master W t ev s2))"
    using assms(13) r(2,4,5) by (force simp: Dispatch_def)
  then show "?sent \<in> set (fst (Dispatch J A master W t ev s2))" by (simp only: send)
  have only: "c = r" if "c \<in> set (dispatch_targets t' k s2)" "cn_id c = ch_ID ch" for c t' k
    using wf_table_unique [OF wf _ r(1), of c] that r(2) q(1) by (auto simp: dispatch_targets_def)
  show "x = ?sent" if x: "x \<in> set (fst (Dispatch J A master W t ev s2))" "fst x = ch_ID ch" for x
  proof -
    obtain c where c: "c \<in> set (dispatch_targets t (ev_Kind ev) s2)"
      "x = (cn_id c, sendOne J A master W (cn_kind c) (cn_config c) ev)"
      using x(1) assms(13) by (auto simp: Dispatch_def)
    with only [OF c(1)] x(2) r(2,4,5) send show ?thesis by simp
  qed
  fix t' and ev' :: Event assume "t' \<noteq> t"
  then have "c \<notin> set (dispatch_targets t' (ev_Kind ev') s2)" if "cn_id c = ch_ID ch" for c
    using only [of c t' "ev_Kind ev'"] that r(3) by (auto simp: dispatch_targets_def)
  then show "ch_ID ch \<notin> fst ` set (fst (Dispatch J A master W t' ev' s2))"
    using assms(13) by (auto simp: Dispatch_def)
qed

definition demo_json :: "unit json_lib" where
  "demo_json = \<lparr>js_object = (\<lambda>s. Inr [(''url'', JStr s)]),
     js_text = (\<lambda>m. Inr (str_field ''url_envelope'' m)),
     js_webhook = (\<lambda>s. Inr \<lparr>wc_URL = [], wc_URLEnvelope = s\<rparr>), js_email = (\<lambda>s. Inl []), js_pushover = (\<lambda>s. Inl []),
     js_event = ev_Body, js_slack = (\<lambda>s. s)\<rparr>"

definition demo_wire :: wire where
  "demo_wire = \<lparr>wr_build = (\<lambda>u. None), wr_post = (\<lambda>u c b. Inr 200), wr_form = (\<lambda>ps. []), wr_mail = (\<lambda>m. None)\<rparr>"

definition empty_notify :: notify_db where
  "empty_notify = \<lparr>faults = [], last_rowid = 0, notification_channels = empty_table, notification_rules = empty_table\<rparr>"

definition demo_event :: Event where
  "demo_event = \<lparr>ev_Kind = ''change'', ev_Subject = ''r1'', ev_Body = ''+vlan 7'', ev_Fields = [], ev_Timestamp = 0\<rparr>"

definition demo_channel :: "(notify_err + Channel) \<times> notify_db" where
  "demo_channel = CreateChannel demo_json demo_aead ''pw'' (Some (replicate 16 CHR ''s'')) (Some (replicate 12 CHR ''n''))
     0 1 ''ops'' ''webhook'' ''http://h/x'' empty_notify"

definition demo_rule :: "(notify_err + unit) \<times> notify_db" where
  "demo_rule = CreateRule 0 1 ''all'' ''change'' 1 (snd demo_channel)"

theorem webhook_delivered_witness:
  "(1, None, [HttpPost ''http://h/x'' ''application/json'' ''+vlan 7'']) \<in>
     set (fst (Dispatch demo_json demo_aead ''pw'' demo_wire 1 demo_event (snd demo_rule)))"
proof -
  have g: "gcm_correct demo_aead" by (simp add: gcm_correct_def demo_aead_def)
  have j: "json_correct demo_json" by (simp add: json_correct_def demo_json_def str_field_def)
  have k: "webhook_keys [(''url'', JStr ''http://h/x'' :: unit jval)]" by code_simp
  have f: "fills saltLen (Some (replicate 16 CHR ''s''))" "fills nonceLen (Some (replicate 12 CHR ''n''))"
    by (simp_all add: fills_def saltLen_def nonceLen_def)
  have c: "\<not> isl (fst demo_channel)" "ch_ID (projr (fst demo_channel)) = 1" by code_simp+
  then obtain ch where ch: "fst demo_channel = Inr ch" "ch_ID ch = 1" by (cases "fst demo_channel") auto
  then have c1: "CreateChannel demo_json demo_aead ''pw'' (Some (replicate 16 CHR ''s'')) (Some (replicate 12 CHR ''n''))
     0 1 ''ops'' ''webhook'' ''http://h/x'' empty_notify = (Inr ch, snd demo_channel)"
    by (metis demo_channel_def prod.collapse)
  have "fst demo_rule = Inr ()" by code_simp
  then have c2: "CreateRule 0 1 ''all'' (ev_Kind demo_event) (ch_ID ch) (snd demo_channel) = (Inr (), snd demo_rule)"
    unfolding ch(2) by (metis demo_event_def demo_rule_def Event.select_convs(1) prod.collapse)
  have fl: "faults (snd demo_rule) = []" by code_simp
  have "wf_table cn_id (notification_channels empty_notify)" by (simp add: empty_notify_def)
  from webhook_delivered [OF j g f _ _ k _ _ this c1 c2 fl, where W = demo_wire and u = "''http://h/x''"] ch(2)
  show ?thesis
    by (simp add: demo_json_def str_field_def demo_wire_def announced_def demo_event_def post_outcome_def Let_def)
qed

text \<open>The service accepts the kind \<open>pushover\<close>, but the schema does not, so creating such a channel
  never succeeds.\<close>

lemma pushover_never_created:
  "fst (CreateChannel J A master r1 r2 now t name ''pushover'' cfg s) \<noteq> Inr ch"
proof -
  have "post (\<lambda>r s. r \<noteq> Inr ch) (CreateChannel J A master r1 r2 now t name ''pushover'' cfg s)"
    unfolding CreateChannel_def by (auto simp: schema_kinds_def split: sum.splits intro!: post_exec)
  then show ?thesis by (simp add: post_def split: prod.splits)
qed

end
