(* ===== verification/Topology.thy ===== *)
theory Topology
  imports Prelude "HOL-Library.List_Lexorder" "HOL-Library.Char_ord" "HOL-Library.Product_Lexorder" "HOL-Library.Multiset"
begin

text \<open>
  The topology builder (\<open>internal/netops/topology.go\<close>): links out of LLDP, CDP and MikroTik
  neighbour tables, and the graph they are merged into. The regular expressions are spelled out;
  of the case folding in \<open>headerKeywords\<close> the ASCII letters are modelled. A Go map is iterated in
  an order of its own, which is a parameter.
\<close>

record Link =
  ln_A :: string
  ln_APort :: string
  ln_B :: string
  ln_BPort :: string

record Graph =
  gp_APIVersion :: string
  gp_NodeCount :: nat
  gp_EdgeCount :: nat
  gp_Links :: "Link list"

definition currentAPIVersion :: string where "currentAPIVersion = ''1.0''"

section \<open>Fields of a line\<close>

text \<open>Runs of characters outside \<open>ws\<close>: the groups \<open>\S+\<close> between \<open>\s+\<close>.\<close>

definition re_space :: "char \<Rightarrow> bool" where
  "re_space c \<longleftrightarrow> c \<in> {CHR 0x09, CHR 0x0A, CHR 0x0C, CHR 0x0D, CHR 0x20}"

fun re_fields :: "nat \<Rightarrow> string \<Rightarrow> string list" where
  "re_fields 0 s = []"
| "re_fields (Suc n) s = (let t = dropWhile re_space s in
     if t = [] then [] else takeWhile (\<lambda>c. \<not> re_space c) t # re_fields n (dropWhile (\<lambda>c. \<not> re_space c) t))"

text \<open>\<open>strings.Fields\<close> splits around Unicode's white space.\<close>

fun word_end :: "string \<Rightarrow> nat" where
  "word_end [] = 0"
| "word_end (c # s) = (if find (\<lambda>r. has_prefix (c # s) r) space_runes = None then Suc (word_end s) else 0)"

fun str_fields :: "nat \<Rightarrow> string \<Rightarrow> string list" where
  "str_fields 0 s = []"
| "str_fields (Suc n) s = (let t = trim_front (length s) space_runes s in
     if t = [] then [] else take (word_end t) t # str_fields n (drop (word_end t) t))"

definition Fields :: "string \<Rightarrow> string list" where
  "Fields s = str_fields (Suc (length s)) s"

text \<open>\<open>(?i)local|chassis|port|system|capab|hold|interface|device.id|platform\<close>; the dot is one rune.\<close>

definition rune_between :: "string \<Rightarrow> bool" where
  "rune_between x \<longleftrightarrow> (case x of
     [] \<Rightarrow> False
   | [c] \<Rightarrow> c \<noteq> CHR 0x0A
   | c # cs \<Rightarrow> (let n = of_char c :: nat in
       (length cs = 1 \<and> 0xC2 \<le> n \<and> n \<le> 0xDF \<or> length cs = 2 \<and> 0xE0 \<le> n \<and> n \<le> 0xEF \<or>
        length cs = 3 \<and> 0xF0 \<le> n \<and> n \<le> 0xF4) \<and>
       list_all (\<lambda>d. let m = of_char d :: nat in 0x80 \<le> m \<and> m \<le> 0xBF) cs))"

fun device_id :: "string \<Rightarrow> bool" where
  "device_id [] = False"
| "device_id (c # s) =
     (has_prefix (c # s) ''device'' \<and>
        list_ex (\<lambda>k. rune_between (take k (drop 6 (c # s))) \<and> has_prefix (drop (6 + k) (c # s)) ''id'') [1, 2, 3, 4]
      \<or> device_id s)"

definition headerKeywords :: "string \<Rightarrow> bool" where
  "headerKeywords s = (let l = to_lower s in
     list_ex (str_contains l)
       [''local'', ''chassis'', ''port'', ''system'', ''capab'', ''hold'', ''interface'', ''platform''] \<or>
     device_id l)"

definition count_char :: "char \<Rightarrow> string \<Rightarrow> nat" where
  "count_char c s = length (filter (\<lambda>x. x = c) s)"

section \<open>Neighbour tables\<close>

definition out_lines :: "string \<Rightarrow> string list" where
  "out_lines output = map (trim_right_set [CHR 0x0D]) (split_char CHR 0x0A output)"

text \<open>\<open>lldpRow\<close> is four fields.\<close>

definition lldp_line :: "string \<Rightarrow> string \<Rightarrow> Link list" where
  "lldp_line localHost line = (let trim = trim_space line in
     if trim = [] \<or> has_prefix trim ''-'' \<or> has_prefix trim ''Capability'' then []
     else if headerKeywords trim \<and> count_char CHR 0x20 trim < 6 then []
     else (case re_fields (Suc (length trim)) trim of
         [f1, f2, f3, f4] \<Rightarrow> [\<lparr>ln_A = localHost, ln_APort = f1, ln_B = f4, ln_BPort = f3\<rparr>]
       | _ \<Rightarrow> []))"

definition parseLLDPNeighbors :: "string \<Rightarrow> string \<Rightarrow> Link list" where
  "parseLLDPNeighbors localHost output = concat (map (lldp_line localHost) (out_lines output))"

definition has_letter :: "string \<Rightarrow> bool" where
  "has_letter s \<longleftrightarrow> list_ex (\<lambda>c. let n = of_char (lower_char c) :: nat in 97 \<le> n \<and> n \<le> 122) s"

definition cdp_line :: "string \<Rightarrow> string \<Rightarrow> Link list" where
  "cdp_line localHost line = (let trim = trim_space line in
     if trim = [] \<or> has_prefix trim ''-'' then []
     else if headerKeywords trim \<and> count_char CHR 0x20 trim < 4 then []
     else (let fields = Fields trim in
       if length fields < 6 then []
       else if has_letter (fields ! 2) \<and> \<not> list_ex is_digit (fields ! 2) then []
       else if fields ! 0 = [] \<or> fields ! 1 = [] then []
       else [\<lparr>ln_A = localHost, ln_APort = fields ! 1, ln_B = fields ! 0, ln_BPort = last fields\<rparr>]))"

definition parseCDPNeighbors :: "string \<Rightarrow> string \<Rightarrow> Link list" where
  "parseCDPNeighbors localHost output = concat (map (cdp_line localHost) (out_lines output))"

text \<open>\<open>identity=(\S+).*?interface=(\S+)\<close>: the leftmost start; of the first group the longest run that
  lets the rest match; of the gap the shortest.\<close>

definition run_of_word :: "string \<Rightarrow> string" where
  "run_of_word s = takeWhile (\<lambda>c. \<not> re_space c) s"

fun find_interface :: "string \<Rightarrow> string option" where
  "find_interface [] = None"
| "find_interface (c # s) =
     (if has_prefix (c # s) ''interface='' \<and> run_of_word (drop 10 (c # s)) \<noteq> []
      then Some (run_of_word (drop 10 (c # s)))
      else find_interface s)"

fun match_after_identity :: "nat \<Rightarrow> string \<Rightarrow> (string \<times> string) option" where
  "match_after_identity 0 s = None"
| "match_after_identity (Suc n) s = (case find_interface (drop (Suc n) s) of
     Some i \<Rightarrow> Some (take (Suc n) s, i) | None \<Rightarrow> match_after_identity n s)"

fun mikrotikNeighborRow :: "string \<Rightarrow> (string \<times> string) option" where
  "mikrotikNeighborRow [] = None"
| "mikrotikNeighborRow (c # s) =
     (case (if has_prefix (c # s) ''identity=''
            then (let r = drop 9 (c # s) in match_after_identity (length (run_of_word r)) r) else None) of
        Some m \<Rightarrow> Some m | None \<Rightarrow> mikrotikNeighborRow s)"

definition em_dash :: string where "em_dash = [CHR 0xE2, CHR 0x80, CHR 0x94]"

definition mikrotik_line :: "string \<Rightarrow> string \<Rightarrow> Link list" where
  "mikrotik_line localHost line = (case mikrotikNeighborRow line of
     None \<Rightarrow> []
   | Some (remoteHost, localPort) \<Rightarrow>
       if remoteHost = [] \<or> localPort = [] \<or> remoteHost = localHost then []
       else [\<lparr>ln_A = localHost, ln_APort = localPort, ln_B = remoteHost, ln_BPort = em_dash\<rparr>])"

definition parseMikrotikNeighbors :: "string \<Rightarrow> string \<Rightarrow> Link list" where
  "parseMikrotikNeighbors localHost output = concat (map (mikrotik_line localHost) (split_char CHR 0x0A output))"

definition FromNeighborOutput :: "string \<Rightarrow> string \<Rightarrow> Link list" where
  "FromNeighborOutput localHost output =
     (if str_contains output ''identity='' then parseMikrotikNeighbors localHost output
      else if str_contains (to_lower output) ''platform'' \<or> str_contains (to_lower output) ''holdtme''
      then parseCDPNeighbors localHost output
      else parseLLDPNeighbors localHost output)"

section \<open>Merging\<close>

definition end_a :: "Link \<Rightarrow> string" where "end_a l = ln_A l @ ''|'' @ ln_APort l"
definition end_b :: "Link \<Rightarrow> string" where "end_b l = ln_B l @ ''|'' @ ln_BPort l"

definition link_key :: "Link \<Rightarrow> string" where "link_key l = end_a l @ ''::'' @ end_b l"
definition link_rev :: "Link \<Rightarrow> string" where "link_rev l = end_b l @ ''::'' @ end_a l"

text \<open>The map \<open>seen\<close> as an association list and the set \<open>nodes\<close>, after each link.\<close>

definition see_link :: "Link \<Rightarrow> (string \<times> Link) list \<times> string set \<Rightarrow> (string \<times> Link) list \<times> string set" where
  "see_link l = (\<lambda>(seen, nodes).
     if map_of seen (link_rev l) \<noteq> None then (seen, nodes)
     else ((link_key l, l) # filter (\<lambda>e. fst e \<noteq> link_key l) seen, insert (ln_A l) (insert (ln_B l) nodes)))"

text \<open>\<open>perDevice\<close> lists the map's entries in the order of its iteration; \<open>iter\<close> is the order in which
  \<open>seen\<close> is read, so that a stable sort covers what the unstable one may return.\<close>

definition MergeGraph :: "(Link list \<Rightarrow> Link list) \<Rightarrow> (string \<times> Link list) list \<Rightarrow> Graph" where
  "MergeGraph iter perDevice = (case fold see_link (concat (map snd perDevice)) ([], {}) of
     (seen, nodes) \<Rightarrow>
       (let out = sort_key (\<lambda>l. (ln_A l, ln_APort l)) (iter (map snd seen))
        in \<lparr>gp_APIVersion = currentAPIVersion, gp_NodeCount = card nodes, gp_EdgeCount = length out, gp_Links = out\<rparr>))"

section \<open>The merged graph\<close>

definition flip_link :: "Link \<Rightarrow> Link" where
  "flip_link l = \<lparr>ln_A = ln_B l, ln_APort = ln_BPort l, ln_B = ln_A l, ln_BPort = ln_APort l\<rparr>"

text \<open>The edge without its direction, and its hosts.\<close>

definition link_ends :: "Link \<Rightarrow> (string \<times> string) set" where
  "link_ends l = {(ln_A l, ln_APort l), (ln_B l, ln_BPort l)}"

definition link_hosts :: "Link \<Rightarrow> string set" where
  "link_hosts l = {ln_A l, ln_B l}"

text \<open>Names without the two characters the keys are built with.\<close>

definition plain_link :: "Link \<Rightarrow> bool" where
  "plain_link l \<longleftrightarrow> list_all (\<lambda>s. CHR ''|'' \<notin> set s \<and> CHR '':'' \<notin> set s) [ln_A l, ln_APort l, ln_B l, ln_BPort l]"

lemma split_key: "c \<notin> set a \<Longrightarrow> c \<notin> set a' \<Longrightarrow> a @ c # b = a' @ c # b' \<Longrightarrow> a = a' \<and> b = b'"
proof (induction a arbitrary: a')
  case Nil
  then show ?case by (cases a') auto
next
  case (Cons x a)
  then show ?case by (cases a') auto
qed

lemma ends_inject:
  assumes "plain_link l" and "plain_link m" and "link_key l = link_key m"
  shows "l = m"
proof -
  have "end_a l @ CHR '':'' # CHR '':'' # end_b l = end_a m @ CHR '':'' # CHR '':'' # end_b m"
    using assms(3) by (simp add: link_key_def)
  moreover have "CHR '':'' \<notin> set (end_a l)" "CHR '':'' \<notin> set (end_a m)"
    using assms(1,2) by (auto simp: end_a_def plain_link_def)
  ultimately have e: "end_a l = end_a m" "end_b l = end_b m"
    using split_key [of "CHR '':''" "end_a l" "end_a m"] by blast+
  have a: "ln_A l @ CHR ''|'' # ln_APort l = ln_A m @ CHR ''|'' # ln_APort m"
    and b: "ln_B l @ CHR ''|'' # ln_BPort l = ln_B m @ CHR ''|'' # ln_BPort m"
    using e by (simp_all add: end_a_def end_b_def)
  have n: "CHR ''|'' \<notin> set (ln_A l)" "CHR ''|'' \<notin> set (ln_A m)" "CHR ''|'' \<notin> set (ln_B l)" "CHR ''|'' \<notin> set (ln_B m)"
    using assms(1,2) by (simp_all add: plain_link_def)
  from split_key [OF n(1,2) a] split_key [OF n(3,4) b] show ?thesis by (cases l; cases m) simp
qed

lemma flip_simps [simp]: "link_key (flip_link l) = link_rev l" "link_ends (flip_link l) = link_ends l"
  "link_hosts (flip_link l) = link_hosts l" "plain_link (flip_link l) = plain_link l"
  by (auto simp: flip_link_def link_key_def link_rev_def end_a_def end_b_def link_ends_def link_hosts_def plain_link_def)

lemma same_ends: "link_ends l = link_ends m \<longleftrightarrow> l = m \<or> l = flip_link m"
  by (auto simp: link_ends_def flip_link_def doubleton_eq_iff)

text \<open>What the loop has after the links \<open>ls\<close>: a list of links under their keys.\<close>

definition merged :: "Link list \<Rightarrow> (string \<times> Link) list \<times> string set \<Rightarrow> bool" where
  "merged ls st \<longleftrightarrow> (\<exists>vs. fst st = map (\<lambda>l. (link_key l, l)) vs \<and> set vs \<subseteq> set ls \<and> distinct (map link_ends vs) \<and>
     link_ends ` set vs = link_ends ` set ls \<and> snd st = \<Union> (link_hosts ` set vs))"

lemma keyed_lookup:
  assumes "\<forall>l \<in> set vs. plain_link l" and "plain_link m"
  shows "map_of (map (\<lambda>l. (link_key l, l)) vs) (link_key m) \<noteq> None \<longleftrightarrow> m \<in> set vs"
  using assms ends_inject by (auto simp: map_of_eq_None_iff image_image)

lemma see_link_merged:
  assumes "merged ls st" and "\<forall>l \<in> set (ls @ [l]). plain_link l"
  shows "merged (ls @ [l]) (see_link l st)"
proof -
  obtain vs where vs: "fst st = map (\<lambda>l. (link_key l, l)) vs" "set vs \<subseteq> set ls" "distinct (map link_ends vs)"
    "link_ends ` set vs = link_ends ` set ls" "snd st = \<Union> (link_hosts ` set vs)"
    using assms(1) unfolding merged_def by (elim exE conjE) (rule that)
  have pl: "\<forall>v \<in> set vs. plain_link v" "plain_link l" using assms(2) vs(2) by auto
  have rev: "map_of (fst st) (link_rev l) \<noteq> None \<longleftrightarrow> flip_link l \<in> set vs"
    unfolding vs(1) using keyed_lookup [OF pl(1), of "flip_link l"] pl(2) by (simp only: flip_simps simp_thms)
  show ?thesis
  proof (cases "flip_link l \<in> set vs")
    case True
    then have "link_ends (flip_link l) \<in> link_ends ` set vs" by (rule imageI)
    then have "link_ends l \<in> link_ends ` set vs" by (simp only: flip_simps)
    then have "link_ends ` set vs = link_ends ` set (ls @ [l])" using vs(4) by auto
    moreover have "see_link l st = st"
      using True rev by (cases st) (simp add: see_link_def)
    moreover have "set vs \<subseteq> set (ls @ [l])" using vs(2) by auto
    ultimately show ?thesis
      using vs(1,3,5) unfolding merged_def by (intro exI [of _ vs]) (simp only: simp_thms)
  next
    case False
    let ?ws = "l # filter (\<lambda>v. v \<noteq> l) vs"
    have "link_key v = link_key l \<longleftrightarrow> v = l" if "v \<in> set vs" for v
      using ends_inject [of v l] that pl by blast
    then have k: "filter (\<lambda>e. fst e \<noteq> link_key l) (map (\<lambda>l. (link_key l, l)) vs) =
        map (\<lambda>l. (link_key l, l)) (filter (\<lambda>v. v \<noteq> l) vs)"
      by (simp add: filter_map o_def cong: filter_cong)
    have "link_ends v \<noteq> link_ends l" if "v \<in> set vs" "v \<noteq> l" for v
      using that False unfolding same_ends by blast
    then have "link_ends l \<notin> link_ends ` set (filter (\<lambda>v. v \<noteq> l) vs)" by auto
    then have d: "distinct (map link_ends ?ws)" using distinct_map_filter [OF vs(3)] by simp
    have s: "set ?ws = insert l (set vs)" by auto
    have "map_of (fst st) (link_rev l) = None" using False rev by (simp only: simp_thms not_not)
    then have "see_link l st = (map (\<lambda>l. (link_key l, l)) ?ws, insert (ln_A l) (insert (ln_B l) (snd st)))"
      using k vs(1) by (cases st) (simp add: see_link_def)
    moreover have "insert (ln_A l) (insert (ln_B l) (snd st)) = \<Union> (link_hosts ` set ?ws)"
      unfolding s vs(5) by (simp add: link_hosts_def)
    moreover have "set ?ws \<subseteq> set (ls @ [l])" "link_ends ` set ?ws = link_ends ` set (ls @ [l])"
      using vs(2,4) unfolding s by auto
    ultimately show ?thesis using d unfolding merged_def
      by (intro exI [of _ ?ws]) (simp only: fst_conv snd_conv simp_thms)
  qed
qed

lemma fold_merged:
  "\<forall>l \<in> set ls. plain_link l \<Longrightarrow> merged ls (fold see_link ls ([], {}))"
proof (induction ls rule: rev_induct)
  case Nil
  show ?case by (simp add: merged_def)
next
  case (snoc l ls)
  then have "merged ls (fold see_link ls ([], {}))" by simp
  from see_link_merged [OF this snoc.prems] show ?case by simp
qed

text \<open>The merged graph has each link once: whatever order the maps are read in, the result holds,
  for every neighbour entry of the devices, exactly one link between the same two ports, in either
  direction, and no others; it is in order of host and port, and the counts are those of its links and
  of the hosts on them.\<close>
theorem merge_graph:
  assumes "\<forall>l \<in> set (concat (map snd perDevice)). plain_link l" and "\<And>xs. mset (iter xs) = mset xs"
    and "G = MergeGraph iter perDevice"
  shows "distinct (map link_ends (gp_Links G)) \<and>
    link_ends ` set (gp_Links G) = link_ends ` set (concat (map snd perDevice)) \<and>
    set (gp_Links G) \<subseteq> set (concat (map snd perDevice)) \<and>
    sorted (map (\<lambda>l. (ln_A l, ln_APort l)) (gp_Links G)) \<and>
    gp_EdgeCount G = card (link_ends ` set (gp_Links G)) \<and>
    gp_NodeCount G = card (\<Union> (link_hosts ` set (gp_Links G)))"
proof -
  obtain seen nodes where st: "fold see_link (concat (map snd perDevice)) ([], {}) = (seen, nodes)" by force
  with fold_merged [OF assms(1)] have "merged (concat (map snd perDevice)) (seen, nodes)" by (simp only: st)
  then obtain vs where vs: "seen = map (\<lambda>l. (link_key l, l)) vs" "set vs \<subseteq> set (concat (map snd perDevice))"
    "distinct (map link_ends vs)" "link_ends ` set vs = link_ends ` set (concat (map snd perDevice))"
    "nodes = \<Union> (link_hosts ` set vs)" unfolding merged_def fst_conv snd_conv by (elim exE conjE) (rule that)
  have m: "map snd seen = vs" by (simp add: vs(1) o_def)
  have G: "gp_Links G = sort_key (\<lambda>l. (ln_A l, ln_APort l)) (iter vs)" "gp_NodeCount G = card nodes"
    "gp_EdgeCount G = length (gp_Links G)"
    by (simp_all add: assms(3) MergeGraph_def st m Let_def)
  have ms: "mset (gp_Links G) = mset vs" by (simp add: G(1) assms(2))
  then have s: "set (gp_Links G) = set vs" by (rule mset_eq_setD)
  have "mset (map link_ends (gp_Links G)) = mset (map link_ends vs)" using ms by simp
  then have d: "distinct (map link_ends (gp_Links G))" using vs(3) by (metis mset_eq_imp_distinct_iff)
  then have "gp_EdgeCount G = card (link_ends ` set (gp_Links G))"
    using G(3) by (metis distinct_card length_map set_map)
  with d s vs(2,4,5) G(1,2) show ?thesis by simp
qed

definition demo_tables :: "(string \<times> Link list) list" where
  "demo_tables =
     [(''r1'', FromNeighborOutput ''r1'' ''Et1  001c.7300.1234  Et2  r2''),
      (''r2'', FromNeighborOutput ''r2'' ''Et2  001c.7300.9999  Et1  r1'')]"

theorem merge_graph_witness:
  "gp_EdgeCount (MergeGraph (\<lambda>xs. xs) demo_tables) = 1 \<and> gp_NodeCount (MergeGraph (\<lambda>xs. xs) demo_tables) = 2"
proof -
  have c: "map snd demo_tables = [[\<lparr>ln_A = ''r1'', ln_APort = ''Et1'', ln_B = ''r2'', ln_BPort = ''Et2''\<rparr>],
     [\<lparr>ln_A = ''r2'', ln_APort = ''Et2'', ln_B = ''r1'', ln_BPort = ''Et1''\<rparr>]]" by code_simp
  have l: "gp_Links (MergeGraph (\<lambda>xs. xs) demo_tables) = [\<lparr>ln_A = ''r1'', ln_APort = ''Et1'', ln_B = ''r2'', ln_BPort = ''Et2''\<rparr>]"
    by (simp add: MergeGraph_def c see_link_def Let_def link_key_def link_rev_def end_a_def end_b_def)
  have "gp_EdgeCount (MergeGraph (\<lambda>xs. xs) demo_tables) = card (link_ends ` set (gp_Links (MergeGraph (\<lambda>xs. xs) demo_tables))) \<and>
     gp_NodeCount (MergeGraph (\<lambda>xs. xs) demo_tables) = card (\<Union> (link_hosts ` set (gp_Links (MergeGraph (\<lambda>xs. xs) demo_tables))))"
    using merge_graph [of demo_tables "\<lambda>xs. xs" "MergeGraph (\<lambda>xs. xs) demo_tables"] by (simp add: c plain_link_def)
  then show ?thesis by (simp add: l link_hosts_def)
qed

end
