(* ===== verification/Search.thy ===== *)
theory Search
  imports Devices
begin

text \<open>
  Full-text search over the stored configurations (\<open>internal/search/search.go\<close>): the index, which
  keeps the latest document of an artefact, queries, and saved searches. What an FTS5 query
  matches and the snippet it shows are parameters.
\<close>

section \<open>Data\<close>

record doc_row =
  cs_rowid :: int
  cs_artifact :: string
  cs_body :: string
  cs_device :: int
  cs_sha :: string
  cs_tenant :: int

record saved_row =
  sv_id :: int
  sv_tenant :: int
  sv_user :: "int option"
  sv_name :: string
  sv_query :: string
  sv_channel :: "int option"
  sv_last_run :: "stamp option"
  sv_count :: int
  sv_created :: stamp

record search_db = device_db +
  config_search :: "doc_row list"
  saved_searches :: "saved_row sql_table"

record Hit =
  ht_DeviceID :: int
  ht_Hostname :: string
  ht_Artifact :: string
  ht_CommitSHA :: string
  ht_Snippet :: string

record SavedSearch =
  ss_ID :: int
  ss_Name :: string
  ss_Query :: string
  ss_NotifyChannelID :: "int option"
  ss_LastMatchCount :: int
  ss_LastRunAt :: time

text \<open>\<open>MATCH\<close> is an error of the query's syntax or tells whether artefact and body match.\<close>

record fts =
  ft_match :: "string \<Rightarrow> string + (string \<Rightarrow> string \<Rightarrow> bool)"
  ft_snippet :: "string \<Rightarrow> string \<Rightarrow> string"

section \<open>Operations\<close>

definition doc_at :: "int \<Rightarrow> int \<Rightarrow> string \<Rightarrow> doc_row \<Rightarrow> bool" where
  "doc_at tenantID deviceID artifact r \<longleftrightarrow> cs_tenant r = tenantID \<and> cs_device r = deviceID \<and> cs_artifact r = artifact"

text \<open>The row id of an FTS5 table is one above its largest.\<close>

definition next_doc :: "doc_row list \<Rightarrow> int" where
  "next_doc ds = foldl max 0 (map cs_rowid ds) + 1"

text \<open>\<open>Index\<close>: two statements without a transaction.\<close>

definition Index ::
  "int \<Rightarrow> int \<Rightarrow> string \<Rightarrow> string \<Rightarrow> string \<Rightarrow> search_db \<Rightarrow> (string + unit) \<times> search_db" where
  "Index tenantID deviceID artifact sha body s = exec id s (\<lambda>s.
     exec id (s\<lparr>config_search := filter (\<lambda>r. \<not> doc_at tenantID deviceID artifact r) (config_search s)\<rparr>) (\<lambda>s.
       let n = next_doc (config_search s) in
       (Inr (), s\<lparr>config_search := config_search s @ [\<lparr>cs_rowid = n, cs_artifact = artifact, cs_body = body,
          cs_device = deviceID, cs_sha = sha, cs_tenant = tenantID\<rparr>], last_rowid := n\<rparr>)))"

definition device_host :: "int \<Rightarrow> device_row sql_table \<Rightarrow> string" where
  "device_host i t = (case query_row (\<lambda>d. dv_id d = i) t of None \<Rightarrow> [] | Some d \<Rightarrow> dv_hostname d)"

definition hit_of :: "fts \<Rightarrow> string \<Rightarrow> device_row sql_table \<Rightarrow> doc_row \<Rightarrow> Hit" where
  "hit_of F q t r = \<lparr>ht_DeviceID = cs_device r, ht_Hostname = device_host (cs_device r) t,
     ht_Artifact = cs_artifact r, ht_CommitSHA = cs_sha r, ht_Snippet = ft_snippet F q (cs_body r)\<rparr>"

definition Query :: "fts \<Rightarrow> int \<Rightarrow> string \<Rightarrow> int \<Rightarrow> search_db \<Rightarrow> (string + Hit list) \<times> search_db" where
  "Query F tenantID q0 limit0 s =
     (let limit = (if limit0 \<le> 0 \<or> limit0 > 200 then 50 else limit0); q = trim_space q0 in
      if q = [] then (Inr [], s)
      else exec id s (\<lambda>s. case ft_match F q of
          Inl e \<Rightarrow> (Inl e, s)
        | Inr m \<Rightarrow> (Inr (map (hit_of F q (devices s)) (take (nat limit)
            (filter (\<lambda>r. cs_tenant r = tenantID \<and> m (cs_artifact r) (cs_body r)) (config_search s)))), s)))"

definition SaveSearch ::
  "time \<Rightarrow> int \<Rightarrow> int \<Rightarrow> string \<Rightarrow> string \<Rightarrow> int option \<Rightarrow> search_db \<Rightarrow> (string + int) \<times> search_db" where
  "SaveSearch now tenantID userID name q channel s = exec id s (\<lambda>s.
     let n = next_rowid (saved_searches s) in
     (Inr n, s\<lparr>saved_searches := insert_row (\<lambda>n. \<lparr>sv_id = n, sv_tenant = tenantID,
        sv_user = (if userID > 0 then Some userID else None), sv_name = name, sv_query = q, sv_channel = channel,
        sv_last_run = None, sv_count = 0, sv_created = rfc3339 now\<rparr>) (saved_searches s), last_rowid := n\<rparr>))"

definition saved_of :: "saved_row \<Rightarrow> SavedSearch" where
  "saved_of r = \<lparr>ss_ID = sv_id r, ss_Name = sv_name r, ss_Query = sv_query r, ss_NotifyChannelID = sv_channel r,
     ss_LastMatchCount = sv_count r, ss_LastRunAt = (case sv_last_run r of None \<Rightarrow> zero_time | Some t \<Rightarrow> of_stamp t)\<rparr>"

definition ListSaved :: "int \<Rightarrow> search_db \<Rightarrow> (string + SavedSearch list) \<times> search_db" where
  "ListSaved tenantID s = exec id s (\<lambda>s.
     (Inr (map saved_of (order_asc sv_name (filter (\<lambda>r. sv_tenant r = tenantID) (rows (saved_searches s))))), s))"

section \<open>The index is a map of the latest documents\<close>

text \<open>The documents as a map from tenant, device and artefact.\<close>

definition index_map :: "search_db \<Rightarrow> int \<times> int \<times> string \<Rightarrow> (string \<times> string) option" where
  "index_map s = (\<lambda>(t, d, a). map_option (\<lambda>r. (cs_sha r, cs_body r)) (find (doc_at t d a) (config_search s)))"

definition doc_key :: "doc_row \<Rightarrow> int \<times> int \<times> string" where
  "doc_key r = (cs_tenant r, cs_device r, cs_artifact r)"

definition index_inv :: "search_db \<Rightarrow> bool" where
  "index_inv s \<longleftrightarrow> distinct (map doc_key (config_search s))"

lemma doc_at_key: "doc_at t d a r \<longleftrightarrow> doc_key r = (t, d, a)"
  by (auto simp: doc_at_def doc_key_def)

lemma find_filter_other:
  "k \<noteq> k' \<Longrightarrow> find (\<lambda>r. key r = k) (filter (\<lambda>r. key r \<noteq> k') xs) = find (\<lambda>r. key r = k) xs"
  by (induction xs) auto

lemma find_append: "find P (xs @ ys) = (case find P xs of None \<Rightarrow> find P ys | Some x \<Rightarrow> Some x)"
  by (induction xs) auto

lemma index_step:
  fixes s :: search_db
  assumes "index_inv s" and "faults s = []" and "Index t d a sha body s = (r, s')"
  shows "r = Inr ()" and "faults s' = []" and "index_inv s'"
    and "index_map s' = (index_map s)((t, d, a) \<mapsto> (sha, body))" and "devices s' = devices s"
proof -
  let ?keep = "filter (\<lambda>r. doc_key r \<noteq> (t, d, a)) (config_search s)"
  let ?row = "\<lambda>n. \<lparr>cs_rowid = n, cs_artifact = a, cs_body = body, cs_device = d, cs_sha = sha, cs_tenant = t\<rparr>"
  have s': "r = Inr ()" "s' = s\<lparr>config_search := ?keep @ [?row (next_doc ?keep)], last_rowid := next_doc ?keep\<rparr>"
    using assms(2,3) by (simp_all add: Index_def Let_def doc_at_key)
  then show "r = Inr ()" "faults s' = []" "devices s' = devices s" using assms(2) by simp_all
  have k: "doc_key (?row n) = (t, d, a)" for n by (simp add: doc_key_def)
  show "index_inv s'"
    using assms(1) by (auto simp: s' index_inv_def k distinct_map_filter)
  have none: "find (\<lambda>r. doc_key r = (t, d, a)) ?keep = None" by (auto simp: find_None_iff)
  show "index_map s' = (index_map s)((t, d, a) \<mapsto> (sha, body))"
  proof
    fix key :: "int \<times> int \<times> string"
    obtain t' d' a' where key: "key = (t', d', a')" by (rule prod_cases3)
    show "index_map s' key = ((index_map s)((t, d, a) \<mapsto> (sha, body))) key"
    proof (cases "key = (t, d, a)")
      case True
      with key none show ?thesis by (simp add: index_map_def s' find_append doc_at_key [abs_def] doc_key_def)
    next
      case False
      then have "find (\<lambda>r. doc_key r = key) ?keep = find (\<lambda>r. doc_key r = key) (config_search s)"
        by (rule find_filter_other)
      with False key show ?thesis
        by (auto simp: index_map_def s' find_append doc_at_key [abs_def] k split: option.splits)
    qed
  qed
qed

fun index_all :: "(int \<times> int \<times> string \<times> string \<times> string) list \<Rightarrow> search_db \<Rightarrow> search_db" where
  "index_all [] s = s"
| "index_all ((t, d, a, sha, body) # is) s = index_all is (snd (Index t d a sha body s))"

lemma index_all_map:
  "index_inv s \<Longrightarrow> faults s = [] \<Longrightarrow>
     index_inv (index_all is s) \<and> faults (index_all is s) = [] \<and>
     index_map (index_all is s) = fold (\<lambda>(t, d, a, sha, body) m. m((t, d, a) \<mapsto> (sha, body))) is (index_map s)"
proof (induction "is" s rule: index_all.induct)
  case (2 t d a sha body "is" s)
  obtain r s' where i: "Index t d a sha body s = (r, s')" by force
  with index_step [OF "2.prems" i] "2.IH" show ?case by simp
qed simp

lemma find_key:
  "distinct (map key xs) \<Longrightarrow> find (\<lambda>r. key r = k) xs = Some r \<longleftrightarrow> r \<in> set xs \<and> key r = k"
  by (induction xs) (auto simp: image_iff)

lemma index_map_Some:
  assumes "index_inv s"
  shows "index_map s (t, d, a) = Some (sha, body) \<longleftrightarrow>
    (\<exists>r \<in> set (config_search s). doc_key r = (t, d, a) \<and> cs_sha r = sha \<and> cs_body r = body)"
proof -
  have "find (doc_at t d a) (config_search s) = Some r \<longleftrightarrow> r \<in> set (config_search s) \<and> doc_key r = (t, d, a)" for r
    unfolding doc_at_key [abs_def] using assms by (intro find_key) (simp add: index_inv_def)
  then show ?thesis unfolding index_map_def by (simp add: map_option_eq_Some) blast
qed

text \<open>The hits of a query that is not cut off.\<close>

definition all_hits :: "fts \<Rightarrow> int \<Rightarrow> string \<Rightarrow> (string \<Rightarrow> string \<Rightarrow> bool) \<Rightarrow> search_db \<Rightarrow> Hit list" where
  "all_hits F t q m s = map (hit_of F q (devices s))
     (filter (\<lambda>r. cs_tenant r = t \<and> m (cs_artifact r) (cs_body r)) (config_search s))"

lemma all_hits_spec:
  assumes "index_inv s"
  shows "distinct (map (\<lambda>h. (ht_DeviceID h, ht_Artifact h)) (all_hits F t q m s))"
    and "(\<exists>h \<in> set (all_hits F t q m s). ht_DeviceID h = d \<and> ht_Artifact h = a \<and> ht_CommitSHA h = sha) \<longleftrightarrow>
      (\<exists>body. index_map s (t, d, a) = Some (sha, body) \<and> m a body)"
proof -
  let ?ms = "filter (\<lambda>r. cs_tenant r = t \<and> m (cs_artifact r) (cs_body r)) (config_search s)"
  have "distinct (map doc_key ?ms)" using assms by (simp add: index_inv_def distinct_map_filter)
  moreover have "map doc_key ?ms = map (Pair t) (map (\<lambda>r. (cs_device r, cs_artifact r)) ?ms)"
    by (auto simp: doc_key_def)
  ultimately have "distinct (map (Pair t) (map (\<lambda>r. (cs_device r, cs_artifact r)) ?ms))" by (simp only:)
  then have "distinct (map (\<lambda>r. (cs_device r, cs_artifact r)) ?ms)" by (rule distinct_map [THEN iffD1, THEN conjunct1])
  then show "distinct (map (\<lambda>h. (ht_DeviceID h, ht_Artifact h)) (all_hits F t q m s))"
    by (simp add: all_hits_def hit_of_def o_def)
  show "(\<exists>h \<in> set (all_hits F t q m s). ht_DeviceID h = d \<and> ht_Artifact h = a \<and> ht_CommitSHA h = sha) \<longleftrightarrow>
      (\<exists>body. index_map s (t, d, a) = Some (sha, body) \<and> m a body)"
  proof
    assume "\<exists>h \<in> set (all_hits F t q m s). ht_DeviceID h = d \<and> ht_Artifact h = a \<and> ht_CommitSHA h = sha"
    then obtain r where "r \<in> set (config_search s)" "cs_tenant r = t" "m (cs_artifact r) (cs_body r)"
      "cs_device r = d" "cs_artifact r = a" "cs_sha r = sha"
      by (auto simp: all_hits_def hit_of_def)
    then show "\<exists>body. index_map s (t, d, a) = Some (sha, body) \<and> m a body"
      by (intro exI [of _ "cs_body r"]) (auto simp: index_map_Some [OF assms] doc_key_def)
  next
    assume "\<exists>body. index_map s (t, d, a) = Some (sha, body) \<and> m a body"
    then obtain r where "r \<in> set (config_search s)" "doc_key r = (t, d, a)" "cs_sha r = sha" "m a (cs_body r)"
      by (auto simp: index_map_Some [OF assms])
    then show "\<exists>h \<in> set (all_hits F t q m s). ht_DeviceID h = d \<and> ht_Artifact h = a \<and> ht_CommitSHA h = sha"
      by (auto simp: all_hits_def hit_of_def doc_key_def)
  qed
qed

text \<open>The index is a map: with a working database, after any sequence of \<open>Index\<close> calls the index
  holds for each tenant, device and artefact exactly the last commit and text indexed for it, and a
  query's hits are that tenant's matching entries of the map, each once.\<close>
theorem index_refines_map:
  assumes "index_inv s" and "faults s = []" and "s' = index_all is s"
    and "trim_space q \<noteq> []" and "ft_match F (trim_space q) = Inr m" and "length (config_search s') \<le> 50"
  shows "index_map s' = fold (\<lambda>(t, d, a, sha, body) m. m((t, d, a) \<mapsto> (sha, body))) is (index_map s) \<and>
    (\<exists>hits. Query F t q 0 s' = (Inr hits, s') \<and> distinct (map (\<lambda>h. (ht_DeviceID h, ht_Artifact h)) hits) \<and>
       (\<forall>d a sha. (\<exists>h \<in> set hits. ht_DeviceID h = d \<and> ht_Artifact h = a \<and> ht_CommitSHA h = sha) \<longleftrightarrow>
          (\<exists>body. index_map s' (t, d, a) = Some (sha, body) \<and> m a body)))"
proof
  have i: "index_inv s'" and f: "faults s' = []" and
    im: "index_map s' = fold (\<lambda>(t, d, a, sha, body) m. m((t, d, a) \<mapsto> (sha, body))) is (index_map s)"
    using index_all_map [OF assms(1,2), of "is"] assms(3) by auto
  show "index_map s' = fold (\<lambda>(t, d, a, sha, body) m. m((t, d, a) \<mapsto> (sha, body))) is (index_map s)" by (rule im)
  have "length (filter (\<lambda>r. cs_tenant r = t \<and> m (cs_artifact r) (cs_body r)) (config_search s')) \<le> 50"
    by (rule order_trans [OF length_filter_le assms(6)])
  then have "Query F t q 0 s' = (Inr (all_hits F t (trim_space q) m s'), s')"
    using assms(4,5) f by (simp add: Query_def Let_def all_hits_def)
  then show "\<exists>hits. Query F t q 0 s' = (Inr hits, s') \<and> distinct (map (\<lambda>h. (ht_DeviceID h, ht_Artifact h)) hits) \<and>
       (\<forall>d a sha. (\<exists>h \<in> set hits. ht_DeviceID h = d \<and> ht_Artifact h = a \<and> ht_CommitSHA h = sha) \<longleftrightarrow>
          (\<exists>body. index_map s' (t, d, a) = Some (sha, body) \<and> m a body))"
    by (intro exI [of _ "all_hits F t (trim_space q) m s'"] conjI allI all_hits_spec [OF i])
qed

definition demo_fts :: fts where
  "demo_fts = \<lparr>ft_match = (\<lambda>q. Inr (\<lambda>a b. str_contains b q)), ft_snippet = (\<lambda>q b. b)\<rparr>"

definition empty_search :: search_db where
  "empty_search = \<lparr>faults = [], last_rowid = 0, audit_log = empty_table, device_groups = empty_table,
     devices = empty_table, config_search = [], saved_searches = empty_table\<rparr>"

definition demo_docs :: "(int \<times> int \<times> string \<times> string \<times> string) list" where
  "demo_docs = [(1, 7, ''running-config'', ''c1'', ''vlan 5''), (2, 8, ''running-config'', ''c2'', ''vlan 6''),
     (1, 7, ''running-config'', ''c3'', ''vlan 6'')]"

theorem index_refines_map_witness:
  "index_map (index_all demo_docs empty_search) (1, 7, ''running-config'') = Some (''c3'', ''vlan 6'') \<and>
   (\<exists>hits. Query demo_fts 1 '' vlan 6 '' 0 (index_all demo_docs empty_search) = (Inr hits, index_all demo_docs empty_search) \<and>
      (\<exists>h \<in> set hits. ht_DeviceID h = 7 \<and> ht_Artifact h = ''running-config'' \<and> ht_CommitSHA h = ''c3''))"
proof -
  have t: "trim_space '' vlan 6 '' = ''vlan 6''" by code_simp
  have l: "length (config_search (index_all demo_docs empty_search)) \<le> 50" by code_simp
  have e: "index_inv empty_search" "faults empty_search = []" by (simp_all add: index_inv_def empty_search_def)
  have m: "ft_match demo_fts (trim_space '' vlan 6 '') = Inr (\<lambda>a b. str_contains b ''vlan 6'')" by (simp add: demo_fts_def t)
  have c: "str_contains ''vlan 6'' ''vlan 6''" by code_simp
  from index_refines_map [OF e refl _ m l, where t = 1] t
  have i: "index_map (index_all demo_docs empty_search) =
      fold (\<lambda>(t, d, a, sha, body) m. m((t, d, a) \<mapsto> (sha, body))) demo_docs (index_map empty_search)"
    and h: "\<exists>hits. Query demo_fts 1 '' vlan 6 '' 0 (index_all demo_docs empty_search) = (Inr hits, index_all demo_docs empty_search) \<and>
      (\<forall>d a sha. (\<exists>h \<in> set hits. ht_DeviceID h = d \<and> ht_Artifact h = a \<and> ht_CommitSHA h = sha) \<longleftrightarrow>
        (\<exists>body. index_map (index_all demo_docs empty_search) (1, d, a) = Some (sha, body) \<and> str_contains body ''vlan 6''))"
    by auto
  have "index_map (index_all demo_docs empty_search) (1, 7, ''running-config'') = Some (''c3'', ''vlan 6'')"
    unfolding i by (simp add: demo_docs_def)
  with h c show ?thesis by metis
qed

text \<open>A failing insert after the delete leaves the artefact out of the index.\<close>

lemma index_lost:
  assumes "faults s = [None, Some e]" and "config_search s = [r]" and "doc_at t d a r"
  shows "Index t d a sha body s = (Inl e, s\<lparr>faults := [], config_search := []\<rparr>)"
  using assms by (simp add: Index_def exec_def stmt_def)

end
