(* ===== verification/Probes.thy ===== *)
theory Probes
  imports Sql "HOL-Library.List_Lexorder" "HOL-Library.Char_ord"
begin

text \<open>
  Runtime probes (\<open>internal/probes/probes.go\<close>): their definitions and the history of their runs.
  The schema makes a probe's name unique across all tenants and deletes the runs with the probe.
\<close>

record Probe =
  pb_ID :: int
  pb_TenantID :: int
  pb_Name :: string
  pb_Command :: string
  pb_IntervalS :: int

record ProbeRun =
  prn_ID :: int
  prn_ProbeID :: int
  prn_DeviceID :: int
  prn_Output :: string
  prn_Error :: string
  prn_CreatedAt :: time

record probe_row =
  po_id :: int
  po_tenant :: int
  po_name :: string
  po_command :: string
  po_interval :: int
  po_created :: stamp

record prun_row =
  pu_id :: int
  pu_probe :: int
  pu_device :: int
  pu_output :: string
  pu_error :: string
  pu_created :: stamp

record probe_db = conn +
  probes :: "probe_row sql_table"
  probe_runs :: "prun_row sql_table"

datatype probe_err = PbRequired | PbDB string

definition CreateProbe :: "time \<Rightarrow> Probe \<Rightarrow> probe_db \<Rightarrow> (probe_err + Probe) \<times> probe_db" where
  "CreateProbe now p0 s =
     (if pb_Name p0 = [] \<or> pb_Command p0 = [] then (Inl PbRequired, s)
      else (let p = (if pb_IntervalS p0 \<le> 0 then p0\<lparr>pb_IntervalS := 300\<rparr> else p0) in
        exec PbDB s (\<lambda>s.
          if list_ex (\<lambda>r. po_name r = pb_Name p) (rows (probes s)) then (Inl (PbDB ''UNIQUE constraint failed''), s)
          else (let n = next_rowid (probes s) in
            (Inr (p\<lparr>pb_ID := n\<rparr>),
             s\<lparr>probes := insert_row (\<lambda>n. \<lparr>po_id = n, po_tenant = pb_TenantID p, po_name = pb_Name p,
                  po_command = pb_Command p, po_interval = pb_IntervalS p, po_created = rfc3339 now\<rparr>) (probes s),
               last_rowid := n\<rparr>)))))"

definition probe_of :: "probe_row \<Rightarrow> Probe" where
  "probe_of r = \<lparr>pb_ID = po_id r, pb_TenantID = po_tenant r, pb_Name = po_name r, pb_Command = po_command r,
     pb_IntervalS = po_interval r\<rparr>"

definition ListProbes :: "int \<Rightarrow> probe_db \<Rightarrow> (probe_err + Probe list) \<times> probe_db" where
  "ListProbes tenantID s = exec PbDB s (\<lambda>s.
     (Inr (map probe_of (order_asc po_name (filter (\<lambda>r. po_tenant r = tenantID) (rows (probes s))))), s))"

definition DeleteProbe :: "int \<Rightarrow> int \<Rightarrow> probe_db \<Rightarrow> (probe_err + unit) \<times> probe_db" where
  "DeleteProbe tenantID i s = exec PbDB s (\<lambda>s.
     (Inr (), if affected (\<lambda>r. po_tenant r = tenantID \<and> po_id r = i) (probes s) = 0 then s
       else s\<lparr>probes := delete_rows (\<lambda>r. po_tenant r = tenantID \<and> po_id r = i) (probes s),
              probe_runs := delete_rows (\<lambda>r. pu_probe r = i) (probe_runs s)\<rparr>))"

text \<open>The error of the run, if it had one, is stored as its text. A device that does not exist is one
  of the statement's faults.\<close>

definition RecordRun ::
  "time \<Rightarrow> int \<Rightarrow> int \<Rightarrow> string \<Rightarrow> string option \<Rightarrow> probe_db \<Rightarrow> (probe_err + unit) \<times> probe_db" where
  "RecordRun now probeID deviceID output runErr s = exec PbDB s (\<lambda>s.
     if \<not> list_ex (\<lambda>r. po_id r = probeID) (rows (probes s)) then (Inl (PbDB ''FOREIGN KEY constraint failed''), s)
     else (Inr (), s\<lparr>probe_runs := insert_row (\<lambda>n. \<lparr>pu_id = n, pu_probe = probeID, pu_device = deviceID,
            pu_output = output, pu_error = (case runErr of None \<Rightarrow> [] | Some e \<Rightarrow> e), pu_created = rfc3339 now\<rparr>)
            (probe_runs s), last_rowid := next_rowid (probe_runs s)\<rparr>))"

definition run_of_row :: "prun_row \<Rightarrow> ProbeRun" where
  "run_of_row r = \<lparr>prn_ID = pu_id r, prn_ProbeID = pu_probe r, prn_DeviceID = pu_device r, prn_Output = pu_output r,
     prn_Error = pu_error r, prn_CreatedAt = of_stamp (pu_created r)\<rparr>"

definition LatestRuns :: "int \<Rightarrow> int \<Rightarrow> probe_db \<Rightarrow> (probe_err + ProbeRun list) \<times> probe_db" where
  "LatestRuns probeID limit0 s =
     (let limit = (if limit0 \<le> 0 \<or> limit0 > 500 then 100 else limit0) in
      exec PbDB s (\<lambda>s. (Inr (map run_of_row (take (nat limit)
        (order_desc pu_created (filter (\<lambda>r. pu_probe r = probeID) (rows (probe_runs s)))))), s)))"

definition PruneOlderThan :: "time \<Rightarrow> probe_db \<Rightarrow> (probe_err + int) \<times> probe_db" where
  "PruneOlderThan t s = exec PbDB s (\<lambda>s.
     (Inr (int (affected (\<lambda>r. pu_created r < rfc3339 t) (probe_runs s))),
      s\<lparr>probe_runs := delete_rows (\<lambda>r. pu_created r < rfc3339 t) (probe_runs s)\<rparr>))"

section \<open>Retention\<close>

text \<open>A prune removes no run that is not older than the limit, in whole seconds, and reports how many
  it removed.\<close>

lemma prune_exact:
  assumes "faults s = []" and "PruneOlderThan t s = (Inr n, s')"
  shows "n = int (length (rows (probe_runs s))) - int (length (rows (probe_runs s'))) \<and>
    (\<forall>r. r \<in> set (rows (probe_runs s')) \<longleftrightarrow> r \<in> set (rows (probe_runs s)) \<and> of_stamp (pu_created r) > t - second)"
proof -
  have s': "n = int (affected (\<lambda>r. pu_created r < rfc3339 t) (probe_runs s))"
    "s' = s\<lparr>probe_runs := delete_rows (\<lambda>r. pu_created r < rfc3339 t) (probe_runs s)\<rparr>"
    using assms by (simp_all add: PruneOlderThan_def)
  have "rfc3339 t \<le> u \<longleftrightarrow> t - second < of_stamp u" for u
  proof -
    have "rfc3339 t \<le> u \<longleftrightarrow> \<not> (u + 1 \<le> rfc3339 t)" by auto
    also have "u + 1 \<le> rfc3339 t \<longleftrightarrow> (u + 1) * second \<le> t"
    proof
      assume "u + 1 \<le> rfc3339 t"
      then have "of_stamp (u + 1) \<le> of_stamp (rfc3339 t)" by (simp add: of_stamp_def second_def)
      with of_stamp_le [of t] show "(u + 1) * second \<le> t" by (simp add: of_stamp_def)
    next
      assume "(u + 1) * second \<le> t"
      then have "rfc3339 (of_stamp (u + 1)) \<le> rfc3339 t" by (intro rfc3339_mono) (simp add: of_stamp_def)
      then show "u + 1 \<le> rfc3339 t" by simp
    qed
    finally show ?thesis by (simp add: of_stamp_def algebra_simps not_le)
  qed
  moreover have "length xs = length (filter P xs) + length (filter (\<lambda>x. \<not> P x) xs)" for P and xs :: "prun_row list"
    using sum_length_filter_compl [of P xs] by simp
  from this [of "rows (probe_runs s)" "\<lambda>r. pu_created r < rfc3339 t"]
  have "n = int (length (rows (probe_runs s))) - int (length (rows (probe_runs s')))"
    by (simp add: s' affected_def)
  ultimately show ?thesis by (simp add: s' not_less)
qed

text \<open>The listing is newest first and holds at most the limit.\<close>

lemma latest_runs_sorted:
  assumes "LatestRuns i limit s = (Inr rs, s')"
  shows "sorted (map (\<lambda>r. - prn_CreatedAt r) rs) \<and> length rs \<le> 500 \<and> (\<forall>r \<in> set rs. prn_ProbeID r = i)"
proof -
  define l where "l = nat (if limit \<le> 0 \<or> limit > 500 then 100 else limit)"
  have "post (\<lambda>r s'. \<forall>rs. r = Inr rs \<longrightarrow> rs = map run_of_row (take l
      (order_desc pu_created (filter (\<lambda>r. pu_probe r = i) (rows (probe_runs s)))))) (LatestRuns i limit s)"
    unfolding LatestRuns_def Let_def l_def by (rule post_exec) auto
  moreover have "l \<le> 500" by (cases "limit \<le> 0 \<or> limit > 500") (simp_all add: l_def nat_le_iff)
  ultimately have l: "l \<le> 500" "rs = map run_of_row (take l
      (order_desc pu_created (filter (\<lambda>r. pu_probe r = i) (rows (probe_runs s)))))"
    using assms by (simp_all add: post_def)
  let ?xs = "order_desc pu_created (filter (\<lambda>r. pu_probe r = i) (rows (probe_runs s)))"
  have "sorted (map (\<lambda>r. - pu_created r) ?xs)" by (simp add: order_desc_def)
  then have "sorted (map (\<lambda>r. - of_stamp (pu_created r)) ?xs)"
    by (auto simp: sorted_map of_stamp_def second_def elim: sorted_wrt_mono_rel [rotated])
  then have "sorted (map (\<lambda>r. - of_stamp (pu_created r)) (take k ?xs))" for k
    unfolding take_map [symmetric] by (rule sorted_wrt_take)
  with l show ?thesis
    by (auto simp: run_of_row_def o_def dest: in_set_takeD)
qed

end
