(* ===== verification/GitOps.thy ===== *)
theory GitOps
  imports Vault ConfigStore
begin

text \<open>
  Mirroring of the device repositories to a remote (\<open>internal/gitops/gitops.go\<close>): the mirror of a
  tenant, with its credential sealed, and the push of one device's repository. go-git is a
  parameter: opening a repository, making its remote and pushing.
\<close>

record Mirror =
  mi_TenantID :: int
  mi_RemoteURL :: string
  mi_Branch :: string
  mi_LastPushAt :: time

record mirror_row =
  gm_tenant :: int
  gm_url :: string
  gm_branch :: string
  gm_envelope :: string
  gm_last_push :: "stamp option"

record gitops_db = conn +
  gitops_mirrors :: "mirror_row list"

datatype gitops_err = GoRequired | GoSeal seal_err | GoDB string | GoNoRows | GoStore string | GoGit string

datatype push_result = Pushed | AlreadyUpToDate | PushErr string

text \<open>What was pushed: the repository, the remote and the user and password, if any.\<close>

record push_op =
  po_repo :: string
  po_url :: string
  po_auth :: "(string \<times> string) option"

record git_remote =
  gr_open :: "string \<Rightarrow> string option"
  gr_create_remote :: "string \<Rightarrow> string \<Rightarrow> string option"
  gr_push :: "push_op \<Rightarrow> push_result"

definition mirror_of :: "int \<Rightarrow> gitops_db \<Rightarrow> mirror_row option" where
  "mirror_of t s = find (\<lambda>r. gm_tenant r = t) (gitops_mirrors s)"

definition set_mirror :: "int \<Rightarrow> string \<Rightarrow> string \<Rightarrow> string \<Rightarrow> gitops_db \<Rightarrow> gitops_db" where
  "set_mirror t url branch env s =
     (if mirror_of t s \<noteq> None
      then s\<lparr>gitops_mirrors := map (\<lambda>r. if gm_tenant r = t
               then r\<lparr>gm_url := url, gm_branch := branch, gm_envelope := env\<rparr> else r) (gitops_mirrors s)\<rparr>
      else s\<lparr>gitops_mirrors := gitops_mirrors s @ [\<lparr>gm_tenant = t, gm_url = url, gm_branch = branch,
               gm_envelope = env, gm_last_push = None\<rparr>], last_rowid := t\<rparr>)"

definition Configure ::
  "aead \<Rightarrow> string \<Rightarrow> string option \<Rightarrow> string option \<Rightarrow> int \<Rightarrow> string \<Rightarrow> string \<Rightarrow> string \<Rightarrow> gitops_db
    \<Rightarrow> (gitops_err + unit) \<times> gitops_db" where
  "Configure A master r1 r2 tenantID remoteURL branch0 token s =
     (if remoteURL = [] then (Inl GoRequired, s)
      else (let branch = (if branch0 = [] then ''main'' else branch0) in
        case (if token \<noteq> [] then Seal A master r1 r2 token else Inr []) of
          Inl e \<Rightarrow> (Inl (GoSeal e), s)
        | Inr env \<Rightarrow> exec GoDB s (\<lambda>s. (Inr (), set_mirror tenantID remoteURL branch env s))))"

definition GetMirror :: "int \<Rightarrow> gitops_db \<Rightarrow> (gitops_err + Mirror option) \<times> gitops_db" where
  "GetMirror tenantID s = exec GoDB s (\<lambda>s. (Inr (map_option (\<lambda>r. \<lparr>mi_TenantID = gm_tenant r, mi_RemoteURL = gm_url r,
     mi_Branch = gm_branch r, mi_LastPushAt = (case gm_last_push r of None \<Rightarrow> zero_time | Some t \<Rightarrow> of_stamp t)\<rparr>)
     (mirror_of tenantID s)), s))"

definition mirror_auth ::
  "aead \<Rightarrow> string \<Rightarrow> int \<Rightarrow> gitops_db \<Rightarrow> (gitops_err + (string \<times> string) option) \<times> gitops_db" where
  "mirror_auth A master tenantID s = exec GoDB s (\<lambda>s. case mirror_of tenantID s of
     None \<Rightarrow> (Inl GoNoRows, s)
   | Some r \<Rightarrow>
       (if gm_envelope r = [] then Inr None
        else (case Open A master (gm_envelope r) of Inl e \<Rightarrow> Inl (GoSeal e) | Inr pt \<Rightarrow> Inr (Some (''git'', pt))), s))"

text \<open>The push and its outcome; the time of the last push is written without looking at the error.\<close>

definition PushDevice ::
  "aead \<Rightarrow> string \<Rightarrow> git_remote \<Rightarrow> string \<Rightarrow> time \<Rightarrow> int \<Rightarrow> int \<Rightarrow> gitops_db
    \<Rightarrow> (gitops_err + unit) \<times> gitops_db \<times> push_op list" where
  "PushDevice A master G root now tenantID deviceID s = (case GetMirror tenantID s of
     (Inl e, s) \<Rightarrow> (Inl e, s, [])
   | (Inr None, s) \<Rightarrow> (Inr (), s, [])
   | (Inr (Some m), s) \<Rightarrow> (case RepoPath root tenantID deviceID of
       Inl e \<Rightarrow> (Inl (GoStore e), s, [])
     | Inr path \<Rightarrow> (case gr_open G path of
         Some e \<Rightarrow> (Inl (GoGit e), s, [])
       | None \<Rightarrow> (case gr_create_remote G path (mi_RemoteURL m) of
           Some e \<Rightarrow> (Inl (GoGit e), s, [])
         | None \<Rightarrow> (case mirror_auth A master tenantID s of
             (Inl e, s) \<Rightarrow> (Inl e, s, [])
           | (Inr au, s) \<Rightarrow>
               (let op = \<lparr>po_repo = path, po_url = mi_RemoteURL m, po_auth = au\<rparr> in
                case gr_push G op of
                  PushErr e \<Rightarrow> (Inl (GoGit e), s, [op])
                | _ \<Rightarrow> (Inr (), exec_quiet s (\<lambda>s. s\<lparr>gitops_mirrors := map (\<lambda>r. if gm_tenant r = tenantID
                      then r\<lparr>gm_last_push := Some (rfc3339 now)\<rparr> else r) (gitops_mirrors s)\<rparr>), [op])))))))"

section \<open>A push uses the tenant's own remote and token\<close>

lemma find_map_mirror:
  "(\<And>r. gm_tenant (f r) = gm_tenant r) \<Longrightarrow>
     find (\<lambda>r. gm_tenant r = u) (map f xs) = map_option f (find (\<lambda>r. gm_tenant r = u) xs)"
  by (induction xs) auto

lemma find_snoc: "find P (xs @ [x]) = (case find P xs of None \<Rightarrow> if P x then Some x else None | Some y \<Rightarrow> Some y)"
  by (induction xs) auto

lemma mirror_of_tenant: "mirror_of u s = Some r \<Longrightarrow> gm_tenant r = u"
  by (auto simp: mirror_of_def find_Some_iff)

lemma mirror_set: "mirror_of u (set_mirror t url branch env s) =
    (if u = t then Some (case mirror_of t s of
        None \<Rightarrow> \<lparr>gm_tenant = t, gm_url = url, gm_branch = branch, gm_envelope = env, gm_last_push = None\<rparr>
      | Some r \<Rightarrow> r\<lparr>gm_url := url, gm_branch := branch, gm_envelope := env\<rparr>)
     else mirror_of u s)"
proof (cases "mirror_of t s")
  case None
  then show ?thesis
    by (simp add: set_mirror_def) (simp add: mirror_of_def find_snoc split: option.splits)
next
  case (Some r)
  let ?f = "\<lambda>r. if gm_tenant r = t then r\<lparr>gm_url := url, gm_branch := branch, gm_envelope := env\<rparr> else r"
  have "mirror_of u (set_mirror t url branch env s) = map_option ?f (mirror_of u s)"
    using Some by (simp add: set_mirror_def) (simp add: mirror_of_def find_map_mirror)
  moreover have "map_option ?f (mirror_of u s) = mirror_of u s" if "u \<noteq> t"
    using that by (cases "mirror_of u s") (simp_all add: mirror_of_tenant)
  ultimately show ?thesis
    using Some mirror_of_tenant [OF Some] by simp
qed

lemma mirror_push:
  assumes "gcm_correct A" and "fills saltLen r1" and "fills nonceLen r2"
    and "Configure A master r1 r2 t url branch token s = (Inr (), s1)" and "faults s1 = []"
    and "RepoPath root t d = Inr path" and "gr_open G path = None" and "gr_create_remote G path url = None"
  shows "snd (snd (PushDevice A master G root now t d s1)) =
    [\<lparr>po_repo = path, po_url = url, po_auth = (if token = [] then None else Some (''git'', token))\<rparr>]"
proof -
  have "post (\<lambda>r s1. r = Inr () \<longrightarrow> (\<exists>env row. (if token \<noteq> [] then Seal A master r1 r2 token else Inr []) = Inr env \<and>
      mirror_of t s1 = Some row \<and> gm_url row = url \<and> gm_envelope row = env)) (Configure A master r1 r2 t url branch token s)"
    unfolding Configure_def Let_def
    by (auto simp: mirror_set split: sum.splits option.splits intro!: post_exec)
  from postD [OF this assms(4)] obtain env row where
    env: "(if token \<noteq> [] then Seal A master r1 r2 token else Inr []) = Inr env"
    and row: "mirror_of t s1 = Some row" "gm_url row = url" "gm_envelope row = env" by auto
  have "mirror_auth A master t s1 = (Inr (if token = [] then None else Some (''git'', token)), s1)"
  proof (cases "token = []")
    case True
    with env row assms(5) show ?thesis by (simp add: mirror_auth_def)
  next
    case False
    with env have seal: "Seal A master r1 r2 token = Inr env" by simp
    then have "env \<noteq> []" by (auto simp: Seal_def sealPrefix_def split: option.splits sum.splits)
    with Open_Seal [OF assms(1-3) seal] row assms(5) False show ?thesis by (simp add: mirror_auth_def)
  qed
  with row assms(5-8) show ?thesis
    by (simp add: PushDevice_def GetMirror_def Let_def split: push_result.splits)
qed

text \<open>What a push of a device sends: nothing without a mirror, a repository or a readable token, else the
  device's repository to the tenant's remote.\<close>

definition device_pushes ::
  "aead \<Rightarrow> string \<Rightarrow> git_remote \<Rightarrow> string \<Rightarrow> int \<Rightarrow> int \<Rightarrow> gitops_db \<Rightarrow> push_op list" where
  "device_pushes A master G root t d s = (case (mirror_of t s, RepoPath root t d) of
     (Some r, Inr path) \<Rightarrow>
       (if gr_open G path \<noteq> None \<or> gr_create_remote G path (gm_url r) \<noteq> None then []
        else if gm_envelope r = [] then [\<lparr>po_repo = path, po_url = gm_url r, po_auth = None\<rparr>]
        else (case Open A master (gm_envelope r) of
          Inl e \<Rightarrow> []
        | Inr token \<Rightarrow> [\<lparr>po_repo = path, po_url = gm_url r, po_auth = Some (''git'', token)\<rparr>]))
   | _ \<Rightarrow> [])"

definition push_succeeds :: "git_remote \<Rightarrow> push_op list \<Rightarrow> bool" where
  "push_succeeds G ops \<longleftrightarrow> ops \<noteq> [] \<and> list_all (\<lambda>op. gr_push G op = Pushed \<or> gr_push G op = AlreadyUpToDate) ops"

lemma PushDevice_exact:
  assumes "faults s = []" and "PushDevice A master G root now t d s = (r, s', ops)"
  shows "ops = device_pushes A master G root t d s \<and> (\<forall>u. mirror_of u s' =
    (if u = t \<and> push_succeeds G ops then map_option (\<lambda>m. m\<lparr>gm_last_push := Some (rfc3339 now)\<rparr>) (mirror_of t s)
     else mirror_of u s))"
proof -
  let ?f = "\<lambda>r. if gm_tenant r = t then r\<lparr>gm_last_push := Some (rfc3339 now)\<rparr> else r"
  have upd: "mirror_of u (s\<lparr>gitops_mirrors := map ?f (gitops_mirrors s)\<rparr>) =
      (if u = t then map_option (\<lambda>m. m\<lparr>gm_last_push := Some (rfc3339 now)\<rparr>) (mirror_of t s) else mirror_of u s)" for u
  proof -
    have "mirror_of u (s\<lparr>gitops_mirrors := map ?f (gitops_mirrors s)\<rparr>) = map_option ?f (mirror_of u s)"
      by (simp add: mirror_of_def find_map_mirror)
    then show ?thesis using mirror_of_tenant [of u s] by (cases "mirror_of u s") auto
  qed
  have auth: "mirror_auth A master t s = (case mirror_of t s of None \<Rightarrow> Inl GoNoRows
     | Some r \<Rightarrow> if gm_envelope r = [] then Inr None else (case Open A master (gm_envelope r) of
         Inl e \<Rightarrow> Inl (GoSeal e) | Inr pt \<Rightarrow> Inr (Some (''git'', pt))), s)"
    using assms(1) by (simp add: mirror_auth_def split: option.split sum.split)
  show ?thesis
  proof (cases "mirror_of t s")
    case None
    with assms show ?thesis by (auto simp: PushDevice_def GetMirror_def device_pushes_def push_succeeds_def)
  next
    case (Some m)
    show ?thesis
    proof (cases "RepoPath root t d")
      case (Inl e)
      with Some assms show ?thesis by (auto simp: PushDevice_def GetMirror_def device_pushes_def push_succeeds_def)
    next
      case (Inr path)
      with Some assms auth upd show ?thesis
        by (auto simp: PushDevice_def GetMirror_def device_pushes_def push_succeeds_def Let_def
            split: option.splits sum.splits if_splits push_result.splits)
    qed
  qed
qed

text \<open>The configured branch has no influence on a push.\<close>

lemma branch_ignored:
  assumes "mirror_of t s = Some r" and "faults s = []"
  shows "snd (snd (PushDevice A master G root now t d (set_mirror t (gm_url r) b (gm_envelope r) s))) =
    snd (snd (PushDevice A master G root now t d s))"
proof -
  let ?s = "set_mirror t (gm_url r) b (gm_envelope r) s"
  have m: "mirror_of t ?s = Some (r\<lparr>gm_branch := b\<rparr>)" using assms(1) by (simp add: mirror_set)
  have f: "faults ?s = []" using assms(2) by (simp add: set_mirror_def)
  have auth: "mirror_auth A master t ?s = (fst (mirror_auth A master t s), ?s)"
    "mirror_auth A master t s = (fst (mirror_auth A master t s), s)"
    using m f assms by (simp_all add: mirror_auth_def)
  show ?thesis
  proof (cases "fst (mirror_auth A master t s)")
    case (Inl e)
    then show ?thesis using m f assms auth
      by (simp add: PushDevice_def GetMirror_def split: sum.splits option.splits)
  next
    case (Inr au)
    then show ?thesis using m f assms auth
      by (simp add: PushDevice_def GetMirror_def Let_def split: sum.splits option.splits push_result.splits)
  qed
qed

end
