(* ===== verification/Config.thy ===== *)
theory Config
  imports Prelude
begin

text \<open>
  The server's configuration (\<open>internal/config/config.go\<close>): defaults, the YAML file, the overrides
  from the environment and the validation. Reading the file, YAML and \<open>time.ParseDuration\<close> are
  parameters; \<open>%q\<close> of the driver's name is the name between quotes (no escapes).
\<close>

record ServerConfig =
  sv_Address :: string
  sv_ReadTimeout :: duration
  sv_WriteTimeout :: duration

record DatabaseConfig =
  db_Driver :: string
  db_DSN :: string
  db_MaxOpenConns :: int
  db_MaxIdleConns :: int
  db_ConnMaxLifetime :: duration

record SecurityConfig =
  sec_MasterPassphrase :: string
  sec_SessionCookie :: string
  sec_SessionKey :: string
  sec_SessionTTL :: duration

record LoggingConfig =
  log_Level :: string
  log_Format :: string

record BackupConfig =
  bk_Timeout :: duration
  bk_Workers :: int
  bk_Schedule :: duration

record PollerGRPCConfig =
  pg_Address :: string
  pg_TLSCertFile :: string
  pg_TLSKeyFile :: string
  pg_TLSClientCAFile :: string
  pg_Timeout :: duration

record Config =
  c_Server :: ServerConfig
  c_Database :: DatabaseConfig
  c_ConfigRepoRoot :: string
  c_Security :: SecurityConfig
  c_Logging :: LoggingConfig
  c_Backup :: BackupConfig
  c_PollerGRPC :: PollerGRPCConfig

definition Default_config :: Config where
  "Default_config = \<lparr>
     c_Server = \<lparr>sv_Address = '':8080'', sv_ReadTimeout = 30 * second, sv_WriteTimeout = 30 * second\<rparr>,
     c_Database = \<lparr>db_Driver = ''sqlite'', db_DSN = ''data/netmantle.db'', db_MaxOpenConns = 1, db_MaxIdleConns = 1,
       db_ConnMaxLifetime = 30 * minute\<rparr>,
     c_ConfigRepoRoot = ''data/configs'',
     c_Security = \<lparr>sec_MasterPassphrase = [], sec_SessionCookie = ''netmantle_session'', sec_SessionKey = [],
       sec_SessionTTL = 24 * hour\<rparr>,
     c_Logging = \<lparr>log_Level = ''info'', log_Format = ''json''\<rparr>,
     c_Backup = \<lparr>bk_Timeout = 60 * second, bk_Workers = 4, bk_Schedule = 4 * hour\<rparr>,
     c_PollerGRPC = \<lparr>pg_Address = [], pg_TLSCertFile = [], pg_TLSKeyFile = [], pg_TLSClientCAFile = [],
       pg_Timeout = 15 * second\<rparr>\<rparr>"

section \<open>Overrides\<close>

text \<open>\<open>strconv.Atoi\<close>: an optional sign and digits, in the range of \<open>int64\<close>.\<close>

definition decimal :: "string \<Rightarrow> int" where
  "decimal s = fold (\<lambda>c v. 10 * v + (of_char c - 48)) s 0"

definition Atoi :: "string \<Rightarrow> int option" where
  "Atoi s = (let neg = has_prefix s ''-''; ds = (if s \<noteq> [] \<and> hd s \<in> {CHR ''+'', CHR ''-''} then tl s else s);
       n = (if neg then - decimal ds else decimal ds) in
     if ds \<noteq> [] \<and> list_all is_digit ds \<and> - (2 ^ 63) \<le> n \<and> n < 2 ^ 63 then Some n else None)"

text \<open>An override applies when the variable is set and its value is usable.\<close>

definition env_string :: "(string \<Rightarrow> string) \<Rightarrow> string \<Rightarrow> (string \<Rightarrow> Config \<Rightarrow> Config) \<Rightarrow> Config \<Rightarrow> Config" where
  "env_string env name upd c = (if env name \<noteq> [] then upd (env name) c else c)"

definition env_value ::
  "(string \<Rightarrow> string) \<Rightarrow> string \<Rightarrow> (string \<Rightarrow> 'v option) \<Rightarrow> ('v \<Rightarrow> bool) \<Rightarrow> ('v \<Rightarrow> Config \<Rightarrow> Config) \<Rightarrow> Config \<Rightarrow> Config" where
  "env_value env name parse ok upd c =
     (if env name \<noteq> [] then (case parse (env name) of Some v \<Rightarrow> if ok v then upd v c else c | None \<Rightarrow> c) else c)"

definition set_db :: "(DatabaseConfig \<Rightarrow> DatabaseConfig) \<Rightarrow> Config \<Rightarrow> Config" where
  "set_db f c = c\<lparr>c_Database := f (c_Database c)\<rparr>"

definition set_sec :: "(SecurityConfig \<Rightarrow> SecurityConfig) \<Rightarrow> Config \<Rightarrow> Config" where
  "set_sec f c = c\<lparr>c_Security := f (c_Security c)\<rparr>"

definition set_log :: "(LoggingConfig \<Rightarrow> LoggingConfig) \<Rightarrow> Config \<Rightarrow> Config" where
  "set_log f c = c\<lparr>c_Logging := f (c_Logging c)\<rparr>"

definition set_bk :: "(BackupConfig \<Rightarrow> BackupConfig) \<Rightarrow> Config \<Rightarrow> Config" where
  "set_bk f c = c\<lparr>c_Backup := f (c_Backup c)\<rparr>"

definition set_grpc :: "(PollerGRPCConfig \<Rightarrow> PollerGRPCConfig) \<Rightarrow> Config \<Rightarrow> Config" where
  "set_grpc f c = c\<lparr>c_PollerGRPC := f (c_PollerGRPC c)\<rparr>"

definition applyEnv :: "(string \<Rightarrow> duration option) \<Rightarrow> (string \<Rightarrow> string) \<Rightarrow> Config \<Rightarrow> Config" where
  "applyEnv parse_duration env c =
     (let c = env_string env ''NETMANTLE_SERVER_ADDRESS'' (\<lambda>v c. c\<lparr>c_Server := (c_Server c)\<lparr>sv_Address := v\<rparr>\<rparr>) c;
          c = env_string env ''NETMANTLE_DATABASE_DRIVER'' (\<lambda>v. set_db (db_Driver_update (\<lambda>_. v))) c;
          c = env_string env ''NETMANTLE_DATABASE_DSN'' (\<lambda>v. set_db (db_DSN_update (\<lambda>_. v))) c;
          c = env_value env ''NETMANTLE_DATABASE_MAX_OPEN_CONNS'' Atoi (\<lambda>n. n > 0)
                (\<lambda>v. set_db (db_MaxOpenConns_update (\<lambda>_. v))) c;
          c = env_value env ''NETMANTLE_DATABASE_MAX_IDLE_CONNS'' Atoi (\<lambda>n. n \<ge> 0)
                (\<lambda>v. set_db (db_MaxIdleConns_update (\<lambda>_. v))) c;
          c = env_value env ''NETMANTLE_DATABASE_CONN_MAX_LIFETIME'' parse_duration (\<lambda>d. d \<ge> 0)
                (\<lambda>v. set_db (db_ConnMaxLifetime_update (\<lambda>_. v))) c;
          c = env_string env ''NETMANTLE_STORAGE_CONFIG_REPO_ROOT'' (\<lambda>v c. c\<lparr>c_ConfigRepoRoot := v\<rparr>) c;
          c = env_string env ''NETMANTLE_SECURITY_MASTER_PASSPHRASE'' (\<lambda>v. set_sec (sec_MasterPassphrase_update (\<lambda>_. v))) c;
          c = env_string env ''NETMANTLE_SECURITY_SESSION_KEY'' (\<lambda>v. set_sec (sec_SessionKey_update (\<lambda>_. v))) c;
          c = env_string env ''NETMANTLE_LOGGING_LEVEL'' (\<lambda>v. set_log (log_Level_update (\<lambda>_. v))) c;
          c = env_string env ''NETMANTLE_LOGGING_FORMAT'' (\<lambda>v. set_log (log_Format_update (\<lambda>_. v))) c;
          c = env_value env ''NETMANTLE_BACKUP_WORKERS'' Atoi (\<lambda>n. n > 0) (\<lambda>v. set_bk (bk_Workers_update (\<lambda>_. v))) c;
          c = env_value env ''NETMANTLE_BACKUP_TIMEOUT'' parse_duration (\<lambda>d. True) (\<lambda>v. set_bk (bk_Timeout_update (\<lambda>_. v))) c;
          c = env_string env ''NETMANTLE_POLLER_GRPC_ADDRESS'' (\<lambda>v. set_grpc (pg_Address_update (\<lambda>_. v))) c;
          c = env_string env ''NETMANTLE_POLLER_GRPC_TLS_CERT_FILE'' (\<lambda>v. set_grpc (pg_TLSCertFile_update (\<lambda>_. v))) c;
          c = env_string env ''NETMANTLE_POLLER_GRPC_TLS_KEY_FILE'' (\<lambda>v. set_grpc (pg_TLSKeyFile_update (\<lambda>_. v))) c;
          c = env_string env ''NETMANTLE_POLLER_GRPC_TLS_CLIENT_CA_FILE'' (\<lambda>v. set_grpc (pg_TLSClientCAFile_update (\<lambda>_. v))) c
      in env_value env ''NETMANTLE_POLLER_GRPC_TIMEOUT'' parse_duration (\<lambda>d. d > 0)
           (\<lambda>v. set_grpc (pg_Timeout_update (\<lambda>_. v))) c)"

section \<open>Validation and loading\<close>

definition Validate :: "Config \<Rightarrow> string option" where
  "Validate c =
     (if sv_Address (c_Server c) = [] then Some ''server.address must be set''
      else if db_Driver (c_Database c) \<noteq> ''sqlite'' then
        Some (''unsupported database.driver '' @ [CHR 0x22] @ db_Driver (c_Database c) @ [CHR 0x22] @
          '' (only sqlite supported in this build)'')
      else if db_DSN (c_Database c) = [] then Some ''database.dsn must be set''
      else if db_MaxOpenConns (c_Database c) < 1 then Some ''database.max_open_conns must be >= 1''
      else if db_MaxIdleConns (c_Database c) < 0 then Some ''database.max_idle_conns must be >= 0''
      else if db_MaxIdleConns (c_Database c) > db_MaxOpenConns (c_Database c)
      then Some ''database.max_idle_conns must be <= database.max_open_conns''
      else if db_ConnMaxLifetime (c_Database c) < 0 then Some ''database.conn_max_lifetime must be >= 0''
      else if c_ConfigRepoRoot c = [] then Some ''storage.config_repo_root must be set''
      else if trim_space (sec_MasterPassphrase (c_Security c)) = []
      then Some ''security.master_passphrase must be set (env: NETMANTLE_SECURITY_MASTER_PASSPHRASE)''
      else if bk_Workers (c_Backup c) < 1 then Some ''backup.workers must be >= 1''
      else if pg_Address (c_PollerGRPC c) \<noteq> [] then
        (if trim_space (pg_TLSCertFile (c_PollerGRPC c)) = []
         then Some ''poller.grpc.tls_cert_file must be set when poller.grpc.address is enabled''
         else if trim_space (pg_TLSKeyFile (c_PollerGRPC c)) = []
         then Some ''poller.grpc.tls_key_file must be set when poller.grpc.address is enabled''
         else if trim_space (pg_TLSClientCAFile (c_PollerGRPC c)) = []
         then Some ''poller.grpc.tls_client_ca_file must be set when poller.grpc.address is enabled''
         else None)
      else None)"

definition Load_config ::
  "(string \<Rightarrow> string + string) \<Rightarrow> (string \<Rightarrow> Config \<Rightarrow> string + Config) \<Rightarrow> (string \<Rightarrow> duration option) \<Rightarrow> (string \<Rightarrow> string)
    \<Rightarrow> string \<Rightarrow> string + Config" where
  "Load_config read_file yaml parse_duration env path =
     (let loaded = (if path = [] then Inr Default_config
        else (case read_file path of
            Inl e \<Rightarrow> Inl (''read config: '' @ e)
          | Inr b \<Rightarrow> (case yaml b Default_config of Inl e \<Rightarrow> Inl (''parse config: '' @ e) | Inr c \<Rightarrow> Inr c)))
      in case loaded of
           Inl e \<Rightarrow> Inl e
         | Inr c \<Rightarrow> (let c = applyEnv parse_duration env c in
             case Validate c of Some e \<Rightarrow> Inl e | None \<Rightarrow> Inr c))"

section \<open>What a loaded configuration guarantees\<close>

lemma load_valid:
  assumes "Load_config read_file yaml parse_duration env path = Inr c"
  shows "Validate c = None"
  using assms by (auto simp: Load_config_def Let_def split: sum.splits option.splits if_splits)

text \<open>The guarantees the rest of the server starts from: one database driver, a sealer that can be
  made, at least one worker, and a poller port with mutual TLS or none.\<close>

lemma valid_config:
  assumes "Validate c = None"
  shows "db_Driver (c_Database c) = ''sqlite''" "trim_space (sec_MasterPassphrase (c_Security c)) \<noteq> []"
    "1 \<le> bk_Workers (c_Backup c)" "0 \<le> db_MaxIdleConns (c_Database c)"
    "db_MaxIdleConns (c_Database c) \<le> db_MaxOpenConns (c_Database c)"
    "pg_Address (c_PollerGRPC c) = [] \<or> trim_space (pg_TLSCertFile (c_PollerGRPC c)) \<noteq> [] \<and>
       trim_space (pg_TLSKeyFile (c_PollerGRPC c)) \<noteq> [] \<and> trim_space (pg_TLSClientCAFile (c_PollerGRPC c)) \<noteq> []"
  using assms by (auto simp: Validate_def split: if_splits)

text \<open>An environment without the variables leaves the file's values.\<close>

lemma applyEnv_unset: "(\<And>n. env n = []) \<Longrightarrow> applyEnv parse_duration env c = c"
  by (simp add: applyEnv_def env_string_def env_value_def Let_def)

lemma default_needs_passphrase:
  "Load_config read_file yaml parse_duration (\<lambda>n. []) [] =
     Inl ''security.master_passphrase must be set (env: NETMANTLE_SECURITY_MASTER_PASSPHRASE)''"
proof -
  have "Validate Default_config =
      Some ''security.master_passphrase must be set (env: NETMANTLE_SECURITY_MASTER_PASSPHRASE)''" by code_simp
  then show ?thesis by (simp add: Load_config_def Let_def applyEnv_unset)
qed

end
