(* ===== verification/Routes.thy ===== *)
theory Routes
  imports ApiChange
begin

text \<open>
  The routes of the HTTP server (\<open>NewServer\<close> in \<open>internal/api/server.go\<close>): which method and path
  reaches which handler behind which guard. The multiplexer of \<open>net/http\<close> is modelled for what the
  table uses: literal segments, one-segment wildcards, \<open>HEAD\<close> served by \<open>GET\<close> and the catch-all
  \<open>GET /\<close> of the embedded UI. A path is the list of its segments after cleaning.
\<close>

section \<open>Patterns and guards\<close>

datatype meth = GET | HEAD | POST | PUT | DELETE | OtherMethod string

datatype seg = Lit string | Wild

text \<open>\<open>HandleFunc(h)\<close>, \<open>s.auth(h)\<close>, \<open>s.auth(s.requireWrite(h))\<close> and \<open>s.auth(s.requireAdmin(h))\<close>.\<close>

datatype guard = Public | Authed | Writer | AdminOnly

record route =
  rt_meth :: meth
  rt_path :: string
  rt_guard :: guard
  rt_handler :: string

definition pattern_segs :: "string \<Rightarrow> seg list" where
  "pattern_segs p = map (\<lambda>s. if has_prefix s ''{'' then Wild else Lit s) (tl (split_char CHR ''/'' p))"

definition rt_pat :: "route \<Rightarrow> seg list" where
  "rt_pat r = pattern_segs (rt_path r)"

definition rt :: "meth \<Rightarrow> string \<Rightarrow> guard \<Rightarrow> string \<Rightarrow> route" where
  "rt m p g h = \<lparr>rt_meth = m, rt_path = p, rt_guard = g, rt_handler = h\<rparr>"

section \<open>The table\<close>

text \<open>\<open>has\<close> says which of the optional services are configured.\<close>

definition routes :: "(string \<Rightarrow> bool) \<Rightarrow> route list" where
  "routes has =
   [rt POST ''/api/v1/auth/login'' Public ''handleLogin'',
    rt POST ''/api/v1/auth/mfa-verify'' Public ''handleMFAVerify'',
    rt GET ''/api/openapi.yaml'' Public ''handleOpenAPI'',
    rt GET ''/api/docs'' Public ''handleDocs'',
    rt GET ''/healthz'' Public ''handleHealth'',
    rt GET ''/readyz'' Public ''handleHealth'',
    rt GET ''/metrics'' Public ''Metrics'',
    rt POST ''/api/v1/auth/logout'' Authed ''handleLogout'',
    rt GET ''/api/v1/auth/me'' Authed ''handleMe'',
    rt POST ''/api/v1/auth/mfa/enroll'' Authed ''handleMFAEnroll'',
    rt POST ''/api/v1/auth/mfa/confirm'' Authed ''handleMFAConfirm'',
    rt DELETE ''/api/v1/auth/mfa'' Authed ''handleMFADisable'',
    rt GET ''/api/v1/drivers'' Authed ''handleListDrivers'',
    rt GET ''/api/v1/devices'' Authed ''handleListDevices'',
    rt POST ''/api/v1/devices'' Writer ''handleCreateDevice'',
    rt GET ''/api/v1/devices/{id}'' Authed ''handleGetDevice'',
    rt PUT ''/api/v1/devices/{id}'' Writer ''handleUpdateDevice'',
    rt DELETE ''/api/v1/devices/{id}'' Writer ''handleDeleteDevice'',
    rt POST ''/api/v1/devices/{id}/backup'' Writer ''handleBackupNow'',
    rt GET ''/api/v1/devices/{id}/runs'' Authed ''handleListRuns'',
    rt GET ''/api/v1/devices/{id}/config'' Authed ''handleGetConfig'',
    rt GET ''/api/v1/devices/{id}/config/versions'' Authed ''handleListConfigVersions'',
    rt POST ''/api/v1/export/configs'' Authed ''handleExportConfigs'',
    rt GET ''/api/v1/device-groups'' Authed ''handleListGroups'',
    rt POST ''/api/v1/device-groups'' Writer ''handleCreateGroup'',
    rt GET ''/api/v1/credentials'' Authed ''handleListCredentials'',
    rt POST ''/api/v1/credentials'' Writer ''handleCreateCredential'',
    rt DELETE ''/api/v1/credentials/{id}'' Writer ''handleDeleteCredential'',
    rt GET ''/api/v1/audit'' Authed ''handleListAudit'',
    rt GET ''/api/v1/dashboard/summary'' Authed ''handleDashboardSummary''] @
   (if has ''Changes'' then
     [rt GET ''/api/v1/changes'' Authed ''handleListChanges'',
      rt GET ''/api/v1/changes/{id}/diff'' Authed ''handleChangeDiff'',
      rt POST ''/api/v1/changes/{id}/review'' Writer ''handleMarkReviewed''] else []) @
   (if has ''Notify'' then
     [rt GET ''/api/v1/notifications/channels'' Authed ''handleListChannels'',
      rt POST ''/api/v1/notifications/channels'' Writer ''handleCreateChannel'',
      rt DELETE ''/api/v1/notifications/channels/{id}'' Writer ''handleDeleteChannel'',
      rt GET ''/api/v1/notifications/rules'' Authed ''handleListRules'',
      rt POST ''/api/v1/notifications/rules'' Writer ''handleCreateRule''] else []) @
   (if has ''Search'' then
     [rt GET ''/api/v1/search'' Authed ''handleSearch'',
      rt GET ''/api/v1/search/saved'' Authed ''handleListSaved'',
      rt POST ''/api/v1/search/saved'' Writer ''handleSaveSearch'',
      rt GET ''/api/v1/changes.csv'' Authed ''handleChangesCSV''] else []) @
   (if has ''Compliance'' then
     [rt GET ''/api/v1/compliance/rules'' Authed ''handleListComplianceRules'',
      rt POST ''/api/v1/compliance/rules'' Writer ''handleCreateComplianceRule'',
      rt DELETE ''/api/v1/compliance/rules/{id}'' Writer ''handleDeleteComplianceRule'',
      rt GET ''/api/v1/compliance/findings'' Authed ''handleListFindings'',
      rt GET ''/api/v1/compliance/rulepacks'' Authed ''handleListRulePacks'',
      rt POST ''/api/v1/compliance/rulepacks/{name}/apply'' Writer ''handleApplyRulePack'',
      rt GET ''/api/v1/compliance/rulepack-assignments'' Authed ''handleListGroupRulePackAssignments'',
      rt PUT ''/api/v1/compliance/rulepack-assignments/{id}'' Writer ''handleSetGroupRulePackAssignments''] else []) @
   (if has ''Discovery'' then
     [rt POST ''/api/v1/discovery/scans'' Writer ''handleStartScan'',
      rt POST ''/api/v1/discovery/import/netbox'' Writer ''handleImportNetBox''] else []) @
   (if has ''Automation'' then
     [rt GET ''/api/v1/push/jobs'' Authed ''handleListPushJobs'',
      rt POST ''/api/v1/push/jobs'' Writer ''handleCreatePushJob'',
      rt POST ''/api/v1/push/jobs/{id}/preview'' Authed ''handlePreviewPush'',
      rt POST ''/api/v1/push/jobs/{id}/run'' Writer ''handleRunPushGuarded'',
      rt POST ''/api/v1/push/jobs/{id}/preflight'' Authed ''handlePreflight''] else []) @
   (if has ''Pollers'' then
     [rt GET ''/api/v1/pollers'' Authed ''handleListPollers'',
      rt POST ''/api/v1/pollers'' Writer ''handleRegisterPoller'',
      rt DELETE ''/api/v1/pollers/{id}'' Writer ''handleDeletePoller''] else []) @
   (if has ''Terminal'' then
     [rt GET ''/api/v1/devices/{id}/terminal'' Authed ''handleTerminal''] else []) @
   (if has ''Probes'' then
     [rt GET ''/api/v1/probes'' Authed ''handleListProbes'',
      rt POST ''/api/v1/probes'' Writer ''handleCreateProbe'',
      rt DELETE ''/api/v1/probes/{id}'' Writer ''handleDeleteProbe'',
      rt GET ''/api/v1/probes/{id}/runs'' Authed ''handleListProbeRuns'',
      rt POST ''/api/v1/probes/{id}/run'' Writer ''handleRunProbeNow''] else []) @
   [rt POST ''/api/v1/topology/discover'' Writer ''handleTopologyDiscover''] @
   (if has ''Tenants'' then
     [rt GET ''/api/v1/tenants'' AdminOnly ''handleListTenants'',
      rt POST ''/api/v1/tenants'' AdminOnly ''handleCreateTenant'',
      rt PUT ''/api/v1/tenants/{id}/quota'' AdminOnly ''handleSetTenantQuota''] else []) @
   [rt GET ''/api/v1/topology'' Authed ''handleTopology''] @
   (if has ''GitOps'' then
     [rt GET ''/api/v1/gitops/mirror'' Authed ''handleGetMirror'',
      rt PUT ''/api/v1/gitops/mirror'' AdminOnly ''handlePutMirror''] else []) @
   [rt GET ''/api/v1/schedules'' Authed ''handleListSchedules'',
    rt POST ''/api/v1/schedules'' Writer ''handleCreateSchedule'',
    rt PUT ''/api/v1/schedules/{id}'' Writer ''handleUpdateSchedule'',
    rt DELETE ''/api/v1/schedules/{id}'' Writer ''handleDeleteSchedule''] @
   (if has ''ChangeReq'' then
     [rt GET ''/api/v1/change-requests'' Authed ''handleListChangeRequests'',
      rt POST ''/api/v1/change-requests'' Writer ''handleCreateChangeRequest'',
      rt GET ''/api/v1/change-requests/{id}'' Authed ''handleGetChangeRequest'',
      rt POST ''/api/v1/change-requests/{id}/submit'' Writer ''handleSubmitChangeRequest'',
      rt POST ''/api/v1/change-requests/{id}/approve'' AdminOnly ''handleApproveChangeRequest'',
      rt POST ''/api/v1/change-requests/{id}/reject'' AdminOnly ''handleRejectChangeRequest'',
      rt POST ''/api/v1/change-requests/{id}/cancel'' Writer ''handleCancelChangeRequest'',
      rt POST ''/api/v1/change-requests/{id}/apply'' Writer ''handleApplyChangeRequest''] else []) @
   (if has ''ChangeReq'' \<and> has ''Backup'' then
     [rt POST ''/api/v1/devices/{id}/rollback'' Writer ''handleRollbackDevice''] else []) @
   (if has ''APITokens'' then
     [rt GET ''/api/v1/api-tokens'' Authed ''handleListAPITokens'',
      rt POST ''/api/v1/api-tokens'' AdminOnly ''handleCreateAPIToken'',
      rt DELETE ''/api/v1/api-tokens/{id}'' AdminOnly ''handleDeleteAPIToken''] else [])"

section \<open>Serving a request\<close>

definition seg_match :: "seg \<Rightarrow> string \<Rightarrow> bool" where
  "seg_match p s = (case p of Lit l \<Rightarrow> l = s | Wild \<Rightarrow> s \<noteq> [])"

definition meth_match :: "meth \<Rightarrow> meth \<Rightarrow> bool" where
  "meth_match p m = (p = m \<or> p = GET \<and> m = HEAD)"

definition route_match :: "meth \<Rightarrow> string list \<Rightarrow> route \<Rightarrow> bool" where
  "route_match m path r = (meth_match (rt_meth r) m \<and> list_all2 seg_match (rt_pat r) path)"

text \<open>What a request comes to: a handler with the caller in its context, a refusal or the UI.\<close>

datatype answer = Handled string "(User \<times> string list) option" | Refused nat | UI

definition admitted :: "guard \<Rightarrow> User \<Rightarrow> bool" where
  "admitted g u = (case g of Public \<Rightarrow> True | Authed \<Rightarrow> True
     | Writer \<Rightarrow> requireWrite (Some u) | AdminOnly \<Rightarrow> requireAdmin (Some u))"

definition serve ::
  "(string \<Rightarrow> bool) \<Rightarrow> ('s \<Rightarrow> (User \<times> string list) option \<times> 's) \<Rightarrow> meth \<Rightarrow> string list \<Rightarrow> 's \<Rightarrow> answer \<times> 's" where
  "serve has authenticate m path s = (case find (route_match m path) (routes has) of
     None \<Rightarrow> (if m = GET \<or> m = HEAD then UI else Refused 405, s)
   | Some r \<Rightarrow> (if rt_guard r = Public then (Handled (rt_handler r) None, s)
       else (case authenticate s of
          (None, s) \<Rightarrow> (Refused 401, s)
        | (Some (u, scopes), s) \<Rightarrow>
            (if admitted (rt_guard r) u then Handled (rt_handler r) (Some (u, scopes)) else Refused 403, s))))"

text \<open>The server's own authentication in front of its routes.\<close>

definition serve_request ::
  "(string \<Rightarrow> string) \<Rightarrow> (string \<Rightarrow> string \<Rightarrow> bool) \<Rightarrow> (string \<Rightarrow> bool) \<Rightarrow> time \<Rightarrow> string \<Rightarrow> string option
    \<Rightarrow> meth \<Rightarrow> string list \<Rightarrow> auth_db \<times> token_db \<Rightarrow> answer \<times> auth_db \<times> token_db" where
  "serve_request hmac checkpw has now header cookie m path s =
     serve has (authH hmac checkpw (has ''APITokens'') now header cookie) m path s"

section \<open>The table has no ambiguous routes\<close>

text \<open>Two patterns that some path matches both. No two routes of one method overlap, so that the order
  of the table does not matter and \<open>ServeMux\<close> accepts it.\<close>

definition seg_over :: "seg \<Rightarrow> seg \<Rightarrow> bool" where
  "seg_over p q = (case (p, q) of (Lit a, Lit b) \<Rightarrow> a = b | _ \<Rightarrow> True)"

fun apart :: "(meth \<times> seg list) list \<Rightarrow> bool" where
  "apart [] = True"
| "apart ((m, p) # ks) = (list_all (\<lambda>(n, q). m \<noteq> n \<or> \<not> list_all2 seg_over p q) ks \<and> apart ks)"

definition route_key :: "route \<Rightarrow> meth \<times> seg list" where
  "route_key r = (rt_meth r, rev (rt_pat r))"

lemma routes_apart: "apart (map route_key (routes (\<lambda>_. True)))"
  by code_simp

lemma seg_match_over: "seg_match p x \<Longrightarrow> seg_match q x \<Longrightarrow> seg_over p q"
  by (simp add: seg_match_def seg_over_def split: seg.splits)

lemma match_over:
  assumes "list_all2 seg_match p s" "list_all2 seg_match q s"
  shows "list_all2 seg_over p q"
  using assms unfolding list_all2_conv_all_nth by (metis seg_match_over)

lemma apart_unique:
  assumes "apart (map route_key rs)" "r \<in> set rs" "q \<in> set rs" "rt_meth r = rt_meth q"
    "list_all2 seg_match (rt_pat r) path" "list_all2 seg_match (rt_pat q) path"
  shows "r = q"
  using assms match_over [OF assms(5,6)] match_over [OF assms(6,5)]
  by (induction rs) (auto simp: list_all_iff route_key_def)

lemma optional_subset: "(b \<Longrightarrow> c) \<Longrightarrow> set (if b then xs else []) \<subseteq> set (if c then xs else [])"
  by (cases b) auto

lemma routes_subset: "set (routes has) \<subseteq> set (routes (\<lambda>_. True))"
  unfolding routes_def set_append by (intro Un_mono order_refl optional_subset) simp_all

text \<open>Facts of all entries, by evaluation.\<close>

definition public_handlers :: "string list" where
  "public_handlers = [''handleLogin'', ''handleMFAVerify'', ''handleOpenAPI'', ''handleDocs'', ''handleHealth'', ''Metrics'']"

text \<open>What any authenticated user may call besides \<open>GET\<close>: his own session and second factor, and
  calls that read (the export and the two dry runs of a push).\<close>

definition own_handlers :: "string list" where
  "own_handlers = [''handleLogin'', ''handleMFAVerify'', ''handleLogout'', ''handleMFAEnroll'', ''handleMFAConfirm'',
     ''handleMFADisable'', ''handleExportConfigs'', ''handlePreviewPush'', ''handlePreflight'']"

definition admin_handlers :: "string list" where
  "admin_handlers = [''handleListTenants'', ''handleCreateTenant'', ''handleSetTenantQuota'', ''handlePutMirror'',
     ''handleApproveChangeRequest'', ''handleRejectChangeRequest'', ''handleCreateAPIToken'', ''handleDeleteAPIToken'']"

definition guarded_entry :: "route \<Rightarrow> bool" where
  "guarded_entry r \<longleftrightarrow> rt_meth r \<noteq> HEAD \<and>
     (rt_guard r = Public \<longrightarrow> rt_handler r \<in> set public_handlers) \<and>
     (rt_meth r = GET \<or> rt_guard r = Writer \<or> rt_guard r = AdminOnly \<or> rt_handler r \<in> set own_handlers) \<and>
     (rt_handler r \<in> set admin_handlers \<longrightarrow> rt_guard r = AdminOnly)"

lemma table_guarded: "list_all guarded_entry (routes (\<lambda>_. True))"
  by code_simp


lemma serve_route:
  assumes "serve has authenticate m path s = (Handled h ctx, s')"
  obtains r where "r \<in> set (routes has)" "route_match m path r" "h = rt_handler r" "guarded_entry r"
    "rt_guard r = Public \<and> ctx = None \<and> s' = s \<or>
     (\<exists>u scopes. ctx = Some (u, scopes) \<and> authenticate s = (Some (u, scopes), s') \<and> admitted (rt_guard r) u)"
proof -
  from assms obtain r where r: "find (route_match m path) (routes has) = Some r"
    by (auto simp: serve_def split: option.splits if_splits)
  then have "r \<in> set (routes has)" "route_match m path r"
    by (auto simp: find_Some_iff)
  moreover from this(1) have "guarded_entry r"
    using table_guarded routes_subset [of has] by (auto simp: list_all_iff)
  moreover from assms r have "h = rt_handler r"
    "rt_guard r = Public \<and> ctx = None \<and> s' = s \<or>
     (\<exists>u scopes. ctx = Some (u, scopes) \<and> authenticate s = (Some (u, scopes), s') \<and> admitted (rt_guard r) u)"
    by (auto simp: serve_def split: if_splits option.splits prod.splits)
  ultimately show ?thesis using that by blast
qed

text \<open>The route that matches is the one that is served, wherever it stands in the table.\<close>

lemma route_served:
  assumes "r \<in> set (routes has)" "route_match m path r"
  shows "find (route_match m path) (routes has) = Some r"
proof (rule find_unique)
  show "route_match m path r" "r \<in> set (routes has)" by (fact assms)+
  fix q assume q: "q \<in> set (routes has)" "route_match m path q"
  have i: "r \<in> set (routes (\<lambda>_. True))" "q \<in> set (routes (\<lambda>_. True))"
    using subsetD [OF routes_subset] assms(1) q(1) by blast+
  then have "guarded_entry q" "guarded_entry r"
    by (auto simp only: intro: bspec [OF table_guarded [unfolded list_all_iff]])
  then have "rt_meth q \<noteq> HEAD" "rt_meth r \<noteq> HEAD" unfolding guarded_entry_def by simp_all
  moreover have "meth_match (rt_meth q) m" "meth_match (rt_meth r) m"
    using assms(2) q(2) unfolding route_match_def by simp_all
  ultimately have "rt_meth q = rt_meth r" unfolding meth_match_def by auto
  moreover have "list_all2 seg_match (rt_pat q) path" "list_all2 seg_match (rt_pat r) path"
    using assms(2) q(2) unfolding route_match_def by blast+
  ultimately show "q = r" by (rule apart_unique [OF routes_apart i(2,1)])
qed

section \<open>Who reaches a handler\<close>

definition by_session :: "(string \<Rightarrow> string) \<Rightarrow> time \<Rightarrow> string option \<Rightarrow> auth_db \<Rightarrow> User \<Rightarrow> bool" where
  "by_session hmac now cookie a u \<longleftrightarrow> (\<exists>c a'. cookie = Some c \<and> users a' = users a \<and> sessions a' = sessions a \<and>
     fst (LookupSession hmac now c a') = Inr u)"

definition by_token ::
  "(string \<Rightarrow> string \<Rightarrow> bool) \<Rightarrow> time \<Rightarrow> string \<Rightarrow> auth_db \<times> token_db \<Rightarrow> User \<Rightarrow> string list \<Rightarrow> bool" where
  "by_token checkpw now header s u scopes \<longleftrightarrow> (\<exists>at r.
     fst (TokAuthenticate checkpw now (bearerFromHeader header) (snd s)) = Inr at \<and>
     r \<in> set (rows (users (fst s))) \<and> us_id r = at_OwnerUserID at \<and> us_tenant r = at_TenantID at \<and>
     u = user_of r \<and> scopes = at_Scopes at)"

lemma cookie_vouched:
  assumes "auth_cookie hmac now cookie a = (Some (u, scopes), a')"
  shows "\<exists>c. cookie = Some c \<and> scopes = [] \<and> fst (LookupSession hmac now c a) = Inr u"
  using assms by (auto simp: auth_cookie_def split: option.splits prod.splits sum.splits)

lemma token_user:
  assumes "userFromAPIToken (a, t) at = (w, a')"
  shows "users a' = users a" "sessions a' = sessions a"
    "w = Some u \<Longrightarrow> \<exists>r \<in> set (rows (users a)). us_id r = at_OwnerUserID at \<and> us_tenant r = at_TenantID at \<and> u = user_of r"
  using assms
  by (auto simp: userFromAPIToken_def exec_def stmt_def split: option.splits prod.splits sum.splits list.splits
      dest!: query_row_SomeD)

lemma authH_vouched:
  assumes "authH hmac checkpw tokens now header cookie s = (Some (u, scopes), s')"
  shows "by_session hmac now cookie (fst s) u \<and> scopes = [] \<or> tokens \<and> by_token checkpw now header s u scopes"
proof -
  obtain a t where s: "s = (a, t)" by (cases s)
  have c: "by_session hmac now cookie a u \<and> scopes = []"
    if "auth_cookie hmac now cookie a1 = (Some (u, scopes), a2)" "users a1 = users a" "sessions a1 = sessions a" for a1 a2
    using cookie_vouched [OF that(1)] that(2,3) unfolding by_session_def by blast
  show ?thesis
  proof (cases "bearerFromHeader header \<noteq> [] \<and> tokens")
    case False
    with assms s c [of a] show ?thesis by (auto simp: authH_def split: prod.splits)
  next
    case True
    obtain r t' where tok: "TokAuthenticate checkpw now (bearerFromHeader header) t = (r, t')" by fastforce
    show ?thesis
    proof (cases r)
      case (Inl e)
      with assms s True tok c [of a] show ?thesis by (auto simp: authH_def Let_def split: prod.splits)
    next
      case (Inr at)
      obtain w a1 where w: "userFromAPIToken (a, t') at = (w, a1)" by fastforce
      show ?thesis
      proof (cases w)
        case None
        with assms s True tok Inr w c [of a1] token_user(1,2) [OF w] show ?thesis
          by (auto simp: authH_def Let_def split: prod.splits)
      next
        case (Some v)
        with assms s True tok Inr w have "v = u" "scopes = at_Scopes at" by (auto simp: authH_def Let_def)
        with token_user(3) [OF w, of u] Some Inr tok s True show ?thesis
          unfolding by_token_def by auto
      qed
    qed
  qed
qed

text \<open>C32: Whatever request is sent to the server, a handler outside the public ones is reached only by a
  caller with a session or with an API token of an owner in the same tenant; a handler of another method
  than \<open>GET\<close> or \<open>HEAD\<close> only by an operator or administrator, unless it is one of the caller's own
  session, second factor or dry runs; and the handlers of tenants, approval, mirror and token issue only
  by an administrator.\<close>

theorem routes_guarded:
  assumes "serve_request hmac checkpw has now header cookie m path s = (Handled h ctx, s')"
  shows "case ctx of
      None \<Rightarrow> h \<in> set public_handlers \<and> s' = s
    | Some (u, scopes) \<Rightarrow>
        (by_session hmac now cookie (fst s) u \<and> scopes = [] \<or> has ''APITokens'' \<and> by_token checkpw now header s u scopes) \<and>
        (m = GET \<or> m = HEAD \<or> h \<in> set own_handlers \<or> CanWrite (u_Role u)) \<and>
        (h \<in> set admin_handlers \<longrightarrow> u_Role u = RoleAdmin)"
proof (rule serve_route [OF assms [unfolded serve_request_def]])
  fix r
  assume r: "r \<in> set (routes has)" "route_match m path r" "h = rt_handler r" "guarded_entry r"
    "rt_guard r = Public \<and> ctx = None \<and> s' = s \<or>
     (\<exists>u scopes. ctx = Some (u, scopes) \<and>
       authH hmac checkpw (has ''APITokens'') now header cookie s = (Some (u, scopes), s') \<and> admitted (rt_guard r) u)"
  show ?thesis
  proof (cases ctx)
    case None
    with r show ?thesis by (auto simp: guarded_entry_def)
  next
    case (Some p)
    obtain u scopes where p: "p = (u, scopes)" by (cases p)
    with Some r have a: "authH hmac checkpw (has ''APITokens'') now header cookie s = (Some (u, scopes), s')"
      "admitted (rt_guard r) u" by auto
    have "m = GET \<or> m = HEAD \<or> h \<in> set own_handlers \<or> CanWrite (u_Role u)"
      using r(2,3,4) a(2) by (auto simp: guarded_entry_def admitted_def route_match_def meth_match_def
          requireWrite_def requireAdmin_def CanWrite_def)
    moreover have "h \<in> set admin_handlers \<longrightarrow> u_Role u = RoleAdmin"
      using r(3,4) a(2) by (auto simp: guarded_entry_def admitted_def requireAdmin_def)
    ultimately show ?thesis using authH_vouched [OF a(1)] Some p by simp
  qed
qed


text \<open>An administrator's session creates a device.\<close>

definition demo_tokens :: token_db where
  "demo_tokens = \<lparr>faults = [], last_rowid = 0, api_tokens = empty_table\<rparr>"

theorem routes_guarded_witness:
  "\<exists>s'. serve_request (\<lambda>m. m) (=) (\<lambda>_. True) (60 * second) [] (Some (signCookie (\<lambda>m. m) ''abc'')) POST
       [''api'', ''v1'', ''devices''] (demo_auth, demo_tokens) = (Handled ''handleCreateDevice'' (Some (user_of demo_user, [])), s') \<and>
     CanWrite (u_Role (user_of demo_user))"
proof -
  let ?L = "LookupSession (\<lambda>m. m) (60 * second) (signCookie (\<lambda>m. m) ''abc'') demo_auth"
  let ?r = "rt POST ''/api/v1/devices'' Writer ''handleCreateDevice''"
  let ?path = "[''api'', ''v1'', ''devices'']"
  have "?r \<in> set (routes (\<lambda>_. True))" by (simp add: routes_def)
  moreover have "route_match POST ?path ?r" by code_simp
  ultimately have r: "find (route_match POST ?path) (routes (\<lambda>_. True)) = Some ?r" by (rule route_served)
  obtain a where l: "?L = (Inr (user_of demo_user), a)"
    using session_iff_witness by (cases ?L) simp
  then have c: "auth_cookie (\<lambda>m. m) (60 * second) (Some (signCookie (\<lambda>m. m) ''abc'')) demo_auth =
      (Some (user_of demo_user, []), a)"
    unfolding auth_cookie_def option.case by simp
  have "bearerFromHeader [] = []" unfolding bearerFromHeader_def by simp
  with c have a: "authH (\<lambda>m. m) (=) True (60 * second) [] (Some (signCookie (\<lambda>m. m) ''abc'')) (demo_auth, demo_tokens) =
      (Some (user_of demo_user, []), a, demo_tokens)"
    unfolding authH_def by simp
  have g: "admitted Writer (user_of demo_user)" by code_simp
  have "serve_request (\<lambda>m. m) (=) (\<lambda>_. True) (60 * second) [] (Some (signCookie (\<lambda>m. m) ''abc'')) POST ?path
      (demo_auth, demo_tokens) = (Handled ''handleCreateDevice'' (Some (user_of demo_user, [])), a, demo_tokens)"
    unfolding serve_request_def serve_def r option.case rt_def route.simps a prod.case using g by simp
  moreover from routes_guarded [OF this] have "CanWrite (u_Role (user_of demo_user))"
    by (simp add: own_handlers_def)
  ultimately show ?thesis by blast
qed

end
