(* ===== verification/Hooks.thy ===== *)
theory Hooks
  imports Changes Compliance Search Notify GitOps
begin

text \<open>
  What the server does after a backup committed a new version (\<open>runServe\<close> in
  \<open>cmd/netmantle/main.go\<close>): every artefact is compared with its predecessor, indexed and evaluated,
  events go to the notification channels, and the device's repository is mirrored. The state is one
  view per service; the services' statements fail independently, and a failure is logged and the next
  step taken. Bodies of events are formatted as the code formats them.
\<close>

section \<open>The hook\<close>

record 'v hook_env =
  he_read :: store_read
  he_engine :: Engine
  he_compile :: re_compile
  he_list :: json_list
  he_json :: "'v json_lib"
  he_aead :: aead
  he_master :: string
  he_wire :: wire
  he_git :: git_remote
  he_root :: string

record hook_world =
  hw_changes :: changes_db
  hw_search :: search_db
  hw_compliance :: compliance_db
  hw_notify :: notify_db
  hw_gitops :: gitops_db
  hw_sent :: "(int \<times> send_err option \<times> message list) list"
  hw_pushed :: "push_op list"

definition notify_event :: "'v hook_env \<Rightarrow> int \<Rightarrow> Event \<Rightarrow> hook_world \<Rightarrow> hook_world" where
  "notify_event S t ev w = (case Dispatch (he_json S) (he_aead S) (he_master S) (he_wire S) t ev (hw_notify w) of
     (sent, n) \<Rightarrow> w\<lparr>hw_notify := n, hw_sent := hw_sent w @ sent\<rparr>)"

text \<open>The event of a change; nobody sets its time.\<close>

definition change_note :: "string \<Rightarrow> string \<Rightarrow> nat \<Rightarrow> nat \<Rightarrow> Event" where
  "change_note host name added removed = \<lparr>ev_Kind = ''change.detected'', ev_Subject = host,
     ev_Body = name @ '': +'' @ itoa (int added) @ ''/-'' @ itoa (int removed), ev_Fields = [], ev_Timestamp = zero_time\<rparr>"

definition record_change ::
  "'v hook_env \<Rightarrow> int \<Rightarrow> Device \<Rightarrow> string \<Rightarrow> time \<Rightarrow> Artifact \<Rightarrow> hook_world \<Rightarrow> hook_world" where
  "record_change S t dev sha now a w =
     (case Record (he_read S) (he_engine S) t (d_ID dev) (a_Name a) sha now (hw_changes w) of
        (Inr (Some ev), c) \<Rightarrow> notify_event S t
          (change_note (d_Hostname dev) (a_Name a) (Changes.ch_Added ev) (Changes.ch_Removed ev)) (w\<lparr>hw_changes := c\<rparr>)
      | (_, c) \<Rightarrow> w\<lparr>hw_changes := c\<rparr>)"

definition index_artifact :: "int \<Rightarrow> Device \<Rightarrow> string \<Rightarrow> Artifact \<Rightarrow> hook_world \<Rightarrow> hook_world" where
  "index_artifact t dev sha a w =
     w\<lparr>hw_search := snd (Index t (d_ID dev) (a_Name a) sha (a_Content a) (hw_search w))\<rparr>"

text \<open>\<open>OnTransition\<close>; the arrow is U+2192 in UTF-8.\<close>

definition transition_note :: "Finding \<Rightarrow> string \<Rightarrow> Event" where
  "transition_note f prev = \<lparr>ev_Kind = ''compliance.transition'',
     ev_Subject = ''rule:'' @ itoa (fi_RuleID f) @ '' device:'' @ itoa (fi_DeviceID f),
     ev_Body = prev @ [CHR '' '', CHR 0xE2, CHR 0x86, CHR 0x92, CHR '' ''] @ fi_Status f @ '': '' @ fi_Detail f,
     ev_Fields = [], ev_Timestamp = zero_time\<rparr>"

definition judge_artifact ::
  "'v hook_env \<Rightarrow> int \<Rightarrow> Device \<Rightarrow> time \<Rightarrow> Artifact \<Rightarrow> hook_world \<Rightarrow> hook_world" where
  "judge_artifact S t dev now a w =
     (let c = hw_compliance w;
          c' = snd (EvaluateDevice (he_compile S) (he_list S) t (d_ID dev) (a_Content a) now c);
          news = drop (length (notified c)) (notified c')
      in fold (\<lambda>(u, f, prev). notify_event S u (transition_note f prev)) news (w\<lparr>hw_compliance := c'\<rparr>))"

definition hook_artifact ::
  "'v hook_env \<Rightarrow> int \<Rightarrow> Device \<Rightarrow> string \<Rightarrow> time \<Rightarrow> Artifact \<Rightarrow> hook_world \<Rightarrow> hook_world" where
  "hook_artifact S t dev sha now a w =
     judge_artifact S t dev now a (index_artifact t dev sha a (record_change S t dev sha now a w))"

definition mirror_device :: "'v hook_env \<Rightarrow> int \<Rightarrow> Device \<Rightarrow> time \<Rightarrow> hook_world \<Rightarrow> hook_world" where
  "mirror_device S t dev now w =
     (case PushDevice (he_aead S) (he_master S) (he_git S) (he_root S) now t (d_ID dev) (hw_gitops w) of
        (_, g, ops) \<Rightarrow> w\<lparr>hw_gitops := g, hw_pushed := hw_pushed w @ ops\<rparr>)"

definition post_commit ::
  "'v hook_env \<Rightarrow> int \<Rightarrow> Device \<Rightarrow> string \<Rightarrow> time \<Rightarrow> Artifact list \<Rightarrow> hook_world \<Rightarrow> hook_world" where
  "post_commit S t dev sha now arts w =
     mirror_device S t dev now (fold (hook_artifact S t dev sha now) arts w)"

section \<open>What a working database makes of it\<close>

text \<open>Deliveries of an event, and the hook's effect on the findings of a device.\<close>

definition deliveries :: "'v hook_env \<Rightarrow> int \<Rightarrow> Event \<Rightarrow> notify_db \<Rightarrow> (int \<times> send_err option \<times> message list) list" where
  "deliveries S t ev n = map (\<lambda>c. (cn_id c, sendOne (he_json S) (he_aead S) (he_master S) (he_wire S)
     (cn_kind c) (cn_config c) ev)) (dispatch_targets t (ev_Kind ev) n)"

definition judged ::
  "'v hook_env \<Rightarrow> int \<Rightarrow> int \<Rightarrow> Rule list \<Rightarrow> string \<Rightarrow> (int \<times> int \<Rightarrow> (int \<times> string \<times> string) option)
    \<Rightarrow> int \<times> int \<Rightarrow> (int \<times> string \<times> string) option" where
  "judged S t d rules text m = (\<lambda>(d', i).
     if d' \<noteq> d then m (d', i)
     else case find (\<lambda>r. ru_ID r = i) rules of
       Some r \<Rightarrow> Some (case m (d, i) of None \<Rightarrow> t | Some (u, _) \<Rightarrow> u,
         fi_Status (device_verdict (he_compile S) (he_list S) d text r),
         fi_Detail (device_verdict (he_compile S) (he_list S) d text r))
     | None \<Rightarrow> (case m (d, i) of None \<Rightarrow> None | Some (u, x) \<Rightarrow> if u = t then None else Some (u, x)))"

text \<open>Each evaluation replaces the one before: only the last artefact's verdicts stay.\<close>

lemma judged_judged: "judged S t d rules y (judged S t d rules x m) = judged S t d rules y m"
  by (auto simp: judged_def fun_eq_iff split: option.splits)

lemma fold_judged:
  "arts \<noteq> [] \<Longrightarrow> fold (\<lambda>a. judged S t d rules (a_Content a)) arts m = judged S t d rules (a_Content (last arts)) m"
  by (induction arts arbitrary: m) (auto simp: judged_judged)

definition device_rules :: "int \<Rightarrow> compliance_device \<Rightarrow> compliance_db \<Rightarrow> Rule list" where
  "device_rules t cd c = order_asc by_name (filter (applicable t (compliance_device.cd_group cd)) (rows (compliance_rules c)))"

definition hook_ready :: "int \<Rightarrow> int \<Rightarrow> compliance_device \<Rightarrow> hook_world \<Rightarrow> bool" where
  "hook_ready t d cd w \<longleftrightarrow> faults (hw_changes w) = [] \<and> faults (hw_search w) = [] \<and> faults (hw_compliance w) = [] \<and>
     faults (hw_notify w) = [] \<and> faults (hw_gitops w) = [] \<and> index_inv (hw_search w) \<and> co_inv (hw_compliance w) \<and>
     find (\<lambda>x. compliance_device.cd_tenant x = t \<and> compliance_device.cd_id x = d) (compliance_devices (hw_compliance w)) = Some cd"

text \<open>Whether an artefact is recorded as changed, and how.\<close>

definition old_text :: "'v hook_env \<Rightarrow> int \<Rightarrow> Device \<Rightarrow> string \<Rightarrow> Artifact \<Rightarrow> changes_db \<Rightarrow> string" where
  "old_text S t dev sha a c = old_body (he_read S) t (d_ID dev) (a_Name a) (previous_sha (d_ID dev) (a_Name a) sha c)"

definition changed :: "'v hook_env \<Rightarrow> int \<Rightarrow> Device \<Rightarrow> string \<Rightarrow> changes_db \<Rightarrow> Artifact \<Rightarrow> bool" where
  "changed S t dev sha c a = (case he_read S t (d_ID dev) (a_Name a) sha of
     Inl e \<Rightarrow> False
   | Inr new \<Rightarrow> \<not> Identical (Diff (he_engine S) (a_Name a) (old_text S t dev sha a c) new))"

definition change_diff :: "'v hook_env \<Rightarrow> int \<Rightarrow> Device \<Rightarrow> string \<Rightarrow> changes_db \<Rightarrow> Artifact \<Rightarrow> Result" where
  "change_diff S t dev sha c a = (case he_read S t (d_ID dev) (a_Name a) sha of
     Inl e \<Rightarrow> Diff (he_engine S) (a_Name a) [] [] 
   | Inr new \<Rightarrow> Diff (he_engine S) (a_Name a) (old_text S t dev sha a c) new)"

definition diff_note :: "'v hook_env \<Rightarrow> int \<Rightarrow> Device \<Rightarrow> string \<Rightarrow> changes_db \<Rightarrow> Artifact \<Rightarrow> Event" where
  "diff_note S t dev sha c a = (let r = change_diff S t dev sha c a in
     change_note (d_Hostname dev) (a_Name a) (AddedLines r) (RemovedLines r))"

lemma notify_event_ok:
  "faults (hw_notify w) = [] \<Longrightarrow> notify_event S t ev w = w\<lparr>hw_sent := hw_sent w @ deliveries S t ev (hw_notify w)\<rparr>"
  by (simp add: notify_event_def Dispatch_def deliveries_def)

lemma notify_events_ok:
  "faults (hw_notify w) = [] \<Longrightarrow> \<exists>ms. fold (\<lambda>(u, f, prev). notify_event S u (transition_note f prev)) news w =
     w\<lparr>hw_sent := hw_sent w @ ms\<rparr>"
proof (induction news arbitrary: w)
  case Nil
  show ?case by (rule exI [of _ "[]"]) simp
next
  case (Cons n news)
  obtain u f prev where n: "n = (u, f, prev)" by (cases n)
  let ?w = "w\<lparr>hw_sent := hw_sent w @ deliveries S u (transition_note f prev) (hw_notify w)\<rparr>"
  obtain ms where "fold (\<lambda>(u, f, prev). notify_event S u (transition_note f prev)) news ?w = ?w\<lparr>hw_sent := hw_sent ?w @ ms\<rparr>"
    using Cons.IH [of ?w] Cons.prems by auto
  with Cons.prems n show ?case by (auto simp: notify_event_ok)
qed

lemma record_change_ok:
  assumes "faults (hw_changes w) = []" "faults (hw_notify w) = []"
  shows "\<exists>c es. record_change S t dev sha now a w = w\<lparr>hw_changes := c,
      hw_sent := hw_sent w @ (if changed S t dev sha (hw_changes w) a
        then deliveries S t (diff_note S t dev sha (hw_changes w) a) (hw_notify w) else [])\<rparr> \<and>
    faults c = [] \<and> config_versions c = config_versions (hw_changes w) \<and>
    rows (change_events c) = rows (change_events (hw_changes w)) @ es \<and>
    map (\<lambda>e. (ce_device e, ce_artifact e, ce_new_sha e)) es =
      (if changed S t dev sha (hw_changes w) a then [(d_ID dev, a_Name a, sha)] else [])"
proof (cases "changed S t dev sha (hw_changes w) a")
  case True
  with assms show ?thesis
    by (auto simp: record_change_def Record_def Let_def changed_def diff_note_def change_diff_def old_text_def
      notify_event_ok split: sum.splits)
next
  case False
  then have "record_change S t dev sha now a w = w"
    using assms by (auto simp: record_change_def Record_def Let_def changed_def old_text_def split: sum.splits)
  with False assms show ?thesis by (intro exI [of _ "hw_changes w"] exI [of _ "[]"]) simp
qed

text \<open>One artefact.\<close>

lemma hook_artifact_ok:
  assumes "hook_ready t (d_ID dev) cd w" and "hook_artifact S t dev sha now a w = w'"
  shows "hook_ready t (d_ID dev) cd w'"
    and "config_versions (hw_changes w') = config_versions (hw_changes w)" and "hw_notify w' = hw_notify w"
    and "compliance_rules (hw_compliance w') = compliance_rules (hw_compliance w)"
    and "hw_gitops w' = hw_gitops w" and "hw_pushed w' = hw_pushed w"
    and "index_map (hw_search w') = (index_map (hw_search w))((t, d_ID dev, a_Name a) \<mapsto> (sha, a_Content a))"
    and "findings_map (hw_compliance w') = judged S t (d_ID dev) (device_rules t cd (hw_compliance w)) (a_Content a)
      (findings_map (hw_compliance w))"
    and "\<exists>es. rows (change_events (hw_changes w')) = rows (change_events (hw_changes w)) @ es \<and>
      map (\<lambda>e. (ce_device e, ce_artifact e, ce_new_sha e)) es =
        (if changed S t dev sha (hw_changes w) a then [(d_ID dev, a_Name a, sha)] else [])"
    and "\<exists>ms. hw_sent w' = hw_sent w @ (if changed S t dev sha (hw_changes w) a
        then deliveries S t (diff_note S t dev sha (hw_changes w) a) (hw_notify w) else []) @ ms"
proof -
  let ?send = "if changed S t dev sha (hw_changes w) a
        then deliveries S t (diff_note S t dev sha (hw_changes w) a) (hw_notify w) else []"
  obtain c es where c: "record_change S t dev sha now a w = w\<lparr>hw_changes := c, hw_sent := hw_sent w @ ?send\<rparr>"
    "faults c = []" "config_versions c = config_versions (hw_changes w)"
    "rows (change_events c) = rows (change_events (hw_changes w)) @ es"
    "map (\<lambda>e. (ce_device e, ce_artifact e, ce_new_sha e)) es =
      (if changed S t dev sha (hw_changes w) a then [(d_ID dev, a_Name a, sha)] else [])"
    using record_change_ok [of w S t dev sha now a] assms(1) unfolding hook_ready_def by blast
  obtain r s where i: "Index t (d_ID dev) (a_Name a) sha (a_Content a) (hw_search w) = (r, s)" by fastforce
  have s: "faults s = []" "index_inv s"
    "index_map s = (index_map (hw_search w))((t, d_ID dev, a_Name a) \<mapsto> (sha, a_Content a))"
    using index_step [OF _ _ i] assms(1) unfolding hook_ready_def by blast+
  obtain k where k: "EvaluateDevice (he_compile S) (he_list S) t (d_ID dev) (a_Content a) now (hw_compliance w) =
        (Inr (map (device_verdict (he_compile S) (he_list S) (d_ID dev) (a_Content a)) (device_rules t cd (hw_compliance w))), k)"
    "findings_map k = judged S t (d_ID dev) (device_rules t cd (hw_compliance w)) (a_Content a) (findings_map (hw_compliance w))"
    "faults k = []" "co_inv k" "compliance_rules k = compliance_rules (hw_compliance w)"
    "compliance_devices k = compliance_devices (hw_compliance w)"
    using evaluate_device_ok [of "hw_compliance w" t "d_ID dev" cd "he_compile S" "he_list S" "a_Content a" now] assms(1)
    unfolding hook_ready_def judged_def device_rules_def by blast
  let ?w = "w\<lparr>hw_changes := c, hw_sent := hw_sent w @ ?send, hw_search := s, hw_compliance := k\<rparr>"
  have "faults (hw_notify ?w) = []" using assms(1) by (simp add: hook_ready_def)
  from notify_events_ok [OF this] obtain ms where
    "fold (\<lambda>(u, f, prev). notify_event S u (transition_note f prev))
      (drop (length (notified (hw_compliance w))) (notified k)) ?w = ?w\<lparr>hw_sent := hw_sent ?w @ ms\<rparr>" by blast
  then have w': "w' = ?w\<lparr>hw_sent := hw_sent ?w @ ms\<rparr>"
    using assms(2) by (simp add: hook_artifact_def judge_artifact_def index_artifact_def c(1) i k(1) Let_def)
  show "hook_ready t (d_ID dev) cd w'"
    using assms(1) c(2) s(1,2) k(3,4,6) by (simp add: w' hook_ready_def)
  show "config_versions (hw_changes w') = config_versions (hw_changes w)" "hw_notify w' = hw_notify w"
    "compliance_rules (hw_compliance w') = compliance_rules (hw_compliance w)"
    "hw_gitops w' = hw_gitops w" "hw_pushed w' = hw_pushed w"
    "index_map (hw_search w') = (index_map (hw_search w))((t, d_ID dev, a_Name a) \<mapsto> (sha, a_Content a))"
    "findings_map (hw_compliance w') = judged S t (d_ID dev) (device_rules t cd (hw_compliance w)) (a_Content a)
      (findings_map (hw_compliance w))"
    using c s k by (simp_all add: w')
  show "\<exists>es. rows (change_events (hw_changes w')) = rows (change_events (hw_changes w)) @ es \<and>
      map (\<lambda>e. (ce_device e, ce_artifact e, ce_new_sha e)) es =
        (if changed S t dev sha (hw_changes w) a then [(d_ID dev, a_Name a, sha)] else [])"
    using c(4,5) by (intro exI [of _ es]) (simp add: w')
  show "\<exists>ms. hw_sent w' = hw_sent w @ ?send @ ms" by (intro exI [of _ ms]) (simp add: w')
qed

lemma changed_cong:
  assumes "config_versions c = config_versions c'"
  shows "changed S t dev sha c = changed S t dev sha c'" "diff_note S t dev sha c = diff_note S t dev sha c'"
proof -
  have old: "old_text S t dev sha a c = old_text S t dev sha a c'" for a
    using assms by (simp add: old_text_def previous_sha_def)
  show "changed S t dev sha c = changed S t dev sha c'" "diff_note S t dev sha c = diff_note S t dev sha c'"
    by (simp_all only: fun_eq_iff changed_def diff_note_def change_diff_def old simp_thms)
qed

lemma device_rules_cong:
  "compliance_rules c = compliance_rules c' \<Longrightarrow> device_rules t cd c = device_rules t cd c'"
  by (simp add: device_rules_def)

lemma hook_artifacts_ok:
  assumes "hook_ready t (d_ID dev) cd w" and "fold (hook_artifact S t dev sha now) arts w = w'"
  shows "index_map (hw_search w') = fold (\<lambda>a m. m((t, d_ID dev, a_Name a) \<mapsto> (sha, a_Content a))) arts (index_map (hw_search w)) \<and>
    findings_map (hw_compliance w') = fold (\<lambda>a. judged S t (d_ID dev) (device_rules t cd (hw_compliance w)) (a_Content a)) arts
      (findings_map (hw_compliance w)) \<and>
    (\<exists>es. rows (change_events (hw_changes w')) = rows (change_events (hw_changes w)) @ es \<and>
      map (\<lambda>e. (ce_device e, ce_artifact e, ce_new_sha e)) es =
        map (\<lambda>a. (d_ID dev, a_Name a, sha)) (filter (changed S t dev sha (hw_changes w)) arts)) \<and>
    (\<exists>ms. hw_sent w' = hw_sent w @ ms \<and> (\<forall>a \<in> set arts. changed S t dev sha (hw_changes w) a \<longrightarrow>
      set (deliveries S t (diff_note S t dev sha (hw_changes w) a) (hw_notify w)) \<subseteq> set ms))"
  using assms
proof (induction arts arbitrary: w)
  case (Cons a arts)
  let ?w = "hook_artifact S t dev sha now a w"
  note step = hook_artifact_ok [OF Cons.prems(1) refl, of S sha now a]
  note cong = changed_cong [OF step(2)] device_rules_cong [OF step(4)] step(3)
  obtain es ms where es: "rows (change_events (hw_changes w')) = rows (change_events (hw_changes ?w)) @ es"
      "map (\<lambda>e. (ce_device e, ce_artifact e, ce_new_sha e)) es =
        map (\<lambda>a. (d_ID dev, a_Name a, sha)) (filter (changed S t dev sha (hw_changes w)) arts)"
    and ms: "hw_sent w' = hw_sent ?w @ ms" "\<forall>a \<in> set arts. changed S t dev sha (hw_changes w) a \<longrightarrow>
      set (deliveries S t (diff_note S t dev sha (hw_changes w) a) (hw_notify w)) \<subseteq> set ms"
    and maps: "index_map (hw_search w') = fold (\<lambda>a m. m((t, d_ID dev, a_Name a) \<mapsto> (sha, a_Content a))) arts (index_map (hw_search ?w))"
      "findings_map (hw_compliance w') = fold (\<lambda>a. judged S t (d_ID dev) (device_rules t cd (hw_compliance w)) (a_Content a)) arts
        (findings_map (hw_compliance ?w))"
    using Cons.IH [OF step(1)] Cons.prems(2) unfolding cong fold_simps by blast
  obtain es' where es': "rows (change_events (hw_changes ?w)) = rows (change_events (hw_changes w)) @ es'"
      "map (\<lambda>e. (ce_device e, ce_artifact e, ce_new_sha e)) es' =
        (if changed S t dev sha (hw_changes w) a then [(d_ID dev, a_Name a, sha)] else [])"
    using step(9) by blast
  obtain ms' where ms': "hw_sent ?w = hw_sent w @ (if changed S t dev sha (hw_changes w) a
        then deliveries S t (diff_note S t dev sha (hw_changes w) a) (hw_notify w) else []) @ ms'"
    using step(10) by blast
  let ?ms = "(if changed S t dev sha (hw_changes w) a
        then deliveries S t (diff_note S t dev sha (hw_changes w) a) (hw_notify w) else []) @ ms' @ ms"
  have "hw_sent w' = hw_sent w @ ?ms" unfolding ms(1) ms' by simp
  moreover have "\<forall>b \<in> set (a # arts). changed S t dev sha (hw_changes w) b \<longrightarrow>
      set (deliveries S t (diff_note S t dev sha (hw_changes w) b) (hw_notify w)) \<subseteq> set ?ms"
    using ms(2) by auto
  moreover have "rows (change_events (hw_changes w')) = rows (change_events (hw_changes w)) @ es' @ es"
    unfolding es(1) es'(1) by simp
  moreover have "map (\<lambda>e. (ce_device e, ce_artifact e, ce_new_sha e)) (es' @ es) =
        map (\<lambda>a. (d_ID dev, a_Name a, sha)) (filter (changed S t dev sha (hw_changes w)) (a # arts))"
    by (simp add: es(2) es'(2))
  ultimately show ?case unfolding maps step(7,8) fold_simps by blast
qed auto

lemma hook_artifacts_frame:
  "hook_ready t (d_ID dev) cd w \<Longrightarrow> hw_gitops (fold (hook_artifact S t dev sha now) arts w) = hw_gitops w \<and>
     hw_pushed (fold (hook_artifact S t dev sha now) arts w) = hw_pushed w"
proof (induction arts arbitrary: w)
  case (Cons a arts)
  note step = hook_artifact_ok [OF Cons.prems refl, of S sha now a]
  from Cons.IH [OF step(1)] step(5,6) show ?case by simp
qed simp

text \<open>C33: A commit reaches every service. With working databases, after the hook of a backup with the
  artefacts \<open>arts\<close> the search index holds each of them with its commit, a change event is stored for
  exactly those that differ from their predecessor, in order, every channel routed for changes was sent
  each of these, and the device's findings are the verdicts on the last artefact alone; other devices'
  documents and findings are as before. The device's repository was pushed to the tenant's mirror, with its token,
  when there is one that can be used, a successful push is dated, and no other tenant's mirror changes.\<close>

theorem post_commit_effect:
  assumes "hook_ready t (d_ID dev) cd w" and "arts \<noteq> []" and "w' = post_commit S t dev sha now arts w"
  shows "index_map (hw_search w') =
      fold (\<lambda>a m. m((t, d_ID dev, a_Name a) \<mapsto> (sha, a_Content a))) arts (index_map (hw_search w)) \<and>
    findings_map (hw_compliance w') = judged S t (d_ID dev) (device_rules t cd (hw_compliance w)) (a_Content (last arts))
      (findings_map (hw_compliance w)) \<and>
    (\<exists>es. rows (change_events (hw_changes w')) = rows (change_events (hw_changes w)) @ es \<and>
      map (\<lambda>e. (ce_device e, ce_artifact e, ce_new_sha e)) es =
        map (\<lambda>a. (d_ID dev, a_Name a, sha)) (filter (changed S t dev sha (hw_changes w)) arts)) \<and>
    (\<exists>ms. hw_sent w' = hw_sent w @ ms \<and> (\<forall>a \<in> set arts. changed S t dev sha (hw_changes w) a \<longrightarrow>
      set (deliveries S t (diff_note S t dev sha (hw_changes w) a) (hw_notify w)) \<subseteq> set ms)) \<and>
    (let ops = device_pushes (he_aead S) (he_master S) (he_git S) (he_root S) t (d_ID dev) (hw_gitops w)
     in hw_pushed w' = hw_pushed w @ ops \<and>
       (\<forall>u. mirror_of u (hw_gitops w') = (if u = t \<and> push_succeeds (he_git S) ops
          then map_option (\<lambda>m. m\<lparr>gm_last_push := Some (rfc3339 now)\<rparr>) (mirror_of t (hw_gitops w))
          else mirror_of u (hw_gitops w))))"
proof -
  let ?v = "fold (hook_artifact S t dev sha now) arts w"
  have "hw_search w' = hw_search ?v" "hw_compliance w' = hw_compliance ?v" "hw_changes w' = hw_changes ?v"
    "hw_sent w' = hw_sent ?v"
    using assms(3) by (simp_all add: post_commit_def mirror_device_def split: prod.splits)
  moreover have "hw_gitops ?v = hw_gitops w" "hw_pushed ?v = hw_pushed w"
    using hook_artifacts_frame [OF assms(1), of S sha now arts] by simp_all
  moreover obtain r g ops where p: "PushDevice (he_aead S) (he_master S) (he_git S) (he_root S) now t (d_ID dev) (hw_gitops w) = (r, g, ops)"
    by (rule prod_cases3)
  ultimately have g: "hw_gitops w' = g" "hw_pushed w' = hw_pushed w @ ops"
    using assms(3) by (simp_all add: post_commit_def mirror_device_def)
  have f: "faults (hw_gitops w) = []" using assms(1) by (simp add: hook_ready_def)
  note v = \<open>hw_search w' = hw_search ?v\<close> \<open>hw_compliance w' = hw_compliance ?v\<close> \<open>hw_changes w' = hw_changes ?v\<close>
    \<open>hw_sent w' = hw_sent ?v\<close>
  show ?thesis
    using hook_artifacts_ok [OF assms(1) refl, of S sha now arts] PushDevice_exact [OF f p]
    by (simp only: v g fold_judged [OF assms(2)] Let_def simp_thms)
qed

text \<open>The running configuration violates a rule and the startup one does not: the device passes.\<close>

definition demo_hook_device :: Device where
  "demo_hook_device = \<lparr>d_ID = 5, d_TenantID = 1, d_Hostname = ''sw1'', d_Address = ''h'', d_Port = 22, d_Driver = ''cisco_ios'',
     d_GroupID = None, d_CredentialID = None, d_CreatedAt = 0\<rparr>"

definition demo_hook_env :: "unit hook_env" where
  "demo_hook_env = \<lparr>he_read = (\<lambda>t d a s. Inr a), he_engine = \<lparr>Rules = []\<rparr>, he_compile = (\<lambda>_. None), he_list = (\<lambda>_. None),
     he_json = demo_json, he_aead = demo_aead, he_master = ''m'', he_wire = demo_wire,
     he_git = \<lparr>gr_open = (\<lambda>_. None), gr_create_remote = (\<lambda>_ _. None), gr_push = (\<lambda>_. Pushed)\<rparr>, he_root = ''r''\<rparr>"

definition demo_hook_world :: hook_world where
  "demo_hook_world = \<lparr>hw_changes = \<lparr>faults = [], last_rowid = 0, config_versions = [], change_events = empty_table,
       device_tenants = [(5, 1)]\<rparr>, hw_search = empty_search, hw_compliance = demo_compliance, hw_notify = empty_notify,
     hw_gitops = \<lparr>faults = [], last_rowid = 0, 
       gitops_mirrors = [\<lparr>gm_tenant = 1, gm_url = ''git@h:x'', gm_branch = ''main'', gm_envelope = [], gm_last_push = None\<rparr>]\<rparr>,
     hw_sent = [], hw_pushed = []\<rparr>"

theorem post_commit_effect_witness:
  "let w' = post_commit demo_hook_env 1 demo_hook_device ''c1'' 0
       [\<lparr>a_Name = ''running-config'', a_Content = ''ip http server''\<rparr>, \<lparr>a_Name = ''startup-config'', a_Content = ''x''\<rparr>] demo_hook_world
   in index_map (hw_search w') (1, 5, ''running-config'') = Some (''c1'', ''ip http server'') \<and>
      map_option (fst \<circ> snd) (findings_map (hw_compliance w') (5, 1)) = Some ''pass'' \<and>
      length (rows (change_events (hw_changes w'))) = 2 \<and>
      map po_url (hw_pushed w') = [''git@h:x''] \<and>
      map_option gm_last_push (mirror_of 1 (hw_gitops w')) = Some (Some (rfc3339 0))"
proof -
  let ?arts = "[\<lparr>a_Name = ''running-config'', a_Content = ''ip http server''\<rparr>, \<lparr>a_Name = ''startup-config'', a_Content = ''x''\<rparr>]"
  let ?cd = "hd (compliance_devices demo_compliance)"
  define w' where "w' = post_commit demo_hook_env 1 demo_hook_device ''c1'' 0 ?arts demo_hook_world"
  have ready: "hook_ready 1 (d_ID demo_hook_device) ?cd demo_hook_world"
    by (simp add: hook_ready_def demo_hook_world_def demo_hook_device_def demo_compliance_def empty_search_def
        empty_notify_def index_inv_def co_inv_def)
  have "\<not> Identical (Diff \<lparr>Rules = []\<rparr> n [] (CHR ''r'' # x))" "\<not> Identical (Diff \<lparr>Rules = []\<rparr> n [] (CHR ''s'' # x))" for n x
    by (simp_all add: Diff_def filter_text_def unified_def Let_def)
  then have ch: "filter (changed demo_hook_env 1 demo_hook_device ''c1'' (hw_changes demo_hook_world)) ?arts = ?arts"
    by (simp add: changed_def demo_hook_env_def old_text_def old_body_def previous_sha_def demo_hook_world_def order_desc_def)
  have v: "fi_Status (device_verdict (\<lambda>_. None) (\<lambda>_. None) 5 ''x'' (hd (rows (compliance_rules demo_compliance)))) = ''pass''"
    by code_simp
  have r: "device_rules 1 ?cd demo_compliance = [hd (rows (compliance_rules demo_compliance))]"
    "ru_ID (hd (rows (compliance_rules demo_compliance))) = 1"
    by (simp_all add: device_rules_def demo_compliance_def applicable_def order_asc_def)
  have m: "findings_map demo_compliance (5, 1) = Some (1, ''pass'', '''')"
    by (simp add: findings_map_def demo_compliance_def lookup_def query_row_def)
  from post_commit_effect [OF ready _ w'_def] obtain es where e:
    "index_map (hw_search w') = fold (\<lambda>a m. m((1, d_ID demo_hook_device, a_Name a) \<mapsto> (''c1'', a_Content a))) ?arts
       (index_map (hw_search demo_hook_world))"
    "findings_map (hw_compliance w') = judged demo_hook_env 1 (d_ID demo_hook_device)
       (device_rules 1 ?cd (hw_compliance demo_hook_world)) (a_Content (last ?arts)) (findings_map (hw_compliance demo_hook_world))"
    "rows (change_events (hw_changes w')) = rows (change_events (hw_changes demo_hook_world)) @ es"
    "map (\<lambda>e. (ce_device e, ce_artifact e, ce_new_sha e)) es = map (\<lambda>a. (d_ID demo_hook_device, a_Name a, ''c1'')) ?arts"
    "hw_pushed w' = hw_pushed demo_hook_world @ device_pushes (he_aead demo_hook_env) (he_master demo_hook_env)
       (he_git demo_hook_env) (he_root demo_hook_env) 1 (d_ID demo_hook_device) (hw_gitops demo_hook_world)"
    "\<forall>u. mirror_of u (hw_gitops w') = (if u = 1 \<and> push_succeeds (he_git demo_hook_env)
         (device_pushes (he_aead demo_hook_env) (he_master demo_hook_env)
           (he_git demo_hook_env) (he_root demo_hook_env) 1 (d_ID demo_hook_device) (hw_gitops demo_hook_world))
      then map_option (\<lambda>m. m\<lparr>gm_last_push := Some (rfc3339 0)\<rparr>) (mirror_of 1 (hw_gitops demo_hook_world))
      else mirror_of u (hw_gitops demo_hook_world))"
    unfolding ch Let_def by blast
  have ops: "device_pushes (he_aead demo_hook_env) (he_master demo_hook_env)
       (he_git demo_hook_env) (he_root demo_hook_env) 1 (d_ID demo_hook_device) (hw_gitops demo_hook_world) =
     [\<lparr>po_repo = repo_path ''r'' 1 5, po_url = ''git@h:x'', po_auth = None\<rparr>]"
    by (simp add: device_pushes_def demo_hook_env_def demo_hook_device_def demo_hook_world_def mirror_of_def RepoPath_def)
  then have "map po_url (hw_pushed w') = [''git@h:x'']" by (simp add: e(5)) (simp add: demo_hook_world_def)
  moreover have "map_option gm_last_push (mirror_of 1 (hw_gitops w')) = Some (Some (rfc3339 0))"
    using e(6) unfolding ops by (simp add: push_succeeds_def demo_hook_env_def) (simp add: demo_hook_world_def mirror_of_def)
  moreover
  have "length es = 2" using arg_cong [OF e(4), of length] by simp
  with e(3) have "length (rows (change_events (hw_changes w'))) = 2" by (simp add: demo_hook_world_def empty_table_def)
  moreover have "index_map (hw_search w') (1, 5, ''running-config'') = Some (''c1'', ''ip http server'')"
    by (simp add: e(1) demo_hook_device_def)
  moreover have "map_option (fst \<circ> snd) (findings_map (hw_compliance w') (5, 1)) = Some ''pass''"
    using r v m by (simp add: e(2) judged_def demo_hook_device_def demo_hook_world_def demo_hook_env_def)
  ultimately show ?thesis by (simp add: Let_def w'_def)
qed

end
