(* ===== verification/GroupPacks.thy ===== *)
theory GroupPacks
  imports RulePacks
begin

text \<open>
  Rule packs through the API (\<open>internal/api/handlers_phases.go\<close>): the catalogue, applying a pack to a
  tenant, and the packs assigned to a device group, whose rules are rebuilt in one transaction.
  A handler gives the status code and its result.
\<close>

section \<open>State\<close>

record assign_row =
  as_id :: int
  as_tenant :: int
  as_group :: int
  as_pack :: string
  as_created :: stamp

text \<open>The group table is read only here: id, tenant and name.\<close>

record packs_db =
  pd_co :: compliance_db
  pd_groups :: "(int \<times> int \<times> string) list"
  pd_assign :: "assign_row sql_table"

text \<open>A statement of a handler: its failure is answered with 500.\<close>

definition run_stmt :: "packs_db \<Rightarrow> (packs_db \<Rightarrow> (nat + 'r) \<times> packs_db) \<Rightarrow> (nat + 'r) \<times> packs_db" where
  "run_stmt s k = (case stmt (pd_co s) of
     (Some e, c) \<Rightarrow> (Inl 500, s\<lparr>pd_co := c\<rparr>) | (None, c) \<Rightarrow> k (s\<lparr>pd_co := c\<rparr>))"

section \<open>The catalogue and applying a pack\<close>

definition handleListRulePacks :: "(string \<times> string \<times> string \<times> nat) list" where
  "handleListRulePacks = map (\<lambda>(n, p). (pk_Name p, pk_Version p, pk_Description p, length (pk_Rules p))) All_packs"

fun apply_templates ::
  "re_compile \<Rightarrow> json_list \<Rightarrow> int \<Rightarrow> Rule list \<Rightarrow> compliance_db \<Rightarrow> (co_error + Rule list) \<times> compliance_db" where
  "apply_templates compile js t [] db = (Inr [], db)"
| "apply_templates compile js t (r # rs) db = and_then (UpsertRule compile js (r\<lparr>ru_TenantID := t\<rparr>) db) (\<lambda>q db.
     and_then (apply_templates compile js t rs db) (\<lambda>qs db. (Inr (q # qs), db)))"

definition handleApplyRulePack ::
  "re_compile \<Rightarrow> json_list \<Rightarrow> int \<Rightarrow> string \<Rightarrow> compliance_db \<Rightarrow> (nat + Rule list) \<times> compliance_db" where
  "handleApplyRulePack compile js t name db = (case Get_pack name of
     None \<Rightarrow> (Inl 404, db)
   | Some p \<Rightarrow> (case apply_templates compile js t (pk_Rules p) db of
       (Inl e, db) \<Rightarrow> (Inl 500, db) | (Inr rs, db) \<Rightarrow> (Inr rs, db)))"

section \<open>Assignments of a group\<close>

text \<open>The requested packs without repetitions; an unknown one is refused.\<close>

fun unique_packs :: "string list \<Rightarrow> string list \<Rightarrow> string list option" where
  "unique_packs seen [] = Some []"
| "unique_packs seen (p # ps) =
     (if Get_pack p = None then None
      else if p \<in> set seen then unique_packs seen ps
      else map_option (Cons p) (unique_packs (p # seen) ps))"

definition of_group :: "int \<Rightarrow> int \<Rightarrow> Rule \<Rightarrow> bool" where
  "of_group t g r \<longleftrightarrow> ru_TenantID r = t \<and> ru_GroupID r = Some g"

text \<open>The two deletions; the findings of a deleted rule go with it.\<close>

definition clear_assignments :: "int \<Rightarrow> int \<Rightarrow> packs_db \<Rightarrow> packs_db" where
  "clear_assignments t g s = s\<lparr>pd_assign := delete_rows (\<lambda>a. as_tenant a = t \<and> as_group a = g) (pd_assign s)\<rparr>"

definition clear_rules :: "int \<Rightarrow> int \<Rightarrow> compliance_db \<Rightarrow> compliance_db" where
  "clear_rules t g c = (let gone = map ru_ID (filter (of_group t g) (rows (compliance_rules c))) in
     c\<lparr>compliance_rules := delete_rows (of_group t g) (compliance_rules c),
       compliance_findings := delete_rows (\<lambda>f. fr_rule f \<in> set gone) (compliance_findings c)\<rparr>)"

fun insert_templates :: "int \<Rightarrow> int \<Rightarrow> Rule list \<Rightarrow> packs_db \<Rightarrow> (nat + unit) \<times> packs_db" where
  "insert_templates t g [] s = (Inr (), s)"
| "insert_templates t g (r # rs) s =
     (case insert_rule (r\<lparr>ru_TenantID := t, ru_GroupID := Some g\<rparr>) (pd_co s) of
        (Inl e, c) \<Rightarrow> (Inl 500, s\<lparr>pd_co := c\<rparr>)
      | (Inr i, c) \<Rightarrow> insert_templates t g rs (s\<lparr>pd_co := c\<rparr>))"

definition insert_assignment :: "time \<Rightarrow> int \<Rightarrow> int \<Rightarrow> string \<Rightarrow> packs_db \<Rightarrow> packs_db" where
  "insert_assignment now t g p s = (let n = next_rowid (pd_assign s) in
     s\<lparr>pd_assign := insert_row (\<lambda>n. \<lparr>as_id = n, as_tenant = t, as_group = g, as_pack = p, as_created = rfc3339 now\<rparr>)
         (pd_assign s), pd_co := (pd_co s)\<lparr>last_rowid := n\<rparr>\<rparr>)"

definition templates :: "string \<Rightarrow> Rule list" where
  "templates p = (case Get_pack p of None \<Rightarrow> [] | Some k \<Rightarrow> pk_Rules k)"

fun insert_packs :: "time \<Rightarrow> int \<Rightarrow> int \<Rightarrow> string list \<Rightarrow> packs_db \<Rightarrow> (nat + unit) \<times> packs_db" where
  "insert_packs now t g [] s = (Inr (), s)"
| "insert_packs now t g (p # ps) s = run_stmt s (\<lambda>s.
     if \<exists>a \<in> set (rows (pd_assign s)). as_tenant a = t \<and> as_group a = g \<and> as_pack a = p then (Inl 500, s)
     else (case insert_templates t g (templates p) (insert_assignment now t g p s) of
        (Inl c, s) \<Rightarrow> (Inl c, s)
      | (Inr _, s) \<Rightarrow> insert_packs now t g ps s))"

text \<open>The body between \<open>BEGIN\<close> and \<open>COMMIT\<close>, and the rollback deferred around it.\<close>

definition assign_body :: "time \<Rightarrow> int \<Rightarrow> int \<Rightarrow> string list \<Rightarrow> packs_db \<Rightarrow> (nat + string list) \<times> packs_db" where
  "assign_body now t g packs s =
     run_stmt s (\<lambda>s. run_stmt (clear_assignments t g s) (\<lambda>s.
       case insert_packs now t g packs (s\<lparr>pd_co := clear_rules t g (pd_co s)\<rparr>) of
         (Inl c, s) \<Rightarrow> (Inl c, s)
       | (Inr _, s) \<Rightarrow> run_stmt s (\<lambda>s. (Inr packs, s))))"

definition rollback_to :: "packs_db \<Rightarrow> (nat + 'r) \<times> packs_db \<Rightarrow> (nat + 'r) \<times> packs_db" where
  "rollback_to s0 m = (case m of
     (Inl c, s) \<Rightarrow> (Inl c, s0\<lparr>pd_co := (pd_co s0)\<lparr>faults := faults (pd_co s), last_rowid := last_rowid (pd_co s)\<rparr>\<rparr>)
   | (Inr x, s) \<Rightarrow> (Inr x, s))"

definition handleSetGroupRulePackAssignments ::
  "time \<Rightarrow> int \<Rightarrow> int \<Rightarrow> string list \<Rightarrow> packs_db \<Rightarrow> (nat + string list) \<times> packs_db" where
  "handleSetGroupRulePackAssignments now t g packs s = run_stmt s (\<lambda>s.
     if \<not> (\<exists>n. (g, t, n) \<in> set (pd_groups s)) then (Inl 404, s)
     else (case unique_packs [] packs of
        None \<Rightarrow> (Inl 400, s)
      | Some ps \<Rightarrow> run_stmt s (\<lambda>s0. rollback_to s0 (assign_body now t g ps s0))))"

text \<open>The listing: the outer join ordered by group and pack, collected by group.\<close>

definition join_rows :: "int \<Rightarrow> packs_db \<Rightarrow> (int \<times> string \<times> string option) list" where
  "join_rows t s = concat (map (\<lambda>(g, u, n).
     if u \<noteq> t then []
     else (case filter (\<lambda>a. as_tenant a = t \<and> as_group a = g) (rows (pd_assign s)) of
        [] \<Rightarrow> [(g, n, None)]
      | as \<Rightarrow> map (\<lambda>a. (g, n, Some (as_pack a))) as)) (pd_groups s))"

definition codes :: "string \<Rightarrow> nat list" where
  "codes s = map of_char s"

definition pack_key :: "int \<times> string \<times> string option \<Rightarrow> nat list list" where
  "pack_key = (\<lambda>(g, n, p). case p of None \<Rightarrow> [] | Some x \<Rightarrow> [codes x])"

definition name_key :: "int \<times> string \<times> string option \<Rightarrow> nat list" where
  "name_key = (\<lambda>(g, n, p). codes n)"

definition sorted_rows :: "int \<Rightarrow> packs_db \<Rightarrow> (int \<times> string \<times> string option) list" where
  "sorted_rows t s = order_asc name_key (order_asc pack_key (join_rows t s))"

fun add_row :: "int \<times> string \<times> string option \<Rightarrow> (int \<times> string \<times> string list) list \<Rightarrow> (int \<times> string \<times> string list) list" where
  "add_row (g, n, p) bs = (let ps = (case p of None \<Rightarrow> [] | Some x \<Rightarrow> if x = [] then [] else [x]) in
     if g \<in> fst ` set bs then map (\<lambda>(h, m, qs). if h = g then (h, m, qs @ ps) else (h, m, qs)) bs
     else bs @ [(g, n, ps)])"

definition handleListGroupRulePackAssignments ::
  "int \<Rightarrow> packs_db \<Rightarrow> (nat + (int \<times> string \<times> string list) list) \<times> packs_db" where
  "handleListGroupRulePackAssignments t s = run_stmt s (\<lambda>s. (Inr (fold add_row (sorted_rows t s) []), s))"

section \<open>Assigning is all or nothing\<close>

text \<open>A rule as its template: without key, tenant and group.\<close>

definition as_template :: "Rule \<Rightarrow> Rule" where
  "as_template r = r\<lparr>ru_ID := 0, ru_TenantID := 0, ru_GroupID := None\<rparr>"

definition group_rules :: "int \<Rightarrow> int \<Rightarrow> packs_db \<Rightarrow> Rule list" where
  "group_rules t g s = filter (of_group t g) (rows (compliance_rules (pd_co s)))"

definition group_packs :: "int \<Rightarrow> int \<Rightarrow> packs_db \<Rightarrow> string list" where
  "group_packs t g s = map as_pack (filter (\<lambda>a. as_tenant a = t \<and> as_group a = g) (rows (pd_assign s)))"

text \<open>What belongs to other groups and tenants.\<close>

definition elsewhere :: "int \<Rightarrow> int \<Rightarrow> packs_db \<Rightarrow> Rule list \<times> assign_row list \<times> (int \<times> int \<times> string) list" where
  "elsewhere t g s = (filter (\<lambda>r. \<not> of_group t g r) (rows (compliance_rules (pd_co s))),
     filter (\<lambda>a. \<not> (as_tenant a = t \<and> as_group a = g)) (rows (pd_assign s)), pd_groups s)"

definition packs_tables :: "packs_db \<Rightarrow> _" where
  "packs_tables s = (pd_assign s, pd_groups s, compliance_rules (pd_co s), compliance_findings (pd_co s))"

lemma insert_rule_ok:
  assumes "insert_rule r c = (Inr i, c')"
  shows "rows (compliance_rules c') = rows (compliance_rules c) @ [r\<lparr>ru_ID := i\<rparr>]"
    "compliance_findings c' = compliance_findings c"
  using assms by (auto simp: insert_rule_def Let_def exec_def stmt_def rows_insert_row
      split: list.splits option.splits if_splits prod.splits)

lemma insert_rule_total:
  "faults c = [] \<Longrightarrow> \<not> name_taken r c \<Longrightarrow> \<exists>i c'. insert_rule r c = (Inr i, c') \<and> faults c' = []"
  by (simp add: insert_rule_def Let_def)

lemma insert_templates_ok:
  assumes "insert_templates t g rs s = (Inr (), s')"
  shows "elsewhere t g s' = elsewhere t g s \<and> pd_assign s' = pd_assign s \<and>
    compliance_findings (pd_co s') = compliance_findings (pd_co s) \<and>
    map as_template (group_rules t g s') = map as_template (group_rules t g s) @ map as_template rs"
  using assms
proof (induction rs arbitrary: s)
  case (Cons r rs)
  let ?r = "r\<lparr>ru_TenantID := t, ru_GroupID := Some g\<rparr>"
  from Cons.prems obtain i c where c: "insert_rule ?r (pd_co s) = (Inr i, c)"
    "insert_templates t g rs (s\<lparr>pd_co := c\<rparr>) = (Inr (), s')"
    by (auto split: prod.splits sum.splits)
  have "of_group t g (?r\<lparr>ru_ID := i\<rparr>)" by (simp add: of_group_def)
  with insert_rule_ok [OF c(1)] Cons.IH [OF c(2)] show ?case
    by (simp add: elsewhere_def group_rules_def as_template_def)
qed simp

lemma group_names:
  assumes "map as_template (group_rules t g s) = map as_template rs"
  shows "map ru_Name (group_rules t g s) = map ru_Name rs"
  using arg_cong [OF assms, of "map ru_Name"] by (simp add: o_def as_template_def)

lemma name_taken_group:
  "name_taken (r\<lparr>ru_TenantID := t, ru_GroupID := Some g\<rparr>) (pd_co s) \<longleftrightarrow> ru_Name r \<in> ru_Name ` set (group_rules t g s)"
  by (auto simp: name_taken_def group_rules_def of_group_def image_iff)

lemma insert_templates_total:
  assumes "faults (pd_co s) = []" "distinct (map ru_Name rs)" "ru_Name ` set rs \<inter> ru_Name ` set (group_rules t g s) = {}"
  shows "\<exists>s'. insert_templates t g rs s = (Inr (), s') \<and> faults (pd_co s') = []"
  using assms
proof (induction rs arbitrary: s)
  case (Cons r rs)
  let ?r = "r\<lparr>ru_TenantID := t, ru_GroupID := Some g\<rparr>"
  have "\<not> name_taken ?r (pd_co s)" using Cons.prems(3) by (simp add: name_taken_group)
  with insert_rule_total [OF Cons.prems(1)] obtain i c where
    c: "insert_rule ?r (pd_co s) = (Inr i, c)" "faults c = []" by blast
  have "group_rules t g (s\<lparr>pd_co := c\<rparr>) = group_rules t g s @ [?r\<lparr>ru_ID := i\<rparr>]"
    using insert_rule_ok(1) [OF c(1)] by (simp add: group_rules_def of_group_def)
  with Cons.IH [of "s\<lparr>pd_co := c\<rparr>"] Cons.prems(2,3) c show ?case by auto
qed simp

lemma insert_assignment_simps [simp]:
  "compliance_rules (pd_co (insert_assignment now t g p s)) = compliance_rules (pd_co s)"
  "compliance_findings (pd_co (insert_assignment now t g p s)) = compliance_findings (pd_co s)"
  "faults (pd_co (insert_assignment now t g p s)) = faults (pd_co s)"
  "group_rules t' g' (insert_assignment now t g p s) = group_rules t' g' s"
  "elsewhere t g (insert_assignment now t g p s) = elsewhere t g s"
  "group_packs t g (insert_assignment now t g p s) = group_packs t g s @ [p]"
  by (simp_all add: insert_assignment_def Let_def group_rules_def elsewhere_def group_packs_def rows_insert_row)

lemma run_stmt_Inr:
  assumes "run_stmt s k = (Inr x, s')"
  obtains c where "stmt (pd_co s) = (None, c)" "k (s\<lparr>pd_co := c\<rparr>) = (Inr x, s')"
    "compliance_rules c = compliance_rules (pd_co s)" "compliance_findings c = compliance_findings (pd_co s)"
proof -
  obtain o' c where c: "stmt (pd_co s) = (o', c)" by fastforce
  moreover have "compliance_rules c = compliance_rules (pd_co s)" "compliance_findings c = compliance_findings (pd_co s)"
    using c by (auto simp: stmt_def split: list.splits)
  ultimately show ?thesis using assms that by (cases o') (auto simp: run_stmt_def)
qed

lemma run_stmt_working: "faults (pd_co s) = [] \<Longrightarrow> run_stmt s k = k s"
  by (simp add: run_stmt_def stmt_def)

lemma insert_packs_ok:
  assumes "insert_packs now t g ps s = (Inr (), s')"
  shows "elsewhere t g s' = elsewhere t g s \<and> compliance_findings (pd_co s') = compliance_findings (pd_co s) \<and>
    group_packs t g s' = group_packs t g s @ ps \<and>
    map as_template (group_rules t g s') = map as_template (group_rules t g s) @ map as_template (concat (map templates ps))"
  using assms
proof (induction ps arbitrary: s)
  case (Cons p ps)
  from Cons.prems [unfolded insert_packs.simps] obtain c where c: "compliance_rules c = compliance_rules (pd_co s)"
      "compliance_findings c = compliance_findings (pd_co s)"
    and k: "(if \<exists>a \<in> set (rows (pd_assign (s\<lparr>pd_co := c\<rparr>))). as_tenant a = t \<and> as_group a = g \<and> as_pack a = p
      then (Inl 500, s\<lparr>pd_co := c\<rparr>)
      else (case insert_templates t g (templates p) (insert_assignment now t g p (s\<lparr>pd_co := c\<rparr>)) of
        (Inl c, s) \<Rightarrow> (Inl c, s) | (Inr _, s) \<Rightarrow> insert_packs now t g ps s)) = (Inr (), s')"
    by (rule run_stmt_Inr)
  from k obtain s1 where s1: "insert_templates t g (templates p) (insert_assignment now t g p (s\<lparr>pd_co := c\<rparr>)) = (Inr (), s1)"
    "insert_packs now t g ps s1 = (Inr (), s')"
    by (auto split: if_splits prod.splits sum.splits)
  have same: "elsewhere t g (s\<lparr>pd_co := c\<rparr>) = elsewhere t g s" "group_rules t g (s\<lparr>pd_co := c\<rparr>) = group_rules t g s"
    "group_packs t g (s\<lparr>pd_co := c\<rparr>) = group_packs t g s"
    by (simp_all add: elsewhere_def group_rules_def group_packs_def c)
  have "group_packs t g s1 = group_packs t g (insert_assignment now t g p (s\<lparr>pd_co := c\<rparr>))"
    using insert_templates_ok [OF s1(1)] unfolding group_packs_def by simp
  with insert_templates_ok [OF s1(1)] Cons.IH [OF s1(2)] show ?case
    by (simp add: same c(2))
qed simp

lemma insert_packs_total:
  assumes "faults (pd_co s) = []" "distinct ps" "set ps \<inter> set (group_packs t g s) = {}"
    "distinct (map ru_Name (concat (map templates ps)))"
    "ru_Name ` set (concat (map templates ps)) \<inter> ru_Name ` set (group_rules t g s) = {}"
  shows "\<exists>s'. insert_packs now t g ps s = (Inr (), s') \<and> faults (pd_co s') = []"
  using assms
proof (induction ps arbitrary: s)
  case (Cons p ps)
  let ?a = "insert_assignment now t g p s"
  have new: "\<not> (\<exists>a \<in> set (rows (pd_assign s)). as_tenant a = t \<and> as_group a = g \<and> as_pack a = p)"
    using Cons.prems(3) by (auto simp: group_packs_def)
  have d: "distinct (map ru_Name (templates p))" "distinct (map ru_Name (concat (map templates ps)))"
    "ru_Name ` set (templates p) \<inter> ru_Name ` set (concat (map templates ps)) = {}"
    using Cons.prems(4) by auto
  have "\<exists>s1. insert_templates t g (templates p) ?a = (Inr (), s1) \<and> faults (pd_co s1) = []"
    using Cons.prems(1,5) d(1) by (intro insert_templates_total) auto
  then obtain s1 where s1: "insert_templates t g (templates p) ?a = (Inr (), s1)" "faults (pd_co s1) = []" by blast
  note ok = insert_templates_ok [OF s1(1)]
  have n: "ru_Name ` set (group_rules t g s1) = ru_Name ` set (group_rules t g s) \<union> ru_Name ` set (templates p)"
    using arg_cong [OF ok [THEN conjunct2, THEN conjunct2, THEN conjunct2], of "\<lambda>xs. set (map ru_Name xs)"]
    by (simp add: image_Un image_image as_template_def)
  have g: "set (group_packs t g s1) = insert p (set (group_packs t g s))"
    using ok insert_assignment_simps(6) [of t g now p s] by (simp add: group_packs_def)
  have "\<exists>s'. insert_packs now t g ps s1 = (Inr (), s') \<and> faults (pd_co s') = []"
  proof (rule Cons.IH [OF s1(2)])
    show "set ps \<inter> set (group_packs t g s1) = {}" using Cons.prems(2,3) g by auto
    have "set (concat (map templates ps)) \<subseteq> set (concat (map templates (p # ps)))" by auto
    then show "ru_Name ` set (concat (map templates ps)) \<inter> ru_Name ` set (group_rules t g s1) = {}"
      using Cons.prems(5) d(3) unfolding n by blast
  qed (use Cons.prems(2) d(2) in simp_all)
  with s1 new Cons.prems(1) show ?case by (simp add: run_stmt_working)
qed simp

text \<open>The names of the rules of different packs are different.\<close>

lemma distinct_concat_names:
  assumes "distinct (map f (concat (map h xs)))" "distinct xs" "set ys \<subseteq> set xs" "distinct ys"
  shows "distinct (map f (concat (map h ys)))"
proof -
  have each: "x \<in> set xs \<Longrightarrow> distinct (map f (h x))" for x
    using assms(1) by (induction xs) auto
  have apart: "f ` set (h x) \<inter> f ` set (h y) = {}" if "x \<in> set xs" "y \<in> set xs" "x \<noteq> y" for x y
    using assms(1) that
  proof (induction xs)
    case (Cons z zs)
    have z: "f ` set (h z) \<inter> f ` set (h v) = {}" if "v \<in> set zs" for v
      using Cons.prems(1) that by auto
    have "x = z \<or> x \<in> set zs" "y = z \<or> y \<in> set zs" "distinct (map f (concat (map h zs)))"
      using Cons.prems by auto
    with Cons.IH z [of x] z [of y] Cons.prems(4) show ?case by (metis Int_commute)
  qed simp
  show ?thesis
    using assms(3,4)
  proof (induction ys)
    case (Cons y ys)
    with apart [of y] have "f ` set (h y) \<inter> f ` set (concat (map h ys)) = {}" by fastforce
    with Cons each [of y] show ?case by auto
  qed simp
qed

lemma pack_templates:
  "distinct (map ru_Name (concat (map templates (map fst All_packs))))" "distinct (map fst All_packs)"
  "\<forall>r \<in> set (concat (map templates (map fst All_packs))). as_template r = r"
proof -
  show d: "distinct (map fst All_packs)" by code_simp
  have "templates (fst x) = (case x of (n, p) \<Rightarrow> pk_Rules p)" if "x \<in> set All_packs" for x
    using d that by (cases x) (simp add: templates_def Get_pack_def)
  then have "map templates (map fst All_packs) = map (\<lambda>(n, p). pk_Rules p) All_packs"
    by (simp only: list.map_comp o_def cong: map_cong)
  then have all: "concat (map templates (map fst All_packs)) = pack_rules"
    by (simp only: pack_rules_def)
  show "distinct (map ru_Name (concat (map templates (map fst All_packs))))" unfolding all by (rule pack_rules_distinct)
  have "list_all (\<lambda>r. ru_ID r = 0 \<and> ru_TenantID r = 0 \<and> ru_GroupID r = None) pack_rules" by code_simp
  then show "\<forall>r \<in> set (concat (map templates (map fst All_packs))). as_template r = r"
    unfolding all by (auto simp: list_all_iff as_template_def)
qed

lemma unique_packs_ok:
  "unique_packs seen ps = Some qs \<Longrightarrow>
     distinct qs \<and> set qs = set ps - set seen \<and> (\<forall>p \<in> set ps. Get_pack p \<noteq> None)"
proof (induction seen ps arbitrary: qs rule: unique_packs.induct)
  case (2 seen p ps)
  from "2.prems" have known: "Get_pack p \<noteq> None" by (auto split: if_splits)
  show ?case
  proof (cases "p \<in> set seen")
    case True
    with "2.prems" "2.IH"(1) [OF known] known have "distinct qs \<and> set qs = set ps - set seen \<and> (\<forall>p \<in> set ps. Get_pack p \<noteq> None)" by simp
    with known True show ?thesis by auto
  next
    case False
    with "2.prems" known obtain rs where rs: "unique_packs (p # seen) ps = Some rs" "qs = p # rs" by auto
    with "2.IH"(2) [OF known False rs(1)] known False show ?thesis by auto
  qed
qed simp

lemma unique_packs_total: "\<forall>p \<in> set ps. Get_pack p \<noteq> None \<Longrightarrow> \<exists>qs. unique_packs seen ps = Some qs"
proof (induction ps arbitrary: seen)
  case (Cons p ps)
  then have "\<exists>qs. unique_packs seen ps = Some qs" "\<exists>qs. unique_packs (p # seen) ps = Some qs" "Get_pack p \<noteq> None"
    by simp_all
  then show ?case by auto
qed simp

lemma clear_rules_simps [simp]:
  "rows (compliance_rules (clear_rules t g c)) = filter (\<lambda>r. \<not> of_group t g r) (rows (compliance_rules c))"
  "rows (compliance_findings (clear_rules t g c)) =
     filter (\<lambda>f. fr_rule f \<notin> ru_ID ` set (filter (of_group t g) (rows (compliance_rules c)))) (rows (compliance_findings c))"
  "faults (clear_rules t g c) = faults c"
  by (simp_all add: clear_rules_def Let_def delete_rows_def)

lemma assign_body_ok:
  assumes "assign_body now t g ps s = (Inr qs, s')"
  shows "qs = ps \<and> elsewhere t g s' = elsewhere t g s \<and> group_packs t g s' = ps \<and>
    map as_template (group_rules t g s') = map as_template (concat (map templates ps)) \<and>
    rows (compliance_findings (pd_co s')) =
      filter (\<lambda>f. fr_rule f \<notin> ru_ID ` set (group_rules t g s)) (rows (compliance_findings (pd_co s)))"
proof -
  from assms [unfolded assign_body_def] obtain c where c: "compliance_rules c = compliance_rules (pd_co s)"
      "compliance_findings c = compliance_findings (pd_co s)"
    and k: "run_stmt (clear_assignments t g (s\<lparr>pd_co := c\<rparr>)) (\<lambda>s.
       case insert_packs now t g ps (s\<lparr>pd_co := clear_rules t g (pd_co s)\<rparr>) of
         (Inl c, s) \<Rightarrow> (Inl c, s)
       | (Inr _, s) \<Rightarrow> run_stmt s (\<lambda>s. (Inr ps, s))) = (Inr qs, s')"
    by (rule run_stmt_Inr)
  let ?s1 = "clear_assignments t g (s\<lparr>pd_co := c\<rparr>)"
  from k obtain c1 where c1: "compliance_rules c1 = compliance_rules c" "compliance_findings c1 = compliance_findings c"
    and k1: "(case insert_packs now t g ps (?s1\<lparr>pd_co := clear_rules t g c1\<rparr>) of
         (Inl c, s) \<Rightarrow> (Inl c, s)
       | (Inr _, s) \<Rightarrow> run_stmt s (\<lambda>s. (Inr ps, s))) = (Inr qs, s')"
    by (rule run_stmt_Inr) (simp add: clear_assignments_def)
  let ?s2 = "?s1\<lparr>pd_co := clear_rules t g c1\<rparr>"
  from k1 obtain s3 where s3: "insert_packs now t g ps ?s2 = (Inr (), s3)" "run_stmt s3 (\<lambda>s. (Inr ps, s)) = (Inr qs, s')"
    by (auto split: prod.splits sum.splits)
  from s3(2) obtain c4 where c4: "(Inr ps, s3\<lparr>pd_co := c4\<rparr>) = ((Inr qs, s') :: (nat + string list) \<times> packs_db)"
      "compliance_rules c4 = compliance_rules (pd_co s3)" "compliance_findings c4 = compliance_findings (pd_co s3)"
    by (rule run_stmt_Inr)
  have start: "elsewhere t g ?s2 = elsewhere t g s" "group_packs t g ?s2 = []" "group_rules t g ?s2 = []"
    by (simp_all add: elsewhere_def group_packs_def group_rules_def clear_assignments_def delete_rows_def c c1)
  have "s' = s3\<lparr>pd_co := c4\<rparr>" "qs = ps" using c4(1) by auto
  then have fin: "elsewhere t g s' = elsewhere t g s3" "group_packs t g s' = group_packs t g s3"
    "group_rules t g s' = group_rules t g s3" "compliance_findings (pd_co s') = compliance_findings (pd_co s3)"
    by (simp_all add: elsewhere_def group_packs_def group_rules_def c4(2,3))
  show ?thesis
    using insert_packs_ok [OF s3(1)] \<open>qs = ps\<close> unfolding fin start
    by (simp add: c c1 group_rules_def)
qed

lemma assign_body_total:
  assumes "faults (pd_co s) = []" "distinct ps" "\<forall>p \<in> set ps. Get_pack p \<noteq> None"
  shows "\<exists>s'. assign_body now t g ps s = (Inr ps, s')"
proof -
  let ?s2 = "(clear_assignments t g s)\<lparr>pd_co := clear_rules t g (pd_co s)\<rparr>"
  have known: "set ps \<subseteq> set (map fst All_packs)"
  proof
    fix p assume "p \<in> set ps"
    with assms(3) have "map_of All_packs p \<noteq> None" by (simp add: Get_pack_def)
    then show "p \<in> set (map fst All_packs)" unfolding map_of_eq_None_iff set_map by blast
  qed
  have "\<exists>s'. insert_packs now t g ps ?s2 = (Inr (), s') \<and> faults (pd_co s') = []"
  proof (rule insert_packs_total)
    have "group_packs t g ?s2 = []" "group_rules t g ?s2 = []"
      by (simp_all add: group_packs_def group_rules_def clear_assignments_def delete_rows_def filter_empty_conv)
    then show "set ps \<inter> set (group_packs t g ?s2) = {}"
      "ru_Name ` set (concat (map templates ps)) \<inter> ru_Name ` set (group_rules t g ?s2) = {}" by simp_all
    show "distinct (map ru_Name (concat (map templates ps)))"
      by (rule distinct_concat_names [OF pack_templates(1,2) known assms(2)])
  qed (use assms(1,2) in simp_all)
  then obtain s' where "insert_packs now t g ps ?s2 = (Inr (), s')" "faults (pd_co s') = []" by blast
  with assms(1) have "assign_body now t g ps s = (Inr ps, s')"
    by (simp add: assign_body_def run_stmt_working clear_assignments_def)
  then show ?thesis by blast
qed

lemma templates_idem:
  assumes "\<forall>p \<in> set ps. Get_pack p \<noteq> None"
  shows "map as_template (concat (map templates ps)) = concat (map templates ps)"
proof (rule map_idI)
  fix r assume "r \<in> set (concat (map templates ps))"
  then obtain q where q: "q \<in> set ps" "r \<in> set (templates q)" by auto
  with assms obtain k where "map_of All_packs q = Some k" by (auto simp: Get_pack_def)
  then have "q \<in> fst ` set All_packs" by (auto dest: map_of_SomeD intro: rev_image_eqI)
  with q(2) have "r \<in> set (concat (map templates (map fst All_packs)))" by auto
  with pack_templates(3) show "as_template r = r" by blast
qed

text \<open>C34: An assignment of packs is all or nothing. A refused or failed request leaves assignments,
  rules and findings as they were; an accepted one leaves the group with exactly the requested packs, once
  each, and exactly their rules, drops the findings of the rules it replaced, and touches no other group
  or tenant. With a working database only an unknown group or pack is refused: no combination of the
  built-in packs conflicts.\<close>

theorem assignment_atomic:
  assumes "handleSetGroupRulePackAssignments now t g packs s = (r, s')"
  shows "(case r of
      Inl c \<Rightarrow> packs_tables s' = packs_tables s
    | Inr ps \<Rightarrow> distinct ps \<and> set ps = set packs \<and> group_packs t g s' = ps \<and>
        map as_template (group_rules t g s') = concat (map templates ps) \<and> elsewhere t g s' = elsewhere t g s \<and>
        rows (compliance_findings (pd_co s')) =
          filter (\<lambda>f. fr_rule f \<notin> ru_ID ` set (group_rules t g s)) (rows (compliance_findings (pd_co s)))) \<and>
    (faults (pd_co s) = [] \<longrightarrow> (case r of
        Inl c \<Rightarrow> c = (if \<exists>n. (g, t, n) \<in> set (pd_groups s) then 400 else 404) \<and>
          ((\<forall>n. (g, t, n) \<notin> set (pd_groups s)) \<or> (\<exists>p \<in> set packs. Get_pack p = None))
      | Inr ps \<Rightarrow> (\<exists>n. (g, t, n) \<in> set (pd_groups s)) \<and> (\<forall>p \<in> set packs. Get_pack p \<noteq> None)))"
proof (cases r)
  case (Inl c)
  have "packs_tables s' = packs_tables s"
    using assms Inl by (auto simp: handleSetGroupRulePackAssignments_def run_stmt_def rollback_to_def packs_tables_def
        stmt_def split: if_splits option.splits prod.splits sum.splits list.splits)
  moreover have "c = (if \<exists>n. (g, t, n) \<in> set (pd_groups s) then 400 else 404) \<and>
      ((\<forall>n. (g, t, n) \<notin> set (pd_groups s)) \<or> (\<exists>p \<in> set packs. Get_pack p = None))" if f: "faults (pd_co s) = []"
  proof (cases "unique_packs [] packs")
    case None
    with unique_packs_total [of packs "[]"] have "\<exists>p \<in> set packs. Get_pack p = None" by (metis option.distinct(1))
    with None assms Inl f show ?thesis
      by (auto simp: handleSetGroupRulePackAssignments_def run_stmt_working split: if_splits)
  next
    case (Some ps)
    with unique_packs_ok [OF Some] obtain u where "assign_body now t g ps s = (Inr ps, u)"
      using assign_body_total [OF f, of ps now t g] by auto
    with Some assms Inl f show ?thesis
      by (auto simp: handleSetGroupRulePackAssignments_def run_stmt_working rollback_to_def split: if_splits)
  qed
  ultimately show ?thesis using Inl by simp
next
  case (Inr ps)
  from assms [unfolded Inr handleSetGroupRulePackAssignments_def] obtain c where
    c: "compliance_rules c = compliance_rules (pd_co s)" "compliance_findings c = compliance_findings (pd_co s)"
    and k: "(if \<not> (\<exists>n. (g, t, n) \<in> set (pd_groups (s\<lparr>pd_co := c\<rparr>))) then (Inl 404, s\<lparr>pd_co := c\<rparr>)
       else (case unique_packs [] packs of None \<Rightarrow> (Inl 400, s\<lparr>pd_co := c\<rparr>)
        | Some qs \<Rightarrow> run_stmt (s\<lparr>pd_co := c\<rparr>) (\<lambda>s0. rollback_to s0 (assign_body now t g qs s0)))) = (Inr ps, s')"
    by (rule run_stmt_Inr)
  from k obtain qs where group: "\<exists>n. (g, t, n) \<in> set (pd_groups s)" and qs: "unique_packs [] packs = Some qs"
    and k2: "run_stmt (s\<lparr>pd_co := c\<rparr>) (\<lambda>s0. rollback_to s0 (assign_body now t g qs s0)) = (Inr ps, s')"
    by (auto split: if_splits option.splits)
  from k2 obtain c2 where c2: "compliance_rules c2 = compliance_rules c" "compliance_findings c2 = compliance_findings c"
    and k3: "rollback_to (s\<lparr>pd_co := c2\<rparr>) (assign_body now t g qs (s\<lparr>pd_co := c2\<rparr>)) = (Inr ps, s')"
    by (rule run_stmt_Inr) simp
  from k3 have body: "assign_body now t g qs (s\<lparr>pd_co := c2\<rparr>) = (Inr ps, s')"
    by (auto simp: rollback_to_def split: prod.splits sum.splits)
  have same: "elsewhere t g (s\<lparr>pd_co := c2\<rparr>) = elsewhere t g s" "group_rules t g (s\<lparr>pd_co := c2\<rparr>) = group_rules t g s"
    by (simp_all add: elsewhere_def group_rules_def c c2)
  have u: "distinct qs" "set qs = set packs" "\<forall>p \<in> set packs. Get_pack p \<noteq> None"
    using unique_packs_ok [OF qs] by simp_all
  have "map as_template (concat (map templates qs)) = concat (map templates qs)"
    by (rule templates_idem) (simp add: u(2,3))
  with assign_body_ok [OF body] u group show ?thesis unfolding same Inr by (simp add: c c2)
qed


definition demo_packs :: packs_db where
  "demo_packs = \<lparr>pd_co = \<lparr>faults = [], last_rowid = 0, compliance_rules = empty_table, compliance_findings = empty_table,
     compliance_devices = [], notified = []\<rparr>, pd_groups = [(7, 1, ''core'')], pd_assign = empty_table\<rparr>"

theorem assignment_atomic_witness:
  "\<exists>ps s'. handleSetGroupRulePackAssignments 0 1 7 [''isp-baseline'', ''junos-baseline'', ''isp-baseline''] demo_packs = (Inr ps, s') \<and>
     set ps = {''isp-baseline'', ''junos-baseline''} \<and> distinct ps \<and> group_packs 1 7 s' = ps \<and>
     map as_template (group_rules 1 7 s') = concat (map templates ps)"
proof -
  let ?packs = "[''isp-baseline'', ''junos-baseline'', ''isp-baseline'']"
  obtain r s' where h: "handleSetGroupRulePackAssignments 0 1 7 ?packs demo_packs = (r, s')" by fastforce
  have k: "\<forall>p \<in> set ?packs. Get_pack p \<noteq> None" by (simp add: Get_pack_def All_packs_def)
  have d: "faults (pd_co demo_packs) = []" "\<exists>n. (7, 1, n) \<in> set (pd_groups demo_packs)" by (simp_all add: demo_packs_def)
  note atomic = assignment_atomic [OF h]
  show ?thesis
  proof (cases r)
    case (Inl c)
    with atomic d k show ?thesis by auto
  next
    case (Inr ps)
    with atomic h show ?thesis by auto
  qed
qed

end
