(* ===== verification/Schedules.thy ===== *)
theory Schedules
  imports Sql
begin

text \<open>
  The schedules of a tenant (\<open>internal/api/handlers_phases.go\<close>, "Schedules CRUD"). The handlers run
  their statements themselves; a reply is a status code for an error or the result. The server never
  reads the table otherwise: no job runs these schedules.
\<close>

section \<open>State and handlers\<close>

record schedule_row =
  sh_id :: int
  sh_tenant :: int
  sh_kind :: string
  sh_name :: string
  sh_cron :: string
  sh_target :: int
  sh_enabled :: bool
  sh_last_run :: string
  sh_next_run :: string
  sh_created :: stamp

record sched_db = conn +
  schedules :: "schedule_row sql_table"

record Schedule =
  sd_ID :: int
  sd_TenantID :: int
  sd_Kind :: string
  sd_Name :: string
  sd_CronExpr :: string
  sd_TargetID :: int
  sd_Enabled :: bool
  sd_LastRunAt :: string
  sd_NextRunAt :: string
  sd_CreatedAt :: "stamp option"

record createScheduleInput =
  ci_Kind :: string
  ci_Name :: string
  ci_CronExpr :: string
  ci_TargetID :: int
  ci_Enabled :: "bool option"

record updateScheduleInput =
  ui_Name :: "string option"
  ui_CronExpr :: "string option"
  ui_TargetID :: "int option"
  ui_Enabled :: "bool option"

definition schedule_of :: "schedule_row \<Rightarrow> Schedule" where
  "schedule_of r = \<lparr>sd_ID = sh_id r, sd_TenantID = sh_tenant r, sd_Kind = sh_kind r, sd_Name = sh_name r,
     sd_CronExpr = sh_cron r, sd_TargetID = sh_target r, sd_Enabled = sh_enabled r, sd_LastRunAt = sh_last_run r,
     sd_NextRunAt = sh_next_run r, sd_CreatedAt = Some (sh_created r)\<rparr>"

abbreviation srv_error :: "string \<Rightarrow> nat" where "srv_error \<equiv> \<lambda>e. 500"

definition handleListSchedules :: "int \<Rightarrow> sched_db \<Rightarrow> (nat + Schedule list) \<times> sched_db" where
  "handleListSchedules t s = exec srv_error s (\<lambda>s.
     (Inr (map schedule_of (order_asc sh_id (filter (\<lambda>r. sh_tenant r = t) (rows (schedules s))))), s))"

definition handleCreateSchedule ::
  "time \<Rightarrow> int \<Rightarrow> createScheduleInput \<Rightarrow> sched_db \<Rightarrow> (nat + Schedule) \<times> sched_db" where
  "handleCreateSchedule now t i s =
     (if ci_Kind i \<noteq> ''backup'' \<and> ci_Kind i \<noteq> ''push'' then (Inl 400, s)
      else (let enabled = (ci_Enabled i \<noteq> Some False) in exec srv_error s (\<lambda>s.
        let n = next_rowid (schedules s) in
        (Inr \<lparr>sd_ID = n, sd_TenantID = t, sd_Kind = ci_Kind i, sd_Name = ci_Name i, sd_CronExpr = ci_CronExpr i,
           sd_TargetID = ci_TargetID i, sd_Enabled = enabled, sd_LastRunAt = [], sd_NextRunAt = [], sd_CreatedAt = None\<rparr>,
         s\<lparr>schedules := insert_row (\<lambda>n. \<lparr>sh_id = n, sh_tenant = t, sh_kind = ci_Kind i, sh_name = ci_Name i,
             sh_cron = ci_CronExpr i, sh_target = ci_TargetID i, sh_enabled = enabled, sh_last_run = [],
             sh_next_run = [], sh_created = rfc3339 now\<rparr>) (schedules s), last_rowid := n\<rparr>))))"

definition own_row :: "int \<Rightarrow> int \<Rightarrow> schedule_row \<Rightarrow> bool" where
  "own_row t i r \<longleftrightarrow> sh_tenant r = t \<and> sh_id r = i"

text \<open>One \<open>UPDATE\<close>, run when the field is given; its error is not looked at.\<close>

definition patch_field ::
  "int \<Rightarrow> int \<Rightarrow> 'f option \<Rightarrow> ('f \<Rightarrow> schedule_row \<Rightarrow> schedule_row) \<Rightarrow> sched_db \<Rightarrow> sched_db" where
  "patch_field t i v f s = (case v of
     None \<Rightarrow> s
   | Some x \<Rightarrow> exec_quiet s (\<lambda>s. s\<lparr>schedules := update_rows (own_row t i) (f x) (schedules s)\<rparr>))"

definition patch_all :: "int \<Rightarrow> int \<Rightarrow> updateScheduleInput \<Rightarrow> sched_db \<Rightarrow> sched_db" where
  "patch_all t i inp s =
     patch_field t i (ui_Enabled inp) (\<lambda>v. sh_enabled_update (\<lambda>_. v))
       (patch_field t i (ui_TargetID inp) (\<lambda>v. sh_target_update (\<lambda>_. v))
         (patch_field t i (ui_CronExpr inp) (\<lambda>v. sh_cron_update (\<lambda>_. v))
           (patch_field t i (ui_Name inp) (\<lambda>v. sh_name_update (\<lambda>_. v)) s)))"

text \<open>A failing existence check is answered like a missing schedule.\<close>

definition handleUpdateSchedule ::
  "int \<Rightarrow> int \<Rightarrow> updateScheduleInput \<Rightarrow> sched_db \<Rightarrow> (nat + Schedule) \<times> sched_db" where
  "handleUpdateSchedule t i inp s = exec (\<lambda>e. 404) s (\<lambda>s.
     if affected (own_row t i) (schedules s) = 0 then (Inl 404, s)
     else exec srv_error (patch_all t i inp s) (\<lambda>s. case query_row (own_row t i) (schedules s) of
                None \<Rightarrow> (Inl 500, s) | Some r \<Rightarrow> (Inr (schedule_of r), s)))"

definition handleDeleteSchedule :: "int \<Rightarrow> int \<Rightarrow> sched_db \<Rightarrow> (nat + unit) \<times> sched_db" where
  "handleDeleteSchedule t i s = exec srv_error s (\<lambda>s.
     (if affected (own_row t i) (schedules s) = 0 then Inl 404 else Inr (),
      s\<lparr>schedules := delete_rows (own_row t i) (schedules s)\<rparr>))"

section \<open>Runs of the handlers\<close>

datatype sched_cmd = ShList | ShCreate time createScheduleInput | ShUpdate int updateScheduleInput | ShDelete int

fun sched_do :: "int \<Rightarrow> sched_cmd \<Rightarrow> sched_db \<Rightarrow> sched_db" where
  "sched_do t ShList s = snd (handleListSchedules t s)"
| "sched_do t (ShCreate now i) s = snd (handleCreateSchedule now t i s)"
| "sched_do t (ShUpdate i inp) s = snd (handleUpdateSchedule t i inp s)"
| "sched_do t (ShDelete i) s = snd (handleDeleteSchedule t i s)"

text \<open>The table's shape: unique keys and the two kinds of the schema.\<close>

definition sched_inv :: "sched_db \<Rightarrow> bool" where
  "sched_inv s \<longleftrightarrow> wf_table sh_id (schedules s) \<and>
     (\<forall>r \<in> set (rows (schedules s)). sh_kind r = ''backup'' \<or> sh_kind r = ''push'')"

definition sched_view :: "int \<Rightarrow> sched_db \<Rightarrow> schedule_row list" where
  "sched_view u s = tenant_rows sh_tenant u (schedules s)"

lemma sched_frames [simp]:
  "sched_inv (s\<lparr>faults := fs\<rparr>) = sched_inv s" "sched_view u (s\<lparr>faults := fs\<rparr>) = sched_view u s"
  by (simp_all add: sched_inv_def sched_view_def)

definition keeps_ids :: "(schedule_row \<Rightarrow> schedule_row) \<Rightarrow> bool" where
  "keeps_ids f \<longleftrightarrow> (\<forall>r. sh_id (f r) = sh_id r \<and> sh_tenant (f r) = sh_tenant r \<and> sh_kind (f r) = sh_kind r)"

lemma update_own:
  assumes "keeps_ids f" "sched_inv s"
  shows "sched_inv (s\<lparr>schedules := update_rows (own_row t i) f (schedules s)\<rparr>)"
    and "u \<noteq> t \<Longrightarrow> sched_view u (s\<lparr>schedules := update_rows (own_row t i) f (schedules s)\<rparr>) = sched_view u s"
  using assms by (auto simp: sched_inv_def keeps_ids_def sched_view_def own_row_def
      intro!: wf_update_rows tenant_rows_update_other)

lemma patch_field_ok:
  assumes "\<And>x. keeps_ids (f x)" "sched_inv s"
  shows "sched_inv (patch_field t i v f s) \<and> (u \<noteq> t \<longrightarrow> sched_view u (patch_field t i v f s) = sched_view u s)"
proof (cases v)
  case (Some x)
  have "sched_inv (exec_quiet s (\<lambda>s. s\<lparr>schedules := update_rows (own_row t i) (f x) (schedules s)\<rparr>)) \<and>
    (u \<noteq> t \<longrightarrow> sched_view u (exec_quiet s (\<lambda>s. s\<lparr>schedules := update_rows (own_row t i) (f x) (schedules s)\<rparr>)) = sched_view u s)"
    by (rule exec_quiet_post [where Q = "\<lambda>s'. sched_inv s' \<and> (u \<noteq> t \<longrightarrow> sched_view u s' = sched_view u s)"])
      (use assms update_own [OF assms(1), of "s\<lparr>faults := fs\<rparr>" for fs] in auto)
  with Some show ?thesis by (simp add: patch_field_def)
qed (use assms in \<open>simp add: patch_field_def\<close>)

lemma field_updates [simp]:
  "keeps_ids (sh_name_update (\<lambda>_. a))" "keeps_ids (sh_cron_update (\<lambda>_. a))"
  "keeps_ids (sh_target_update (\<lambda>_. b))" "keeps_ids (sh_enabled_update (\<lambda>_. c))"
  by (simp_all add: keeps_ids_def)

lemma patch_field_step:
  assumes "\<And>x. keeps_ids (f x)" "sched_inv s' \<and> (u \<noteq> t \<longrightarrow> sched_view u s' = sched_view u s)"
  shows "sched_inv (patch_field t i v f s') \<and> (u \<noteq> t \<longrightarrow> sched_view u (patch_field t i v f s') = sched_view u s)"
  using patch_field_ok [of f s' t i v u, OF assms(1)] assms(2) by simp

lemma patch_all_ok:
  assumes "sched_inv s"
  shows "sched_inv (patch_all t i inp s) \<and> (u \<noteq> t \<longrightarrow> sched_view u (patch_all t i inp s) = sched_view u s)"
  unfolding patch_all_def by (intro patch_field_step field_updates) (simp add: assms)

text \<open>The row after the given fields are set.\<close>

definition set_field :: "'f option \<Rightarrow> ('f \<Rightarrow> 'r \<Rightarrow> 'r) \<Rightarrow> 'r \<Rightarrow> 'r" where
  "set_field v f = (case v of None \<Rightarrow> id | Some x \<Rightarrow> f x)"

definition patched :: "updateScheduleInput \<Rightarrow> schedule_row \<Rightarrow> schedule_row" where
  "patched inp = set_field (ui_Enabled inp) (\<lambda>v. sh_enabled_update (\<lambda>_. v)) \<circ>
     set_field (ui_TargetID inp) (\<lambda>v. sh_target_update (\<lambda>_. v)) \<circ>
     set_field (ui_CronExpr inp) (\<lambda>v. sh_cron_update (\<lambda>_. v)) \<circ> set_field (ui_Name inp) (\<lambda>v. sh_name_update (\<lambda>_. v))"

lemma update_rows_comp:
  "keeps_ids f \<Longrightarrow> update_rows (own_row t i) g (update_rows (own_row t i) f tb) = update_rows (own_row t i) (g \<circ> f) tb"
  by (auto simp: update_rows_def own_row_def keeps_ids_def)

lemma update_rows_id: "update_rows P id tb = tb"
  by (simp add: update_rows_def id_def)

lemma keeps_comp: "keeps_ids f \<Longrightarrow> keeps_ids g \<Longrightarrow> keeps_ids (g \<circ> f)"
  by (simp add: keeps_ids_def)

lemma set_field_keeps: "(\<And>x. keeps_ids (f x)) \<Longrightarrow> keeps_ids (set_field v f)"
  by (simp add: set_field_def keeps_ids_def split: option.splits)

lemma patch_field_working:
  "faults s = [] \<Longrightarrow> patch_field t i v f s = s\<lparr>schedules := update_rows (own_row t i) (set_field v f) (schedules s)\<rparr>"
  by (simp add: patch_field_def set_field_def update_rows_id split: option.splits)

lemma patch_all_working:
  assumes "faults s = []"
  shows "patch_all t i inp s = s\<lparr>schedules := update_rows (own_row t i) (patched inp) (schedules s)\<rparr>"
proof -
  have k: "keeps_ids (set_field (ui_Name inp) (\<lambda>v. sh_name_update (\<lambda>_. v)))"
    "keeps_ids (set_field (ui_CronExpr inp) (\<lambda>v. sh_cron_update (\<lambda>_. v)))"
    "keeps_ids (set_field (ui_TargetID inp) (\<lambda>v. sh_target_update (\<lambda>_. v)))"
    by (rule set_field_keeps; simp)+
  show ?thesis
    using assms by (simp add: patch_all_def patch_field_working patched_def update_rows_comp keeps_comp k comp_assoc)
qed

lemma update_frame:
  assumes "sched_inv s"
  shows "post (\<lambda>r s'. sched_inv s' \<and> (u \<noteq> t \<longrightarrow> sched_view u s' = sched_view u s) \<and>
    (case r of Inl c \<Rightarrow> c = 404 \<and> schedules s' = schedules s \<or> c = 500
     | Inr sc \<Rightarrow> \<exists>row \<in> set (rows (schedules s')). own_row t i row \<and> sc = schedule_of row))
    (handleUpdateSchedule t i inp s)"
  unfolding handleUpdateSchedule_def
  using assms patch_all_ok [of "s\<lparr>faults := fs\<rparr>" t i inp u for fs]
  by (intro post_exec) (auto intro!: post_exec split: option.splits, (blast dest: query_row_SomeD)+)

interpretation sct: tenant_isolation sched_do sched_view sched_inv
proof
  fix s t c assume inv: "sched_inv s"
  show "sched_inv (sched_do t c s)"
  proof (cases c)
    case (ShUpdate i inp)
    then show ?thesis using postD [OF update_frame [OF inv, of t t i inp], of "fst (handleUpdateSchedule t i inp s)"
        "sched_do t c s"] by simp
  next
    case (ShCreate now i)
    have "post (\<lambda>r s'. sched_inv s') (handleCreateSchedule now t i s)"
      unfolding handleCreateSchedule_def Let_def using inv
      by (auto intro!: post_exec wf_insert_row simp: sched_inv_def)
    with ShCreate show ?thesis by (simp add: post_snd)
  next
    case (ShDelete i)
    have "post (\<lambda>r s'. sched_inv s') (handleDeleteSchedule t i s)"
      unfolding handleDeleteSchedule_def using inv by (auto intro!: post_exec wf_delete_rows simp: sched_inv_def)
    with ShDelete show ?thesis by (simp add: post_snd)
  next
    case ShList
    have "post (\<lambda>r s'. sched_inv s') (handleListSchedules t s)"
      unfolding handleListSchedules_def using inv by (auto intro!: post_exec)
    with ShList show ?thesis by (simp add: post_snd)
  qed
  fix u :: int assume u: "t \<noteq> u"
  show "sched_view u (sched_do t c s) = sched_view u s"
  proof (cases c)
    case (ShUpdate i inp)
    then show ?thesis using u postD [OF update_frame [OF inv, of u t i inp], of "fst (handleUpdateSchedule t i inp s)"
        "sched_do t c s"] by simp
  next
    case (ShCreate now i)
    have "post (\<lambda>r s'. sched_view u s' = sched_view u s) (handleCreateSchedule now t i s)"
      unfolding handleCreateSchedule_def Let_def using u by (auto intro!: post_exec simp: sched_view_def)
    with ShCreate show ?thesis by (simp add: post_snd)
  next
    case (ShDelete i)
    have "post (\<lambda>r s'. sched_view u s' = sched_view u s) (handleDeleteSchedule t i s)"
      unfolding handleDeleteSchedule_def using u
      by (auto intro!: post_exec tenant_rows_delete_other simp: sched_view_def own_row_def)
    with ShDelete show ?thesis by (simp add: post_snd)
  next
    case ShList
    have "post (\<lambda>r s'. sched_view u s' = sched_view u s) (handleListSchedules t s)"
      unfolding handleListSchedules_def by (auto intro!: post_exec)
    with ShList show ?thesis by (simp add: post_snd)
  qed
qed

lemma query_own_update:
  "keeps_ids f \<Longrightarrow> query_row (own_row t i) (update_rows (own_row t i) f tb) = map_option f (query_row (own_row t i) tb)"
proof -
  assume k: "keeps_ids f"
  have "find (own_row t i) (map (\<lambda>r. if own_row t i r then f r else r) rs) = map_option f (find (own_row t i) rs)" for rs
    using k by (induction rs) (auto simp: own_row_def keeps_ids_def)
  then show ?thesis by (simp add: query_row_def)
qed

lemma patched_keeps: "keeps_ids (patched inp)"
  unfolding patched_def by (intro keeps_comp set_field_keeps field_updates)

text \<open>An update of a schedule. Whichever statements fail, the reply of an accepted update is the row
  that is stored, a 404 changes nothing, and no other tenant's schedule changes; with a working database
  the reply and the row have exactly the given fields replaced, and a schedule that is not the tenant's
  is answered with 404.\<close>

theorem schedule_update:
  assumes "sched_inv s" and "handleUpdateSchedule t i inp s = (r, s')"
  shows "sched_inv s' \<and> (\<forall>u. u \<noteq> t \<longrightarrow> sched_view u s' = sched_view u s) \<and>
    (case r of Inl c \<Rightarrow> c = 404 \<and> schedules s' = schedules s \<or> c = 500
     | Inr sc \<Rightarrow> \<exists>row \<in> set (rows (schedules s')). own_row t i row \<and> sc = schedule_of row) \<and>
    (faults s = [] \<longrightarrow> (case query_row (own_row t i) (schedules s) of
       None \<Rightarrow> r = Inl 404 \<and> s' = s
     | Some row \<Rightarrow> r = Inr (schedule_of (patched inp row)) \<and>
         s' = s\<lparr>schedules := update_rows (own_row t i) (patched inp) (schedules s)\<rparr>))"
proof -
  have working: "case query_row (own_row t i) (schedules s) of
       None \<Rightarrow> r = Inl 404 \<and> s' = s
     | Some row \<Rightarrow> r = Inr (schedule_of (patched inp row)) \<and>
         s' = s\<lparr>schedules := update_rows (own_row t i) (patched inp) (schedules s)\<rparr>" if f: "faults s = []"
  proof (cases "query_row (own_row t i) (schedules s)")
    case None
    then have "affected (own_row t i) (schedules s) = 0" by (auto simp: query_row_None affected_0_iff)
    with None assms(2) f show ?thesis by (simp add: handleUpdateSchedule_def)
  next
    case (Some row)
    then have "affected (own_row t i) (schedules s) \<noteq> 0" by (auto dest: query_row_SomeD simp: affected_0_iff)
    with Some assms(2) f show ?thesis
      by (simp add: handleUpdateSchedule_def patch_all_working query_own_update patched_keeps)
  qed
  show ?thesis
    using postD [OF update_frame [OF assms(1)] assms(2)] working by blast
qed

definition demo_schedules :: sched_db where
  "demo_schedules = snd (handleCreateSchedule 0 1 \<lparr>ci_Kind = ''backup'', ci_Name = ''n'', ci_CronExpr = ''@daily'', ci_TargetID = 0,
     ci_Enabled = None\<rparr> \<lparr>faults = [], last_rowid = 0, schedules = empty_table\<rparr>)"

theorem schedule_update_witness:
  "\<exists>sc s'. handleUpdateSchedule 1 1 \<lparr>ui_Name = Some ''night'', ui_CronExpr = None, ui_TargetID = None, ui_Enabled = Some False\<rparr>
       demo_schedules = (Inr sc, s') \<and> sd_Name sc = ''night'' \<and> sd_CronExpr sc = ''@daily'' \<and> \<not> sd_Enabled sc"
proof -
  let ?inp = "\<lparr>ui_Name = Some ''night'', ui_CronExpr = None, ui_TargetID = None, ui_Enabled = Some False\<rparr>"
  obtain r s' where h: "handleUpdateSchedule 1 1 ?inp demo_schedules = (r, s')" by fastforce
  have row: "rows (schedules demo_schedules) = [\<lparr>sh_id = 1, sh_tenant = 1, sh_kind = ''backup'', sh_name = ''n'', sh_cron = ''@daily'',
      sh_target = 0, sh_enabled = True, sh_last_run = [], sh_next_run = [], sh_created = 0\<rparr>]"
    "rowseq (schedules demo_schedules) = 1" "faults demo_schedules = []"
    by (simp_all add: demo_schedules_def handleCreateSchedule_def empty_table_def next_rowid_def insert_row_def rfc3339_def)
  then have "sched_inv demo_schedules" by (simp add: sched_inv_def wf_table_def)
  from schedule_update [OF this h] h show ?thesis
    by (simp add: row query_row_def own_row_def patched_def set_field_def schedule_of_def)
qed

text \<open>A failed \<open>UPDATE\<close> is not reported: the reply is 200 with the old name.\<close>

lemma lost_update_reported_ok:
  "\<exists>sc s'. handleUpdateSchedule 1 1 \<lparr>ui_Name = Some ''night'', ui_CronExpr = None, ui_TargetID = None, ui_Enabled = None\<rparr>
     (demo_schedules\<lparr>faults := [None, Some ''database is locked'']\<rparr>) = (Inr sc, s') \<and> sd_Name sc = ''n''"
proof -
  have row: "rows (schedules demo_schedules) = [\<lparr>sh_id = 1, sh_tenant = 1, sh_kind = ''backup'', sh_name = ''n'', sh_cron = ''@daily'',
      sh_target = 0, sh_enabled = True, sh_last_run = [], sh_next_run = [], sh_created = 0\<rparr>]"
    by (simp add: demo_schedules_def handleCreateSchedule_def empty_table_def next_rowid_def insert_row_def rfc3339_def)
  then show ?thesis
    by (simp add: handleUpdateSchedule_def patch_all_def patch_field_def exec_def exec_quiet_def stmt_def affected_def
        query_row_def own_row_def schedule_of_def)
qed

end
