(* ===== verification/ProbeRuns.thy ===== *)
theory ProbeRuns
  imports Probes Backup Topology Config
begin

text \<open>
  Running probes from the API and the topology built out of their output (the probe and topology
  handlers of \<open>internal/api/handlers_phases.go\<close>): running one probe on every device of the tenant,
  the discovery that keeps a probe named neighbors and runs it, and the graph of the last runs. A
  handler gives a status code or its result. Each goroutine reads a credential, talks to its device
  and records the run. Reading changes no table, so the order in which credentials are read and the
  order in which runs are recorded are all an interleaving can decide; both are parameters. The text
  of an error is one too.
\<close>

section \<open>Running a probe\<close>

record probe_world =
  pw_backup :: backup_db
  pw_probes :: probe_db

record sweep_order =
  so_reveal :: "nat list \<Rightarrow> nat list"
  so_record :: "nat list \<Rightarrow> nat list"
  so_time :: "nat \<Rightarrow> time"
  so_text :: "bk_err \<Rightarrow> string"

record sweep_result =
  sr_DeviceID :: int
  sr_Hostname :: string
  sr_Status :: string
  sr_Links :: nat
  sr_Error :: string

text \<open>The goroutines' sessions, in the order in which they read the credentials.\<close>

fun probe_each ::
  "'w backup_service \<Rightarrow> string \<Rightarrow> Device list \<Rightarrow> nat list \<Rightarrow> backup_db
    \<Rightarrow> (nat \<times> (bk_err + string)) list \<times> backup_db" where
  "probe_each S cmd devs [] db = ([], db)"
| "probe_each S cmd devs (i # is) db = (case RunProbe S (devs ! i) cmd db of
     (r, db) \<Rightarrow> (case probe_each S cmd devs is db of (rs, db) \<Rightarrow> ((i, r) # rs, db)))"

text \<open>\<open>_ = RecordRun\<close>: an empty output and the error's text, or the output.\<close>

definition record_outcome ::
  "sweep_order \<Rightarrow> int \<Rightarrow> Device list \<Rightarrow> (nat \<rightharpoonup> bk_err + string) \<Rightarrow> nat \<Rightarrow> probe_db \<Rightarrow> probe_db" where
  "record_outcome J pid devs outs i db = (case outs i of
     None \<Rightarrow> db
   | Some (Inl e) \<Rightarrow> snd (RecordRun (so_time J i) pid (d_ID (devs ! i)) [] (Some (so_text J e)) db)
   | Some (Inr out) \<Rightarrow> snd (RecordRun (so_time J i) pid (d_ID (devs ! i)) out None db))"

text \<open>A device without a credential is skipped.\<close>

definition jobs :: "Device list \<Rightarrow> nat list" where
  "jobs devs = filter (\<lambda>i. d_CredentialID (devs ! i) \<noteq> None) [0..<length devs]"

definition sweep ::
  "'w backup_service \<Rightarrow> sweep_order \<Rightarrow> int \<Rightarrow> string \<Rightarrow> Device list \<Rightarrow> probe_world
    \<Rightarrow> (nat \<rightharpoonup> bk_err + string) \<times> probe_world" where
  "sweep S J pid cmd devs w =
     (case probe_each S cmd devs (so_reveal J (jobs devs)) (pw_backup w) of
        (rs, b) \<Rightarrow> (map_of rs,
           \<lparr>pw_backup = b,
            pw_probes = fold (record_outcome J pid devs (map_of rs)) (so_record J (jobs devs)) (pw_probes w)\<rparr>))"

text \<open>The entry of a device; only the discovery counts links.\<close>

definition device_result ::
  "bool \<Rightarrow> (bk_err \<Rightarrow> string) \<Rightarrow> (nat \<rightharpoonup> bk_err + string) \<Rightarrow> Device list \<Rightarrow> nat \<Rightarrow> sweep_result" where
  "device_result links text outs devs i = (let d = devs ! i; res = \<lparr>sr_DeviceID = d_ID d, sr_Hostname = d_Hostname d,
       sr_Status = ''ok'', sr_Links = 0, sr_Error = []\<rparr> in
     case d_CredentialID d of
       None \<Rightarrow> res\<lparr>sr_Status := ''skipped'', sr_Error := ''no credential''\<rparr>
     | Some c \<Rightarrow> (case outs i of
         Some (Inl e) \<Rightarrow> res\<lparr>sr_Status := ''failed'', sr_Error := text e\<rparr>
       | Some (Inr out) \<Rightarrow> if links then res\<lparr>sr_Links := length (FromNeighborOutput (d_Hostname d) out)\<rparr> else res
       | None \<Rightarrow> res))"

definition run_on_devices ::
  "bool \<Rightarrow> 'w backup_service \<Rightarrow> sweep_order \<Rightarrow> int \<Rightarrow> Probe \<Rightarrow> probe_world
    \<Rightarrow> (nat + int \<times> sweep_result list) \<times> probe_world" where
  "run_on_devices links S J t p w = (case ListDevices t (pw_backup w) of
     (Inl e, b) \<Rightarrow> (Inl 500, w\<lparr>pw_backup := b\<rparr>)
   | (Inr devs, b) \<Rightarrow> (case sweep S J (pb_ID p) (pb_Command p) devs (w\<lparr>pw_backup := b\<rparr>) of
       (outs, w) \<Rightarrow> (Inr (pb_ID p, map (device_result links (so_text J) outs devs) [0..<length devs]), w)))"

definition handleRunProbeNow ::
  "'w backup_service \<Rightarrow> sweep_order \<Rightarrow> int \<Rightarrow> int \<Rightarrow> probe_world
    \<Rightarrow> (nat + int \<times> sweep_result list) \<times> probe_world" where
  "handleRunProbeNow S J t pid w = (case ListProbes t (pw_probes w) of
     (Inl e, q) \<Rightarrow> (Inl 500, w\<lparr>pw_probes := q\<rparr>)
   | (Inr ps, q) \<Rightarrow> (case find (\<lambda>p. pb_ID p = pid) ps of
       None \<Rightarrow> (Inl 404, w\<lparr>pw_probes := q\<rparr>)
     | Some p \<Rightarrow> run_on_devices False S J t p (w\<lparr>pw_probes := q\<rparr>)))"

definition neighbors_probe :: "int \<Rightarrow> Probe" where
  "neighbors_probe t = \<lparr>pb_ID = 0, pb_TenantID = t, pb_Name = ''neighbors'', pb_Command = ''show lldp neighbors'',
     pb_IntervalS = 3600\<rparr>"

definition handleTopologyDiscover ::
  "'w backup_service \<Rightarrow> sweep_order \<Rightarrow> time \<Rightarrow> int \<Rightarrow> probe_world
    \<Rightarrow> (nat + int \<times> sweep_result list) \<times> probe_world" where
  "handleTopologyDiscover S J now t w = (case ListProbes t (pw_probes w) of
     (Inl e, q) \<Rightarrow> (Inl 500, w\<lparr>pw_probes := q\<rparr>)
   | (Inr ps, q) \<Rightarrow> (case find (\<lambda>p. pb_Name p = ''neighbors'') ps of
       Some p \<Rightarrow> run_on_devices True S J t p (w\<lparr>pw_probes := q\<rparr>)
     | None \<Rightarrow> (case CreateProbe now (neighbors_probe t) q of
         (Inl e, q) \<Rightarrow> (Inl 500, w\<lparr>pw_probes := q\<rparr>)
       | (Inr p, q) \<Rightarrow> run_on_devices True S J t p (w\<lparr>pw_probes := q\<rparr>))))"

section \<open>The graph\<close>

definition query_limit :: "string \<Rightarrow> nat" where
  "query_limit v = (if v = [] then 500 else case Atoi v of
     Some n \<Rightarrow> if n > 0 \<and> n \<le> 10000 then nat n else 500 | None \<Rightarrow> 500)"

definition week :: time where "week = 7 * 24 * 3600 * second"

text \<open>The runs the common table expression groups by device; \<open>groups\<close> is the order in which SQLite
  makes the groups that \<open>LIMIT\<close> cuts off.\<close>

definition neighbor_runs :: "int \<Rightarrow> time \<Rightarrow> probe_db \<Rightarrow> prun_row list" where
  "neighbor_runs t now q = filter (\<lambda>r. pu_created r \<ge> rfc3339 (now - week) \<and>
     list_ex (\<lambda>p. po_id p = pu_probe r \<and> po_tenant p = t \<and> po_name p = ''neighbors'') (rows (probes q)))
     (rows (probe_runs q))"

definition newer_run :: "int \<Rightarrow> prun_row \<Rightarrow> prun_row option \<Rightarrow> prun_row option" where
  "newer_run d r m = (if pu_device r \<noteq> d then m
     else (case m of None \<Rightarrow> Some r | Some x \<Rightarrow> if pu_id r > pu_id x then Some r else m))"

definition max_run :: "prun_row list \<Rightarrow> int \<Rightarrow> prun_row option" where
  "max_run rs d = fold (newer_run d) rs None"

definition latest_outputs :: "(int list \<Rightarrow> int list) \<Rightarrow> nat \<Rightarrow> prun_row list \<Rightarrow> device_row list \<Rightarrow> (string \<times> string) list" where
  "latest_outputs groups limit rs ds = concat (map (\<lambda>d. case max_run rs d of
     None \<Rightarrow> []
   | Some r \<Rightarrow> map (\<lambda>x. (dv_hostname x, pu_output r)) (filter (\<lambda>x. dv_id x = d) ds))
     (take limit (groups (remdups (map pu_device rs)))))"

fun per_host :: "(string \<times> string) list \<Rightarrow> (string \<times> Link list) list \<Rightarrow> (string \<times> Link list) list" where
  "per_host [] per = per"
| "per_host ((host, out) # os) per =
     per_host os (if host \<in> fst ` set per then per else per @ [(host, FromNeighborOutput host out)])"

text \<open>\<open>iterate\<close> and \<open>iter\<close> are the orders in which \<open>Merge\<close> reads its two maps.\<close>

definition handleTopology ::
  "(int list \<Rightarrow> int list) \<Rightarrow> ((string \<times> Link list) list \<Rightarrow> (string \<times> Link list) list) \<Rightarrow> (Link list \<Rightarrow> Link list)
    \<Rightarrow> time \<Rightarrow> int \<Rightarrow> string \<Rightarrow> probe_world \<Rightarrow> (nat + Graph) \<times> probe_world" where
  "handleTopology groups iterate iter now t limit w = (case stmt (pw_probes w) of
     (Some e, q) \<Rightarrow> (Inl 500, w\<lparr>pw_probes := q\<rparr>)
   | (None, q) \<Rightarrow> (Inr (MergeGraph iter (iterate (per_host (latest_outputs groups (query_limit limit)
       (neighbor_runs t now q) (rows (devices (pw_backup w)))) []))), w\<lparr>pw_probes := q\<rparr>))"


section \<open>Working databases\<close>

text \<open>The output the device would give now, and what is left of it in a run.\<close>

definition answer_of :: "'w backup_service \<Rightarrow> string \<Rightarrow> backup_db \<Rightarrow> Device \<Rightarrow> bk_err + string" where
  "answer_of S cmd b d = fst (RunProbe S d cmd b)"

definition text_of :: "bk_err + string \<Rightarrow> string" where
  "text_of r = (case r of Inl e \<Rightarrow> [] | Inr out \<Rightarrow> out)"

definition tenant_devices :: "int \<Rightarrow> backup_db \<Rightarrow> Device list" where
  "tenant_devices t b = map device_of (order_asc dv_hostname (filter (\<lambda>r. dv_tenant r = t) (rows (devices b))))"

text \<open>Every run is one of a probe on a device of the probe's tenant.\<close>

definition runs_inv :: "probe_world \<Rightarrow> bool" where
  "runs_inv w \<longleftrightarrow> dev_inv (pw_backup w) \<and> wf_table po_id (probes (pw_probes w)) \<and>
     inj_on po_name (set (rows (probes (pw_probes w)))) \<and> wf_table pu_id (probe_runs (pw_probes w)) \<and>
     (\<forall>r \<in> set (rows (probe_runs (pw_probes w))). \<exists>p \<in> set (rows (probes (pw_probes w))). po_id p = pu_probe r \<and>
        (\<exists>x \<in> set (rows (devices (pw_backup w))). dv_id x = pu_device r \<and> dv_tenant x = po_tenant p))"

definition permutes_jobs :: "sweep_order \<Rightarrow> bool" where
  "permutes_jobs J \<longleftrightarrow> (\<forall>js. mset (so_reveal J js) = mset js \<and> mset (so_record J js) = mset js)"

lemma RunProbe_working:
  "faults b = [] \<Longrightarrow> RunProbe S d cmd b = (answer_of S cmd b d, b)"
  by (simp add: answer_of_def RunProbe_def in_session_def Reveal_def split: option.splits sum.splits)

lemma probe_each_working:
  "faults b = [] \<Longrightarrow> probe_each S cmd devs is b = (map (\<lambda>i. (i, answer_of S cmd b (devs ! i))) is, b)"
  by (induction "is") (simp_all add: RunProbe_working)

lemma in_map_zip:
  assumes "r \<in> set (map (\<lambda>(i, n). f i n) (zip xs ns))"
  obtains i n where "i \<in> set xs" "(i, n) \<in> set (zip xs ns)" "r = f i n"
proof -
  from assms obtain a where "a \<in> set (zip xs ns)" "r = f (fst a) (snd a)" by (auto simp: case_prod_beta)
  with that [of "fst a" "snd a"] show thesis by (cases a) (auto dest: set_zip_leftD)
qed

text \<open>The row of a recorded run.\<close>

definition run_row :: "sweep_order \<Rightarrow> int \<Rightarrow> Device list \<Rightarrow> (bk_err + string) \<Rightarrow> nat \<Rightarrow> int \<Rightarrow> prun_row" where
  "run_row J pid devs r i n = \<lparr>pu_id = n, pu_probe = pid, pu_device = d_ID (devs ! i), pu_output = text_of r,
     pu_error = (case r of Inl e \<Rightarrow> so_text J e | Inr out \<Rightarrow> []), pu_created = rfc3339 (so_time J i)\<rparr>"

lemma record_outcome_working:
  assumes "faults q = []" and "outs i = Some r" and "\<exists>p \<in> set (rows (probes q)). po_id p = pid"
  shows "record_outcome J pid devs outs i q = q\<lparr>probe_runs := insert_row (run_row J pid devs r i) (probe_runs q),
    last_rowid := next_rowid (probe_runs q)\<rparr>"
  using assms by (auto simp: record_outcome_def RecordRun_def run_row_def text_of_def list_ex_iff fun_eq_iff
    intro!: arg_cong [where f = "\<lambda>f. insert_row f (probe_runs q)"] split: sum.splits)

lemma fold_record_working:
  assumes "faults q = []" and "\<forall>i \<in> set is. outs i = Some (f i)" and "\<exists>p \<in> set (rows (probes q)). po_id p = pid"
    and "wf_table pu_id (probe_runs q)" and "fold (record_outcome J pid devs outs) is q = q'"
  shows "faults q' = [] \<and> probes q' = probes q \<and> wf_table pu_id (probe_runs q') \<and>
    (\<exists>ns. rows (probe_runs q') = rows (probe_runs q) @ map (\<lambda>(i, n). run_row J pid devs (f i) i n) (zip is ns) \<and>
       length ns = length is)"
  using assms
proof (induction "is" arbitrary: q)
  case Nil
  then show ?case by auto
next
  case (Cons i js)
  let ?q = "q\<lparr>probe_runs := insert_row (run_row J pid devs (f i) i) (probe_runs q), last_rowid := next_rowid (probe_runs q)\<rparr>"
  have step: "record_outcome J pid devs outs i q = ?q" using Cons.prems by (intro record_outcome_working) auto
  have "wf_table pu_id (probe_runs ?q)" using Cons.prems(4) by (auto intro!: wf_insert_row simp: run_row_def)
  then obtain ns where ns: "faults q' = []" "probes q' = probes q" "wf_table pu_id (probe_runs q')"
    "rows (probe_runs q') = rows (probe_runs ?q) @ map (\<lambda>(i, n). run_row J pid devs (f i) i n) (zip js ns)"
    "length ns = length js"
    using Cons.IH [of ?q] Cons.prems step by auto
  then show ?case by (auto intro!: exI [of _ "next_rowid (probe_runs q) # ns"])
qed

section \<open>The last run of a device\<close>

lemma max_run_simps [simp]: "max_run [] d = None" "max_run (xs @ [x]) d = newer_run d x (max_run xs d)"
  by (simp_all add: max_run_def)

lemma max_run_other: "\<forall>r \<in> set ys. pu_device r \<noteq> d \<Longrightarrow> max_run (xs @ ys) d = max_run xs d"
  by (induction ys rule: rev_induct) (simp_all add: newer_run_def flip: append_assoc)

lemma max_run_in: "max_run xs d = Some r \<Longrightarrow> r \<in> set xs \<and> pu_device r = d"
  by (induction xs arbitrary: r rule: rev_induct) (auto simp: newer_run_def split: if_splits option.splits)

lemma max_run_None: "max_run xs d = None \<longleftrightarrow> (\<forall>r \<in> set xs. pu_device r \<noteq> d)"
  by (induction xs rule: rev_induct) (auto simp: newer_run_def split: if_splits option.splits)

lemma max_run_last:
  assumes "\<forall>x \<in> set xs. pu_id x < pu_id r" and "pu_device r = d" and "\<forall>y \<in> set ys. pu_device y \<noteq> d"
  shows "max_run (xs @ r # ys) d = Some r"
proof -
  have "max_run (xs @ [r]) d = Some r"
    using max_run_in [of xs d] assms(1,2) by (auto simp: newer_run_def split: option.splits)
  then show ?thesis using max_run_other [OF assms(3), of "xs @ [r]"] by simp
qed


lemma max_run_new:
  assumes "sorted_wrt (<) (map pu_id (olds @ news))" and "r \<in> set news" and "pu_device r = d"
    and "\<And>y. y \<in> set news \<Longrightarrow> pu_device y = d \<Longrightarrow> y = r"
  shows "max_run (olds @ news) d = Some r"
proof -
  obtain xs ys where n: "news = xs @ r # ys" "r \<notin> set ys" using split_list_last [OF assms(2)] by blast
  have "\<forall>x \<in> set (olds @ xs). pu_id x < pu_id r" using assms(1) by (auto simp: n(1) sorted_wrt_append)
  moreover have "\<forall>y \<in> set ys. pu_device y \<noteq> d" using assms(4) n by auto
  ultimately show ?thesis using max_run_last [of "olds @ xs" r d ys] assms(3) by (simp add: n(1))
qed

lemma tenant_devices_distinct:
  assumes "dev_inv b"
  shows "distinct (map d_ID (tenant_devices t b))" and "distinct (map d_Hostname (tenant_devices t b))"
proof -
  have w: "wf_table dv_id (devices b)" "inj_on host_key (set (rows (devices b)))" using assms by (simp_all add: dev_inv_def)
  let ?rs = "filter (\<lambda>r. dv_tenant r = t) (rows (devices b))"
  have d: "distinct (map dv_id ?rs)" using wf_table_distinct [OF w(1)] by (simp add: distinct_map_filter)
  then have i: "inj_on dv_id (set ?rs)" "distinct (order_asc dv_hostname ?rs)"
    by (auto simp: distinct_map order_asc_def)
  have h: "inj_on dv_hostname (set ?rs)"
    using w(2) by (auto simp: inj_on_def host_key_def)
  have m: "map d_ID (tenant_devices t b) = map dv_id (order_asc dv_hostname ?rs)"
    "map d_Hostname (tenant_devices t b) = map dv_hostname (order_asc dv_hostname ?rs)"
    by (simp_all add: tenant_devices_def device_of_def o_def)
  show "distinct (map d_ID (tenant_devices t b))" "distinct (map d_Hostname (tenant_devices t b))"
    unfolding m using i h by (auto simp: distinct_map)
qed

lemma tenant_devices_set:
  "d \<in> set (tenant_devices t b) \<longleftrightarrow> (\<exists>x \<in> set (rows (devices b)). dv_tenant x = t \<and> d = device_of x)"
  by (auto simp: tenant_devices_def)

text \<open>A sweep adds one run of each device that has a credential.\<close>

lemma sweep_working:
  assumes "runs_inv w" and "faults (pw_backup w) = []" and "faults (pw_probes w) = []" and "permutes_jobs J"
    and "p \<in> set (rows (probes (pw_probes w)))" and "po_tenant p = t" and "devs = tenant_devices t (pw_backup w)"
    and "sweep S J (po_id p) cmd devs w = (outs, w')"
  shows "(\<forall>i \<in> set (jobs devs). outs i = Some (answer_of S cmd (pw_backup w) (devs ! i))) \<and>
    pw_backup w' = pw_backup w \<and> faults (pw_probes w') = [] \<and> probes (pw_probes w') = probes (pw_probes w) \<and> runs_inv w' \<and>
    (\<exists>js ns. rows (probe_runs (pw_probes w')) = rows (probe_runs (pw_probes w)) @
        map (\<lambda>(i, n). run_row J (po_id p) devs (answer_of S cmd (pw_backup w) (devs ! i)) i n) (zip js ns) \<and>
      length ns = length js \<and> mset js = mset (jobs devs))"
proof -
  let ?b = "pw_backup w" and ?q = "pw_probes w" and ?f = "\<lambda>i. answer_of S cmd (pw_backup w) (devs ! i)"
  let ?pairs = "map (\<lambda>i. (i, ?f i)) (so_reveal J (jobs devs))"
  have perm: "mset (so_reveal J (jobs devs)) = mset (jobs devs)" "mset (so_record J (jobs devs)) = mset (jobs devs)"
    using assms(4) by (simp_all add: permutes_jobs_def)
  have sets: "set (so_reveal J (jobs devs)) = set (jobs devs)" "set (so_record J (jobs devs)) = set (jobs devs)"
    using perm by (metis mset_eq_setD)+
  have outs: "outs = map_of ?pairs" and w': "w' = \<lparr>pw_backup = ?b,
      pw_probes = fold (record_outcome J (po_id p) devs (map_of ?pairs)) (so_record J (jobs devs)) ?q\<rparr>"
    using assms(8) by (auto simp: sweep_def probe_each_working assms(2))
  have o: "\<forall>i \<in> set (jobs devs). map_of ?pairs i = Some (?f i)" using sets(1) by (simp add: map_of_map_restrict)
  have "wf_table pu_id (probe_runs ?q)" using assms(1) by (simp add: runs_inv_def)
  moreover have "\<exists>p' \<in> set (rows (probes ?q)). po_id p' = po_id p" using assms(5) by blast
  ultimately obtain ns where ns: "faults (pw_probes w') = []" "probes (pw_probes w') = probes ?q"
      "wf_table pu_id (probe_runs (pw_probes w'))" "length ns = length (so_record J (jobs devs))"
      "rows (probe_runs (pw_probes w')) = rows (probe_runs ?q) @
        map (\<lambda>(i, n). run_row J (po_id p) devs (?f i) i n) (zip (so_record J (jobs devs)) ns)"
    using fold_record_working [of ?q "so_record J (jobs devs)" "map_of ?pairs" ?f "po_id p" J devs "pw_probes w'"]
      assms(3) o sets(2) w' by auto
  have "\<exists>p' \<in> set (rows (probes ?q)). po_id p' = pu_probe r \<and> (\<exists>x \<in> set (rows (devices ?b)). dv_id x = pu_device r \<and> dv_tenant x = po_tenant p')"
    if new: "r \<in> set (map (\<lambda>(i, n). run_row J (po_id p) devs (?f i) i n) (zip (so_record J (jobs devs)) ns))" for r
  proof -
    obtain i n where r: "i \<in> set (so_record J (jobs devs))" "r = run_row J (po_id p) devs (?f i) i n"
      using in_map_zip [OF new] by metis
    then have "devs ! i \<in> set devs" using sets(2) by (auto simp: jobs_def)
    then obtain x where "x \<in> set (rows (devices ?b))" "dv_tenant x = t" "devs ! i = device_of x"
      using assms(7) tenant_devices_set by blast
    with r(2) assms(5,6) show ?thesis by (auto simp: run_row_def device_of_def)
  qed
  then have "runs_inv w'" using assms(1) ns(2,3,5) by (auto simp: runs_inv_def w')
  with o outs ns perm(2) w' show ?thesis by auto
qed


section \<open>The topology shows the last discovery\<close>

definition expected_output ::
  "'w backup_service \<Rightarrow> string \<Rightarrow> int \<Rightarrow> time \<Rightarrow> probe_world \<Rightarrow> Device \<Rightarrow> string" where
  "expected_output S cmd t now w d =
     (if d_CredentialID d = None
      then (case max_run (neighbor_runs t now (pw_probes w)) (d_ID d) of None \<Rightarrow> [] | Some r \<Rightarrow> pu_output r)
      else text_of (answer_of S cmd (pw_backup w) d))"

definition last_output :: "int \<Rightarrow> time \<Rightarrow> probe_db \<Rightarrow> int \<Rightarrow> string" where
  "last_output t now q d = (case max_run (neighbor_runs t now q) d of None \<Rightarrow> [] | Some r \<Rightarrow> pu_output r)"

lemma sorted_neighbor_runs:
  "wf_table pu_id (probe_runs q) \<Longrightarrow> sorted_wrt (<) (map pu_id (neighbor_runs t now q))"
  by (simp add: wf_table_def neighbor_runs_def sorted_wrt_map sorted_wrt_filter)

lemma sweep_last_output:
  assumes "runs_inv w" and "faults (pw_backup w) = []" and "faults (pw_probes w) = []" and "permutes_jobs J"
    and p: "p \<in> set (rows (probes (pw_probes w)))" "po_tenant p = t" "po_name p = ''neighbors''"
    and devs: "devs = tenant_devices t (pw_backup w)" and sw: "sweep S J (po_id p) cmd devs w = (outs, w')"
    and fresh: "\<forall>i. rfc3339 (now - week) \<le> rfc3339 (so_time J i)" and d: "d \<in> set devs"
  shows "last_output t now (pw_probes w') (d_ID d) = expected_output S cmd t now w d"
proof -
  let ?f = "\<lambda>i. answer_of S cmd (pw_backup w) (devs ! i)" and ?q = "pw_probes w" and ?q' = "pw_probes w'"
  obtain js ns where inv: "runs_inv w'" "probes ?q' = probes ?q" and js: "length ns = length js" "mset js = mset (jobs devs)"
    and rws: "rows (probe_runs ?q') = rows (probe_runs ?q) @ map (\<lambda>(i, n). run_row J (po_id p) devs (?f i) i n) (zip js ns)"
    using sweep_working [OF assms(1-4) p(1,2) devs sw] by blast
  let ?news = "map (\<lambda>(i, n). run_row J (po_id p) devs (?f i) i n) (zip js ns)"
  have own: "list_ex (\<lambda>x. po_id x = po_id p \<and> po_tenant x = t \<and> po_name x = ''neighbors'') (rows (probes ?q))"
    using p by (auto simp: list_ex_iff)
  have "filter (\<lambda>r. pu_created r \<ge> rfc3339 (now - week) \<and>
     list_ex (\<lambda>x. po_id x = pu_probe r \<and> po_tenant x = t \<and> po_name x = ''neighbors'') (rows (probes ?q))) ?news = ?news"
    using fresh own by (auto simp: filter_id_conv run_row_def)
  then have runs: "neighbor_runs t now ?q' = neighbor_runs t now ?q @ ?news"
    by (simp add: neighbor_runs_def rws inv(2))
  have sorted: "sorted_wrt (<) (map pu_id (neighbor_runs t now ?q @ ?news))"
    using sorted_neighbor_runs [of ?q' t now] inv(1) runs by (simp add: runs_inv_def)
  have "dev_inv (pw_backup w)" using assms(1) by (simp add: runs_inv_def)
  then have ids: "distinct (map d_ID devs)" using devs tenant_devices_distinct(1) by simp
  have sjs: "set js = set (jobs devs)" "distinct js"
    using js(2) by (metis mset_eq_setD, metis mset_eq_imp_distinct_iff jobs_def distinct_filter distinct_upt)
  obtain k where k: "k < length devs" "d = devs ! k" using d by (metis in_set_conv_nth)
  have same: "j = k" if "j \<in> set js" "d_ID (devs ! j) = d_ID d" for j
  proof -
    have "j < length devs" using that(1) sjs(1) by (simp add: jobs_def)
    then show ?thesis using that(2) ids k nth_eq_iff_index_eq [of "map d_ID devs" j k] by simp
  qed
  show ?thesis
  proof (cases "d_CredentialID d")
    case None
    have "\<forall>r \<in> set ?news. pu_device r \<noteq> d_ID d"
    proof
      fix r assume "r \<in> set ?news"
      from in_map_zip [OF this] obtain j n where j: "j \<in> set js" "r = run_row J (po_id p) devs (?f j) j n" by metis
      from j(1) sjs(1) have "d_CredentialID (devs ! j) \<noteq> None" by (simp add: jobs_def)
      then have "j \<noteq> k" using None k(2) by auto
      then show "pu_device r \<noteq> d_ID d" using same [OF j(1)] j(2) by (auto simp: run_row_def)
    qed
    then show ?thesis by (simp add: last_output_def expected_output_def runs None max_run_other)
  next
    case (Some c)
    then have "k \<in> set js" using k sjs(1) by (simp add: jobs_def)
    then obtain m where m: "m < length js" "js ! m = k" by (metis in_set_conv_nth)
    let ?r = "run_row J (po_id p) devs (?f k) k (ns ! m)"
    have "(k, ns ! m) \<in> set (zip js ns)" using m js(1) by (auto simp: in_set_zip)
    then have "?r \<in> set ?news" by force
    moreover have "y = ?r" if "y \<in> set ?news" "pu_device y = d_ID d" for y
    proof -
      from in_map_zip [OF that(1)] obtain j n where y: "(j, n) \<in> set (zip js ns)" "y = run_row J (po_id p) devs (?f j) j n" "j \<in> set js"
        by metis
      then have "j = k" using same [OF y(3)] that(2) by (simp add: run_row_def)
      moreover have "n = ns ! m" using y(1) m sjs(2) \<open>j = k\<close> by (auto simp: in_set_zip nth_eq_iff_index_eq)
      ultimately show ?thesis using y(2) by simp
    qed
    moreover have "pu_device ?r = d_ID d" by (simp add: run_row_def k(2))
    ultimately have "max_run (neighbor_runs t now ?q @ ?news) (d_ID d) = Some ?r"
      using max_run_new [OF sorted] by blast
    then have "max_run (neighbor_runs t now ?q') (d_ID d) = Some ?r" by (simp only: runs)
    then show ?thesis using Some k(2) by (simp add: last_output_def expected_output_def run_row_def)
  qed
qed


lemma in_latest_outputs:
  assumes "\<And>xs. mset (groups xs) = mset xs" and "length (remdups (map pu_device rs)) \<le> limit"
  shows "(h, out) \<in> set (latest_outputs groups limit rs ds) \<longleftrightarrow>
    (\<exists>x \<in> set ds. \<exists>r. max_run rs (dv_id x) = Some r \<and> h = dv_hostname x \<and> out = pu_output r)"
proof -
  have "length (groups (remdups (map pu_device rs))) = length (remdups (map pu_device rs))"
    using assms(1) by (metis mset_eq_length)
  then have "take limit (groups (remdups (map pu_device rs))) = groups (remdups (map pu_device rs))"
    using assms(2) by simp
  moreover have "set (groups (remdups (map pu_device rs))) = pu_device ` set rs"
    using assms(1) by (metis mset_eq_setD set_remdups set_map)
  ultimately have e: "set (take limit (groups (remdups (map pu_device rs)))) = pu_device ` set rs" by simp
  show ?thesis
  proof
    assume "(h, out) \<in> set (latest_outputs groups limit rs ds)"
    then show "\<exists>x \<in> set ds. \<exists>r. max_run rs (dv_id x) = Some r \<and> h = dv_hostname x \<and> out = pu_output r"
      by (auto simp: latest_outputs_def split: option.splits) metis
  next
    assume "\<exists>x \<in> set ds. \<exists>r. max_run rs (dv_id x) = Some r \<and> h = dv_hostname x \<and> out = pu_output r"
    then obtain x r where x: "x \<in> set ds" "max_run rs (dv_id x) = Some r" "h = dv_hostname x" "out = pu_output r" by blast
    then have "dv_id x \<in> set (take limit (groups (remdups (map pu_device rs))))"
      using max_run_in [OF x(2)] unfolding e by (metis image_eqI)
    moreover have "(h, out) \<in> set (case max_run rs (dv_id x) of None \<Rightarrow> []
        | Some r \<Rightarrow> map (\<lambda>y. (dv_hostname y, pu_output r)) (filter (\<lambda>y. dv_id y = dv_id x) ds))"
      using x by auto
    ultimately show "(h, out) \<in> set (latest_outputs groups limit rs ds)"
      unfolding latest_outputs_def set_concat set_map by blast
  qed
qed

lemma per_host_links:
  assumes "\<And>h x y. (h, x) \<in> set os \<Longrightarrow> (h, y) \<in> set os \<Longrightarrow> x = y"
    and "\<And>h x ls. (h, x) \<in> set os \<Longrightarrow> (h, ls) \<in> set per \<Longrightarrow> ls = FromNeighborOutput h x"
  shows "set (concat (map snd (per_host os per))) =
    set (concat (map snd per)) \<union> (\<Union>(h, x) \<in> set os. set (FromNeighborOutput h x))"
  using assms
proof (induction os arbitrary: per)
  case Nil
  then show ?case by simp
next
  case (Cons o1 os)
  obtain h x where o1: "o1 = (h, x)" by (cases o1)
  show ?case
  proof (cases "h \<in> fst ` set per")
    case True
    then obtain ls where "(h, ls) \<in> set per" by auto
    moreover from this have "ls = FromNeighborOutput h x" using Cons.prems(2) [of h x ls] o1 by simp
    ultimately have "set (FromNeighborOutput h x) \<subseteq> set (concat (map snd per))" by force
    moreover have "set (concat (map snd (per_host os per))) =
        set (concat (map snd per)) \<union> (\<Union>(h, x) \<in> set os. set (FromNeighborOutput h x))"
      by (rule Cons.IH; use Cons.prems in \<open>meson list.set_intros(2)\<close>)
    ultimately show ?thesis using True by (auto simp: o1)
  next
    case False
    let ?per = "per @ [(h, FromNeighborOutput h x)]"
    have "set (concat (map snd (per_host os ?per))) =
        set (concat (map snd ?per)) \<union> (\<Union>(h, x) \<in> set os. set (FromNeighborOutput h x))"
    proof (rule Cons.IH)
      show "a = b" if "(g, a) \<in> set os" "(g, b) \<in> set os" for g a b using Cons.prems(1) that by (meson list.set_intros(2))
      show "ls = FromNeighborOutput g a" if "(g, a) \<in> set os" "(g, ls) \<in> set ?per" for g a ls
        using that Cons.prems(1) [of g a x] Cons.prems(2) [of g a ls] by (auto simp: o1)
    qed
    then show ?thesis using False by (auto simp: o1)
  qed
qed

lemma no_output_no_links [simp]: "FromNeighborOutput h [] = []"
proof -
  have "\<not> str_contains [] ''identity=''" "\<not> str_contains (to_lower []) ''platform''"
    "\<not> str_contains (to_lower []) ''holdtme''" "out_lines [] = [[]]" "trim_space [] = []"
    by code_simp+
  then show ?thesis by (simp add: FromNeighborOutput_def parseLLDPNeighbors_def lldp_line_def)
qed

text \<open>The links of the graph are those of the last outputs of the tenant's devices.\<close>

lemma topology_links:
  assumes "runs_inv w" and "faults (pw_probes w) = []" and "\<And>xs. mset (groups xs) = mset xs"
    and "\<And>xs. mset (iterate xs) = mset xs" and "\<And>xs. mset (iter xs) = mset xs"
    and small: "length (tenant_devices t (pw_backup w)) \<le> query_limit limit"
    and L: "L = (\<Union>d \<in> set (tenant_devices t (pw_backup w)).
      set (FromNeighborOutput (d_Hostname d) (last_output t now (pw_probes w) (d_ID d))))"
    and plain: "\<forall>l \<in> L. plain_link l"
  shows "\<exists>G. handleTopology groups iterate iter now t limit w = (Inr G, w) \<and>
    link_ends ` set (gp_Links G) = link_ends ` L \<and> distinct (map link_ends (gp_Links G)) \<and> set (gp_Links G) \<subseteq> L"
proof -
  let ?rs = "neighbor_runs t now (pw_probes w)" and ?ds = "rows (devices (pw_backup w))"
  let ?os = "latest_outputs groups (query_limit limit) ?rs ?ds" and ?T = "tenant_devices t (pw_backup w)"
  have d: "wf_table dv_id (devices (pw_backup w))" "dev_inv (pw_backup w)" "inj_on host_key (set ?ds)"
    using assms(1) by (simp_all add: runs_inv_def dev_inv_def)
  have p: "wf_table po_id (probes (pw_probes w))" using assms(1) by (simp add: runs_inv_def)
  have own: "\<exists>x \<in> set ?ds. dv_id x = pu_device r \<and> dv_tenant x = t" if r: "r \<in> set ?rs" for r
  proof -
    have "r \<in> set (rows (probe_runs (pw_probes w)))" using r by (simp add: neighbor_runs_def)
    then obtain p x where px: "p \<in> set (rows (probes (pw_probes w)))" "po_id p = pu_probe r" "x \<in> set ?ds"
      "dv_id x = pu_device r" "dv_tenant x = po_tenant p" using assms(1) unfolding runs_inv_def by blast
    obtain p' where "p' \<in> set (rows (probes (pw_probes w)))" "po_id p' = pu_probe r" "po_tenant p' = t"
      using r by (auto simp: neighbor_runs_def list_ex_iff)
    then show ?thesis using px wf_table_unique [OF p, of p p'] by auto
  qed
  have "pu_device ` set ?rs \<subseteq> set (map d_ID ?T)"
  proof (rule image_subsetI)
    fix r assume "r \<in> set ?rs"
    from own [OF this] obtain x where "x \<in> set ?ds" "dv_id x = pu_device r" "dv_tenant x = t" by blast
    then have "device_of x \<in> set ?T" "d_ID (device_of x) = pu_device r" by (auto simp: tenant_devices_set device_of_def)
    then show "pu_device r \<in> set (map d_ID ?T)" by (metis image_eqI set_map)
  qed
  then have "card (set (map pu_device ?rs)) \<le> length ?T"
    by (metis card_length card_mono finite_set le_trans length_map set_map)
  then have small': "length (remdups (map pu_device ?rs)) \<le> query_limit limit"
    using small by (simp add: length_remdups_card_conv)
  note mem = in_latest_outputs [OF assms(3) small', where ds = ?ds]
  have tenant: "dv_tenant x = t" if "x \<in> set ?ds" "max_run ?rs (dv_id x) = Some r" for x r
    using own [of r] max_run_in [OF that(2)] that(1) wf_table_unique [OF d(1)] by metis
  have fn: "a = b" if ab: "(h, a) \<in> set ?os" "(h, b) \<in> set ?os" for h a b
  proof -
    obtain x r y q where xy: "x \<in> set ?ds" "max_run ?rs (dv_id x) = Some r" "h = dv_hostname x" "a = pu_output r"
      "y \<in> set ?ds" "max_run ?rs (dv_id y) = Some q" "h = dv_hostname y" "b = pu_output q"
      using ab unfolding mem by blast
    then have "x = y" using d(3) tenant [OF xy(1,2)] tenant [OF xy(5,6)] by (auto simp: inj_on_def host_key_def)
    then show ?thesis using xy by simp
  qed
  have links: "set (concat (map snd (per_host ?os []))) = L"
  proof -
    have "set (concat (map snd (per_host ?os []))) = (\<Union>(h, x) \<in> set ?os. set (FromNeighborOutput h x))"
      using per_host_links [of ?os "[]"] fn by auto
    also have "\<dots> = L"
    proof (rule equalityI; rule subsetI)
      fix l assume "l \<in> (\<Union>(h, x) \<in> set ?os. set (FromNeighborOutput h x))"
      then obtain x r where x: "x \<in> set ?ds" "max_run ?rs (dv_id x) = Some r" "l \<in> set (FromNeighborOutput (dv_hostname x) (pu_output r))"
        using mem by auto
      then have "device_of x \<in> set ?T" using tenant by (auto simp: tenant_devices_set)
      with x(2,3) show "l \<in> L" unfolding L by (intro UN_I [of "device_of x"]) (simp_all add: device_of_def last_output_def)
    next
      fix l assume "l \<in> L"
      then obtain x where x: "x \<in> set ?ds" "l \<in> set (FromNeighborOutput (dv_hostname x) (last_output t now (pw_probes w) (dv_id x)))"
        by (auto simp: L tenant_devices_set device_of_def)
      then obtain r where r: "max_run ?rs (dv_id x) = Some r" by (cases "max_run ?rs (dv_id x)") (auto simp: last_output_def)
      then have "(dv_hostname x, pu_output r) \<in> set ?os" using x(1) mem by blast
      with x(2) r show "l \<in> (\<Union>(h, x) \<in> set ?os. set (FromNeighborOutput h x))" by (auto simp: last_output_def)
    qed
    finally show ?thesis .
  qed
  let ?G = "MergeGraph iter (iterate (per_host ?os []))"
  have "mset (map snd (iterate (per_host ?os []))) = mset (map snd (per_host ?os []))" by (simp add: assms(4))
  then have "set (map snd (iterate (per_host ?os []))) = set (map snd (per_host ?os []))" by (rule mset_eq_setD)
  then have s: "set (concat (map snd (iterate (per_host ?os [])))) = L" using links by (metis set_concat)
  then have "\<forall>l \<in> set (concat (map snd (iterate (per_host ?os [])))). plain_link l" using plain by simp
  from merge_graph [OF this assms(5) refl] s show ?thesis
    using assms(2) by (intro exI [of _ ?G]) (simp add: handleTopology_def)
qed


definition neighbors_command :: "int \<Rightarrow> probe_db \<Rightarrow> string" where
  "neighbors_command t q = (case find (\<lambda>p. po_tenant p = t \<and> po_name p = ''neighbors'') (rows (probes q)) of
     Some p \<Rightarrow> po_command p | None \<Rightarrow> ''show lldp neighbors'')"

lemma device_result_jobs:
  "i < length devs \<Longrightarrow> \<forall>i \<in> set (jobs devs). outs i = Some (f i) \<Longrightarrow>
     device_result b text outs devs i = device_result b text (\<lambda>i. Some (f i)) devs i"
  by (auto simp: device_result_def jobs_def Let_def split: option.splits)

text \<open>Running the probe, and the graph afterwards.\<close>

lemma run_then_graph:
  assumes "runs_inv w" and "faults (pw_backup w) = []" and "faults (pw_probes w) = []" and "permutes_jobs J"
    and p: "p \<in> set (rows (probes (pw_probes w)))" "po_tenant p = t" "po_name p = ''neighbors''"
    and devs: "devs = tenant_devices t (pw_backup w)"
    and run: "run_on_devices True S J t (probe_of p) w = (r, w1)"
  shows "runs_inv w1" and "faults (pw_probes w1) = []" and "tenant_devices t (pw_backup w1) = devs"
    and "r = Inr (po_id p, map (device_result True (so_text J) (\<lambda>i. Some (answer_of S (po_command p) (pw_backup w) (devs ! i))) devs)
          [0..<length devs])"
    and "\<forall>i. rfc3339 (now - week) \<le> rfc3339 (so_time J i) \<Longrightarrow> d \<in> set devs \<Longrightarrow>
      last_output t now (pw_probes w1) (d_ID d) = expected_output S (po_command p) t now w d"
proof -
  obtain outs w' where sw: "sweep S J (po_id p) (po_command p) devs w = (outs, w')" by fastforce
  have r: "r = Inr (po_id p, map (device_result True (so_text J) outs devs) [0..<length devs])" "w1 = w'"
    using run assms(2) sw by (auto simp: run_on_devices_def ListDevices_def probe_of_def devs tenant_devices_def)
  note s = sweep_working [OF assms(1-4) p(1,2) devs sw]
  then show "runs_inv w1" "faults (pw_probes w1) = []" "tenant_devices t (pw_backup w1) = devs"
    by (simp_all add: r(2) devs)
  have "map (device_result True (so_text J) outs devs) [0..<length devs] =
      map (device_result True (so_text J) (\<lambda>i. Some (answer_of S (po_command p) (pw_backup w) (devs ! i))) devs) [0..<length devs]"
    using s by (intro map_cong refl device_result_jobs) auto
  with r(1) show "r = Inr (po_id p, map (device_result True (so_text J)
      (\<lambda>i. Some (answer_of S (po_command p) (pw_backup w) (devs ! i))) devs) [0..<length devs])" by simp
  show "last_output t now (pw_probes w1) (d_ID d) = expected_output S (po_command p) t now w d"
    if "\<forall>i. rfc3339 (now - week) \<le> rfc3339 (so_time J i)" "d \<in> set devs"
    using sweep_last_output [OF assms(1-4) p devs sw that] r(2) by simp
qed

text \<open>Which probe a discovery runs: the tenant's, or a new one; another tenant's of the same name stops it.\<close>

lemma listed_probes:
  "faults q = [] \<Longrightarrow> ListProbes t q = (Inr (map probe_of (order_asc po_name (filter (\<lambda>r. po_tenant r = t) (rows (probes q))))), q)"
  by (simp add: ListProbes_def)

lemma neighbors_unique:
  assumes "runs_inv w" and "p \<in> set (rows (probes (pw_probes w)))" "po_name p = ''neighbors''"
    and "p' \<in> set (rows (probes (pw_probes w)))" "po_name p' = ''neighbors''"
  shows "p' = p"
  using inj_onD [of po_name "set (rows (probes (pw_probes w)))" p' p] assms by (simp add: runs_inv_def)

lemma discovery_refused:
  assumes "runs_inv w" and "faults (pw_probes w) = []"
    and p: "p \<in> set (rows (probes (pw_probes w)))" "po_name p = ''neighbors''" "po_tenant p \<noteq> t"
  shows "handleTopologyDiscover S J now t w = (Inl 500, w)"
proof -
  let ?q = "pw_probes w"
  have "find (\<lambda>x. pb_Name x = ''neighbors'') (map probe_of (order_asc po_name (filter (\<lambda>r. po_tenant r = t) (rows (probes ?q))))) = None"
    unfolding find_None_iff using neighbors_unique [OF assms(1) p(1,2)] p(3) by (fastforce simp: probe_of_def)
  moreover have "list_ex (\<lambda>r. po_name r = ''neighbors'') (rows (probes ?q))" using p by (auto simp: list_ex_iff)
  then have "CreateProbe now (neighbors_probe t) ?q = (Inl (PbDB ''UNIQUE constraint failed''), ?q)"
    using assms(2) by (simp add: CreateProbe_def neighbors_probe_def)
  ultimately show ?thesis using listed_probes [OF assms(2)] by (simp add: handleTopologyDiscover_def)
qed

lemma own_probe_runs:
  assumes "runs_inv w" and "faults (pw_probes w) = []"
    and p: "p \<in> set (rows (probes (pw_probes w)))" "po_name p = ''neighbors''" "po_tenant p = t"
  shows "handleTopologyDiscover S J now t w = run_on_devices True S J t (probe_of p) w"
    and "neighbors_command t (pw_probes w) = po_command p"
proof -
  let ?rs = "rows (probes (pw_probes w))"
  note only = neighbors_unique [OF assms(1) p(1,2)]
  have "find (\<lambda>x. pb_Name x = ''neighbors'') (map probe_of (order_asc po_name (filter (\<lambda>r. po_tenant r = t) ?rs))) = Some (probe_of p)"
  proof (rule find_unique)
    fix q assume "q \<in> set (map probe_of (order_asc po_name (filter (\<lambda>r. po_tenant r = t) ?rs)))" "pb_Name q = ''neighbors''"
    then obtain p' where p': "p' \<in> set ?rs" "q = probe_of p'" "po_name p' = ''neighbors''" by (auto simp: probe_of_def)
    with only [OF p'(1,3)] show "q = probe_of p" by simp
  next
    show "pb_Name (probe_of p) = ''neighbors''" by (simp add: probe_of_def p(2))
    show "probe_of p \<in> set (map probe_of (order_asc po_name (filter (\<lambda>r. po_tenant r = t) ?rs)))" using p(1,3) by auto
  qed
  with listed_probes [OF assms(2)] show "handleTopologyDiscover S J now t w = run_on_devices True S J t (probe_of p) w"
    by (simp add: handleTopologyDiscover_def)
  have "find (\<lambda>x. po_tenant x = t \<and> po_name x = ''neighbors'') ?rs = Some p"
    by (rule find_unique) (simp_all add: p, rule only, simp_all)
  then show "neighbors_command t (pw_probes w) = po_command p" by (simp add: neighbors_command_def)
qed

lemma new_probe_runs:
  assumes "runs_inv w" and "faults (pw_probes w) = []" and "\<forall>p \<in> set (rows (probes (pw_probes w))). po_name p \<noteq> ''neighbors''"
  obtains p w2 where "handleTopologyDiscover S J now t w = run_on_devices True S J t (probe_of p) w2"
    "runs_inv w2" "faults (pw_probes w2) = []" "pw_backup w2 = pw_backup w"
    "p \<in> set (rows (probes (pw_probes w2)))" "po_tenant p = t" "po_name p = ''neighbors''"
    "neighbors_command t (pw_probes w) = po_command p" "\<And>later x. expected_output S x t later w2 = expected_output S x t later w"
proof -
  let ?q = "pw_probes w"
  let ?n = "next_rowid (probes ?q)"
  let ?row = "\<lparr>po_id = ?n, po_tenant = t, po_name = ''neighbors'', po_command = ''show lldp neighbors'',
    po_interval = 3600, po_created = rfc3339 now\<rparr>"
  let ?q2 = "?q\<lparr>probes := insert_row (\<lambda>n. ?row\<lparr>po_id := n\<rparr>) (probes ?q), last_rowid := ?n\<rparr>"
  let ?w2 = "w\<lparr>pw_probes := ?q2\<rparr>"
  have c: "neighbors_command t ?q = po_command ?row"
    using assms(3) by (auto simp: neighbors_command_def find_None_iff find_Some_iff split: option.splits)
  have "find (\<lambda>x. pb_Name x = ''neighbors'') (map probe_of (order_asc po_name (filter (\<lambda>r. po_tenant r = t) (rows (probes ?q))))) = None"
    unfolding find_None_iff using assms(3) by (fastforce simp: probe_of_def)
  moreover have "\<not> list_ex (\<lambda>r. po_name r = ''neighbors'') (rows (probes ?q))" using assms(3) by (auto simp: list_ex_iff)
  then have "CreateProbe now (neighbors_probe t) ?q = (Inr (probe_of ?row), ?q2)"
    using assms(2) by (simp add: CreateProbe_def neighbors_probe_def probe_of_def Let_def)
  ultimately have go: "handleTopologyDiscover S J now t w = run_on_devices True S J t (probe_of ?row) ?w2"
    using listed_probes [OF assms(2)] by (simp add: handleTopologyDiscover_def)
  have wf: "wf_table po_id (probes ?q)" using assms(1) by (simp add: runs_inv_def)
  have inv2: "runs_inv ?w2" using assms(1,3) by (auto simp: runs_inv_def intro!: wf_insert_row)
  have old: "pu_probe x \<noteq> ?n" if "x \<in> set (rows (probe_runs ?q))" for x
    using that assms(1) fresh_rowid [OF wf] unfolding runs_inv_def by metis
  have "neighbor_runs t later ?q2 = neighbor_runs t later ?q" for later
  proof -
    have "neighbor_runs t later ?q2 = []" "neighbor_runs t later ?q = []"
      using assms(3) old by (auto simp: neighbor_runs_def filter_empty_conv list_ex_iff) metis
    then show ?thesis by simp
  qed
  then have e: "expected_output S x t later ?w2 = expected_output S x t later w" for later x
    by (simp add: expected_output_def fun_eq_iff)
  show thesis by (rule that [OF go inv2 _ _ _ _ _ c e]) (simp_all add: assms(2))
qed

lemma discovery_runs:
  assumes "runs_inv w" and "faults (pw_probes w) = []"
    and "\<not> (\<exists>p \<in> set (rows (probes (pw_probes w))). po_name p = ''neighbors'' \<and> po_tenant p \<noteq> t)"
  obtains p w2 where "handleTopologyDiscover S J now t w = run_on_devices True S J t (probe_of p) w2"
    "runs_inv w2" "faults (pw_probes w2) = []" "pw_backup w2 = pw_backup w"
    "p \<in> set (rows (probes (pw_probes w2)))" "po_tenant p = t" "po_name p = ''neighbors''"
    "neighbors_command t (pw_probes w) = po_command p" "\<And>later x. expected_output S x t later w2 = expected_output S x t later w"
proof (cases "\<exists>p \<in> set (rows (probes (pw_probes w))). po_name p = ''neighbors''")
  case True
  then obtain p where p: "p \<in> set (rows (probes (pw_probes w)))" "po_name p = ''neighbors''" "po_tenant p = t"
    using assms(3) by blast
  show thesis by (rule that [OF own_probe_runs(1) [OF assms(1,2) p] assms(1,2) refl p(1,3,2) own_probe_runs(2) [OF assms(1,2) p] refl])
next
  case False
  then have "\<forall>p \<in> set (rows (probes (pw_probes w))). po_name p \<noteq> ''neighbors''" by blast
  from assms(1,2) this show thesis by (rule new_probe_runs) (rule that)
qed

text \<open>C36: A discovery and the graph after it, with working databases and however the devices are
  interleaved. If the name of the probe is another tenant's, the discovery is refused and changes
  nothing. Otherwise it reports for each device of the tenant what its session gave. When the graph is then asked
  for within a week of the runs, with a limit (500 unless given) not below the number of the tenant's devices, and
  no host or port name has one of the characters \<open>|\<close> and \<open>:\<close>, its links are, for every device with a
  credential, exactly those of the table the device answered with, none if its session failed, and for a device
  without one those of its last recorded run within the week; each link once.\<close>

theorem discovery_shown:
  assumes "runs_inv w" and "faults (pw_backup w) = []" and "faults (pw_probes w) = []" and "permutes_jobs J"
    and perms: "\<And>xs. mset (groups xs) = mset xs" "\<And>xs. mset (iterate xs) = mset xs" "\<And>xs. mset (iter xs) = mset xs"
    and devs: "devs = tenant_devices t (pw_backup w)" and cmd: "cmd = neighbors_command t (pw_probes w)"
    and run: "handleTopologyDiscover S J now t w = (r, w1)"
  shows "if \<exists>p \<in> set (rows (probes (pw_probes w))). po_name p = ''neighbors'' \<and> po_tenant p \<noteq> t
    then r = Inl 500 \<and> w1 = w
    else (\<exists>pid. r = Inr (pid, map (device_result True (so_text J) (\<lambda>i. Some (answer_of S cmd (pw_backup w) (devs ! i))) devs)
          [0..<length devs])) \<and> runs_inv w1 \<and>
      (\<forall>later limit L. L = (\<Union>d \<in> set devs. set (FromNeighborOutput (d_Hostname d) (expected_output S cmd t later w d))) \<longrightarrow>
        (\<forall>l \<in> L. plain_link l) \<longrightarrow> (\<forall>i. rfc3339 (later - week) \<le> rfc3339 (so_time J i)) \<longrightarrow> length devs \<le> query_limit limit \<longrightarrow>
        (\<exists>G. handleTopology groups iterate iter later t limit w1 = (Inr G, w1) \<and>
          link_ends ` set (gp_Links G) = link_ends ` L \<and> distinct (map link_ends (gp_Links G)) \<and> set (gp_Links G) \<subseteq> L))"
proof (cases "\<exists>p \<in> set (rows (probes (pw_probes w))). po_name p = ''neighbors'' \<and> po_tenant p \<noteq> t")
  case True
  then obtain p where "p \<in> set (rows (probes (pw_probes w)))" "po_name p = ''neighbors''" "po_tenant p \<noteq> t" by blast
  from discovery_refused [OF assms(1,3) this, of S J now] show ?thesis unfolding if_P [OF True] using run by simp
next
  case False
  obtain p w2 where go: "handleTopologyDiscover S J now t w = run_on_devices True S J t (probe_of p) w2"
    and w2: "runs_inv w2" "faults (pw_probes w2) = []" "pw_backup w2 = pw_backup w"
    and p: "p \<in> set (rows (probes (pw_probes w2)))" "po_tenant p = t" "po_name p = ''neighbors''"
    and c: "neighbors_command t (pw_probes w) = po_command p"
    and e: "\<And>later x. expected_output S x t later w2 = expected_output S x t later w"
    by (rule discovery_runs [OF assms(1,3) False]) blast
  have b: "faults (pw_backup w2) = []" "devs = tenant_devices t (pw_backup w2)" by (simp_all add: w2(3) assms(2) devs)
  note fin = run_then_graph [OF w2(1) b(1) w2(2) assms(4) p b(2) go [symmetric, unfolded run]]
  have graph: "\<exists>G. handleTopology groups iterate iter later t limit w1 = (Inr G, w1) \<and>
      link_ends ` set (gp_Links G) = link_ends ` L \<and> distinct (map link_ends (gp_Links G)) \<and> set (gp_Links G) \<subseteq> L"
    if L: "L = (\<Union>d \<in> set devs. set (FromNeighborOutput (d_Hostname d) (expected_output S cmd t later w d)))"
      "\<forall>l \<in> L. plain_link l" "\<forall>i. rfc3339 (later - week) \<le> rfc3339 (so_time J i)" "length devs \<le> query_limit limit" for later limit L
    by (rule topology_links [OF fin(1,2) perms]) (simp_all add: fin(3) fin(5) [OF L(3)] e cmd c L(1,2,4) [unfolded cmd c])
  have r: "r = Inr (po_id p, map (device_result True (so_text J) (\<lambda>i. Some (answer_of S cmd (pw_backup w) (devs ! i))) devs)
      [0..<length devs])" using fin(4) by (simp only: cmd c w2(3))
  show ?thesis unfolding if_not_P [OF False]
    by (intro conjI allI impI exI [of _ "po_id p"] r fin(1), rule graph; assumption)
qed


definition demo_table :: string where "demo_table = ''Et1  001c.7300.1234  Et2  r2''"

definition demo_prober :: "git_world backup_service" where
  "demo_prober = demo_service\<lparr>bs_session_run := (\<lambda>d c. Inr demo_table)\<rparr>"

definition demo_order :: sweep_order where
  "demo_order = \<lparr>so_reveal = (\<lambda>xs. xs), so_record = List.rev, so_time = (\<lambda>i. 0), so_text = (\<lambda>e. ''failed'')\<rparr>"

definition demo_probe_world :: probe_world where
  "demo_probe_world = \<lparr>pw_backup = demo_backup_db,
     pw_probes = \<lparr>faults = [], last_rowid = 0, probes = empty_table, probe_runs = empty_table\<rparr>\<rparr>"

theorem discovery_shown_witness:
  "\<exists>w1 pid G. handleTopologyDiscover demo_prober demo_order 0 1 demo_probe_world =
      (Inr (pid, [\<lparr>sr_DeviceID = 1, sr_Hostname = ''r1'', sr_Status = ''ok'', sr_Links = 1, sr_Error = []\<rparr>]), w1) \<and>
    handleTopology (\<lambda>xs. xs) (\<lambda>xs. xs) (\<lambda>xs. xs) 0 1 [] w1 = (Inr G, w1) \<and>
    link_ends ` set (gp_Links G) = {{(''r1'', ''Et1''), (''r2'', ''Et2'')}}"
proof -
  let ?S = demo_prober and ?J = demo_order and ?w = demo_probe_world and ?cmd = "''show lldp neighbors''"
  let ?L = "{\<lparr>ln_A = ''r1'', ln_APort = ''Et1'', ln_B = ''r2'', ln_BPort = ''Et2''\<rparr>}"
  define dev :: Device where "dev = hd (tenant_devices 1 (pw_backup ?w))"
  have devs: "tenant_devices 1 (pw_backup ?w) = [dev]"
    by (simp add: dev_def demo_probe_world_def demo_backup_db_def tenant_devices_def order_asc_def)
  have d: "d_Hostname dev = ''r1''" "d_ID dev = 1" "d_CredentialID dev = Some 1"
    by (simp_all add: dev_def demo_probe_world_def demo_backup_db_def tenant_devices_def order_asc_def device_of_def)
  have a: "answer_of ?S ?cmd (pw_backup ?w) dev = Inr demo_table" unfolding dev_def by code_simp
  have l: "FromNeighborOutput ''r1'' demo_table = [\<lparr>ln_A = ''r1'', ln_APort = ''Et1'', ln_B = ''r2'', ln_BPort = ''Et2''\<rparr>]"
    by code_simp
  have inv: "runs_inv ?w"
    by (simp add: runs_inv_def demo_probe_world_def demo_backup_db_def dev_inv_def wf_table_def device_typed_def empty_table_def
        trim_space_def, code_simp)
  have f: "faults (pw_backup ?w) = []" "faults (pw_probes ?w) = []" "permutes_jobs ?J"
    by (simp_all add: demo_probe_world_def demo_backup_db_def permutes_jobs_def demo_order_def)
  obtain r w1 where run: "handleTopologyDiscover ?S ?J 0 1 ?w = (r, w1)" by fastforce
  have c: "neighbors_command 1 (pw_probes ?w) = ?cmd" "\<not> (\<exists>p \<in> set (rows (probes (pw_probes ?w))). po_name p = ''neighbors'' \<and> po_tenant p \<noteq> 1)"
    by (simp_all add: neighbors_command_def demo_probe_world_def empty_table_def)
  note t = discovery_shown [OF inv f refl refl refl refl refl run, unfolded if_not_P [OF c(2)], unfolded c(1) devs]
  have e: "expected_output ?S ?cmd 1 0 ?w dev = demo_table" using a d(3) by (simp add: expected_output_def text_of_def)
  have s: "\<forall>i. rfc3339 (0 - week) \<le> rfc3339 (so_time ?J i)" by (simp add: demo_order_def week_def rfc3339_mono second_def)
  have L: "?L = (\<Union>d \<in> set [dev]. set (FromNeighborOutput (d_Hostname d) (expected_output ?S ?cmd 1 0 ?w d)))"
    by (simp add: d(1) e l)
  have q: "\<forall>l \<in> ?L. plain_link l" "length [dev] \<le> query_limit []" by (simp_all add: plain_link_def query_limit_def)
  obtain G where G: "handleTopology (\<lambda>xs. xs) (\<lambda>xs. xs) (\<lambda>xs. xs) 0 1 [] w1 = (Inr G, w1)"
      "link_ends ` set (gp_Links G) = link_ends ` ?L"
    using t [THEN conjunct2, THEN conjunct2, THEN spec [of _ 0], THEN spec [of _ "[]"], THEN spec [of _ ?L]] L q s by blast
  moreover have "fst (handleTopologyDiscover ?S ?J 0 1 ?w) = Inr (1, [\<lparr>sr_DeviceID = 1, sr_Hostname = ''r1'', sr_Status = ''ok'',
      sr_Links = 1, sr_Error = []\<rparr>])" by code_simp
  ultimately show ?thesis using run by (auto simp: link_ends_def)
qed

text \<open>The name of the probe is taken by whichever tenant runs a discovery first.\<close>

lemma second_tenant_refused:
  "fst (handleTopologyDiscover demo_prober demo_order 0 2
     (snd (handleTopologyDiscover demo_prober demo_order 0 1 demo_probe_world))) = Inl 500"
  by code_simp

text \<open>A failed run hides the links of the last good one: the newest run of a device is an empty output.\<close>

lemma failed_run_hides_links:
  "last_output 1 0 (pw_probes (snd (handleRunProbeNow (demo_prober\<lparr>bs_session_run := (\<lambda>d c. Inl ''timeout'')\<rparr>) demo_order 1 1
     (snd (handleTopologyDiscover demo_prober demo_order 0 1 demo_probe_world))))) 1 = []"
  by code_simp

end
