(* ===== verification/AuditExport.thy ===== *)
theory AuditExport
  imports AuditLog Config
begin

text \<open>
  The audit endpoint (\<open>internal/api/handlers_audit.go\<close>): its query parameters, the listing, and the
  export as comma-separated values, with the record writer of \<open>encoding/csv\<close> as Go has it (comma, line
  feed, quotes around fields that need them). Parsing and printing of times are parameters. The reader
  at the end is the reference: the format of RFC 4180 with a line feed after each record.
\<close>

section \<open>Cells\<close>

text \<open>The characters a spreadsheet takes for the start of a formula.\<close>

definition formula_start :: "string \<Rightarrow> bool" where
  "formula_start v \<longleftrightarrow> v \<noteq> [] \<and> hd v \<in> {CHR ''='', CHR ''+'', CHR ''-'', CHR ''@'', CHR 0x09, CHR 0x0D}"

definition sanitizeCSVCell :: "string \<Rightarrow> string" where
  "sanitizeCSVCell v = (if v = [] then v
     else if hd v \<in> {CHR ''='', CHR ''+'', CHR ''-'', CHR ''@'', CHR 0x09, CHR 0x0D} then CHR 0x27 # v else v)"

definition int64Ptr :: "int option \<Rightarrow> string" where
  "int64Ptr p = (case p of None \<Rightarrow> [] | Some n \<Rightarrow> itoa n)"

definition audit_header :: "string list" where
  "audit_header = [''id'', ''created_at'', ''tenant_id'', ''actor_user_id'', ''source'', ''action'', ''target'', ''request_id'', ''detail'']"

definition audit_cells :: "(time \<Rightarrow> string) \<Rightarrow> Entry \<Rightarrow> string list" where
  "audit_cells fmt e = [itoa (e_ID e), fmt (e_CreatedAt e), int64Ptr (e_TenantID e), int64Ptr (e_ActorUserID e),
     sanitizeCSVCell (e_Source e), sanitizeCSVCell (e_Action e), sanitizeCSVCell (e_Target e),
     sanitizeCSVCell (e_RequestID e), sanitizeCSVCell (e_Detail e)]"

section \<open>The writer of \<open>encoding/csv\<close>\<close>

definition fieldNeedsQuotes :: "string \<Rightarrow> bool" where
  "fieldNeedsQuotes field \<longleftrightarrow> field \<noteq> [] \<and>
     (field = [CHR 0x5C, CHR ''.''] \<or> list_ex (\<lambda>c. c \<in> {CHR 0x0A, CHR 0x0D, CHR 0x22, CHR '',''}) field \<or>
      list_ex (has_prefix field) space_runes)"

fun quote_body :: "string \<Rightarrow> string" where
  "quote_body [] = []"
| "quote_body (c # s) = (if c = CHR 0x22 then [CHR 0x22, CHR 0x22] else [c]) @ quote_body s"

definition write_field :: "string \<Rightarrow> string" where
  "write_field f = (if fieldNeedsQuotes f then CHR 0x22 # quote_body f @ [CHR 0x22] else f)"

fun write_fields :: "string list \<Rightarrow> string" where
  "write_fields [] = []"
| "write_fields [f] = write_field f"
| "write_fields (f # fs) = write_field f @ CHR '','' # write_fields fs"

definition write_record :: "string list \<Rightarrow> string" where
  "write_record fs = write_fields fs @ [CHR 0x0A]"

definition writeAuditCSV :: "(time \<Rightarrow> string) \<Rightarrow> Entry list \<Rightarrow> string" where
  "writeAuditCSV fmt es = write_record audit_header @ concat (map (\<lambda>e. write_record (audit_cells fmt e)) es)"

section \<open>The endpoint\<close>

text \<open>A parameter that is present and not usable ends the request.\<close>

fun apply_params ::
  "(string \<Rightarrow> string) \<Rightarrow> (string \<times> (string \<Rightarrow> (ListFilter \<Rightarrow> ListFilter) option)) list \<Rightarrow> ListFilter \<Rightarrow> ListFilter option" where
  "apply_params q [] f = Some f"
| "apply_params q ((name, parse) # ps) f =
     (if q name = [] then apply_params q ps f
      else (case parse (q name) of None \<Rightarrow> None | Some upd \<Rightarrow> apply_params q ps (upd f)))"

definition parseRFC3339Loose :: "(string \<Rightarrow> string \<Rightarrow> time option) \<Rightarrow> string \<Rightarrow> time option" where
  "parseRFC3339Loose parse v = (case parse ''RFC3339Nano'' v of Some t \<Rightarrow> Some t | None \<Rightarrow> parse ''RFC3339'' v)"

definition int_param ::
  "(int \<Rightarrow> bool) \<Rightarrow> (int \<Rightarrow> ListFilter \<Rightarrow> ListFilter) \<Rightarrow> string \<Rightarrow> (ListFilter \<Rightarrow> ListFilter) option" where
  "int_param ok upd v = (case Atoi v of Some n \<Rightarrow> if ok n then Some (upd n) else None | None \<Rightarrow> None)"

definition audit_params ::
  "(string \<Rightarrow> string \<Rightarrow> time option) \<Rightarrow> (string \<times> (string \<Rightarrow> (ListFilter \<Rightarrow> ListFilter) option)) list" where
  "audit_params parse =
     [(''user'', int_param (\<lambda>n. n > 0) (\<lambda>n. f_ActorUserID_update (\<lambda>_. n))),
      (''action'', \<lambda>v. Some (f_Action_update (\<lambda>_. v))), (''target'', \<lambda>v. Some (f_Target_update (\<lambda>_. v))),
      (''request_id'', \<lambda>v. Some (f_RequestID_update (\<lambda>_. v))),
      (''since'', \<lambda>v. map_option (\<lambda>t. f_Since_update (\<lambda>_. t)) (parseRFC3339Loose parse v)),
      (''until'', \<lambda>v. map_option (\<lambda>t. f_Until_update (\<lambda>_. t)) (parseRFC3339Loose parse v)),
      (''limit'', int_param (\<lambda>n. 0 < n \<and> n \<le> 500) (\<lambda>n. f_Limit_update (\<lambda>_. n))),
      (''offset'', int_param (\<lambda>n. n \<ge> 0) (\<lambda>n. f_Offset_update (\<lambda>_. n)))]"

definition tenant_filter :: "int \<Rightarrow> ListFilter" where
  "tenant_filter t = \<lparr>f_TenantID = t, f_ActorUserID = 0, f_Action = [], f_Target = [], f_RequestID = [],
     f_Since = zero_time, f_Until = zero_time, f_Limit = 0, f_Offset = 0\<rparr>"

datatype audit_reply = AuditJSON "Entry list" | AuditCSV string

definition render_audit :: "(time \<Rightarrow> string) \<Rightarrow> (string \<Rightarrow> string) \<Rightarrow> Entry list \<Rightarrow> audit_reply" where
  "render_audit fmt q es = (if q ''format'' = ''csv'' then AuditCSV (writeAuditCSV fmt es) else AuditJSON es)"

text \<open>\<open>audit\<close> says whether the service is set.\<close>

definition handleListAudit ::
  "bool \<Rightarrow> (time \<Rightarrow> string) \<Rightarrow> (string \<Rightarrow> string \<Rightarrow> time option) \<Rightarrow> int \<Rightarrow> (string \<Rightarrow> string)
    \<Rightarrow> 'a audit_db_scheme \<Rightarrow> (nat + audit_reply) \<times> 'a audit_db_scheme" where
  "handleListAudit audit fmt parse t q s =
     (if \<not> audit then (Inr (render_audit fmt q []), s)
      else (case apply_params q (audit_params parse) (tenant_filter t) of
         None \<Rightarrow> (Inl 400, s)
       | Some f \<Rightarrow> (case ListEntries f s of
           (Inl e, s) \<Rightarrow> (Inl 500, s)
         | (Inr es, s) \<Rightarrow> (Inr (render_audit fmt q es), s))))"

section \<open>The reader\<close>

datatype csv_state = FieldStart | Plain | Quoted | QuoteSeen

fun csv_read :: "csv_state \<Rightarrow> string \<Rightarrow> string list \<Rightarrow> string \<Rightarrow> string list list option" where
  "csv_read st cur rec [] = (if st = Quoted then None
     else if st = FieldStart \<and> rec = [] then Some [] else Some [rec @ [cur]])"
| "csv_read st cur rec (c # s) =
     (if st = Quoted then (if c = CHR 0x22 then csv_read QuoteSeen cur rec s else csv_read Quoted (cur @ [c]) rec s)
      else if c = CHR '','' then csv_read FieldStart [] (rec @ [cur]) s
      else if c = CHR 0x0A then map_option (Cons (rec @ [cur])) (csv_read FieldStart [] [] s)
      else if c = CHR 0x22 then (case st of
          FieldStart \<Rightarrow> csv_read Quoted [] rec s
        | QuoteSeen \<Rightarrow> csv_read Quoted (cur @ [c]) rec s
        | _ \<Rightarrow> None)
      else if st = QuoteSeen then None else csv_read Plain (cur @ [c]) rec s)"

definition csv_parse :: "string \<Rightarrow> string list list option" where
  "csv_parse s = csv_read FieldStart [] [] s"

text \<open>A quoted field is read back as it was, whatever it holds.\<close>

lemma read_quoted: "csv_read Quoted cur rec (quote_body f @ CHR 0x22 # s) = csv_read QuoteSeen (cur @ f) rec s"
  by (induction f arbitrary: cur) auto

lemma read_plain:
  "\<forall>c \<in> set f. c \<notin> {CHR 0x0A, CHR 0x22, CHR '',''} \<Longrightarrow> csv_read Plain cur rec (f @ s) = csv_read Plain (cur @ f) rec s"
  by (induction f arbitrary: cur) auto

text \<open>What ends a field.\<close>

lemma read_end:
  "st \<in> {FieldStart, Plain, QuoteSeen} \<Longrightarrow> csv_read st cur rec (CHR '','' # s) = csv_read FieldStart [] (rec @ [cur]) s"
  "st \<in> {FieldStart, Plain, QuoteSeen} \<Longrightarrow>
     csv_read st cur rec (CHR 0x0A # s) = map_option (Cons (rec @ [cur])) (csv_read FieldStart [] [] s)"
  by auto

lemma read_field:
  obtains st where "st \<in> {FieldStart, Plain, QuoteSeen}"
    "\<And>s. csv_read FieldStart [] rec (write_field f @ s) = csv_read st f rec s"
proof (cases "fieldNeedsQuotes f")
  case True
  then have "csv_read FieldStart [] rec (write_field f @ s) = csv_read QuoteSeen f rec s" for s
    using read_quoted [of "[]" rec f s] by (simp add: write_field_def)
  then show thesis by (intro that [of QuoteSeen]) simp_all
next
  case False
  show thesis
  proof (cases f)
    case Nil
    then show thesis using False by (intro that [of FieldStart]) (simp_all add: write_field_def)
  next
    case (Cons c cs)
    have p: "\<forall>d \<in> set f. d \<notin> {CHR 0x0A, CHR 0x22, CHR '',''}"
      using False Cons by (auto simp: fieldNeedsQuotes_def list_ex_iff)
    have "csv_read FieldStart [] rec (write_field f @ s) = csv_read Plain f rec s" for s
      using p False read_plain [of cs "[c]" rec s] by (simp add: write_field_def Cons)
    then show thesis by (intro that [of Plain]) simp_all
  qed
qed

lemma read_record:
  "fs \<noteq> [] \<Longrightarrow> csv_read FieldStart [] rec (write_fields fs @ CHR 0x0A # s) =
     map_option (Cons (rec @ fs)) (csv_read FieldStart [] [] s)"
proof (induction fs arbitrary: rec rule: write_fields.induct)
  case (2 f)
  obtain st where st: "st \<in> {FieldStart, Plain, QuoteSeen}"
    "\<And>s. csv_read FieldStart [] rec (write_field f @ s) = csv_read st f rec s" by (rule read_field [of rec f]) blast
  then show ?case by (simp add: read_end del: csv_read.simps)
next
  case (3 f g fs)
  obtain st where st: "st \<in> {FieldStart, Plain, QuoteSeen}"
    "\<And>s. csv_read FieldStart [] rec (write_field f @ s) = csv_read st f rec s" by (rule read_field [of rec f]) blast
  then show ?case using "3.IH" [of "rec @ [f]"] by (simp add: read_end del: csv_read.simps)
qed simp

lemma csv_parse_records:
  "\<forall>r \<in> set rs. r \<noteq> [] \<Longrightarrow> csv_parse (concat (map write_record rs)) = Some rs"
proof (induction rs)
  case Nil
  show ?case by (simp add: csv_parse_def)
next
  case (Cons r rs)
  then have "csv_read FieldStart [] [] (concat (map write_record rs)) = Some rs" by (simp add: csv_parse_def)
  moreover have "write_record r @ x = write_fields r @ CHR 0x0A # x" for x by (simp add: write_record_def)
  ultimately show ?case using Cons.prems read_record [of r "[]"] by (simp add: csv_parse_def del: csv_read.simps)
qed


section \<open>The export\<close>

text \<open>What the service writes: positive tenants and actors or none.\<close>

definition audit_typed :: "'a audit_db_scheme \<Rightarrow> bool" where
  "audit_typed s \<longleftrightarrow> wf_table au_id (audit_log s) \<and>
     (\<forall>r \<in> set (rows (audit_log s)). (\<forall>n. au_tenant r = Some n \<longrightarrow> 0 < n) \<and> (\<forall>n. au_actor r = Some n \<longrightarrow> 0 < n))"

lemma Record_typed:
  "audit_typed s \<Longrightarrow> audit_typed (RecordWithRequest now ten actor req src act tgt det s)"
  unfolding RecordWithRequest_def
  by (rule exec_quiet_post [where Q = audit_typed])
    (auto simp: audit_typed_def intro!: wf_insert_row simp del: exec_quiet_no_faults)

lemma sanitize_safe: "\<not> formula_start (sanitizeCSVCell v)"
  by (simp add: formula_start_def sanitizeCSVCell_def)

lemma sanitize_reads_back: "sanitizeCSVCell v = v \<or> formula_start v \<and> sanitizeCSVCell v = CHR 0x27 # v"
  by (simp add: formula_start_def sanitizeCSVCell_def)

lemma itoa_safe: "0 \<le> n \<Longrightarrow> \<not> formula_start (itoa n)"
  using nat_digits_digit [of "hd (nat_digits (nat n))" "nat n"] by (auto simp: formula_start_def itoa_def is_digit_def)

lemma int64Ptr_safe: "(\<And>n. p = Some n \<Longrightarrow> 0 < n) \<Longrightarrow> \<not> formula_start (int64Ptr p)"
  by (cases p) (auto simp: int64Ptr_def itoa_safe formula_start_def [of "[]"])

lemma ListEntries_from:
  assumes "ListEntries f s = (Inr es, s')"
  shows "length es \<le> 500 \<and> (\<forall>e \<in> set es. \<exists>r \<in> set (rows (audit_log s)). list_where f r \<and> e = entry_of r)"
proof -
  have "post (\<lambda>r s'. \<forall>es. r = Inr es \<longrightarrow> length es \<le> 500 \<and>
      (\<forall>e \<in> set es. \<exists>r \<in> set (rows (audit_log s)). list_where f r \<and> e = entry_of r)) (ListEntries f s)"
    unfolding ListEntries_def Let_def
    by (intro post_exec) (auto simp: order_desc_def dest!: in_set_takeD in_set_dropD)
  from postD [OF this assms] show ?thesis by simp
qed

lemma apply_params_tenant:
  "apply_params q ps f = Some g \<Longrightarrow> \<forall>p \<in> set ps. \<forall>v u h. snd p v = Some u \<longrightarrow> f_TenantID (u h) = f_TenantID h \<Longrightarrow>
     f_TenantID g = f_TenantID f"
  by (induction q ps f rule: apply_params.induct) (auto split: if_splits option.splits)

lemma audit_params_tenant:
  "\<forall>p \<in> set (audit_params parse). \<forall>v u h. snd p v = Some u \<longrightarrow> f_TenantID (u h) = f_TenantID h"
  by (auto simp: audit_params_def int_param_def split: option.splits if_splits)

text \<open>C37: The export of the audit log. Whatever the entries hold, the body is read back, by a reader of the
  format, as the header and one record for each entry of the listing, in its order; no cell of it starts
  like a formula, and each text is the entry's, behind an apostrophe if it would have. The entries
  are the caller's tenant's, at most 500, and match the filter.\<close>

theorem audit_export_reads_back:
  assumes "audit_typed s" and "0 < t" and "\<And>x. \<not> formula_start (fmt x)"
    and "q ''format'' = ''csv''" and "handleListAudit True fmt parse t q s = (Inr reply, s')"
  shows "\<exists>f es body. reply = AuditCSV body \<and> apply_params q (audit_params parse) (tenant_filter t) = Some f \<and>
    ListEntries f s = (Inr es, s') \<and> csv_parse body = Some (audit_header # map (audit_cells fmt) es) \<and>
    (\<forall>e \<in> set es. \<forall>c \<in> set (audit_cells fmt e). \<not> formula_start c) \<and>
    length es \<le> 500 \<and> (\<forall>e \<in> set es. e_TenantID e = Some t \<and>
      (\<exists>r \<in> set (rows (audit_log s)). list_where f r \<and> e = entry_of r))"
proof -
  obtain f where f: "apply_params q (audit_params parse) (tenant_filter t) = Some f"
    using assms(5) by (auto simp: handleListAudit_def split: option.splits)
  then have ft: "f_TenantID f = t"
    using apply_params_tenant [OF f audit_params_tenant] by (simp add: tenant_filter_def)
  obtain es where es: "ListEntries f s = (Inr es, s')" "reply = AuditCSV (writeAuditCSV fmt es)"
    using assms(4,5) f by (auto simp: handleListAudit_def render_audit_def split: prod.splits sum.splits)
  note src = ListEntries_from [OF es(1)]
  have ne: "\<forall>r \<in> set (audit_header # map (audit_cells fmt) es). r \<noteq> []"
    by (auto simp: audit_header_def audit_cells_def)
  have "writeAuditCSV fmt es = concat (map write_record (audit_header # map (audit_cells fmt) es))"
    by (simp add: writeAuditCSV_def o_def)
  then have "csv_parse (writeAuditCSV fmt es) = Some (audit_header # map (audit_cells fmt) es)"
    using csv_parse_records [OF ne] by simp
  moreover have "\<not> formula_start c" if "e \<in> set es" "c \<in> set (audit_cells fmt e)" for e c
  proof -
    obtain r where r: "r \<in> set (rows (audit_log s))" "e = entry_of r" using src \<open>e \<in> set es\<close> by blast
    then have "0 < e_ID e" "\<And>n. e_TenantID e = Some n \<Longrightarrow> 0 < n" "\<And>n. e_ActorUserID e = Some n \<Longrightarrow> 0 < n"
      using assms(1) by (auto simp: audit_typed_def wf_table_def entry_of_def)
    then show ?thesis
      using that(2) assms(3) by (auto simp: audit_cells_def sanitize_safe itoa_safe int64Ptr_safe)
  qed
  moreover have "e_TenantID e = Some t \<and> (\<exists>r \<in> set (rows (audit_log s)). list_where f r \<and> e = entry_of r)" if "e \<in> set es" for e
    using src that ft assms(2) by (auto simp: list_where_def entry_of_def)
  ultimately show ?thesis using f es src by blast
qed

definition demo_audit_log :: audit_db where
  "demo_audit_log = RecordEntry 0 1 2 ''api'' ''device.create'' ''=cmd'' [CHR 0x22, CHR '','', CHR 0x0A]
     \<lparr>faults = [], last_rowid = 0, audit_log = empty_table\<rparr>"

theorem audit_export_reads_back_witness:
  "\<exists>body s'. handleListAudit True (\<lambda>x. ''2024'') (\<lambda>l v. None) 1 (\<lambda>p. if p = ''format'' then ''csv'' else []) demo_audit_log =
      (Inr (AuditCSV body), s') \<and>
    csv_parse body = Some [audit_header, [''1'', ''2024'', ''1'', ''2'', ''api'', ''device.create'', [CHR 0x27] @ ''=cmd'', [],
      [CHR 0x22, CHR '','', CHR 0x0A]]]"
proof -
  let ?q = "\<lambda>p. if p = ''format'' then ''csv'' else []"
  have ty: "audit_typed demo_audit_log"
    unfolding demo_audit_log_def RecordEntry_def by (rule Record_typed) (simp add: audit_typed_def empty_table_def wf_table_def)
  obtain r s' where h: "handleListAudit True (\<lambda>x. ''2024'') (\<lambda>l v. None) 1 ?q demo_audit_log = (r, s')" by fastforce
  have "case handleListAudit True (\<lambda>x. ''2024'') (\<lambda>l v. None) 1 ?q demo_audit_log of (Inr x, z) \<Rightarrow> True | _ \<Rightarrow> False" by code_simp
  then obtain reply where "r = Inr reply" by (auto simp: h split: sum.splits)
  with audit_export_reads_back [OF ty _ _ _ h [unfolded this]] obtain f es body where
    b: "reply = AuditCSV body" "apply_params ?q (audit_params (\<lambda>l v. None)) (tenant_filter 1) = Some f"
      "ListEntries f demo_audit_log = (Inr es, s')" "csv_parse body = Some (audit_header # map (audit_cells (\<lambda>x. ''2024'')) es)"
    by (auto simp: formula_start_def)
  have "apply_params ?q (audit_params (\<lambda>l v. None)) (tenant_filter 1) = Some (tenant_filter 1)"
    by (simp add: audit_params_def)
  moreover have "fst (ListEntries (tenant_filter 1) demo_audit_log) = Inr [\<lparr>e_ID = 1, e_TenantID = Some 1, e_ActorUserID = Some 2,
      e_Action = ''device.create'', e_Target = ''=cmd'', e_Detail = [CHR 0x22, CHR '','', CHR 0x0A], e_Source = ''api'',
      e_RequestID = [], e_CreatedAt = 0\<rparr>]" by code_simp
  ultimately have "es = [\<lparr>e_ID = 1, e_TenantID = Some 1, e_ActorUserID = Some 2, e_Action = ''device.create'', e_Target = ''=cmd'',
      e_Detail = [CHR 0x22, CHR '','', CHR 0x0A], e_Source = ''api'', e_RequestID = [], e_CreatedAt = 0\<rparr>]"
    using b(2,3) by simp
  moreover have "itoa 1 = ''1''" "itoa 2 = ''2''" by code_simp+
  ultimately have "map (audit_cells (\<lambda>x. ''2024'')) es = [[''1'', ''2024'', ''1'', ''2'', ''api'', ''device.create'', [CHR 0x27] @ ''=cmd'', [],
      [CHR 0x22, CHR '','', CHR 0x0A]]]"
    by (simp add: audit_cells_def sanitizeCSVCell_def int64Ptr_def)
  then show ?thesis using h \<open>r = Inr reply\<close> b(1,4) by simp
qed

text \<open>The prefix cannot be undone: a text that begins with the apostrophe exports like the one it
  protects.\<close>

lemma sanitize_collides: "sanitizeCSVCell ''=1'' = sanitizeCSVCell [CHR 0x27, CHR ''='', CHR ''1'']"
  by (simp add: sanitizeCSVCell_def)

end
