(* ===== verification/Metrics.thy ===== *)
theory Metrics
  imports Prelude "HOL-Library.Word" "HOL-Library.AList" "HOL-Library.List_Lexorder" "HOL-Library.Char_ord"
begin

text \<open>
  The metrics registry (\<open>internal/observability/metrics.go\<close>): counters and latency histograms by label,
  and their text form. Go's maps are association lists, read in sorted order as the handler does.
  Counters are 64 bit words. A duration is compared with a bound in nanoseconds, which is what the
  comparison of their \<open>float64\<close> seconds gives for the bounds there are; the sum of seconds, a \<open>float64\<close>,
  stays a parameter.
\<close>

section \<open>State\<close>

record 'f float_ops =
  fl_zero :: 'f
  fl_add :: "'f \<Rightarrow> 'f \<Rightarrow> 'f"
  fl_seconds :: "int \<Rightarrow> 'f"
  fl_print :: "'f \<Rightarrow> string"

record 'f histogram =
  hg_counts :: "64 word list"
  hg_sum :: 'f
  hg_count :: "64 word"

record 'f metrics =
  mt_counters :: "(string \<times> 64 word) list"
  mt_hist :: "(string \<times> 'f histogram) list"
  mt_startup :: time

text \<open>The bounds in milliseconds, and as \<open>FormatFloat(b, 'g', -1, 64)\<close> prints them in seconds.\<close>

definition bucket_bounds :: "(int \<times> string) list" where
  "bucket_bounds = [(5, ''0.005''), (10, ''0.01''), (25, ''0.025''), (50, ''0.05''), (100, ''0.1''), (250, ''0.25''),
     (500, ''0.5''), (1000, ''1''), (2500, ''2.5''), (5000, ''5''), (10000, ''10'')]"

definition in_bucket :: "int \<Rightarrow> int \<times> string \<Rightarrow> bool" where
  "in_bucket dur b \<longleftrightarrow> dur \<le> fst b * 1000000"

definition New_metrics :: "time \<Rightarrow> 'f metrics" where
  "New_metrics now = \<lparr>mt_counters = [], mt_hist = [], mt_startup = now\<rparr>"

section \<open>Recording\<close>

definition quote_mark :: char where "quote_mark = CHR 0x22"

definition requests_key :: "string \<Rightarrow> int \<Rightarrow> string" where
  "requests_key meth status = ''netmantle_http_requests_total{method='' @ quote_mark # meth @ quote_mark # '',status='' @
     quote_mark # itoa status @ quote_mark # ''}''"

definition duration_key :: "string \<Rightarrow> string" where
  "duration_key meth = ''netmantle_http_request_duration_seconds{method='' @ quote_mark # meth @ quote_mark # ''}''"

definition Inc :: "string \<Rightarrow> 'f metrics \<Rightarrow> 'f metrics" where
  "Inc name m = m\<lparr>mt_counters := AList.map_default name 1 (\<lambda>n. n + 1) (mt_counters m)\<rparr>"

definition new_histogram :: "'f float_ops \<Rightarrow> 'f histogram" where
  "new_histogram F = \<lparr>hg_counts = replicate (length bucket_bounds) 0, hg_sum = fl_zero F, hg_count = 0\<rparr>"

definition observe :: "'f float_ops \<Rightarrow> int \<Rightarrow> 'f histogram \<Rightarrow> 'f histogram" where
  "observe F dur h = \<lparr>hg_counts = map2 (\<lambda>b n. if in_bucket dur b then n + 1 else n) bucket_bounds (hg_counts h),
     hg_sum = fl_add F (hg_sum h) (fl_seconds F dur), hg_count = hg_count h + 1\<rparr>"

definition ObserveHTTP :: "'f float_ops \<Rightarrow> string \<Rightarrow> int \<Rightarrow> int \<Rightarrow> 'f metrics \<Rightarrow> 'f metrics" where
  "ObserveHTTP F meth status dur m = (let m = Inc (requests_key meth status) m in
     m\<lparr>mt_hist := AList.map_default (duration_key meth) (observe F dur (new_histogram F)) (observe F dur) (mt_hist m)\<rparr>)"

section \<open>The text form\<close>

text \<open>The part before the first brace, and the labels with a comma after them; a brace at the very end
  makes the slice expression panic.\<close>

definition splitMetric :: "string \<Rightarrow> (string \<times> string) option" where
  "splitMetric s = (let name = takeWhile (\<lambda>c. c \<noteq> CHR ''{'') s; rest = drop (length name) s in
     if rest = [] then Some (s, [])
     else if tl rest = [] then None
     else (let inner = butlast (tl rest) in if inner = [] then Some (name, []) else Some (name, inner @ '','')))"

definition trimTrailingComma :: "string \<Rightarrow> string" where
  "trimTrailingComma s = (if s = [] then s else if last s = CHR '','' then butlast s else s)"

definition word_text :: "64 word \<Rightarrow> string" where
  "word_text n = nat_digits (unat n)"

definition nl :: string where "nl = [CHR 0x0A]"

definition counter_line :: "string \<times> 64 word \<Rightarrow> string" where
  "counter_line = (\<lambda>(k, n). k @ '' '' @ word_text n @ nl)"

definition bucket_line :: "string \<Rightarrow> string \<Rightarrow> string \<Rightarrow> 64 word \<Rightarrow> string" where
  "bucket_line base labels bound n =
     base @ ''_bucket{'' @ labels @ ''le='' @ quote_mark # bound @ quote_mark # ''} '' @ word_text n @ nl"

definition histogram_lines :: "'f float_ops \<Rightarrow> string \<times> 'f histogram \<Rightarrow> string option" where
  "histogram_lines F = (\<lambda>(k, h). case splitMetric k of
     None \<Rightarrow> None
   | Some (base, labels) \<Rightarrow> Some
      (concat (map2 (\<lambda>b n. bucket_line base labels (snd b) n) bucket_bounds (hg_counts h)) @
       bucket_line base labels ''+Inf'' (hg_count h) @
       base @ ''_sum{'' @ trimTrailingComma labels @ ''} '' @ fl_print F (hg_sum h) @ nl @
       base @ ''_count{'' @ trimTrailingComma labels @ ''} '' @ word_text (hg_count h) @ nl))"

fun concat_some :: "string option list \<Rightarrow> string option" where
  "concat_some [] = Some []"
| "concat_some (None # xs) = None"
| "concat_some (Some x # xs) = map_option ((@) x) (concat_some xs)"

definition Handler_metrics :: "'f float_ops \<Rightarrow> time \<Rightarrow> 'f metrics \<Rightarrow> string option" where
  "Handler_metrics F now m =
     (let up = ''# TYPE netmantle_uptime_seconds gauge'' @ nl @ ''netmantle_uptime_seconds '' @
        itoa ((now - mt_startup m) div second) @ nl
      in map_option (\<lambda>hs. up @ concat (map counter_line (sort_key fst (mt_counters m))) @ hs)
        (concat_some (map (histogram_lines F) (sort_key fst (mt_hist m)))))"


section \<open>What the registry counts\<close>

type_synonym obs = "string \<times> int \<times> int"

definition ob_meth :: "obs \<Rightarrow> string" where "ob_meth = fst"
definition ob_status :: "obs \<Rightarrow> int" where "ob_status o1 = fst (snd o1)"
definition ob_dur :: "obs \<Rightarrow> int" where "ob_dur o1 = snd (snd o1)"

definition observe_all :: "'f float_ops \<Rightarrow> obs list \<Rightarrow> 'f metrics \<Rightarrow> 'f metrics" where
  "observe_all F obs m = fold (\<lambda>o1. ObserveHTTP F (ob_meth o1) (ob_status o1) (ob_dur o1)) obs m"

definition tally :: "(obs \<Rightarrow> bool) \<Rightarrow> obs list \<Rightarrow> nat" where
  "tally P obs = length (filter P obs)"

lemma tally_simps [simp]: "tally P [] = 0" "tally P (xs @ [x]) = tally P xs + (if P x then 1 else 0)"
  by (simp_all add: tally_def)

lemma tally_le: "tally P obs \<le> length obs"
  by (simp add: tally_def)

lemma tally_mono: "(\<And>x. P x \<Longrightarrow> Q x) \<Longrightarrow> tally P obs \<le> tally Q obs"
  by (induction obs) (auto simp: tally_def le_SucI)

definition counted :: "'f metrics \<Rightarrow> obs list \<Rightarrow> bool" where
  "counted m obs \<longleftrightarrow> distinct (map fst (mt_counters m)) \<and> distinct (map fst (mt_hist m)) \<and>
     (\<forall>k. map_of (mt_counters m) k = (let n = tally (\<lambda>o1. requests_key (ob_meth o1) (ob_status o1) = k) obs
        in if n = 0 then None else Some (of_nat n))) \<and>
     (\<forall>k. (case map_of (mt_hist m) k of
          None \<Rightarrow> tally (\<lambda>o1. duration_key (ob_meth o1) = k) obs = 0
        | Some h \<Rightarrow> 0 < tally (\<lambda>o1. duration_key (ob_meth o1) = k) obs \<and>
            hg_counts h = map (\<lambda>b. of_nat (tally (\<lambda>o1. duration_key (ob_meth o1) = k \<and> in_bucket (ob_dur o1) b) obs)) bucket_bounds \<and>
            hg_count h = of_nat (tally (\<lambda>o1. duration_key (ob_meth o1) = k) obs)))"

lemma map2_map_right: "map2 f xs (map g xs) = map (\<lambda>x. f x (g x)) xs"
  by (induction xs) simp_all

lemma observe_counted:
  assumes "counted m obs"
  shows "counted (ObserveHTTP F (ob_meth x) (ob_status x) (ob_dur x) m) (obs @ [x])"
proof -
  let ?m = "ObserveHTTP F (ob_meth x) (ob_status x) (ob_dur x) m"
  have c: "mt_counters ?m = AList.map_default (requests_key (ob_meth x) (ob_status x)) 1 (\<lambda>n. n + 1) (mt_counters m)"
    and h: "mt_hist ?m = AList.map_default (duration_key (ob_meth x)) (observe F (ob_dur x) (new_histogram F)) (observe F (ob_dur x)) (mt_hist m)"
    by (simp_all add: ObserveHTTP_def Inc_def Let_def)
  have d: "distinct (map fst (mt_counters ?m))" "distinct (map fst (mt_hist ?m))"
    using assms unfolding counted_def c h by (simp_all add: distinct_map_default)
  have cs: "map_of (mt_counters ?m) k = (let n = tally (\<lambda>o1. requests_key (ob_meth o1) (ob_status o1) = k) (obs @ [x])
        in if n = 0 then None else Some (of_nat n))" for k
  proof -
    have "map_of (mt_counters m) k = (let n = tally (\<lambda>o1. requests_key (ob_meth o1) (ob_status o1) = k) obs
        in if n = 0 then None else Some (of_nat n))" using assms by (simp add: counted_def)
    then show ?thesis unfolding c by (auto simp: map_of_map_default Let_def)
  qed
  have hs: "case map_of (mt_hist ?m) k of
          None \<Rightarrow> tally (\<lambda>o1. duration_key (ob_meth o1) = k) (obs @ [x]) = 0
        | Some h \<Rightarrow> 0 < tally (\<lambda>o1. duration_key (ob_meth o1) = k) (obs @ [x]) \<and>
            hg_counts h = map (\<lambda>b. of_nat (tally (\<lambda>o1. duration_key (ob_meth o1) = k \<and> in_bucket (ob_dur o1) b) (obs @ [x]))) bucket_bounds \<and>
            hg_count h = of_nat (tally (\<lambda>o1. duration_key (ob_meth o1) = k) (obs @ [x]))" for k
  proof -
    have old: "case map_of (mt_hist m) k of
          None \<Rightarrow> tally (\<lambda>o1. duration_key (ob_meth o1) = k) obs = 0
        | Some h \<Rightarrow> 0 < tally (\<lambda>o1. duration_key (ob_meth o1) = k) obs \<and>
            hg_counts h = map (\<lambda>b. of_nat (tally (\<lambda>o1. duration_key (ob_meth o1) = k \<and> in_bucket (ob_dur o1) b) obs)) bucket_bounds \<and>
            hg_count h = of_nat (tally (\<lambda>o1. duration_key (ob_meth o1) = k) obs)"
      using assms by (simp add: counted_def)
    show ?thesis
    proof (cases "duration_key (ob_meth x) = k")
    case False
    have "map_of (mt_hist ?m) k = map_of (mt_hist m) k" using False unfolding h by (simp add: map_of_map_default)
    then show ?thesis using old False by (cases "map_of (mt_hist m) k") simp_all
  next
    case True
    show ?thesis
    proof (cases "map_of (mt_hist m) k")
      case None
      then have z: "tally (\<lambda>o1. duration_key (ob_meth o1) = k) obs = 0" using old by simp
      have z': "tally (\<lambda>o1. duration_key (ob_meth o1) = k \<and> in_bucket (ob_dur o1) b) obs = 0" for b
        using tally_mono [of "\<lambda>o1. duration_key (ob_meth o1) = k \<and> in_bucket (ob_dur o1) b" "\<lambda>o1. duration_key (ob_meth o1) = k" obs] z
        by simp
      have "map_of (mt_hist ?m) k = Some (observe F (ob_dur x) (new_histogram F))"
        using None True unfolding h by (simp add: map_of_map_default)
      then show ?thesis using True z
        by (simp add: observe_def new_histogram_def z' bucket_bounds_def)
    next
      case (Some g)
      have "map_of (mt_hist ?m) k = Some (observe F (ob_dur x) g)"
        using Some True unfolding h by (simp add: map_of_map_default)
      then show ?thesis using True old Some
        by (simp add: observe_def map2_map_right)
    qed
    qed
  qed
  show ?thesis using d cs hs by (simp add: counted_def)
qed

lemma observe_all_counted: "counted (observe_all F obs (New_metrics now)) obs"
proof (induction obs rule: rev_induct)
  case Nil
  show ?case by (simp add: counted_def observe_all_def New_metrics_def)
next
  case (snoc x obs)
  then show ?case using observe_counted by (simp add: observe_all_def)
qed


section \<open>Labels\<close>

lemma append_mark: "c \<notin> set a \<Longrightarrow> c \<notin> set b \<Longrightarrow> a @ c # x = b @ c # y \<Longrightarrow> a = b \<and> x = y"
  by (induction a arbitrary: b) (case_tac b; auto)+

lemma requests_key_inj:
  assumes "quote_mark \<notin> set m" and "quote_mark \<notin> set n" and "requests_key m s = requests_key n t"
  shows "m = n \<and> s = t"
proof -
  have "m = n \<and> '',status='' @ quote_mark # itoa s @ quote_mark # ''}'' = '',status='' @ quote_mark # itoa t @ quote_mark # ''}''"
    using assms(3) unfolding requests_key_def by (intro append_mark [OF assms(1,2)]) simp
  then show ?thesis by (simp add: itoa_inj)
qed

lemma duration_key_inj:
  assumes "quote_mark \<notin> set m" and "quote_mark \<notin> set n" and "duration_key m = duration_key n"
  shows "m = n"
  using append_mark [OF assms(1,2), of "''}''" "''}''"] assms(3) by (simp add: duration_key_def)


section \<open>The exposition\<close>

lemma concat_some_map:
  "(\<And>x. x \<in> set xs \<Longrightarrow> f x \<noteq> None) \<Longrightarrow> concat_some (map f xs) = Some (concat (map (\<lambda>x. the (f x)) xs))"
proof (induction xs)
  case (Cons x xs)
  then obtain y where "f x = Some y" by fastforce
  with Cons show ?case by simp
qed simp

lemma in_concat: "x \<in> set xs \<Longrightarrow> \<exists>a b. concat (map f xs) = a @ f x @ b"
  by (induction xs) (auto, metis append.assoc append_Nil)

text \<open>Every histogram's name has its labels between braces, so that it can be split.\<close>

lemma split_duration: "splitMetric (duration_key m) =
    Some (''netmantle_http_request_duration_seconds'', ''method='' @ quote_mark # m @ [quote_mark] @ '','')"
  by (simp add: splitMetric_def Let_def duration_key_def butlast_append)

lemma observe_all_keys:
  "\<forall>k \<in> fst ` set (mt_hist (observe_all F obs (New_metrics now))). \<exists>m. k = duration_key m"
proof (induction obs rule: rev_induct)
  case Nil
  show ?case by (simp add: observe_all_def New_metrics_def)
next
  case (snoc x obs)
  then show ?case by (auto simp: observe_all_def ObserveHTTP_def Inc_def Let_def dom_map_default)
qed

lemma exposition:
  assumes "\<forall>k \<in> fst ` set (mt_hist m). \<exists>x. k = duration_key x"
  shows "\<exists>body. Handler_metrics F later m = Some body \<and> (\<forall>e \<in> set (mt_counters m). \<exists>a b. body = a @ counter_line e @ b)"
proof -
  have some: "histogram_lines F e \<noteq> None" if e: "e \<in> set (sort_key fst (mt_hist m))" for e
  proof -
    from e assms obtain x where "fst e = duration_key x" by auto
    then show ?thesis by (cases e) (simp add: histogram_lines_def split_duration)
  qed
  let ?cs = "concat (map counter_line (sort_key fst (mt_counters m)))"
  obtain up where "Handler_metrics F later m = map_option (\<lambda>hs. up @ ?cs @ hs)
      (concat_some (map (histogram_lines F) (sort_key fst (mt_hist m))))"
    unfolding Handler_metrics_def Let_def by blast
  then obtain hs where b: "Handler_metrics F later m = Some (up @ ?cs @ hs)"
    using concat_some_map [of "sort_key fst (mt_hist m)" "histogram_lines F", OF some] by simp
  have "\<exists>a b. up @ ?cs @ hs = a @ counter_line e @ b" if "e \<in> set (mt_counters m)" for e
  proof -
    have "e \<in> set (sort_key fst (mt_counters m))" using that by simp
    from in_concat [OF this, of counter_line] obtain x y where "?cs = x @ counter_line e @ y" by blast
    then have "up @ ?cs @ hs = (up @ x) @ counter_line e @ (y @ hs)" by simp
    then show ?thesis by blast
  qed
  with b show ?thesis by blast
qed

lemma unat_tally: "length obs < 2 ^ 64 \<Longrightarrow> unat (of_nat (tally P obs) :: 64 word) = tally P obs"
  using tally_le [of P obs] by (simp add: unsigned_of_nat take_bit_nat_eq_self)

text \<open>The bounds are ascending, so the buckets are cumulative.\<close>

lemma buckets_cumulative: "sorted (map (\<lambda>b. tally (\<lambda>o1. Q o1 \<and> in_bucket (ob_dur o1) b) obs) bucket_bounds)"
proof -
  have "tally (\<lambda>o1. Q o1 \<and> in_bucket (ob_dur o1) b) obs \<le> tally (\<lambda>o1. Q o1 \<and> in_bucket (ob_dur o1) c) obs"
    if "fst b \<le> fst c" for b c
    by (rule tally_mono) (use that in \<open>auto simp: in_bucket_def\<close>)
  moreover have "sorted_wrt (\<lambda>b c. fst b \<le> fst c) bucket_bounds" by (simp add: bucket_bounds_def)
  ultimately show ?thesis unfolding sorted_map by (elim sorted_wrt_mono_rel [rotated])
qed

text \<open>The metrics count exactly. After fewer than $2^{64}$ requests the counter of a method and status is
  their number and nothing wraps; each bucket of a method's histogram is the number of its requests that
  took no longer than the bound, so the buckets are cumulative and the total is all of them; and the
  exposition does not panic and has a line for every counter.\<close>

theorem metrics_exact:
  assumes "\<forall>o1 \<in> set obs. quote_mark \<notin> set (ob_meth o1)" and "quote_mark \<notin> set meth" and "length obs < 2 ^ 64"
    and "m = observe_all F obs (New_metrics now)"
  shows "map_option unat (map_of (mt_counters m) (requests_key meth status)) =
      (let n = length (filter (\<lambda>o1. ob_meth o1 = meth \<and> ob_status o1 = status) obs) in if n = 0 then None else Some n) \<and>
    (case map_of (mt_hist m) (duration_key meth) of
       None \<Rightarrow> meth \<notin> ob_meth ` set obs
     | Some h \<Rightarrow> map unat (hg_counts h) =
           map (\<lambda>b. length (filter (\<lambda>o1. ob_meth o1 = meth \<and> in_bucket (ob_dur o1) b) obs)) bucket_bounds \<and>
         unat (hg_count h) = length (filter (\<lambda>o1. ob_meth o1 = meth) obs) \<and>
         sorted (map unat (hg_counts h @ [hg_count h]))) \<and>
    (\<exists>body. Handler_metrics F later m = Some body \<and> (\<forall>e \<in> set (mt_counters m). \<exists>a b. body = a @ counter_line e @ b))"
proof -
  have c: "counted m obs" using observe_all_counted assms(4) by blast
  have rk: "filter (\<lambda>o1. requests_key (ob_meth o1) (ob_status o1) = requests_key meth status) obs =
      filter (\<lambda>o1. ob_meth o1 = meth \<and> ob_status o1 = status) obs"
    using assms(1,2) requests_key_inj by (intro filter_cong) auto
  have dk: "filter (\<lambda>o1. duration_key (ob_meth o1) = duration_key meth \<and> Q o1) obs = filter (\<lambda>o1. ob_meth o1 = meth \<and> Q o1) obs" for Q
    using assms(1,2) duration_key_inj by (intro filter_cong) auto
  have "map_of (mt_counters m) (requests_key meth status) = (let n = tally (\<lambda>o1. requests_key (ob_meth o1) (ob_status o1) =
      requests_key meth status) obs in if n = 0 then None else Some (of_nat n))" using c by (simp add: counted_def)
  then have counters: "map_option unat (map_of (mt_counters m) (requests_key meth status)) =
      (let n = length (filter (\<lambda>o1. ob_meth o1 = meth \<and> ob_status o1 = status) obs) in if n = 0 then None else Some n)"
    using unat_tally [OF assms(3), of "\<lambda>o1. requests_key (ob_meth o1) (ob_status o1) = requests_key meth status"]
    by (auto simp: tally_def rk Let_def)
  have h: "case map_of (mt_hist m) (duration_key meth) of
          None \<Rightarrow> tally (\<lambda>o1. duration_key (ob_meth o1) = duration_key meth) obs = 0
        | Some h \<Rightarrow> 0 < tally (\<lambda>o1. duration_key (ob_meth o1) = duration_key meth) obs \<and>
            hg_counts h = map (\<lambda>b. of_nat (tally (\<lambda>o1. duration_key (ob_meth o1) = duration_key meth \<and> in_bucket (ob_dur o1) b) obs)) bucket_bounds \<and>
            hg_count h = of_nat (tally (\<lambda>o1. duration_key (ob_meth o1) = duration_key meth) obs)"
    using c unfolding counted_def by blast
  have t: "tally (\<lambda>o1. duration_key (ob_meth o1) = duration_key meth \<and> Q o1) obs = length (filter (\<lambda>o1. ob_meth o1 = meth \<and> Q o1) obs)"
    for Q by (simp add: tally_def dk)
  have t1: "tally (\<lambda>o1. duration_key (ob_meth o1) = duration_key meth) obs = length (filter (\<lambda>o1. ob_meth o1 = meth) obs)"
    using t [of "\<lambda>_. True"] by simp
  have hist: "case map_of (mt_hist m) (duration_key meth) of
       None \<Rightarrow> meth \<notin> ob_meth ` set obs
     | Some h \<Rightarrow> map unat (hg_counts h) =
           map (\<lambda>b. length (filter (\<lambda>o1. ob_meth o1 = meth \<and> in_bucket (ob_dur o1) b) obs)) bucket_bounds \<and>
         unat (hg_count h) = length (filter (\<lambda>o1. ob_meth o1 = meth) obs) \<and>
         sorted (map unat (hg_counts h @ [hg_count h]))"
  proof (cases "map_of (mt_hist m) (duration_key meth)")
    case None
    with h t1 show ?thesis by (auto simp: filter_empty_conv)
  next
    case (Some g)
    let ?n = "\<lambda>b. tally (\<lambda>o1. duration_key (ob_meth o1) = duration_key meth \<and> in_bucket (ob_dur o1) b) obs"
    let ?all = "tally (\<lambda>o1. duration_key (ob_meth o1) = duration_key meth) obs"
    have g: "map unat (hg_counts g) = map ?n bucket_bounds" "unat (hg_count g) = ?all"
      using h Some unat_tally [OF assms(3)] by (simp_all add: o_def)
    have "?n b \<le> ?all" for b by (rule tally_mono) simp
    then have "sorted (map unat (hg_counts g @ [hg_count g]))"
      using buckets_cumulative [of "\<lambda>o1. duration_key (ob_meth o1) = duration_key meth" obs] g by (auto simp: sorted_append)
    with g Some show ?thesis by (simp add: t t1)
  qed
  have shown: "\<exists>body. Handler_metrics F later m = Some body \<and> (\<forall>e \<in> set (mt_counters m). \<exists>a b. body = a @ counter_line e @ b)"
    by (rule exposition) (use observe_all_keys [of F obs now] assms(4) in simp)
  show ?thesis using counters hist shown by blast
qed

definition demo_floats :: "int float_ops" where
  "demo_floats = \<lparr>fl_zero = 0, fl_add = (+), fl_seconds = (\<lambda>d. d), fl_print = itoa\<rparr>"

theorem metrics_exact_witness:
  "map_option unat (map_of (mt_counters (observe_all demo_floats [(''GET'', 200, 7000000), (''GET'', 200, 20)] (New_metrics 0)))
     (requests_key ''GET'' 200)) = Some 2"
proof -
  let ?obs = "[(''GET'', 200, 7000000), (''GET'', 200, 20)] :: obs list"
  have "map_option unat (map_of (mt_counters (observe_all demo_floats ?obs (New_metrics 0))) (requests_key ''GET'' 200)) =
      (let n = length (filter (\<lambda>o1. ob_meth o1 = ''GET'' \<and> ob_status o1 = 200) ?obs) in if n = 0 then None else Some n)"
    by (rule metrics_exact [OF _ _ _ refl, THEN conjunct1]) (simp_all add: ob_meth_def quote_mark_def)
  then show ?thesis by (simp add: ob_meth_def ob_status_def numeral_2_eq_2)
qed

end
