(* ===== verification/Dashboard.thy ===== *)
theory Dashboard
  imports Complex_Main Hooks Backup PollerJobs ChangeReq "HOL-Library.Multiset"
begin

text \<open>
  The landing page (\<open>internal/api/handlers_dashboard.go\<close>): counts over the tenant's devices, findings,
  backups, requests and pollers. A section whose statement fails keeps its zero value. Percentages are
  \<open>float64\<close> quotients of exact products: a quotient with the rounding as a parameter. Go's maps are read in
  an order of its own and sorted unstably, which is a permutation before a stable sort. Days and moments
  are counted in UTC.
\<close>

section \<open>The summary\<close>

record driverStatus =
  ds_Driver :: string
  ds_Total :: nat
  ds_Compliant :: nat
  ds_Percent :: nat

record driftHotspot =
  hs_DeviceID :: int
  hs_Hostname :: string
  hs_Failing :: nat
  hs_TopDetail :: string

record dashboardSummary =
  da_Devices :: nat
  da_AddedRecent :: nat
  da_Percent :: rat
  da_PassCount :: nat
  da_FailCount :: nat
  da_ComplianceSpark :: "rat list"
  da_SuccessRate24h :: rat
  da_Total24h :: nat
  da_BackupSpark :: "rat list"
  da_Pending :: nat
  da_OldestAge :: string
  da_StatusByDriver :: "driverStatus list"
  da_DriftHotspots :: "driftHotspot list"
  da_RecentEvents :: "Entry list"
  da_PollersTotal :: nat
  da_PollersHealthy :: nat
  da_GitMirror :: string

record dash_env =
  dn_has :: "string \<Rightarrow> bool"
  dn_round :: "rat \<Rightarrow> rat"
  dn_drivers :: "driverStatus list \<Rightarrow> driverStatus list"
  dn_failing :: "(int \<times> nat) list \<Rightarrow> (int \<times> nat) list"

record dash_world =
  dw_backup :: backup_db
  dw_compliance :: compliance_db
  dw_changes :: change_db
  dw_pollers :: poller_db
  dw_gitops :: gitops_db

definition day_secs :: int where "day_secs = 86400"

definition percent :: "dash_env \<Rightarrow> nat \<Rightarrow> nat \<Rightarrow> rat" where
  "percent E part whole = (if whole > 0 then dn_round E (of_nat (part * 100) / of_nat whole) else 0)"

definition count_where :: "('a \<Rightarrow> bool) \<Rightarrow> 'a list \<Rightarrow> nat" where
  "count_where P xs = length (filter P xs)"

section \<open>Devices and compliance\<close>

definition failing :: "Finding \<Rightarrow> bool" where "failing f \<longleftrightarrow> fi_Status f = ''fail''"

definition fail_count :: "Finding list \<Rightarrow> int \<Rightarrow> nat" where
  "fail_count findings d = count_where (\<lambda>f. failing f \<and> fi_DeviceID f = d) findings"

definition driver_status :: "Device list \<Rightarrow> Finding list \<Rightarrow> string \<Rightarrow> driverStatus" where
  "driver_status devs findings drv =
     (let whole = count_where (\<lambda>d. d_Driver d = drv) devs;
          ok = count_where (\<lambda>d. d_Driver d = drv \<and> fail_count findings (d_ID d) = 0) devs
      in \<lparr>ds_Driver = drv, ds_Total = whole, ds_Compliant = ok, ds_Percent = (ok * 100) div whole\<rparr>)"

definition status_by_driver :: "dash_env \<Rightarrow> Device list \<Rightarrow> Finding list \<Rightarrow> driverStatus list" where
  "status_by_driver E devs findings = sort_key (\<lambda>s. - int (ds_Total s))
     (dn_drivers E (map (driver_status devs findings) (remdups (map d_Driver devs))))"

definition host_of :: "Device list \<Rightarrow> int \<Rightarrow> string" where
  "host_of devs i = (case find (\<lambda>d. d_ID d = i) (List.rev devs) of Some d \<Rightarrow> d_Hostname d | None \<Rightarrow> [])"

definition top_detail :: "Finding list \<Rightarrow> int \<Rightarrow> string" where
  "top_detail findings i = (case find (\<lambda>f. failing f \<and> fi_DeviceID f = i \<and> fi_Detail f \<noteq> []) findings of
     Some f \<Rightarrow> fi_Detail f | None \<Rightarrow> [])"

definition drift_hotspots :: "dash_env \<Rightarrow> Device list \<Rightarrow> Finding list \<Rightarrow> driftHotspot list" where
  "drift_hotspots E devs findings =
     map (\<lambda>(i, n). \<lparr>hs_DeviceID = i, hs_Hostname = host_of devs i, hs_Failing = n, hs_TopDetail = top_detail findings i\<rparr>)
       (take 5 (sort_key (\<lambda>x. - int (snd x)) (dn_failing E
          (map (\<lambda>i. (i, fail_count findings i)) (remdups (map fi_DeviceID (filter failing findings)))))))"

section \<open>The series\<close>

definition of_tenant :: "int \<Rightarrow> backup_db \<Rightarrow> int \<Rightarrow> bool" where
  "of_tenant t b i \<longleftrightarrow> list_ex (\<lambda>d. dv_id d = i \<and> dv_tenant d = t) (rows (devices b))"

definition tenant_runs :: "int \<Rightarrow> backup_db \<Rightarrow> backup_row list" where
  "tenant_runs t b = filter (\<lambda>r. of_tenant t b (br_device r)) (rows (backup_runs b))"

text \<open>\<open>sparkBackupSuccess\<close> in its two modes; the first 14 days end with the day of \<open>now\<close>.\<close>

definition spark_compliance :: "dash_env \<Rightarrow> int \<Rightarrow> dash_world \<Rightarrow> rat list \<times> dash_world" where
  "spark_compliance E t w = (case stmt (dw_compliance w) of (e, c) \<Rightarrow>
     (let fs = filter (\<lambda>f. of_tenant t (dw_backup w) (fr_device f)) (rows (compliance_findings c));
          pass = count_where (\<lambda>f. fr_status f = ''pass'') fs; failed = count_where (\<lambda>f. fr_status f = ''fail'') fs
      in (if e \<noteq> None \<or> pass + failed = 0 then replicate 14 0 else replicate 14 (percent E pass (pass + failed)),
          w\<lparr>dw_compliance := c\<rparr>)))"

definition succeeded :: "backup_row \<Rightarrow> bool" where "succeeded r \<longleftrightarrow> br_status r = ''success''"

definition day_rate :: "dash_env \<Rightarrow> backup_row list \<Rightarrow> int \<Rightarrow> rat" where
  "day_rate E rs d = (let xs = filter (\<lambda>r. br_started r div day_secs = d) rs in
     percent E (count_where succeeded xs) (length xs))"

definition spark_backups :: "dash_env \<Rightarrow> int \<Rightarrow> time \<Rightarrow> backup_db \<Rightarrow> rat list \<times> backup_db" where
  "spark_backups E t now b = (case stmt b of
     (Some e, b) \<Rightarrow> (replicate 14 0, b)
   | (None, b) \<Rightarrow>
       (let end_day = rfc3339 now div day_secs + 1; start = end_day - 14;
            rs = filter (\<lambda>r. start * day_secs \<le> br_started r \<and> br_started r < end_day * day_secs) (tenant_runs t b)
        in (map (\<lambda>i. day_rate E rs (start + int i)) [0..<14], b)))"

definition backups_24h :: "dash_env \<Rightarrow> int \<Rightarrow> time \<Rightarrow> backup_db \<Rightarrow> (nat \<times> rat) \<times> backup_db" where
  "backups_24h E t now b = (case stmt b of
     (Some e, b) \<Rightarrow> ((0, 0), b)
   | (None, b) \<Rightarrow> (let rs = filter (\<lambda>r. rfc3339 (now - 24 * hour) \<le> br_started r) (tenant_runs t b) in
       ((length rs, percent E (count_where succeeded rs) (length rs)), b)))"

definition humanAge :: "duration \<Rightarrow> string" where
  "humanAge d = (if d < 60 * second then ''<1m''
     else if d < hour then itoa (d div (60 * second)) @ ''m''
     else if d < 24 * hour then itoa (d div hour) @ ''h''
     else itoa (d div (24 * hour)) @ ''d'')"

section \<open>The handler\<close>

definition empty_summary :: dashboardSummary where
  "empty_summary = \<lparr>da_Devices = 0, da_AddedRecent = 0, da_Percent = 0, da_PassCount = 0, da_FailCount = 0,
     da_ComplianceSpark = replicate 14 0, da_SuccessRate24h = 0, da_Total24h = 0, da_BackupSpark = replicate 14 0,
     da_Pending = 0, da_OldestAge = [], da_StatusByDriver = [], da_DriftHotspots = [], da_RecentEvents = [],
     da_PollersTotal = 0, da_PollersHealthy = 0, da_GitMirror = []\<rparr>"

text \<open>\<open>if x, err := \<dots>; err == nil\<close>: the value, or the zero value.\<close>

definition or_none :: "('e + 'r list) \<times> 's \<Rightarrow> 'r list \<times> 's" where
  "or_none m = (case m of (Inl e, s) \<Rightarrow> ([], s) | (Inr xs, s) \<Rightarrow> (xs, s))"

definition dash_devices :: "dash_env \<Rightarrow> time \<Rightarrow> Device list \<Rightarrow> Finding list \<Rightarrow> dashboardSummary \<Rightarrow> dashboardSummary" where
  "dash_devices E now devs findings out = out\<lparr>da_Devices := length devs,
     da_AddedRecent := count_where (\<lambda>d. now - 7 * 24 * hour < d_CreatedAt d) devs,
     da_StatusByDriver := status_by_driver E devs findings\<rparr>"

definition dash_findings :: "dash_env \<Rightarrow> Device list \<Rightarrow> Finding list \<Rightarrow> dashboardSummary \<Rightarrow> dashboardSummary" where
  "dash_findings E devs findings out =
     (let pass = count_where (\<lambda>f. fi_Status f = ''pass'') findings; failed = count_where failing findings
      in out\<lparr>da_PassCount := pass, da_FailCount := failed, da_Percent := percent E pass (pass + failed),
           da_DriftHotspots := drift_hotspots E devs findings\<rparr>)"

definition dash_series ::
  "dash_env \<Rightarrow> time \<Rightarrow> int \<Rightarrow> dashboardSummary \<times> dash_world \<Rightarrow> dashboardSummary \<times> dash_world" where
  "dash_series E now t = (\<lambda>(out, w). if \<not> dn_has E ''DB'' then (out, w)
     else (case spark_compliance E t w of (cs, w) \<Rightarrow> (case spark_backups E t now (dw_backup w) of (bs, b) \<Rightarrow>
       (case backups_24h E t now b of ((n, rate), b) \<Rightarrow>
         (out\<lparr>da_ComplianceSpark := cs, da_BackupSpark := bs, da_Total24h := n, da_SuccessRate24h := rate\<rparr>,
          w\<lparr>dw_backup := b\<rparr>)))))"

definition dash_approvals ::
  "dash_env \<Rightarrow> time \<Rightarrow> int \<Rightarrow> dashboardSummary \<times> dash_world \<Rightarrow> dashboardSummary \<times> dash_world" where
  "dash_approvals E now t = (\<lambda>(out, w). if \<not> dn_has E ''ChangeReq'' then (out, w)
     else (case or_none (List_cr t StatusSubmitted 200 (dw_changes w)) of (crs, c) \<Rightarrow>
       (if crs = [] then out
        else out\<lparr>da_Pending := length crs, da_OldestAge := humanAge (now - Min (set (map cr_CreatedAt crs)))\<rparr>,
        w\<lparr>dw_changes := c\<rparr>)))"

definition dash_events :: "dash_env \<Rightarrow> int \<Rightarrow> dashboardSummary \<times> dash_world \<Rightarrow> dashboardSummary \<times> dash_world" where
  "dash_events E t = (\<lambda>(out, w). if \<not> dn_has E ''Audit'' then (out, w)
     else (case or_none (ListEntries \<lparr>f_TenantID = t, f_ActorUserID = 0, f_Action = [], f_Target = [], f_RequestID = [],
         f_Since = zero_time, f_Until = zero_time, f_Limit = 20, f_Offset = 0\<rparr> (dw_backup w)) of (es, b) \<Rightarrow>
       (out\<lparr>da_RecentEvents := es\<rparr>, w\<lparr>dw_backup := b\<rparr>)))"

definition dash_health ::
  "dash_env \<Rightarrow> time \<Rightarrow> int \<Rightarrow> dashboardSummary \<times> dash_world \<Rightarrow> dashboardSummary \<times> dash_world" where
  "dash_health E now t = (\<lambda>(out, w).
     let (out, w) = (if \<not> dn_has E ''Pollers'' then (out, w)
           else (case or_none (List_pollers t (dw_pollers w)) of (ps, p) \<Rightarrow>
             (out\<lparr>da_PollersTotal := length ps, da_PollersHealthy := count_where (\<lambda>p. case p_LastSeen p of
                 None \<Rightarrow> False | Some seen \<Rightarrow> now - 120 * second < seen) ps\<rparr>, w\<lparr>dw_pollers := p\<rparr>)))
     in if \<not> dn_has E ''GitOps'' then (out\<lparr>da_GitMirror := ''not_configured''\<rparr>, w)
        else (case GetMirror t (dw_gitops w) of
          (Inl e, g) \<Rightarrow> (out\<lparr>da_GitMirror := ''unknown''\<rparr>, w\<lparr>dw_gitops := g\<rparr>)
        | (Inr None, g) \<Rightarrow> (out\<lparr>da_GitMirror := ''not_configured''\<rparr>, w\<lparr>dw_gitops := g\<rparr>)
        | (Inr (Some m), g) \<Rightarrow> (out\<lparr>da_GitMirror := ''configured''\<rparr>, w\<lparr>dw_gitops := g\<rparr>)))"

definition handleDashboardSummary :: "dash_env \<Rightarrow> time \<Rightarrow> int \<Rightarrow> dash_world \<Rightarrow> dashboardSummary \<times> dash_world" where
  "handleDashboardSummary E now t w =
     (case (if dn_has E ''Devices'' then or_none (ListDevices t (dw_backup w)) else ([], dw_backup w)) of (devs, b) \<Rightarrow>
      (case (if dn_has E ''Compliance'' then or_none (ListFindings t (dw_compliance w)) else ([], dw_compliance w)) of (fs, c) \<Rightarrow>
       dash_health E now t (dash_events E t (dash_approvals E now t (dash_series E now t
         (dash_findings E devs fs (dash_devices E now devs fs empty_summary), w\<lparr>dw_backup := b, dw_compliance := c\<rparr>))))))"


section \<open>What the page shows\<close>

lemma sum_partition:
  "distinct xs \<Longrightarrow> f ` set ds \<subseteq> set xs \<Longrightarrow> (\<Sum>x\<leftarrow>xs. count_where (\<lambda>d. f d = x) ds) = length ds"
proof (induction ds)
  case Nil
  have "(\<Sum>x\<leftarrow>xs. 0 :: nat) = 0" by (induction xs) simp_all
  then show ?case by (simp add: count_where_def)
next
  case (Cons d ds)
  have e: "count_where (\<lambda>e. f e = x) (d # ds) = count_where (\<lambda>e. f e = x) ds + (if x = f d then 1 else 0)" for x
    by (simp add: count_where_def)
  have "(\<Sum>x\<leftarrow>xs. if x = f d then 1 else (0 :: nat)) = 1"
    using Cons.prems by (simp add: sum_list_distinct_conv_sum_set)
  then show ?case using Cons unfolding e sum_list_addf by simp
qed

lemma taken_largest:
  assumes "ys = sort_key (\<lambda>x. - int (k x)) xs" and "a \<in> set (take n ys)" and "b \<in> set xs" and "b \<notin> set (take n ys)"
  shows "k b \<le> k a"
proof -
  have "sorted (map (\<lambda>x. - int (k x)) (take n ys @ drop n ys))" using assms(1) by simp
  then have "\<forall>x \<in> set (take n ys). \<forall>y \<in> set (drop n ys). - int (k x) \<le> - int (k y)"
    unfolding map_append sorted_append by simp
  moreover have "b \<in> set (drop n ys)"
    using assms by (metis append_take_drop_id in_set_conv_decomp set_append set_sort Un_iff)
  ultimately show ?thesis using assms(2) by force
qed

definition fair_rounding :: "(rat \<Rightarrow> rat) \<Rightarrow> bool" where
  "fair_rounding rnd \<longleftrightarrow> mono rnd \<and> rnd 0 = 0 \<and> rnd 100 = 100"

lemma percent_bounds:
  assumes "fair_rounding (dn_round E)" and "part \<le> whole"
  shows "0 \<le> percent E part whole \<and> percent E part whole \<le> 100"
proof -
  have r: "mono (dn_round E)" "dn_round E 0 = 0" "dn_round E 100 = 100" using assms(1) by (simp_all add: fair_rounding_def)
  show ?thesis
  proof (cases "0 < whole")
    case True
    let ?q = "of_nat (part * 100) / of_nat whole :: rat"
    have "0 \<le> ?q" "?q \<le> 100" using assms(2) True by (simp_all add: divide_le_eq)
    then have "dn_round E 0 \<le> dn_round E ?q" "dn_round E ?q \<le> dn_round E 100" using r(1) by (simp_all add: monoD)
    with True r show ?thesis by (simp add: percent_def)
  qed (simp add: percent_def)
qed

lemma count_le [simp]: "count_where P xs \<le> length xs"
  by (simp add: count_where_def)

lemma count_mono: "(\<And>x. P x \<Longrightarrow> Q x) \<Longrightarrow> count_where P xs \<le> count_where Q xs"
  by (induction xs) (auto simp: count_where_def le_SucI)

lemma day_rate_bounds: "fair_rounding (dn_round E) \<Longrightarrow> 0 \<le> day_rate E rs d \<and> day_rate E rs d \<le> 100"
  by (simp add: day_rate_def Let_def percent_bounds)

text \<open>The drivers' entries partition the devices.\<close>

lemma drivers_partition:
  assumes "\<And>xs. mset (dn_drivers E xs) = mset xs" and "ss = status_by_driver E devs fs"
  shows "sum_list (map ds_Total ss) = length devs" and "distinct (map ds_Driver ss)"
    and "\<forall>s \<in> set ss. 0 < ds_Total s \<and> ds_Compliant s \<le> ds_Total s \<and> ds_Percent s \<le> 100"
    and "sorted (map (\<lambda>s. - int (ds_Total s)) ss)"
proof -
  let ?raw = "map (driver_status devs fs) (remdups (map d_Driver devs))"
  have m: "mset ss = mset ?raw" using assms by (simp add: status_by_driver_def)
  have "mset (map ds_Total ss) = mset (map ds_Total ?raw)" by (simp only: mset_map m)
  then have "sum_list (map ds_Total ss) = sum_list (map ds_Total ?raw)" by (metis sum_mset_sum_list)
  also have "\<dots> = (\<Sum>x\<leftarrow>remdups (map d_Driver devs). count_where (\<lambda>d. d_Driver d = x) devs)"
    by (simp add: driver_status_def o_def Let_def)
  also have "\<dots> = length devs" by (rule sum_partition) simp_all
  finally show "sum_list (map ds_Total ss) = length devs" .
  have "mset (map ds_Driver ss) = mset (map ds_Driver ?raw)" by (simp only: mset_map m)
  also have "map ds_Driver ?raw = remdups (map d_Driver devs)" by (simp add: driver_status_def o_def Let_def)
  finally show "distinct (map ds_Driver ss)" by (metis distinct_remdups mset_eq_imp_distinct_iff)
  show "\<forall>s \<in> set ss. 0 < ds_Total s \<and> ds_Compliant s \<le> ds_Total s \<and> ds_Percent s \<le> 100"
  proof
    fix s assume "s \<in> set ss"
    then have "s \<in> set ?raw" using mset_eq_setD [OF m] by simp
    then obtain d where d: "d \<in> set devs" "s = driver_status devs fs (d_Driver d)" by auto
    have "filter (\<lambda>x. d_Driver x = d_Driver d) devs \<noteq> []" using d(1) by (auto simp: filter_empty_conv)
    then have "0 < ds_Total s" by (simp add: d(2) driver_status_def Let_def count_where_def)
    moreover have le: "ds_Compliant s \<le> ds_Total s" unfolding d(2) driver_status_def Let_def driverStatus.simps by (rule count_mono) simp
    moreover have "ds_Percent s = ds_Compliant s * 100 div ds_Total s" by (simp add: d(2) driver_status_def Let_def)
    then have "ds_Percent s \<le> 100" using div_le_mono [of "ds_Compliant s * 100" "100 * ds_Total s" "ds_Total s"] le \<open>0 < ds_Total s\<close> by simp
    ultimately show "0 < ds_Total s \<and> ds_Compliant s \<le> ds_Total s \<and> ds_Percent s \<le> 100" by simp
  qed
  show "sorted (map (\<lambda>s. - int (ds_Total s)) ss)" by (simp add: assms(2) status_by_driver_def)
qed


lemma fail_count_pos: "d \<in> fi_DeviceID ` set (filter failing fs) \<longleftrightarrow> 0 < fail_count fs d"
  by (auto simp: fail_count_def count_where_def filter_empty_conv)

text \<open>The hotspots are the worst devices.\<close>

lemma hotspots_worst:
  assumes "\<And>xs. mset (dn_failing E xs) = mset xs" and "hs = drift_hotspots E devs fs"
  shows "length hs \<le> 5" and "distinct (map hs_DeviceID hs)" and "sorted (map (\<lambda>h. - int (hs_Failing h)) hs)"
    and "\<forall>h \<in> set hs. 0 < hs_Failing h \<and> hs_Failing h = fail_count fs (hs_DeviceID h)"
    and "\<forall>d. d \<notin> hs_DeviceID ` set hs \<longrightarrow> (\<forall>h \<in> set hs. fail_count fs d \<le> hs_Failing h) \<and> (length hs < 5 \<longrightarrow> fail_count fs d = 0)"
proof -
  let ?raw = "map (\<lambda>i. (i, fail_count fs i)) (remdups (map fi_DeviceID (filter failing fs)))"
  define ys where "ys = sort_key (\<lambda>x. - int (snd x)) (dn_failing E ?raw)"
  have hs: "hs = map (\<lambda>(i, n). \<lparr>hs_DeviceID = i, hs_Hostname = host_of devs i, hs_Failing = n, hs_TopDetail = top_detail fs i\<rparr>) (take 5 ys)"
    by (simp add: assms(2) drift_hotspots_def ys_def)
  have ids: "map hs_DeviceID hs = map fst (take 5 ys)" "map (\<lambda>h. - int (hs_Failing h)) hs = map (\<lambda>x. - int (snd x)) (take 5 ys)"
    by (simp_all add: hs o_def case_prod_beta)
  have m: "mset ys = mset ?raw" by (simp only: ys_def mset_sort assms(1))
  then have set: "set ys = set ?raw" by (rule mset_eq_setD)
  have "mset (map fst ys) = mset (map fst ?raw)" by (simp only: mset_map m)
  moreover have "map fst ?raw = remdups (map fi_DeviceID (filter failing fs))" by (simp add: o_def)
  ultimately have d: "distinct (map fst ys)" by (metis distinct_remdups mset_eq_imp_distinct_iff)
  show "length hs \<le> 5" by (simp add: hs)
  show "distinct (map hs_DeviceID hs)" unfolding ids take_map [symmetric] using d by (rule distinct_take)
  have "sorted (map (\<lambda>x. - int (snd x)) ys)" by (simp add: ys_def)
  then show "sorted (map (\<lambda>h. - int (hs_Failing h)) hs)" unfolding ids take_map [symmetric] by (rule sorted_wrt_take)
  have mem: "(i, n) \<in> set ys \<Longrightarrow> n = fail_count fs i \<and> 0 < n" for i n
    using fail_count_pos [of i fs] by (auto simp: set)
  show "\<forall>h \<in> set hs. 0 < hs_Failing h \<and> hs_Failing h = fail_count fs (hs_DeviceID h)"
    using mem by (auto simp: hs dest: in_set_takeD)
  show "\<forall>d. d \<notin> hs_DeviceID ` set hs \<longrightarrow> (\<forall>h \<in> set hs. fail_count fs d \<le> hs_Failing h) \<and> (length hs < 5 \<longrightarrow> fail_count fs d = 0)"
  proof (intro allI impI)
    fix d assume no: "d \<notin> hs_DeviceID ` set hs"
    then have nt: "(d, fail_count fs d) \<notin> set (take 5 ys)" by (auto simp: hs image_iff)
    show "(\<forall>h \<in> set hs. fail_count fs d \<le> hs_Failing h) \<and> (length hs < 5 \<longrightarrow> fail_count fs d = 0)"
    proof (cases "fail_count fs d = 0")
      case False
      then have "(d, fail_count fs d) \<in> set ?raw" using fail_count_pos [of d fs] by auto
      then have "(d, fail_count fs d) \<in> set (dn_failing E ?raw)" using assms(1) by (metis mset_eq_setD)
      then have "fail_count fs d \<le> snd a" if "a \<in> set (take 5 ys)" for a
        using taken_largest [OF ys_def that, of "(d, fail_count fs d)"] nt by simp
      moreover have "\<not> length hs < 5"
      proof
        assume "length hs < 5"
        then have "take 5 ys = ys" by (simp add: hs)
        then show False using nt \<open>(d, fail_count fs d) \<in> set ?raw\<close> set by simp
      qed
      ultimately show ?thesis by (auto simp: hs)
    qed simp
  qed
qed


text \<open>The page only reads: a statement leaves a table as it was.\<close>

definition read_only :: "dash_world \<Rightarrow> dash_world \<Rightarrow> bool" where
  "read_only w w' \<longleftrightarrow> (\<exists>f1 f2 f3 f4 f5. w' = \<lparr>dw_backup = (dw_backup w)\<lparr>faults := f1\<rparr>,
     dw_compliance = (dw_compliance w)\<lparr>faults := f2\<rparr>, dw_changes = (dw_changes w)\<lparr>faults := f3\<rparr>,
     dw_pollers = (dw_pollers w)\<lparr>faults := f4\<rparr>, dw_gitops = (dw_gitops w)\<lparr>faults := f5\<rparr>\<rparr>)"

lemma faults_same: "\<exists>fs. s = s\<lparr>faults := fs\<rparr>" for s :: "'a conn_scheme"
  by (rule exI [of _ "faults s"]) simp

lemma read_only_refl: "read_only w w"
proof -
  obtain f1 f2 f3 f4 f5 where "dw_backup w = (dw_backup w)\<lparr>faults := f1\<rparr>" "dw_compliance w = (dw_compliance w)\<lparr>faults := f2\<rparr>"
    "dw_changes w = (dw_changes w)\<lparr>faults := f3\<rparr>" "dw_pollers w = (dw_pollers w)\<lparr>faults := f4\<rparr>"
    "dw_gitops w = (dw_gitops w)\<lparr>faults := f5\<rparr>" using faults_same by metis
  then show ?thesis unfolding read_only_def
    by (intro exI [of _ f1] exI [of _ f2] exI [of _ f3] exI [of _ f4] exI [of _ f5]) (cases w, simp)
qed

lemma read_only_trans: "read_only w w1 \<Longrightarrow> read_only w1 w2 \<Longrightarrow> read_only w w2"
  unfolding read_only_def by (elim exE) auto

lemma read_only_view:
  "read_only w (w\<lparr>dw_backup := (dw_backup w)\<lparr>faults := fs\<rparr>\<rparr>)" "read_only w (w\<lparr>dw_compliance := (dw_compliance w)\<lparr>faults := fs\<rparr>\<rparr>)"
  "read_only w (w\<lparr>dw_changes := (dw_changes w)\<lparr>faults := fs\<rparr>\<rparr>)" "read_only w (w\<lparr>dw_pollers := (dw_pollers w)\<lparr>faults := fs\<rparr>\<rparr>)"
  "read_only w (w\<lparr>dw_gitops := (dw_gitops w)\<lparr>faults := fs\<rparr>\<rparr>)"
  using read_only_refl [of w] unfolding read_only_def by (elim exE, (intro exI), (cases w), auto)+

lemma or_none_post: "post (\<lambda>r s'. (\<exists>fs. s' = s\<lparr>faults := fs\<rparr>) \<and> (\<forall>xs. r = Inr xs \<longrightarrow> Q xs)) m \<Longrightarrow> Q [] \<Longrightarrow> or_none m = (xs, s') \<Longrightarrow>
   (\<exists>fs. s' = s\<lparr>faults := fs\<rparr>) \<and> Q xs" for s :: "'a conn_scheme"
  by (cases m; cases "fst m") (auto simp: or_none_def)

lemma reads:
  "post (\<lambda>r s'. (\<exists>fs. s' = b\<lparr>faults := fs\<rparr>) \<and> (\<forall>xs. r = Inr xs \<longrightarrow> True)) (ListDevices t b)"
  "post (\<lambda>r s'. (\<exists>fs. s' = c\<lparr>faults := fs\<rparr>) \<and> (\<forall>xs. r = Inr xs \<longrightarrow> True)) (ListFindings t c)"
  "post (\<lambda>r s'. (\<exists>fs. s' = cr\<lparr>faults := fs\<rparr>) \<and> (\<forall>xs. r = Inr xs \<longrightarrow> length xs \<le> 200)) (List_cr t StatusSubmitted 200 cr)"
  "post (\<lambda>r s'. (\<exists>fs. s' = p\<lparr>faults := fs\<rparr>) \<and> (\<forall>xs. r = Inr xs \<longrightarrow> True)) (List_pollers t p)"
  "f_Limit f = 20 \<Longrightarrow> post (\<lambda>r s'. (\<exists>fs. s' = b\<lparr>faults := fs\<rparr>) \<and> (\<forall>xs. r = Inr xs \<longrightarrow> length xs \<le> 20)) (ListEntries f b)"
  "post (\<lambda>r s'. \<exists>fs. s' = g\<lparr>faults := fs\<rparr>) (GetMirror t g)"
  for b :: backup_db
  unfolding ListDevices_def ListFindings_def List_cr_def List_pollers_def ListEntries_def GetMirror_def Let_def
  by (auto intro!: post_exec)


definition in_percent :: "rat \<Rightarrow> bool" where "in_percent x \<longleftrightarrow> 0 \<le> x \<and> x \<le> 100"

lemma percent_ok: "fair_rounding (dn_round E) \<Longrightarrow> part \<le> whole \<Longrightarrow> in_percent (percent E part whole)" "in_percent 0"
  by (simp_all add: in_percent_def percent_bounds)

definition spark_ok :: "rat list \<Rightarrow> bool" where "spark_ok xs \<longleftrightarrow> length xs = 14 \<and> (\<forall>x \<in> set xs. in_percent x)"

lemma stmt_read: "stmt s = (e, s') \<Longrightarrow> \<exists>fs. s' = s\<lparr>faults := fs\<rparr>"
  by (auto dest: stmt_truncate)

lemma series_ok:
  assumes "fair_rounding (dn_round E)" and "dash_series E now t (out, w) = (out', w')"
    and "spark_ok (da_ComplianceSpark out)" and "spark_ok (da_BackupSpark out)" and "in_percent (da_SuccessRate24h out)"
  shows "read_only w w' \<and> (\<exists>cs bs n rate. out' = out\<lparr>da_ComplianceSpark := cs, da_BackupSpark := bs, da_Total24h := n,
    da_SuccessRate24h := rate\<rparr> \<and> spark_ok cs \<and> spark_ok bs \<and> in_percent rate)"
proof (cases "dn_has E ''DB''")
  case False
  then have "out' = out" "w' = w" using assms(2) by (simp_all add: dash_series_def)
  moreover have "\<exists>cs bs n rate. out = out\<lparr>da_ComplianceSpark := cs, da_BackupSpark := bs, da_Total24h := n,
      da_SuccessRate24h := rate\<rparr> \<and> spark_ok cs \<and> spark_ok bs \<and> in_percent rate"
    by (rule exI [of _ "da_ComplianceSpark out"], rule exI [of _ "da_BackupSpark out"], rule exI [of _ "da_Total24h out"],
        rule exI [of _ "da_SuccessRate24h out"]) (simp add: assms)
  ultimately show ?thesis using read_only_refl by simp
next
  case True
  obtain cs w1 where c: "spark_compliance E t w = (cs, w1)" by fastforce
  obtain bs b1 where b: "spark_backups E t now (dw_backup w1) = (bs, b1)" by fastforce
  obtain n rate b2 where r: "backups_24h E t now b1 = ((n, rate), b2)" by (metis prod.exhaust)
  obtain e db where st: "stmt (dw_compliance w) = (e, db)" by fastforce
  have "read_only w w1" using c stmt_read [OF st] by (auto simp: spark_compliance_def st Let_def read_only_view)
  moreover have "spark_ok cs" using c percent_ok assms(1) by (auto simp: spark_compliance_def st Let_def spark_ok_def split: if_splits)
  moreover have "read_only w1 (w1\<lparr>dw_backup := b2\<rparr>)"
  proof -
    have "\<exists>fs. b1 = (dw_backup w1)\<lparr>faults := fs\<rparr>" using b stmt_read
      by (fastforce simp: spark_backups_def Let_def split: prod.splits option.splits)
    moreover have "\<exists>fs. b2 = b1\<lparr>faults := fs\<rparr>" using r stmt_read
      by (fastforce simp: backups_24h_def Let_def split: prod.splits option.splits)
    ultimately show ?thesis using read_only_view(1) [of w1] by auto
  qed
  moreover have "spark_ok bs" using b day_rate_bounds [OF assms(1)] percent_ok(2)
    by (auto simp: spark_backups_def Let_def spark_ok_def in_percent_def split: prod.splits option.splits)
  moreover have "in_percent rate" using r percent_ok assms(1)
    by (auto simp: backups_24h_def Let_def split: prod.splits option.splits)
  moreover have "out' = out\<lparr>da_ComplianceSpark := cs, da_BackupSpark := bs, da_Total24h := n, da_SuccessRate24h := rate\<rparr>"
    "w' = w1\<lparr>dw_backup := b2\<rparr>"
    using assms(2) True by (simp_all add: dash_series_def c b r)
  ultimately show ?thesis using read_only_trans [of w w1 w'] by blast
qed

lemma approvals_ok:
  assumes "dash_approvals E now t (out, w) = (out', w')" and "da_Pending out \<le> 200"
  shows "read_only w w' \<and> (\<exists>n age. out' = out\<lparr>da_Pending := n, da_OldestAge := age\<rparr> \<and> n \<le> 200)"
proof (cases "dn_has E ''ChangeReq''")
  case False
  with assms read_only_refl show ?thesis
    by (auto simp: dash_approvals_def intro!: exI [of _ "da_Pending out"] exI [of _ "da_OldestAge out"])
next
  case True
  obtain crs c where c: "or_none (List_cr t StatusSubmitted 200 (dw_changes w)) = (crs, c)" by fastforce
  from or_none_post [OF reads(3) _ this] have "\<exists>fs. c = (dw_changes w)\<lparr>faults := fs\<rparr>" "length crs \<le> 200" by simp_all
  moreover have "out' = (if crs = [] then out
      else out\<lparr>da_Pending := length crs, da_OldestAge := humanAge (now - Min (set (map cr_CreatedAt crs)))\<rparr>)"
    "w' = w\<lparr>dw_changes := c\<rparr>" using assms True by (auto simp: dash_approvals_def c)
  moreover have "\<exists>n age. out = out\<lparr>da_Pending := n, da_OldestAge := age\<rparr> \<and> n \<le> 200"
    by (rule exI [of _ "da_Pending out"], rule exI [of _ "da_OldestAge out"]) (simp add: assms)
  ultimately show ?thesis using read_only_view(3) [of w] by (auto split: if_splits)
qed

lemma events_ok:
  assumes "dash_events E t (out, w) = (out', w')" and "da_RecentEvents out = []"
  shows "read_only w w' \<and> (\<exists>es. out' = out\<lparr>da_RecentEvents := es\<rparr> \<and> length es \<le> 20)"
proof (cases "dn_has E ''Audit''")
  case False
  with assms read_only_refl show ?thesis by (auto simp: dash_events_def intro!: exI [of _ "[]"])
next
  case True
  let ?f = "\<lparr>f_TenantID = t, f_ActorUserID = 0, f_Action = [], f_Target = [], f_RequestID = [],
         f_Since = zero_time, f_Until = zero_time, f_Limit = 20, f_Offset = 0\<rparr>"
  obtain es b where c: "or_none (ListEntries ?f (dw_backup w)) = (es, b)" by fastforce
  from or_none_post [OF reads(5) _ this] have "\<exists>fs. b = (dw_backup w)\<lparr>faults := fs\<rparr>" "length es \<le> 20" by simp_all
  with assms True show ?thesis by (auto simp: dash_events_def c read_only_view)
qed

lemma health_ok:
  assumes "dash_health E now t (out, w) = (out', w')" and "da_PollersTotal out = 0" and "da_PollersHealthy out = 0"
  shows "read_only w w' \<and> (\<exists>n h g. out' = out\<lparr>da_PollersTotal := n, da_PollersHealthy := h, da_GitMirror := g\<rparr> \<and> h \<le> n)"
proof -
  obtain o1 w1 where p: "(if \<not> dn_has E ''Pollers'' then (out, w)
           else (case or_none (List_pollers t (dw_pollers w)) of (ps, p) \<Rightarrow>
             (out\<lparr>da_PollersTotal := length ps, da_PollersHealthy := count_where (\<lambda>p. case p_LastSeen p of
                 None \<Rightarrow> False | Some seen \<Rightarrow> now - 120 * second < seen) ps\<rparr>, w\<lparr>dw_pollers := p\<rparr>))) = (o1, w1)" by fastforce
  obtain ps q where l: "or_none (List_pollers t (dw_pollers w)) = (ps, q)" by fastforce
  have q: "\<exists>fs. q = (dw_pollers w)\<lparr>faults := fs\<rparr>" using or_none_post [OF reads(4) _ l] by simp
  have 1: "read_only w w1 \<and> (\<exists>n h. o1 = out\<lparr>da_PollersTotal := n, da_PollersHealthy := h\<rparr> \<and> h \<le> n)"
  proof (cases "dn_has E ''Pollers''")
    case False
    have "\<exists>n h. out = out\<lparr>da_PollersTotal := n, da_PollersHealthy := h\<rparr> \<and> h \<le> n"
      by (rule exI [of _ "da_PollersTotal out"], rule exI [of _ "da_PollersHealthy out"], rule conjI, simp, simp add: assms(2,3))
    with False p read_only_refl show ?thesis by simp
  next
    case True
    with p q l read_only_view(4) [of w] show ?thesis by (auto intro: count_le)
  qed
  obtain r g where g: "GetMirror t (dw_gitops w1) = (r, g)" by fastforce
  have "\<exists>fs. g = (dw_gitops w1)\<lparr>faults := fs\<rparr>" using postD [OF reads(6) g] .
  then have "read_only w1 w' \<and> (\<exists>s. out' = o1\<lparr>da_GitMirror := s\<rparr>)"
    using assms(1) p g read_only_refl [of w1] by (auto simp: dash_health_def Let_def read_only_view split: if_splits sum.splits option.splits)
  with 1 read_only_trans show ?thesis by fastforce
qed


text \<open>C38: The summary adds up, whatever statement fails, and the page changes no table. The drivers' entries
  partition the devices, largest first, with percentages to 100; passed and failed findings are counted
  once; the hotspots are at most five devices, distinct, the worst first and with no worse device left
  out; both series have fourteen values, and every percentage lies between 0 and 100; a reply holds at
  most 200 pending requests and 20 events.\<close>

theorem dashboard_adds_up:
  assumes "fair_rounding (dn_round E)" and "\<And>xs. mset (dn_drivers E xs) = mset xs" and "\<And>xs. mset (dn_failing E xs) = mset xs"
    and "handleDashboardSummary E now t w = (out, w')"
    and "devs = (if dn_has E ''Devices'' then fst (or_none (ListDevices t (dw_backup w))) else [])"
    and "fs = (if dn_has E ''Compliance'' then fst (or_none (ListFindings t (dw_compliance w))) else [])"
  shows "read_only w w' \<and>
    da_Devices out = length devs \<and> sum_list (map ds_Total (da_StatusByDriver out)) = length devs \<and>
    distinct (map ds_Driver (da_StatusByDriver out)) \<and> sorted (map (\<lambda>s. - int (ds_Total s)) (da_StatusByDriver out)) \<and>
    (\<forall>s \<in> set (da_StatusByDriver out). 0 < ds_Total s \<and> ds_Compliant s \<le> ds_Total s \<and> ds_Percent s \<le> 100) \<and>
    da_PassCount out = length (filter (\<lambda>f. fi_Status f = ''pass'') fs) \<and> da_FailCount out = length (filter failing fs) \<and>
    length (da_DriftHotspots out) \<le> 5 \<and> distinct (map hs_DeviceID (da_DriftHotspots out)) \<and>
    sorted (map (\<lambda>h. - int (hs_Failing h)) (da_DriftHotspots out)) \<and>
    (\<forall>h \<in> set (da_DriftHotspots out). 0 < hs_Failing h \<and> hs_Failing h = fail_count fs (hs_DeviceID h)) \<and>
    (\<forall>d. d \<notin> hs_DeviceID ` set (da_DriftHotspots out) \<longrightarrow>
       (\<forall>h \<in> set (da_DriftHotspots out). fail_count fs d \<le> hs_Failing h) \<and> (length (da_DriftHotspots out) < 5 \<longrightarrow> fail_count fs d = 0)) \<and>
    spark_ok (da_ComplianceSpark out) \<and> spark_ok (da_BackupSpark out) \<and> in_percent (da_Percent out) \<and>
    in_percent (da_SuccessRate24h out) \<and> da_Pending out \<le> 200 \<and> length (da_RecentEvents out) \<le> 20 \<and>
    da_PollersHealthy out \<le> da_PollersTotal out"
proof -
  obtain b where b: "(if dn_has E ''Devices'' then or_none (ListDevices t (dw_backup w)) else ([], dw_backup w)) = (devs, b)"
    using assms(5) by (metis prod.collapse fst_conv)
  obtain c where c: "(if dn_has E ''Compliance'' then or_none (ListFindings t (dw_compliance w)) else ([], dw_compliance w)) = (fs, c)"
    using assms(6) by (metis prod.collapse fst_conv)
  let ?w1 = "w\<lparr>dw_backup := b, dw_compliance := c\<rparr>"
  have rb: "read_only w (w\<lparr>dw_backup := b\<rparr>)"
    using b read_only_refl [of w] or_none_post [OF reads(1), of t "dw_backup w" devs b] read_only_view(1) [of w] by (auto split: if_splits)
  have "read_only (w\<lparr>dw_backup := b\<rparr>) ?w1"
    using c read_only_refl [of "w\<lparr>dw_backup := b\<rparr>"] or_none_post [OF reads(2), of t "dw_compliance w" fs c]
      read_only_view(2) [of "w\<lparr>dw_backup := b\<rparr>"] by (auto split: if_splits)
  with rb have r0: "read_only w ?w1" by (rule read_only_trans)
  let ?o = "dash_findings E devs fs (dash_devices E now devs fs empty_summary)"
  obtain o1 w1 where s1: "dash_series E now t (?o, ?w1) = (o1, w1)" by fastforce
  obtain o2 w2 where s2: "dash_approvals E now t (o1, w1) = (o2, w2)" by fastforce
  obtain o3 w3 where s3: "dash_events E t (o2, w2) = (o3, w3)" by fastforce
  have s4: "dash_health E now t (o3, w3) = (out, w')"
    using assms(4) by (simp add: handleDashboardSummary_def b c s1 s2 s3)
  have z: "spark_ok (replicate 14 0)" "in_percent 0" by (simp_all add: spark_ok_def percent_ok)
  have o: "da_ComplianceSpark ?o = replicate 14 0" "da_BackupSpark ?o = replicate 14 0" "da_SuccessRate24h ?o = 0" "da_Pending ?o = 0"
    "da_RecentEvents ?o = []" "da_PollersTotal ?o = 0" "da_PollersHealthy ?o = 0" "da_Devices ?o = length devs"
    "da_StatusByDriver ?o = status_by_driver E devs fs" "da_DriftHotspots ?o = drift_hotspots E devs fs"
    "da_PassCount ?o = length (filter (\<lambda>f. fi_Status f = ''pass'') fs)" "da_FailCount ?o = length (filter failing fs)"
    "da_Percent ?o = percent E (length (filter (\<lambda>f. fi_Status f = ''pass'') fs))
       (length (filter (\<lambda>f. fi_Status f = ''pass'') fs) + length (filter failing fs))"
    by (simp_all add: dash_findings_def dash_devices_def empty_summary_def Let_def count_where_def)
  obtain cs bs n rate where h1: "read_only ?w1 w1" "o1 = ?o\<lparr>da_ComplianceSpark := cs, da_BackupSpark := bs, da_Total24h := n,
      da_SuccessRate24h := rate\<rparr>" "spark_ok cs" "spark_ok bs" "in_percent rate"
    using series_ok [OF assms(1) s1] z o by auto
  obtain m age where h2: "read_only w1 w2" "o2 = o1\<lparr>da_Pending := m, da_OldestAge := age\<rparr>" "m \<le> 200"
    using approvals_ok [OF s2] o(4) h1(2) by auto
  obtain es where h3: "read_only w2 w3" "o3 = o2\<lparr>da_RecentEvents := es\<rparr>" "length es \<le> 20"
    using events_ok [OF s3] o(5) h1(2) h2(2) by auto
  obtain k h g where h4: "read_only w3 w'" "out = o3\<lparr>da_PollersTotal := k, da_PollersHealthy := h, da_GitMirror := g\<rparr>" "h \<le> k"
    using health_ok [OF s4] o(6,7) h1(2) h2(2) h3(2) by auto
  have ro: "read_only w w'" using r0 h1(1) h2(1) h3(1) h4(1) by (blast intro: read_only_trans)
  have pc: "in_percent (percent E (length (filter (\<lambda>f. fi_Status f = ''pass'') fs))
       (length (filter (\<lambda>f. fi_Status f = ''pass'') fs) + length (filter failing fs)))" by (rule percent_ok(1) [OF assms(1)]) simp
  have f: "da_Devices out = length devs" "da_StatusByDriver out = status_by_driver E devs fs"
    "da_DriftHotspots out = drift_hotspots E devs fs" "da_PassCount out = length (filter (\<lambda>f. fi_Status f = ''pass'') fs)"
    "da_FailCount out = length (filter failing fs)" "da_Percent out = percent E (length (filter (\<lambda>f. fi_Status f = ''pass'') fs))
       (length (filter (\<lambda>f. fi_Status f = ''pass'') fs) + length (filter failing fs))"
    "da_ComplianceSpark out = cs" "da_BackupSpark out = bs" "da_SuccessRate24h out = rate" "da_Pending out = m"
    "da_RecentEvents out = es" "da_PollersTotal out = k" "da_PollersHealthy out = h"
    by (simp_all add: h4(2) h3(2) h2(2) h1(2) o)
  show ?thesis unfolding f
    by (intro conjI ro pc refl drivers_partition [OF assms(2) refl] hotspots_worst [OF assms(3) refl] h1(3-5) h2(3) h3(3) h4(3))
qed


definition demo_dash_env :: dash_env where
  "demo_dash_env = \<lparr>dn_has = (\<lambda>x. True), dn_round = (\<lambda>x. x), dn_drivers = List.rev, dn_failing = List.rev\<rparr>"

definition demo_dash_world :: dash_world where
  "demo_dash_world = \<lparr>dw_backup = \<lparr>faults = [], last_rowid = 0, audit_log = empty_table, device_groups = empty_table,
       devices = \<lparr>rows = map (\<lambda>i. \<lparr>dv_id = i, dv_tenant = 1, dv_hostname = itoa i, dv_address = ''a'', dv_port = 22,
         dv_driver = ''cisco_ios'', dv_group = None, dv_credential = None, dv_created = 0\<rparr>) [1, 2], rowseq = 2\<rparr>,
       credentials = empty_table, backup_runs = empty_table, config_versions = empty_table\<rparr>,
     dw_compliance = \<lparr>faults = [], last_rowid = 0, compliance_rules = empty_table,
       compliance_findings = \<lparr>rows = [\<lparr>fr_id = 1, fr_tenant = 1, fr_device = 2, fr_rule = 1, fr_status = ''fail'',
         fr_detail = ''no banner'', fr_created_at = 0\<rparr>], rowseq = 1\<rparr>, compliance_devices = [], notified = []\<rparr>,
     dw_changes = \<lparr>faults = [Some ''locked''], last_rowid = 0, change_requests = empty_table, change_events = empty_table\<rparr>,
     dw_pollers = \<lparr>faults = [], last_rowid = 0, poller_jobs = empty_table, pollers = empty_table\<rparr>,
     dw_gitops = \<lparr>faults = [], last_rowid = 0, gitops_mirrors = []\<rparr>\<rparr>"

theorem dashboard_adds_up_witness:
  "\<exists>out w'. handleDashboardSummary demo_dash_env 0 1 demo_dash_world = (out, w') \<and>
     sum_list (map ds_Total (da_StatusByDriver out)) = 2 \<and> da_FailCount out = 1"
proof -
  obtain out w' where h: "handleDashboardSummary demo_dash_env 0 1 demo_dash_world = (out, w')" by fastforce
  have f: "fair_rounding (dn_round demo_dash_env)" "\<And>xs. mset (dn_drivers demo_dash_env xs) = mset xs"
    "\<And>xs. mset (dn_failing demo_dash_env xs) = mset xs"
    by (simp_all add: demo_dash_env_def fair_rounding_def mono_def)
  note t = dashboard_adds_up [OF f h refl refl]
  have "length (fst (or_none (ListDevices 1 (dw_backup demo_dash_world)))) = 2"
    "length (filter failing (fst (or_none (ListFindings 1 (dw_compliance demo_dash_world))))) = 1" by code_simp+
  with t h show ?thesis by (simp add: demo_dash_env_def)
qed

end
