(* ===== verification/SshDial.thy ===== *)
theory SshDial
  imports Dial
begin

text \<open>
  The life of an SSH connection (\<open>DialSSH\<close>, \<open>DialSSHExec\<close> and \<open>DialSSHShell\<close> of
  \<open>internal/transport/ssh.go\<close>): dialling, the host-key check against the SQLite store, the password,
  the session with its terminal and shell, and what is closed when a step fails. Of the SSH library is
  used what it documents: the key callback runs in the handshake and its error ends it before any
  authentication; a client owns its connection. What the peer does is a parameter, the trace is what
  the code does, and an error is its own text with the cause.
\<close>

section \<open>The steps\<close>

record ssh_peer =
  pe_tcp :: "string option"
  pe_algo :: string
  pe_key :: string
  pe_between :: "(time \<times> kh_id \<times> string) list"
  pe_key_error :: "kh_err \<Rightarrow> string"
  pe_given :: "nat \<Rightarrow> string \<Rightarrow> string option"
  pe_auth :: "string \<Rightarrow> string \<Rightarrow> string option"
  pe_session :: "string option"
  pe_stdin :: "string option"
  pe_stdout :: "string option"
  pe_pty :: "string option"
  pe_shell :: "string option"

datatype ssh_op =
  DialTCP string duration | SendPassword string string | OpenSession | RequestPty string nat nat | StartShell | ReadPrompt
| CloseConn | CloseSession | CloseClient

text \<open>The dial's view of the key check: the name it is called with is the address dialled.\<close>

definition key_dial :: "time \<Rightarrow> SSHConfig \<Rightarrow> string \<Rightarrow> int \<Rightarrow> ssh_peer \<Rightarrow> dial" where
  "key_dial now cfg addr port P = \<lparr>d_tenant = sc_TenantID cfg, d_port = port, d_hostname = addr, d_algo = pe_algo P,
     d_raw = pe_key P, d_now = now, d_between = pe_between P\<rparr>"

definition check_key ::
  "(string \<Rightarrow> int option) \<Rightarrow> time \<Rightarrow> SSHConfig \<Rightarrow> string \<Rightarrow> host_keys \<Rightarrow> ssh_peer \<Rightarrow> kh_db \<Rightarrow> string option \<times> kh_db" where
  "check_key lp now cfg addr hk P db = (case hk of
     Given f \<Rightarrow> (pe_given P f (pe_key P), db)
   | Pinned None port \<Rightarrow> (case knownHostsCallback Mem_Check Mem_Add lp ((key_dial now cfg addr port P)\<lparr>d_between := []\<rparr>) Map.empty of
       (Inl e, m) \<Rightarrow> (Some (pe_key_error P e), db) | (Inr _, m) \<Rightarrow> (None, db))
   | Pinned (Some n) port \<Rightarrow> (case knownHostsCallback DB_Check DB_Add lp (key_dial now cfg addr port P) db of
       (Inl e, db) \<Rightarrow> (Some (pe_key_error P e), db) | (Inr _, db) \<Rightarrow> (None, db)))"

text \<open>Up to \<open>ssh.NewClient\<close>, which the three share.\<close>

definition dial_client ::
  "(string \<Rightarrow> int option) \<Rightarrow> time \<Rightarrow> SSHConfig \<Rightarrow> ssh_peer \<Rightarrow> kh_db \<Rightarrow> (string + unit) \<times> ssh_op list \<times> kh_db" where
  "dial_client lp now cfg P db = (case ssh_dial lp cfg of
     Inl e \<Rightarrow> (Inl e, [], db)
   | Inr (addr, timeout, hk) \<Rightarrow> (case pe_tcp P of
       Some e \<Rightarrow> (Inl (''transport/ssh: dial: '' @ e), [], db)
     | None \<Rightarrow> (case check_key lp now cfg addr hk P db of
         (Some e, db) \<Rightarrow> (Inl (''transport/ssh: handshake: '' @ e), [DialTCP addr timeout, CloseConn], db)
       | (None, db) \<Rightarrow>
           (let sent = [DialTCP addr timeout, SendPassword (sc_Username cfg) (sc_Password cfg)]
            in case pe_auth P (sc_Username cfg) (sc_Password cfg) of
                 Some e \<Rightarrow> (Inl (''transport/ssh: handshake: '' @ e), sent @ [CloseConn], db)
               | None \<Rightarrow> (Inr (), sent, db)))))"

text \<open>A session on a client and its two pipes.\<close>

definition open_pipes :: "ssh_peer \<Rightarrow> (string + unit) \<times> ssh_op list" where
  "open_pipes P = (case pe_session P of
     Some e \<Rightarrow> (Inl (''transport/ssh: session: '' @ e), [CloseClient])
   | None \<Rightarrow> (case pe_stdin P of
       Some e \<Rightarrow> (Inl e, [OpenSession, CloseSession, CloseClient])
     | None \<Rightarrow> (case pe_stdout P of
         Some e \<Rightarrow> (Inl e, [OpenSession, CloseSession, CloseClient])
       | None \<Rightarrow> (Inr (), [OpenSession]))))"

definition start_shell :: "ssh_peer \<Rightarrow> (string + unit) \<times> ssh_op list" where
  "start_shell P = (case pe_shell P of
     Some e \<Rightarrow> (Inl (''transport/ssh: shell: '' @ e), [CloseSession, CloseClient])
   | None \<Rightarrow> (Inr (), [StartShell]))"

definition after :: "('e + unit) \<times> 'o list \<Rightarrow> ('e + 'r) \<times> 'o list \<Rightarrow> ('e + 'r) \<times> 'o list" where
  "after m k = (case m of (Inl e, ops) \<Rightarrow> (Inl e, ops) | (Inr _, ops) \<Rightarrow> (fst k, ops @ snd k))"

definition on_client ::
  "(string + unit) \<times> ssh_op list \<times> kh_db \<Rightarrow> (string + unit) \<times> ssh_op list \<Rightarrow> (string + unit) \<times> ssh_op list \<times> kh_db" where
  "on_client c k = (case c of (r, ops, db) \<Rightarrow> (case after (r, ops) k of (r, ops) \<Rightarrow> (r, ops, db)))"

text \<open>\<open>DialSSH\<close> asks for a terminal without echo, whatever the answer, and reads the first prompt.\<close>

definition DialSSH ::
  "(string \<Rightarrow> int option) \<Rightarrow> time \<Rightarrow> SSHConfig \<Rightarrow> ssh_peer \<Rightarrow> kh_db \<Rightarrow> (string + unit) \<times> ssh_op list \<times> kh_db" where
  "DialSSH lp now cfg P db = on_client (dial_client lp now cfg P db)
     (after (open_pipes P) (after (Inr (), [RequestPty ''vt100'' 80 200]) (after (start_shell P) (Inr (), [ReadPrompt]))))"

definition DialSSHExec ::
  "(string \<Rightarrow> int option) \<Rightarrow> time \<Rightarrow> SSHConfig \<Rightarrow> ssh_peer \<Rightarrow> kh_db \<Rightarrow> (string + unit) \<times> ssh_op list \<times> kh_db" where
  "DialSSHExec lp now cfg P db = dial_client lp now cfg P db"

definition DialSSHShell ::
  "(string \<Rightarrow> int option) \<Rightarrow> time \<Rightarrow> SSHConfig \<Rightarrow> ssh_peer \<Rightarrow> kh_db \<Rightarrow> (string + unit) \<times> ssh_op list \<times> kh_db" where
  "DialSSHShell lp now cfg P db = on_client (dial_client lp now cfg P db)
     (after (open_pipes P) (after (case pe_pty P of
        Some e \<Rightarrow> (Inl (''transport/ssh: pty: '' @ e), [RequestPty ''xterm'' 40 120, CloseSession, CloseClient])
      | None \<Rightarrow> (Inr (), [RequestPty ''xterm'' 40 120])) (start_shell P)))"

text \<open>The closers: of \<open>DialSSH\<close> and of a \<open>shellChannel\<close>, and the client's own.\<close>

definition close_ops :: "bool \<Rightarrow> ssh_op list" where
  "close_ops session = (if session then [CloseSession, CloseClient] else [CloseClient])"

section \<open>Nothing is leaked\<close>

text \<open>What is open after a trace: connections (closed by themselves or by their client) and sessions.\<close>

definition opened :: "ssh_op list \<Rightarrow> int \<times> int" where
  "opened ops = (int (length (filter (\<lambda>x. case x of DialTCP a t \<Rightarrow> True | _ \<Rightarrow> False) ops)) -
       int (length (filter (\<lambda>x. x = CloseConn \<or> x = CloseClient) ops)),
     int (length (filter (\<lambda>x. x = OpenSession) ops)) - int (length (filter (\<lambda>x. x = CloseSession) ops)))"

lemma opened_append: "opened (xs @ ys) = (fst (opened xs) + fst (opened ys), snd (opened xs) + snd (opened ys))"
  by (simp add: opened_def)

lemma opened_simps [simp]:
  "opened [] = (0, 0)" "opened (DialTCP a t # xs) = (1 + fst (opened xs), snd (opened xs))"
  "opened (SendPassword u p # xs) = opened xs" "opened (OpenSession # xs) = (fst (opened xs), 1 + snd (opened xs))"
  "opened (RequestPty s m n # xs) = opened xs" "opened (StartShell # xs) = opened xs" "opened (ReadPrompt # xs) = opened xs"
  "opened (CloseConn # xs) = (fst (opened xs) - 1, snd (opened xs))"
  "opened (CloseSession # xs) = (fst (opened xs), snd (opened xs) - 1)"
  "opened (CloseClient # xs) = (fst (opened xs) - 1, snd (opened xs))"
  by (simp_all add: opened_def)

lemma dial_client_opened:
  "dial_client lp now cfg P db = (r, ops, db') \<Longrightarrow> opened ops = (case r of Inl e \<Rightarrow> (0, 0) | Inr _ \<Rightarrow> (1, 0))"
  by (auto simp: dial_client_def Let_def split: sum.splits option.splits prod.splits)

lemma open_pipes_opened:
  "open_pipes P = (r, ops) \<Longrightarrow> opened ops = (case r of Inl e \<Rightarrow> (- 1, 0) | Inr _ \<Rightarrow> (0, 1))"
  by (auto simp: open_pipes_def split: option.splits)

lemma start_shell_opened:
  "start_shell P = (r, ops) \<Longrightarrow> opened ops = (case r of Inl e \<Rightarrow> (- 1, - 1) | Inr _ \<Rightarrow> (0, 0))"
  by (auto simp: start_shell_def split: option.splits)

section \<open>Who the password is sent to\<close>

definition peer_id :: "(string \<Rightarrow> int option) \<Rightarrow> SSHConfig \<Rightarrow> ssh_peer \<Rightarrow> kh_id" where
  "peer_id lp cfg P = (let addr = dial_addr 22 (sc_Address cfg) (sc_Port cfg);
       port = (case resolveHostKeyCallback lp cfg of Pinned n p \<Rightarrow> p | Given f \<Rightarrow> 0);
       (host, port) = dial_target lp port addr
     in (sc_TenantID cfg, host, port, pe_algo P))"

lemma password_needs_key:
  assumes "dial_client lp now cfg P db = (r, ops, db')" and "sc_HostKeyCallback cfg = None" and "sc_KnownHosts cfg = Some n"
    and "SendPassword u p \<in> set ops"
  shows "u = sc_Username cfg \<and> p = sc_Password cfg \<and> db_pin db' (peer_id lp cfg P) = Some (base64 (pe_key P)) \<and>
    (\<forall>k. db_pin db (peer_id lp cfg P) = Some k \<longrightarrow> k = base64 (pe_key P))"
proof -
  obtain addr timeout hk where d: "ssh_dial lp cfg = Inr (addr, timeout, hk)" "pe_tcp P = None"
    using assms(1,4) by (cases "ssh_dial lp cfg"; cases "pe_tcp P") (auto simp: dial_client_def)
  then have hk: "addr = dial_addr 22 (sc_Address cfg) (sc_Port cfg)" "hk = resolveHostKeyCallback lp cfg"
    by (auto simp: ssh_dial_def split: if_splits)
  then obtain port where port: "hk = Pinned (Some n) port" using assms(2,3) by (auto simp: resolveHostKeyCallback_def Let_def)
  obtain e db1 where c: "check_key lp now cfg addr hk P db = (e, db1)" by fastforce
  have e: "e = None" using assms(1,4) d c by (auto simp: dial_client_def split: option.splits)
  have ops: "db' = db1" "u = sc_Username cfg" "p = sc_Password cfg"
    using assms(1,4) d c e by (auto simp: dial_client_def Let_def split: option.splits)
  have id: "dial_id lp (key_dial now cfg addr port P) = peer_id lp cfg P"
    by (simp add: dial_id_def key_dial_def peer_id_def hk(1) hk(2) [symmetric] port Let_def)
  have k: "knownHostsCallback DB_Check DB_Add lp (key_dial now cfg addr port P) db = (Inr (), db1)"
    using c e port by (auto simp: check_key_def split: prod.splits sum.splits)
  have "db_pin db1 (peer_id lp cfg P) = Some (base64 (pe_key P))"
    using db_kh.accepted_pinned [OF k] id by (simp add: key_dial_def)
  moreover have "x = base64 (pe_key P)" if "db_pin db (peer_id lp cfg P) = Some x" for x
    using db_kh.callback_keeps [of db "peer_id lp cfg P" x lp "key_dial now cfg addr port P"] that k calculation by simp
  ultimately show ?thesis using ops by blast
qed

lemma password_as_given:
  assumes "dial_client lp now cfg P db = (r, ops, db')" and "SendPassword u p \<in> set ops"
  shows "u = sc_Username cfg \<and> p = sc_Password cfg \<and>
    (\<forall>f. sc_HostKeyCallback cfg = Some f \<longrightarrow> pe_given P f (pe_key P) = None)"
  using assms
  by (auto simp: dial_client_def Let_def ssh_dial_def resolveHostKeyCallback_def check_key_def
      split: sum.splits option.splits prod.splits if_splits)

lemma on_client_password:
  "on_client (r, ops, db) k = (r', ops', db') \<Longrightarrow> SendPassword u p \<notin> set (snd k) \<Longrightarrow>
     db' = db \<and> (SendPassword u p \<in> set ops' \<longrightarrow> SendPassword u p \<in> set ops)"
  by (cases r) (auto simp: on_client_def after_def)

lemma on_client_opened:
  assumes "dial_client lp now cfg P db = c" and "\<And>r ops. k = (r, ops) \<Longrightarrow> opened ops = (case r of Inl e \<Rightarrow> (- 1, 0) | Inr _ \<Rightarrow> (0, 1))"
    and "on_client c k = (r, ops, db')"
  shows "opened ops = (case r of Inl e \<Rightarrow> (0, 0) | Inr _ \<Rightarrow> (1, 1))"
proof -
  obtain r1 ops1 db1 where c: "c = (r1, ops1, db1)" by (cases c)
  obtain r2 ops2 where k: "k = (r2, ops2)" by (cases k)
  show ?thesis using assms(2) [OF k] dial_client_opened [of lp now cfg P db r1 ops1 db1] assms(1,3) c k
    by (auto simp: on_client_def after_def opened_append split: sum.splits)
qed

lemma after_opened:
  assumes "opened (snd m) = (case fst m of Inl e \<Rightarrow> x | Inr _ \<Rightarrow> (a, b))"
    and "opened (snd k) = (case fst k of Inl e \<Rightarrow> (c, d) | Inr _ \<Rightarrow> y)"
    and "x = (a + c, b + d)" and "z = (a + fst y, b + snd y)"
  shows "opened (snd (after m k)) = (case fst (after m k) of Inl e \<Rightarrow> x | Inr _ \<Rightarrow> z)"
proof (cases "fst m")
  case (Inl e)
  then have "after m k = (Inl e, snd m)" by (simp add: after_def split_beta)
  then show ?thesis using assms(1) Inl by simp
next
  case (Inr u)
  then have "after m k = (fst k, snd m @ snd k)" by (simp add: after_def split_beta)
  then show ?thesis using assms Inr by (cases "fst k") (simp_all add: opened_append)
qed

lemma shell_ops:
  assumes "opened e = (0, 0)" and "opened (snd m) = (case fst m of Inl x \<Rightarrow> (- 1, - 1) | Inr _ \<Rightarrow> (0, 0))"
  shows "opened (snd (after (open_pipes P) (after m (after (start_shell P) (Inr x, e))))) =
    (case fst (after (open_pipes P) (after m (after (start_shell P) (Inr x, e)))) of Inl e \<Rightarrow> (- 1, 0) | Inr _ \<Rightarrow> (0, 1))"
proof -
  have s: "opened (snd (start_shell P)) = (case fst (start_shell P) of Inl e \<Rightarrow> (- 1, - 1) | Inr _ \<Rightarrow> (0, 0))"
    by (rule start_shell_opened) simp
  have o: "opened (snd (open_pipes P)) = (case fst (open_pipes P) of Inl e \<Rightarrow> (- 1, 0) | Inr _ \<Rightarrow> (0, 1))"
    by (rule open_pipes_opened) simp
  have e: "opened (snd (Inr x :: string + 'r, e)) =
      (case fst (Inr x :: string + 'r, e) of Inl e \<Rightarrow> (- 1, - 1) | Inr _ \<Rightarrow> (0, 0))" for x :: 'r
    using assms(1) by simp
  show ?thesis
    by (rule after_opened [OF o after_opened [OF assms(2) after_opened [OF s e],
      where z = "(0, 0)"]]) simp_all
qed

lemma after_done: "after m (Inr (), []) = m" for m :: "(string + unit) \<times> ssh_op list"
  by (cases m) (auto simp: after_def split: sum.splits)

lemma no_password_later:
  "SendPassword u p \<notin> set (snd (open_pipes P))" "SendPassword u p \<notin> set (snd (start_shell P))"
  by (auto simp: open_pipes_def start_shell_def split: option.splits)

lemma after_ops: "x \<in> set (snd (after m k)) \<Longrightarrow> x \<in> set (snd m) \<or> x \<in> set (snd k)"
  by (auto simp: after_def split: sum.splits prod.splits)

lemma dialers_on_client:
  assumes "(s, r, ops, db') \<in> {(True, DialSSH lp now cfg P db), (False, DialSSHExec lp now cfg P db),
      (True, DialSSHShell lp now cfg P db)}"
  obtains (exec) "\<not> s" "dial_client lp now cfg P db = (r, ops, db')"
  | (shell) k where s "on_client (dial_client lp now cfg P db) k = (r, ops, db')"
      "\<And>r ops. k = (r, ops) \<Longrightarrow> opened ops = (case r of Inl e \<Rightarrow> (- 1, 0) | Inr _ \<Rightarrow> (0, 1))"
      "\<And>u p. SendPassword u p \<notin> set (snd k)"
proof -
  let ?m1 = "(Inr (), [RequestPty ''vt100'' 80 200]) :: (string + unit) \<times> ssh_op list"
  let ?m2 = "(case pe_pty P of
        Some e \<Rightarrow> (Inl (''transport/ssh: pty: '' @ e), [RequestPty ''xterm'' 40 120, CloseSession, CloseClient])
      | None \<Rightarrow> (Inr (), [RequestPty ''xterm'' 40 120])) :: (string + unit) \<times> ssh_op list"
  let ?k1 = "after (open_pipes P) (after ?m1 (after (start_shell P) (Inr (), [ReadPrompt])))"
  let ?k2 = "after (open_pipes P) (after ?m2 (start_shell P))"
  have o1: "opened ops = (case r of Inl e \<Rightarrow> (- 1, 0) | Inr _ \<Rightarrow> (0, 1))" if "?k1 = (r, ops)" for r ops
    using shell_ops [of "[ReadPrompt]" ?m1 P "()"] that by simp
  have m2: "opened (snd ?m2) = (case fst ?m2 of Inl x \<Rightarrow> (- 1, - 1) | Inr _ \<Rightarrow> (0, 0))"
    by (cases "pe_pty P") simp_all
  have o2: "opened ops = (case r of Inl e \<Rightarrow> (- 1, 0) | Inr _ \<Rightarrow> (0, 1))" if "?k2 = (r, ops)" for r ops
    using shell_ops [of "[]" ?m2 P "()"] that m2 by (simp add: after_done)
  have p1: "SendPassword u p \<notin> set (snd ?k1)" for u p
    using no_password_later by (auto dest!: after_ops)
  have p2: "SendPassword u p \<notin> set (snd ?k2)" for u p
    using no_password_later by (auto dest!: after_ops split: option.splits)
  consider "\<not> s" "dial_client lp now cfg P db = (r, ops, db')"
    | s "on_client (dial_client lp now cfg P db) ?k1 = (r, ops, db')"
    | s "on_client (dial_client lp now cfg P db) ?k2 = (r, ops, db')"
    using assms by (auto simp: DialSSH_def DialSSHExec_def DialSSHShell_def)
  then show thesis
  proof cases
    case 1 then show ?thesis by (rule exec)
  next
    case 2 then show ?thesis using o1 p1 by (rule shell)
  next
    case 3 then show ?thesis using o2 p2 by (rule shell)
  qed
qed

lemma dial_balanced:
  assumes "(s, r, ops, db') \<in> {(True, DialSSH lp now cfg P db), (False, DialSSHExec lp now cfg P db),
      (True, DialSSHShell lp now cfg P db)}"
  shows "opened ops = (case r of Inl e \<Rightarrow> (0, 0) | Inr _ \<Rightarrow> (1, if s then 1 else 0))"
  using assms
proof (cases rule: dialers_on_client)
  case exec
  then show ?thesis using dial_client_opened [OF exec(2)] by simp
next
  case (shell k)
  then show ?thesis using on_client_opened [OF refl shell(3,2)] by simp
qed

lemma dial_password:
  assumes "(s, r, ops, db') \<in> {(True, DialSSH lp now cfg P db), (False, DialSSHExec lp now cfg P db),
      (True, DialSSHShell lp now cfg P db)}"
    and "SendPassword u p \<in> set ops"
  shows "\<exists>r1 ops1. dial_client lp now cfg P db = (r1, ops1, db') \<and> SendPassword u p \<in> set ops1"
  using assms(1)
proof (cases rule: dialers_on_client)
  case exec
  then show ?thesis using assms(2) by blast
next
  case (shell k)
  obtain r1 ops1 db1 where c: "dial_client lp now cfg P db = (r1, ops1, db1)" by (cases "dial_client lp now cfg P db")
  have "db' = db1" "SendPassword u p \<in> set ops1"
    using on_client_password [of r1 ops1 db1 k r ops db' u p] shell(2,4) c assms(2) by simp_all
  then show ?thesis using c by blast
qed

lemma dial_pinned:
  assumes "(s, r, ops, db') \<in> {(True, DialSSH lp now cfg P db), (False, DialSSHExec lp now cfg P db),
      (True, DialSSHShell lp now cfg P db)}"
    and "sc_HostKeyCallback cfg = None" and "sc_KnownHosts cfg = Some n" and "SendPassword u p \<in> set ops"
  shows "u = sc_Username cfg \<and> p = sc_Password cfg \<and> db_pin db' (peer_id lp cfg P) = Some (base64 (pe_key P)) \<and>
    (\<forall>k. db_pin db (peer_id lp cfg P) = Some k \<longrightarrow> k = base64 (pe_key P))"
  using dial_password [OF assms(1,4)] password_needs_key [OF _ assms(2,3)] by blast

text \<open>C35: Whichever of the three dials runs, however the host key is checked and whichever step fails,
  nothing is left open: a failed dial has closed its connection and its session, a successful one holds exactly
  the connection and the session its closer closes. The user and the password are sent only as the caller gave
  them; with a key callback only after it accepted the peer's key, and with host keys pinned in the database only
  after the peer showed the key pinned for that tenant, host, port and algorithm - the key pinned before, if
  there was one.\<close>
theorem ssh_dial_safe:
  assumes "(s, r, ops, db') \<in> {(True, DialSSH lp now cfg P db), (False, DialSSHExec lp now cfg P db),
      (True, DialSSHShell lp now cfg P db)}"
  shows "(case r of Inl e \<Rightarrow> opened ops = (0, 0)
          | Inr _ \<Rightarrow> opened ops = (1, if s then 1 else 0) \<and> opened (ops @ close_ops s) = (0, 0)) \<and>
    (\<forall>u p. SendPassword u p \<in> set ops \<longrightarrow> u = sc_Username cfg \<and> p = sc_Password cfg \<and>
       (case (sc_HostKeyCallback cfg, sc_KnownHosts cfg) of
          (Some f, _) \<Rightarrow> pe_given P f (pe_key P) = None
        | (None, Some n) \<Rightarrow> db_pin db' (peer_id lp cfg P) = Some (base64 (pe_key P)) \<and>
            (\<forall>k. db_pin db (peer_id lp cfg P) = Some k \<longrightarrow> k = base64 (pe_key P))
        | (None, None) \<Rightarrow> True))"
proof (intro conjI allI impI)
  show "case r of Inl e \<Rightarrow> opened ops = (0, 0)
      | Inr _ \<Rightarrow> opened ops = (1, if s then 1 else 0) \<and> opened (ops @ close_ops s) = (0, 0)"
    using dial_balanced [OF assms] by (cases r) (auto simp: close_ops_def opened_append)
next
  fix u p assume "SendPassword u p \<in> set ops"
  then obtain r1 ops1 where c: "dial_client lp now cfg P db = (r1, ops1, db')" "SendPassword u p \<in> set ops1"
    using dial_password [OF assms] by blast
  note sent = password_as_given [OF c]
  show "u = sc_Username cfg" "p = sc_Password cfg" using sent by simp_all
  show "case (sc_HostKeyCallback cfg, sc_KnownHosts cfg) of
      (Some f, _) \<Rightarrow> pe_given P f (pe_key P) = None
    | (None, Some n) \<Rightarrow> db_pin db' (peer_id lp cfg P) = Some (base64 (pe_key P)) \<and>
        (\<forall>k. db_pin db (peer_id lp cfg P) = Some k \<longrightarrow> k = base64 (pe_key P))
    | (None, None) \<Rightarrow> True"
    using sent dial_pinned [OF assms _ _ \<open>SendPassword u p \<in> set ops\<close>] by (auto split: option.split)
qed

definition ex_ssh_cfg :: SSHConfig where
  "ex_ssh_cfg = \<lparr>sc_Address = ''r1:2222'', sc_Port = 0, sc_Username = ''u'', sc_Password = ''p'', sc_HostKeyCallback = None,
     sc_KnownHosts = Some 0, sc_TenantID = 1, sc_Timeout = 0\<rparr>"

definition ex_ssh_peer :: ssh_peer where
  "ex_ssh_peer = \<lparr>pe_tcp = None, pe_algo = ''ssh-rsa'', pe_key = ''k'', pe_between = [], pe_key_error = \<lambda>e. ''key'',
     pe_given = \<lambda>f k. None, pe_auth = \<lambda>u p. None, pe_session = None, pe_stdin = None, pe_stdout = None, pe_pty = Some ''no tty'',
     pe_shell = None\<rparr>"

text \<open>A peer that refuses the terminal: the web terminal's dial fails with everything closed.\<close>
lemma ssh_dial_safe_witness:
  "let m = DialSSHShell ex_lp 0 ex_ssh_cfg ex_ssh_peer ex_kh_db
   in fst m = Inl ''transport/ssh: pty: no tty'' \<and> SendPassword ''u'' ''p'' \<in> set (fst (snd m)) \<and>
     opened (fst (snd m)) = (0, 0) \<and> db_pin (snd (snd m)) (1, ''r1'', 2222, ''ssh-rsa'') = Some (base64 ''k'')"
proof -
  let ?m = "DialSSHShell ex_lp 0 ex_ssh_cfg ex_ssh_peer ex_kh_db"
  have m: "?m = (fst ?m, fst (snd ?m), snd (snd ?m))" by simp
  have e: "fst ?m = Inl ''transport/ssh: pty: no tty''" "SendPassword ''u'' ''p'' \<in> set (fst (snd ?m))"
    "peer_id ex_lp ex_ssh_cfg ex_ssh_peer = (1, ''r1'', 2222, ''ssh-rsa'')" by code_simp+
  have "(True, fst ?m, fst (snd ?m), snd (snd ?m)) \<in> {(True, DialSSH ex_lp 0 ex_ssh_cfg ex_ssh_peer ex_kh_db),
      (False, DialSSHExec ex_lp 0 ex_ssh_cfg ex_ssh_peer ex_kh_db), (True, ?m)}" using m by simp
  moreover have "sc_HostKeyCallback ex_ssh_cfg = None" "sc_KnownHosts ex_ssh_cfg = Some 0" "pe_key ex_ssh_peer = ''k''"
    by (simp_all add: ex_ssh_cfg_def ex_ssh_peer_def)
  ultimately have r: "opened (fst (snd ?m)) = (0, 0)"
    "\<forall>u p. SendPassword u p \<in> set (fst (snd ?m)) \<longrightarrow> db_pin (snd (snd ?m)) (peer_id ex_lp ex_ssh_cfg ex_ssh_peer) = Some (base64 ''k'')"
    using ssh_dial_safe [of True "fst ?m" "fst (snd ?m)" "snd (snd ?m)" ex_lp 0 ex_ssh_cfg ex_ssh_peer ex_kh_db]
    unfolding e(1) by (simp_all only: sum.case prod.case option.case) blast
  have "db_pin (snd (snd ?m)) (1, ''r1'', 2222, ''ssh-rsa'') = Some (base64 ''k'')"
    using r(2) [rule_format, OF e(2)] unfolding e(3) .
  then show ?thesis using e(1,2) r(1) by (simp only: Let_def simp_thms)
qed

end
