(* ===== verification/InventoryApi.thy ===== *)
theory InventoryApi
  imports Auth Backup Config Drivers
begin

text \<open>
  The inventory endpoints of \<open>internal/api/server.go\<close>: devices, groups, credentials, backups on demand and
  the configurations read back, with the audit entries they write. A handler takes the caller, the
  path's id, the decoded body (\<open>None\<close> when decoding fails) and gives a status code for an error or its
  result.
\<close>

section \<open>Helpers\<close>

text \<open>\<open>pathID\<close>: the wildcard's value, or the last segment of the path if there is none.\<close>

definition pathID :: "string \<Rightarrow> string \<Rightarrow> int option" where
  "pathID value path = (let raw = (if value = []
         then last (split_char (CHR ''/'') (if path \<noteq> [] \<and> last path = CHR ''/'' then butlast path else path)) else value)
     in case Atoi raw of Some i \<Rightarrow> if i \<le> 0 then None else Some i | None \<Rightarrow> None)"

record caller =
  ca_user :: "User option"
  ca_request :: string
  ca_now :: time

definition record_audit :: "bool \<Rightarrow> caller \<Rightarrow> string \<Rightarrow> string \<Rightarrow> string \<Rightarrow> 'a audit_db_scheme \<Rightarrow> 'a audit_db_scheme" where
  "record_audit on c action tgt detail s = (if \<not> on then s
     else RecordWithRequest (ca_now c) (case ca_user c of Some u \<Rightarrow> u_TenantID u | None \<Rightarrow> 0)
       (case ca_user c of Some u \<Rightarrow> u_ID u | None \<Rightarrow> 0) (ca_request c) SourceAPI action tgt detail s)"

definition dev_500 :: "dev_err \<Rightarrow> nat" where "dev_500 e = (if e = DevNotFound then 404 else 500)"
definition dev_400 :: "dev_err \<Rightarrow> nat" where "dev_400 e = (if e = DevNotFound then 404 else 400)"
definition cred_500 :: "cred_err \<Rightarrow> nat" where "cred_500 e = (if e = CredNotFound then 404 else 500)"

record deviceInput =
  in_Hostname :: string
  in_Address :: string
  in_Port :: int
  in_Driver :: string
  in_GroupID :: "int option"
  in_CredentialID :: "int option"

record credentialInput =
  in_Name :: string
  in_Username :: string
  in_Secret :: string

definition device_of_input :: "int \<Rightarrow> int \<Rightarrow> deviceInput \<Rightarrow> Device" where
  "device_of_input t i d = \<lparr>d_ID = i, d_TenantID = t, d_Hostname = in_Hostname d, d_Address = in_Address d,
     d_Port = (if in_Port d = 0 then 22 else in_Port d), d_Driver = in_Driver d, d_GroupID = in_GroupID d,
     d_CredentialID = in_CredentialID d, d_CreatedAt = zero_time\<rparr>"

definition device_target :: "int \<Rightarrow> string" where "device_target i = ''device:'' @ itoa i"

definition device_detail :: "Device \<Rightarrow> string" where
  "device_detail d = ''hostname='' @ d_Hostname d @ '' driver='' @ d_Driver d"

section \<open>Devices, groups and credentials\<close>

text \<open>\<open>code\<close> maps the service's error; a success is audited.\<close>

definition audited ::
  "('e \<Rightarrow> nat) \<Rightarrow> ('r \<Rightarrow> 'a audit_db_scheme \<Rightarrow> 'a audit_db_scheme) \<Rightarrow> ('e + 'r) \<times> 'a audit_db_scheme
    \<Rightarrow> (nat + 'r) \<times> 'a audit_db_scheme" where
  "audited code audit m = (case m of (Inl e, s) \<Rightarrow> (Inl (code e), s) | (Inr r, s) \<Rightarrow> (Inr r, audit r s))"

definition tenant_of :: "caller \<Rightarrow> int" where
  "tenant_of c = (case ca_user c of Some u \<Rightarrow> u_TenantID u | None \<Rightarrow> 0)"

definition handleListDevices :: "caller \<Rightarrow> 'a device_db_scheme \<Rightarrow> (nat + Device list) \<times> 'a device_db_scheme" where
  "handleListDevices c s = map_prod (map_sum (\<lambda>e. 500) id) id (ListDevices (tenant_of c) s)"

definition handleCreateDevice ::
  "bool \<Rightarrow> caller \<Rightarrow> time \<Rightarrow> deviceInput option \<Rightarrow> 'a device_db_scheme \<Rightarrow> (nat + Device) \<times> 'a device_db_scheme" where
  "handleCreateDevice on c now body s = (case body of
     None \<Rightarrow> (Inl 400, s)
   | Some b \<Rightarrow> audited (\<lambda>e. 400) (\<lambda>d. record_audit on c ''device.create'' (device_target (d_ID d)) (device_detail d))
       (CreateDevice now (device_of_input (tenant_of c) 0 b) s))"

definition handleGetDevice :: "caller \<Rightarrow> int option \<Rightarrow> 'a device_db_scheme \<Rightarrow> (nat + Device) \<times> 'a device_db_scheme" where
  "handleGetDevice c pid s = (case pid of
     None \<Rightarrow> (Inl 400, s) | Some i \<Rightarrow> map_prod (map_sum dev_500 id) id (GetDevice (tenant_of c) i s))"

definition handleUpdateDevice ::
  "bool \<Rightarrow> caller \<Rightarrow> int option \<Rightarrow> deviceInput option \<Rightarrow> 'a device_db_scheme \<Rightarrow> (nat + Device) \<times> 'a device_db_scheme" where
  "handleUpdateDevice on c pid body s = (case (pid, body) of
     (Some i, Some b) \<Rightarrow> audited dev_400 (\<lambda>d. record_audit on c ''device.update'' (device_target (d_ID d)) (device_detail d))
       (UpdateDevice (device_of_input (tenant_of c) i b) s)
   | _ \<Rightarrow> (Inl 400, s))"

definition handleDeleteDevice ::
  "bool \<Rightarrow> caller \<Rightarrow> int option \<Rightarrow> 'a device_db_scheme \<Rightarrow> (nat + unit) \<times> 'a device_db_scheme" where
  "handleDeleteDevice on c pid s = (case pid of
     None \<Rightarrow> (Inl 400, s)
   | Some i \<Rightarrow> audited dev_500 (\<lambda>_. record_audit on c ''device.delete'' (device_target i) []) (DeleteDevice (tenant_of c) i s))"

definition handleListGroups :: "caller \<Rightarrow> 'a device_db_scheme \<Rightarrow> (nat + Group list) \<times> 'a device_db_scheme" where
  "handleListGroups c s = map_prod (map_sum (\<lambda>e. 500) id) id (ListGroups (tenant_of c) s)"

definition handleCreateGroup ::
  "bool \<Rightarrow> caller \<Rightarrow> time \<Rightarrow> string option \<Rightarrow> 'a device_db_scheme \<Rightarrow> (nat + Group) \<times> 'a device_db_scheme" where
  "handleCreateGroup on c now body s = (case body of
     None \<Rightarrow> (Inl 400, s)
   | Some name \<Rightarrow> audited (\<lambda>e. 400)
       (\<lambda>g. record_audit on c ''device_group.create'' (''group:'' @ itoa (g_ID g)) (''name='' @ g_Name g))
       (CreateGroup now \<lparr>g_ID = 0, g_TenantID = tenant_of c, g_Name = name, g_CreatedAt = zero_time\<rparr> s))"

definition handleListCredentials :: "caller \<Rightarrow> 'a cred_db_scheme \<Rightarrow> (nat + Credential list) \<times> 'a cred_db_scheme" where
  "handleListCredentials c s = map_prod (map_sum (\<lambda>e. 500) id) id (ListCredentials (tenant_of c) s)"

definition credential_target :: "int \<Rightarrow> string" where "credential_target i = ''credential:'' @ itoa i"

definition handleCreateCredential ::
  "aead \<Rightarrow> string \<Rightarrow> string option \<Rightarrow> string option \<Rightarrow> bool \<Rightarrow> caller \<Rightarrow> time \<Rightarrow> credentialInput option
    \<Rightarrow> 'a cred_db_scheme \<Rightarrow> (nat + Credential) \<times> 'a cred_db_scheme" where
  "handleCreateCredential A master r1 r2 on c now body s = (case body of
     None \<Rightarrow> (Inl 400, s)
   | Some b \<Rightarrow> audited (\<lambda>e. 400) (\<lambda>x. record_audit on c ''credential.create'' (credential_target (c_ID x))
         (''name='' @ c_Name x @ '' username='' @ c_Username x))
       (CreateCredential A master r1 r2 now \<lparr>c_ID = 0, c_TenantID = tenant_of c, c_Name = in_Name b, c_Username = in_Username b,
          c_CreatedAt = zero_time, c_LastUsedAt = None\<rparr> (in_Secret b) s))"

definition handleDeleteCredential ::
  "bool \<Rightarrow> caller \<Rightarrow> int option \<Rightarrow> 'a cred_db_scheme \<Rightarrow> (nat + unit) \<times> 'a cred_db_scheme" where
  "handleDeleteCredential on c pid s = (case pid of
     None \<Rightarrow> (Inl 400, s)
   | Some i \<Rightarrow> audited cred_500 (\<lambda>_. record_audit on c ''credential.delete'' (credential_target i) [])
       (DeleteCredential (tenant_of c) i s))"

section \<open>Backups and configurations\<close>

definition handleListDrivers :: "(string \<times> 'd) list \<Rightarrow> string list" where
  "handleListDrivers r = ListDrivers r"

text \<open>A failed backup answers with its run if there is one; \<open>text_of\<close> is the text of an error.\<close>

definition handleBackupNow ::
  "'w backup_service \<Rightarrow> (bk_err \<Rightarrow> string) \<Rightarrow> string option \<Rightarrow> (nat \<Rightarrow> time) \<Rightarrow> bool \<Rightarrow> caller \<Rightarrow> int option
    \<Rightarrow> backup_db \<times> 'w \<Rightarrow> (nat \<times> Run option) \<times> backup_db \<times> 'w" where
  "handleBackupNow S text gate tick on c pid = (\<lambda>(db, w). case pid of
     None \<Rightarrow> ((400, None), db, w)
   | Some i \<Rightarrow> (case BackupNow S gate (tenant_of c) i (case ca_user c of Some u \<Rightarrow> u_Username u | None \<Rightarrow> []) tick (db, w) of
       ((run, Some e), db, w) \<Rightarrow>
         (let db = record_audit on c ''device.backup.request'' (device_target i) (''status=failed err='' @ text e) db
          in case run of Some r \<Rightarrow> ((502, Some r), db, w) | None \<Rightarrow> ((500, None), db, w))
     | ((Some r, None), db, w) \<Rightarrow> ((200, Some r), record_audit on c ''device.backup.request'' (device_target i)
         (''run_id='' @ itoa (run_ID r) @ '' status='' @ run_Status r) db, w)
     | ((None, None), db, w) \<Rightarrow> ((500, None), db, w)))"

definition handleListRuns :: "int option \<Rightarrow> backup_db \<Rightarrow> (nat + Run list) \<times> backup_db" where
  "handleListRuns pid db = (case pid of
     None \<Rightarrow> (Inl 400, db) | Some i \<Rightarrow> map_prod (map_sum (\<lambda>e. 500) id) id (ListRuns i 50 db))"

definition handleGetConfig ::
  "'w backup_service \<Rightarrow> caller \<Rightarrow> int option \<Rightarrow> string \<Rightarrow> backup_db \<times> 'w \<Rightarrow> (nat + string \<times> string) \<times> backup_db" where
  "handleGetConfig S c pid artifact s = (case pid of
     None \<Rightarrow> (Inl 400, fst s)
   | Some i \<Rightarrow> map_prod (map_sum (\<lambda>e. 404) id) id (LatestVersion S (tenant_of c) i artifact s))"

section \<open>What a request changes\<close>

datatype inv_cmd =
  CreateDev time "deviceInput option" | UpdateDev "int option" "deviceInput option" | DeleteDev "int option"
| CreateGrp time "string option" | CreateCred "string option" "string option" time "credentialInput option" | DeleteCred "int option"

definition answer_id :: "('r \<Rightarrow> int) \<Rightarrow> (nat + 'r) \<times> 's \<Rightarrow> (nat + int) \<times> 's" where
  "answer_id f m = map_prod (map_sum id f) id m"

text \<open>A request: the status of an error, or the key of the object created, changed or deleted.\<close>

fun inv_do :: "aead \<Rightarrow> string \<Rightarrow> bool \<Rightarrow> caller \<Rightarrow> inv_cmd \<Rightarrow> 'a cred_db_scheme \<Rightarrow> (nat + int) \<times> 'a cred_db_scheme" where
  "inv_do A m on c (CreateDev now body) s = answer_id d_ID (handleCreateDevice on c now body s)"
| "inv_do A m on c (UpdateDev pid body) s = answer_id d_ID (handleUpdateDevice on c pid body s)"
| "inv_do A m on c (DeleteDev pid) s = answer_id (\<lambda>_. the pid) (handleDeleteDevice on c pid s)"
| "inv_do A m on c (CreateGrp now body) s = answer_id g_ID (handleCreateGroup on c now body s)"
| "inv_do A m on c (CreateCred r1 r2 now body) s = answer_id c_ID (handleCreateCredential A m r1 r2 on c now body s)"
| "inv_do A m on c (DeleteCred pid) s = answer_id (\<lambda>_. the pid) (handleDeleteCredential on c pid s)"

text \<open>The audit entry a request calls for: action, target and detail, out of its input without the secret.\<close>

fun inv_note :: "inv_cmd \<Rightarrow> int \<Rightarrow> string \<times> string \<times> string" where
  "inv_note (CreateDev now body) i = (''device.create'', ''device:'' @ itoa i,
     ''hostname='' @ in_Hostname (the body) @ '' driver='' @ in_Driver (the body))"
| "inv_note (UpdateDev pid body) i = (''device.update'', ''device:'' @ itoa i,
     ''hostname='' @ in_Hostname (the body) @ '' driver='' @ in_Driver (the body))"
| "inv_note (DeleteDev pid) i = (''device.delete'', ''device:'' @ itoa i, [])"
| "inv_note (CreateGrp now body) i = (''device_group.create'', ''group:'' @ itoa i, ''name='' @ the body)"
| "inv_note (CreateCred r1 r2 now body) i = (''credential.create'', ''credential:'' @ itoa i,
     ''name='' @ in_Name (the body) @ '' username='' @ in_Username (the body))"
| "inv_note (DeleteCred pid) i = (''credential.delete'', ''credential:'' @ itoa i, [])"

definition inv_entry :: "caller \<Rightarrow> string \<times> string \<times> string \<Rightarrow> int \<Rightarrow> audit_row" where
  "inv_entry c note n = (case note of (action, tgt, detail) \<Rightarrow> \<lparr>au_id = n,
     au_tenant = Some (tenant_of c), au_actor = Some (case ca_user c of Some u \<Rightarrow> u_ID u | None \<Rightarrow> 0),
     au_action = action, au_target = tgt, au_detail = detail, au_source = Some ''api'',
     au_request = (if ca_request c = [] then None else Some (ca_request c)), au_created = rfc3339 (ca_now c)\<rparr>)"

text \<open>The rows of the other tenants, and what deleting a credential does to them: a device that was linked to
  it no longer is.\<close>

type_synonym foreign_rows = "device_row list \<times> group_row list \<times> cred_row list"

definition foreign :: "int \<Rightarrow> 'a cred_db_scheme \<Rightarrow> foreign_rows" where
  "foreign t s = (filter (\<lambda>d. dv_tenant d \<noteq> t) (rows (devices s)),
     filter (\<lambda>g. gr_tenant g \<noteq> t) (rows (device_groups s)), filter (\<lambda>c. cd_tenant c \<noteq> t) (rows (credentials s)))"

definition unlinked :: "int option \<Rightarrow> foreign_rows \<Rightarrow> foreign_rows" where
  "unlinked del x = (case (del, x) of
     (Some i, ds, gs, cs) \<Rightarrow> (map (\<lambda>d. if dv_credential d = Some i then d\<lparr>dv_credential := None\<rparr> else d) ds, gs, cs)
   | (None, x) \<Rightarrow> x)"

lemma unlinked_None [simp]: "unlinked None x = x"
  by (simp add: unlinked_def)

definition same_data :: "'a cred_db_scheme \<Rightarrow> 'a cred_db_scheme \<Rightarrow> bool" where
  "same_data s s' \<longleftrightarrow> (\<exists>fs. s' = s\<lparr>faults := fs\<rparr>)"

lemma same_data_simps [simp]: "same_data s s" "same_data s (s\<lparr>faults := fs\<rparr>)"
  unfolding same_data_def by (cases s, auto)

lemma foreign_simps [simp]: "foreign t (s\<lparr>faults := fs\<rparr>) = foreign t s"
  "foreign t (s\<lparr>audit_log := l, last_rowid := n\<rparr>) = foreign t s"
  by (simp_all add: foreign_def)

lemma filter_update:
  "(\<And>r. P r \<Longrightarrow> \<not> Q r \<and> \<not> Q (f r)) \<Longrightarrow> filter Q (map (\<lambda>r. if P r then f r else r) xs) = filter Q xs"
  by (induction xs) auto

text \<open>A service call of a tenant: it keeps the others' rows, but for the links to the credential it deletes,
  and the log; an error changes nothing with a working database, and for a \<open>strict\<close> call in any case.\<close>

definition clean_call :: "int option \<Rightarrow> bool \<Rightarrow> int \<Rightarrow> 'a cred_db_scheme \<Rightarrow> ('e + 'r) \<times> 'a cred_db_scheme \<Rightarrow> bool" where
  "clean_call del strict t s m \<longleftrightarrow>
     foreign t (snd m) = (if isl (fst m) then foreign t s else unlinked del (foreign t s)) \<and>
     audit_log (snd m) = audit_log s \<and> (faults s = [] \<longrightarrow> faults (snd m) = []) \<and>
     (isl (fst m) \<longrightarrow> (strict \<or> faults s = [] \<longrightarrow> same_data s (snd m)))"

lemma clean_exec:
  assumes "\<And>fs. (faults s = [] \<Longrightarrow> fs = []) \<Longrightarrow> clean_call del strict t s (k (s\<lparr>faults := fs\<rparr>))"
  shows "clean_call del strict t s (exec err s k)"
proof (cases "stmt s")
  case (Pair x c')
  then obtain fs where "c' = s\<lparr>faults := fs\<rparr>" "faults s = [] \<longrightarrow> fs = [] \<and> x = None" by (auto dest: stmt_truncate)
  with Pair assms show ?thesis by (cases x) (auto simp: exec_def clean_call_def)
qed

lemma clean_refused: "clean_call del strict t s (Inl e, s)"
  by (simp add: clean_call_def)

lemma clean_create:
  assumes "d_TenantID d = t"
  shows "clean_call None True t s (CreateDevice now d s)"
proof (cases "validateDevice d")
  case None
  show ?thesis unfolding CreateDevice_def None option.case(1)
    by (intro clean_exec) (auto simp: clean_call_def foreign_def device_row_of_def assms Let_def)
qed (simp add: CreateDevice_def clean_refused)

lemma clean_get: "clean_call None True t s (GetDevice t' i s)"
  unfolding GetDevice_def by (rule clean_exec) (auto simp: clean_call_def split: option.splits)

lemma clean_delete: "clean_call None True t s (DeleteDevice t i s)"
proof -
  have "delete_rows P r = r" if "affected P r = 0" for P and r :: "device_row sql_table"
    using that by (simp add: affected_0_iff delete_rows_def filter_id_conv)
  then show ?thesis unfolding DeleteDevice_def Let_def
    by (intro clean_exec) (auto simp: clean_call_def foreign_def intro!: filter_cong)
qed

lemma clean_group:
  assumes "g_TenantID g = t"
  shows "clean_call None True t s (CreateGroup now g s)"
proof (cases "trim_space (g_Name g) = []")
  case False
  then show ?thesis unfolding CreateGroup_def if_not_P [OF False]
    by (intro clean_exec) (auto simp: clean_call_def foreign_def assms Let_def)
qed (simp add: CreateGroup_def clean_refused)

lemma clean_cred:
  assumes "c_TenantID x = t"
  shows "clean_call None True t s (CreateCredential A m r1 r2 now x sec s)"
proof (cases "c_TenantID x \<le> 0 \<or> trim_space (c_Name x) = [] \<or> trim_space (c_Username x) = [] \<or> sec = []")
  case False
  show ?thesis unfolding CreateCredential_def if_not_P [OF False]
  proof (cases "Seal A m r1 r2 sec")
    case (Inr env)
    then show "clean_call None True t s (case Seal A m r1 r2 sec of Inl e \<Rightarrow> (Inl (CredSeal e), s) | Inr env \<Rightarrow> exec CredDB s (\<lambda>s.
          if list_ex (\<lambda>r. cd_tenant r = c_TenantID x \<and> cd_name r = c_Name x) (rows (credentials s))
          then (Inl (CredDB ''UNIQUE constraint failed''), s)
          else (let n = next_rowid (credentials s) in
            (Inr (x\<lparr>c_ID := n, c_CreatedAt := now\<rparr>),
             s\<lparr>credentials := insert_row (\<lambda>n. \<lparr>cd_id = n, cd_tenant = c_TenantID x, cd_name = c_Name x,
                  cd_username = c_Username x, cd_envelope = env, cd_created = rfc3339 now, cd_used = None\<rparr>)
                  (credentials s), last_rowid := n\<rparr>))))"
      unfolding Inr sum.case by (intro clean_exec) (auto simp: clean_call_def foreign_def assms Let_def)
  qed (simp add: clean_refused)
qed (simp add: CreateCredential_def clean_refused)

lemma clean_cred_delete: "clean_call (Some i) True t s (DeleteCredential t i s)"
  unfolding DeleteCredential_def
  by (rule clean_exec) (auto simp: clean_call_def foreign_def unlinked_def cred_at_def filter_map comp_def
      intro!: filter_cong map_cong)

lemma clean_update:
  assumes "d_TenantID d = t"
  shows "clean_call None False t s (UpdateDevice d s)"
proof (cases "validateDevice d")
  case None
  let ?P = "\<lambda>r. dv_tenant r = d_TenantID d \<and> dv_id r = d_ID d"
  show ?thesis unfolding UpdateDevice_def None option.case(1)
  proof (rule clean_exec)
    fix fs :: "string option list" assume fs: "faults s = [] \<Longrightarrow> fs = []"
    let ?s = "s\<lparr>faults := fs\<rparr>"
    let ?u = "?s\<lparr>devices := update_rows ?P (device_set d) (devices ?s)\<rparr>"
    have "filter (\<lambda>r. dv_tenant r \<noteq> t) (map (\<lambda>r. if ?P r then device_set d r else r) (rows (devices s))) =
        filter (\<lambda>r. dv_tenant r \<noteq> t) (rows (devices s))" by (rule filter_update) (simp add: assms)
    then have o: "foreign t ?u = foreign t s" by (simp add: foreign_def)
    have g: "clean_call None True t ?u (GetDevice (d_TenantID d) (d_ID d) ?u)" by (rule clean_get)
    have found: "\<exists>x. fst (GetDevice (d_TenantID d) (d_ID d) ?u) = Inr x" if nf: "faults s = []" and aff: "affected ?P (devices s) \<noteq> 0"
    proof -
      obtain r where r: "r \<in> set (rows (devices s))" "?P r" using aff unfolding affected_0_iff by blast
      have "device_set d r \<in> set (rows (update_rows ?P (device_set d) (devices s)))" using r by (auto intro!: image_eqI [of _ _ r])
      moreover have "?P (device_set d r)" using r(2) by simp
      ultimately have "query_row ?P (update_rows ?P (device_set d) (devices s)) \<noteq> None" unfolding query_row_None by blast
      then show ?thesis using nf fs by (auto simp: GetDevice_def)
    qed
    show "clean_call None False t s (let P = ?P in
       if affected P (devices ?s) = 0 then (Inl DevNotFound, ?s)
       else if list_ex (\<lambda>r. \<not> P r \<and> dv_tenant r = d_TenantID d \<and> dv_hostname r = d_Hostname d) (rows (devices ?s))
       then (Inl (DevDB ''UNIQUE constraint failed''), ?s)
       else GetDevice (d_TenantID d) (d_ID d) (?s\<lparr>devices := update_rows P (device_set d) (devices ?s)\<rparr>))"
      unfolding Let_def using g o found fs by (auto simp: clean_call_def)
  qed
qed (simp add: UpdateDevice_def clean_refused)

text \<open>The handlers around the calls.\<close>

definition logged_once ::
  "int option \<Rightarrow> bool \<Rightarrow> caller \<Rightarrow> (int \<Rightarrow> string \<times> string \<times> string) \<Rightarrow> 'a cred_db_scheme
    \<Rightarrow> (nat + int) \<times> 'a cred_db_scheme \<Rightarrow> bool" where
  "logged_once del strict c note s m \<longleftrightarrow>
     foreign (tenant_of c) (snd m) = (if isl (fst m) then foreign (tenant_of c) s else unlinked del (foreign (tenant_of c) s)) \<and>
     (case fst m of
       Inl code \<Rightarrow> code \<in> {400, 404, 500} \<and> audit_log (snd m) = audit_log s \<and> (faults s = [] \<longrightarrow> snd m = s) \<and>
         (strict \<longrightarrow> same_data s (snd m))
     | Inr i \<Rightarrow> (rows (audit_log (snd m)) = rows (audit_log s) @ [inv_entry c (note i) (next_rowid (audit_log s))]) \<or>
         faults s \<noteq> [] \<and> audit_log (snd m) = audit_log s)"

lemma same_data_eq: "same_data s s' \<Longrightarrow> faults s' = faults s \<Longrightarrow> s' = s"
  unfolding same_data_def by (cases s) auto

lemma record_audit_log:
  assumes "ca_user c = Some u" and "0 < u_TenantID u" and "0 < u_ID u" and "audit_log s' = audit_log s"
    and "faults s = [] \<longrightarrow> faults s' = []" and "note = (action, tgt, detail)"
  shows "foreign t (record_audit True c action tgt detail s') = foreign t s' \<and>
    (rows (audit_log (record_audit True c action tgt detail s')) = rows (audit_log s) @ [inv_entry c note (next_rowid (audit_log s))] \<or>
     faults s \<noteq> [] \<and> audit_log (record_audit True c action tgt detail s') = audit_log s)"
proof (cases "stmt s'")
  case (Pair x s1)
  then obtain fs where "s1 = s'\<lparr>faults := fs\<rparr>" "faults s' = [] \<longrightarrow> fs = [] \<and> x = None" by (auto dest: stmt_truncate)
  with Pair assms show ?thesis
    by (cases x) (auto simp: record_audit_def RecordWithRequest_def exec_quiet_def inv_entry_def tenant_of_def SourceAPI_def)
qed

lemma audited_logged:
  assumes "ca_user c = Some u" and "0 < u_TenantID u" and "0 < u_ID u"
    and "clean_call del strict (tenant_of c) s m" and "\<And>e. code e \<in> {400, 404, 500}"
    and "\<And>r. fst m = Inr r \<Longrightarrow> note (f r) = (action, tgt r, detail r)"
  shows "logged_once del strict c note s (answer_id f (audited code (\<lambda>r. record_audit True c action (tgt r) (detail r)) m))"
proof (cases m)
  case (Pair r s')
  show ?thesis
  proof (cases r)
    case (Inl e)
    then have "isl r" by simp
    then have "faults s = [] \<longrightarrow> s' = s" "strict \<longrightarrow> same_data s s'" "audit_log s' = audit_log s"
      "foreign (tenant_of c) s' = foreign (tenant_of c) s"
      using assms(4) Pair same_data_eq [of s s'] by (auto simp: clean_call_def)
    then show ?thesis using assms(5) Pair Inl by (simp add: logged_once_def answer_id_def audited_def)
  next
    case (Inr x)
    have "audit_log s' = audit_log s" "faults s = [] \<longrightarrow> faults s' = []"
      "foreign (tenant_of c) s' = unlinked del (foreign (tenant_of c) s)"
      using assms(4) Pair Inr by (simp_all add: clean_call_def)
    with record_audit_log [OF assms(1-3) this(1,2) assms(6), of x "tenant_of c"] show ?thesis
      using Pair Inr by (simp add: logged_once_def answer_id_def audited_def)
  qed
qed

text \<open>What the services answer with is what they were given.\<close>

lemma UpdateDevice_answer:
  "fst (UpdateDevice d s) = Inr d' \<Longrightarrow> d_ID d' = d_ID d \<and> d_Hostname d' = d_Hostname d \<and> d_Driver d' = d_Driver d"
  unfolding UpdateDevice_def GetDevice_def
  by (auto simp: exec_def Let_def device_of_def device_set_def split: option.splits prod.splits if_splits
      dest!: query_row_SomeD stmt_truncate)

lemma CreateDevice_answer: "fst (CreateDevice now d s) = Inr d' \<Longrightarrow> d_Hostname d' = d_Hostname d \<and> d_Driver d' = d_Driver d"
  unfolding CreateDevice_def by (auto simp: exec_def Let_def split: option.splits prod.splits if_splits)

lemma CreateGroup_answer: "fst (CreateGroup now g s) = Inr g' \<Longrightarrow> g_Name g' = g_Name g"
  unfolding CreateGroup_def by (auto simp: exec_def Let_def split: option.splits prod.splits if_splits)

lemma CreateCredential_answer:
  "fst (CreateCredential A m r1 r2 now x sec s) = Inr x' \<Longrightarrow> c_Name x' = c_Name x \<and> c_Username x' = c_Username x"
  unfolding CreateCredential_def by (auto simp: exec_def Let_def split: sum.splits option.splits prod.splits if_splits)

lemma refused_logged: "code \<in> {400, 404, 500} \<Longrightarrow> logged_once del strict c note s (answer_id f (Inl code, s))"
  by (auto simp: logged_once_def answer_id_def)

text \<open>The credential a request deletes, and whether it reads again what it wrote.\<close>

fun deleted :: "inv_cmd \<Rightarrow> int option" where
  "deleted (DeleteCred pid) = pid"
| "deleted _ = None"

fun rereads :: "inv_cmd \<Rightarrow> bool" where
  "rereads (UpdateDev pid body) = True"
| "rereads _ = False"

text \<open>C40: Every request that changes the inventory is the caller's tenant's business and is on record.
  Whatever statements fail, the other tenants' devices, groups and credentials stay exactly as they were,
  except that a credential that is deleted is no longer linked by any device. A refused request writes no audit
  entry and changes nothing, except that the update of a device may have been written when a statement
  failed. A request that is answered with success has its one entry at the end of the log, under the caller,
  his tenant and the request's identifier, unless a statement failed; what it says is read off the request without
  the credential's secret.\<close>

theorem inventory_audited:
  assumes "ca_user c = Some u" and "0 < u_TenantID u" and "0 < u_ID u" and "inv_do A m True c cmd s = (r, s')"
  shows "foreign (u_TenantID u) s' =
      (if isl r then foreign (u_TenantID u) s else unlinked (deleted cmd) (foreign (u_TenantID u) s)) \<and>
    (case r of
      Inl code \<Rightarrow> code \<in> {400, 404, 500} \<and> audit_log s' = audit_log s \<and> (faults s = [] \<longrightarrow> s' = s) \<and>
        (\<not> rereads cmd \<longrightarrow> same_data s s')
    | Inr i \<Rightarrow> rows (audit_log s') = rows (audit_log s) @ [inv_entry c (inv_note cmd i) (next_rowid (audit_log s))] \<or>
        faults s \<noteq> [] \<and> audit_log s' = audit_log s)"
proof -
  note al = audited_logged [OF assms(1-3)]
  have t: "tenant_of c = u_TenantID u" using assms(1) by (simp add: tenant_of_def)
  have "logged_once (deleted cmd) (\<not> rereads cmd) c (inv_note cmd) s (inv_do A m True c cmd s)"
  proof (cases cmd)
    case (CreateDev now body)
    then show ?thesis by (cases body) (auto simp: handleCreateDevice_def device_of_input_def device_target_def device_detail_def
      refused_logged dest: CreateDevice_answer intro!: al [OF clean_create])
  next
    case (UpdateDev pid body)
    then show ?thesis by (cases pid; cases body) (auto simp: handleUpdateDevice_def device_of_input_def device_target_def
      device_detail_def dev_400_def refused_logged dest: UpdateDevice_answer
      intro!: al [OF clean_update] split: if_splits)
  next
    case (DeleteDev pid)
    then show ?thesis by (cases pid) (auto simp: handleDeleteDevice_def dev_500_def device_target_def refused_logged
      intro!: al [OF clean_delete])
  next
    case (CreateGrp now body)
    then show ?thesis by (cases body) (auto simp: handleCreateGroup_def refused_logged dest: CreateGroup_answer
      intro!: al [OF clean_group])
  next
    case (CreateCred r1 r2 now body)
    then show ?thesis by (cases body) (auto simp: handleCreateCredential_def credential_target_def refused_logged
      dest: CreateCredential_answer intro!: al [OF clean_cred])
  next
    case (DeleteCred pid)
    then show ?thesis by (cases pid) (auto simp: handleDeleteCredential_def cred_500_def credential_target_def refused_logged
      intro!: al [OF clean_cred_delete])
  qed
  with assms(4) t show ?thesis by (cases r) (simp_all add: logged_once_def)
qed

definition demo_caller :: caller where
  "demo_caller = \<lparr>ca_user = Some \<lparr>u_ID = 7, u_TenantID = 1, u_Username = ''op'', u_Role = ''operator''\<rparr>,
     ca_request = ''req-1'', ca_now = 0\<rparr>"

definition demo_cred_request :: inv_cmd where
  "demo_cred_request = CreateCred (Some (replicate 16 CHR ''s'')) (Some (replicate 12 CHR ''n'')) 0
     (Some \<lparr>in_Name = ''lab'', in_Username = ''admin'', in_Secret = ''s3cret''\<rparr>)"

text \<open>The caller's credential 1, which a device of tenant 2 is linked to, is deleted.\<close>

definition demo_linked :: cred_db where
  "demo_linked = (snd (inv_do demo_aead ''pw'' True demo_caller demo_cred_request empty_vault))\<lparr>
     devices := \<lparr>rows = [\<lparr>dv_id = 1, dv_tenant = 2, dv_hostname = ''r2'', dv_address = ''10.0.0.2'', dv_port = 22,
       dv_driver = ''cisco_ios'', dv_group = None, dv_credential = Some 1, dv_created = 0\<rparr>], rowseq = 1\<rparr>\<rparr>"

theorem inventory_audited_witness:
  "\<exists>s'. inv_do demo_aead ''pw'' True demo_caller (DeleteCred (Some 1)) demo_linked = (Inr 1, s') \<and>
     rows (audit_log s') = rows (audit_log demo_linked) @ [inv_entry demo_caller (''credential.delete'', ''credential:1'', []) 2] \<and>
     map dv_credential (fst (foreign 1 s')) = [None]"
proof -
  let ?m = "inv_do demo_aead ''pw'' True demo_caller (DeleteCred (Some 1)) demo_linked"
  obtain r s' where m: "?m = (r, s')" by (cases ?m)
  have "fst ?m = Inr 1" by code_simp
  with m have r: "r = Inr 1" by simp
  have u: "ca_user demo_caller = Some \<lparr>u_ID = 7, u_TenantID = 1, u_Username = ''op'', u_Role = ''operator''\<rparr>"
    by (simp add: demo_caller_def)
  have e: "next_rowid (audit_log demo_linked) = 2" "faults demo_linked = []"
    "inv_note (DeleteCred (Some 1)) 1 = (''credential.delete'', ''credential:1'', [])"
    "map dv_credential (fst (unlinked (Some 1) (foreign 1 demo_linked))) = [None]" "itoa 1 = ''1''" by code_simp+
  have t: "foreign 1 s' = unlinked (Some 1) (foreign 1 demo_linked)"
    "rows (audit_log s') = rows (audit_log demo_linked) @ [inv_entry demo_caller (''credential.delete'', ''credential:1'', []) 2]"
    using inventory_audited [OF u _ _ m] unfolding r by (simp_all add: e)
  with m r e(4) show ?thesis by (intro exI [of _ s']) simp
qed

text \<open>An update whose re-read fails is answered with 400, unaudited, although the row is changed.\<close>

lemma unaudited_update:
  "let s = snd (inv_do demo_aead ''pw'' True demo_caller (CreateDev 0 (Some \<lparr>in_Hostname = ''r1'', in_Address = ''a'', in_Port = 0,
          in_Driver = ''cisco_ios'', in_GroupID = None, in_CredentialID = None\<rparr>)) empty_vault);
       (r, s') = inv_do demo_aead ''pw'' True demo_caller (UpdateDev (Some 1) (Some \<lparr>in_Hostname = ''r1'', in_Address = ''b'', in_Port = 0,
          in_Driver = ''cisco_ios'', in_GroupID = None, in_CredentialID = None\<rparr>)) (s\<lparr>faults := [None, Some ''locked'']\<rparr>)
   in r = Inl 400 \<and> map dv_address (rows (devices s')) = [''b''] \<and> length (rows (audit_log s')) = 1"
  by code_simp

text \<open>The default port of the endpoint is SSH's whatever the driver: a dialer never chooses its own.\<close>

lemma port_is_never_zero: "d_Port (device_of_input t i d) \<noteq> 0"
  by (simp add: device_of_input_def)

end
