(* ===== verification/Wiring.thy ===== *)
theory Wiring
  imports SshDial Sessions Automation Backup Probes Lease
begin

text \<open>
  How \<open>runServe\<close> of \<open>cmd/netmantle/main.go\<close> puts the services together: the connection each transport's
  sessions are opened with, the backend of the web terminal, the check before a push, and the jobs of the
  scheduler. The server's store of host keys is number 0.
\<close>

section \<open>Sessions\<close>

text \<open>\<open>strings.EqualFold\<close> with a lower-case ASCII word: besides the two cases, the Kelvin sign folds to k.\<close>

fun equal_fold :: "string \<Rightarrow> string \<Rightarrow> bool" where
  "equal_fold [] s = (s = [])"
| "equal_fold (c # cs) s =
     (s \<noteq> [] \<and> lower_char (hd s) = c \<and> equal_fold cs (tl s) \<or>
      c = CHR ''k'' \<and> has_prefix s [CHR 0xE2, CHR 0x84, CHR 0xAA] \<and> equal_fold cs (drop 3 s))"

definition server_ssh :: "duration \<Rightarrow> Device \<Rightarrow> string \<Rightarrow> string \<Rightarrow> SSHConfig" where
  "server_ssh timeout d user pw = \<lparr>sc_Address = d_Address d, sc_Port = d_Port d, sc_Username = user, sc_Password = pw,
     sc_HostKeyCallback = None, sc_KnownHosts = Some 0, sc_TenantID = d_TenantID d, sc_Timeout = timeout\<rparr>"

text \<open>A user named bearer or token makes the secret a bearer token.\<close>

definition bearer_of :: "string \<Rightarrow> string \<Rightarrow> string \<times> string \<times> string" where
  "bearer_of user pw = (if equal_fold ''bearer'' (trim_space user) \<or> equal_fold ''token'' (trim_space user)
     then ([], [], pw) else (user, pw, []))"

datatype wire =
  ShellWire SSHConfig | ExecWire SSHConfig | NetconfWire SSHConfig | RestconfWire RESTCONFConfig
| GNMIWire GNMIConfig | TelnetWire TelnetConfig

definition server_session :: "duration \<Rightarrow> factory_kind \<Rightarrow> Device \<Rightarrow> string \<Rightarrow> string \<Rightarrow> wire" where
  "server_session timeout kind d user pw = (case kind of
     NewSession \<Rightarrow> ShellWire (server_ssh timeout d user pw)
   | MikrotikSession \<Rightarrow> ExecWire (server_ssh timeout d user pw)
   | NetconfSession \<Rightarrow> NetconfWire (server_ssh timeout d user pw)
   | RestconfSession \<Rightarrow> (case bearer_of user pw of (user, pw, bearer) \<Rightarrow>
       RestconfWire \<lparr>rc_Address = d_Address d, rc_Port = d_Port d, rc_Username = user, rc_Password = pw,
         rc_BearerToken = bearer, rc_Timeout = timeout, rc_InsecureSkipVerify = False\<rparr>)
   | GNMISession \<Rightarrow> (case bearer_of user pw of (user, pw, bearer) \<Rightarrow>
       GNMIWire \<lparr>gc_Address = d_Address d, gc_Port = d_Port d, gc_Username = user, gc_Password = pw,
         gc_BearerToken = bearer, gc_Timeout = timeout, gc_InsecureSkipVerify = False\<rparr>)
   | TelnetSession \<Rightarrow> TelnetWire \<lparr>tc_Address = d_Address d, tc_Port = d_Port d, tc_Username = user, tc_Password = pw,
         tc_Timeout = timeout\<rparr>)"

section \<open>The web terminal\<close>

text \<open>\<open>Use\<close> with a function that has a state of its own.\<close>

definition use_in ::
  "aead \<Rightarrow> string \<Rightarrow> time \<Rightarrow> (string \<Rightarrow> string \<Rightarrow> 'x \<Rightarrow> string option \<times> 'x) \<Rightarrow> int \<Rightarrow> int \<Rightarrow> 'x
    \<Rightarrow> 'a cred_db_scheme \<Rightarrow> (cred_err + unit) \<times> 'x \<times> 'a cred_db_scheme" where
  "use_in A master now fn tenantID i x s = (case stmt s of
     (Some e, s) \<Rightarrow> (Inl (CredDB e), x, s)
   | (None, s) \<Rightarrow> (case query_row (cred_at tenantID i) (credentials s) of
       None \<Rightarrow> (Inl CredNotFound, x, s)
     | Some r \<Rightarrow> (case Open A master (cd_envelope r) of
         Inl e \<Rightarrow> (Inl (CredSeal e), x, s)
       | Inr pt \<Rightarrow>
           (let s = exec_quiet s (\<lambda>s. s\<lparr>credentials := update_rows (cred_at tenantID i)
                  (\<lambda>r. r\<lparr>cd_used := Some (rfc3339 now)\<rparr>) (credentials s)\<rparr>)
            in case fn (cd_username r) pt x of
                 (None, x) \<Rightarrow> (Inr (), x, s) | (Some e, x) \<Rightarrow> (Inl (CredFn e), x, s)))))"

datatype term_err = TermDevice dev_err | TermNoCredential | TermUse cred_err

record ssh_side =
  ss_ops :: "ssh_op list"
  ss_keys :: kh_db

definition dial_shell ::
  "(string \<Rightarrow> int option) \<Rightarrow> time \<Rightarrow> ssh_peer \<Rightarrow> SSHConfig \<Rightarrow> ssh_side \<Rightarrow> string option \<times> ssh_side" where
  "dial_shell lp now P cfg x = (case DialSSHShell lp now cfg P (ss_keys x) of
     (Inl e, ops, k) \<Rightarrow> (Some e, \<lparr>ss_ops = ss_ops x @ ops, ss_keys = k\<rparr>)
   | (Inr _, ops, k) \<Rightarrow> (None, \<lparr>ss_ops = ss_ops x @ ops, ss_keys = k\<rparr>))"

definition terminal_backend ::
  "(string \<Rightarrow> int option) \<Rightarrow> aead \<Rightarrow> string \<Rightarrow> duration \<Rightarrow> time \<Rightarrow> ssh_peer \<Rightarrow> int \<Rightarrow> int \<Rightarrow> ssh_side
    \<Rightarrow> 'a cred_db_scheme \<Rightarrow> (term_err + unit) \<times> ssh_side \<times> 'a cred_db_scheme" where
  "terminal_backend lp A master timeout now P tenantID deviceID x s = (case GetDevice tenantID deviceID s of
     (Inl e, s) \<Rightarrow> (Inl (TermDevice e), x, s)
   | (Inr dev, s) \<Rightarrow> (case d_CredentialID dev of
       None \<Rightarrow> (Inl TermNoCredential, x, s)
     | Some c \<Rightarrow> (case use_in A master now (\<lambda>user pw. dial_shell lp now P
           ((server_ssh timeout dev user pw)\<lparr>sc_TenantID := tenantID\<rparr>)) tenantID c x s of
         (Inl e, x, s) \<Rightarrow> (Inl (TermUse e), x, s)
       | (Inr _, x, s) \<Rightarrow> (Inr (), x, s))))"

section \<open>Pushes and jobs\<close>

text \<open>The executor of push automation, and its check that the device answers: \<open>tcp\<close> dials an address
  within a time, \<open>close\<close> is the error of closing. \<open>%q\<close> is the name between quotes.\<close>

definition server_executor ::
  "'w backup_service \<Rightarrow> Device \<Rightarrow> string \<Rightarrow> backup_db \<Rightarrow> (bk_err + string) \<times> backup_db" where
  "server_executor S d config db = ApplyRenderedConfig S d config db"

definition server_pre_flight :: "duration \<Rightarrow> (string \<Rightarrow> duration \<Rightarrow> string option) \<Rightarrow> string option \<Rightarrow> Device \<Rightarrow> string option" where
  "server_pre_flight timeout tcp close d = (if d_CredentialID d = None
     then Some (''automation: device '' @ [CHR 0x22] @ d_Hostname d @ [CHR 0x22] @ '' (id '' @ itoa (d_ID d) @ '') has no credential'')
     else (let addr = (case SplitHostPort (d_Address d) of
                Some _ \<Rightarrow> d_Address d
              | None \<Rightarrow> JoinHostPort (d_Address d) (itoa (if d_Port d \<le> 0 then 22 else d_Port d)));
              limit = (if 0 < timeout \<and> timeout < 5 * second then timeout else 5 * second)
           in case tcp addr limit of
                Some e \<Rightarrow> Some (''automation: pre-flight reachability check failed: '' @ e)
              | None \<Rightarrow> close))"

definition retention_run :: "time \<Rightarrow> probe_db \<Rightarrow> probe_err option \<times> probe_db" where
  "retention_run now q = (case PruneOlderThan (now - 30 * 24 * hour) q of
     (Inl e, q) \<Rightarrow> (Some e, q) | (Inr n, q) \<Rightarrow> (None, q))"

definition server_lease :: "string \<Rightarrow> Lease" where
  "server_lease bytes = NewLease ''scheduled-jobs'' (30 * second) bytes"

text \<open>The jobs, \<open>prune\<close> and \<open>backup\<close> being the errors of their runs.\<close>

definition server_jobs :: "duration \<Rightarrow> (time \<Rightarrow> string option) \<Rightarrow> (time \<Rightarrow> string option) \<Rightarrow> sched_job list" where
  "server_jobs schedule prune backup =
     \<lparr>sj_Name = ''probe-retention'', sj_Interval = hour, sj_Run = prune\<rparr> #
     (if schedule > 0 then [\<lparr>sj_Name = ''scheduled-backup'', sj_Interval = schedule, sj_Run = backup\<rparr>] else [])"

section \<open>Where the terminal's password goes\<close>

text \<open>\<open>Use\<close> as the vault has it is the one without a state.\<close>

lemma use_in_Use:
  "use_in A m now (\<lambda>u p x. (fn u p, x)) t i x s = (fst (UseCredential A m now fn t i s), x, snd (UseCredential A m now fn t i s))"
  by (auto simp: use_in_def UseCredential_def exec_def Let_def split: option.splits sum.splits prod.splits)

lemma stmt_tables: "stmt (s :: 'a cred_db_scheme) = (x, s') \<Longrightarrow> credentials s' = credentials s \<and> devices s' = devices s"
  by (auto dest: stmt_truncate)

lemma use_in_cases:
  assumes "use_in A m now fn t i x s = (r, x', s')"
  obtains (unused) e where "r = Inl e" "x' = x"
  | (used) c p where "c \<in> set (rows (credentials s))" "cd_tenant c = t" "cd_id c = i" "Open A m (cd_envelope c) = Inr p"
      "x' = snd (fn (cd_username c) p x)" "r = (case fst (fn (cd_username c) p x) of None \<Rightarrow> Inr () | Some e \<Rightarrow> Inl (CredFn e))"
proof -
  obtain y s1 where st: "stmt s = (y, s1)" by fastforce
  have cr: "credentials s1 = credentials s" using stmt_tables [OF st] by simp
  show thesis
  proof (cases "y = None \<and> (\<exists>c p. query_row (cred_at t i) (credentials s) = Some c \<and> Open A m (cd_envelope c) = Inr p)")
    case True
    then obtain c p where c: "y = None" "query_row (cred_at t i) (credentials s) = Some c" "Open A m (cd_envelope c) = Inr p" by blast
    obtain z x2 where f: "fn (cd_username c) p x = (z, x2)" by fastforce
    have "r = (case z of None \<Rightarrow> Inr () | Some e \<Rightarrow> Inl (CredFn e))" "x' = x2"
      using assms st c cr f by (auto simp: use_in_def Let_def split: option.splits)
    with f query_row_SomeD [OF c(2)] c(3) show ?thesis by (intro used [of c p]) (auto simp: cred_at_def)
  next
    case False
    have "(\<exists>e. r = Inl e) \<and> x' = x"
      using assms st cr False by (cases y) (auto simp: use_in_def split: option.splits sum.splits)
    then show ?thesis using unused by blast
  qed
qed

lemma GetDevice_row:
  assumes "GetDevice t i s = (Inr d, s')"
  shows "credentials s' = credentials (s :: 'a cred_db_scheme)" and "\<exists>v \<in> set (rows (devices s)). dv_id v = i \<and> dv_tenant v = t \<and> d = device_of v"
proof -
  obtain y s1 where st: "stmt s = (y, s1)" by fastforce
  have "y = None" "s' = s1" "\<exists>v. query_row (\<lambda>r. dv_tenant r = t \<and> dv_id r = i) (devices s1) = Some v \<and> d = device_of v"
    using assms st by (auto simp: GetDevice_def exec_def split: option.splits)
  with stmt_tables [OF st] show "credentials s' = credentials s"
    "\<exists>v \<in> set (rows (devices s)). dv_id v = i \<and> dv_tenant v = t \<and> d = device_of v"
    by (auto dest: query_row_SomeD)
qed

lemma dial_shell_safe:
  assumes "dial_shell lp now P cfg \<lparr>ss_ops = [], ss_keys = k\<rparr> = (e, x)"
    and "sc_HostKeyCallback cfg = None" and "sc_KnownHosts cfg = Some n"
  shows "opened (ss_ops x) = (if e = None then (1, 1) else (0, 0))"
    and "SendPassword u p \<in> set (ss_ops x) \<Longrightarrow> u = sc_Username cfg \<and> p = sc_Password cfg \<and>
      db_pin (ss_keys x) (peer_id lp cfg P) = Some (base64 (pe_key P)) \<and>
      (\<forall>k'. db_pin k (peer_id lp cfg P) = Some k' \<longrightarrow> k' = base64 (pe_key P))"
proof -
  obtain r ops k' where d: "DialSSHShell lp now cfg P k = (r, ops, k')" by (cases "DialSSHShell lp now cfg P k")
  then have m: "(True, r, ops, k') \<in> {(True, DialSSH lp now cfg P k), (False, DialSSHExec lp now cfg P k),
      (True, DialSSHShell lp now cfg P k)}" by simp
  have x: "x = \<lparr>ss_ops = ops, ss_keys = k'\<rparr>" "e = None \<longleftrightarrow> (\<exists>u. r = Inr u)"
    using assms(1) d by (auto simp: dial_shell_def split: sum.splits)
  show "opened (ss_ops x) = (if e = None then (1, 1) else (0, 0))"
    using dial_balanced [OF m] x by (cases r) auto
  show "u = sc_Username cfg \<and> p = sc_Password cfg \<and> db_pin (ss_keys x) (peer_id lp cfg P) = Some (base64 (pe_key P)) \<and>
      (\<forall>k'. db_pin k (peer_id lp cfg P) = Some k' \<longrightarrow> k' = base64 (pe_key P))" if "SendPassword u p \<in> set (ss_ops x)"
    using dial_pinned [OF m assms(2,3)] that x(1) by simp
qed

text \<open>C39: The web terminal of a device. Whatever fails, a password is sent only if the device is the tenant's,
  and then it is the secret that the tenant's credential of that very device opens to, sent with the user name of
  that credential to a peer that showed the key pinned for the tenant at that address - the one pinned
  before, if there was one; and a terminal that is not opened leaves no connection behind.\<close>

theorem terminal_password_path:
  assumes "terminal_backend lp A master timeout now P t i \<lparr>ss_ops = [], ss_keys = k\<rparr> s = (r, x, s')"
  shows "opened (ss_ops x) = (case r of Inl e \<Rightarrow> (0, 0) | Inr _ \<Rightarrow> (1, 1)) \<and>
    (\<forall>u p. SendPassword u p \<in> set (ss_ops x) \<longrightarrow> (\<exists>d \<in> set (rows (devices s)). \<exists>c \<in> set (rows (credentials s)).
       dv_id d = i \<and> dv_tenant d = t \<and> dv_credential d = Some (cd_id c) \<and> cd_tenant c = t \<and>
       cd_username c = u \<and> Open A master (cd_envelope c) = Inr p \<and>
       (let peer = peer_id lp (server_ssh timeout (device_of d) u p) P
        in fst peer = t \<and> db_pin (ss_keys x) peer = Some (base64 (pe_key P)) \<and>
           (\<forall>k'. db_pin k peer = Some k' \<longrightarrow> k' = base64 (pe_key P)))))"
proof -
  let ?x = "\<lparr>ss_ops = [], ss_keys = k\<rparr>"
  obtain g s1 where g: "GetDevice t i s = (g, s1)" by fastforce
  show ?thesis
  proof (cases "(\<exists>e. g = Inl e) \<or> (\<exists>d. g = Inr d \<and> d_CredentialID d = None)")
    case True
    then have "(\<exists>e. r = Inl e) \<and> x = ?x" using assms g by (auto simp: terminal_backend_def)
    then show ?thesis by auto
  next
    case False
    then obtain d c where d: "g = Inr d" "d_CredentialID d = Some c" by (cases g) auto
    from GetDevice_row [OF g [unfolded d(1)]] obtain v where cr: "credentials s1 = credentials s"
      and v: "v \<in> set (rows (devices s))" "dv_id v = i" "dv_tenant v = t" "d = device_of v" by blast
    have cfg: "(server_ssh timeout d u p)\<lparr>sc_TenantID := t\<rparr> = server_ssh timeout d u p" for u p
      by (simp add: server_ssh_def v device_of_def)
    define fn where "fn = (\<lambda>u p. dial_shell lp now P (server_ssh timeout d u p))"
    obtain r1 where use: "use_in A master now fn t c ?x s1 = (r1, x, s')" and r: "r = map_sum TermUse id r1"
      using assms g d by (auto simp: terminal_backend_def cfg fn_def split: prod.splits sum.splits)
    from use show ?thesis
    proof (cases rule: use_in_cases)
      case (unused e)
      then show ?thesis using r by simp
    next
      case (used cd p)
      obtain e x1 where f: "dial_shell lp now P (server_ssh timeout d (cd_username cd) p) ?x = (e, x1)" by fastforce
      have h: "sc_HostKeyCallback (server_ssh timeout d u p) = None" "sc_KnownHosts (server_ssh timeout d u p) = Some 0"
        "sc_Username (server_ssh timeout d u p) = u" "sc_Password (server_ssh timeout d u p) = p" for u p
        by (simp_all add: server_ssh_def)
      have x: "x = x1" "r = (case e of None \<Rightarrow> Inr () | Some e \<Rightarrow> Inl (TermUse (CredFn e)))"
        using used(5,6) r f by (auto simp: fn_def split: option.splits)
      note safe = dial_shell_safe [OF f h(1,2), folded x(1)]
      have t: "fst (peer_id lp (server_ssh timeout d u p) P) = t" for u p
        by (simp add: peer_id_def server_ssh_def v device_of_def Let_def split: prod.splits)
      have dc: "dv_credential v = Some c" using d(2) v(4) by (simp add: device_of_def)
      show ?thesis
      proof (intro conjI allI impI)
        show "opened (ss_ops x) = (case r of Inl e \<Rightarrow> (0, 0) | Inr _ \<Rightarrow> (1, 1))" using safe(1) x(2) by (auto split: option.splits)
        fix u' p' assume "SendPassword u' p' \<in> set (ss_ops x)"
        from safe(2) [OF this] have up: "u' = cd_username cd" "p' = p" and pin: "db_pin (ss_keys x) (peer_id lp (server_ssh timeout d u' p') P) =
            Some (base64 (pe_key P))" "\<forall>k'. db_pin k (peer_id lp (server_ssh timeout d u' p') P) = Some k' \<longrightarrow> k' = base64 (pe_key P)"
          unfolding h by auto
        show "\<exists>d \<in> set (rows (devices s)). \<exists>c \<in> set (rows (credentials s)).
          dv_id d = i \<and> dv_tenant d = t \<and> dv_credential d = Some (cd_id c) \<and> cd_tenant c = t \<and>
          cd_username c = u' \<and> Open A master (cd_envelope c) = Inr p' \<and>
          (let peer = peer_id lp (server_ssh timeout (device_of d) u' p') P
           in fst peer = t \<and> db_pin (ss_keys x) peer = Some (base64 (pe_key P)) \<and>
              (\<forall>k'. db_pin k peer = Some k' \<longrightarrow> k' = base64 (pe_key P)))"
          using used(1-4) v dc up pin t cr unfolding Let_def
          by (intro bexI [of _ v] bexI [of _ cd]) auto
      qed
    qed
  qed
qed

definition demo_terminal_db :: cred_db where
  "demo_terminal_db = snd (CreateDevice 0 \<lparr>d_ID = 0, d_TenantID = 1, d_Hostname = ''r1'', d_Address = ''r1:2222'', d_Port = 22,
     d_Driver = ''cisco_ios'', d_GroupID = None, d_CredentialID = Some 1, d_CreatedAt = 0\<rparr> (snd demo_create))"

lemma terminal_password_path_witness:
  "let m = terminal_backend ex_lp demo_aead ''pw'' 0 0 (ex_ssh_peer\<lparr>pe_pty := None\<rparr>) 1 1 \<lparr>ss_ops = [], ss_keys = ex_kh_db\<rparr> demo_terminal_db
   in fst m = Inr () \<and> SendPassword ''admin'' ''s3cret'' \<in> set (ss_ops (fst (snd m))) \<and> opened (ss_ops (fst (snd m))) = (1, 1) \<and>
     (\<exists>c \<in> set (rows (credentials demo_terminal_db)). cd_username c = ''admin'' \<and> Open demo_aead ''pw'' (cd_envelope c) = Inr ''s3cret'')"
proof -
  let ?m = "terminal_backend ex_lp demo_aead ''pw'' 0 0 (ex_ssh_peer\<lparr>pe_pty := None\<rparr>) 1 1 \<lparr>ss_ops = [], ss_keys = ex_kh_db\<rparr> demo_terminal_db"
  have m: "?m = (fst ?m, fst (snd ?m), snd (snd ?m))" by simp
  have e: "fst ?m = Inr ()" "SendPassword ''admin'' ''s3cret'' \<in> set (ss_ops (fst (snd ?m)))" by code_simp+
  note t = terminal_password_path [OF m]
  have o: "opened (ss_ops (fst (snd ?m))) = (1, 1)" using conjunct1 [OF t] unfolding e(1) by (simp only: sum.case)
  have "\<exists>c \<in> set (rows (credentials demo_terminal_db)). cd_username c = ''admin'' \<and> Open demo_aead ''pw'' (cd_envelope c) = Inr ''s3cret''"
    using conjunct2 [OF t, rule_format, OF e(2)] by blast
  with e o show ?thesis by (simp only: Let_def simp_thms)
qed

text \<open>Every SSH connection of the server checks the host key in the store, under the device's tenant.\<close>

lemma server_ssh_pinned:
  "server_session timeout kind d user pw \<in> {ShellWire cfg, ExecWire cfg, NetconfWire cfg} \<Longrightarrow>
     sc_HostKeyCallback cfg = None \<and> sc_KnownHosts cfg = Some 0 \<and> sc_TenantID cfg = d_TenantID d"
  by (cases kind) (auto simp: server_session_def server_ssh_def split: prod.splits)

text \<open>A secret is either a password or a bearer token.\<close>

lemma bearer_or_password: "bearer_of user pw = (u, p, b) \<Longrightarrow> (u, p) = ([], []) \<and> b = pw \<or> (u, p) = (user, pw) \<and> b = []"
  by (auto simp: bearer_of_def split: if_splits)

text \<open>Without a schedule the server only prunes.\<close>

lemma server_jobs_names:
  "map sj_Name (server_jobs schedule prune backup) =
     ''probe-retention'' # (if schedule > 0 then [''scheduled-backup''] else [])"
  by (simp add: server_jobs_def)

end
