(* ===== verification/Spec2Isabelle.thy ===== *)
theory Spec2Isabelle
  imports ChangeReq PollerJobs WireServer Lease DiffEngine Changes Compliance RulePacks KnownHosts
    Dial Telnet WebSocket Auth ApiChange Storage Automation Backup Tenants Discovery Sessions Drivers Notify Topology Search Probes GitOps Config Routes
    Hooks GroupPacks Schedules ProbeRuns AuditExport Metrics Dashboard SshDial InventoryApi Wiring
begin

text \<open>
  NetMantle is a network configuration manager: a server in Go that keeps an inventory of devices of several
  tenants, backs their configurations up into git, compares and judges what changed, and pushes approved
  changes back. This development models it package by package, over one model of SQLite, and proves what
  makes each part correct. All paths below are under \<open>src/\<close>.

  \<^bold>\<open>The program and its parts.\<close> A request reaches \<open>internal/api\<close> through the route table and its
  guards (\<open>Routes\<close>; sessions and users in \<open>Auth\<close> and \<open>Totp\<close>, tokens in \<open>ApiTokens\<close>, the middleware in
  \<open>ApiChange\<close>). Handlers call services that keep their state in tables of one SQLite database. A backup
  (\<open>Backup\<close>) opens a secret (\<open>Vault\<close>), dials the device (\<open>Dial\<close>, \<open>SshDial\<close>, \<open>KnownHosts\<close>, \<open>Prompt\<close>, \<open>Telnet\<close>,
  \<open>Netconf\<close>, \<open>Sessions\<close>), runs a driver (\<open>Drivers\<close>), commits what it read (\<open>ConfigStore\<close>) and then runs the hook of the
  server (\<open>Hooks\<close>), which feeds the change log (\<open>Changes\<close> on \<open>DiffEngine\<close>), the search index (\<open>Search\<close>), the
  compliance engine (\<open>Compliance\<close>), the notifications (\<open>Notify\<close>) and the git mirror (\<open>GitOps\<close>). Changes to devices go through
  the approval workflow (\<open>ChangeReq\<close>, \<open>ApiChange\<close>) and push automation (\<open>Automation\<close>). Remote pollers take jobs from a
  queue over gRPC (\<open>PollerJobs\<close>, \<open>WireServer\<close>); replicas elect one runner of the periodic jobs (\<open>Lease\<close>).

  \<^bold>\<open>Which theory models what.\<close>
  \<^item> \<open>Prelude\<close>, \<open>Sql\<close>: strings, instants, lists; tables with growing keys and statements that may fail; the locale
    \<open>tenant_isolation\<close>, interpreted for change requests, devices and schedules.
  \<^item> \<open>ChangeReq\<close>: \<open>internal/changereq\<close>. \<open>PollerJobs\<close>, \<open>WireServer\<close>: \<open>internal/poller\<close> and \<open>internal/server/grpc.go\<close>, joined by
    the locale \<open>wire_jobs\<close>. \<open>Lease\<close>: \<open>internal/scheduler\<close>.
  \<^item> \<open>DiffEngine\<close>, \<open>Changes\<close>, \<open>Compliance\<close>, \<open>RulePacks\<close>: \<open>internal/diff\<close>, \<open>internal/changes\<close>, \<open>internal/compliance\<close> and its
    \<open>rulepacks\<close>.
  \<^item> \<open>Base64\<close>, \<open>KnownHosts\<close>, \<open>Dial\<close>, \<open>SshDial\<close>, \<open>Prompt\<close>, \<open>Telnet\<close>, \<open>Sessions\<close> and half of \<open>Netconf\<close>: \<open>internal/transport\<close>, with
    the locale \<open>known_hosts_store\<close> that both host-key stores satisfy. \<open>WebSocket\<close>: \<open>internal/terminal\<close>.
  \<^item> \<open>Drivers\<close>, \<open>Netconf\<close>: \<open>internal/drivers\<close>. \<open>Vault\<close>: \<open>internal/crypto\<close> and \<open>internal/credentials\<close>. \<open>ConfigStore\<close>:
    \<open>internal/configstore\<close>. \<open>Backup\<close>: \<open>internal/backup\<close>.
  \<^item> \<open>Auth\<close>, \<open>Totp\<close>: \<open>internal/auth\<close>. \<open>ApiTokens\<close>: \<open>internal/apitokens\<close>. \<open>Tenants\<close>, \<open>Devices\<close>, \<open>AuditLog\<close>, \<open>Storage\<close>, \<open>Config\<close>:
    the packages of those names. \<open>Automation\<close>, \<open>Discovery\<close>, \<open>Notify\<close>, \<open>Search\<close>, \<open>Probes\<close>, \<open>GitOps\<close>: likewise; \<open>Topology\<close>:
    \<open>internal/netops\<close>. \<open>Metrics\<close>: \<open>internal/observability/metrics.go\<close>.
  \<^item> \<open>Routes\<close>, \<open>InventoryApi\<close>, \<open>ApiChange\<close>: \<open>internal/api/server.go\<close> and \<open>handlers_features.go\<close>. \<open>GroupPacks\<close>, \<open>Schedules\<close>, \<open>ProbeRuns\<close>: parts of
    \<open>handlers_phases.go\<close>. \<open>AuditExport\<close>, \<open>Dashboard\<close>: the handlers of those names. \<open>Hooks\<close>, \<open>Wiring\<close>: the
    callbacks, session factories, terminal backend and jobs that \<open>runServe\<close> of \<open>cmd/netmantle/main.go\<close> installs.

  \<^bold>\<open>State and operations.\<close> A service's tables are fields of a record that extends \<open>conn\<close>, the connection: the
  outcomes of the statements to come (\<open>faults\<close>) and the last key. A row is a record with the table's columns. An
  operation keeps its Go name, takes the instants its calls of \<open>time.Now\<close> return, its random draws and the
  state, and gives an error or a value with the state it leaves. Every statement may fail, so every error return
  is a branch; a transaction that fails puts its tables back. What concurrency can do is written out: a stale
  snapshot is an ordinary argument (\<open>ChangeReq\<close>), operations of several statements are steps of an inductive
  relation (\<open>PollerJobs\<close>, \<open>WireServer\<close>, \<open>Discovery\<close>), events of two goroutines are one sequence (\<open>WebSocket\<close>), and where only an
  order matters it is a parameter (\<open>Automation\<close>, \<open>ProbeRuns\<close>, \<open>Topology\<close>, \<open>Dashboard\<close>).

  \<^bold>\<open>What is proved.\<close> Safety of the workflow: nothing is applied before another user's approval, one of two
  racing decisions wins, a terminal state stays, the event log replays to the status, and the endpoint
  runs approved requests only. The queue leases a job to one poller and takes one result; a login nonce is
  used once; two holders never have an unexpired lease. A revoked token, a session logged out and a
  redeemed challenge whose DELETE worked stay dead; a second factor cannot be skipped; no handler is reached past its guard. A pinned
  host key stays, a password goes only to a peer that showed it, and no dial leaks a connection. The
  web terminal sends a device's own secret or none, and every change of the inventory that is answered
  with success is on record unless the database fails. What the web terminal records is what was printed and typed. Round
  trips: a diff rebuilds both texts with as few changes as possible, a secret is opened to what was sealed, a backup reads
  back, a webhook and an exported audit log are parsed to what was sent. Refinement and equivalence: the tenant
  operations implement a directory of tenants with quotas; the index scan of \<open>orderedContains\<close> is the
  subsequence test. Termination and liveness: the safe-mode poll and the CIDR expansion end, and a command whose
  prompt arrives returns its output when nothing before it can be taken for a prompt. Composition: the hook's effect on every service, the topology a discovery
  leads to, the dashboard's sums. The lemma groups before a property are the component's invariant, its
  operations' postconditions and what each statement leaves alone.

  \<^bold>\<open>Assumptions.\<close> Timestamps of columns are RFC 3339 in UTC and whole seconds, where text order is time order.
  Integers are unbounded except where their width matters: counters of \<open>Metrics\<close> and bytes of the wire
  protocols are words. Cryptography, bcrypt, random bytes, go-git, encoding/json, encoding/xml, text/template, net/http, gRPC,
  regexp, YAML, parsing and printing of times and \<open>float64\<close> rounding are parameters; a property that relies on one
  says how in its hypotheses, and its witness runs it with a concrete one. A hypothesis \<open>faults s = []\<close>
  means a database whose statements succeed.

  \<^bold>\<open>Bounds and fuel.\<close> No loop runs on fuel. Loops are structural or have a measure: reading loops recurse on the
  list of what the connection's reads return, the runner on the ticks of its timer. Two loops whose end is a
  claim of its own, the poll of safe mode and the CIDR expansion, are partial functions where \<open>None\<close> means
  that the loop does not return; \<open>safe_mode_poll_ends\<close> and \<open>expand_exact\<close> show that they do, and with what. The diff's
  table is the quadratic one of the code.

  \<^bold>\<open>Not modelled.\<close> Network and file plumbing: the listeners of \<open>internal/server/grpc.go\<close>, the command line, flag
  parsing, signal handling and construction of services in \<open>cmd/netmantle/main.go\<close>; \<open>internal/logging\<close> and the request logger,
  which only write text; \<open>internal/version\<close>; the embedded user interface under \<open>internal/web\<close>; generated code
  (\<open>pollerv1\<close>). The handlers of \<open>server.go\<close> and \<open>handlers_phases.go\<close> that decode a body, call one service and encode its answer are
  represented by the services' operations, not by definitions of their own, apart from those named above.
\<close>

end
